(* ===== verification/Queue_Prelude.thy ===== *)
theory Queue_Prelude
  imports
    Complex_Main
    "HOL-Library.AList"
    "HOL-Library.Char_ord"
    "HOL-Library.List_Lexorder"
    "HOL-Library.Product_Lexorder"
    "HOL-Library.Option_ord"
begin

text \<open>
  Shared vocabulary of the development: Python values, exceptions, dictionaries,
  instants and identifiers, with the generic lemmas the component theories use.

  Python \<open>int\<close> is \<open>int\<close>, \<open>str\<close> is \<open>string\<close> (ASCII; the code
  only compares, slices and concatenates the strings modelled here), a \<open>dict\<close> is an
  association list without repeated keys in insertion order, and a raised exception is
  \<open>Inl\<close> of a \<open>py_error\<close>; an \<open>ApiError\<close> is an exception of a client library, with the name of its class
  and the status code it carries. A \<open>float\<close> is an exact rational: rounding of float
  arithmetic, infinities and NaN are outside the model.
\<close>

section \<open>Values and errors\<close>

datatype py_error =
    ValueError
  | TypeError
  | KeyError
  | ZeroDivisionError
  | RuntimeError
  | TimeoutError
  | NotImplementedError
  | QueueConfigurationError
  | QueueEventBufferFull
  | QueueDispatchError
  | QueueDispatchRepairError
  | TaskIdentityError
  | TaskIdentityTooLargeError int int
  | MissingDependencyError
  | NegativePublishError
  | ApiError string "int option"
  | EphemeralDatabaseError
  | IntegrityError

datatype pyval =
    PNone
  | PBool bool
  | PInt int
  | PFloat rat
  | PDecimal rat
  | PStr string
  | PList "pyval list"
  | PDict "(string \<times> pyval) list"

type_synonym 'a result = "py_error + 'a"
type_synonym dict = "(string \<times> pyval) list"
type_synonym uuid = nat

fun py_num :: "pyval \<Rightarrow> rat option" where
  "py_num (PBool b) = Some (if b then 1 else 0)"
| "py_num (PInt n) = Some (of_int n)"
| "py_num (PFloat x) = Some x"
| "py_num (PDecimal x) = Some x"
| "py_num _ = None"

text \<open>
  Python's \<open>==\<close>: booleans, integers, floats and decimals compare by value, strings and
  lists structurally, dictionaries as finite maps (order does not matter).
\<close>

fun py_eq :: "pyval \<Rightarrow> pyval \<Rightarrow> bool"
  and py_eq_list :: "pyval list \<Rightarrow> pyval list \<Rightarrow> bool"
  and py_eq_items :: "(string \<times> pyval) list \<Rightarrow> (string \<times> pyval) list \<Rightarrow> bool" where
  "py_eq PNone v = (v = PNone)"
| "py_eq (PStr s) v = (v = PStr s)"
| "py_eq (PList xs) v = (case v of PList ys \<Rightarrow> py_eq_list xs ys | _ \<Rightarrow> False)"
| "py_eq (PDict d) v =
     (case v of PDict e \<Rightarrow> length d = length e \<and> py_eq_items d e | _ \<Rightarrow> False)"
| "py_eq u v = (py_num v \<noteq> None \<and> py_num u = py_num v)"
| "py_eq_list [] ys = (ys = [])"
| "py_eq_list (x # xs) ys =
     (case ys of [] \<Rightarrow> False | y # ys' \<Rightarrow> py_eq x y \<and> py_eq_list xs ys')"
| "py_eq_items [] e = True"
| "py_eq_items ((k, x) # d) e =
     ((case map_of e k of None \<Rightarrow> False | Some y \<Rightarrow> py_eq x y) \<and> py_eq_items d e)"

text \<open>\<open>bool(v)\<close>.\<close>

fun py_truthy :: "pyval \<Rightarrow> bool" where
  "py_truthy PNone = False"
| "py_truthy (PBool b) = b"
| "py_truthy (PInt n) = (n \<noteq> 0)"
| "py_truthy (PFloat x) = (x \<noteq> 0)"
| "py_truthy (PDecimal x) = (x \<noteq> 0)"
| "py_truthy (PStr s) = (s \<noteq> [])"
| "py_truthy (PList xs) = (xs \<noteq> [])"
| "py_truthy (PDict d) = (d \<noteq> [])"

section \<open>Dictionaries\<close>

abbreviation dict_get :: "('k \<times> 'v) list \<Rightarrow> 'k \<Rightarrow> 'v option" where
  "dict_get \<equiv> map_of"

abbreviation dict_set :: "'k \<Rightarrow> 'v \<Rightarrow> ('k \<times> 'v) list \<Rightarrow> ('k \<times> 'v) list" where
  "dict_set \<equiv> AList.update"

abbreviation dict_del :: "'k \<Rightarrow> ('k \<times> 'v) list \<Rightarrow> ('k \<times> 'v) list" where
  "dict_del \<equiv> AList.delete"

abbreviation dict_keys :: "('k \<times> 'v) list \<Rightarrow> 'k list" where
  "dict_keys \<equiv> map fst"

text \<open>\<open>source.get(key, default)\<close> with the value \<open>None\<close> as the default.\<close>

definition get_or_none :: "dict \<Rightarrow> string \<Rightarrow> pyval" where
  "get_or_none d k = (case dict_get d k of None \<Rightarrow> PNone | Some v \<Rightarrow> v)"

text \<open>\<open>d.update(e)\<close> inserts or overwrites the entries of \<open>e\<close> from left to right.\<close>

definition dict_update :: "('k \<times> 'v) list \<Rightarrow> ('k \<times> 'v) list \<Rightarrow> ('k \<times> 'v) list" where
  "dict_update d e = fold (\<lambda>(k, v). dict_set k v) e d"

named_theorems dict_simps \<open>lookup after update and deletion\<close>

lemma dict_get_set [dict_simps]: "dict_get (dict_set k v d) k' = (if k' = k then Some v else dict_get d k')"
  by (simp add: update_conv)

lemma dict_get_del [dict_simps]: "dict_get (dict_del k d) k' = (if k' = k then None else dict_get d k')"
  by (simp add: delete_conv)

lemma dict_get_update [dict_simps]:
  "dict_get (dict_update d e) k = (case dict_get (rev e) k of None \<Rightarrow> dict_get d k | Some v \<Rightarrow> Some v)"
  unfolding dict_update_def
  by (induction e arbitrary: d) (auto simp: dict_simps map_add_def split: option.splits)

lemma distinct_keys_set [simp]:
  "distinct (dict_keys (dict_set k v d)) \<longleftrightarrow> distinct (dict_keys d)"
  by (induction d) (auto simp: update_keys)

lemma distinct_keys_del [simp]: "distinct (dict_keys d) \<Longrightarrow> distinct (dict_keys (dict_del k d))"
  by (rule distinct_delete)

lemma keys_dict_set: "fst ` set (dict_set k v d) = insert k (fst ` set d)"
  by (induction d) auto

section \<open>Slices\<close>

text \<open>\<open>xs[:n]\<close>; a negative bound counts from the end.\<close>

definition py_take :: "int \<Rightarrow> 'a list \<Rightarrow> 'a list" where
  "py_take n xs = take (nat (if n < 0 then int (length xs) + n else n)) xs"

fun take_limit :: "int option \<Rightarrow> 'a list \<Rightarrow> 'a list" where
  "take_limit None xs = xs"
| "take_limit (Some n) xs = py_take n xs"

section \<open>Instants\<close>

text \<open>
  A \<open>datetime\<close> is a wall-clock reading in microseconds with an optional UTC offset. The
  code normalises every stored instant to UTC; a stored instant is an \<open>int\<close>.
\<close>

datatype py_datetime = Naive int | Aware int int

type_synonym instant = int

fun ensure_utc_datetime :: "py_datetime \<Rightarrow> instant" where
  "ensure_utc_datetime (Naive wall) = wall"
| "ensure_utc_datetime (Aware wall offset) = wall - offset"

text \<open>Round half to even, as \<open>timedelta(seconds=x)\<close> rounds to microseconds.\<close>

definition round_half_even :: "rat \<Rightarrow> int" where
  "round_half_even x =
     (let f = \<lfloor>x\<rfloor>; d = x - of_int f in
      if d < 1 / 2 then f else if d > 1 / 2 then f + 1 else if even f then f else f + 1)"

definition timedelta_seconds :: "rat \<Rightarrow> int" where
  "timedelta_seconds x = round_half_even (x * 1000000)"

lemma round_half_even_nonneg: "0 \<le> x \<Longrightarrow> 0 \<le> round_half_even x"
  by (auto simp: round_half_even_def Let_def)

lemma round_half_even_mono_floor: "\<lfloor>x\<rfloor> \<le> round_half_even x \<and> round_half_even x \<le> \<lfloor>x\<rfloor> + 1"
  by (auto simp: round_half_even_def Let_def)

section \<open>Identifiers\<close>

text \<open>
  A UUID is its 128-bit integer. \<open>str(uuid)\<close> is the 36-character text of 32 lower-case
  hexadecimal digits in groups of 8, 4, 4, 4 and 12.
\<close>

definition hex_digit :: "nat \<Rightarrow> char" where
  "hex_digit n = char_of (if n < 10 then 48 + n else 87 + n)"

fun hex_digits :: "nat \<Rightarrow> nat \<Rightarrow> string" where
  "hex_digits 0 n = []"
| "hex_digits (Suc w) n = hex_digits w (n div 16) @ [hex_digit (n mod 16)]"

definition uuid_str :: "uuid \<Rightarrow> string" where
  "uuid_str u =
     hex_digits 8 (u div 16 ^ 24) @ ''-'' @ hex_digits 4 (u div 16 ^ 20) @ ''-'' @
     hex_digits 4 (u div 16 ^ 16) @ ''-'' @ hex_digits 4 (u div 16 ^ 12) @ ''-'' @
     hex_digits 12 u"

text \<open>
  The text of a UUID orders exactly like its integer, so the sort keys of the code that use
  \<open>str(record.id)\<close> and those that use \<open>record.id.int\<close> agree.
\<close>

lemma length_hex_digits [simp]: "length (hex_digits w n) = w"
  by (induction w arbitrary: n) auto

lemma lex_append_same_length:
  fixes a b :: "'a::linorder list"
  assumes "length a = length b"
  shows "a @ p < b @ q \<longleftrightarrow> a < b \<or> a = b \<and> p < q"
  using assms by (induction a b rule: list_induct2) auto

lemma hex_digit_less: "m < 16 \<Longrightarrow> n < 16 \<Longrightarrow> hex_digit m < hex_digit n \<longleftrightarrow> m < n"
  by (auto simp: hex_digit_def less_char_def)

lemma hex_digit_inj: "m < 16 \<Longrightarrow> n < 16 \<Longrightarrow> hex_digit m = hex_digit n \<longleftrightarrow> m = n"
  using hex_digit_less [of m n] hex_digit_less [of n m] by (metis less_irrefl nat_neq_iff)

lemma mod_pow_split:
  fixes a b B m :: nat
  assumes "0 < B"
  shows "a mod (m * B) < b mod (m * B) \<longleftrightarrow>
      (a div B) mod m < (b div B) mod m \<or> (a div B) mod m = (b div B) mod m \<and> a mod B < b mod B"
    and "a mod (m * B) = b mod (m * B) \<longleftrightarrow> (a div B) mod m = (b div B) mod m \<and> a mod B = b mod B"
proof -
  have split: "c mod (m * B) = B * ((c div B) mod m) + c mod B" for c
    by (simp add: mult.commute mod_mult2_eq)
  have lex: "B * x + y < B * x' + y' \<longleftrightarrow> x < x' \<or> x = x' \<and> y < y'"
    if "y < B" "y' < B" for x x' y y' :: nat
  proof -
    have ord: "B * u + v < B * u' + v'" if "u < u'" "v < B" for u u' v v' :: nat
    proof -
      from that(1) have "B * Suc u \<le> B * u'" by (intro mult_le_mono2) simp
      with that(2) show ?thesis by simp
    qed
    show ?thesis using ord [of x x' y y'] ord [of x' x y' y] that
      by (cases x x' rule: linorder_cases) auto
  qed
  show "a mod (m * B) < b mod (m * B) \<longleftrightarrow>
      (a div B) mod m < (b div B) mod m \<or> (a div B) mod m = (b div B) mod m \<and> a mod B < b mod B"
    using lex [of "a mod B" "b mod B"] assms by (simp add: split)
  show "a mod (m * B) = b mod (m * B) \<longleftrightarrow> (a div B) mod m = (b div B) mod m \<and> a mod B = b mod B"
  proof
    assume "a mod (m * B) = b mod (m * B)"
    then show "(a div B) mod m = (b div B) mod m \<and> a mod B = b mod B"
      using lex [of "a mod B" "b mod B" "(a div B) mod m" "(b div B) mod m"]
        lex [of "b mod B" "a mod B" "(b div B) mod m" "(a div B) mod m"] assms
      by (simp add: split) linarith
  qed (simp add: split)
qed

lemma hex_digits_order:
  "(hex_digits w a < hex_digits w b \<longleftrightarrow> a mod 16 ^ w < b mod 16 ^ w) \<and>
   (hex_digits w a = hex_digits w b \<longleftrightarrow> a mod 16 ^ w = b mod 16 ^ w)"
proof (induction w arbitrary: a b)
  case 0
  show ?case by simp
next
  case (Suc w)
  have pow: "(16::nat) ^ Suc w = 16 ^ w * 16" by simp
  show ?case
    unfolding hex_digits.simps pow
    by (simp add: lex_append_same_length hex_digit_less hex_digit_inj Suc.IH mod_pow_split)
qed

lemma mod_hex_split:
  fixes a b :: nat
  shows "a mod 16 ^ (k + l) < b mod 16 ^ (k + l) \<longleftrightarrow>
      (a div 16 ^ l) mod 16 ^ k < (b div 16 ^ l) mod 16 ^ k \<or>
      (a div 16 ^ l) mod 16 ^ k = (b div 16 ^ l) mod 16 ^ k \<and> a mod 16 ^ l < b mod 16 ^ l"
    and "a mod 16 ^ (k + l) = b mod 16 ^ (k + l) \<longleftrightarrow>
      (a div 16 ^ l) mod 16 ^ k = (b div 16 ^ l) mod 16 ^ k \<and> a mod 16 ^ l = b mod 16 ^ l"
  unfolding power_add by (rule mod_pow_split; simp)+

theorem uuid_str_order:
  assumes "a < 16 ^ 32" and "b < 16 ^ 32"
  shows "uuid_str a < uuid_str b \<longleftrightarrow> a < b" and "uuid_str a = uuid_str b \<longleftrightarrow> a = b"
proof -
  have shift: "c div 16 ^ 12 div 16 ^ 4 = c div 16 ^ 16" "c div 16 ^ 16 div 16 ^ 4 = c div 16 ^ 20"
    "c div 16 ^ 20 div 16 ^ 4 = c div 16 ^ 24" for c :: nat
    by (simp_all add: div_mult2_eq [symmetric])
  note split = mod_hex_split [where k = 20 and l = 12 and a = a and b = b]
    mod_hex_split [where k = 16 and l = 4 and a = "a div 16 ^ 12" and b = "b div 16 ^ 12"]
    mod_hex_split [where k = 12 and l = 4 and a = "a div 16 ^ 16" and b = "b div 16 ^ 16"]
    mod_hex_split [where k = 8 and l = 4 and a = "a div 16 ^ 20" and b = "b div 16 ^ 20"]
  have less: "a < b \<longleftrightarrow> a mod 16 ^ 32 < b mod 16 ^ 32" and eq: "a = b \<longleftrightarrow> a mod 16 ^ 32 = b mod 16 ^ 32"
    using assms by simp_all
  show "uuid_str a < uuid_str b \<longleftrightarrow> a < b"
    unfolding less uuid_str_def using split
    by (simp add: lex_append_same_length hex_digits_order shift del: power_numeral) blast
  show "uuid_str a = uuid_str b \<longleftrightarrow> a = b"
    unfolding eq uuid_str_def using split
    by (simp add: hex_digits_order shift del: power_numeral)
qed

end
