(* ===== verification/Queue_Models.thy ===== *)
theory Queue_Models
  imports Queue_Prelude
begin

text \<open>
  The domain model of \<open>models.py\<close> and the result records of \<open>execution/base.py\<close>:
  one record per dataclass, one constructor per status literal, one definition per property.
  \<open>datetime.now(UTC)\<close> inside a property is an argument \<open>now\<close>. The field \<open>id\<close> is
  \<open>rid\<close> (the name \<open>id\<close> is HOL's identity); fields of the smaller dataclasses carry a
  prefix so that record selectors do not clash.
\<close>

section \<open>Status\<close>

datatype task_status = Pending | Scheduled | Running | Completed | Failed | Cancelled | Expired

definition TERMINAL_STATUSES :: "task_status list" where
  "TERMINAL_STATUSES = [Completed, Failed, Cancelled, Expired]"

section \<open>Heartbeats\<close>

record heartbeat_touch =
  ht_task_id :: uuid
  ht_expected_retry_count :: "int option"
  ht_metadata_patch :: "dict option"

record heartbeat_touch_result =
  touched_task_ids :: "uuid list"
  missed_task_ids :: "uuid list"

definition empty_touch_result :: heartbeat_touch_result where
  "empty_touch_result = \<lparr>touched_task_ids = [], missed_task_ids = []\<rparr>"

text \<open>\<open>set.add\<close> on a duplicate-free list.\<close>

definition set_add :: "'a \<Rightarrow> 'a list \<Rightarrow> 'a list" where
  "set_add x xs = (if x \<in> set xs then xs else xs @ [x])"

lemma set_set_add [simp]: "set (set_add x xs) = insert x (set xs)"
  by (auto simp: set_add_def)

lemma distinct_set_add [simp]: "distinct (set_add x xs) \<longleftrightarrow> distinct xs"
  by (simp add: set_add_def)

section \<open>Capabilities and statistics\<close>

record capabilities =
  supports_worker_wakeups :: bool
  wakeup_backend :: "string option"
  wakeups_durable :: bool
  supports_completion_events :: bool
  supports_maintenance :: bool

definition default_capabilities :: capabilities where
  "default_capabilities =
     \<lparr>supports_worker_wakeups = False, wakeup_backend = None, wakeups_durable = False,
      supports_completion_events = False, supports_maintenance = False\<rparr>"

record queue_statistics =
  st_pending :: int
  st_scheduled :: int
  st_running :: int
  st_completed :: int
  st_failed :: int
  st_cancelled :: int
  st_expired :: int

definition empty_statistics :: queue_statistics where
  "empty_statistics =
     \<lparr>st_pending = 0, st_scheduled = 0, st_running = 0, st_completed = 0,
      st_failed = 0, st_cancelled = 0, st_expired = 0\<rparr>"

definition statistics_total :: "queue_statistics \<Rightarrow> int" where
  "statistics_total s =
     st_pending s + st_scheduled s + st_running s + st_completed s + st_failed s
     + st_cancelled s + st_expired s"

text \<open>\<open>getattr(statistics, status)\<close> and \<open>setattr(statistics, status, n)\<close>.\<close>

fun statistics_get :: "queue_statistics \<Rightarrow> task_status \<Rightarrow> int" where
  "statistics_get s Pending = st_pending s"
| "statistics_get s Scheduled = st_scheduled s"
| "statistics_get s Running = st_running s"
| "statistics_get s Completed = st_completed s"
| "statistics_get s Failed = st_failed s"
| "statistics_get s Cancelled = st_cancelled s"
| "statistics_get s Expired = st_expired s"

fun statistics_set :: "queue_statistics \<Rightarrow> task_status \<Rightarrow> int \<Rightarrow> queue_statistics" where
  "statistics_set s Pending n = s\<lparr>st_pending := n\<rparr>"
| "statistics_set s Scheduled n = s\<lparr>st_scheduled := n\<rparr>"
| "statistics_set s Running n = s\<lparr>st_running := n\<rparr>"
| "statistics_set s Completed n = s\<lparr>st_completed := n\<rparr>"
| "statistics_set s Failed n = s\<lparr>st_failed := n\<rparr>"
| "statistics_set s Cancelled n = s\<lparr>st_cancelled := n\<rparr>"
| "statistics_set s Expired n = s\<lparr>st_expired := n\<rparr>"

lemma statistics_get_set [simp]:
  "statistics_get (statistics_set s a n) b = (if b = a then n else statistics_get s b)"
  by (cases a; cases b) auto

lemma statistics_total_bump [simp]:
  "statistics_total (statistics_set s a (statistics_get s a + n)) = statistics_total s + n"
  by (cases a) (auto simp: statistics_total_def)

section \<open>Repair, reconciliation and recovery summaries\<close>

record dispatch_repair_result =
  dr_examined :: int
  dr_changed :: int
  dr_failed :: int
  dr_unchanged :: int
  dr_limit_reached :: bool

definition empty_dispatch_repair_result :: dispatch_repair_result where
  "empty_dispatch_repair_result =
     \<lparr>dr_examined = 0, dr_changed = 0, dr_failed = 0, dr_unchanged = 0, dr_limit_reached = False\<rparr>"

record external_reconciliation_result =
  er_repair :: dispatch_repair_result
  er_reconciled :: int

definition reconciliation_changed :: "external_reconciliation_result \<Rightarrow> int" where
  "reconciliation_changed r = dr_changed (er_repair r) + er_reconciled r"

datatype execution_cancel_status = Accepted | AlreadyCancelled | Retryable | Unsupported

record execution_cancel_result =
  cancel_status :: execution_cancel_status
  cancel_detail :: "string option"

definition permits_durable_cancel :: "execution_cancel_result \<Rightarrow> bool" where
  "permits_durable_cancel r \<longleftrightarrow> cancel_status r \<noteq> Retryable"

record schedule_assertion_result =
  sa_created :: int
  sa_repaired :: int
  sa_repair :: "dispatch_repair_result option"

definition assertion_changed :: "schedule_assertion_result \<Rightarrow> int" where
  "assertion_changed r = sa_created r + sa_repaired r"

record stale_recovery_result =
  sr_requeued :: int
  sr_failed :: int
  sr_skipped :: int
  sr_handler_needed :: int
  sr_requeued_task_ids :: "uuid list"
  sr_failed_task_ids :: "uuid list"
  sr_handler_needed_task_ids :: "uuid list"
  sr_repair :: "dispatch_repair_result option"

definition empty_stale_recovery_result :: stale_recovery_result where
  "empty_stale_recovery_result =
     \<lparr>sr_requeued = 0, sr_failed = 0, sr_skipped = 0, sr_handler_needed = 0,
      sr_requeued_task_ids = [], sr_failed_task_ids = [], sr_handler_needed_task_ids = [],
      sr_repair = None\<rparr>"

definition stale_recovery_to_payload :: "stale_recovery_result \<Rightarrow> (string \<times> int) list" where
  "stale_recovery_to_payload r =
     [(''requeued'', sr_requeued r), (''failed'', sr_failed r),
      (''skipped'', sr_skipped r), (''handler_needed'', sr_handler_needed r)]"

section \<open>Reservations, requests and records\<close>

record task_reservation =
  res_key :: string
  res_task_id :: uuid
  res_task_name :: string
  res_created_at :: instant

record task_request =
  req_task_name :: string
  req_args :: "pyval list"
  req_kwargs :: "dict option"
  req_queue :: string
  req_priority :: int
  req_max_retries :: int
  req_scheduled_at :: "instant option"
  req_expires_at :: "instant option"
  req_key :: "string option"
  req_execution_backend :: string
  req_execution_profile :: "string option"
  req_metadata :: "dict option"

text \<open>
  \<open>TaskRequest.__post_init__\<close>: the two optional timestamps of the submitted request are
  normalised to UTC.
\<close>

definition task_request_post_init ::
    "task_request \<Rightarrow> py_datetime option \<Rightarrow> py_datetime option \<Rightarrow> task_request" where
  "task_request_post_init r scheduled expires =
     r\<lparr>req_scheduled_at := map_option ensure_utc_datetime scheduled,
       req_expires_at := map_option ensure_utc_datetime expires\<rparr>"

record task_record =
  task_name :: string
  rid :: uuid
  args :: "pyval list"
  kwargs :: dict
  queue :: string
  execution_backend :: string
  execution_profile :: "string option"
  execution_ref :: "string option"
  worker_id :: "string option"
  status :: task_status
  priority :: int
  max_retries :: int
  retry_count :: int
  scheduled_at :: "instant option"
  expires_at :: "instant option"
  created_at :: instant
  queued_at :: instant
  started_at :: "instant option"
  completed_at :: "instant option"
  heartbeat_at :: "instant option"
  task_result :: pyval
  error :: "string option"
  key :: "string option"
  metadata :: dict
  dispatch_checked_at :: "instant option"

definition is_terminal :: "task_record \<Rightarrow> bool" where
  "is_terminal r \<longleftrightarrow> status r \<in> set TERMINAL_STATUSES"

definition is_due :: "instant \<Rightarrow> task_record \<Rightarrow> bool" where
  "is_due now r \<longleftrightarrow> (case scheduled_at r of None \<Rightarrow> True | Some t \<Rightarrow> t \<le> now)"

definition is_expired :: "instant \<Rightarrow> task_record \<Rightarrow> bool" where
  "is_expired now r \<longleftrightarrow> (case expires_at r of None \<Rightarrow> False | Some t \<Rightarrow> t \<le> now)"

text \<open>\<open>record.status in {"pending", "scheduled"}\<close>, the guard of every queue-side operation.\<close>

definition is_waiting :: "task_record \<Rightarrow> bool" where
  "is_waiting r \<longleftrightarrow> status r \<in> {Pending, Scheduled}"

lemma is_terminal_simp: "is_terminal r \<longleftrightarrow> status r \<in> {Completed, Failed, Cancelled, Expired}"
  by (simp add: is_terminal_def TERMINAL_STATUSES_def)

lemma status_partition:
  "is_waiting r \<or> status r = Running \<or> is_terminal r"
  by (cases "status r") (auto simp: is_waiting_def is_terminal_simp)

lemma waiting_not_terminal: "is_waiting r \<Longrightarrow> \<not> is_terminal r \<and> status r \<noteq> Running"
  by (auto simp: is_waiting_def is_terminal_simp)

end
