(* ===== verification/Backend_Helpers.thy ===== *)
theory Backend_Helpers
  imports Queue_Models
begin

text \<open>
  The module-level helpers of \<open>backends/base.py\<close>: attempt accounting, the retry
  schedule, dispatch reservations, record filters and the stale-requeue policy.
\<close>

section \<open>Dispatch reservations\<close>

definition EXTERNAL_DISPATCH_RESERVATION_PREFIX :: string where
  "EXTERNAL_DISPATCH_RESERVATION_PREFIX = ''__litestar_queues_dispatching__:''"

definition STALE_HEARTBEAT_ERROR :: string where
  "STALE_HEARTBEAT_ERROR = ''Task heartbeat stale''"

definition starts_with :: "'a list \<Rightarrow> 'a list \<Rightarrow> bool" where
  "starts_with p s \<longleftrightarrow> take (length p) s = p"

fun is_external_dispatch_reservation :: "string option \<Rightarrow> bool" where
  "is_external_dispatch_reservation None = False"
| "is_external_dispatch_reservation (Some ref) = starts_with EXTERNAL_DISPATCH_RESERVATION_PREFIX ref"

record dispatch_repair_candidates =
  rc_records :: "task_record list"
  rc_examined :: nat
  rc_limit_reached :: bool

definition no_repair_candidates :: dispatch_repair_candidates where
  "no_repair_candidates = \<lparr>rc_records = [], rc_examined = 0, rc_limit_reached = False\<rparr>"

section \<open>Attempts\<close>

text \<open>
  \<open>int(value)\<close> truncates towards zero. Booleans are excluded before the numeric test.
\<close>

definition py_trunc :: "rat \<Rightarrow> int" where
  "py_trunc x = (if 0 \<le> x then \<lfloor>x\<rfloor> else \<lceil>x\<rceil>)"

definition interruption_count :: "task_record \<Rightarrow> int" where
  "interruption_count r =
     (case get_or_none (metadata r) ''interruptions'' of
        PInt n \<Rightarrow> max 0 n
      | PFloat x \<Rightarrow> max 0 (py_trunc x)
      | PDecimal x \<Rightarrow> max 0 (py_trunc x)
      | _ \<Rightarrow> 0)"

definition attempts_consumed :: "task_record \<Rightarrow> int" where
  "attempts_consumed r = retry_count r - interruption_count r"

lemma interruption_count_nonneg [simp]: "0 \<le> interruption_count r"
  by (simp add: interruption_count_def split: pyval.split)

lemma interruption_count_cong:
  "metadata r = metadata r' \<Longrightarrow> interruption_count r = interruption_count r'"
  by (simp add: interruption_count_def)

section \<open>Retry schedule\<close>

text \<open>
  \<open>float(v)\<close>. The text syntax of numbers belongs to the standard library and is the
  parameter \<open>parse\<close>; text it rejects raises \<open>ValueError\<close>, a non-number \<open>TypeError\<close>.
\<close>

fun py_float :: "(string \<Rightarrow> rat option) \<Rightarrow> pyval \<Rightarrow> rat result" where
  "py_float parse (PBool b) = Inr (if b then 1 else 0)"
| "py_float parse (PInt n) = Inr (of_int n)"
| "py_float parse (PFloat x) = Inr x"
| "py_float parse (PDecimal x) = Inr x"
| "py_float parse (PStr s) = (case parse s of None \<Rightarrow> Inl ValueError | Some x \<Rightarrow> Inr x)"
| "py_float parse _ = Inl TypeError"

text \<open>\<open>float ** int\<close>: a zero base with a negative exponent raises.\<close>

definition py_pow :: "rat \<Rightarrow> int \<Rightarrow> rat result" where
  "py_pow x n =
     (if 0 \<le> n then Inr (x ^ nat n)
      else if x = 0 then Inl ZeroDivisionError
      else Inr (inverse (x ^ nat (- n))))"

definition bind_result :: "'a result \<Rightarrow> ('a \<Rightarrow> 'b result) \<Rightarrow> 'b result" where
  "bind_result m f = (case m of Inl e \<Rightarrow> Inl e | Inr x \<Rightarrow> f x)"

lemma bind_result_simps [simp]: "bind_result (Inl e) f = Inl e" "bind_result (Inr x) f = f x"
  by (simp_all add: bind_result_def)

lemma bind_result_eq_Inr: "bind_result m f = Inr y \<longleftrightarrow> (\<exists>x. m = Inr x \<and> f x = Inr y)"
  by (cases m) auto

text \<open>
  \<open>retry_schedule(record, now=None)\<close>: \<open>now\<close> is the explicit instant or the clock
  reading. The delay is \<open>initial_delay * multiplier ** attempts\<close>, capped by
  \<open>max_delay\<close>.
\<close>

definition retry_schedule ::
    "(string \<Rightarrow> rat option) \<Rightarrow> instant \<Rightarrow> task_record \<Rightarrow> (instant \<times> instant option) result" where
  "retry_schedule parse now r =
     (case get_or_none (metadata r) ''retry_backoff'' of
        PDict value \<Rightarrow>
          bind_result (case dict_get value ''initial_delay'' of
              None \<Rightarrow> Inr 0 | Some v \<Rightarrow> py_float parse v) (\<lambda>initial.
          bind_result (case dict_get value ''multiplier'' of
              None \<Rightarrow> Inr 1 | Some v \<Rightarrow> py_float parse v) (\<lambda>multiplier.
          bind_result (py_pow multiplier (attempts_consumed r)) (\<lambda>power.
          let delay = initial * power in
          bind_result (case get_or_none value ''max_delay'' of
              PNone \<Rightarrow> Inr delay
            | v \<Rightarrow> bind_result (py_float parse v) (\<lambda>cap. Inr (min delay cap))) (\<lambda>delay.
          Inr (now, if 0 < delay then Some (now + timedelta_seconds delay) else None)))))
      | _ \<Rightarrow> Inr (now, None))"

section \<open>Filters\<close>

definition contains_items :: "dict \<Rightarrow> dict \<Rightarrow> bool" where
  "contains_items source expected \<longleftrightarrow> (\<forall>(k, v) \<in> set expected. py_eq (get_or_none source k) v)"

definition record_matches_filters ::
    "task_record \<Rightarrow> string option \<Rightarrow> string option \<Rightarrow> dict option \<Rightarrow> dict option \<Rightarrow> bool" where
  "record_matches_filters r name q kw meta \<longleftrightarrow>
     (case name of None \<Rightarrow> True | Some n \<Rightarrow> task_name r = n) \<and>
     (case q of None \<Rightarrow> True | Some x \<Rightarrow> queue r = x) \<and>
     (case kw of None \<Rightarrow> True | Some d \<Rightarrow> contains_items (kwargs r) d) \<and>
     (case meta of None \<Rightarrow> True | Some d \<Rightarrow> contains_items (metadata r) d)"

section \<open>Stale requeue policy\<close>

definition stale_requeue_error :: "string option \<Rightarrow> string" where
  "stale_requeue_error current =
     (case current of None \<Rightarrow> STALE_HEARTBEAT_ERROR | Some e \<Rightarrow> if e = [] then STALE_HEARTBEAT_ERROR else e)"

datatype stale_policy = Preserve | Ceiling int | Callable "int \<Rightarrow> pyval"

fun stale_requeue_priority :: "int \<Rightarrow> stale_policy \<Rightarrow> int result" where
  "stale_requeue_priority p (Callable f) =
     (case f p of PInt n \<Rightarrow> Inr n | _ \<Rightarrow> Inl QueueConfigurationError)"
| "stale_requeue_priority p Preserve = Inr p"
| "stale_requeue_priority p (Ceiling c) = Inr (min p c)"

end
