(* ===== verification/Memory_Backend.thy ===== *)
theory Memory_Backend
  imports Backend_Helpers
begin

text \<open>
  \<open>backends/memory/backend.py\<close>, operation by operation. Records are values here, while the code hands out the
  objects it stores: what a caller sees later through such an object is modelled where it matters
  (\<open>record_view\<close> in \<open>Settlement\<close>), and a caller that changes one behind the backend's back is left out. The state holds the backend's
  dictionaries in insertion order, because Python's stable sorts and its loops over
  \<open>self._records.values()\<close> depend on it. Every operation of the class runs under one
  \<open>asyncio.Lock\<close> or without an \<open>await\<close>, so an operation is one state
  transformer. Each clock reading is an argument: \<open>now\<close>, further readings of the same
  call in reading order, or a function of the record id where a loop reads the clock once per
  record. A fresh \<open>uuid4()\<close> is an argument too. The code returns the live record
  object; the model returns its value at the end of the call. Metrics and logging are left out.
\<close>

section \<open>State\<close>

record mem_state =
  mem_records :: "(uuid \<times> task_record) list"
  mem_keys :: "(string \<times> uuid) list"
  mem_reservations :: "(string \<times> task_reservation) list"
  mem_notification :: bool
  mem_control :: bool
  mem_maintenances :: "(string \<times> (string \<times> instant)) list"

definition mem_init :: mem_state where
  "mem_init = \<lparr>mem_records = [], mem_keys = [], mem_reservations = [],
     mem_notification = False, mem_control = False, mem_maintenances = []\<rparr>"

definition mem_capabilities :: capabilities where
  "mem_capabilities = default_capabilities\<lparr>supports_worker_wakeups := True,
     wakeup_backend := Some ''asyncio-event'', wakeups_durable := False,
     supports_maintenance := True\<rparr>"

abbreviation lookup :: "mem_state \<Rightarrow> uuid \<Rightarrow> task_record option" where
  "lookup s \<equiv> dict_get (mem_records s)"

abbreviation mem_values :: "mem_state \<Rightarrow> task_record list" where
  "mem_values s \<equiv> map snd (mem_records s)"

definition put_record :: "task_record \<Rightarrow> mem_state \<Rightarrow> mem_state" where
  "put_record r s = s\<lparr>mem_records := dict_set (rid r) r (mem_records s)\<rparr>"

text \<open>
  The shape most operations share: look the record up, test the guard, mutate the record in
  place and return it, or return \<open>None\<close> and leave the state alone.
\<close>

definition modify_if ::
    "uuid \<Rightarrow> (task_record \<Rightarrow> bool) \<Rightarrow> (task_record \<Rightarrow> task_record) \<Rightarrow> mem_state \<Rightarrow>
     task_record option \<times> mem_state" where
  "modify_if i guard f s =
     (case lookup s i of
        None \<Rightarrow> (None, s)
      | Some r \<Rightarrow>
          if guard r then (Some (f r), s\<lparr>mem_records := dict_set i (f r) (mem_records s)\<rparr>)
          else (None, s))"

text \<open>\<open>expected is not None and actual != expected\<close> is the failure of this fence.\<close>

fun fence :: "'a option \<Rightarrow> 'a \<Rightarrow> bool" where
  "fence None actual = True"
| "fence (Some expected) actual = (actual = expected)"

definition expire_record :: "instant \<Rightarrow> task_record \<Rightarrow> task_record" where
  "expire_record now r = r\<lparr>status := Expired, completed_at := Some now, heartbeat_at := None\<rparr>"

definition start_record :: "instant \<Rightarrow> task_record \<Rightarrow> task_record" where
  "start_record now r = r\<lparr>status := Running, started_at := Some now, heartbeat_at := Some now\<rparr>"

text \<open>The claim order: priority first (higher wins), then queue time, creation time and id.\<close>

definition claim_key :: "task_record \<Rightarrow> int \<times> instant \<times> instant \<times> nat" where
  "claim_key r = (- priority r, queued_at r, created_at r, rid r)"

section \<open>Notifications\<close>

definition notify_new_task :: "instant \<Rightarrow> task_record \<Rightarrow> mem_state \<Rightarrow> mem_state" where
  "notify_new_task now r s =
     (if is_waiting r \<and> is_due now r then s\<lparr>mem_notification := True\<rparr> else s)"

definition notify_new_tasks :: "instant \<Rightarrow> task_record list \<Rightarrow> mem_state \<Rightarrow> mem_state" where
  "notify_new_tasks now rs s =
     (case filter (\<lambda>r. is_waiting r \<and> is_due now r) rs of
        [] \<Rightarrow> s
      | r # _ \<Rightarrow> notify_new_task now r s)"

definition notify_worker_control :: "string option \<Rightarrow> mem_state \<Rightarrow> mem_state" where
  "notify_worker_control w s = s\<lparr>mem_control := True\<rparr>"

section \<open>Enqueue\<close>

definition new_record :: "task_request \<Rightarrow> uuid \<Rightarrow> task_status \<Rightarrow> instant \<Rightarrow> task_record" where
  "new_record req i st now =
     \<lparr>task_name = req_task_name req, rid = i, args = req_args req,
      kwargs = (case req_kwargs req of None \<Rightarrow> [] | Some d \<Rightarrow> d), queue = req_queue req,
      execution_backend = req_execution_backend req,
      execution_profile = req_execution_profile req, execution_ref = None, worker_id = None,
      status = st, priority = req_priority req, max_retries = req_max_retries req,
      retry_count = 0, scheduled_at = req_scheduled_at req, expires_at = req_expires_at req,
      created_at = now, queued_at = now, started_at = None, completed_at = None,
      heartbeat_at = None, task_result = PNone, error = None, key = req_key req,
      metadata = (case req_metadata req of None \<Rightarrow> [] | Some d \<Rightarrow> d),
      dispatch_checked_at = None\<rparr>"

definition initial_status :: "instant \<Rightarrow> task_request \<Rightarrow> task_status" where
  "initial_status now req =
     (case req_scheduled_at req of None \<Rightarrow> Pending | Some t \<Rightarrow> if t > now then Scheduled else Pending)"

text \<open>The live record that already owns the key of a request.\<close>

definition existing_for_key :: "string option \<Rightarrow> mem_state \<Rightarrow> task_record option" where
  "existing_for_key k s =
     (case k of
        None \<Rightarrow> None
      | Some k' \<Rightarrow>
          (case dict_get (mem_keys s) k' of
             None \<Rightarrow> None
           | Some i \<Rightarrow>
               (case lookup s i of
                  None \<Rightarrow> None
                | Some r \<Rightarrow> if is_terminal r then None else Some r)))"

definition insert_record :: "task_record \<Rightarrow> mem_state \<Rightarrow> mem_state" where
  "insert_record r s =
     (case key r of
        None \<Rightarrow> put_record r s
      | Some k \<Rightarrow> (put_record r s)\<lparr>mem_keys := dict_set k (rid r) (mem_keys s)\<rparr>)"

text \<open>
  The clock is read for \<open>created_at\<close>, then for the status test, then by the notification.
\<close>

definition enqueue ::
    "task_request \<Rightarrow> uuid option \<Rightarrow> uuid \<Rightarrow> instant \<Rightarrow> instant \<Rightarrow> instant \<Rightarrow> mem_state \<Rightarrow>
     task_record \<times> mem_state" where
  "enqueue req explicit_id fresh now now2 now3 s =
     (case existing_for_key (req_key req) s of
        Some r \<Rightarrow> (r, s)
      | None \<Rightarrow>
          let i = (case explicit_id of None \<Rightarrow> fresh | Some i \<Rightarrow> i);
              r = new_record req i (initial_status now2 req) now
          in (r, notify_new_task now3 r (insert_record r s)))"

fun enqueue_many_loop ::
    "instant \<Rightarrow> (task_request \<times> uuid \<times> instant) list \<Rightarrow> mem_state \<Rightarrow>
     task_record list \<times> mem_state" where
  "enqueue_many_loop now [] s = ([], s)"
| "enqueue_many_loop now ((req, fresh, record_now) # rest) s =
     (case existing_for_key (req_key req) s of
        Some r \<Rightarrow> (let (rs, s') = enqueue_many_loop now rest s in (r # rs, s'))
      | None \<Rightarrow>
          let r = new_record req fresh (initial_status now req) record_now;
              (rs, s') = enqueue_many_loop now rest (insert_record r s)
          in (r # rs, s'))"

definition enqueue_many ::
    "(task_request \<times> uuid \<times> instant) list \<Rightarrow> instant \<Rightarrow> instant \<Rightarrow> mem_state \<Rightarrow>
     task_record list \<times> mem_state" where
  "enqueue_many requests now now2 s =
     (if requests = [] then ([], s)
      else let (rs, s') = enqueue_many_loop now requests s in (rs, notify_new_tasks now2 rs s'))"

section \<open>Reads\<close>

definition get_task :: "uuid \<Rightarrow> mem_state \<Rightarrow> task_record option" where
  "get_task i s = lookup s i"

definition get_task_by_key :: "string \<Rightarrow> mem_state \<Rightarrow> task_record option" where
  "get_task_by_key k s = (case dict_get (mem_keys s) k of None \<Rightarrow> None | Some i \<Rightarrow> lookup s i)"

definition get_tasks :: "uuid list \<Rightarrow> mem_state \<Rightarrow> task_record list" where
  "get_tasks ids s = List.map_filter (lookup s) ids"

definition list_pending ::
    "instant \<Rightarrow> int \<Rightarrow> string option \<Rightarrow> string option \<Rightarrow> mem_state \<Rightarrow> task_record list" where
  "list_pending now limit q eb s =
     py_take limit (sort_key claim_key
       (filter (\<lambda>r. is_waiting r \<and> is_due now r \<and> \<not> is_expired now r \<and>
           \<not> is_external_dispatch_reservation (execution_ref r) \<and>
           fence q (queue r) \<and> fence eb (execution_backend r))
         (mem_values s)))"

definition list_running_external :: "int option \<Rightarrow> mem_state \<Rightarrow> task_record list" where
  "list_running_external limit s =
     take_limit limit (sort_key
       (\<lambda>r. (case started_at r of Some t \<Rightarrow> t | None \<Rightarrow> created_at r, uuid_str (rid r)))
       (filter (\<lambda>r. \<not> is_terminal r \<and> execution_ref r \<noteq> None) (mem_values s)))"

definition get_statistics :: "string option \<Rightarrow> mem_state \<Rightarrow> queue_statistics" where
  "get_statistics q s =
     fold (\<lambda>r st. if fence q (queue r)
                  then statistics_set st (status r) (statistics_get st (status r) + 1) else st)
       (mem_values s) empty_statistics"

text \<open>Python's \<open>sort(reverse=True)\<close> is stable: equal keys keep their order.\<close>

definition list_completed_by_task ::
    "string \<Rightarrow> instant option \<Rightarrow> int \<Rightarrow> mem_state \<Rightarrow> task_record list" where
  "list_completed_by_task name since limit s =
     py_take limit (sort_key (\<lambda>r. - (case completed_at r of Some t \<Rightarrow> t | None \<Rightarrow> created_at r))
       (filter (\<lambda>r. task_name r = name \<and> status r = Completed \<and>
           (case completed_at r of
              None \<Rightarrow> False
            | Some t \<Rightarrow> (case since of None \<Rightarrow> True | Some t0 \<Rightarrow> t0 \<le> t)))
         (mem_values s)))"

text \<open>The two clock readings are the comparison and the final subtraction (microseconds).\<close>

definition time_until_next_due ::
    "instant \<Rightarrow> instant \<Rightarrow> string list \<Rightarrow> mem_state \<Rightarrow> int option" where
  "time_until_next_due now now2 queues s =
     (case List.map_filter (\<lambda>r. if is_waiting r \<and> (queues = [] \<or> queue r \<in> set queues)
            then (case scheduled_at r of
                    None \<Rightarrow> None | Some t \<Rightarrow> if t > now then Some t else None)
            else None) (mem_values s) of
        [] \<Rightarrow> None
      | t # ts \<Rightarrow> Some (max (fold min ts t - now2) 0))"

section \<open>Claims\<close>

text \<open>
  \<open>t\<close> is the clock reading of \<open>is_due\<close>, \<open>now\<close> the later one. A record that already
  carries an execution reference is not expired here.
\<close>

definition claimable ::
    "instant \<Rightarrow> int option \<Rightarrow> string option \<Rightarrow> task_record \<Rightarrow> bool" where
  "claimable t expected_retry_count expected_execution_ref r \<longleftrightarrow>
     is_waiting r \<and> is_due t r \<and> \<not> is_external_dispatch_reservation (execution_ref r) \<and>
     fence expected_retry_count (retry_count r) \<and>
     fence (map_option Some expected_execution_ref) (execution_ref r)"

definition claim_task_with_expired ::
    "uuid \<Rightarrow> int option \<Rightarrow> string option \<Rightarrow> instant \<Rightarrow> instant \<Rightarrow> mem_state \<Rightarrow>
     (task_record option \<times> task_record option) \<times> mem_state" where
  "claim_task_with_expired i expected_retry_count expected_execution_ref t now s =
     (case lookup s i of
        None \<Rightarrow> ((None, None), s)
      | Some r \<Rightarrow>
          if \<not> claimable t expected_retry_count expected_execution_ref r then ((None, None), s)
          else if execution_ref r = None \<and> is_expired now r
          then ((None, Some (expire_record now r)),
                s\<lparr>mem_records := dict_set i (expire_record now r) (mem_records s)\<rparr>)
          else ((Some (start_record now r), None),
                s\<lparr>mem_records := dict_set i (start_record now r) (mem_records s)\<rparr>))"

definition claim_task ::
    "uuid \<Rightarrow> int option \<Rightarrow> string option \<Rightarrow> instant \<Rightarrow> instant \<Rightarrow> mem_state \<Rightarrow>
     task_record option \<times> mem_state" where
  "claim_task i expected_retry_count expected_execution_ref t now s =
     (let ((claimed, _), s') =
        claim_task_with_expired i expected_retry_count expected_execution_ref t now s
      in (claimed, s'))"

text \<open>The scan of \<open>claim_many_with_expired\<close>: records after the scan, eligible, expired.\<close>

fun claim_scan ::
    "instant \<Rightarrow> string list \<Rightarrow> string option \<Rightarrow> (uuid \<times> task_record) list \<Rightarrow>
     (uuid \<times> task_record) list \<times> task_record list \<times> task_record list" where
  "claim_scan now queues eb [] = ([], [], [])"
| "claim_scan now queues eb ((k, r) # rest) =
     (let (recs, eligible, expired) = claim_scan now queues eb rest in
      if \<not> is_waiting r then ((k, r) # recs, eligible, expired)
      else if queues \<noteq> [] \<and> queue r \<notin> set queues then ((k, r) # recs, eligible, expired)
      else if \<not> fence eb (execution_backend r) then ((k, r) # recs, eligible, expired)
      else if is_external_dispatch_reservation (execution_ref r)
      then ((k, r) # recs, eligible, expired)
      else if is_expired now r
      then ((k, expire_record now r) # recs, eligible, expire_record now r # expired)
      else if \<not> is_due now r then ((k, r) # recs, eligible, expired)
      else ((k, r) # recs, r # eligible, expired))"

text \<open>
  The claim loop over the sorted candidates; \<open>n\<close> is how many more may be claimed and
  \<open>remaining\<close> the mutable copy of \<open>queue_limits\<close>.
\<close>

definition queue_blocked :: "(string \<times> int) list \<Rightarrow> string \<Rightarrow> bool" where
  "queue_blocked remaining q \<longleftrightarrow>
     (case dict_get remaining q of None \<Rightarrow> False | Some n \<Rightarrow> n \<le> 0)"

definition consume_slot :: "string \<Rightarrow> (string \<times> int) list \<Rightarrow> (string \<times> int) list" where
  "consume_slot q remaining =
     (case dict_get remaining q of None \<Rightarrow> remaining | Some n \<Rightarrow> dict_set q (n - 1) remaining)"

fun claim_take ::
    "instant \<Rightarrow> int \<Rightarrow> (string \<times> int) list \<Rightarrow> task_record list \<Rightarrow> (uuid \<times> task_record) list \<Rightarrow>
     task_record list \<times> (uuid \<times> task_record) list" where
  "claim_take now n remaining [] recs = ([], recs)"
| "claim_take now n remaining (r # rest) recs =
     (if n \<le> 0 then ([], recs)
      else if queue_blocked remaining (queue r) then claim_take now n remaining rest recs
      else
        let (claimed, recs') =
          claim_take now (n - 1) (consume_slot (queue r) remaining) rest
            (dict_set (rid r) (start_record now r) recs)
        in (start_record now r # claimed, recs'))"

definition claim_many_with_expired ::
    "int \<Rightarrow> string list \<Rightarrow> string option \<Rightarrow> (string \<times> int) list option \<Rightarrow> instant \<Rightarrow> mem_state \<Rightarrow>
     (task_record list \<times> task_record list) \<times> mem_state" where
  "claim_many_with_expired limit queues eb queue_limits now s =
     (if limit \<le> 0 then (([], []), s)
      else
        let (recs, eligible, expired) = claim_scan now queues eb (mem_records s);
            (claimed, recs') =
              claim_take now limit (case queue_limits of None \<Rightarrow> [] | Some d \<Rightarrow> d)
                (sort_key claim_key eligible) recs
        in ((claimed, expired), s\<lparr>mem_records := recs'\<rparr>))"

definition claim_many ::
    "int \<Rightarrow> string list \<Rightarrow> string option \<Rightarrow> (string \<times> int) list option \<Rightarrow> instant \<Rightarrow> mem_state \<Rightarrow>
     task_record list \<times> mem_state" where
  "claim_many limit queues eb queue_limits now s =
     (let ((claimed, _), s') = claim_many_with_expired limit queues eb queue_limits now s
      in (claimed, s'))"

definition assign_worker ::
    "uuid \<Rightarrow> string \<Rightarrow> int \<Rightarrow> mem_state \<Rightarrow> task_record option \<times> mem_state" where
  "assign_worker i w expected_retry_count =
     modify_if i (\<lambda>r. status r = Running \<and> retry_count r = expected_retry_count)
       (\<lambda>r. r\<lparr>worker_id := Some w\<rparr>)"

section \<open>Settlement\<close>

text \<open>The fence of \<open>complete_task\<close> and \<open>fail_task\<close>: without an expected count anything passes.\<close>

definition attempt_fence :: "int option \<Rightarrow> task_record \<Rightarrow> bool" where
  "attempt_fence expected r \<longleftrightarrow>
     (case expected of None \<Rightarrow> True | Some n \<Rightarrow> status r = Running \<and> retry_count r = n)"

definition complete_record :: "pyval \<Rightarrow> instant \<Rightarrow> task_record \<Rightarrow> task_record" where
  "complete_record v now r = r\<lparr>status := Completed, completed_at := Some now,
     heartbeat_at := None, task_result := v, error := None\<rparr>"

definition complete_task ::
    "uuid \<Rightarrow> pyval \<Rightarrow> int option \<Rightarrow> instant \<Rightarrow> mem_state \<Rightarrow> task_record option \<times> mem_state" where
  "complete_task i v expected_retry_count now =
     modify_if i (attempt_fence expected_retry_count) (complete_record v now)"

definition fail_record ::
    "string \<Rightarrow> bool \<Rightarrow> instant option \<Rightarrow> instant option \<Rightarrow> instant \<Rightarrow> task_record \<Rightarrow> task_record" where
  "fail_record err retry retry_at queued now r =
     (if retry \<and> attempts_consumed r < max_retries r
      then let q = (case queued of None \<Rightarrow> now | Some t \<Rightarrow> t)
           in r\<lparr>error := Some err, retry_count := retry_count r + 1, queued_at := q,
                scheduled_at := retry_at,
                status := (case retry_at of None \<Rightarrow> Pending
                           | Some t \<Rightarrow> if t > q then Scheduled else Pending),
                started_at := None, heartbeat_at := None\<rparr>
      else r\<lparr>error := Some err, status := Failed, completed_at := Some now,
             heartbeat_at := None\<rparr>)"

definition fail_task ::
    "uuid \<Rightarrow> string \<Rightarrow> bool \<Rightarrow> int option \<Rightarrow> instant option \<Rightarrow> instant option \<Rightarrow> instant \<Rightarrow>
     mem_state \<Rightarrow> task_record option \<times> mem_state" where
  "fail_task i err retry expected_retry_count retry_at queued now =
     modify_if i (attempt_fence expected_retry_count) (fail_record err retry retry_at queued now)"

definition cancellable :: "bool \<Rightarrow> task_record \<Rightarrow> bool" where
  "cancellable include_running r \<longleftrightarrow> is_waiting r \<or> include_running \<and> status r = Running"

definition cancel_record :: "instant \<Rightarrow> task_record \<Rightarrow> task_record" where
  "cancel_record now r = r\<lparr>status := Cancelled, completed_at := Some now, heartbeat_at := None\<rparr>"

definition cancel_task ::
    "uuid \<Rightarrow> bool \<Rightarrow> int option \<Rightarrow> instant \<Rightarrow> mem_state \<Rightarrow> bool \<times> mem_state" where
  "cancel_task i include_running expected_retry_count now s =
     (let (r, s') = modify_if i
        (\<lambda>r. cancellable include_running r \<and> fence expected_retry_count (retry_count r))
        (cancel_record now) s
      in (r \<noteq> None, s'))"

definition interrupt_record :: "instant \<Rightarrow> task_record \<Rightarrow> task_record" where
  "interrupt_record queued r = r\<lparr>status := Pending, queued_at := queued, scheduled_at := None,
     started_at := None, heartbeat_at := None, completed_at := None, execution_ref := None,
     worker_id := None,
     metadata := dict_set ''interruptions'' (PInt (interruption_count r + 1)) (metadata r),
     retry_count := retry_count r + 1\<rparr>"

definition interrupt_task ::
    "uuid \<Rightarrow> int \<Rightarrow> string \<Rightarrow> instant \<Rightarrow> mem_state \<Rightarrow> task_record option \<times> mem_state" where
  "interrupt_task i expected_retry_count w queued =
     modify_if i
       (\<lambda>r. status r = Running \<and> retry_count r = expected_retry_count \<and> worker_id r = Some w)
       (interrupt_record queued)"

definition cancel_tasks ::
    "string option \<Rightarrow> string option \<Rightarrow> dict option \<Rightarrow> dict option \<Rightarrow> bool \<Rightarrow> (uuid \<Rightarrow> instant) \<Rightarrow>
     mem_state \<Rightarrow> nat \<times> mem_state" where
  "cancel_tasks name q kw meta include_running clock s =
     (let hit = (\<lambda>r. cancellable include_running r \<and> record_matches_filters r name q kw meta)
      in (length (filter hit (mem_values s)),
          s\<lparr>mem_records := map (\<lambda>(k, r). (k, if hit r then cancel_record (clock (rid r)) r else r))
              (mem_records s)\<rparr>))"

section \<open>Heartbeats\<close>

definition touch_record :: "instant \<Rightarrow> dict option \<Rightarrow> task_record \<Rightarrow> task_record" where
  "touch_record now patch r = r\<lparr>heartbeat_at := Some now,
     metadata := (case patch of None \<Rightarrow> metadata r | Some p \<Rightarrow> dict_update (metadata r) p)\<rparr>"

definition touch_one ::
    "instant \<Rightarrow> heartbeat_touch \<Rightarrow> heartbeat_touch_result \<times> mem_state \<Rightarrow>
     heartbeat_touch_result \<times> mem_state" where
  "touch_one now t acc =
     (case acc of (res, s) \<Rightarrow>
        (case modify_if (ht_task_id t)
            (\<lambda>r. status r = Running \<and> fence (ht_expected_retry_count t) (retry_count r))
            (touch_record now (ht_metadata_patch t)) s of
           (None, _) \<Rightarrow>
             (res\<lparr>missed_task_ids := set_add (ht_task_id t) (missed_task_ids res)\<rparr>, s)
         | (Some _, s') \<Rightarrow>
             (res\<lparr>touched_task_ids := set_add (ht_task_id t) (touched_task_ids res)\<rparr>, s')))"

definition touch_heartbeats ::
    "heartbeat_touch list \<Rightarrow> instant \<Rightarrow> mem_state \<Rightarrow> heartbeat_touch_result \<times> mem_state" where
  "touch_heartbeats touches now s = fold (touch_one now) touches (empty_touch_result, s)"

definition null_heartbeats :: "uuid list \<Rightarrow> int option \<Rightarrow> mem_state \<Rightarrow> mem_state" where
  "null_heartbeats ids expected_retry_count s =
     s\<lparr>mem_records := map (\<lambda>(k, r).
         (k, if k \<in> set ids \<and> fence expected_retry_count (retry_count r)
             then r\<lparr>heartbeat_at := None\<rparr> else r)) (mem_records s)\<rparr>"

section \<open>Stale recovery\<close>

definition is_stale :: "instant \<Rightarrow> task_record \<Rightarrow> bool" where
  "is_stale cutoff r \<longleftrightarrow> status r = Running \<and>
     (case heartbeat_at r of None \<Rightarrow> True | Some t \<Rightarrow> t < cutoff)"

text \<open>\<open>datetime(1, 1, 1)\<close> in microseconds before the epoch.\<close>

definition MIN_DATETIME :: instant where
  "MIN_DATETIME = - 62135596800000000"

definition stale_sort_key :: "task_record \<Rightarrow> instant \<times> string" where
  "stale_sort_key r = (case heartbeat_at r of None \<Rightarrow> MIN_DATETIME | Some t \<Rightarrow> t, uuid_str (rid r))"

definition requeue_on_stale :: "task_record \<Rightarrow> bool" where
  "requeue_on_stale r \<longleftrightarrow> dict_get (metadata r) ''requeue_on_stale'' \<noteq> Some (PBool False)"

text \<open>
  One iteration of the recovery loop. \<open>Inl\<close> is an exception of the schedule or of the
  priority policy, with the record as the partial mutation left it.
\<close>

datatype stale_outcome = Requeued task_record | Exhausted task_record | Raised py_error task_record

definition stale_step ::
    "(string \<Rightarrow> rat option) \<Rightarrow> stale_policy \<Rightarrow> instant \<Rightarrow> task_record \<Rightarrow> stale_outcome" where
  "stale_step parse policy now r =
     (if requeue_on_stale r \<and> attempts_consumed r < max_retries r
      then (case retry_schedule parse now r of
          Inl e \<Rightarrow> Raised e r
        | Inr (queued, retry_at) \<Rightarrow>
            let r1 = r\<lparr>status := (if retry_at \<noteq> None then Scheduled else Pending),
                       queued_at := queued, scheduled_at := retry_at\<rparr>
            in (case stale_requeue_priority (priority r1) policy of
                  Inl e \<Rightarrow> Raised e r1
                | Inr p \<Rightarrow>
                    Requeued (r1\<lparr>priority := p, started_at := None, heartbeat_at := None,
                       error := Some (stale_requeue_error (error r1)),
                       retry_count := retry_count r1 + 1\<rparr>)))
      else Exhausted (r\<lparr>status := Failed, completed_at := Some now, heartbeat_at := None,
             error := Some STALE_HEARTBEAT_ERROR\<rparr>))"

fun stale_loop ::
    "(string \<Rightarrow> rat option) \<Rightarrow> stale_policy \<Rightarrow> (uuid \<Rightarrow> instant) \<Rightarrow> task_record list \<Rightarrow>
     stale_recovery_result \<Rightarrow> mem_state \<Rightarrow> stale_recovery_result result \<times> mem_state" where
  "stale_loop parse policy clock [] res s = (Inr res, s)"
| "stale_loop parse policy clock (r # rest) res s =
     (case stale_step parse policy (clock (rid r)) r of
        Raised e r' \<Rightarrow> (Inl e, put_record r' s)
      | Requeued r' \<Rightarrow>
          stale_loop parse policy clock rest
            (res\<lparr>sr_requeued := sr_requeued res + 1,
                 sr_requeued_task_ids := sr_requeued_task_ids res @ [rid r]\<rparr>) (put_record r' s)
      | Exhausted r' \<Rightarrow>
          let res' = res\<lparr>sr_failed := sr_failed res + 1,
                sr_failed_task_ids := sr_failed_task_ids res @ [rid r]\<rparr>
          in stale_loop parse policy clock rest
            (if requeue_on_stale r then res'
             else res'\<lparr>sr_handler_needed := sr_handler_needed res' + 1,
                sr_handler_needed_task_ids := sr_handler_needed_task_ids res' @ [rid r]\<rparr>)
            (put_record r' s))"

definition requeue_stale_running ::
    "(string \<Rightarrow> rat option) \<Rightarrow> stale_policy \<Rightarrow> int \<Rightarrow> int option \<Rightarrow> instant \<Rightarrow> (uuid \<Rightarrow> instant) \<Rightarrow>
     mem_state \<Rightarrow> stale_recovery_result result \<times> mem_state" where
  "requeue_stale_running parse policy stale_after limit now clock s =
     stale_loop parse policy clock
       (take_limit limit (sort_key stale_sort_key
          (filter (is_stale (now - stale_after)) (mem_values s))))
       empty_stale_recovery_result s"

section \<open>Expiry\<close>

definition overdue :: "instant \<Rightarrow> task_record \<Rightarrow> bool" where
  "overdue now r \<longleftrightarrow> is_waiting r \<and> execution_ref r = None \<and> is_expired now r"

fun expire_loop ::
    "instant \<Rightarrow> int option \<Rightarrow> int \<Rightarrow> (uuid \<times> task_record) list \<Rightarrow>
     (uuid \<times> task_record) list \<times> task_record list" where
  "expire_loop now limit n [] = ([], [])"
| "expire_loop now limit n ((k, r) # rest) =
     (if (case limit of None \<Rightarrow> False | Some l \<Rightarrow> n \<ge> l) then ((k, r) # rest, [])
      else if overdue now r
      then let (recs, expired) = expire_loop now limit (n + 1) rest
           in ((k, expire_record now r) # recs, expire_record now r # expired)
      else let (recs, expired) = expire_loop now limit n rest in ((k, r) # recs, expired))"

definition expire_overdue ::
    "int option \<Rightarrow> instant \<Rightarrow> mem_state \<Rightarrow> task_record list \<times> mem_state" where
  "expire_overdue limit now s =
     (let (recs, expired) = expire_loop now limit 0 (mem_records s)
      in (expired, s\<lparr>mem_records := recs\<rparr>))"

section \<open>External dispatch\<close>

definition not_expired :: "instant \<Rightarrow> task_record \<Rightarrow> bool" where
  "not_expired now r \<longleftrightarrow> (case expires_at r of None \<Rightarrow> True | Some t \<Rightarrow> t > now)"

definition repair_key :: "task_record \<Rightarrow> instant \<times> string" where
  "repair_key r =
     (case dispatch_checked_at r of None \<Rightarrow> created_at r | Some t \<Rightarrow> t, uuid_str (rid r))"

definition stamp_checked :: "instant \<Rightarrow> task_record \<Rightarrow> task_record" where
  "stamp_checked now r =
     (if (case dispatch_checked_at r of None \<Rightarrow> True | Some t \<Rightarrow> t < now)
      then r\<lparr>dispatch_checked_at := Some now\<rparr> else r)"

definition list_dispatch_repair_candidates ::
    "string \<Rightarrow> int \<Rightarrow> instant \<Rightarrow> mem_state \<Rightarrow> dispatch_repair_candidates result \<times> mem_state" where
  "list_dispatch_repair_candidates eb limit now s =
     (if limit < 0 then (Inl QueueConfigurationError, s)
      else if limit = 0 then (Inr no_repair_candidates, s)
      else
        let rs = take (nat limit) (sort_key repair_key
              (filter (\<lambda>r. execution_backend r = eb \<and> is_waiting r \<and> not_expired now r)
                (mem_values s)));
            rs' = map (stamp_checked now) rs
        in (Inr \<lparr>rc_records = rs', rc_examined = length rs',
                 rc_limit_reached = (int (length rs') = limit)\<rparr>,
            fold put_record rs' s))"

definition reserve_scheduled_execution_ref ::
    "uuid \<Rightarrow> string \<Rightarrow> string \<Rightarrow> int \<Rightarrow> string option \<Rightarrow> instant \<Rightarrow> mem_state \<Rightarrow>
     task_record option \<times> mem_state" where
  "reserve_scheduled_execution_ref i eb ref expected_retry_count expected_ref now =
     modify_if i (\<lambda>r. execution_backend r = eb \<and> retry_count r = expected_retry_count \<and>
         execution_ref r = expected_ref \<and> is_waiting r \<and> \<not> is_expired now r)
       (\<lambda>r. r\<lparr>execution_ref := Some ref\<rparr>)"

text \<open>\<open>now\<close> is read before the lock, \<open>t\<close> by \<open>is_due\<close>.\<close>

definition reserve_external_dispatch ::
    "uuid \<Rightarrow> string \<Rightarrow> string \<Rightarrow> string option \<Rightarrow> int option \<Rightarrow> instant \<Rightarrow> instant \<Rightarrow> mem_state \<Rightarrow>
     task_record option \<times> mem_state" where
  "reserve_external_dispatch i eb ref profile expected_retry_count now t s =
     (case lookup s i of
        None \<Rightarrow> (None, s)
      | Some r \<Rightarrow>
          if \<not> is_waiting r \<or> \<not> is_due t r \<or> execution_ref r \<noteq> None \<or>
             \<not> fence expected_retry_count (retry_count r) then (None, s)
          else if is_expired now r
          then (None, s\<lparr>mem_records := dict_set i (expire_record now r) (mem_records s)\<rparr>)
          else let r' = r\<lparr>execution_backend := eb, execution_profile := profile,
                          execution_ref := Some ref\<rparr>
               in (Some r', s\<lparr>mem_records := dict_set i r' (mem_records s)\<rparr>))"

text \<open>After the lock is released, the operations below wake a waiting worker.\<close>

definition then_notify ::
    "instant \<Rightarrow> task_record option \<times> mem_state \<Rightarrow> task_record option \<times> mem_state" where
  "then_notify now res =
     (case res of (None, s) \<Rightarrow> (None, s) | (Some r, s) \<Rightarrow> (Some r, notify_new_task now r s))"

definition clear_execution_ref ::
    "uuid \<Rightarrow> int \<Rightarrow> string \<Rightarrow> instant \<Rightarrow> mem_state \<Rightarrow> task_record option \<times> mem_state" where
  "clear_execution_ref i expected_retry_count expected_ref now s =
     then_notify now (modify_if i
       (\<lambda>r. is_waiting r \<and> retry_count r = expected_retry_count \<and> execution_ref r = Some expected_ref)
       (\<lambda>r. r\<lparr>execution_ref := None\<rparr>) s)"

definition replace_execution_ref ::
    "uuid \<Rightarrow> int \<Rightarrow> string \<Rightarrow> string \<Rightarrow> mem_state \<Rightarrow> task_record option \<times> mem_state" where
  "replace_execution_ref i expected_retry_count expected_ref ref =
     modify_if i
       (\<lambda>r. is_waiting r \<and> retry_count r = expected_retry_count \<and> execution_ref r = Some expected_ref)
       (\<lambda>r. r\<lparr>execution_ref := Some ref\<rparr>)"

definition release_external_dispatch ::
    "uuid \<Rightarrow> string \<Rightarrow> string \<Rightarrow> string option \<Rightarrow> instant \<Rightarrow> mem_state \<Rightarrow>
     task_record option \<times> mem_state" where
  "release_external_dispatch i ref eb profile now s =
     then_notify now (modify_if i (\<lambda>r. execution_ref r = Some ref)
       (\<lambda>r. r\<lparr>execution_backend := eb, execution_profile := profile, execution_ref := None\<rparr>) s)"

definition finalize_external_dispatch ::
    "uuid \<Rightarrow> string \<Rightarrow> string \<Rightarrow> string \<Rightarrow> string option \<Rightarrow> mem_state \<Rightarrow>
     task_record option \<times> mem_state" where
  "finalize_external_dispatch i reservation_ref eb ref profile =
     modify_if i (\<lambda>r. execution_ref r = Some reservation_ref \<and> is_waiting r)
       (\<lambda>r. r\<lparr>execution_backend := eb, execution_profile := profile, execution_ref := Some ref\<rparr>)"

definition set_execution_ref ::
    "uuid \<Rightarrow> string \<Rightarrow> string \<Rightarrow> string option \<Rightarrow> mem_state \<Rightarrow> task_record option \<times> mem_state" where
  "set_execution_ref i eb ref profile =
     modify_if i (\<lambda>r. True)
       (\<lambda>r. r\<lparr>execution_backend := eb, execution_profile := profile, execution_ref := Some ref\<rparr>)"

definition set_execution_backend ::
    "uuid \<Rightarrow> string \<Rightarrow> string option \<Rightarrow> instant \<Rightarrow> mem_state \<Rightarrow> task_record option \<times> mem_state" where
  "set_execution_backend i eb profile now s =
     then_notify now (modify_if i (\<lambda>r. True)
       (\<lambda>r. r\<lparr>execution_backend := eb, execution_profile := profile, execution_ref := None\<rparr>) s)"

section \<open>Retention\<close>

definition cleanup_one :: "task_record \<Rightarrow> mem_state \<Rightarrow> mem_state" where
  "cleanup_one r s =
     s\<lparr>mem_records := dict_del (rid r) (mem_records s),
       mem_keys := (case key r of
           None \<Rightarrow> mem_keys s
         | Some k \<Rightarrow> if dict_get (mem_keys s) k = Some (rid r) then dict_del k (mem_keys s)
                     else mem_keys s)\<rparr>"

definition cleanup_candidate :: "instant \<Rightarrow> task_record \<Rightarrow> bool" where
  "cleanup_candidate before r \<longleftrightarrow>
     is_terminal r \<and> (case completed_at r of None \<Rightarrow> False | Some t \<Rightarrow> t < before)"

definition cleanup_terminal ::
    "instant \<Rightarrow> int option \<Rightarrow> mem_state \<Rightarrow> nat \<times> mem_state" where
  "cleanup_terminal before limit s =
     (let candidates = take_limit limit
            (sort_key (\<lambda>r. (completed_at r, uuid_str (rid r)))
              (filter (cleanup_candidate before) (mem_values s)))
      in (length candidates, fold cleanup_one candidates s))"

section \<open>Maintenance ownership\<close>

definition acquire_maintenance ::
    "string \<Rightarrow> string \<Rightarrow> int \<Rightarrow> instant \<Rightarrow> mem_state \<Rightarrow> bool \<times> mem_state" where
  "acquire_maintenance name token ttl now s =
     (case dict_get (mem_maintenances s) name of
        Some (holder, until) \<Rightarrow>
          if until > now \<and> holder \<noteq> token then (False, s)
          else (True, s\<lparr>mem_maintenances := dict_set name (token, now + ttl) (mem_maintenances s)\<rparr>)
      | None \<Rightarrow>
          (True, s\<lparr>mem_maintenances := dict_set name (token, now + ttl) (mem_maintenances s)\<rparr>))"

definition release_maintenance :: "string \<Rightarrow> string \<Rightarrow> mem_state \<Rightarrow> bool \<times> mem_state" where
  "release_maintenance name token s =
     (case dict_get (mem_maintenances s) name of
        None \<Rightarrow> (False, s)
      | Some (holder, _) \<Rightarrow>
          if holder \<noteq> token then (False, s)
          else (True, s\<lparr>mem_maintenances := dict_del name (mem_maintenances s)\<rparr>))"

section \<open>Identity reservations\<close>

definition reserve_identity ::
    "string \<Rightarrow> uuid \<Rightarrow> string \<Rightarrow> instant \<Rightarrow> mem_state \<Rightarrow> task_reservation option \<times> mem_state" where
  "reserve_identity k i name now s =
     (case dict_get (mem_reservations s) k of
        Some owner \<Rightarrow> (Some owner, s)
      | None \<Rightarrow>
          (None, s\<lparr>mem_reservations := dict_set k
             \<lparr>res_key = k, res_task_id = i, res_task_name = name, res_created_at = now\<rparr>
             (mem_reservations s)\<rparr>))"

definition has_identity :: "string \<Rightarrow> mem_state \<Rightarrow> task_reservation option" where
  "has_identity k s = dict_get (mem_reservations s) k"

definition reset_identity :: "string \<Rightarrow> uuid option \<Rightarrow> mem_state \<Rightarrow> bool \<times> mem_state" where
  "reset_identity k expected_task_id s =
     (case dict_get (mem_reservations s) k of
        None \<Rightarrow> (False, s)
      | Some owner \<Rightarrow>
          if \<not> fence expected_task_id (res_task_id owner) then (False, s)
          else (True, s\<lparr>mem_reservations := dict_del k (mem_reservations s)\<rparr>))"

section \<open>Wakeups and reset\<close>

text \<open>
  The path of \<open>wait_for_wakeups\<close> that finds no retained read: a set event is consumed and
  reported at once; otherwise the call goes on to wait, which is \<open>None\<close> here.
\<close>

definition poll_wakeup :: "mem_state \<Rightarrow> bool option \<times> mem_state" where
  "poll_wakeup s =
     (if mem_notification s then (Some True, s\<lparr>mem_notification := False\<rparr>) else (None, s))"

definition poll_worker_control :: "mem_state \<Rightarrow> bool option \<times> mem_state" where
  "poll_worker_control s =
     (if mem_control s then (Some True, s\<lparr>mem_control := False\<rparr>) else (None, s))"

definition clear :: "mem_state \<Rightarrow> mem_state" where
  "clear s = s\<lparr>mem_records := [], mem_keys := [], mem_maintenances := [], mem_reservations := [],
     mem_notification := False, mem_control := False\<rparr>"

end
