(* ===== verification/Memory_Invariant.thy ===== *)
theory Memory_Invariant
  imports Memory_Backend "HOL-Library.Multiset"
begin

text \<open>
  What every operation of the in-memory backend keeps: the shape of a record in each status,
  the agreement of the key index with the records, and, between two states, the finality of
  terminal records and the growth of the retry counter, which is the lease fence.
\<close>

section \<open>Records\<close>

definition record_ok :: "task_record \<Rightarrow> bool" where
  "record_ok r \<longleftrightarrow>
     (is_terminal r \<longrightarrow> completed_at r \<noteq> None) \<and>
     (status r = Running \<longrightarrow> started_at r \<noteq> None) \<and>
     (heartbeat_at r \<noteq> None \<longrightarrow> status r = Running) \<and>
     0 \<le> retry_count r \<and>
     attempts_consumed r \<le> max 0 (max_retries r)"

text \<open>
  One record at two moments: identity and submission data are fixed, the retry counter only
  grows, a terminal outcome is final, an attempt that has started returns to the queue only
  under a larger retry counter, and well-formedness is kept.
\<close>

definition evolves :: "task_record \<Rightarrow> task_record \<Rightarrow> bool" where
  "evolves r r' \<longleftrightarrow>
     rid r' = rid r \<and> key r' = key r \<and> task_name r' = task_name r \<and> args r' = args r \<and>
     kwargs r' = kwargs r \<and> queue r' = queue r \<and> created_at r' = created_at r \<and>
     max_retries r' = max_retries r \<and> retry_count r \<le> retry_count r' \<and>
     (is_terminal r \<longrightarrow> status r' = status r \<and> completed_at r' = completed_at r \<and>
        task_result r' = task_result r \<and> error r' = error r) \<and>
     (\<not> is_waiting r \<longrightarrow> retry_count r' = retry_count r \<longrightarrow> \<not> is_waiting r') \<and>
     (record_ok r \<longrightarrow> record_ok r')"

lemma evolves_refl [simp, intro]: "evolves r r"
  by (simp add: evolves_def)

lemma evolves_trans [trans]:
  assumes ab: "evolves a b" and bc: "evolves b c"
  shows "evolves a c"
proof -
  have count: "retry_count a \<le> retry_count b" "retry_count b \<le> retry_count c"
    using ab bc by (simp_all add: evolves_def)
  have final: "is_terminal a \<Longrightarrow> is_terminal b \<and> status c = status a \<and>
      completed_at c = completed_at a \<and> task_result c = task_result a \<and> error c = error a"
    using ab bc by (simp add: evolves_def is_terminal_def)
  have queued: "\<not> is_waiting c" if "\<not> is_waiting a" "retry_count c = retry_count a"
  proof -
    have "retry_count b = retry_count a" "retry_count c = retry_count b" using count that(2) by simp_all
    with that(1) ab bc show ?thesis by (simp add: evolves_def)
  qed
  show ?thesis
    unfolding evolves_def using count final queued ab bc by (simp add: evolves_def)
qed

named_theorems evolve_intros \<open>the record transformers of the operations are evolutions\<close>

lemmas record_simps = evolves_def record_ok_def is_terminal_simp is_waiting_def attempts_consumed_def

lemma attempts_cong:
  "retry_count r = retry_count r' \<Longrightarrow> metadata r = metadata r' \<Longrightarrow> attempts_consumed r = attempts_consumed r'"
  by (simp add: attempts_consumed_def interruption_count_def)

lemma interruption_count_update [simp]:
  "interruption_count (r\<lparr>status := a\<rparr>) = interruption_count r"
  "interruption_count (r\<lparr>error := b\<rparr>) = interruption_count r"
  "interruption_count (r\<lparr>started_at := c\<rparr>) = interruption_count r"
  "interruption_count (r\<lparr>heartbeat_at := d\<rparr>) = interruption_count r"
  "interruption_count (r\<lparr>completed_at := e\<rparr>) = interruption_count r"
  "interruption_count (r\<lparr>queued_at := f\<rparr>) = interruption_count r"
  "interruption_count (r\<lparr>scheduled_at := g\<rparr>) = interruption_count r"
  "interruption_count (r\<lparr>retry_count := h\<rparr>) = interruption_count r"
  "interruption_count (r\<lparr>priority := i\<rparr>) = interruption_count r"
  "interruption_count (r\<lparr>worker_id := j\<rparr>) = interruption_count r"
  "interruption_count (r\<lparr>execution_ref := k\<rparr>) = interruption_count r"
  "interruption_count (r\<lparr>execution_backend := l\<rparr>) = interruption_count r"
  "interruption_count (r\<lparr>execution_profile := m\<rparr>) = interruption_count r"
  "interruption_count (r\<lparr>task_result := n\<rparr>) = interruption_count r"
  "interruption_count (r\<lparr>dispatch_checked_at := p\<rparr>) = interruption_count r"
  by (simp_all add: interruption_count_def)

lemma evolves_expire [evolve_intros]: "is_waiting r \<Longrightarrow> evolves r (expire_record now r)"
  by (auto simp: record_simps expire_record_def)

lemma evolves_start [evolve_intros]: "is_waiting r \<Longrightarrow> evolves r (start_record now r)"
  by (auto simp: record_simps start_record_def)

lemma evolves_complete [evolve_intros]: "status r = Running \<Longrightarrow> evolves r (complete_record v now r)"
  by (auto simp: record_simps complete_record_def)

lemma evolves_fail [evolve_intros]:
  "status r = Running \<Longrightarrow> evolves r (fail_record err retry retry_at queued now r)"
  by (auto simp: record_simps fail_record_def Let_def split: option.splits)

lemma evolves_cancel [evolve_intros]: "cancellable b r \<Longrightarrow> evolves r (cancel_record now r)"
  by (auto simp: record_simps cancel_record_def cancellable_def)

lemma interruption_count_interrupt:
  "interruption_count (interrupt_record queued r) = interruption_count r + 1"
proof -
  have meta: "metadata (interrupt_record queued r)
      = dict_set ''interruptions'' (PInt (interruption_count r + 1)) (metadata r)"
    by (simp add: interrupt_record_def)
  have "interruption_count (interrupt_record queued r) = max 0 (interruption_count r + 1)"
    by (subst interruption_count_def) (simp only: meta, simp add: get_or_none_def dict_simps)
  then show ?thesis using interruption_count_nonneg [of r] by linarith
qed

lemma attempts_interrupt: "attempts_consumed (interrupt_record queued r) = attempts_consumed r"
  by (simp add: attempts_consumed_def interruption_count_interrupt) (simp add: interrupt_record_def)

lemma evolves_interrupt [evolve_intros]:
  "status r = Running \<Longrightarrow> evolves r (interrupt_record queued r)"
  using attempts_interrupt [of queued r]
  by (auto simp: evolves_def record_ok_def is_terminal_simp interrupt_record_def)

lemma dict_update_other:
  "k \<notin> fst ` set e \<Longrightarrow> dict_get (dict_update d e) k = dict_get d k"
  by (simp add: dict_simps map_of_eq_None_iff [THEN iffD2] split: option.splits)

definition patch_ok :: "dict option \<Rightarrow> bool" where
  "patch_ok p \<longleftrightarrow> (case p of None \<Rightarrow> True | Some d \<Rightarrow> ''interruptions'' \<notin> fst ` set d)"

lemma attempts_touch: "patch_ok p \<Longrightarrow> attempts_consumed (touch_record now p r) = attempts_consumed r"
  by (cases p) (simp_all add: patch_ok_def touch_record_def attempts_consumed_def
      interruption_count_def get_or_none_def dict_update_other)

lemma evolves_touch [evolve_intros]:
  "status r = Running \<Longrightarrow> patch_ok p \<Longrightarrow> evolves r (touch_record now p r)"
  using attempts_touch [of p now r] by (auto simp: record_simps(1-4) touch_record_def)

lemma evolves_null [evolve_intros]: "evolves r (r\<lparr>heartbeat_at := None\<rparr>)"
  by (auto simp: record_simps)

lemma evolves_assign [evolve_intros]: "evolves r (r\<lparr>worker_id := w\<rparr>)"
  by (auto simp: record_simps)

lemma evolves_stamp [evolve_intros]: "evolves r (stamp_checked now r)"
  by (auto simp: record_simps stamp_checked_def)

lemma evolves_ref [evolve_intros]:
  "evolves r (r\<lparr>execution_ref := x\<rparr>)"
  "evolves r (r\<lparr>execution_backend := b, execution_profile := p, execution_ref := x\<rparr>)"
  by (auto simp: record_simps)

lemma evolves_stale:
  assumes "status r = Running"
  shows "stale_step parse policy now r = Requeued r' \<Longrightarrow> evolves r r'"
    and "stale_step parse policy now r = Exhausted r' \<Longrightarrow> evolves r r'"
  using assms by (auto simp: record_simps stale_step_def Let_def split: if_splits sum.splits prod.splits)

lemma rid_neq: "distinct (map rid (r # rs)) \<Longrightarrow> q \<in> set rs \<Longrightarrow> rid q \<noteq> rid r"
  by (simp, metis imageI)

section \<open>Record tables\<close>

definition recs_evolve :: "(uuid \<times> task_record) list \<Rightarrow> (uuid \<times> task_record) list \<Rightarrow> bool" where
  "recs_evolve = list_all2 (\<lambda>(k, r) (k', r'). k' = k \<and> evolves r r')"

lemma recs_evolve_refl [intro]: "recs_evolve recs recs"
  by (auto simp: recs_evolve_def list_all2_same)

lemma recs_evolve_trans [trans]:
  assumes "recs_evolve a b" and "recs_evolve b c"
  shows "recs_evolve a c"
  using assms unfolding recs_evolve_def
  by (rule list_all2_trans [rotated]) (auto intro: evolves_trans)

lemma recs_evolve_simps [simp]:
  "recs_evolve [] recs \<longleftrightarrow> recs = []"
  "recs_evolve ((k, r) # rest) recs \<longleftrightarrow>
     (\<exists>r' rest'. recs = (k, r') # rest' \<and> evolves r r' \<and> recs_evolve rest rest')"
  by (auto simp: recs_evolve_def list_all2_Cons1)

lemma recs_evolve_keys: "recs_evolve recs recs' \<Longrightarrow> dict_keys recs' = dict_keys recs"
  by (induction recs arbitrary: recs') auto

lemma recs_evolve_lookup:
  "recs_evolve recs recs' \<Longrightarrow> dict_get recs i = Some r \<Longrightarrow>
   \<exists>r'. dict_get recs' i = Some r' \<and> evolves r r'"
  by (induction recs arbitrary: recs') auto

lemma recs_evolve_lookup_None:
  "recs_evolve recs recs' \<Longrightarrow> dict_get recs' i = None \<longleftrightarrow> dict_get recs i = None"
  by (induction recs arbitrary: recs') auto

lemma recs_evolve_lookup_back:
  "recs_evolve recs recs' \<Longrightarrow> dict_get recs' i = Some r' \<Longrightarrow>
   \<exists>r. dict_get recs i = Some r \<and> evolves r r'"
  by (induction recs arbitrary: recs') (auto split: if_splits)

lemma recs_evolve_set:
  "dict_get recs i = Some r \<Longrightarrow> evolves r r' \<Longrightarrow> recs_evolve recs (dict_set i r' recs)"
  by (induction recs) (auto split: if_splits)

lemma recs_evolve_map:
  "(\<And>k r. (k, r) \<in> set recs \<Longrightarrow> evolves r (g k r)) \<Longrightarrow>
   recs_evolve recs (map (\<lambda>(k, r). (k, g k r)) recs)"
  by (induction recs) auto

section \<open>States\<close>

definition state_evolves :: "mem_state \<Rightarrow> mem_state \<Rightarrow> bool" where
  "state_evolves s s' \<longleftrightarrow>
     recs_evolve (mem_records s) (mem_records s') \<and> mem_keys s' = mem_keys s"

lemma state_evolves_refl [intro]: "state_evolves s s"
  by (auto simp: state_evolves_def)

lemma state_evolves_trans [trans]: "state_evolves a b \<Longrightarrow> state_evolves b c \<Longrightarrow> state_evolves a c"
  by (auto simp: state_evolves_def intro: recs_evolve_trans)

definition keys_consistent :: "mem_state \<Rightarrow> bool" where
  "keys_consistent s \<longleftrightarrow>
     (\<forall>k i. dict_get (mem_keys s) k = Some i \<longrightarrow> (\<exists>r. lookup s i = Some r \<and> key r = Some k)) \<and>
     (\<forall>i r k. lookup s i = Some r \<longrightarrow> \<not> is_terminal r \<longrightarrow> key r = Some k \<longrightarrow>
        dict_get (mem_keys s) k = Some i)"

lemma keys_consistentD:
  assumes "keys_consistent s"
  shows "dict_get (mem_keys s) k = Some i \<Longrightarrow> \<exists>r. lookup s i = Some r \<and> key r = Some k"
    and "lookup s i = Some r \<Longrightarrow> \<not> is_terminal r \<Longrightarrow> key r = Some k \<Longrightarrow> dict_get (mem_keys s) k = Some i"
  using assms by (auto simp: keys_consistent_def)

definition mem_wf :: "mem_state \<Rightarrow> bool" where
  "mem_wf s \<longleftrightarrow>
     distinct (dict_keys (mem_records s)) \<and>
     (\<forall>i r. lookup s i = Some r \<longrightarrow> rid r = i \<and> record_ok r) \<and>
     keys_consistent s"

lemma mem_wf_init [simp]: "mem_wf mem_init"
  by (simp add: mem_wf_def mem_init_def keys_consistent_def)

lemma mem_wfD:
  assumes "mem_wf s"
  shows "distinct (dict_keys (mem_records s))" and "lookup s i = Some r \<Longrightarrow> rid r = i"
    and "lookup s i = Some r \<Longrightarrow> record_ok r" and "keys_consistent s"
  using assms by (auto simp: mem_wf_def)

lemma mem_wf_values:
  assumes "mem_wf s" and "r \<in> set (mem_values s)"
  shows "lookup s (rid r) = Some r"
proof -
  from assms(2) obtain i where "(i, r) \<in> set (mem_records s)" by auto
  then have "lookup s i = Some r" by (rule map_of_is_SomeI [OF mem_wfD(1) [OF assms(1)]])
  with mem_wfD(2) [OF assms(1) this] show ?thesis by simp
qed

lemma mem_wf_distinct_rids:
  assumes "mem_wf s"
  shows "map rid (mem_values s) = dict_keys (mem_records s)" and "distinct (map rid (mem_values s))"
proof -
  have "rid r = i" if "(i, r) \<in> set (mem_records s)" for i r
    by (rule mem_wfD(2) [OF assms map_of_is_SomeI [OF mem_wfD(1) [OF assms] that]])
  then have eq: "map rid (mem_values s) = dict_keys (mem_records s)" by (auto simp: map_eq_conv)
  then show "map rid (mem_values s) = dict_keys (mem_records s)" .
  show "distinct (map rid (mem_values s))" unfolding eq by (rule mem_wfD(1) [OF assms])
qed

lemma evolves_not_terminal: "evolves r r' \<Longrightarrow> \<not> is_terminal r' \<Longrightarrow> \<not> is_terminal r"
  by (auto simp: evolves_def is_terminal_simp)

lemma mem_wf_evolves:
  assumes wf: "mem_wf s" and ev: "state_evolves s s'"
  shows "mem_wf s'"
proof -
  have recs: "recs_evolve (mem_records s) (mem_records s')" and keys: "mem_keys s' = mem_keys s"
    using ev by (auto simp: state_evolves_def)
  have before: "\<exists>r. lookup s i = Some r \<and> evolves r r'" if "lookup s' i = Some r'" for i r'
    using recs_evolve_lookup_back [OF recs that] .
  have "rid r' = i \<and> record_ok r'" if r': "lookup s' i = Some r'" for i r'
  proof -
    obtain r where r: "lookup s i = Some r" and e: "evolves r r'" using before [OF r'] by blast
    from mem_wfD(2) [OF wf r] mem_wfD(3) [OF wf r] e show ?thesis by (simp add: evolves_def)
  qed
  moreover have "keys_consistent s'"
    unfolding keys_consistent_def keys
  proof (intro conjI allI impI)
    fix k i assume "dict_get (mem_keys s) k = Some i"
    then obtain r where r: "lookup s i = Some r" "key r = Some k"
      using keys_consistentD(1) [OF mem_wfD(4) [OF wf]] by blast
    obtain r' where "lookup s' i = Some r'" "evolves r r'"
      using recs_evolve_lookup [OF recs r(1)] by blast
    with r(2) show "\<exists>r. lookup s' i = Some r \<and> key r = Some k" by (auto simp: evolves_def)
  next
    fix i r' k assume r': "lookup s' i = Some r'" "\<not> is_terminal r'" "key r' = Some k"
    obtain r where r: "lookup s i = Some r" and e: "evolves r r'" using before [OF r'(1)] by blast
    have "key r = Some k" using e r'(3) by (simp add: evolves_def)
    with keys_consistentD(2) [OF mem_wfD(4) [OF wf] r evolves_not_terminal [OF e r'(2)]]
    show "dict_get (mem_keys s) k = Some i" by simp
  qed
  ultimately show ?thesis
    using mem_wfD(1) [OF wf] recs_evolve_keys [OF recs] by (simp add: mem_wf_def)
qed

named_theorems op_evolves \<open>operations that keep the table's keys are evolutions\<close>

lemma modify_if_evolves:
  assumes "\<And>r. lookup s i = Some r \<Longrightarrow> guard r \<Longrightarrow> evolves r (f r)"
  shows "state_evolves s (snd (modify_if i guard f s))"
  using assms by (auto simp: modify_if_def state_evolves_def intro: recs_evolve_set split: option.split)

lemma put_record_evolves:
  "lookup s (rid r') = Some r \<Longrightarrow> evolves r r' \<Longrightarrow> state_evolves s (put_record r' s)"
  by (auto simp: put_record_def state_evolves_def intro: recs_evolve_set)

lemma notify_evolves [op_evolves]: "state_evolves s (notify_new_task now r s)"
  by (auto simp: notify_new_task_def state_evolves_def)

lemma then_notify_evolves: "state_evolves s (snd res) \<Longrightarrow> state_evolves s (snd (then_notify now res))"
  by (auto simp: then_notify_def notify_new_task_def state_evolves_def split: prod.splits option.splits)

subsection \<open>Operations on one record\<close>

lemma assign_worker_evolves [op_evolves]: "state_evolves s (snd (assign_worker i w n s))"
  unfolding assign_worker_def by (rule modify_if_evolves) (rule evolve_intros)

lemma complete_task_evolves [op_evolves]:
  "state_evolves s (snd (complete_task i v (Some n) now s))"
  unfolding complete_task_def
  by (rule modify_if_evolves) (auto simp: attempt_fence_def intro: evolve_intros)

lemma fail_task_evolves [op_evolves]:
  "state_evolves s (snd (fail_task i err retry (Some n) retry_at queued now s))"
  unfolding fail_task_def
  by (rule modify_if_evolves) (auto simp: attempt_fence_def intro: evolve_intros)

lemma cancel_task_evolves [op_evolves]: "state_evolves s (snd (cancel_task i b n now s))"
proof -
  have "state_evolves s (snd (modify_if i (\<lambda>r. cancellable b r \<and> fence n (retry_count r)) (cancel_record now) s))"
    by (rule modify_if_evolves) (auto intro: evolve_intros)
  then show ?thesis by (simp add: cancel_task_def case_prod_beta)
qed

lemma interrupt_task_evolves [op_evolves]: "state_evolves s (snd (interrupt_task i n w queued s))"
  unfolding interrupt_task_def by (rule modify_if_evolves) (auto intro: evolve_intros)

lemma claim_task_evolves [op_evolves]:
  "state_evolves s (snd (claim_task_with_expired i n ref t now s))"
  by (auto simp: claim_task_with_expired_def state_evolves_def claimable_def
      intro: recs_evolve_set evolve_intros split: option.split)

lemma reserve_scheduled_evolves [op_evolves]:
  "state_evolves s (snd (reserve_scheduled_execution_ref i eb ref n expected now s))"
  unfolding reserve_scheduled_execution_ref_def by (rule modify_if_evolves) (rule evolve_intros)

lemma reserve_external_evolves [op_evolves]:
  "state_evolves s (snd (reserve_external_dispatch i eb ref profile n now t s))"
  by (auto simp: reserve_external_dispatch_def state_evolves_def Let_def
      intro: recs_evolve_set evolve_intros split: option.split)

lemma clear_execution_ref_evolves [op_evolves]:
  "state_evolves s (snd (clear_execution_ref i n ref now s))"
  unfolding clear_execution_ref_def
  by (rule then_notify_evolves, rule modify_if_evolves) (rule evolve_intros)

lemma replace_execution_ref_evolves [op_evolves]:
  "state_evolves s (snd (replace_execution_ref i n expected ref s))"
  unfolding replace_execution_ref_def by (rule modify_if_evolves) (rule evolve_intros)

lemma release_external_evolves [op_evolves]:
  "state_evolves s (snd (release_external_dispatch i ref eb profile now s))"
  unfolding release_external_dispatch_def
  by (rule then_notify_evolves, rule modify_if_evolves) (rule evolve_intros)

lemma finalize_external_evolves [op_evolves]:
  "state_evolves s (snd (finalize_external_dispatch i reservation eb ref profile s))"
  unfolding finalize_external_dispatch_def by (rule modify_if_evolves) (rule evolve_intros)

lemma set_execution_ref_evolves [op_evolves]:
  "state_evolves s (snd (set_execution_ref i eb ref profile s))"
  unfolding set_execution_ref_def by (rule modify_if_evolves) (rule evolve_intros)

lemma set_execution_backend_evolves [op_evolves]:
  "state_evolves s (snd (set_execution_backend i eb profile now s))"
  unfolding set_execution_backend_def
  by (rule then_notify_evolves, rule modify_if_evolves) (rule evolve_intros)

subsection \<open>Bulk operations\<close>

lemma cancel_tasks_evolves [op_evolves]:
  "state_evolves s (snd (cancel_tasks name q kw meta b clock s))"
  by (auto simp: cancel_tasks_def state_evolves_def Let_def
      intro!: recs_evolve_map evolve_intros)

lemma null_heartbeats_evolves [op_evolves]: "state_evolves s (null_heartbeats ids n s)"
  unfolding null_heartbeats_def state_evolves_def
  by (auto intro!: recs_evolve_map evolve_intros)

lemma touch_one_evolves:
  "patch_ok (ht_metadata_patch t) \<Longrightarrow> state_evolves (snd acc) (snd (touch_one now t acc))"
proof -
  assume p: "patch_ok (ht_metadata_patch t)"
  obtain res s where acc: "acc = (res, s)" by (cases acc)
  have "state_evolves s (snd (modify_if (ht_task_id t)
      (\<lambda>r. status r = Running \<and> fence (ht_expected_retry_count t) (retry_count r))
      (touch_record now (ht_metadata_patch t)) s))"
    by (rule modify_if_evolves) (auto intro: evolve_intros p)
  then show ?thesis by (auto simp: acc touch_one_def split: prod.split option.split)
qed

lemma touch_heartbeats_evolves [op_evolves]:
  assumes "\<And>t. t \<in> set touches \<Longrightarrow> patch_ok (ht_metadata_patch t)"
  shows "state_evolves s (snd (touch_heartbeats touches now s))"
proof -
  have "state_evolves (snd acc) (snd (fold (touch_one now) touches acc))" for acc
    using assms
  proof (induction touches arbitrary: acc)
    case Nil
    then show ?case by auto
  next
    case (Cons t touches)
    have "state_evolves (snd acc) (snd (touch_one now t acc))"
      by (rule touch_one_evolves) (simp add: Cons.prems)
    also have "state_evolves \<dots> (snd (fold (touch_one now) touches (touch_one now t acc)))"
      by (rule Cons.IH) (simp add: Cons.prems)
    finally show ?case by simp
  qed
  then show ?thesis by (metis snd_conv touch_heartbeats_def)
qed

lemma claim_scan_evolves:
  "claim_scan now queues eb recs = (recs', eligible, expired) \<Longrightarrow> recs_evolve recs recs'"
  by (induction recs arbitrary: recs' eligible expired)
    (auto simp: Let_def intro!: evolve_intros split: prod.splits if_splits)

text \<open>An eligible record passed every filter of the scan and is still in the scanned table.\<close>

definition eligible_for :: "instant \<Rightarrow> string list \<Rightarrow> string option \<Rightarrow> task_record \<Rightarrow> bool" where
  "eligible_for now queues eb r \<longleftrightarrow>
     is_waiting r \<and> (queues = [] \<or> queue r \<in> set queues) \<and> fence eb (execution_backend r) \<and>
     \<not> is_external_dispatch_reservation (execution_ref r) \<and> \<not> is_expired now r \<and> is_due now r"

lemma claim_scan_eligible:
  "claim_scan now queues eb recs = (recs', eligible, expired) \<Longrightarrow>
   eligible = filter (eligible_for now queues eb) (map snd recs)"
  by (induction recs arbitrary: recs' eligible expired)
    (auto simp: Let_def eligible_for_def split: prod.splits if_splits)

lemma claim_scan_keeps_eligible:
  "claim_scan now queues eb recs = (recs', eligible, expired) \<Longrightarrow>
   eligible_for now queues eb r \<Longrightarrow> dict_get recs i = Some r \<Longrightarrow> dict_get recs' i = Some r"
  by (induction recs arbitrary: recs' eligible expired)
    (auto simp: Let_def eligible_for_def split: prod.splits if_splits)

lemma claim_scan_expired:
  "claim_scan now queues eb recs = (recs', eligible, expired) \<Longrightarrow>
   expired = map (expire_record now) (filter (\<lambda>r. is_waiting r \<and>
     (queues = [] \<or> queue r \<in> set queues) \<and> fence eb (execution_backend r) \<and>
     \<not> is_external_dispatch_reservation (execution_ref r) \<and> is_expired now r) (map snd recs))"
  by (induction recs arbitrary: recs' eligible expired)
    (auto simp: Let_def split: prod.splits if_splits)

lemma claim_take_evolves:
  assumes "claim_take now n remaining rs recs = (claimed, recs')"
    and "\<And>r. r \<in> set rs \<Longrightarrow> is_waiting r \<and> dict_get recs (rid r) = Some r"
    and "distinct (map rid rs)"
  shows "recs_evolve recs recs'"
  using assms
proof (induction rs arbitrary: n remaining recs claimed recs')
  case Nil
  then show ?case by auto
next
  case (Cons r rs)
  have r: "is_waiting r" "dict_get recs (rid r) = Some r" using Cons.prems(2) by auto
  have step: "recs_evolve recs (dict_set (rid r) (start_record now r) recs)"
    by (rule recs_evolve_set [OF r(2)]) (rule evolve_intros, rule r(1))
  have rest: "is_waiting q \<and> dict_get (dict_set (rid r) (start_record now r) recs) (rid q) = Some q"
    if "q \<in> set rs" for q
  proof -
    have "rid q \<noteq> rid r" by (rule rid_neq [OF Cons.prems(3) that])
    then show ?thesis using that Cons.prems(2) by (simp add: dict_simps)
  qed
  show ?case
  proof (cases "n \<le> 0 \<or> queue_blocked remaining (queue r)")
    case True
    then show ?thesis using Cons.prems Cons.IH [of n remaining recs claimed recs']
      by (auto split: if_splits)
  next
    case False
    then obtain claimed' where
      "claim_take now (n - 1) (consume_slot (queue r) remaining) rs
         (dict_set (rid r) (start_record now r) recs) = (claimed', recs')"
      using Cons.prems(1) by (auto split: prod.splits)
    then have "recs_evolve (dict_set (rid r) (start_record now r) recs) recs'"
      using Cons.prems(3) by (intro Cons.IH) (auto dest: rest)
    with step show ?thesis by (rule recs_evolve_trans)
  qed
qed

lemma claim_order_facts:
  assumes wf: "mem_wf s" and scan: "claim_scan now queues eb (mem_records s) = (recs, eligible, expired)"
    and r: "r \<in> set (sort_key claim_key eligible)"
  shows "is_waiting r \<and> dict_get recs (rid r) = Some r" and "lookup s (rid r) = Some r"
    and "eligible_for now queues eb r"
proof -
  from r claim_scan_eligible [OF scan] have e: "eligible_for now queues eb r" and m: "r \<in> set (mem_values s)"
    by auto
  show l: "lookup s (rid r) = Some r" by (rule mem_wf_values [OF wf m])
  show "is_waiting r \<and> dict_get recs (rid r) = Some r"
    using e claim_scan_keeps_eligible [OF scan e l] by (simp add: eligible_for_def)
  show "eligible_for now queues eb r" by (rule e)
qed

lemma distinct_map_sort_key: "distinct (map f (sort_key g xs)) \<longleftrightarrow> distinct (map f xs)"
proof -
  have "mset (map f (sort_key g xs)) = mset (map f xs)" by simp
  then show ?thesis by (metis mset_eq_imp_distinct_iff)
qed

lemma claim_order_distinct:
  assumes wf: "mem_wf s" and scan: "claim_scan now queues eb (mem_records s) = (recs, eligible, expired)"
  shows "distinct (map rid (sort_key claim_key eligible))"
  using mem_wf_distinct_rids(2) [OF wf] claim_scan_eligible [OF scan]
  by (simp add: distinct_map_sort_key distinct_map_filter)

lemma claim_many_evolves:
  assumes wf: "mem_wf s"
  shows "state_evolves s (snd (claim_many_with_expired limit queues eb limits now s))"
proof (cases "limit \<le> 0")
  case True
  then show ?thesis by (auto simp: claim_many_with_expired_def)
next
  case False
  obtain recs eligible expired where
    scan: "claim_scan now queues eb (mem_records s) = (recs, eligible, expired)" by (metis prod_cases3)
  obtain claimed recs' where
    take: "claim_take now limit (case limits of None \<Rightarrow> [] | Some d \<Rightarrow> d)
      (sort_key claim_key eligible) recs = (claimed, recs')" by fastforce
  have "recs_evolve (mem_records s) recs" by (rule claim_scan_evolves [OF scan])
  also have "recs_evolve recs recs'"
    by (rule claim_take_evolves [OF take claim_order_facts(1) [OF wf scan] claim_order_distinct [OF wf scan]])
  finally show ?thesis
    using False scan take by (simp add: claim_many_with_expired_def state_evolves_def)
qed

definition policy_total :: "stale_policy \<Rightarrow> bool" where
  "policy_total policy \<longleftrightarrow> (\<forall>p e. stale_requeue_priority p policy \<noteq> Inl e)"

lemma stale_step_raised:
  "policy_total policy \<Longrightarrow> stale_step parse policy now r = Raised e r' \<Longrightarrow> r' = r"
  by (auto simp: stale_step_def policy_total_def Let_def split: if_splits sum.splits prod.splits)

lemma stale_step_evolves:
  assumes "policy_total policy" and "status r = Running"
    and "stale_step parse policy now r \<in> {Requeued r', Exhausted r', Raised e r'}"
  shows "evolves r r'"
  using assms(3) by (auto intro: evolves_stale [OF assms(2)] dest: stale_step_raised [OF assms(1)])

lemma stale_loop_evolves:
  assumes "policy_total policy" and "distinct (map rid rs)"
    and "\<And>r. r \<in> set rs \<Longrightarrow> status r = Running \<and> lookup s (rid r) = Some r"
  shows "state_evolves s (snd (stale_loop parse policy clock rs res s))"
  using assms(2,3)
proof (induction rs arbitrary: res s)
  case Nil
  then show ?case by auto
next
  case (Cons r rs)
  have r: "status r = Running" "lookup s (rid r) = Some r" using Cons.prems(2) by auto
  have put: "state_evolves s (put_record r' s)"
      "\<And>q. q \<in> set rs \<Longrightarrow> status q = Running \<and> lookup (put_record r' s) (rid q) = Some q"
    if "stale_step parse policy (clock (rid r)) r \<in> {Requeued r', Exhausted r', Raised e r'}" for r' e
  proof -
    have ev: "evolves r r'" by (rule stale_step_evolves [OF assms(1) r(1) that])
    then have same: "rid r' = rid r" by (simp add: evolves_def)
    show "state_evolves s (put_record r' s)"
      by (rule put_record_evolves [OF _ ev]) (simp add: same r(2))
    fix q assume q: "q \<in> set rs"
    moreover have "rid q \<noteq> rid r" by (rule rid_neq [OF Cons.prems(1) q])
    ultimately show "status q = Running \<and> lookup (put_record r' s) (rid q) = Some q"
      using Cons.prems(2) by (simp add: put_record_def same dict_simps)
  qed
  have d: "distinct (map rid rs)" using Cons.prems(1) by simp
  show ?case
  proof (cases "stale_step parse policy (clock (rid r)) r")
    case (Requeued r')
    then show ?thesis using put [of r'] Cons.IH [OF d, of "put_record r' s"]
      by (auto intro: state_evolves_trans)
  next
    case (Exhausted r')
    then show ?thesis using put [of r'] Cons.IH [OF d, of "put_record r' s"]
      by (auto simp: Let_def intro: state_evolves_trans)
  next
    case (Raised e r')
    then show ?thesis using put(1) [of r' e] by simp
  qed
qed

lemma set_take_limit: "x \<in> set (take_limit n xs) \<Longrightarrow> x \<in> set xs"
  by (cases n) (auto simp: py_take_def dest: in_set_takeD)

lemma distinct_map_take: "distinct (map f xs) \<Longrightarrow> distinct (map f (take n xs))"
  by (metis distinct_take take_map)

lemma distinct_map_take_limit: "distinct (map f xs) \<Longrightarrow> distinct (map f (take_limit n xs))"
  by (cases n) (auto simp: py_take_def distinct_map_take)

lemma requeue_stale_evolves:
  assumes wf: "mem_wf s" and "policy_total policy"
  shows "state_evolves s (snd (requeue_stale_running parse policy stale_after limit now clock s))"
  unfolding requeue_stale_running_def
proof (rule stale_loop_evolves [OF assms(2)])
  show "distinct (map rid (take_limit limit (sort_key stale_sort_key
      (filter (is_stale (now - stale_after)) (mem_values s)))))"
    using mem_wf_distinct_rids(2) [OF wf]
    by (intro distinct_map_take_limit) (simp add: distinct_map_sort_key distinct_map_filter)
  fix r assume "r \<in> set (take_limit limit (sort_key stale_sort_key
      (filter (is_stale (now - stale_after)) (mem_values s))))"
  from set_take_limit [OF this] have m: "r \<in> set (mem_values s)" and "is_stale (now - stale_after) r"
    by auto
  then show "status r = Running \<and> lookup s (rid r) = Some r"
    using mem_wf_values [OF wf m] by (simp add: is_stale_def)
qed

lemma expire_loop_evolves:
  "expire_loop now limit n recs = (recs', expired) \<Longrightarrow> recs_evolve recs recs'"
  by (induction recs arbitrary: n recs' expired)
    (auto simp: overdue_def intro!: evolve_intros recs_evolve_refl split: prod.splits if_splits)

lemma expire_overdue_evolves [op_evolves]: "state_evolves s (snd (expire_overdue limit now s))"
  by (auto simp: expire_overdue_def state_evolves_def case_prod_beta
      intro: expire_loop_evolves [OF prod.collapse [symmetric]])

lemma fold_put_evolves:
  assumes "distinct (map rid rs)" and "\<And>r. r \<in> set rs \<Longrightarrow> rid (f r) = rid r \<and> evolves r (f r)"
    and "\<And>r. r \<in> set rs \<Longrightarrow> lookup s (rid r) = Some r"
  shows "state_evolves s (fold put_record (map f rs) s)"
  using assms
proof (induction rs arbitrary: s)
  case Nil
  then show ?case by auto
next
  case (Cons r rs)
  have "state_evolves s (put_record (f r) s)"
    using Cons.prems(2,3) by (intro put_record_evolves) auto
  also have "state_evolves (put_record (f r) s) (fold put_record (map f rs) (put_record (f r) s))"
  proof (rule Cons.IH)
    fix q assume q: "q \<in> set rs"
    then have "rid q \<noteq> rid r" by (rule rid_neq [OF Cons.prems(1)])
    then show "lookup (put_record (f r) s) (rid q) = Some q"
      using Cons.prems(2,3) q by (simp add: put_record_def dict_simps)
  qed (use Cons.prems in auto)
  finally show ?case by simp
qed

lemma repair_candidates_evolves:
  assumes wf: "mem_wf s"
  shows "state_evolves s (snd (list_dispatch_repair_candidates eb limit now s))"
proof -
  let ?rs = "take (nat limit) (sort_key repair_key
      (filter (\<lambda>r. execution_backend r = eb \<and> is_waiting r \<and> not_expired now r) (mem_values s)))"
  have "state_evolves s (fold put_record (map (stamp_checked now) ?rs) s)"
  proof (rule fold_put_evolves)
    show "distinct (map rid ?rs)" using mem_wf_distinct_rids(2) [OF wf]
      by (intro distinct_map_take) (simp add: distinct_map_sort_key distinct_map_filter)
    fix r assume "r \<in> set ?rs"
    then have m: "r \<in> set (mem_values s)" by (auto dest!: in_set_takeD)
    show "lookup s (rid r) = Some r" by (rule mem_wf_values [OF wf m])
    show "rid (stamp_checked now r) = rid r \<and> evolves r (stamp_checked now r)"
      using evolves_stamp [of r now] by (simp add: stamp_checked_def)
  qed
  then show ?thesis by (auto simp: list_dispatch_repair_candidates_def Let_def)
qed

end
