(* ===== verification/Memory_System.thy ===== *)
theory Memory_System
  imports Memory_Invariant
begin

text \<open>
  The in-memory backend as a state machine: one constructor per state-changing method, the
  step function over them, and the states reachable from the empty backend when callers keep
  the documented discipline: record ids are fresh, completion and failure carry the fence
  \<open>expected_retry_count\<close>, heartbeat patches leave the interruption counter alone, and the
  stale-requeue policy returns integers.
\<close>

section \<open>Operations as data\<close>

datatype (plugins only: extraction) mem_op =
    OpEnqueue task_request "uuid option" uuid instant instant instant
  | OpEnqueueMany "(task_request \<times> uuid \<times> instant) list" instant instant
  | OpAssign uuid string int
  | OpClaim uuid "int option" "string option" instant instant
  | OpClaimMany int "string list" "string option" "(string \<times> int) list option" instant
  | OpComplete uuid pyval "int option" instant
  | OpFail uuid string bool "int option" "instant option" "instant option" instant
  | OpCancel uuid bool "int option" instant
  | OpInterrupt uuid int string instant
  | OpCancelTasks "string option" "string option" "dict option" "dict option" bool "uuid \<Rightarrow> instant"
  | OpTouch "heartbeat_touch list" instant
  | OpNull "uuid list" "int option"
  | OpStale "string \<Rightarrow> rat option" stale_policy int "int option" instant "uuid \<Rightarrow> instant"
  | OpExpire "int option" instant
  | OpRepairCandidates string int instant
  | OpReserveScheduled uuid string string int "string option" instant
  | OpReserveExternal uuid string string "string option" "int option" instant instant
  | OpClearRef uuid int string instant
  | OpReplaceRef uuid int string string
  | OpReleaseExternal uuid string string "string option" instant
  | OpFinalizeExternal uuid string string string "string option"
  | OpSetRef uuid string string "string option"
  | OpSetBackend uuid string "string option" instant
  | OpCleanup instant "int option"
  | OpAcquire string string int instant
  | OpRelease string string
  | OpReserveIdentity string uuid string instant
  | OpResetIdentity string "uuid option"
  | OpNotifyControl "string option"
  | OpPollWakeup
  | OpPollControl
  | OpClearAll

primrec mem_step :: "mem_op \<Rightarrow> mem_state \<Rightarrow> mem_state" where
  "mem_step (OpEnqueue req eid fresh t1 t2 t3) s = snd (enqueue req eid fresh t1 t2 t3 s)"
| "mem_step (OpEnqueueMany reqs t1 t2) s = snd (enqueue_many reqs t1 t2 s)"
| "mem_step (OpAssign i w n) s = snd (assign_worker i w n s)"
| "mem_step (OpClaim i n ref t now) s = snd (claim_task_with_expired i n ref t now s)"
| "mem_step (OpClaimMany l qs eb lims now) s = snd (claim_many_with_expired l qs eb lims now s)"
| "mem_step (OpComplete i v n now) s = snd (complete_task i v n now s)"
| "mem_step (OpFail i err retry n ra q now) s = snd (fail_task i err retry n ra q now s)"
| "mem_step (OpCancel i b n now) s = snd (cancel_task i b n now s)"
| "mem_step (OpInterrupt i n w q) s = snd (interrupt_task i n w q s)"
| "mem_step (OpCancelTasks name q kw meta b clock) s = snd (cancel_tasks name q kw meta b clock s)"
| "mem_step (OpTouch ts now) s = snd (touch_heartbeats ts now s)"
| "mem_step (OpNull ids n) s = null_heartbeats ids n s"
| "mem_step (OpStale parse policy after l now clock) s =
     snd (requeue_stale_running parse policy after l now clock s)"
| "mem_step (OpExpire l now) s = snd (expire_overdue l now s)"
| "mem_step (OpRepairCandidates eb l now) s = snd (list_dispatch_repair_candidates eb l now s)"
| "mem_step (OpReserveScheduled i eb ref n expected now) s =
     snd (reserve_scheduled_execution_ref i eb ref n expected now s)"
| "mem_step (OpReserveExternal i eb ref p n now t) s =
     snd (reserve_external_dispatch i eb ref p n now t s)"
| "mem_step (OpClearRef i n ref now) s = snd (clear_execution_ref i n ref now s)"
| "mem_step (OpReplaceRef i n expected ref) s = snd (replace_execution_ref i n expected ref s)"
| "mem_step (OpReleaseExternal i ref eb p now) s = snd (release_external_dispatch i ref eb p now s)"
| "mem_step (OpFinalizeExternal i res eb ref p) s =
     snd (finalize_external_dispatch i res eb ref p s)"
| "mem_step (OpSetRef i eb ref p) s = snd (set_execution_ref i eb ref p s)"
| "mem_step (OpSetBackend i eb p now) s = snd (set_execution_backend i eb p now s)"
| "mem_step (OpCleanup before l) s = snd (cleanup_terminal before l s)"
| "mem_step (OpAcquire name tok ttl now) s = snd (acquire_maintenance name tok ttl now s)"
| "mem_step (OpRelease name tok) s = snd (release_maintenance name tok s)"
| "mem_step (OpReserveIdentity k i name now) s = snd (reserve_identity k i name now s)"
| "mem_step (OpResetIdentity k i) s = snd (reset_identity k i s)"
| "mem_step (OpNotifyControl w) s = notify_worker_control w s"
| "mem_step OpPollWakeup s = snd (poll_wakeup s)"
| "mem_step OpPollControl s = snd (poll_worker_control s)"
| "mem_step OpClearAll s = clear s"

definition new_id :: "uuid option \<Rightarrow> uuid \<Rightarrow> uuid" where
  "new_id eid fresh = (case eid of None \<Rightarrow> fresh | Some i \<Rightarrow> i)"

text \<open>The record ids an operation may insert.\<close>

definition op_new_ids :: "mem_op \<Rightarrow> uuid list" where
  "op_new_ids x =
     (case x of
        OpEnqueue req eid fresh t1 t2 t3 \<Rightarrow> [new_id eid fresh]
      | OpEnqueueMany reqs t1 t2 \<Rightarrow> map (\<lambda>(req, fresh, t). fresh) reqs
      | _ \<Rightarrow> [])"

text \<open>
  The discipline of the callers under which the records stay leased. The backend accepts more: a completion
  or failure without an expected retry count, which overwrites whatever the record is (Cloud Run's
  reconciliation fails a waiting record so), a heartbeat patch that rewrites the count of interruptions, and a
  policy of the user that raises in the middle of a sweep.
\<close>

definition op_disciplined :: "mem_op \<Rightarrow> bool" where
  "op_disciplined x =
     (case x of
        OpComplete i v n now \<Rightarrow> n \<noteq> None
      | OpFail i err retry n ra q now \<Rightarrow> n \<noteq> None
      | OpTouch ts now \<Rightarrow> (\<forall>t \<in> set ts. patch_ok (ht_metadata_patch t))
      | OpStale parse policy after l now clock \<Rightarrow> policy_total policy
      | _ \<Rightarrow> True)"

definition op_ok :: "mem_op \<Rightarrow> mem_state \<Rightarrow> bool" where
  "op_ok x s \<longleftrightarrow> op_disciplined x \<and> distinct (op_new_ids x) \<and>
     (\<forall>i \<in> set (op_new_ids x). lookup s i = None)"

inductive mem_reachable :: "mem_state \<Rightarrow> bool" where
  mem_start: "mem_reachable mem_init"
| mem_stepped: "mem_reachable s \<Longrightarrow> op_ok x s \<Longrightarrow> mem_reachable (mem_step x s)"

section \<open>Insertion\<close>

lemma new_record_ok: "st \<in> {Pending, Scheduled} \<Longrightarrow> record_ok (new_record req i st now)"
proof -
  assume st: "st \<in> {Pending, Scheduled}"
  have "attempts_consumed (new_record req i st now) \<le> 0"
    by (simp add: attempts_consumed_def) (simp add: new_record_def)
  with st show ?thesis by (auto simp: record_ok_def is_terminal_simp new_record_def)
qed

lemma initial_status_waiting: "initial_status now req \<in> {Pending, Scheduled}"
  by (simp add: initial_status_def split: option.split)

lemma keys_consistentI:
  assumes "\<And>k i. dict_get (mem_keys s) k = Some i \<Longrightarrow> \<exists>r. lookup s i = Some r \<and> key r = Some k"
    and "\<And>i r k. lookup s i = Some r \<Longrightarrow> \<not> is_terminal r \<Longrightarrow> key r = Some k \<Longrightarrow>
      dict_get (mem_keys s) k = Some i"
  shows "keys_consistent s"
  using assms by (auto simp: keys_consistent_def)

lemma insert_record_lookup: "lookup (insert_record r s) i = (if i = rid r then Some r else lookup s i)"
  by (simp add: insert_record_def put_record_def dict_simps split: option.split)

lemma insert_record_keys:
  "dict_get (mem_keys (insert_record r s)) k
     = (if key r = Some k then Some (rid r) else dict_get (mem_keys s) k)"
  by (simp add: insert_record_def put_record_def dict_simps split: option.split)

lemma insert_record_wf:
  assumes wf: "mem_wf s" and new: "lookup s (rid r) = None" and ok: "record_ok r"
    and free: "existing_for_key (key r) s = None"
  shows "mem_wf (insert_record r s)"
proof -
  have "keys_consistent (insert_record r s)"
  proof (rule keys_consistentI)
    fix k i assume k: "dict_get (mem_keys (insert_record r s)) k = Some i"
    show "\<exists>q. lookup (insert_record r s) i = Some q \<and> key q = Some k"
    proof (cases "key r = Some k")
      case True
      with k show ?thesis by (auto simp: insert_record_keys insert_record_lookup)
    next
      case False
      with k obtain q where "lookup s i = Some q" "key q = Some k"
        using keys_consistentD(1) [OF mem_wfD(4) [OF wf]] by (auto simp: insert_record_keys)
      with new show ?thesis by (auto simp: insert_record_lookup)
    qed
  next
    fix i q k
    assume q: "lookup (insert_record r s) i = Some q" "\<not> is_terminal q" "key q = Some k"
    show "dict_get (mem_keys (insert_record r s)) k = Some i"
    proof (cases "i = rid r")
      case True
      with q show ?thesis by (auto simp: insert_record_keys insert_record_lookup)
    next
      case False
      with q have l: "lookup s i = Some q" by (simp add: insert_record_lookup)
      have own: "dict_get (mem_keys s) k = Some i"
        by (rule keys_consistentD(2) [OF mem_wfD(4) [OF wf] l q(2,3)])
      with l q(2) free have "key r \<noteq> Some k" by (auto simp: existing_for_key_def)
      with own show ?thesis by (simp add: insert_record_keys)
    qed
  qed
  moreover have "distinct (dict_keys (mem_records (insert_record r s)))"
    using mem_wfD(1) [OF wf] by (simp add: insert_record_def put_record_def split: option.split)
  moreover have "rid q = i \<and> record_ok q" if "lookup (insert_record r s) i = Some q" for i q
    using that ok mem_wfD(2,3) [OF wf] by (auto simp: insert_record_lookup split: if_splits)
  ultimately show ?thesis by (simp add: mem_wf_def)
qed

lemma enqueue_many_loop_wf:
  assumes "mem_wf s" and "distinct (map (\<lambda>(req, fresh, t). fresh) reqs)"
    and "\<And>i. i \<in> set (map (\<lambda>(req, fresh, t). fresh) reqs) \<Longrightarrow> lookup s i = None"
  shows "mem_wf (snd (enqueue_many_loop now reqs s))"
  using assms
proof (induction reqs arbitrary: s)
  case Nil
  then show ?case by simp
next
  case (Cons x reqs)
  obtain req fresh t where x: "x = (req, fresh, t)" by (cases x)
  show ?case
  proof (cases "existing_for_key (req_key req) s")
    case (Some r)
    then show ?thesis using Cons.IH [OF Cons.prems(1)] Cons.prems(2,3)
      by (simp add: x case_prod_beta)
  next
    case None
    let ?r = "new_record req fresh (initial_status now req) t"
    have rid: "rid ?r = fresh" and key: "key ?r = req_key req" by (simp_all add: new_record_def)
    have "mem_wf (insert_record ?r s)"
      using Cons.prems(1,3) None initial_status_waiting [of now req]
      by (intro insert_record_wf new_record_ok) (simp_all add: rid key x)
    moreover have "lookup (insert_record ?r s) i = None"
      if "i \<in> set (map (\<lambda>(req, fresh, t). fresh) reqs)" for i
    proof -
      have "fresh \<notin> set (map (\<lambda>(req, fresh, t). fresh) reqs)" using Cons.prems(2) by (simp add: x)
      with that have "i \<noteq> fresh" by blast
      then show ?thesis using Cons.prems(3) that by (simp add: insert_record_lookup rid)
    qed
    ultimately have "mem_wf (snd (enqueue_many_loop now reqs (insert_record ?r s)))"
      using Cons.prems(2) by (intro Cons.IH) auto
    with None show ?thesis by (simp add: x Let_def case_prod_beta)
  qed
qed

lemma notify_many_evolves: "state_evolves s (notify_new_tasks now rs s)"
  by (auto simp: notify_new_tasks_def intro: notify_evolves split: list.split)

lemma enqueue_wf:
  assumes wf: "mem_wf s" and new: "lookup s (new_id eid fresh) = None"
  shows "mem_wf (snd (enqueue req eid fresh t1 t2 t3 s))"
proof (cases "existing_for_key (req_key req) s")
  case (Some r)
  then show ?thesis using wf by (simp add: enqueue_def)
next
  case None
  let ?r = "new_record req (new_id eid fresh) (initial_status t2 req) t1"
  have rid: "rid ?r = new_id eid fresh" and key: "key ?r = req_key req" by (simp_all add: new_record_def)
  have "mem_wf (insert_record ?r s)"
    using wf new None initial_status_waiting [of t2 req]
    by (intro insert_record_wf new_record_ok) (simp_all add: rid key)
  then have "mem_wf (notify_new_task t3 ?r (insert_record ?r s))"
    by (rule mem_wf_evolves [OF _ notify_evolves])
  with None show ?thesis by (simp add: enqueue_def Let_def new_id_def)
qed

lemma enqueue_many_wf:
  assumes "mem_wf s" and "distinct (map (\<lambda>(req, fresh, t). fresh) reqs)"
    and "\<And>i. i \<in> set (map (\<lambda>(req, fresh, t). fresh) reqs) \<Longrightarrow> lookup s i = None"
  shows "mem_wf (snd (enqueue_many reqs t1 t2 s))"
  using enqueue_many_loop_wf [OF assms] assms(1)
  by (auto simp: enqueue_many_def case_prod_beta intro: mem_wf_evolves [OF _ notify_many_evolves])

section \<open>Deletion\<close>

lemma cleanup_one_lookup: "lookup (cleanup_one r s) i = (if i = rid r then None else lookup s i)"
  by (simp add: cleanup_one_def dict_simps)

lemma cleanup_one_keys:
  "dict_get (mem_keys (cleanup_one r s)) k
     = (if key r = Some k \<and> dict_get (mem_keys s) k = Some (rid r) then None
        else dict_get (mem_keys s) k)"
  by (simp add: cleanup_one_def dict_simps split: option.split)

lemma cleanup_one_wf:
  assumes wf: "mem_wf s" and r: "lookup s (rid r) = Some r" and t: "is_terminal r"
  shows "mem_wf (cleanup_one r s)"
proof -
  have "keys_consistent (cleanup_one r s)"
  proof (rule keys_consistentI)
    fix k i assume k: "dict_get (mem_keys (cleanup_one r s)) k = Some i"
    then have own: "dict_get (mem_keys s) k = Some i" by (simp add: cleanup_one_keys split: if_splits)
    then obtain q where q: "lookup s i = Some q" "key q = Some k"
      using keys_consistentD(1) [OF mem_wfD(4) [OF wf]] by blast
    have "i \<noteq> rid r"
    proof
      assume "i = rid r"
      with q r have "key r = Some k" by simp
      with own k \<open>i = rid r\<close> show False by (simp add: cleanup_one_keys)
    qed
    with q show "\<exists>q. lookup (cleanup_one r s) i = Some q \<and> key q = Some k"
      by (simp add: cleanup_one_lookup)
  next
    fix i q k
    assume q: "lookup (cleanup_one r s) i = Some q" "\<not> is_terminal q" "key q = Some k"
    then have "lookup s i = Some q" "i \<noteq> rid r" by (simp_all add: cleanup_one_lookup split: if_splits)
    then show "dict_get (mem_keys (cleanup_one r s)) k = Some i"
      using keys_consistentD(2) [OF mem_wfD(4) [OF wf] _ q(2,3)] by (simp add: cleanup_one_keys)
  qed
  moreover have "rid q = i \<and> record_ok q" if "lookup (cleanup_one r s) i = Some q" for i q
    using that mem_wfD(2,3) [OF wf] by (auto simp: cleanup_one_lookup split: if_splits)
  moreover have "distinct (dict_keys (mem_records (cleanup_one r s)))"
    using mem_wfD(1) [OF wf] by (simp add: cleanup_one_def)
  ultimately show ?thesis by (simp add: mem_wf_def)
qed

lemma fold_cleanup:
  assumes "mem_wf s" and "distinct (map rid rs)"
    and "\<And>r. r \<in> set rs \<Longrightarrow> lookup s (rid r) = Some r \<and> is_terminal r"
  shows "mem_wf (fold cleanup_one rs s) \<and>
    (\<forall>i. lookup (fold cleanup_one rs s) i = (if i \<in> rid ` set rs then None else lookup s i))"
  using assms
proof (induction rs arbitrary: s)
  case Nil
  then show ?case by simp
next
  case (Cons r rs)
  have "mem_wf (cleanup_one r s)" using Cons.prems(1,3) by (intro cleanup_one_wf) auto
  moreover have "lookup (cleanup_one r s) (rid q) = Some q \<and> is_terminal q" if "q \<in> set rs" for q
    using rid_neq [OF Cons.prems(2) that] Cons.prems(3) that by (simp add: cleanup_one_lookup)
  ultimately have "mem_wf (fold cleanup_one rs (cleanup_one r s)) \<and>
      (\<forall>i. lookup (fold cleanup_one rs (cleanup_one r s)) i
        = (if i \<in> rid ` set rs then None else lookup (cleanup_one r s) i))"
    using Cons.prems(2) by (intro Cons.IH) auto
  then show ?case by (auto simp: cleanup_one_lookup)
qed

definition cleanup_selection :: "instant \<Rightarrow> int option \<Rightarrow> mem_state \<Rightarrow> task_record list" where
  "cleanup_selection before limit s =
     take_limit limit (sort_key (\<lambda>r. (completed_at r, uuid_str (rid r)))
       (filter (cleanup_candidate before) (mem_values s)))"

lemma cleanup_selection_facts:
  assumes "mem_wf s"
  shows "distinct (map rid (cleanup_selection before limit s))"
    and "r \<in> set (cleanup_selection before limit s) \<Longrightarrow>
      lookup s (rid r) = Some r \<and> cleanup_candidate before r"
proof -
  show "distinct (map rid (cleanup_selection before limit s))"
    using mem_wf_distinct_rids(2) [OF assms] unfolding cleanup_selection_def
    by (intro distinct_map_take_limit) (simp add: distinct_map_sort_key distinct_map_filter)
  assume r: "r \<in> set (cleanup_selection before limit s)"
  then have "r \<in> set (mem_values s) \<and> cleanup_candidate before r"
    unfolding cleanup_selection_def by (auto dest!: set_take_limit)
  then show "lookup s (rid r) = Some r \<and> cleanup_candidate before r"
    using mem_wf_values [OF assms] by blast
qed

lemma cleanup_terminal_eq:
  "cleanup_terminal before limit s =
     (length (cleanup_selection before limit s), fold cleanup_one (cleanup_selection before limit s) s)"
  by (simp add: cleanup_terminal_def cleanup_selection_def Let_def)

lemma cleanup_terminal_wf:
  assumes "mem_wf s"
  shows "mem_wf (snd (cleanup_terminal before limit s))"
    and "lookup (snd (cleanup_terminal before limit s)) i
      = (if i \<in> rid ` set (cleanup_selection before limit s) then None else lookup s i)"
proof -
  have "lookup s (rid r) = Some r \<and> is_terminal r" if "r \<in> set (cleanup_selection before limit s)" for r
    using cleanup_selection_facts(2) [OF assms that] by (simp add: cleanup_candidate_def)
  note fold = fold_cleanup [OF assms cleanup_selection_facts(1) [OF assms] this]
  show "mem_wf (snd (cleanup_terminal before limit s))"
    and "lookup (snd (cleanup_terminal before limit s)) i
      = (if i \<in> rid ` set (cleanup_selection before limit s) then None else lookup s i)"
    using fold by (simp_all add: cleanup_terminal_eq)
qed

section \<open>One step\<close>

text \<open>The operations that neither insert nor delete records.\<close>

definition op_local :: "mem_op \<Rightarrow> bool" where
  "op_local x =
     (case x of
        OpEnqueue req eid fresh t1 t2 t3 \<Rightarrow> False
      | OpEnqueueMany reqs t1 t2 \<Rightarrow> False
      | OpCleanup before l \<Rightarrow> False
      | OpClearAll \<Rightarrow> False
      | _ \<Rightarrow> True)"

lemma other_tables_evolve [op_evolves]:
  "state_evolves s (snd (acquire_maintenance name tok ttl now s))"
  "state_evolves s (snd (release_maintenance name tok s))"
  "state_evolves s (snd (reserve_identity k i name now s))"
  "state_evolves s (snd (reset_identity k owner s))"
  "state_evolves s (notify_worker_control w s)"
  "state_evolves s (snd (poll_wakeup s))"
  "state_evolves s (snd (poll_worker_control s))"
  by (auto simp: acquire_maintenance_def release_maintenance_def reserve_identity_def
      reset_identity_def notify_worker_control_def poll_wakeup_def poll_worker_control_def
      state_evolves_def recs_evolve_refl split: option.splits prod.splits)

lemma mem_step_evolves:
  assumes wf: "mem_wf s" and "op_disciplined x" and "op_local x"
  shows "state_evolves s (mem_step x s)"
  using assms(2,3)
  by (cases x) (auto simp: op_disciplined_def op_local_def
      intro: op_evolves claim_many_evolves [OF wf] requeue_stale_evolves [OF wf]
        repair_candidates_evolves [OF wf])

lemma op_ok_many:
  assumes "op_ok (OpEnqueueMany reqs t1 t2) s"
  shows "distinct (map (\<lambda>(req, fresh, t). fresh) reqs)"
    and "j \<in> set (map (\<lambda>(req, fresh, t). fresh) reqs) \<Longrightarrow> lookup s j = None"
  using assms unfolding op_ok_def op_new_ids_def mem_op.case by blast+

lemma mem_step_wf:
  assumes wf: "mem_wf s" and ok: "op_ok x s"
  shows "mem_wf (mem_step x s)"
proof (cases "op_local x")
  case True
  with ok show ?thesis
    by (intro mem_wf_evolves [OF wf] mem_step_evolves [OF wf]) (simp_all add: op_ok_def)
next
  case False
  have clear: "mem_wf (clear s)" by (simp add: mem_wf_def clear_def keys_consistent_def)
  show ?thesis
  proof (cases x)
    case (OpEnqueueMany reqs t1 t2)
    then show ?thesis using enqueue_many_wf [OF wf op_ok_many] ok by simp
  qed (use False ok clear in \<open>simp_all add: op_local_def op_ok_def op_new_ids_def
    enqueue_wf [OF wf] cleanup_terminal_wf(1) [OF wf]\<close>)
qed

theorem mem_reachable_wf: "mem_reachable s \<Longrightarrow> mem_wf s"
  by (induction rule: mem_reachable.induct) (simp_all add: mem_step_wf)

lemma enqueue_lookup:
  "lookup s (new_id eid fresh) = None \<Longrightarrow> lookup s i = Some r \<Longrightarrow>
   lookup (snd (enqueue req eid fresh t1 t2 t3 s)) i = Some r"
  by (auto simp: enqueue_def Let_def notify_new_task_def insert_record_lookup new_id_def
      new_record_def split: option.split)

lemma enqueue_many_loop_lookup:
  assumes "distinct (map (\<lambda>(req, fresh, t). fresh) reqs)"
    and "\<And>j. j \<in> set (map (\<lambda>(req, fresh, t). fresh) reqs) \<Longrightarrow> lookup s j = None"
    and "lookup s i = Some r"
  shows "lookup (snd (enqueue_many_loop now reqs s)) i = Some r"
  using assms
proof (induction reqs arbitrary: s)
  case Nil
  then show ?case by simp
next
  case (Cons x reqs)
  obtain req fresh t where x: "x = (req, fresh, t)" by (cases x)
  let ?r = "new_record req fresh (initial_status now req) t"
  have rid: "rid ?r = fresh" by (simp add: new_record_def)
  have fresh: "fresh \<notin> set (map (\<lambda>(req, fresh, t). fresh) reqs)" "lookup s fresh = None"
    using Cons.prems(1,2) by (simp_all add: x)
  have d: "distinct (map (\<lambda>(req, fresh, t). fresh) reqs)" using Cons.prems(1) by simp
  have "lookup (insert_record ?r s) j = None" if "j \<in> set (map (\<lambda>(req, fresh, t). fresh) reqs)" for j
    using that fresh(1) Cons.prems(2) by (auto simp: insert_record_lookup rid simp del: set_map)
  moreover have "lookup (insert_record ?r s) i = Some r"
    using fresh(2) Cons.prems(3) by (auto simp: insert_record_lookup rid)
  ultimately have new: "lookup (snd (enqueue_many_loop now reqs (insert_record ?r s))) i = Some r"
    by (intro Cons.IH [OF d])
  have old: "lookup (snd (enqueue_many_loop now reqs s)) i = Some r"
    using Cons.prems(2,3) by (intro Cons.IH [OF d]) auto
  show ?case using new old by (simp add: x Let_def case_prod_beta split: option.split)
qed

lemma enqueue_many_lookup:
  assumes "distinct (map (\<lambda>(req, fresh, t). fresh) reqs)"
    and "\<And>j. j \<in> set (map (\<lambda>(req, fresh, t). fresh) reqs) \<Longrightarrow> lookup s j = None"
    and "lookup s i = Some r"
  shows "lookup (snd (enqueue_many reqs t1 t2 s)) i = Some r"
  using enqueue_many_loop_lookup [OF assms] assms(3)
  by (auto simp: enqueue_many_def case_prod_beta notify_new_tasks_def notify_new_task_def split: list.split)

text \<open>
  What a step can do to a stored record: it evolves, or it was terminal and retention removed
  it, or the backend was cleared.
\<close>

lemma mem_step_record:
  assumes wf: "mem_wf s" and ok: "op_ok x s" and r: "lookup s i = Some r"
  shows "(\<exists>r'. lookup (mem_step x s) i = Some r' \<and> evolves r r') \<or>
    lookup (mem_step x s) i = None \<and> ((\<exists>before l. x = OpCleanup before l) \<and> is_terminal r \<or> x = OpClearAll)"
proof (cases "op_local x")
  case True
  with ok have "state_evolves s (mem_step x s)"
    by (intro mem_step_evolves [OF wf]) (simp_all add: op_ok_def)
  then show ?thesis using recs_evolve_lookup r by (auto simp: state_evolves_def)
next
  case False
  show ?thesis
  proof (cases x)
    case (OpEnqueue req eid fresh t1 t2 t3)
    then show ?thesis using ok enqueue_lookup [OF _ r] by (auto simp: op_ok_def op_new_ids_def)
  next
    case (OpEnqueueMany reqs t1 t2)
    then have "lookup (snd (enqueue_many reqs t1 t2 s)) i = Some r"
      using enqueue_many_lookup [OF op_ok_many r] ok by simp
    with OpEnqueueMany show ?thesis by auto
  next
    case (OpCleanup before l)
    have "is_terminal r" if "i \<in> rid ` set (cleanup_selection before l s)"
      using that cleanup_selection_facts(2) [OF wf, of _ before l] r by (auto simp: cleanup_candidate_def)
    then show ?thesis using OpCleanup r by (auto simp: cleanup_terminal_wf(2) [OF wf])
  next
    case OpClearAll
    then show ?thesis by (simp add: clear_def)
  qed (use False in \<open>simp_all add: op_local_def\<close>)
qed

end
