(* ===== verification/Memory_Properties.thy ===== *)
theory Memory_Properties
  imports Memory_System
begin

text \<open>
  Functional facts of the in-memory backend's claims, settlement, sweeps and retention, runs
  that do not draw a given id again, and the properties of the backend.
\<close>

section \<open>Claims\<close>

lemma claim_key_start [simp]: "claim_key (start_record now r) = claim_key r"
  by (simp add: claim_key_def start_record_def)

lemma start_record_fields [simp]:
  "rid (start_record now r) = rid r" "queue (start_record now r) = queue r"
  "status (start_record now r) = Running" "retry_count (start_record now r) = retry_count r"
  by (simp_all add: start_record_def)

lemma dict_get_consume:
  "dict_get (consume_slot q' d) q
     = (if q' = q then map_option (\<lambda>n. n - 1) (dict_get d q) else dict_get d q)"
  by (auto simp: consume_slot_def dict_simps split: option.split)

lemma claim_take_unlimited:
  "fst (claim_take now n [] rs recs) = map (start_record now) (take (nat n) rs)"
  by (induction rs arbitrary: n recs)
    (auto simp: queue_blocked_def consume_slot_def Let_def case_prod_beta take_Cons' nat_diff_distrib)

lemma claim_take_selects:
  "claim_take now n remaining rs recs = (claimed, recs') \<Longrightarrow>
   \<exists>chosen. claimed = map (start_record now) chosen \<and> set chosen \<subseteq> set rs \<and>
     (distinct (map rid rs) \<longrightarrow> distinct (map rid chosen)) \<and> int (length chosen) \<le> max 0 n"
proof (induction rs arbitrary: n remaining recs claimed recs')
  case Nil
  then show ?case by simp
next
  case (Cons r rs)
  show ?case
  proof (cases "n \<le> 0 \<or> queue_blocked remaining (queue r)")
    case True
    then show ?thesis using Cons.prems Cons.IH [of n remaining recs claimed recs']
      by (cases "n \<le> 0") (auto split: if_splits intro: exI [of _ "[]"])
  next
    case False
    then obtain claimed' where c: "claimed = start_record now r # claimed'"
      and rest: "claim_take now (n - 1) (consume_slot (queue r) remaining) rs
        (dict_set (rid r) (start_record now r) recs) = (claimed', recs')"
      using Cons.prems by (auto split: prod.splits)
    from Cons.IH [OF rest] obtain chosen where ch: "claimed' = map (start_record now) chosen"
      "set chosen \<subseteq> set rs" "distinct (map rid rs) \<longrightarrow> distinct (map rid chosen)"
      "int (length chosen) \<le> max 0 (n - 1)" by blast
    show ?thesis using False c ch by (intro exI [of _ "r # chosen"]) auto
  qed
qed

lemma claim_take_limits:
  "claim_take now n remaining rs recs = (claimed, recs') \<Longrightarrow> dict_get remaining q = Some l \<Longrightarrow>
   int (length (filter (\<lambda>r. queue r = q) claimed)) \<le> max 0 l"
proof (induction rs arbitrary: n remaining recs claimed recs' l)
  case Nil
  then show ?case by simp
next
  case (Cons r rs)
  show ?case
  proof (cases "n \<le> 0 \<or> queue_blocked remaining (queue r)")
    case True
    then show ?thesis using Cons.prems Cons.IH [of n remaining recs claimed recs' l]
      by (cases "n \<le> 0") auto
  next
    case False
    then obtain claimed' where c: "claimed = start_record now r # claimed'"
      and rest: "claim_take now (n - 1) (consume_slot (queue r) remaining) rs
        (dict_set (rid r) (start_record now r) recs) = (claimed', recs')"
      using Cons.prems(1) by (auto split: prod.splits)
    have free: "0 < l" if "queue r = q"
      using False Cons.prems(2) that by (auto simp: queue_blocked_def)
    have "dict_get (consume_slot (queue r) remaining) q = Some (if queue r = q then l - 1 else l)"
      using Cons.prems(2) by (simp add: dict_get_consume)
    from Cons.IH [OF rest this] show ?thesis using free by (auto simp: c split: if_splits)
  qed
qed

lemma claim_take_table:
  assumes "claim_take now n remaining rs recs = (claimed, recs')" and "distinct (map rid rs)"
  shows "(\<forall>r \<in> set claimed. dict_get recs' (rid r) = Some r) \<and>
    (\<forall>i. i \<notin> rid ` set claimed \<longrightarrow> dict_get recs' i = dict_get recs i)"
  using assms
proof (induction rs arbitrary: n remaining recs claimed recs')
  case Nil
  then show ?case by simp
next
  case (Cons r rs)
  show ?case
  proof (cases "n \<le> 0 \<or> queue_blocked remaining (queue r)")
    case True
    then show ?thesis using Cons.prems Cons.IH [of n remaining recs claimed recs']
      by (cases "n \<le> 0") auto
  next
    case False
    then obtain claimed' where c: "claimed = start_record now r # claimed'"
      and rest: "claim_take now (n - 1) (consume_slot (queue r) remaining) rs
        (dict_set (rid r) (start_record now r) recs) = (claimed', recs')"
      using Cons.prems(1) by (auto split: prod.splits)
    have IH: "(\<forall>r \<in> set claimed'. dict_get recs' (rid r) = Some r) \<and>
      (\<forall>i. i \<notin> rid ` set claimed' \<longrightarrow>
         dict_get recs' i = dict_get (dict_set (rid r) (start_record now r) recs) i)"
      by (rule Cons.IH [OF rest]) (use Cons.prems(2) in simp)
    have "rid r \<notin> rid ` set claimed'"
      using claim_take_selects [OF rest] Cons.prems(2) by (fastforce simp: image_iff)
    with IH show ?thesis by (auto simp: c dict_simps)
  qed
qed


lemma claim_many_unfold:
  assumes "mem_wf s" and "0 < limit"
  obtains recs eligible expired claimed recs' where
    "claim_scan now qs eb (mem_records s) = (recs, eligible, expired)"
    "claim_take now limit (case lims of None \<Rightarrow> [] | Some d \<Rightarrow> d) (sort_key claim_key eligible) recs
      = (claimed, recs')"
    "claim_many_with_expired limit qs eb lims now s = ((claimed, expired), s\<lparr>mem_records := recs'\<rparr>)"
proof -
  obtain recs eligible expired where
    scan: "claim_scan now qs eb (mem_records s) = (recs, eligible, expired)" by (metis prod_cases3)
  obtain claimed recs' where
    take: "claim_take now limit (case lims of None \<Rightarrow> [] | Some d \<Rightarrow> d)
      (sort_key claim_key eligible) recs = (claimed, recs')" by fastforce
  show thesis
    by (rule that [OF scan take]) (use assms(2) scan take in \<open>simp add: claim_many_with_expired_def\<close>)
qed


section \<open>Runs\<close>

text \<open>A run of disciplined operations in which the id \<open>i\<close> is not drawn again.\<close>

inductive mem_run :: "uuid \<Rightarrow> mem_state \<Rightarrow> mem_state \<Rightarrow> bool" for i s where
  stay: "mem_run i s s"
| onward: "mem_run i s t \<Longrightarrow> op_ok x t \<Longrightarrow> i \<notin> set (op_new_ids x) \<Longrightarrow> mem_run i s (mem_step x t)"

lemma mem_run_wf: "mem_run i s t \<Longrightarrow> mem_wf s \<Longrightarrow> mem_wf t"
  by (induction rule: mem_run.induct) (auto intro: mem_step_wf)

lemma enqueue_many_loop_none:
  "i \<notin> set (map (\<lambda>(req, fresh, t). fresh) reqs) \<Longrightarrow> lookup s i = None \<Longrightarrow>
   lookup (snd (enqueue_many_loop now reqs s)) i = None"
proof (induction reqs arbitrary: s)
  case (Cons x reqs)
  obtain req fresh t where x: "x = (req, fresh, t)" by (cases x)
  let ?r = "new_record req fresh (initial_status now req) t"
  have "lookup (insert_record ?r s) i = None"
    using Cons.prems by (simp add: x insert_record_lookup new_record_def)
  then show ?case using Cons.prems Cons.IH [of s] Cons.IH [of "insert_record ?r s"]
    by (simp add: x Let_def case_prod_beta split: option.split)
qed simp

lemma mem_step_none:
  assumes wf: "mem_wf s" and ok: "op_ok x s" and i: "i \<notin> set (op_new_ids x)" "lookup s i = None"
  shows "lookup (mem_step x s) i = None"
proof (cases "op_local x")
  case True
  with ok have "state_evolves s (mem_step x s)"
    by (intro mem_step_evolves [OF wf]) (simp_all add: op_ok_def)
  then show ?thesis using recs_evolve_lookup_None i(2) by (auto simp: state_evolves_def)
next
  case False
  show ?thesis
  proof (cases x)
    case (OpEnqueue req eid fresh t1 t2 t3)
    with i show ?thesis
      by (auto simp: enqueue_def Let_def notify_new_task_def insert_record_lookup new_id_def
          new_record_def op_new_ids_def split: option.split)
  next
    case (OpEnqueueMany reqs t1 t2)
    with i have "lookup (snd (enqueue_many_loop t1 reqs s)) i = None"
      by (intro enqueue_many_loop_none) (simp_all add: op_new_ids_def)
    with OpEnqueueMany i(2) show ?thesis
      by (auto simp: enqueue_many_def case_prod_beta notify_new_tasks_def notify_new_task_def
          split: list.split)
  qed (use False i in \<open>simp_all add: op_local_def cleanup_terminal_wf(2) [OF wf] clear_def\<close>)
qed

lemma mem_run_record:
  assumes run: "mem_run i s t" and wf: "mem_wf s" and r: "lookup s i = Some r"
  shows "lookup t i = None \<or> (\<exists>r'. lookup t i = Some r' \<and> evolves r r')"
  using run
proof (induction rule: mem_run.induct)
  case stay
  then show ?case using r by simp
next
  case (onward t x)
  have wf_t: "mem_wf t" by (rule mem_run_wf [OF onward.hyps(1) wf])
  show ?case
  proof (cases "lookup t i")
    case None
    then show ?thesis using mem_step_none [OF wf_t onward.hyps(2,3)] by simp
  next
    case (Some r')
    with onward.IH have "evolves r r'" by simp
    with mem_step_record [OF wf_t onward.hyps(2) Some] show ?thesis by (auto intro: evolves_trans)
  qed
qed

section \<open>Properties\<close>

text \<open>Property C5: every state the backend reaches is well formed: ids index their own records,
  the key index points at records with that key, a terminal record has a completion time, a
  running one a start time, only running records carry a heartbeat, and no record has consumed
  more attempts than its retry budget allows.\<close>

theorem reachable_states_well_formed:
  assumes "mem_reachable s"
  shows "mem_wf s"
  by (rule mem_reachable_wf [OF assms])



text \<open>Property C2: once the retry counter of a record has moved past the generation a worker
  claimed, every operation that carries this generation answers that nothing was done and leaves the
  state as it is: completion, failure, interruption, taking ownership, and a cancellation with the expected
  retry count. An operation without one is not covered: \<open>_handle_job_cancelled\<close> cancels without it
  (\<open>lost_attempt_can_cancel\<close>).\<close>

theorem lost_lease_cannot_settle:
  assumes reach: "mem_reachable s" and r: "lookup s i = Some r" and moved: "n < retry_count r"
    and run: "mem_run i s t"
  shows "complete_task i v (Some n) now t = (None, t) \<and>
    fail_task i err retry (Some n) retry_at queued now t = (None, t) \<and>
    interrupt_task i n w requeued t = (None, t) \<and>
    assign_worker i w n t = (None, t) \<and>
    cancel_task i b (Some n) now t = (False, t)"
proof -
  have "lookup t i = None \<or> (\<exists>r'. lookup t i = Some r' \<and> n < retry_count r')"
    using mem_run_record [OF run mem_reachable_wf [OF reach] r] moved by (auto simp: evolves_def)
  then show ?thesis
    by (auto simp: complete_task_def fail_task_def interrupt_task_def assign_worker_def
        cancel_task_def modify_if_def attempt_fence_def)
qed

text \<open>Property C7: a terminal outcome is final along every run in which completions and failures carry the
  retry count they were made for: the record keeps its status, result, error and completion time
  until retention or a reset removes it. Without that count they overwrite a finished record, and the Cloud Run
  reconciliation of a waiting record fails it so (\<open>unfenced_failure_revives\<close>).\<close>

theorem terminal_outcome_final:
  assumes reach: "mem_reachable s" and r: "lookup s i = Some r" "is_terminal r"
    and run: "mem_run i s t" and r': "lookup t i = Some r'"
  shows "status r' = status r \<and> task_result r' = task_result r \<and> error r' = error r \<and>
    completed_at r' = completed_at r \<and> completed_at r' \<noteq> None"
proof -
  have wf: "mem_wf s" by (rule mem_reachable_wf [OF reach])
  have "evolves r r'" using mem_run_record [OF run wf r(1)] r' by simp
  moreover have "completed_at r \<noteq> None"
    using mem_wfD(3) [OF wf r(1)] r(2) by (simp add: record_ok_def)
  ultimately show ?thesis using r(2) by (simp add: evolves_def)
qed

text \<open>Property C9: without queue limits a batch claim starts exactly the first \<open>limit\<close> eligible
  records in the order priority (descending), queue time, creation time, id.\<close>

theorem claim_many_takes_best:
  assumes "mem_reachable s" and "0 < limit"
  shows "fst (claim_many limit queues eb None now s) =
    map (start_record now) (take (nat limit) (sort_key claim_key
      (filter (eligible_for now queues eb) (mem_values s))))"
proof -
  obtain recs eligible expired claimed recs' where
    scan: "claim_scan now queues eb (mem_records s) = (recs, eligible, expired)" and
    take: "claim_take now limit (case None of None \<Rightarrow> [] | Some d \<Rightarrow> d) (sort_key claim_key eligible) recs
      = (claimed, recs')" and
    res: "claim_many_with_expired limit queues eb None now s = ((claimed, expired), s\<lparr>mem_records := recs'\<rparr>)"
    by (rule claim_many_unfold [OF mem_reachable_wf [OF assms(1)] assms(2)])
  have "claimed = map (start_record now) (take (nat limit) (sort_key claim_key eligible))"
    using claim_take_unlimited [of now limit "sort_key claim_key eligible" recs] take by simp
  then show ?thesis using claim_scan_eligible [OF scan] by (simp add: claim_many_def res)
qed

text \<open>Property C10: a batch claim respects the total limit and every per-queue limit, returns no
  record twice, and leaves each returned record running in the backend with the claim time as
  its start and heartbeat.\<close>

theorem claim_many_respects_limits:
  assumes reach: "mem_reachable s" and "0 < limit"
    and res: "claim_many limit queues eb (Some limits) now s = (claimed, s')"
  shows "int (length claimed) \<le> limit \<and>
    (\<forall>q l. dict_get limits q = Some l \<longrightarrow> int (length (filter (\<lambda>r. queue r = q) claimed)) \<le> max 0 l) \<and>
    distinct (map rid claimed) \<and>
    (\<forall>r \<in> set claimed. lookup s' (rid r) = Some r \<and> status r = Running \<and>
      started_at r = Some now \<and> heartbeat_at r = Some now)"
proof -
  have wf: "mem_wf s" by (rule mem_reachable_wf [OF reach])
  obtain recs eligible expired claimed0 recs' where
    scan: "claim_scan now queues eb (mem_records s) = (recs, eligible, expired)" and
    take: "claim_take now limit (case Some limits of None \<Rightarrow> [] | Some d \<Rightarrow> d) (sort_key claim_key eligible) recs
      = (claimed0, recs')" and
    eq: "claim_many_with_expired limit queues eb (Some limits) now s = ((claimed0, expired), s\<lparr>mem_records := recs'\<rparr>)"
    by (rule claim_many_unfold [OF wf assms(2)])
  have out: "claimed = claimed0" "s' = s\<lparr>mem_records := recs'\<rparr>"
    using res by (simp_all add: claim_many_def eq)
  note take' = take [simplified]
  obtain chosen where ch: "claimed0 = map (start_record now) chosen"
    "distinct (map rid chosen)" "int (length chosen) \<le> max 0 limit"
    using claim_take_selects [OF take] claim_order_distinct [OF wf scan] by blast
  have "int (length claimed) \<le> limit" using ch(1,3) assms(2) by (simp add: out)
  moreover have "distinct (map rid claimed)" using ch by (simp add: out o_def)
  moreover have "int (length (filter (\<lambda>r. queue r = q) claimed)) \<le> max 0 l" if "dict_get limits q = Some l" for q l
    using claim_take_limits [OF take' that] by (simp add: out)
  moreover have "lookup s' (rid r) = Some r \<and> status r = Running \<and> started_at r = Some now \<and>
      heartbeat_at r = Some now" if "r \<in> set claimed" for r
    using that claim_take_table [OF take' claim_order_distinct [OF wf scan]] ch(1)
    by (auto simp: out start_record_def)
  ultimately show ?thesis by blast
qed

end
