(* ===== verification/Memory_Sweeps.thy ===== *)
theory Memory_Sweeps
  imports Memory_Properties
begin

text \<open>
  Enqueue, statistics, heartbeats, expiry, stale recovery, retention and retry accounting of the
  in-memory backend: what each bulk operation does to every record, and its properties.
\<close>

section \<open>Statistics\<close>

lemma statistics_fold:
  "statistics_get (fold (\<lambda>r st. if P r then statistics_set st (status r) (statistics_get st (status r) + 1)
      else st) rs st0) a
     = statistics_get st0 a + int (length (filter (\<lambda>r. P r \<and> status r = a) rs))"
  by (induction rs arbitrary: st0) auto

lemma statistics_fold_total:
  "statistics_total (fold (\<lambda>r st. if P r then statistics_set st (status r) (statistics_get st (status r) + 1)
      else st) rs st0)
     = statistics_total st0 + int (length (filter P rs))"
  by (induction rs arbitrary: st0) auto

text \<open>the statistics of a queue count, under each status, exactly the records of that
  queue in that status, and their total is the number of records of the queue.\<close>

theorem statistics_exact:
  "statistics_get (get_statistics q s) a
     = int (length (filter (\<lambda>r. fence q (queue r) \<and> status r = a) (mem_values s))) \<and>
   statistics_total (get_statistics q s) = int (length (filter (\<lambda>r. fence q (queue r)) (mem_values s)))"
proof -
  have "statistics_get empty_statistics a = 0" by (cases a) (simp_all add: empty_statistics_def)
  moreover have "statistics_total empty_statistics = 0" by (simp add: statistics_total_def empty_statistics_def)
  ultimately show ?thesis
    by (simp add: get_statistics_def statistics_fold statistics_fold_total del: fence.simps)
qed

section \<open>Enqueue\<close>

lemma enqueue_result_lookup:
  assumes "mem_wf s" and "lookup s (new_id eid fresh) = None"
    and "enqueue req eid fresh t1 t2 t3 s = (r, s')"
  shows "lookup s' (rid r) = Some r \<and> key r = req_key req \<and> \<not> is_terminal r"
proof (cases "existing_for_key (req_key req) s")
  case (Some q)
  then have out: "r = q" "s' = s" using assms(3) by (simp_all add: enqueue_def)
  from Some obtain k i where k: "req_key req = Some k" "dict_get (mem_keys s) k = Some i"
    "lookup s i = Some q" "\<not> is_terminal q"
    by (auto simp: existing_for_key_def split: option.splits if_splits)
  moreover have "key q = Some k"
    using keys_consistentD(1) [OF mem_wfD(4) [OF assms(1)] k(2)] k(3) by auto
  ultimately show ?thesis using mem_wfD(2) [OF assms(1) k(3)] by (simp add: out)
next
  case None
  let ?r = "new_record req (new_id eid fresh) (initial_status t2 req) t1"
  have out: "r = ?r" "s' = notify_new_task t3 ?r (insert_record ?r s)"
    using assms(3) None by (auto simp: enqueue_def Let_def new_id_def)
  have "\<not> is_terminal ?r" using initial_status_waiting [of t2 req]
    by (auto simp: is_terminal_simp new_record_def)
  moreover have "lookup s' (rid ?r) = Some ?r"
    by (simp add: out notify_new_task_def insert_record_lookup)
  ultimately show ?thesis by (simp add: out new_record_def)
qed

text \<open>enqueueing with a key is idempotent while the task is active: after a first
  enqueue under key \<open>k\<close>, and any run in which its record is still active, a second enqueue under
  \<open>k\<close> returns that very record and changes nothing.\<close>

theorem enqueue_deduplicates:
  assumes reach: "mem_reachable s" and fresh: "lookup s (new_id eid f) = None"
    and first: "enqueue req eid f t1 t2 t3 s = (r, s')" and k: "req_key req = Some k"
    and run: "mem_run (rid r) s' t" and live: "lookup t (rid r) = Some r'" "\<not> is_terminal r'"
    and second: "req_key req2 = Some k"
  shows "enqueue req2 eid2 f2 u1 u2 u3 t = (r', t)"
proof -
  have wf: "mem_wf s" by (rule mem_reachable_wf [OF reach])
  have wf': "mem_wf s'" using enqueue_wf [OF wf fresh, of req t1 t2 t3] first by simp
  have r: "lookup s' (rid r) = Some r" "key r = Some k"
    using enqueue_result_lookup [OF wf fresh first] k by simp_all
  have wf_t: "mem_wf t" by (rule mem_run_wf [OF run wf'])
  have "key r' = Some k" using mem_run_record [OF run wf' r(1)] live(1) r(2) by (auto simp: evolves_def)
  then have "dict_get (mem_keys t) k = Some (rid r)"
    by (rule keys_consistentD(2) [OF mem_wfD(4) [OF wf_t] live])
  with live show ?thesis by (simp add: enqueue_def existing_for_key_def second)
qed

section \<open>Heartbeats\<close>

definition touch_hits :: "mem_state \<Rightarrow> heartbeat_touch \<Rightarrow> bool" where
  "touch_hits s t \<longleftrightarrow> (case lookup s (ht_task_id t) of
     None \<Rightarrow> False
   | Some r \<Rightarrow> status r = Running \<and> fence (ht_expected_retry_count t) (retry_count r))"

lemma touch_one_result:
  "fst (touch_one now t (res, s)) =
     (if touch_hits s t
      then res\<lparr>touched_task_ids := set_add (ht_task_id t) (touched_task_ids res)\<rparr>
      else res\<lparr>missed_task_ids := set_add (ht_task_id t) (missed_task_ids res)\<rparr>)"
  by (auto simp: touch_one_def touch_hits_def modify_if_def split: option.splits)

lemma touch_one_hits: "touch_hits (snd (touch_one now t acc)) u = touch_hits (snd acc) u"
  by (cases acc) (auto simp: touch_one_def touch_hits_def modify_if_def touch_record_def dict_simps
      split: option.splits)

lemma touch_fold_result:
  "set (touched_task_ids (fst (fold (touch_one now) ts (res, s))))
     = set (touched_task_ids res) \<union> ht_task_id ` set (filter (touch_hits s) ts) \<and>
   set (missed_task_ids (fst (fold (touch_one now) ts (res, s))))
     = set (missed_task_ids res) \<union> ht_task_id ` set (filter (\<lambda>t. \<not> touch_hits s t) ts)"
proof (induction ts arbitrary: res s)
  case Nil
  then show ?case by simp
next
  case (Cons t ts)
  obtain res' s' where one: "touch_one now t (res, s) = (res', s')" by fastforce
  have hits: "touch_hits s' u = touch_hits s u" for u
    using touch_one_hits [of now t "(res, s)" u] by (simp add: one)
  have res': "res' = (if touch_hits s t
      then res\<lparr>touched_task_ids := set_add (ht_task_id t) (touched_task_ids res)\<rparr>
      else res\<lparr>missed_task_ids := set_add (ht_task_id t) (missed_task_ids res)\<rparr>)"
    using touch_one_result [of now t res s] by (simp add: one split: if_splits)
  show ?case
    using Cons.IH [of res' s'] by (simp add: one hits res')
qed

text \<open>a bulk heartbeat confirms exactly the touches whose task is running at the
  expected retry count and reports exactly the others as missed.\<close>

theorem touch_heartbeats_exact:
  "set (touched_task_ids (fst (touch_heartbeats touches now s)))
     = ht_task_id ` {t \<in> set touches. touch_hits s t} \<and>
   set (missed_task_ids (fst (touch_heartbeats touches now s)))
     = ht_task_id ` {t \<in> set touches. \<not> touch_hits s t}"
  using touch_fold_result [of now touches empty_touch_result s]
  by (simp add: touch_heartbeats_def empty_touch_result_def)

section \<open>Expiry\<close>

lemma expire_loop_result:
  assumes "0 \<le> n"
  shows "snd (expire_loop now limit n recs) = map (expire_record now)
     ((case limit of None \<Rightarrow> \<lambda>rs. rs | Some l \<Rightarrow> take (nat (l - n))) (filter (overdue now) (map snd recs)))"
  using assms
proof (induction recs arbitrary: n)
  case Nil
  then show ?case by (simp split: option.split)
next
  case (Cons kr recs)
  then show ?case
    by (cases kr) (auto simp: case_prod_beta take_Cons' nat_diff_distrib algebra_simps
        Suc_nat_eq_nat_zadd1 split: option.split)
qed

lemma expire_loop_others:
  assumes "distinct (dict_keys recs)"
  shows "dict_get (fst (expire_loop now limit n recs)) i = Some r' \<Longrightarrow>
    dict_get recs i = Some r' \<or> (\<exists>r. dict_get recs i = Some r \<and> overdue now r \<and> r' = expire_record now r)"
  using assms
  by (induction recs arbitrary: n) (auto simp: case_prod_beta split: if_splits)

text \<open>the expiry sweep expires, in table order and up to its limit, exactly waiting
  records without an execution reference whose deadline has passed; every other record is
  untouched, so a running task is never expired.\<close>

theorem expire_overdue_exact:
  assumes reach: "mem_reachable s" and res: "expire_overdue limit now s = (expired, s')"
  shows "expired = map (expire_record now)
      ((case limit of None \<Rightarrow> \<lambda>rs. rs | Some l \<Rightarrow> take (nat l)) (filter (overdue now) (mem_values s))) \<and>
    (\<forall>i r. lookup s i = Some r \<longrightarrow> \<not> overdue now r \<longrightarrow> lookup s' i = Some r)"
proof -
  have expired: "expired = snd (expire_loop now limit 0 (mem_records s))"
    and recs: "mem_records s' = fst (expire_loop now limit 0 (mem_records s))"
    using res by (auto simp: expire_overdue_def case_prod_beta)
  have "lookup s' i = Some r" if r: "lookup s i = Some r" "\<not> overdue now r" for i r
  proof -
    have "recs_evolve (mem_records s) (mem_records s')"
      unfolding recs by (rule expire_loop_evolves [OF prod.collapse [symmetric]])
    then obtain r' where r': "lookup s' i = Some r'" using recs_evolve_lookup r(1) by blast
    from expire_loop_others [OF mem_wfD(1) [OF mem_reachable_wf [OF reach]] r' [unfolded recs]] r
    show ?thesis using r' by auto
  qed
  then show ?thesis
    using expire_loop_result [of 0 now limit "mem_records s"] by (simp add: expired split: option.splits)
qed

section \<open>Stale recovery\<close>

definition stale_candidates :: "int \<Rightarrow> int option \<Rightarrow> instant \<Rightarrow> mem_state \<Rightarrow> task_record list" where
  "stale_candidates stale_after limit now s =
     take_limit limit (sort_key stale_sort_key (filter (is_stale (now - stale_after)) (mem_values s)))"

text \<open>A stale record with requeueing enabled and budget left goes back to the queue.\<close>

definition recoverable :: "task_record \<Rightarrow> bool" where
  "recoverable r \<longleftrightarrow> requeue_on_stale r \<and> attempts_consumed r < max_retries r"

lemma stale_step_cases:
  "stale_step parse policy now r = Requeued r' \<Longrightarrow> recoverable r \<and> rid r' = rid r \<and> is_waiting r' \<and>
     retry_count r' = retry_count r + 1 \<and> heartbeat_at r' = None \<and> started_at r' = None"
  "stale_step parse policy now r = Exhausted r' \<Longrightarrow> \<not> recoverable r \<and> rid r' = rid r \<and>
     status r' = Failed \<and> retry_count r' = retry_count r \<and> completed_at r' = Some now \<and>
     error r' = Some STALE_HEARTBEAT_ERROR"
  by (auto simp: stale_step_def recoverable_def is_waiting_def Let_def
      split: if_splits sum.splits prod.splits)

definition recovered_as :: "task_record \<Rightarrow> task_record \<Rightarrow> bool" where
  "recovered_as r r' \<longleftrightarrow>
     (if recoverable r then is_waiting r' \<and> retry_count r' = retry_count r + 1
      else status r' = Failed \<and> retry_count r' = retry_count r)"

lemma stale_loop_result:
  assumes "stale_loop parse policy clock rs res s = (Inr out, s')" and "distinct (map rid rs)"
  shows "sr_requeued_task_ids out = sr_requeued_task_ids res @ map rid (filter recoverable rs) \<and>
    sr_failed_task_ids out = sr_failed_task_ids res @ map rid (filter (\<lambda>r. \<not> recoverable r) rs) \<and>
    sr_requeued out = sr_requeued res + int (length (filter recoverable rs)) \<and>
    sr_failed out = sr_failed res + int (length (filter (\<lambda>r. \<not> recoverable r) rs)) \<and>
    (\<forall>r \<in> set rs. \<exists>r'. lookup s' (rid r) = Some r' \<and> recovered_as r r') \<and>
    (\<forall>i. i \<notin> rid ` set rs \<longrightarrow> lookup s' i = lookup s i)"
  using assms
proof (induction rs arbitrary: res s)
  case Nil
  then show ?case by auto
next
  case (Cons r rs)
  have d: "distinct (map rid rs)" and notin: "rid r \<notin> rid ` set rs" using Cons.prems(2) by simp_all
  show ?case
  proof (cases "stale_step parse policy (clock (rid r)) r")
    case (Requeued r')
    note facts = stale_step_cases(1) [OF Requeued]
    from Cons.prems(1) Requeued have
      "stale_loop parse policy clock rs (res\<lparr>sr_requeued := sr_requeued res + 1,
         sr_requeued_task_ids := sr_requeued_task_ids res @ [rid r]\<rparr>) (put_record r' s) = (Inr out, s')"
      by simp
    from Cons.IH [OF this d] facts notin show ?thesis
      by (auto simp: put_record_def dict_simps recovered_as_def)
  next
    case (Exhausted r')
    note facts = stale_step_cases(2) [OF Exhausted]
    let ?res' = "res\<lparr>sr_failed := sr_failed res + 1, sr_failed_task_ids := sr_failed_task_ids res @ [rid r]\<rparr>"
    from Cons.prems(1) Exhausted have
      "stale_loop parse policy clock rs (if requeue_on_stale r then ?res'
         else ?res'\<lparr>sr_handler_needed := sr_handler_needed ?res' + 1,
           sr_handler_needed_task_ids := sr_handler_needed_task_ids ?res' @ [rid r]\<rparr>)
         (put_record r' s) = (Inr out, s')"
      by (simp add: Let_def)
    from Cons.IH [OF this d] facts notin show ?thesis
      by (auto simp: put_record_def dict_simps recovered_as_def)
  next
    case (Raised e r')
    then show ?thesis using Cons.prems(1) by simp
  qed
qed

text \<open>Property C11: stale recovery accounts for every candidate: the stale running records with
  budget left are back in the queue under the next retry count, the others have failed, the two
  id lists of the summary name exactly them, and no other record is touched.\<close>

theorem stale_recovery_exact:
  assumes reach: "mem_reachable s"
    and res: "requeue_stale_running parse policy stale_after limit now clock s = (Inr out, s')"
  shows "sr_requeued_task_ids out = map rid (filter recoverable (stale_candidates stale_after limit now s)) \<and>
    sr_failed_task_ids out
      = map rid (filter (\<lambda>r. \<not> recoverable r) (stale_candidates stale_after limit now s)) \<and>
    sr_requeued out + sr_failed out = int (length (stale_candidates stale_after limit now s)) \<and>
    (\<forall>r \<in> set (stale_candidates stale_after limit now s).
       \<exists>r'. lookup s' (rid r) = Some r' \<and> recovered_as r r') \<and>
    (\<forall>i. i \<notin> rid ` set (stale_candidates stale_after limit now s) \<longrightarrow> lookup s' i = lookup s i)"
proof -
  have "distinct (map rid (stale_candidates stale_after limit now s))"
    using mem_wf_distinct_rids(2) [OF mem_reachable_wf [OF reach]] unfolding stale_candidates_def
    by (intro distinct_map_take_limit) (simp add: distinct_map_sort_key distinct_map_filter)
  from stale_loop_result [OF res [unfolded requeue_stale_running_def stale_candidates_def [symmetric]] this]
  show ?thesis
    using sum_length_filter_compl [of recoverable "stale_candidates stale_after limit now s"]
    by (simp add: empty_stale_recovery_result_def)
qed

section \<open>Retention\<close>

lemma take_limit_split:
  "\<exists>rest. xs = take_limit n xs @ rest"
  by (cases n) (auto simp: py_take_def intro: exI [of _ "drop _ xs"] append_take_drop_id [symmetric])

abbreviation (input) retention_key :: "task_record \<Rightarrow> instant option \<times> string" where
  "retention_key r \<equiv> (completed_at r, uuid_str (rid r))"

lemma cleanup_selection_order:
  assumes wf: "mem_wf s" and r: "r \<in> set (cleanup_selection before limit s)"
    and q: "lookup s j = Some q" "cleanup_candidate before q"
      "j \<notin> rid ` set (cleanup_selection before limit s)"
  shows "retention_key r \<le> retention_key q" and "limit \<noteq> None"
proof -
  define all where "all = sort_key (\<lambda>r. retention_key r) (filter (cleanup_candidate before) (mem_values s))"
  have sel: "cleanup_selection before limit s = take_limit limit all"
    by (simp add: cleanup_selection_def all_def)
  obtain rest where rest: "all = take_limit limit all @ rest" using take_limit_split by blast
  have "q \<in> set (mem_values s)" using q(1) by (auto dest: map_of_SomeD intro: rev_image_eqI)
  with q(2) have "q \<in> set all" by (simp add: all_def)
  moreover have "q \<notin> set (take_limit limit all)"
    using q(3) mem_wfD(2) [OF wf q(1)] by (auto simp: sel)
  ultimately have mem: "q \<in> set rest" using rest by (metis Un_iff set_append)
  have "sorted (map (\<lambda>r. retention_key r) all)" by (simp only: all_def sorted_sort_key)
  then have "sorted (map (\<lambda>r. retention_key r) (take_limit limit all @ rest))"
    by (subst (asm) rest)
  with r mem show "retention_key r \<le> retention_key q" by (auto simp: sel sorted_append)
  show "limit \<noteq> None"
  proof
    assume "limit = None"
    then have "length all = length (all @ rest)" using rest by (metis take_limit.simps(1))
    then show False using mem by simp
  qed
qed

lemma fold_cleanup_reservations: "mem_reservations (fold cleanup_one rs s) = mem_reservations s"
  by (induction rs arbitrary: s) (simp_all add: cleanup_one_def)

text \<open>retention deletes terminal records completed before the cutoff and nothing
  else, oldest completion first, within its limit, and never touches a permanent identity
  reservation; without a limit no candidate is left.\<close>

theorem cleanup_terminal_exact:
  assumes reach: "mem_reachable s" and res: "cleanup_terminal before limit s = (n, s')"
  shows "(\<forall>i r. lookup s i = Some r \<longrightarrow> lookup s' i = None \<longrightarrow>
      cleanup_candidate before r \<and>
      (\<forall>j q. lookup s' j = Some q \<longrightarrow> cleanup_candidate before q \<longrightarrow>
         (completed_at r, uuid_str (rid r)) \<le> (completed_at q, uuid_str (rid q)))) \<and>
    (\<forall>i r. lookup s' i = Some r \<longrightarrow> lookup s i = Some r) \<and>
    (limit = None \<longrightarrow> (\<forall>i r. lookup s' i = Some r \<longrightarrow> \<not> cleanup_candidate before r)) \<and>
    (\<forall>l. limit = Some l \<longrightarrow> 0 \<le> l \<longrightarrow> int n \<le> l) \<and>
    mem_reservations s' = mem_reservations s"
proof -
  have wf: "mem_wf s" by (rule mem_reachable_wf [OF reach])
  let ?sel = "cleanup_selection before limit s"
  have out: "n = length ?sel" "s' = fold cleanup_one ?sel s"
    using res by (simp_all add: cleanup_terminal_eq)
  have look: "lookup s' i = (if i \<in> rid ` set ?sel then None else lookup s i)" for i
    using cleanup_terminal_wf(2) [OF wf, of before limit i] res by simp
  have none: "limit = None \<Longrightarrow> ?sel = sort_key (\<lambda>r. retention_key r) (filter (cleanup_candidate before) (mem_values s))"
    by (simp add: cleanup_selection_def)
  show ?thesis
  proof (intro conjI allI impI)
    fix i r assume r: "lookup s i = Some r" "lookup s' i = None"
    then obtain r' where r': "r' \<in> set ?sel" "i = rid r'" using look by (auto split: if_splits)
    with cleanup_selection_facts(2) [OF wf r'(1)] r have sel: "r \<in> set ?sel" and c: "cleanup_candidate before r"
      by auto
    show "cleanup_candidate before r" by (rule c)
    fix j q assume q: "lookup s' j = Some q" "cleanup_candidate before q"
    with look have "lookup s j = Some q" "j \<notin> rid ` set ?sel" by (simp_all split: if_splits)
    then show "retention_key r \<le> retention_key q" by (intro cleanup_selection_order(1) [OF wf sel _ q(2)])
  next
    fix i r assume "lookup s' i = Some r"
    then show "lookup s i = Some r" by (simp add: look split: if_splits)
  next
    fix i r assume lim: "limit = None" and "lookup s' i = Some r"
    then have l: "lookup s i = Some r" "i \<notin> rid ` set ?sel" by (simp_all add: look split: if_splits)
    then have "r \<in> set (mem_values s)" "r \<notin> set ?sel"
      using mem_wfD(2) [OF wf l(1)] by (auto dest: map_of_SomeD intro: rev_image_eqI)
    then show "\<not> cleanup_candidate before r" by (simp add: none [OF lim])
  next
    fix l assume "limit = Some l" "0 \<le> l"
    then show "int n \<le> l" by (simp add: out cleanup_selection_def py_take_def)
  next
    show "mem_reservations s' = mem_reservations s" by (simp add: out fold_cleanup_reservations)
  qed
qed

section \<open>Retry accounting\<close>

text \<open>One failing attempt: the record is claimed and then fails with retries allowed.\<close>

definition failing_attempt :: "instant \<Rightarrow> string \<Rightarrow> task_record \<Rightarrow> task_record" where
  "failing_attempt now err r = fail_record err True None None now (start_record now r)"

lemma failing_attempt_step:
  assumes "is_waiting r" and "metadata r = meta" and "interruption_count r = 0"
  shows "if retry_count r < max_retries r
    then is_waiting (failing_attempt now err r) \<and> retry_count (failing_attempt now err r) = retry_count r + 1
    else status (failing_attempt now err r) = Failed \<and> retry_count (failing_attempt now err r) = retry_count r"
    and "max_retries (failing_attempt now err r) = max_retries r"
    and "interruption_count (failing_attempt now err r) = 0"
    and "metadata (failing_attempt now err r) = meta"
  using assms
  by (simp_all add: failing_attempt_def fail_record_def start_record_def attempts_consumed_def
      is_waiting_def interruption_count_def)

text \<open>a task submitted with \<open>max_retries = m\<close> survives \<open>m\<close> failed attempts, each
  returning it to the queue under the next retry count, and the next failure is final: it runs
  exactly \<open>m + 1\<close> times.\<close>

theorem failing_task_runs_retries_plus_one:
  assumes m: "max_retries r = int m" and r: "is_waiting r" "retry_count r = 0" "interruption_count r = 0"
  shows "(\<forall>n \<le> m. is_waiting ((failing_attempt now err ^^ n) r) \<and>
      retry_count ((failing_attempt now err ^^ n) r) = int n) \<and>
    status ((failing_attempt now err ^^ Suc m) r) = Failed"
proof -
  have run: "is_waiting ((failing_attempt now err ^^ n) r) \<and>
      retry_count ((failing_attempt now err ^^ n) r) = int n \<and>
      max_retries ((failing_attempt now err ^^ n) r) = int m \<and>
      interruption_count ((failing_attempt now err ^^ n) r) = 0" if "n \<le> m" for n
    using that
  proof (induction n)
    case 0
    then show ?case using m r by simp
  next
    case (Suc n)
    then have IH: "is_waiting ((failing_attempt now err ^^ n) r)"
      "retry_count ((failing_attempt now err ^^ n) r) = int n"
      "max_retries ((failing_attempt now err ^^ n) r) = int m"
      "interruption_count ((failing_attempt now err ^^ n) r) = 0" by simp_all
    show ?case
      using failing_attempt_step [OF IH(1) HOL.refl IH(4), of now err] Suc.prems IH(2,3) by simp
  qed
  show ?thesis
    using run failing_attempt_step(1) [OF _ HOL.refl, of "(failing_attempt now err ^^ m) r" now err]
      run [OF order.refl] by simp
qed

text \<open>a shutdown interruption moves the fence without spending the budget: the retry
  count grows by one while the consumed attempts, hence the remaining retries, stay the same.\<close>

theorem interrupt_keeps_budget:
  assumes "interrupt_task i n w queued s = (Some r', s')" and "lookup s i = Some r"
  shows "retry_count r' = retry_count r + 1 \<and> attempts_consumed r' = attempts_consumed r \<and>
    status r' = Pending \<and> worker_id r' = None \<and> execution_ref r' = None \<and> lookup s' i = Some r'"
proof -
  have r': "r' = interrupt_record queued r" and look: "lookup s' i = Some r'"
    using assms by (auto simp: interrupt_task_def modify_if_def dict_simps split: if_splits)
  show ?thesis using look attempts_interrupt [of queued r] by (simp add: r') (simp add: interrupt_record_def)
qed

end
