(* ===== verification/Base_Backend.thy ===== *)
theory Base_Backend
  imports Memory_Sweeps
begin

text \<open>
  The methods \<open>BaseQueueBackend\<close> gives every backend for free (\<open>backends/base.py\<close>): claiming
  on top of a backend's own \<open>list_pending\<close>, \<open>claim_task\<close> and
  \<open>expire_overdue\<close>, and the fleet lock on top of its maintenance ownership. The backend's
  methods are arguments of the definitions; a locale states what they must promise, its lemmas
  are proved once from those promises, and the in-memory backend discharges them.
\<close>

section \<open>Claiming through the primitives of a backend\<close>

type_synonym 's pending_op = "int \<Rightarrow> string option \<Rightarrow> string option \<Rightarrow> 's \<Rightarrow> task_record list \<times> 's"
type_synonym 's claim_op =
  "uuid \<Rightarrow> int option \<Rightarrow> string option \<Rightarrow> 's \<Rightarrow> task_record option \<times> 's"
type_synonym 's expire_op = "'s \<Rightarrow> task_record list \<times> 's"

fun claim_next_loop ::
    "'s pending_op \<Rightarrow> 's claim_op \<Rightarrow> string option list \<Rightarrow> string option \<Rightarrow> 's \<Rightarrow>
     task_record option \<times> 's" where
  "claim_next_loop pending claim [] eb s = (None, s)"
| "claim_next_loop pending claim (q # qs) eb s =
     (case pending 1 q eb s of
        ([], s') \<Rightarrow> claim_next_loop pending claim qs eb s'
      | (r # _, s') \<Rightarrow>
          (case claim (rid r) None None s' of
             (Some c, s'') \<Rightarrow> (Some c, s'')
           | (None, s'') \<Rightarrow> claim_next_loop pending claim qs eb s''))"

definition base_claim_next ::
    "'s pending_op \<Rightarrow> 's claim_op \<Rightarrow> string list \<Rightarrow> string option \<Rightarrow> 's \<Rightarrow>
     task_record option \<times> 's" where
  "base_claim_next pending claim queues eb s =
     claim_next_loop pending claim (if queues = [] then [None] else map Some queues) eb s"

text \<open>\<open>remaining.get(queue, 1) > 0\<close>.\<close>

definition has_slot :: "(string \<times> int) list \<Rightarrow> string \<Rightarrow> bool" where
  "has_slot remaining q \<longleftrightarrow> (case dict_get remaining q of None \<Rightarrow> True | Some n \<Rightarrow> 0 < n)"

fun gather_candidates ::
    "'s pending_op \<Rightarrow> int \<Rightarrow> (string \<times> int) list \<Rightarrow> string list \<Rightarrow> string option \<Rightarrow> 's \<Rightarrow>
     task_record list \<times> 's" where
  "gather_candidates pending limit remaining [] eb s = ([], s)"
| "gather_candidates pending limit remaining (q # qs) eb s =
     (if \<not> has_slot remaining q then gather_candidates pending limit remaining qs eb s
      else let (rs, s') = pending limit (Some q) eb s;
               (rest, s'') = gather_candidates pending limit remaining qs eb s'
           in (rs @ rest, s''))"

fun claim_first :: "'s claim_op \<Rightarrow> task_record list \<Rightarrow> 's \<Rightarrow> task_record option \<times> 's" where
  "claim_first claim [] s = (None, s)"
| "claim_first claim (r # rs) s =
     (case claim (rid r) None None s of
        (Some c, s') \<Rightarrow> (Some c, s')
      | (None, s') \<Rightarrow> claim_first claim rs s')"

text \<open>One turn of the loop when \<open>queue_limits\<close> is given.\<close>

definition claim_limited ::
    "'s pending_op \<Rightarrow> 's claim_op \<Rightarrow> int \<Rightarrow> (string \<times> int) list \<Rightarrow> string list \<Rightarrow> string option \<Rightarrow>
     's \<Rightarrow> task_record option \<times> 's" where
  "claim_limited pending claim limit remaining queues eb s =
     (let (candidates, s') =
        (if queues \<noteq> [] then gather_candidates pending limit remaining queues eb s
         else let (rs, s') = pending (max 1000 (limit * 10)) None eb s
              in (filter (\<lambda>r. has_slot remaining (queue r)) rs, s'))
      in claim_first claim (sort_key claim_key candidates) s')"

text \<open>
  One turn without \<open>queue_limits\<close>: \<open>remaining\<close> is empty, so every queue stays
  eligible, but the code filters all the same.
\<close>

definition claim_unlimited ::
    "'s pending_op \<Rightarrow> 's claim_op \<Rightarrow> (string \<times> int) list \<Rightarrow> string list \<Rightarrow> string option \<Rightarrow>
     's \<Rightarrow> task_record option \<times> 's" where
  "claim_unlimited pending claim remaining queues eb s =
     (let eligible = filter (has_slot remaining) queues in
      if queues \<noteq> [] \<and> eligible = [] then (None, s)
      else base_claim_next pending claim (if eligible = [] then queues else eligible) eb s)"

fun claim_rounds ::
    "'s pending_op \<Rightarrow> 's claim_op \<Rightarrow> nat \<Rightarrow> int \<Rightarrow> string list \<Rightarrow> string option \<Rightarrow> bool \<Rightarrow>
     (string \<times> int) list \<Rightarrow> 's \<Rightarrow> task_record list \<times> 's" where
  "claim_rounds pending claim 0 limit queues eb limited remaining s = ([], s)"
| "claim_rounds pending claim (Suc n) limit queues eb limited remaining s =
     (case (if limited then claim_limited pending claim limit remaining queues eb s
            else claim_unlimited pending claim remaining queues eb s) of
        (None, s') \<Rightarrow> ([], s')
      | (Some c, s') \<Rightarrow>
          let (cs, s'') = claim_rounds pending claim n limit queues eb limited
                (consume_slot (queue c) remaining) s'
          in (c # cs, s''))"

definition base_claim_many ::
    "'s pending_op \<Rightarrow> 's claim_op \<Rightarrow> int \<Rightarrow> string list \<Rightarrow> string option \<Rightarrow>
     (string \<times> int) list option \<Rightarrow> 's \<Rightarrow> task_record list \<times> 's" where
  "base_claim_many pending claim limit queues eb queue_limits s =
     claim_rounds pending claim (nat (max 0 limit)) limit queues eb (queue_limits \<noteq> None)
       (case queue_limits of None \<Rightarrow> [] | Some d \<Rightarrow> d) s"

definition base_claim_task_with_expired ::
    "'s claim_op \<Rightarrow> 's expire_op \<Rightarrow> uuid \<Rightarrow> int option \<Rightarrow> string option \<Rightarrow> 's \<Rightarrow>
     (task_record option \<times> task_record option) \<times> 's" where
  "base_claim_task_with_expired claim expire i rc ref s =
     (let (before, s1) = expire s; (claimed, s2) = claim i rc ref s1; (after, s3) = expire s2
      in ((claimed, find (\<lambda>r. rid r = i) (before @ after)), s3))"

text \<open>\<open>unique\<close> is a dictionary: a later record of an id replaces the value, not the position.\<close>

definition base_claim_many_with_expired ::
    "'s pending_op \<Rightarrow> 's claim_op \<Rightarrow> 's expire_op \<Rightarrow> int \<Rightarrow> string list \<Rightarrow> string option \<Rightarrow>
     (string \<times> int) list option \<Rightarrow> 's \<Rightarrow> (task_record list \<times> task_record list) \<times> 's" where
  "base_claim_many_with_expired pending claim expire limit queues eb queue_limits s =
     (let (before, s1) = expire s;
          (claimed, s2) = base_claim_many pending claim limit queues eb queue_limits s1;
          (after, s3) = expire s2;
          unique = fold (\<lambda>r d. dict_set (rid r) r d) (before @ after) []
      in ((claimed, map snd unique), s3))"

text \<open>
  The fallback of \<open>enqueue_many\<close>: one \<open>enqueue\<close> per request, then one more wakeup
  for the batch. Each request comes with the identifier and the clock readings its
  \<open>enqueue\<close> draws.
\<close>

fun base_enqueue_loop :: "('q \<Rightarrow> 's \<Rightarrow> task_record \<times> 's) \<Rightarrow> 'q list \<Rightarrow> 's \<Rightarrow> task_record list \<times> 's" where
  "base_enqueue_loop enq [] s = ([], s)"
| "base_enqueue_loop enq (q # qs) s =
     (let (r, s') = enq q s; (rs, s'') = base_enqueue_loop enq qs s' in (r # rs, s''))"

definition base_enqueue_many ::
    "('q \<Rightarrow> 's \<Rightarrow> task_record \<times> 's) \<Rightarrow> (task_record list \<Rightarrow> 's \<Rightarrow> 's) \<Rightarrow> 'q list \<Rightarrow> 's \<Rightarrow>
     task_record list \<times> 's" where
  "base_enqueue_many enq notify qs s = (let (rs, s') = base_enqueue_loop enq qs s in (rs, notify rs s'))"

definition base_get_tasks :: "(uuid \<Rightarrow> task_record option) \<Rightarrow> uuid list \<Rightarrow> task_record list" where
  "base_get_tasks get ids = List.map_filter (\<lambda>r. r) (map get ids)"

definition base_acquire_worker_lock ::
    "(string \<Rightarrow> string \<Rightarrow> int \<Rightarrow> instant \<Rightarrow> 's \<Rightarrow> bool \<times> 's) \<Rightarrow> string \<Rightarrow> int \<Rightarrow> uuid \<Rightarrow> instant \<Rightarrow> 's \<Rightarrow>
     bool \<times> 's" where
  "base_acquire_worker_lock acquire name ttl fresh now s = acquire name (uuid_str fresh) ttl now s"

definition base_list_dispatch_repair_candidates :: "int \<Rightarrow> dispatch_repair_candidates result" where
  "base_list_dispatch_repair_candidates limit =
     (if limit < 0 then Inl QueueConfigurationError
      else if limit = 0 then Inr no_repair_candidates
      else Inl NotImplementedError)"

section \<open>What a claiming backend promises\<close>

text \<open>
  \<open>view\<close> reads the record table. A step of the primitives never changes a record that is
  not waiting, and never makes a record waiting.
\<close>

definition settled_step :: "('s \<Rightarrow> uuid \<Rightarrow> task_record option) \<Rightarrow> 's \<Rightarrow> 's \<Rightarrow> bool" where
  "settled_step view s s' \<longleftrightarrow>
     (\<forall>i r. view s i = Some r \<longrightarrow> \<not> is_waiting r \<longrightarrow> view s' i = Some r) \<and>
     (\<forall>i r. view s' i = Some r \<longrightarrow> is_waiting r \<longrightarrow> view s i = Some r)"

lemma settled_step_refl [intro]: "settled_step view s s"
  by (simp add: settled_step_def)

lemma settled_step_trans [trans]:
  "settled_step view a b \<Longrightarrow> settled_step view b c \<Longrightarrow> settled_step view a c"
  unfolding settled_step_def by meson

definition claimed_from :: "('s \<Rightarrow> uuid \<Rightarrow> task_record option) \<Rightarrow> 's \<Rightarrow> task_record \<Rightarrow> bool" where
  "claimed_from view s c \<longleftrightarrow> status c = Running \<and>
     (\<exists>r. view s (rid c) = Some r \<and> is_waiting r \<and> queue c = queue r \<and>
        execution_backend c = execution_backend r \<and> retry_count c = retry_count r)"

lemma claimed_from_mono: "settled_step view s s' \<Longrightarrow> claimed_from view s' c \<Longrightarrow> claimed_from view s c"
  unfolding settled_step_def claimed_from_def by meson

lemma running_not_waiting: "status r = Running \<Longrightarrow> \<not> is_waiting r"
  by (simp add: is_waiting_def)

lemma find_some_in: "find P xs = Some x \<Longrightarrow> x \<in> set xs \<and> P x"
  by (induction xs) (auto split: if_splits)

text \<open>A claiming step: the state stays good, nothing settled moves, and what was claimed was waiting.\<close>

definition claim_outcome ::
    "('s \<Rightarrow> uuid \<Rightarrow> task_record option) \<Rightarrow> ('s \<Rightarrow> bool) \<Rightarrow> 's \<Rightarrow> task_record option \<times> 's \<Rightarrow> bool" where
  "claim_outcome view good s out \<longleftrightarrow>
     good (snd out) \<and> settled_step view s (snd out) \<and>
     (\<forall>c. fst out = Some c \<longrightarrow> claimed_from view s c \<and> view (snd out) (rid c) = Some c)"

lemma claim_outcome_after:
  "settled_step view s s1 \<Longrightarrow> claim_outcome view good s1 out \<Longrightarrow> claim_outcome view good s out"
  unfolding claim_outcome_def using settled_step_trans [of view s s1 "snd out"] claimed_from_mono [of view s s1]
  by blast

lemma claim_outcome_None: "good s \<Longrightarrow> claim_outcome view good s (None, s)"
  by (auto simp: claim_outcome_def)

locale claim_store =
  fixes view :: "'s \<Rightarrow> uuid \<Rightarrow> task_record option"
    and good :: "'s \<Rightarrow> bool"
    and pending :: "'s pending_op"
    and claim :: "'s claim_op"
    and expire :: "'s expire_op"
  assumes pending_law: "good s \<Longrightarrow> pending l q eb s = (rs, s') \<Longrightarrow>
      good s' \<and> view s' = view s \<and>
      (\<forall>r \<in> set rs. view s (rid r) = Some r \<and> is_waiting r \<and> fence q (queue r) \<and>
         fence eb (execution_backend r))"
    and claim_law: "good s \<Longrightarrow>
      claim_outcome view good s (claim i n ref s) \<and> (\<forall>c. fst (claim i n ref s) = Some c \<longrightarrow> rid c = i)"
    and expire_law: "good s \<Longrightarrow> expire s = (es, s') \<Longrightarrow>
      good s' \<and> settled_step view s s' \<and>
      (\<forall>r \<in> set es. status r = Expired \<and> view s' (rid r) = Some r \<and>
         (\<exists>r0. view s (rid r) = Some r0 \<and> is_waiting r0))"
begin

lemma pending_step: "good s \<Longrightarrow> good (snd (pending l q eb s)) \<and> settled_step view s (snd (pending l q eb s))"
  using pending_law [of s l q eb "fst (pending l q eb s)" "snd (pending l q eb s)"]
  by (auto simp: settled_step_def)

lemma claim_step:
  "good s \<Longrightarrow> good (snd (claim i n ref s)) \<and> settled_step view s (snd (claim i n ref s))"
  using claim_law [of s i n ref] by (simp add: claim_outcome_def)

lemma claim_next_loop_sound: "good s \<Longrightarrow> claim_outcome view good s (claim_next_loop pending claim qs eb s)"
proof (induction qs arbitrary: s)
  case Nil
  then show ?case by (simp add: claim_outcome_None)
next
  case (Cons q qs)
  obtain rs s1 where p: "pending 1 q eb s = (rs, s1)" by (cases "pending 1 q eb s")
  have s1: "good s1" "settled_step view s s1" using pending_step [OF Cons.prems, of 1 q eb] p by simp_all
  show ?case
  proof (cases rs)
    case Nil
    with p show ?thesis using claim_outcome_after [OF s1(2) Cons.IH [OF s1(1)]] by simp
  next
    case (Cons r rest)
    obtain got s2 where c: "claim (rid r) None None s1 = (got, s2)" by (cases "claim (rid r) None None s1")
    have s2: "good s2" "settled_step view s s2"
      using claim_step [OF s1(1), of "rid r" None None] c settled_step_trans [OF s1(2)] by simp_all
    show ?thesis
    proof (cases got)
      case None
      with p Cons c show ?thesis using claim_outcome_after [OF s2(2) Cons.IH [OF s2(1)]] by simp
    next
      case (Some x)
      have "claim_outcome view good s (claim (rid r) None None s1)"
        using claim_law [OF s1(1)] by (blast intro: claim_outcome_after [OF s1(2)])
      with Some p Cons c show ?thesis by simp
    qed
  qed
qed

lemma claim_next_loop_fences:
  assumes "good s" and "claim_next_loop pending claim qs eb s = (Some c, s')"
  shows "(\<exists>q \<in> set qs. fence q (queue c)) \<and> fence eb (execution_backend c)"
  using assms
proof (induction qs arbitrary: s)
  case Nil
  then show ?case by simp
next
  case (Cons q qs)
  obtain rs s1 where p: "pending 1 q eb s = (rs, s1)" by (cases "pending 1 q eb s")
  have s1: "good s1" using pending_step [OF Cons.prems(1), of 1 q eb] p by simp
  show ?case
  proof (cases rs)
    case Nil
    with Cons.prems(2) p Cons.IH [OF s1] show ?thesis by auto
  next
    case (Cons r rest)
    obtain got s2 where g: "claim (rid r) None None s1 = (got, s2)" by (cases "claim (rid r) None None s1")
    have s2: "good s2" using claim_step [OF s1, of "rid r" None None] g by simp
    show ?thesis
    proof (cases got)
      case None
      with Cons.prems(2) p Cons g Cons.IH [OF s2] show ?thesis by auto
    next
      case (Some x)
      with Cons.prems(2) p Cons g have x: "x = c" by simp
      have r: "view s1 (rid r) = Some r" "fence q (queue r)" "fence eb (execution_backend r)"
        using pending_law [OF Cons.prems(1) p] Cons by simp_all
      have "rid c = rid r" "claimed_from view s1 c"
        using claim_law [OF s1, of "rid r" None None] g Some x by (simp_all add: claim_outcome_def)
      with r show ?thesis by (auto simp: claimed_from_def)
    qed
  qed
qed

lemma gather_sound:
  assumes "good s" and "gather_candidates pending limit remaining qs eb s = (rs, s')"
  shows "good s' \<and> view s' = view s \<and>
    (\<forall>r \<in> set rs. view s (rid r) = Some r \<and> queue r \<in> set qs \<and>
       has_slot remaining (queue r) \<and> fence eb (execution_backend r))"
  using assms
proof (induction qs arbitrary: s rs)
  case Nil
  then show ?case by auto
next
  case (Cons q qs)
  show ?case
  proof (cases "has_slot remaining q")
    case False
    with Cons show ?thesis by auto
  next
    case True
    obtain as s1 where p: "pending limit (Some q) eb s = (as, s1)" by (cases "pending limit (Some q) eb s")
    obtain bs where g: "gather_candidates pending limit remaining qs eb s1 = (bs, s')" and rs: "rs = as @ bs"
      using Cons.prems(2) p True by (auto split: prod.splits)
    note P = pending_law [OF Cons.prems(1) p]
    note IH = Cons.IH [OF conjunct1 [OF P] g]
    from P IH True show ?thesis by (auto simp: rs)
  qed
qed

lemma claim_first_sound: "good s \<Longrightarrow> claim_outcome view good s (claim_first claim cs s)"
proof (induction cs arbitrary: s)
  case Nil
  then show ?case by (simp add: claim_outcome_None)
next
  case (Cons r rs)
  obtain got s1 where c: "claim (rid r) None None s = (got, s1)" by (cases "claim (rid r) None None s")
  have s1: "good s1" "settled_step view s s1" using claim_step [OF Cons.prems, of "rid r" None None] c by simp_all
  show ?case
  proof (cases got)
    case (Some x)
    with c show ?thesis using claim_law [OF Cons.prems, of "rid r" None None] by simp
  next
    case None
    with c show ?thesis using claim_outcome_after [OF s1(2) Cons.IH [OF s1(1)]] by simp
  qed
qed

lemma claim_first_id:
  "good s \<Longrightarrow> claim_first claim cs s = (Some c, s') \<Longrightarrow> rid c \<in> rid ` set cs"
proof (induction cs arbitrary: s)
  case (Cons r rs)
  obtain got s1 where g: "claim (rid r) None None s = (got, s1)" by (cases "claim (rid r) None None s")
  have s1: "good s1" using claim_step [OF Cons.prems(1), of "rid r" None None] g by simp
  show ?case using Cons.prems(2) Cons.IH [OF s1] claim_law [OF Cons.prems(1), of "rid r" None None] g
    by (cases got) auto
qed simp

text \<open>One turn of the loop, with and without limits.\<close>

lemma claim_limited_sound:
  assumes good: "good s" and res: "claim_limited pending claim limit remaining queues eb s = out"
  shows "claim_outcome view good s out \<and>
    (\<forall>c. fst out = Some c \<longrightarrow> (queues = [] \<or> queue c \<in> set queues) \<and>
       has_slot remaining (queue c) \<and> fence eb (execution_backend c))"
proof -
  obtain cs s1 where cs: "out = claim_first claim (sort_key claim_key cs) s1" and s1: "good s1" "view s1 = view s"
    and C: "\<forall>r \<in> set cs. view s (rid r) = Some r \<and> (queues = [] \<or> queue r \<in> set queues) \<and>
       has_slot remaining (queue r) \<and> fence eb (execution_backend r)"
  proof (cases "queues = []")
    case True
    obtain rs s1 where p: "pending (max 1000 (limit * 10)) None eb s = (rs, s1)"
      by (cases "pending (max 1000 (limit * 10)) None eb s")
    show thesis
      by (rule that [of "filter (\<lambda>r. has_slot remaining (queue r)) rs" s1])
        (use res True p pending_law [OF good p] in \<open>auto simp: claim_limited_def\<close>)
  next
    case False
    obtain rs s1 where g: "gather_candidates pending limit remaining queues eb s = (rs, s1)"
      by (cases "gather_candidates pending limit remaining queues eb s")
    show thesis
      by (rule that [of rs s1]) (use res False g gather_sound [OF good g] in \<open>auto simp: claim_limited_def\<close>)
  qed
  have "claim_outcome view good s1 out" unfolding cs by (rule claim_first_sound [OF s1(1)])
  moreover have "settled_step view s s1" using s1(2) by (simp add: settled_step_def)
  ultimately have o: "claim_outcome view good s out" by (rule claim_outcome_after [rotated])
  have "(queues = [] \<or> queue c \<in> set queues) \<and> has_slot remaining (queue c) \<and> fence eb (execution_backend c)"
    if c: "fst out = Some c" for c
  proof -
    have "rid c \<in> rid ` set (sort_key claim_key cs)"
      by (rule claim_first_id [OF s1(1), of _ _ "snd out"]) (use cs c in \<open>simp add: prod_eq_iff\<close>)
    then obtain r where r: "r \<in> set cs" "rid c = rid r" by auto
    have "claimed_from view s c" using o c by (simp add: claim_outcome_def)
    with C r show ?thesis by (auto simp: claimed_from_def)
  qed
  with o show ?thesis by blast
qed

lemma claim_unlimited_sound:
  assumes good: "good s" and res: "claim_unlimited pending claim remaining queues eb s = out"
  shows "claim_outcome view good s out \<and>
    (\<forall>c. fst out = Some c \<longrightarrow> (queues = [] \<or> queue c \<in> set queues \<and> has_slot remaining (queue c)) \<and>
       fence eb (execution_backend c))"
proof (cases "queues \<noteq> [] \<and> filter (has_slot remaining) queues = []")
  case True
  with res have "out = (None, s)" by (simp add: claim_unlimited_def)
  with good show ?thesis by (simp add: claim_outcome_None)
next
  case False
  let ?qs = "if queues = [] then [None] else map Some (filter (has_slot remaining) queues)"
  have out: "out = claim_next_loop pending claim ?qs eb s"
    using res False by (auto simp: claim_unlimited_def base_claim_next_def)
  have o: "claim_outcome view good s out" unfolding out by (rule claim_next_loop_sound [OF good])
  have "(\<exists>q \<in> set ?qs. fence q (queue c)) \<and> fence eb (execution_backend c)" if "fst out = Some c" for c
    by (rule claim_next_loop_fences [OF good, of _ _ _ "snd out"]) (use out that in \<open>simp add: prod_eq_iff\<close>)
  with o show ?thesis by (auto split: if_splits)
qed

text \<open>The whole loop.\<close>

lemma claim_rounds_sound:
  assumes "good s"
    and "claim_rounds pending claim n limit queues eb limited remaining s = (cs, s')"
  shows "good s' \<and> settled_step view s s' \<and> length cs \<le> n \<and> distinct (map rid cs) \<and>
    (\<forall>c \<in> set cs. claimed_from view s c \<and> view s' (rid c) = Some c \<and>
       (queues = [] \<or> queue c \<in> set queues) \<and> fence eb (execution_backend c))"
  using assms
proof (induction n arbitrary: s cs remaining)
  case 0
  then show ?case by auto
next
  case (Suc n)
  define out where "out = (if limited then claim_limited pending claim limit remaining queues eb s
    else claim_unlimited pending claim remaining queues eb s)"
  have turn: "claim_outcome view good s out \<and> (\<forall>c. fst out = Some c \<longrightarrow>
      (queues = [] \<or> queue c \<in> set queues) \<and> fence eb (execution_backend c))"
  proof (cases limited)
    case True
    then show ?thesis
      using claim_limited_sound [OF Suc.prems(1), of limit remaining queues eb out] by (simp add: out_def)
  next
    case False
    then show ?thesis
      using claim_unlimited_sound [OF Suc.prems(1), of remaining queues eb out] by (auto simp: out_def)
  qed
  then have o: "claim_outcome view good s out" and q: "\<And>c. fst out = Some c \<Longrightarrow>
      (queues = [] \<or> queue c \<in> set queues) \<and> fence eb (execution_backend c)" by blast+
  show ?case
  proof (cases "fst out")
    case None
    with Suc.prems(2) o show ?thesis
      by (cases out) (auto simp: out_def [symmetric] claim_outcome_def)
  next
    case (Some c)
    define s1 where "s1 = snd out"
    have out: "out = (Some c, s1)" using Some by (simp add: s1_def prod_eq_iff)
    obtain cs' where rec: "claim_rounds pending claim n limit queues eb limited
        (consume_slot (queue c) remaining) s1 = (cs', s')" and cs: "cs = c # cs'"
      using Suc.prems(2) out by (auto simp: out_def [symmetric] split: prod.splits)
    have s1: "good s1" "settled_step view s s1" "claimed_from view s c" "view s1 (rid c) = Some c"
      using o by (auto simp: out claim_outcome_def)
    note IH = Suc.IH [OF s1(1) rec]
    have wait: "\<not> is_waiting c" using s1(3) by (simp add: claimed_from_def running_not_waiting)
    then have "view s' (rid c) = Some c" using IH s1(4) unfolding settled_step_def by blast
    moreover have "rid c \<notin> rid ` set cs'"
    proof
      assume "rid c \<in> rid ` set cs'"
      then obtain d where d: "d \<in> set cs'" "rid d = rid c" by (auto simp: eq_commute)
      then have "claimed_from view s1 d" using IH by simp
      with d s1(4) wait show False by (auto simp: claimed_from_def)
    qed
    moreover have "settled_step view s s'" using settled_step_trans [OF s1(2)] IH by simp
    ultimately show ?thesis using IH s1 q [OF Some] claimed_from_mono [OF s1(2)] by (auto simp: cs)
  qed
qed

lemma claim_rounds_limits:
  assumes "good s" and "claim_rounds pending claim n limit queues eb True remaining s = (cs, s')"
    and "dict_get remaining q = Some l"
  shows "int (length (filter (\<lambda>c. queue c = q) cs)) \<le> max 0 l"
  using assms
proof (induction n arbitrary: s cs remaining l)
  case 0
  then show ?case by simp
next
  case (Suc n)
  obtain got s1 where o: "claim_limited pending claim limit remaining queues eb s = (got, s1)"
    by (cases "claim_limited pending claim limit remaining queues eb s")
  note L = claim_limited_sound [OF Suc.prems(1) o]
  show ?case
  proof (cases got)
    case None
    with Suc.prems(2) o show ?thesis by simp
  next
    case (Some c)
    obtain cs' where rec: "claim_rounds pending claim n limit queues eb True
        (consume_slot (queue c) remaining) s1 = (cs', s')" and cs: "cs = c # cs'"
      using Suc.prems(2) o Some by (auto split: prod.splits)
    have s1: "good s1" using L by (simp add: claim_outcome_def)
    have slot: "0 < l" if "queue c = q"
      using L Some Suc.prems(3) that by (auto simp: has_slot_def)
    have "dict_get (consume_slot (queue c) remaining) q = Some (if queue c = q then l - 1 else l)"
      using Suc.prems(3) by (simp add: dict_get_consume)
    from Suc.IH [OF s1 rec this] show ?thesis using slot by (auto simp: cs split: if_splits)
  qed
qed

lemma claim_with_expired_exclusive:
  assumes good: "good s" and res: "base_claim_task_with_expired claim expire i n ref s = ((c, e), s')"
  shows "(c = None \<or> e = None) \<and> (\<forall>r. e = Some r \<longrightarrow> rid r = i \<and> status r = Expired \<and> view s' i = Some r) \<and>
    (\<forall>r. c = Some r \<longrightarrow> rid r = i \<and> claimed_from view s r \<and> view s' i = Some r)"
proof -
  obtain es1 s1 where e1: "expire s = (es1, s1)" by (cases "expire s")
  obtain got s2 where g: "claim i n ref s1 = (got, s2)" by (cases "claim i n ref s1")
  obtain es2 where e2: "expire s2 = (es2, s')" and out: "c = got" "e = find (\<lambda>r. rid r = i) (es1 @ es2)"
    using res e1 g by (auto simp: base_claim_task_with_expired_def split: prod.splits)
  note E1 = expire_law [OF good e1]
  have s1: "good s1" using E1 by simp
  have C: "claim_outcome view good s1 (got, s2)" "\<And>c. got = Some c \<Longrightarrow> rid c = i"
    using claim_law [OF s1, of i n ref] g by simp_all
  then have s2: "good s2" by (simp add: claim_outcome_def)
  note E2 = expire_law [OF s2 e2]
  have s12: "settled_step view s1 s2" and s23: "settled_step view s2 s'" and s01: "settled_step view s s1"
    using C E1 E2 by (simp_all add: claim_outcome_def)
  have c: "rid r = i \<and> claimed_from view s r \<and> view s2 i = Some r \<and> view s' i = Some r" if "got = Some r" for r
  proof -
    have r: "claimed_from view s1 r" "view s2 i = Some r" "rid r = i"
      using C(1) C(2) [OF that] that by (simp_all add: claim_outcome_def)
    have "claimed_from view s r" by (rule claimed_from_mono [OF s01 r(1)])
    moreover have "\<not> is_waiting r" using r(1) by (simp add: claimed_from_def running_not_waiting)
    then have "view s' i = Some r" using s23 r(2) unfolding settled_step_def by blast
    ultimately show ?thesis using r by blast
  qed
  have e: "rid r = i \<and> status r = Expired \<and> view s' i = Some r \<and>
      (view s1 i = Some r \<or> (\<exists>r0. view s2 i = Some r0 \<and> is_waiting r0))" if "e = Some r" for r
  proof -
    have r: "r \<in> set es1 \<or> r \<in> set es2" "rid r = i" 
      using that out(2) find_some_in [of "\<lambda>r. rid r = i" "es1 @ es2" r] by auto
    show ?thesis
    proof (cases "r \<in> set es2")
      case True
      with E2 r show ?thesis by auto
    next
      case False
      with E1 r have st: "status r = Expired" and v: "view s1 i = Some r" by auto
      have "\<not> is_waiting r" using st by (simp add: is_waiting_def)
      then have "view s' i = Some r"
        using settled_step_trans [OF s12 s23] v unfolding settled_step_def by blast
      with st v r(2) show ?thesis by blast
    qed
  qed
  have "c = None \<or> e = None"
  proof (rule ccontr)
    assume "\<not> (c = None \<or> e = None)"
    then obtain x y where x: "got = Some x" and y: "e = Some y" using out(1) by auto
    have "claimed_from view s1 x" "rid x = i" using C x by (auto simp: claim_outcome_def)
    then obtain r0 where "view s1 i = Some r0" "is_waiting r0" "status x = Running" by (auto simp: claimed_from_def)
    with c [OF x] e [OF y] show False by (auto simp: is_waiting_def)
  qed
  with c e out(1) show ?thesis by blast
qed

end

section \<open>The in-memory backend keeps the promises\<close>

text \<open>
  The primitives of the in-memory backend with the clock made explicit: \<open>clock n\<close> is the
  n-th reading, and the state counts the readings.
\<close>

type_synonym clocked = "nat \<times> mem_state"

definition clocked_pending :: "(nat \<Rightarrow> instant) \<Rightarrow> clocked pending_op" where
  "clocked_pending clock limit q eb = (\<lambda>(n, s). (list_pending (clock n) limit q eb s, (Suc n, s)))"

definition clocked_claim :: "(nat \<Rightarrow> instant) \<Rightarrow> clocked claim_op" where
  "clocked_claim clock i rc ref = (\<lambda>(n, s).
     let (c, s') = claim_task i rc ref (clock n) (clock (Suc n)) s in (c, (Suc (Suc n), s')))"

definition clocked_expire :: "(nat \<Rightarrow> instant) \<Rightarrow> clocked expire_op" where
  "clocked_expire clock = (\<lambda>(n, s).
     let (es, s') = expire_overdue None (clock n) s in (es, (Suc n, s')))"

abbreviation clocked_view :: "clocked \<Rightarrow> uuid \<Rightarrow> task_record option" where
  "clocked_view ns \<equiv> lookup (snd ns)"

abbreviation clocked_wf :: "clocked \<Rightarrow> bool" where
  "clocked_wf ns \<equiv> mem_wf (snd ns)"

lemma clocked_views:
  "settled_step clocked_view ns ns' = settled_step lookup (snd ns) (snd ns')"
  "claimed_from clocked_view ns c = claimed_from lookup (snd ns) c"
  by (simp_all only: settled_step_def claimed_from_def)

lemma py_take_subset: "r \<in> set (py_take n xs) \<Longrightarrow> r \<in> set xs"
  by (auto simp: py_take_def dest: in_set_takeD)

lemma memory_pending_law:
  assumes "mem_wf s" and "r \<in> set (list_pending now l q eb s)"
  shows "lookup s (rid r) = Some r \<and> is_waiting r \<and> fence q (queue r) \<and> fence eb (execution_backend r)"
proof -
  have "r \<in> set (mem_values s) \<and> is_waiting r \<and> fence q (queue r) \<and> fence eb (execution_backend r)"
    using assms(2) by (auto simp: list_pending_def dest: py_take_subset)
  with mem_wf_values [OF assms(1)] show ?thesis by blast
qed

lemma settled_step_put:
  assumes "lookup s i = Some r" "is_waiting r" "\<not> is_waiting r'"
  shows "settled_step lookup s (s\<lparr>mem_records := dict_set i r' (mem_records s)\<rparr>)"
  unfolding settled_step_def
proof (intro conjI allI impI)
  fix j q assume "lookup s j = Some q" "\<not> is_waiting q"
  with assms show "lookup (s\<lparr>mem_records := dict_set i r' (mem_records s)\<rparr>) j = Some q"
    by (cases "j = i") (simp_all add: dict_simps)
next
  fix j q assume "lookup (s\<lparr>mem_records := dict_set i r' (mem_records s)\<rparr>) j = Some q" "is_waiting q"
  with assms show "lookup s j = Some q" by (cases "j = i") (simp_all add: dict_simps)
qed

lemma not_waiting_marks [simp]: "\<not> is_waiting (start_record now r)" "\<not> is_waiting (expire_record now r)"
  by (simp_all add: is_waiting_def start_record_def expire_record_def)

lemma memory_claim_law:
  assumes wf: "mem_wf s"
  shows "settled_step lookup s (snd (claim_task i n ref t now s)) \<and>
    (\<forall>c. fst (claim_task i n ref t now s) = Some c \<longrightarrow>
      rid c = i \<and> claimed_from lookup s c \<and> lookup (snd (claim_task i n ref t now s)) i = Some c)"
proof (cases "lookup s i")
  case None
  then show ?thesis by (simp add: claim_task_def claim_task_with_expired_def settled_step_refl)
next
  case (Some r)
  have "rid r = i" by (rule mem_wfD(2) [OF wf Some])
  then have "claimed_from lookup s (start_record now r)" if "is_waiting r"
    using Some that by (simp add: claimed_from_def) (simp add: start_record_def)
  moreover have "is_waiting r" if "claimable t n ref r" using that by (simp add: claimable_def)
  ultimately show ?thesis using Some \<open>rid r = i\<close>
    by (simp add: claim_task_def claim_task_with_expired_def settled_step_refl settled_step_put dict_simps)
qed

lemma expired_stored:
  "r \<in> set (snd (expire_loop now limit n recs)) \<Longrightarrow> r \<in> set (map snd (fst (expire_loop now limit n recs)))"
  by (induction recs arbitrary: n) (auto simp: case_prod_beta split: if_splits)

lemma memory_expire_law:
  assumes wf: "mem_wf s" and res: "expire_overdue limit now s = (es, s')"
  shows "settled_step lookup s s'"
    and "r \<in> set es \<Longrightarrow> status r = Expired \<and> lookup s' (rid r) = Some r \<and>
      (\<exists>r0. lookup s (rid r) = Some r0 \<and> is_waiting r0)"
proof -
  let ?loop = "expire_loop now limit 0 (mem_records s)"
  have out: "es = snd ?loop" "mem_records s' = fst ?loop"
    using res by (auto simp: expire_overdue_def case_prod_beta)
  have ev: "recs_evolve (mem_records s) (mem_records s')"
    unfolding out by (rule expire_loop_evolves [OF prod.collapse [symmetric]])
  have others: "lookup s i = Some r' \<or> (\<exists>r. lookup s i = Some r \<and> overdue now r \<and> r' = expire_record now r)"
    if "lookup s' i = Some r'" for i r'
    using expire_loop_others [OF mem_wfD(1) [OF wf] that [unfolded out]] .
  show "settled_step lookup s s'"
    unfolding settled_step_def
  proof (intro conjI allI impI)
    fix i r assume r: "lookup s i = Some r" "\<not> is_waiting r"
    obtain r' where "lookup s' i = Some r'" using recs_evolve_lookup [OF ev r(1)] by blast
    with others [OF this] r show "lookup s' i = Some r" by (auto simp: overdue_def)
  next
    fix i r assume "lookup s' i = Some r" "is_waiting r"
    with others [of i r] show "lookup s i = Some r" by (auto simp: expire_record_def is_waiting_def)
  qed
  assume "r \<in> set es"
  then obtain r0 where "r0 \<in> set (filter (overdue now) (mem_values s))" and r: "r = expire_record now r0"
    unfolding out expire_loop_result [OF order_refl]
    by (cases limit) (fastforce dest: in_set_takeD)+
  then have r0: "r0 \<in> set (mem_values s)" "overdue now r0" by simp_all
  have l: "lookup s (rid r0) = Some r0" by (rule mem_wf_values [OF wf r0(1)])
  have "mem_wf s'" by (rule mem_wf_evolves [OF wf]) (use expire_overdue_evolves [of s limit now] res in simp)
  moreover have "r \<in> set (mem_values s')" using \<open>r \<in> set es\<close> unfolding out by (rule expired_stored)
  ultimately have "lookup s' (rid r) = Some r" by (rule mem_wf_values)
  with l r r0 show "status r = Expired \<and> lookup s' (rid r) = Some r \<and>
      (\<exists>r0. lookup s (rid r) = Some r0 \<and> is_waiting r0)"
    by (auto simp: expire_record_def overdue_def)
qed

interpretation mem_claims: claim_store clocked_view clocked_wf "clocked_pending clock"
    "clocked_claim clock" "clocked_expire clock"
  for clock :: "nat \<Rightarrow> instant"
proof
  fix s :: clocked and l q eb rs s'
  assume "clocked_wf s" "clocked_pending clock l q eb s = (rs, s')"
  then show "clocked_wf s' \<and> clocked_view s' = clocked_view s \<and>
      (\<forall>r \<in> set rs. clocked_view s (rid r) = Some r \<and> is_waiting r \<and> fence q (queue r) \<and>
         fence eb (execution_backend r))"
    using memory_pending_law [of "snd s"] by (auto simp: clocked_pending_def case_prod_beta)
next
  fix s :: clocked and i n ref
  assume wf: "clocked_wf s"
  obtain c s2 where res: "claim_task i n ref (clock (fst s)) (clock (Suc (fst s))) (snd s) = (c, s2)"
    by (cases "claim_task i n ref (clock (fst s)) (clock (Suc (fst s))) (snd s)")
  have step: "clocked_claim clock i n ref s = (c, Suc (Suc (fst s)), s2)"
    using res by (simp add: clocked_claim_def case_prod_beta)
  have "state_evolves (snd s) s2"
    using claim_task_evolves [of "snd s" i n ref "clock (fst s)" "clock (Suc (fst s))"] res
    by (simp add: claim_task_def case_prod_beta)
  then have "mem_wf s2" by (rule mem_wf_evolves [OF wf])
  moreover have "settled_step lookup (snd s) s2 \<and>
    (\<forall>x. c = Some x \<longrightarrow> rid x = i \<and> claimed_from lookup (snd s) x \<and> lookup s2 i = Some x)"
    using memory_claim_law [OF wf, of i n ref "clock (fst s)" "clock (Suc (fst s))"] by (simp add: res)
  ultimately show "claim_outcome clocked_view clocked_wf s (clocked_claim clock i n ref s) \<and>
      (\<forall>c. fst (clocked_claim clock i n ref s) = Some c \<longrightarrow> rid c = i)"
    by (auto simp add: step claim_outcome_def clocked_views)
next
  fix s :: clocked and es s'
  assume wf: "clocked_wf s" and res: "clocked_expire clock s = (es, s')"
  have e: "expire_overdue None (clock (fst s)) (snd s) = (es, snd s')"
    using res by (auto simp: clocked_expire_def case_prod_beta prod_eq_iff)
  have "mem_wf (snd s')"
    by (rule mem_wf_evolves [OF wf]) (use expire_overdue_evolves [of "snd s" None "clock (fst s)"] e in simp)
  with memory_expire_law [OF wf e]
  show "clocked_wf s' \<and> settled_step clocked_view s s' \<and>
      (\<forall>r \<in> set es. status r = Expired \<and> clocked_view s' (rid r) = Some r \<and>
         (\<exists>r0. clocked_view s (rid r) = Some r0 \<and> is_waiting r0))"
    by (auto simp: clocked_views)
qed

section \<open>The fallback and the native batch claim agree\<close>

definition claim_queue_order :: "instant \<Rightarrow> string option \<Rightarrow> mem_state \<Rightarrow> task_record list" where
  "claim_queue_order now eb s =
     sort_key claim_key (filter (eligible_for now [] eb) (mem_values s))"

lemma list_pending_order: "list_pending now l None eb s = py_take l (claim_queue_order now eb s)"
  unfolding list_pending_def claim_queue_order_def eligible_for_def
  by (intro arg_cong [of _ _ "py_take l"] arg_cong [of _ _ "sort_key claim_key"] filter_cong) auto

lemma values_after_put:
  assumes "distinct (dict_keys d)" and "\<And>k r. (k, r) \<in> set d \<Longrightarrow> rid r = k" and "i \<in> fst ` set d"
  shows "map snd (dict_set i v d) = map (\<lambda>r. if rid r = i then v else r) (map snd d)"
  using assms
proof (induction d)
  case (Cons kr d)
  obtain k r where kr: "kr = (k, r)" by (cases kr)
  have r: "rid r = k" using Cons.prems(2) by (simp add: kr)
  show ?case
  proof (cases "k = i")
    case True
    have "map (\<lambda>r. if rid r = i then v else r) (map snd d) = map snd d"
    proof (rule map_idI)
      fix q assume "q \<in> set (map snd d)"
      then obtain j where j: "(j, q) \<in> set d" by auto
      then have "rid q = j" using Cons.prems(2) by (simp add: kr)
      moreover have "j \<noteq> i" using j Cons.prems(1) True by (force simp: kr)
      ultimately show "(if rid q = i then v else q) = q" by simp
    qed
    with True r show ?thesis by (simp add: kr)
  next
    case False
    then have "map snd (dict_set i v d) = map (\<lambda>r. if rid r = i then v else r) (map snd d)"
      using Cons.prems by (intro Cons.IH) (auto simp: kr)
    with False r show ?thesis by (simp add: kr)
  qed
qed simp

lemma mem_wf_pairs: "mem_wf s \<Longrightarrow> (k, r) \<in> set (mem_records s) \<Longrightarrow> rid r = k"
  using mem_wfD(2) [of s k r] mem_wfD(1) [of s] by (simp add: map_of_is_SomeI)

lemma filter_overwritten:
  assumes "\<not> P v"
  shows "filter P (map (\<lambda>r. if rid r = i then v else r) rs) = filter (\<lambda>r. rid r \<noteq> i) (filter P rs)"
  using assms by (induction rs) auto

lemma claim_order_after_claim:
  assumes wf: "mem_wf s" and head: "claim_queue_order now eb s = h # rest"
  shows "claim_queue_order now eb (s\<lparr>mem_records := dict_set (rid h) (start_record now h) (mem_records s)\<rparr>) = rest"
proof -
  let ?s' = "s\<lparr>mem_records := dict_set (rid h) (start_record now h) (mem_records s)\<rparr>"
  let ?ok = "eligible_for now [] eb"
  have "h \<in> set (claim_queue_order now eb s)" by (simp add: head)
  then have h: "h \<in> set (mem_values s)" by (simp add: claim_queue_order_def)
  have l: "lookup s (rid h) = Some h" by (rule mem_wf_values [OF wf h])
  then have "rid h \<in> fst ` set (mem_records s)" by (force dest: map_of_SomeD)
  then have vals: "mem_values ?s' = map (\<lambda>r. if rid r = rid h then start_record now h else r) (mem_values s)"
    using values_after_put [OF mem_wfD(1) [OF wf] mem_wf_pairs [OF wf]] by simp
  have "filter ?ok (mem_values ?s') = filter (\<lambda>r. rid r \<noteq> rid h) (filter ?ok (mem_values s))"
    unfolding vals by (rule filter_overwritten) (simp add: eligible_for_def)
  then have "claim_queue_order now eb ?s' = filter (\<lambda>r. rid r \<noteq> rid h) (claim_queue_order now eb s)"
    by (simp only: claim_queue_order_def filter_sort)
  also have "\<dots> = rest"
  proof -
    have "distinct (map rid (claim_queue_order now eb s))"
      using mem_wf_distinct_rids(2) [OF wf] by (simp add: claim_queue_order_def distinct_map_sort_key distinct_map_filter)
    then have "rid h \<notin> rid ` set rest" by (simp add: head)
    then have "\<forall>r \<in> set rest. rid r \<noteq> rid h" by (metis imageI)
    then show ?thesis by (simp add: head)
  qed
  finally show ?thesis .
qed

lemma claim_head:
  assumes wf: "mem_wf s" and head: "claim_queue_order now eb s = h # rest"
  shows "claim_task (rid h) None None now now s =
    (Some (start_record now h), s\<lparr>mem_records := dict_set (rid h) (start_record now h) (mem_records s)\<rparr>)"
proof -
  have "h \<in> set (claim_queue_order now eb s)" by (simp add: head)
  then have h: "h \<in> set (mem_values s)" "eligible_for now [] eb h" by (simp_all add: claim_queue_order_def)
  with mem_wf_values [OF wf h(1)] show ?thesis
    by (simp add: claim_task_def claim_task_with_expired_def claimable_def eligible_for_def)
qed

lemma claim_rounds_take:
  assumes "mem_wf s"
  shows "fst (claim_rounds (clocked_pending (\<lambda>_. now)) (clocked_claim (\<lambda>_. now)) n limit [] eb False [] (k, s))
    = map (start_record now) (take n (claim_queue_order now eb s))"
  using assms
proof (induction n arbitrary: k s)
  case 0
  then show ?case by simp
next
  case (Suc n)
  show ?case
  proof (cases "claim_queue_order now eb s")
    case Nil
    then show ?thesis
      by (simp add: claim_unlimited_def base_claim_next_def clocked_pending_def list_pending_order py_take_def)
  next
    case (Cons h rest)
    let ?s' = "s\<lparr>mem_records := dict_set (rid h) (start_record now h) (mem_records s)\<rparr>"
    have turn: "claim_unlimited (clocked_pending (\<lambda>_. now)) (clocked_claim (\<lambda>_. now)) [] [] eb (k, s)
      = (Some (start_record now h), (Suc (Suc (Suc k)), ?s'))"
      using Cons claim_head [OF Suc.prems Cons]
      by (simp add: claim_unlimited_def base_claim_next_def clocked_pending_def clocked_claim_def
          list_pending_order py_take_def)
    have "state_evolves s ?s'"
      using claim_task_evolves [of s "rid h" None None now now] claim_head [OF Suc.prems Cons]
      by (simp add: claim_task_def case_prod_beta)
    then have "mem_wf ?s'" by (rule mem_wf_evolves [OF Suc.prems])
    from Suc.IH [OF this, of "Suc (Suc (Suc k))"]
    show ?thesis by (simp add: turn consume_slot_def case_prod_beta claim_order_after_claim [OF Suc.prems Cons])
      (simp add: Cons)
  qed
qed

section \<open>Properties\<close>

text \<open>Property C32: without queue names and limits, and while the clock stands still, the generic
  one-by-one \<open>claim_many\<close> of the base class claims exactly the records, in the same order, as
  the native batch claim of the in-memory backend. With queue names it claims queue by queue
  (\<open>base_claim_next\<close>), where the native claim orders the records of all of them together, so the two may differ.\<close>

theorem base_claim_many_agrees:
  assumes reach: "mem_reachable s"
  shows "fst (base_claim_many (clocked_pending (\<lambda>_. now)) (clocked_claim (\<lambda>_. now)) limit [] eb None (k, s))
    = fst (claim_many limit [] eb None now s)"
proof (cases "0 < limit")
  case True
  have wf: "mem_wf s" by (rule mem_reachable_wf [OF reach])
  obtain recs eligible expired claimed recs' where
    scan: "claim_scan now [] eb (mem_records s) = (recs, eligible, expired)" and
    take: "claim_take now limit (case None of None \<Rightarrow> [] | Some d \<Rightarrow> d) (sort_key claim_key eligible) recs
      = (claimed, recs')" and
    res: "claim_many_with_expired limit [] eb None now s = ((claimed, expired), s\<lparr>mem_records := recs'\<rparr>)"
    by (rule claim_many_unfold [OF wf True])
  have "claimed = map (start_record now) (take (nat limit) (claim_queue_order now eb s))"
    using claim_take_unlimited [of now limit "sort_key claim_key eligible" recs] take
      claim_scan_eligible [OF scan] by (simp add: claim_queue_order_def)
  then show ?thesis
    using True by (simp add: base_claim_many_def claim_rounds_take [OF wf] claim_many_def res max_def)
next
  case False
  then show ?thesis by (simp add: base_claim_many_def claim_many_def claim_many_with_expired_def max_def)
qed

text \<open>the generic batch claim is safe whatever the clock does between its calls: it
  claims at most \<open>limit\<close> records, never one twice, each from the requested queues and execution
  backend, each waiting when the call began and running in the backend when it ends.\<close>

theorem base_claim_many_safe:
  assumes reach: "mem_reachable s"
    and res: "base_claim_many (clocked_pending clock) (clocked_claim clock) limit queues eb limits (k, s)
      = (cs, k', s')"
  shows "int (length cs) \<le> max 0 limit \<and> distinct (map rid cs) \<and>
    (\<forall>c \<in> set cs. claimed_from lookup s c \<and> lookup s' (rid c) = Some c \<and>
       (queues = [] \<or> queue c \<in> set queues) \<and> fence eb (execution_backend c))"
  using mem_claims.claim_rounds_sound [OF _ res [unfolded base_claim_many_def]] mem_reachable_wf [OF reach]
  by (simp add: clocked_views nat_le_iff le_nat_iff)

text \<open>the generic batch claim respects every per-queue limit.\<close>

theorem base_claim_many_limited:
  assumes reach: "mem_reachable s" and l: "dict_get limits q = Some l"
    and res: "base_claim_many (clocked_pending clock) (clocked_claim clock) limit queues eb (Some limits) (k, s)
      = (cs, ks)"
  shows "int (length (filter (\<lambda>c. queue c = q) cs)) \<le> max 0 l"
  using mem_claims.claim_rounds_limits [of "(k, s)"] res l mem_reachable_wf [OF reach]
  by (simp add: base_claim_many_def)

text \<open>the generic \<open>claim_task_with_expired\<close> reports a claim or an expiry of the
  task, never both, and what it reports is what the backend holds when it returns.\<close>

theorem base_claim_with_expired_exclusive:
  assumes reach: "mem_reachable s"
    and res: "base_claim_task_with_expired (clocked_claim clock) (clocked_expire clock) i n ref (k, s)
      = ((c, e), k', s')"
  shows "(c = None \<or> e = None) \<and>
    (\<forall>r. e = Some r \<longrightarrow> rid r = i \<and> status r = Expired \<and> lookup s' i = Some r) \<and>
    (\<forall>r. c = Some r \<longrightarrow> rid r = i \<and> claimed_from lookup s r \<and> lookup s' i = Some r)"
  using mem_claims.claim_with_expired_exclusive [OF _ res] mem_reachable_wf [OF reach]
  by (simp add: clocked_views)

end
