(* ===== verification/Event_Models.thy ===== *)
theory Event_Models
  imports Queue_Prelude
begin

text \<open>
  The event envelope (\<open>events/models.py\<close>), the history record built from it
  (\<open>events/_log_records.py\<close>), the adopter-declared extra columns
  (\<open>events/history.py\<close>) and the batch splitting of the live transport
  (\<open>events/chunking.py\<close>). Wire encoding is done by a third-party serializer and is an
  argument of the definitions that use it.
\<close>

section \<open>Events\<close>

record event_actor =
  actor_type :: "string option"
  actor_id :: "string option"
  actor_name :: "string option"

record event_entity =
  entity_type :: string
  entity_id :: string
  entity_name :: "string option"

record queue_event =
  ev_type :: string
  ev_scope :: string
  ev_id :: string
  ev_scope_key :: "string option"
  ev_task_id :: "string option"
  ev_task_name :: "string option"
  ev_queue :: "string option"
  ev_worker_id :: "string option"
  ev_execution_backend :: "string option"
  ev_execution_profile :: "string option"
  ev_attempt :: "int option"
  ev_sequence :: "int option"
  ev_level :: "string option"
  ev_message :: "string option"
  ev_progress_current :: pyval
  ev_progress_total :: pyval
  ev_progress_percent :: pyval
  ev_actor :: "event_actor option"
  ev_entity :: "event_entity option"
  ev_payload :: dict
  ev_occurred_at :: py_datetime
  ev_schema_version :: int
  ev_event_key :: "string option"

section \<open>History records\<close>

record extra_column =
  col_name :: string
  col_source :: string
  col_indexed :: bool

record event_log_record =
  lg_event_id :: string
  lg_event_type :: string
  lg_task_id :: "string option"
  lg_task_name :: "string option"
  lg_queue :: "string option"
  lg_worker_id :: "string option"
  lg_execution_backend :: "string option"
  lg_execution_profile :: "string option"
  lg_actor_type :: "string option"
  lg_actor_id :: "string option"
  lg_stage :: "string option"
  lg_level :: "string option"
  lg_message :: "string option"
  lg_detail :: dict
  lg_progress_current :: "rat option"
  lg_progress_total :: "rat option"
  lg_progress_percent :: "rat option"
  lg_duration_ms :: "rat option"
  lg_sequence :: "int option"
  lg_occurred_at :: instant
  lg_created_at :: instant
  lg_scope :: "string option"
  lg_scope_key :: "string option"
  lg_actor :: "string option"
  lg_entity :: "string option"
  lg_extra :: "(string \<times> string) list"

fun optional_str :: "pyval \<Rightarrow> string option" where
  "optional_str (PStr s) = Some s"
| "optional_str _ = None"

fun optional_float :: "pyval \<Rightarrow> rat option" where
  "optional_float (PInt n) = Some (of_int n)"
| "optional_float (PFloat x) = Some x"
| "optional_float _ = None"

fun event_entity_key :: "event_entity option \<Rightarrow> string option" where
  "event_entity_key None = None"
| "event_entity_key (Some e) = Some (entity_type e @ '':'' @ entity_id e)"

text \<open>An f-string writes \<open>None\<close> for a missing actor part.\<close>

definition opt_text :: "string option \<Rightarrow> string" where
  "opt_text s = (case s of None \<Rightarrow> ''None'' | Some t \<Rightarrow> t)"

fun event_actor_key :: "event_actor option \<Rightarrow> string option" where
  "event_actor_key None = None"
| "event_actor_key (Some a) = Some (opt_text (actor_type a) @ '':'' @ opt_text (actor_id a))"

text \<open>
  \<open>to_str\<close> is Python's \<open>str\<close> on payload values. A payload key that is present with the
  value \<open>None\<close> is skipped.
\<close>

definition extract_event_extras ::
    "(pyval \<Rightarrow> string) \<Rightarrow> dict \<Rightarrow> extra_column list \<Rightarrow> (string \<times> string) list" where
  "extract_event_extras to_str payload columns =
     (if payload = [] \<or> columns = [] then []
      else fold (\<lambda>c d. case dict_get payload (col_source c) of
                       None \<Rightarrow> d
                     | Some PNone \<Rightarrow> d
                     | Some v \<Rightarrow> dict_set (col_name c) (to_str v) d) columns [])"

definition event_log_record_from_event ::
    "(pyval \<Rightarrow> string) \<Rightarrow> extra_column list \<Rightarrow> instant \<Rightarrow> queue_event \<Rightarrow> event_log_record" where
  "event_log_record_from_event to_str extra_columns created e =
     (let detail = ev_payload e in
      \<lparr>lg_event_id = ev_id e, lg_event_type = ev_type e, lg_task_id = ev_task_id e,
       lg_task_name = ev_task_name e, lg_queue = ev_queue e, lg_worker_id = ev_worker_id e,
       lg_execution_backend = ev_execution_backend e,
       lg_execution_profile = ev_execution_profile e,
       lg_actor_type = Option.bind (ev_actor e) actor_type,
       lg_actor_id = Option.bind (ev_actor e) actor_id,
       lg_stage = optional_str (get_or_none detail ''stage''), lg_level = ev_level e,
       lg_message = ev_message e, lg_detail = detail,
       lg_progress_current = optional_float (ev_progress_current e),
       lg_progress_total = optional_float (ev_progress_total e),
       lg_progress_percent = optional_float (ev_progress_percent e),
       lg_duration_ms = optional_float (get_or_none detail ''duration_ms''),
       lg_sequence = ev_sequence e, lg_occurred_at = ensure_utc_datetime (ev_occurred_at e),
       lg_created_at = created, lg_scope = Some (ev_scope e), lg_scope_key = ev_scope_key e,
       lg_actor = None, lg_entity = event_entity_key (ev_entity e),
       lg_extra = extract_event_extras to_str detail extra_columns\<rparr>)"

definition event_log_record_sort_key :: "event_log_record \<Rightarrow> instant \<times> int \<times> string" where
  "event_log_record_sort_key r =
     (lg_occurred_at r, case lg_sequence r of None \<Rightarrow> 0 | Some n \<Rightarrow> n, lg_event_id r)"

section \<open>Extra columns\<close>

definition ascii_alpha :: "char \<Rightarrow> bool" where
  "ascii_alpha c \<longleftrightarrow> (CHR ''a'' \<le> c \<and> c \<le> CHR ''z'') \<or> (CHR ''A'' \<le> c \<and> c \<le> CHR ''Z'')"

definition ascii_digit :: "char \<Rightarrow> bool" where
  "ascii_digit c \<longleftrightarrow> CHR ''0'' \<le> c \<and> c \<le> CHR ''9''"

definition ascii_lower :: "string \<Rightarrow> string" where
  "ascii_lower s = map (\<lambda>c. if CHR ''A'' \<le> c \<and> c \<le> CHR ''Z'' then char_of (of_char c + 32 :: nat) else c) s"

text \<open>\<open>isascii\<close> restricts \<open>isalpha\<close> and \<open>isalnum\<close> to the ASCII letters and digits.\<close>

definition is_unquoted_identifier_part :: "string \<Rightarrow> bool" where
  "is_unquoted_identifier_part s \<longleftrightarrow>
     (case s of
        [] \<Rightarrow> False
      | c # cs \<Rightarrow> (ascii_alpha c \<or> c = CHR ''_'') \<and>
          (\<forall>x \<in> set s. ascii_alpha x \<or> ascii_digit x \<or> x = CHR ''_''))"

definition EVENT_HISTORY_COLUMN_NAMES :: "string list" where
  "EVENT_HISTORY_COLUMN_NAMES =
     [''event_id'', ''event_type'', ''task_id'', ''task_name'', ''queue'', ''worker_id'',
      ''execution_backend'', ''execution_profile'', ''actor_type'', ''actor_id'', ''stage'',
      ''level'', ''message'', ''detail'', ''progress_current'', ''progress_total'',
      ''progress_percent'', ''duration_ms'', ''sequence'', ''occurred_at'', ''created_at'']"

definition RESERVED_EVENT_HISTORY_COLUMNS :: "string list" where
  "RESERVED_EVENT_HISTORY_COLUMNS = [''actor'', ''entity'', ''scope'', ''scope_key'']"

definition BUILTIN_EVENT_EXTRA_FILTERS :: "string list" where
  "BUILTIN_EVENT_EXTRA_FILTERS = [''actor_id'', ''actor_type'']"

fun validate_columns_loop ::
    "string list \<Rightarrow> extra_column list \<Rightarrow> extra_column list result" where
  "validate_columns_loop seen [] = Inr []"
| "validate_columns_loop seen (c # cs) =
     (if \<not> is_unquoted_identifier_part (col_name c) then Inl QueueConfigurationError
      else let folded = ascii_lower (col_name c) in
        if folded \<in> set EVENT_HISTORY_COLUMN_NAMES then Inl QueueConfigurationError
        else if folded \<in> set RESERVED_EVENT_HISTORY_COLUMNS then Inl QueueConfigurationError
        else if folded \<in> set seen then Inl QueueConfigurationError
        else if col_source c = [] then Inl QueueConfigurationError
        else (case validate_columns_loop (folded # seen) cs of
                Inl e \<Rightarrow> Inl e
              | Inr rest \<Rightarrow> Inr (c # rest)))"

definition validate_event_history_extra_columns :: "extra_column list \<Rightarrow> extra_column list result" where
  "validate_event_history_extra_columns columns = validate_columns_loop [] columns"

definition declared_map :: "extra_column list \<Rightarrow> (string \<times> string) list" where
  "declared_map columns =
     dict_update (dict_update [] (map (\<lambda>c. (ascii_lower (col_name c), col_name c)) columns))
       (map (\<lambda>n. (n, n)) BUILTIN_EVENT_EXTRA_FILTERS)"

fun resolve_filters ::
    "(string \<times> string) list \<Rightarrow> (string \<times> string) list \<Rightarrow> (string \<times> string) list \<Rightarrow>
     (string \<times> string) list result" where
  "resolve_filters declared [] resolved = Inr resolved"
| "resolve_filters declared ((k, v) # rest) resolved =
     (case dict_get declared (ascii_lower k) of
        None \<Rightarrow> Inl QueueConfigurationError
      | Some name \<Rightarrow> resolve_filters declared rest (dict_set name v resolved))"

definition validate_event_extra_filter ::
    "(string \<times> string) list option \<Rightarrow> extra_column list \<Rightarrow> (string \<times> string) list result" where
  "validate_event_extra_filter filters columns =
     (case filters of
        None \<Rightarrow> Inr []
      | Some d \<Rightarrow> if d = [] then Inr [] else resolve_filters (declared_map columns) d [])"

definition extra_value :: "event_log_record \<Rightarrow> string \<Rightarrow> string option" where
  "extra_value r k =
     (if k = ''actor_id'' then lg_actor_id r
      else if k = ''actor_type'' then lg_actor_type r
      else dict_get (lg_extra r) k)"

definition event_extra_filter_matches :: "event_log_record \<Rightarrow> (string \<times> string) list \<Rightarrow> bool" where
  "event_extra_filter_matches r filters \<longleftrightarrow> (\<forall>(k, v) \<in> set filters. extra_value r k = Some v)"

section \<open>Splitting a batch event\<close>

fun as_dict :: "pyval \<Rightarrow> dict option" where
  "as_dict (PDict d) = Some d"
| "as_dict _ = None"

definition extract_batch_items :: "queue_event \<Rightarrow> dict list option" where
  "extract_batch_items e =
     (if get_or_none (ev_payload e) ''batch'' \<noteq> PBool True then None
      else case get_or_none (ev_payload e) ''items'' of
             PList vs \<Rightarrow> if (\<forall>v \<in> set vs. as_dict v \<noteq> None) then Some (List.map_filter as_dict vs) else None
           | _ \<Rightarrow> None)"

text \<open>
  \<open>wire\<close> is the third-party pair \<open>to_builtins\<close> and \<open>QueueEvent.from_dict\<close>.
\<close>

type_synonym wire = "(queue_event \<Rightarrow> dict) \<times> (dict \<Rightarrow> queue_event)"

definition replace_batch_items :: "wire \<Rightarrow> queue_event \<Rightarrow> dict list \<Rightarrow> queue_event" where
  "replace_batch_items w e items =
     (let data = fst w e;
          payload = (case get_or_none data ''payload'' of PDict d \<Rightarrow> d | _ \<Rightarrow> []);
          payload = dict_set ''items'' (PList (map PDict items)) payload;
          payload = dict_set ''count'' (PInt (int (length items))) payload
      in snd w (dict_set ''payload'' (PDict payload) data))"

text \<open>The loop over the items; \<open>current\<close> is the open chunk. A closed chunk is emitted before the
  size of the next single item is checked.\<close>

fun split_loop ::
    "wire \<Rightarrow> (queue_event \<Rightarrow> int) \<Rightarrow> int \<Rightarrow> queue_event \<Rightarrow> dict list \<Rightarrow> dict list \<Rightarrow> queue_event list result" where
  "split_loop w est max_bytes e current [] =
     Inr (if current = [] then [] else [replace_batch_items w e current])"
| "split_loop w est max_bytes e current (item # items) =
     (if est (replace_batch_items w e (current @ [item])) \<le> max_bytes
      then split_loop w est max_bytes e (current @ [item]) items
      else if est (replace_batch_items w e [item]) > max_bytes then Inl ValueError
      else (case split_loop w est max_bytes e [item] items of
              Inl err \<Rightarrow> Inl err
            | Inr chunks \<Rightarrow>
                Inr ((if current = [] then [] else [replace_batch_items w e current]) @ chunks)))"

definition split_event_batch_by_size ::
    "wire \<Rightarrow> (queue_event \<Rightarrow> int) \<Rightarrow> int \<Rightarrow> queue_event \<Rightarrow> queue_event list result" where
  "split_event_batch_by_size w est max_bytes e =
     (if max_bytes < 1 then Inl ValueError
      else case extract_batch_items e of
             None \<Rightarrow> Inr [e]
           | Some items \<Rightarrow>
               if est e \<le> max_bytes then Inr [e]
               else (case split_loop w est max_bytes e [] items of
                       Inl err \<Rightarrow> Inl err
                     | Inr chunks \<Rightarrow> Inr (if chunks = [] then [e] else chunks)))"

text \<open>
  What the code relies on from the serializer: the encoded event holds the payload verbatim
  under its key, and decoding an encoded event whose payload was replaced gives the event with
  that payload.
\<close>

definition wire_ok :: "wire \<Rightarrow> bool" where
  "wire_ok w \<longleftrightarrow>
     (\<forall>e. get_or_none (fst w e) ''payload'' = PDict (ev_payload e)) \<and>
     (\<forall>e p. snd w (dict_set ''payload'' (PDict p) (fst w e)) = e\<lparr>ev_payload := p\<rparr>)"

definition with_items :: "queue_event \<Rightarrow> dict list \<Rightarrow> queue_event" where
  "with_items e items = e\<lparr>ev_payload := dict_set ''count'' (PInt (int (length items)))
     (dict_set ''items'' (PList (map PDict items)) (ev_payload e))\<rparr>"

lemma replace_batch_items_wire: "wire_ok w \<Longrightarrow> replace_batch_items w e items = with_items e items"
  by (simp add: replace_batch_items_def with_items_def wire_ok_def)

lemma map_filter_dicts [simp]: "List.map_filter as_dict (map PDict items) = items"
  by (induction items) (simp_all add: List.map_filter_simps)

lemma extract_with_items:
  "extract_batch_items e = Some items \<Longrightarrow> extract_batch_items (with_items e xs) = Some xs"
  by (simp add: extract_batch_items_def with_items_def get_or_none_def dict_simps split: if_splits)

lemma with_items_payload [simp]: "(with_items e xs)\<lparr>ev_payload := ev_payload e\<rparr> = e"
  by (simp add: with_items_def)

lemma split_loop_correct:
  assumes "wire_ok w" and "current = [] \<or> est (with_items e current) \<le> m"
  shows "case split_loop w est m e current items of
      Inl err \<Rightarrow> err = ValueError \<and> (\<exists>item \<in> set items. est (with_items e [item]) > m)
    | Inr chunks \<Rightarrow> (\<exists>css. chunks = map (with_items e) css \<and> concat css = current @ items \<and>
        (\<forall>cs \<in> set css. cs \<noteq> [] \<and> est (with_items e cs) \<le> m))"
  using assms(2)
proof (induction items arbitrary: current)
  case Nil
  then show ?case
    using assms(1) by (auto simp: replace_batch_items_wire intro: exI [of _ "[]"] exI [of _ "[current]"])
next
  case (Cons item items)
  note [simp] = replace_batch_items_wire [OF assms(1)]
  consider (fits) "est (with_items e (current @ [item])) \<le> m"
    | (huge) "\<not> est (with_items e (current @ [item])) \<le> m" "est (with_items e [item]) > m"
    | (next_chunk) "\<not> est (with_items e (current @ [item])) \<le> m" "est (with_items e [item]) \<le> m"
    by linarith
  then show ?case
  proof cases
    case fits
    with Cons.IH [of "current @ [item]"] show ?thesis by (auto split: sum.splits)
  next
    case huge
    then show ?thesis by simp
  next
    case next_chunk
    note IH = Cons.IH [of "[item]"]
    show ?thesis
    proof (cases "split_loop w est m e [item] items")
      case (Inl err)
      with IH next_chunk show ?thesis by auto
    next
      case (Inr chunks)
      with IH next_chunk obtain css where css: "chunks = map (with_items e) css" "concat css = item # items"
        "\<forall>cs \<in> set css. cs \<noteq> [] \<and> est (with_items e cs) \<le> m" by auto
      let ?css = "(if current = [] then [] else [current]) @ css"
      have facts: "(if current = [] then [] else [with_items e current]) @ chunks = map (with_items e) ?css"
        "concat ?css = current @ item # items"
        "\<forall>cs \<in> set ?css. cs \<noteq> [] \<and> est (with_items e cs) \<le> m"
        using css Cons.prems by auto
      have "split_loop w est m e current (item # items)
          = Inr ((if current = [] then [] else [with_items e current]) @ chunks)"
        using Inr next_chunk by simp
      also have "\<dots> = Inr (map (with_items e) ?css)" using facts(1) by (rule arg_cong)
      finally have result: "split_loop w est m e current (item # items) = Inr (map (with_items e) ?css)" .
      show ?thesis
        unfolding result sum.case by (rule exI [of _ ?css], intro conjI refl facts(2,3))
    qed
  qed
qed

section \<open>Properties\<close>

text \<open>splitting a batch event loses nothing: either some single item exceeds the limit
  and the call raises, or the chunks carry exactly the items of the event in order, agree with it
  outside the payload, and every chunk of a non-empty batch fits the limit.\<close>

theorem split_batch_correct:
  assumes w: "wire_ok w" and batch: "extract_batch_items e = Some items" and m: "1 \<le> max_bytes"
  shows "case split_event_batch_by_size w est max_bytes e of
      Inl err \<Rightarrow> err = ValueError \<and> (\<exists>item \<in> set items. est (replace_batch_items w e [item]) > max_bytes)
    | Inr chunks \<Rightarrow>
        concat (map (\<lambda>c. case extract_batch_items c of None \<Rightarrow> [] | Some xs \<Rightarrow> xs) chunks) = items \<and>
        (\<forall>c \<in> set chunks. c\<lparr>ev_payload := ev_payload e\<rparr> = e) \<and>
        (items \<noteq> [] \<longrightarrow> (\<forall>c \<in> set chunks. est c \<le> max_bytes))"
proof (cases "est e \<le> max_bytes")
  case True
  then show ?thesis using m batch by (simp add: split_event_batch_by_size_def)
next
  case False
  note loop = split_loop_correct [OF w, of "[]" est e max_bytes items]
  show ?thesis
  proof (cases "split_loop w est max_bytes e [] items")
    case (Inl err)
    with loop False m batch show ?thesis
      by (simp add: split_event_batch_by_size_def replace_batch_items_wire [OF w])
  next
    case (Inr chunks)
    with loop obtain css where css: "chunks = map (with_items e) css" "concat css = items"
      "\<forall>cs \<in> set css. est (with_items e cs) \<le> max_bytes" by auto
    have "concat (map (\<lambda>c. case extract_batch_items c of None \<Rightarrow> [] | Some xs \<Rightarrow> xs) chunks) = concat css"
      by (simp add: css(1) extract_with_items [OF batch] comp_def)
    with Inr css False m batch show ?thesis by (auto simp: split_event_batch_by_size_def)
  qed
qed

section \<open>A concrete serializer\<close>

text \<open>
  One serializer with the camelCase field names of the envelope that satisfies the assumption:
  it is used to show that the assumption can hold.
\<close>

fun enc_str :: "string option \<Rightarrow> pyval" where
  "enc_str None = PNone" | "enc_str (Some s) = PStr s"

fun enc_int :: "int option \<Rightarrow> pyval" where
  "enc_int None = PNone" | "enc_int (Some n) = PInt n"

fun dec_int :: "pyval \<Rightarrow> int option" where
  "dec_int (PInt n) = Some n" | "dec_int _ = None"

fun enc_time :: "py_datetime \<Rightarrow> pyval" where
  "enc_time (Naive w) = PList [PInt w]" | "enc_time (Aware w z) = PList [PInt w, PInt z]"

fun dec_time :: "pyval \<Rightarrow> py_datetime" where
  "dec_time (PList [PInt w, PInt z]) = Aware w z"
| "dec_time (PList [PInt w]) = Naive w"
| "dec_time _ = Naive 0"

fun enc_actor :: "event_actor option \<Rightarrow> pyval" where
  "enc_actor None = PNone"
| "enc_actor (Some a) = PList [enc_str (actor_type a), enc_str (actor_id a), enc_str (actor_name a)]"

fun dec_actor :: "pyval \<Rightarrow> event_actor option" where
  "dec_actor (PList [t, i, n]) =
     Some \<lparr>actor_type = optional_str t, actor_id = optional_str i, actor_name = optional_str n\<rparr>"
| "dec_actor _ = None"

fun enc_entity :: "event_entity option \<Rightarrow> pyval" where
  "enc_entity None = PNone"
| "enc_entity (Some a) = PList [PStr (entity_type a), PStr (entity_id a), enc_str (entity_name a)]"

fun dec_entity :: "pyval \<Rightarrow> event_entity option" where
  "dec_entity (PList [PStr t, PStr i, n]) =
     Some \<lparr>entity_type = t, entity_id = i, entity_name = optional_str n\<rparr>"
| "dec_entity _ = None"

lemma dec_enc [simp]:
  "optional_str (enc_str s) = s" "dec_int (enc_int n) = n" "dec_time (enc_time t) = t"
  "dec_actor (enc_actor a) = a" "dec_entity (enc_entity b) = b"
proof -
  show str: "optional_str (enc_str s) = s" for s by (cases s) simp_all
  show "dec_int (enc_int n) = n" by (cases n) simp_all
  show "dec_time (enc_time t) = t" by (cases t) simp_all
  show "dec_actor (enc_actor a) = a" by (cases a) (simp_all add: str)
  show "dec_entity (enc_entity b) = b" by (cases b) (simp_all add: str)
qed

fun text_of :: "pyval \<Rightarrow> string" where
  "text_of (PStr s) = s" | "text_of _ = []"

fun int_of :: "pyval \<Rightarrow> int" where
  "int_of (PInt n) = n" | "int_of _ = 0"

fun dict_of :: "pyval \<Rightarrow> dict" where
  "dict_of (PDict d) = d" | "dict_of _ = []"

definition encode_event :: "queue_event \<Rightarrow> dict" where
  "encode_event e =
     [(''payload'', PDict (ev_payload e)), (''type'', PStr (ev_type e)), (''scope'', PStr (ev_scope e)),
      (''id'', PStr (ev_id e)), (''scopeKey'', enc_str (ev_scope_key e)), (''taskId'', enc_str (ev_task_id e)),
      (''taskName'', enc_str (ev_task_name e)), (''queue'', enc_str (ev_queue e)),
      (''workerId'', enc_str (ev_worker_id e)), (''executionBackend'', enc_str (ev_execution_backend e)),
      (''executionProfile'', enc_str (ev_execution_profile e)), (''attempt'', enc_int (ev_attempt e)),
      (''sequence'', enc_int (ev_sequence e)), (''level'', enc_str (ev_level e)),
      (''message'', enc_str (ev_message e)), (''progressCurrent'', ev_progress_current e),
      (''progressTotal'', ev_progress_total e), (''progressPercent'', ev_progress_percent e),
      (''actor'', enc_actor (ev_actor e)), (''entity'', enc_entity (ev_entity e)),
      (''occurredAt'', enc_time (ev_occurred_at e)), (''schemaVersion'', PInt (ev_schema_version e)),
      (''eventKey'', enc_str (ev_event_key e))]"

definition decode_event :: "dict \<Rightarrow> queue_event" where
  "decode_event d = (let g = get_or_none d in
     \<lparr>ev_type = text_of (g ''type''), ev_scope = text_of (g ''scope''), ev_id = text_of (g ''id''),
      ev_scope_key = optional_str (g ''scopeKey''), ev_task_id = optional_str (g ''taskId''),
      ev_task_name = optional_str (g ''taskName''), ev_queue = optional_str (g ''queue''),
      ev_worker_id = optional_str (g ''workerId''),
      ev_execution_backend = optional_str (g ''executionBackend''),
      ev_execution_profile = optional_str (g ''executionProfile''), ev_attempt = dec_int (g ''attempt''),
      ev_sequence = dec_int (g ''sequence''), ev_level = optional_str (g ''level''),
      ev_message = optional_str (g ''message''), ev_progress_current = g ''progressCurrent'',
      ev_progress_total = g ''progressTotal'', ev_progress_percent = g ''progressPercent'',
      ev_actor = dec_actor (g ''actor''), ev_entity = dec_entity (g ''entity''),
      ev_payload = dict_of (g ''payload''), ev_occurred_at = dec_time (g ''occurredAt''),
      ev_schema_version = int_of (g ''schemaVersion''), ev_event_key = optional_str (g ''eventKey'')\<rparr>)"

lemma encode_wire_ok: "wire_ok (encode_event, decode_event)"
  by (simp add: wire_ok_def encode_event_def decode_event_def get_or_none_def Let_def)

definition ex_event :: queue_event where
  "ex_event = decode_event [(''type'', PStr ''task.progress''), (''scope'', PStr ''task''), (''id'', PStr ''e''),
     (''taskId'', PStr ''t''), (''payload'', PDict [(''batch'', PBool True),
        (''items'', PList [PDict [(''n'', PInt 1)], PDict [(''n'', PInt 2)]])])]"

text \<open>A size estimate that counts the items of the batch.\<close>

definition ex_estimate :: "queue_event \<Rightarrow> int" where
  "ex_estimate e = (case get_or_none (ev_payload e) ''items'' of PList vs \<Rightarrow> int (length vs) | _ \<Rightarrow> 0)"

lemma ex_event_items: "extract_batch_items ex_event = Some [[(''n'', PInt 1)], [(''n'', PInt 2)]]"
  by (simp add: extract_batch_items_def ex_event_def decode_event_def get_or_none_def List.map_filter_simps)

theorem split_batch_correct_witness:
  "\<exists>chunks. split_event_batch_by_size (encode_event, decode_event) ex_estimate 1 ex_event = Inr chunks \<and>
     (\<forall>c \<in> set chunks. ex_estimate c \<le> 1)"
proof -
  have single: "ex_estimate (with_items ex_event [i]) = 1" for i
    by (simp add: ex_estimate_def with_items_def get_or_none_def dict_simps)
  show ?thesis
    using split_batch_correct [OF encode_wire_ok ex_event_items, of 1 ex_estimate] single
    by (auto simp: replace_batch_items_wire [OF encode_wire_ok] split: sum.splits)
qed

end
