(* ===== verification/Event_Log.thy ===== *)
theory Event_Log
  imports Event_Models "HOL-Library.Multiset"
begin

text \<open>
  The history queries of \<open>events/query.py\<close> and the bounded in-memory history
  \<open>backends/memory/event_log.py\<close> built on them: filtering, the stable order, pages,
  per-stage summaries, retention.
\<close>

section \<open>Levels\<close>

definition EVENT_LEVEL_RANKS :: "(string \<times> int) list" where
  "EVENT_LEVEL_RANKS =
     [(''debug'', 10), (''info'', 20), (''warning'', 30), (''error'', 40), (''critical'', 50)]"

definition event_level_rank :: "string option \<Rightarrow> int" where
  "event_level_rank level =
     (case level of
        None \<Rightarrow> 0
      | Some s \<Rightarrow> if s = [] then 0
          else (case dict_get EVENT_LEVEL_RANKS (ascii_lower s) of None \<Rightarrow> 1 | Some r \<Rightarrow> r))"

definition event_level_for_rank :: "int \<Rightarrow> string option" where
  "event_level_for_rank rank =
     (if rank = 0 then None
      else case find (\<lambda>(level, r). r = rank) EVENT_LEVEL_RANKS of
             None \<Rightarrow> Some ''unknown''
           | Some (level, r) \<Rightarrow> Some level)"

section \<open>Queries\<close>

datatype event_order = Asc | Desc

record event_query =
  q_task_id :: "string option"
  q_task_name :: "string option"
  q_event_type :: "string option"
  q_scope :: "string option"
  q_scope_key :: "string option"
  q_entity :: "string option"
  q_level :: "string option"
  q_order :: event_order
  q_limit :: "int option"
  q_offset :: int

definition empty_query :: event_query where
  "empty_query = \<lparr>q_task_id = None, q_task_name = None, q_event_type = None, q_scope = None,
     q_scope_key = None, q_entity = None, q_level = None, q_order = Asc, q_limit = None, q_offset = 0\<rparr>"

fun order_of :: "string \<Rightarrow> event_order option" where
  "order_of s = (if s = ''asc'' then Some Asc else if s = ''desc'' then Some Desc else None)"

text \<open>
  \<open>QueueEventQuery.__post_init__\<close>: the raw \<open>order\<close>, \<open>limit\<close> and \<open>offset\<close> are
  dynamic values; \<open>q\<close> carries the filters. A \<open>bool\<close> is not accepted as an integer.
\<close>

definition query_post_init :: "event_query \<Rightarrow> string \<Rightarrow> pyval \<Rightarrow> pyval \<Rightarrow> event_query result" where
  "query_post_init q order limit offset =
     (case order_of order of
        None \<Rightarrow> Inl QueueConfigurationError
      | Some o' \<Rightarrow>
          (case (case limit of PNone \<Rightarrow> Some None | PInt n \<Rightarrow> if n \<le> 0 then None else Some (Some n) | _ \<Rightarrow> None) of
             None \<Rightarrow> Inl QueueConfigurationError
           | Some l \<Rightarrow>
               (case offset of
                  PInt n \<Rightarrow> if n < 0 then Inl QueueConfigurationError
                    else Inr (q\<lparr>q_order := o', q_limit := l, q_offset := n\<rparr>)
                | _ \<Rightarrow> Inl QueueConfigurationError)))"

definition is_paginated :: "event_query \<Rightarrow> bool" where
  "is_paginated q \<longleftrightarrow> q_limit q \<noteq> None \<or> q_offset q \<noteq> 0"

datatype filter_attr = ByTaskId | ByTaskName | ByEventType | ByScope | ByScopeKey | ByEntity | ByLevel

fun filter_attr_value :: "event_log_record \<Rightarrow> filter_attr \<Rightarrow> string option" where
  "filter_attr_value r ByTaskId = lg_task_id r"
| "filter_attr_value r ByTaskName = lg_task_name r"
| "filter_attr_value r ByEventType = Some (lg_event_type r)"
| "filter_attr_value r ByScope = lg_scope r"
| "filter_attr_value r ByScopeKey = lg_scope_key r"
| "filter_attr_value r ByEntity = lg_entity r"
| "filter_attr_value r ByLevel = lg_level r"

definition query_filters :: "event_query \<Rightarrow> (filter_attr \<times> string) list" where
  "query_filters q =
     List.map_filter (\<lambda>(a, v). case v of None \<Rightarrow> None | Some s \<Rightarrow> Some (a, s))
       [(ByTaskId, q_task_id q), (ByTaskName, q_task_name q), (ByEventType, q_event_type q),
        (ByScope, q_scope q), (ByScopeKey, q_scope_key q), (ByEntity, q_entity q), (ByLevel, q_level q)]"

definition require_unpaginated_query :: "event_query option \<Rightarrow> unit result" where
  "require_unpaginated_query q =
     (case q of
        None \<Rightarrow> Inr ()
      | Some q \<Rightarrow> if is_paginated q \<or> q_order q \<noteq> Asc then Inl QueueConfigurationError else Inr ())"

record retention_rule =
  rule_max_age :: rat
  rule_match :: event_query

text \<open>\<open>QueueEventRetentionRule.__post_init__\<close> on a dynamic \<open>max_age\<close>.\<close>

definition retention_rule_post_init :: "pyval \<Rightarrow> event_query \<Rightarrow> retention_rule result" where
  "retention_rule_post_init max_age q =
     (case optional_float max_age of
        None \<Rightarrow> Inl QueueConfigurationError
      | Some x \<Rightarrow>
          if x \<le> 0 then Inl QueueConfigurationError
          else if is_paginated q \<or> q_order q \<noteq> Asc then Inl QueueConfigurationError
          else Inr \<lparr>rule_max_age = x, rule_match = q\<rparr>)"

definition match_event_record :: "event_log_record \<Rightarrow> event_query option \<Rightarrow> bool" where
  "match_event_record r q \<longleftrightarrow>
     (case q of None \<Rightarrow> True | Some q \<Rightarrow> (\<forall>(a, v) \<in> set (query_filters q). filter_attr_value r a = Some v))"

definition sort_event_records :: "event_order \<Rightarrow> event_log_record list \<Rightarrow> event_log_record list" where
  "sort_event_records order rs =
     (let ordered = sort_key event_log_record_sort_key rs in
      case order of Asc \<Rightarrow> ordered | Desc \<Rightarrow> rev ordered)"

record page =
  page_items :: "event_log_record list"
  page_limit :: int
  page_offset :: int
  page_total :: int

text \<open>The offset and the limit of a validated query are not negative, so the slices are plain.\<close>

definition paginate_event_records :: "event_log_record list \<Rightarrow> event_query option \<Rightarrow> page" where
  "paginate_event_records rs q =
     (let matched = int (length rs) in
      case q of
        None \<Rightarrow> \<lparr>page_items = rs, page_limit = matched, page_offset = 0, page_total = matched\<rparr>
      | Some q \<Rightarrow>
          let window = drop (nat (q_offset q)) rs in
          (case q_limit q of
             None \<Rightarrow> \<lparr>page_items = window, page_limit = matched, page_offset = q_offset q, page_total = matched\<rparr>
           | Some l \<Rightarrow> \<lparr>page_items = take (nat l) window, page_limit = l, page_offset = q_offset q, page_total = matched\<rparr>))"

section \<open>Stage summaries\<close>

record stage_accumulator =
  sa_event_count :: int
  sa_total_duration_ms :: rat
  sa_first_event_at :: "instant option"
  sa_last_event_at :: "instant option"
  sa_latest_sequence :: "int option"
  sa_latest_message :: "string option"
  sa_best_rank :: int
  sa_worst_level :: "string option"

definition empty_accumulator :: stage_accumulator where
  "empty_accumulator = \<lparr>sa_event_count = 0, sa_total_duration_ms = 0, sa_first_event_at = None,
     sa_last_event_at = None, sa_latest_sequence = None, sa_latest_message = None,
     sa_best_rank = 0, sa_worst_level = None\<rparr>"

definition accumulate :: "event_log_record \<Rightarrow> stage_accumulator \<Rightarrow> stage_accumulator" where
  "accumulate r a =
     \<lparr>sa_event_count = sa_event_count a + 1,
      sa_total_duration_ms = sa_total_duration_ms a + (case lg_duration_ms r of None \<Rightarrow> 0 | Some d \<Rightarrow> d),
      sa_first_event_at = (case sa_first_event_at a of
          None \<Rightarrow> Some (lg_occurred_at r)
        | Some t \<Rightarrow> if lg_occurred_at r < t then Some (lg_occurred_at r) else Some t),
      sa_last_event_at = (case sa_last_event_at a of
          None \<Rightarrow> Some (lg_occurred_at r)
        | Some t \<Rightarrow> if lg_occurred_at r \<ge> t then Some (lg_occurred_at r) else Some t),
      sa_latest_sequence = lg_sequence r, sa_latest_message = lg_message r,
      sa_best_rank = max (sa_best_rank a) (event_level_rank (lg_level r)),
      sa_worst_level = (if event_level_rank (lg_level r) \<ge> sa_best_rank a then lg_level r else sa_worst_level a)\<rparr>"

definition summarize_step ::
    "event_log_record \<Rightarrow> (string option \<times> stage_accumulator) list \<Rightarrow> (string option \<times> stage_accumulator) list" where
  "summarize_step r stages =
     (case dict_get stages (lg_stage r) of
        None \<Rightarrow> dict_set (lg_stage r) (accumulate r empty_accumulator) stages
      | Some a \<Rightarrow> dict_set (lg_stage r) (accumulate r a) stages)"

text \<open>
  A summary is the stage with its accumulator (the record \<open>QueueEventStageSummary\<close> copies the
  fields one by one); \<open>None\<close> sorts first.
\<close>

definition summarize_event_records ::
    "event_log_record list \<Rightarrow> (string option \<times> stage_accumulator) list" where
  "summarize_event_records rs =
     sort_key (\<lambda>(stage, a). (stage \<noteq> None, case stage of None \<Rightarrow> [] | Some s \<Rightarrow> s))
       (fold summarize_step (sort_event_records Asc rs) [])"

section \<open>The in-memory history\<close>

record history_config =
  hc_batch_size :: int
  hc_flush_interval :: rat
  hc_strict :: bool
  hc_memory_capacity :: int
  hc_extra_columns :: "extra_column list"
  hc_max_pending :: int

definition history_config_post_init :: "history_config \<Rightarrow> history_config result" where
  "history_config_post_init c =
     (if hc_batch_size c \<le> 0 then Inl QueueConfigurationError
      else if hc_flush_interval c \<le> 0 then Inl QueueConfigurationError
      else if hc_max_pending c < hc_batch_size c then Inl QueueConfigurationError
      else if hc_memory_capacity c \<le> 0 then Inl QueueConfigurationError
      else case validate_event_history_extra_columns (hc_extra_columns c) of
             Inl e \<Rightarrow> Inl e
           | Inr cols \<Rightarrow> Inr (c\<lparr>hc_extra_columns := cols\<rparr>))"

definition publish_event ::
    "(pyval \<Rightarrow> string) \<Rightarrow> history_config \<Rightarrow> instant \<Rightarrow> queue_event \<Rightarrow> event_log_record list \<Rightarrow>
     event_log_record list" where
  "publish_event to_str c now e rs =
     (let rs' = rs @ [event_log_record_from_event to_str (hc_extra_columns c) now e];
          overflow = int (length rs') - hc_memory_capacity c
      in if overflow > 0 then drop (nat overflow) rs' else rs')"

definition query_events ::
    "history_config \<Rightarrow> event_query option \<Rightarrow> (string \<times> string) list option \<Rightarrow> event_log_record list \<Rightarrow>
     page result" where
  "query_events c q extra rs =
     (case validate_event_extra_filter extra (hc_extra_columns c) of
        Inl e \<Rightarrow> Inl e
      | Inr resolved \<Rightarrow>
          let matched = filter (\<lambda>r. match_event_record r q) rs;
              matched = (if resolved = [] then matched
                         else filter (\<lambda>r. event_extra_filter_matches r resolved) matched);
              ordered = sort_event_records (case q of None \<Rightarrow> Asc | Some q \<Rightarrow> q_order q) matched
          in Inr (paginate_event_records ordered q))"

definition summarize_stages ::
    "event_query option \<Rightarrow> event_log_record list \<Rightarrow> (string option \<times> stage_accumulator) list result" where
  "summarize_stages q rs =
     (case require_unpaginated_query q of
        Inl e \<Rightarrow> Inl e
      | Inr _ \<Rightarrow> Inr (summarize_event_records (filter (\<lambda>r. match_event_record r q) rs)))"

text \<open>
  The code deletes by object identity; the position in the list is the identity here.
\<close>

definition event_doomed :: "instant \<Rightarrow> event_query option \<Rightarrow> event_query list \<Rightarrow> event_log_record \<Rightarrow> bool" where
  "event_doomed before match exclude r \<longleftrightarrow>
     lg_occurred_at r < before \<and> match_event_record r match \<and>
     \<not> (\<exists>other \<in> set exclude. match_event_record r (Some other))"

definition cleanup_targets ::
    "instant \<Rightarrow> event_query option \<Rightarrow> event_query list \<Rightarrow> int option \<Rightarrow> event_log_record list \<Rightarrow>
     (nat \<times> event_log_record) list" where
  "cleanup_targets before match exclude limit rs =
     (let doomed = sort_key (\<lambda>(i, r). event_log_record_sort_key r)
            (filter (\<lambda>(i, r). event_doomed before match exclude r) (zip [0..<length rs] rs))
      in take_limit limit doomed)"

definition cleanup_events ::
    "instant \<Rightarrow> event_query option \<Rightarrow> event_query list \<Rightarrow> int option \<Rightarrow> event_log_record list \<Rightarrow>
     nat \<times> event_log_record list" where
  "cleanup_events before match exclude limit rs =
     (let doomed = cleanup_targets before match exclude limit rs in
      if doomed = [] then (0, rs)
      else (length doomed,
            map snd (filter (\<lambda>(i, r). i \<notin> set (map fst doomed)) (zip [0..<length rs] rs))))"

section \<open>Bounded history\<close>

lemma publish_event_suffix:
  assumes "0 \<le> hc_memory_capacity c"
  shows "publish_event f c now e rs =
    (let rs' = rs @ [event_log_record_from_event f (hc_extra_columns c) now e]
     in drop (length rs' - nat (hc_memory_capacity c)) rs')"
proof -
  have "(if int (length xs) - hc_memory_capacity c > 0
      then drop (nat (int (length xs) - hc_memory_capacity c)) xs else xs)
      = drop (length xs - nat (hc_memory_capacity c)) xs" for xs :: "event_log_record list"
  proof -
    have "nat (int (length xs) - hc_memory_capacity c) = length xs - nat (hc_memory_capacity c)"
      using assms by arith
    then show ?thesis by auto
  qed
  then show ?thesis by (simp only: publish_event_def Let_def)
qed

lemma drop_append_suffix:
  "drop (length (drop (length xs - n) xs @ [x]) - n) (drop (length xs - n) xs @ [x])
     = drop (length (xs @ [x]) - n) (xs @ [x])"
  by (cases "n \<le> length xs") (auto simp: Suc_diff_le)

lemma publish_all:
  assumes "0 \<le> hc_memory_capacity c"
  shows "fold (\<lambda>(now, e). publish_event f c now e) es [] =
    (let rs = map (\<lambda>(now, e). event_log_record_from_event f (hc_extra_columns c) now e) es
     in drop (length rs - nat (hc_memory_capacity c)) rs)"
proof (induction es rule: rev_induct)
  case Nil
  then show ?case by simp
next
  case (snoc x es)
  let ?g = "\<lambda>(now, e). event_log_record_from_event f (hc_extra_columns c) now e"
  let ?n = "nat (hc_memory_capacity c)"
  have "fold (\<lambda>(now, e). publish_event f c now e) (es @ [x]) [] =
      (\<lambda>(now, e). publish_event f c now e) x (drop (length (map ?g es) - ?n) (map ?g es))"
    using snoc by (simp add: Let_def)
  also have "\<dots> = drop (length (drop (length (map ?g es) - ?n) (map ?g es) @ [?g x]) - ?n)
      (drop (length (map ?g es) - ?n) (map ?g es) @ [?g x])"
    by (simp only: case_prod_beta publish_event_suffix [OF assms] Let_def)
  also have "\<dots> = drop (length (map ?g es @ [?g x]) - ?n) (map ?g es @ [?g x])"
    by (rule drop_append_suffix)
  finally show ?case by (simp only: Let_def map_append list.map)
qed

section \<open>Sorting and slicing\<close>

lemma sorted_event_records: "sorted (map event_log_record_sort_key (sort_event_records Asc rs))"
  by (simp add: sort_event_records_def)

lemma mset_event_records [simp]: "set (sort_event_records o' rs) = set rs" "length (sort_event_records o' rs) = length rs"
  by (cases o'; simp add: sort_event_records_def)+

lemma concat_slices:
  assumes "0 < l" and "length xs \<le> n * l"
  shows "concat (map (\<lambda>k. take l (drop (k * l) xs)) [0..<n]) = xs"
proof -
  have "concat (map (\<lambda>k. take l (drop (k * l) xs)) [0..<n]) = take (n * l) xs" for n
  proof (induction n)
    case (Suc n)
    have "take (n * l + l) xs = take (n * l) xs @ take l (drop (n * l) xs)" by (rule take_add)
    moreover have "Suc n * l = n * l + l" by simp
    ultimately show ?case using Suc by (simp only: upt_Suc_append map_append concat_append) simp
  qed simp
  with assms(2) show ?thesis by simp
qed

section \<open>Deleting in order\<close>

text \<open>The deletion of the first \<open>n\<close> elements, by key, that satisfy a predicate.\<close>

definition first_by :: "('a \<Rightarrow> 'k::linorder) \<Rightarrow> ('a \<Rightarrow> bool) \<Rightarrow> nat \<Rightarrow> 'a list \<Rightarrow> 'a list" where
  "first_by k P n xs = take n (sort_key k (filter P xs))"

definition delete_by :: "('a \<Rightarrow> 'k::linorder) \<Rightarrow> ('a \<Rightarrow> bool) \<Rightarrow> nat \<Rightarrow> 'a list \<Rightarrow> 'a list" where
  "delete_by k P n xs = filter (\<lambda>x. x \<notin> set (first_by k P n xs)) xs"

lemma insort_key_map: "map f (insort_key (\<lambda>x. k (f x)) x xs) = insort_key k (f x) (map f xs)"
  by (induction xs) simp_all

lemma sort_key_map: "map f (sort_key (\<lambda>x. k (f x)) xs) = sort_key k (map f xs)"
  by (induction xs) (simp_all add: insort_key_map)

lemma filter_not_take:
  "distinct ys \<Longrightarrow> filter (\<lambda>x. x \<notin> set (take n ys)) ys = drop n ys"
proof (induction ys arbitrary: n)
  case (Cons y ys)
  show ?case
  proof (cases n)
    case (Suc m)
    have "filter (\<lambda>x. x \<noteq> y \<and> x \<notin> set (take m ys)) ys = filter (\<lambda>x. x \<notin> set (take m ys)) ys"
      using Cons.prems by (intro filter_cong) auto
    with Suc Cons show ?thesis by simp
  qed simp
qed simp

lemma first_by_delete:
  assumes "distinct xs"
  shows "first_by k P m (delete_by k P n xs) = take m (drop n (sort_key k (filter P xs)))"
proof -
  let ?S = "sort_key k (filter P xs)"
  have "filter P (delete_by k P n xs) = filter (\<lambda>x. x \<notin> set (take n ?S)) (filter P xs)"
    by (simp add: delete_by_def first_by_def conj_commute)
  then have "sort_key k (filter P (delete_by k P n xs)) = filter (\<lambda>x. x \<notin> set (take n ?S)) ?S"
    by (simp only: filter_sort)
  also have "\<dots> = drop n ?S" using assms by (intro filter_not_take) simp
  finally show ?thesis by (simp add: first_by_def)
qed

lemma delete_by_twice:
  assumes "distinct xs"
  shows "delete_by k P m (delete_by k P n xs) = delete_by k P (n + m) xs"
    and "length (first_by k P n xs) + length (first_by k P m (delete_by k P n xs)) = length (first_by k P (n + m) xs)"
proof -
  let ?S = "sort_key k (filter P xs)"
  have "set (take (n + m) ?S) = set (take n ?S) \<union> set (take m (drop n ?S))"
    by (simp add: take_add)
  then show "delete_by k P m (delete_by k P n xs) = delete_by k P (n + m) xs"
    unfolding delete_by_def [of k P m] first_by_delete [OF assms]
    by (simp add: delete_by_def first_by_def conj_commute)
  show "length (first_by k P n xs) + length (first_by k P m (delete_by k P n xs)) = length (first_by k P (n + m) xs)"
    unfolding first_by_delete [OF assms] by (simp only: first_by_def take_add length_append)
qed

lemma first_by_map:
  "first_by k P n (map h xs) = map h (first_by (\<lambda>x. k (h x)) (\<lambda>x. P (h x)) n xs)"
  by (simp add: first_by_def filter_map comp_def sort_key_map [symmetric] take_map)

lemma delete_by_map:
  assumes "inj_on h (set xs)"
  shows "delete_by k P n (map h xs) = map h (delete_by (\<lambda>x. k (h x)) (\<lambda>x. P (h x)) n xs)"
proof -
  let ?first = "set (first_by (\<lambda>x. k (h x)) (\<lambda>x. P (h x)) n xs)"
  have sub: "?first \<subseteq> set xs" by (auto simp: first_by_def dest: in_set_takeD)
  have "h x \<in> h ` ?first \<longleftrightarrow> x \<in> ?first" if "x \<in> set xs" for x
    using inj_on_image_mem_iff [OF assms that sub] .
  then show ?thesis by (simp add: delete_by_def first_by_map filter_map comp_def cong: filter_cong)
qed

text \<open>The retention step is such a deletion on the records tagged with their position.\<close>

abbreviation tagged :: "event_log_record list \<Rightarrow> (nat \<times> event_log_record) list" where
  "tagged rs \<equiv> zip [0..<length rs] rs"

definition tag_key :: "nat \<times> event_log_record \<Rightarrow> instant \<times> int \<times> string" where
  "tag_key = (\<lambda>(i, r). event_log_record_sort_key r)"

definition tag_doomed :: "instant \<Rightarrow> event_query option \<Rightarrow> event_query list \<Rightarrow> nat \<times> event_log_record \<Rightarrow> bool" where
  "tag_doomed before match exclude = (\<lambda>(i, r). event_doomed before match exclude r)"

lemma cleanup_targets_first_by:
  "0 \<le> l \<Longrightarrow> cleanup_targets before match exclude (Some l) rs =
     first_by tag_key (tag_doomed before match exclude) (nat l) (tagged rs)"
  by (simp add: cleanup_targets_def first_by_def tag_key_def tag_doomed_def py_take_def)

lemma tagged_distinct: "distinct (map fst (tagged rs))" "distinct (tagged rs)"
  by (simp_all add: distinct_zipI1)

lemma fst_mem_iff:
  assumes "distinct (map fst xs)" and "set ys \<subseteq> set xs" and "x \<in> set xs"
  shows "fst x \<in> fst ` set ys \<longleftrightarrow> x \<in> set ys"
proof -
  have "inj_on fst (set xs)" using assms(1) by (simp add: distinct_map)
  from inj_on_image_mem_iff [OF this assms(3,2)] show ?thesis .
qed

lemma cleanup_events_delete_by:
  assumes "0 \<le> l"
  shows "cleanup_events before match exclude (Some l) rs =
    (length (first_by tag_key (tag_doomed before match exclude) (nat l) (tagged rs)),
     map snd (delete_by tag_key (tag_doomed before match exclude) (nat l) (tagged rs)))"
proof -
  let ?F = "first_by tag_key (tag_doomed before match exclude) (nat l) (tagged rs)"
  have sub: "set ?F \<subseteq> set (tagged rs)" by (auto simp: first_by_def dest: in_set_takeD)
  have "filter (\<lambda>x. fst x \<notin> set (map fst ?F)) (tagged rs) = delete_by tag_key (tag_doomed before match exclude) (nat l) (tagged rs)"
    unfolding delete_by_def using fst_mem_iff [OF tagged_distinct(1) sub] by (intro filter_cong) simp_all
  moreover have "?F = [] \<Longrightarrow> map snd (delete_by tag_key (tag_doomed before match exclude) (nat l) (tagged rs)) = rs"
    by (simp add: delete_by_def)
  ultimately show ?thesis
    by (auto simp add: cleanup_events_def cleanup_targets_first_by [OF assms] case_prod_unfold Let_def)
qed

lemma delete_by_retagged:
  assumes "distinct (map fst xs)"
  shows "map snd (delete_by tag_key (tag_doomed b m e) n (tagged (map snd xs))) =
      map snd (delete_by tag_key (tag_doomed b m e) n xs)"
    and "length (first_by tag_key (tag_doomed b m e) n (tagged (map snd xs))) =
      length (first_by tag_key (tag_doomed b m e) n xs)"
proof -
  define pos where "pos i = the (map_of (zip (map fst xs) [0..<length xs]) i)" for i
  let ?h = "\<lambda>(i, r). (pos i, r)"
  have pos: "pos (fst (xs ! j)) = j" if "j < length xs" for j
    using that assms map_of_zip_nth [of "map fst xs" "[0..<length xs]" j] by (simp add: pos_def)
  have tag: "tagged (map snd xs) = map ?h xs"
    by (rule nth_equalityI) (simp_all add: pos case_prod_beta)
  have inj: "inj_on ?h (set xs)"
  proof (rule inj_onI)
    fix x y assume "x \<in> set xs" "y \<in> set xs" "?h x = ?h y"
    then obtain j k where "j < length xs" "k < length xs" "x = xs ! j" "y = xs ! k" by (metis in_set_conv_nth)
    with \<open>?h x = ?h y\<close> pos show "x = y" by (auto simp: case_prod_beta)
  qed
  have k: "(\<lambda>x. tag_key (?h x)) = tag_key" "(\<lambda>x. tag_doomed b m e (?h x)) = tag_doomed b m e"
    by (auto simp: tag_key_def tag_doomed_def)
  show "map snd (delete_by tag_key (tag_doomed b m e) n (tagged (map snd xs))) =
      map snd (delete_by tag_key (tag_doomed b m e) n xs)"
    unfolding tag delete_by_map [OF inj] k by (simp add: case_prod_beta)
  show "length (first_by tag_key (tag_doomed b m e) n (tagged (map snd xs))) =
      length (first_by tag_key (tag_doomed b m e) n xs)"
    unfolding tag first_by_map k by simp
qed

section \<open>Summaries\<close>

lemma summarize_step_lookup:
  "dict_get (summarize_step r d) st =
     (if lg_stage r = st
      then Some (accumulate r (case dict_get d st of None \<Rightarrow> empty_accumulator | Some a \<Rightarrow> a))
      else dict_get d st)"
  by (auto simp: summarize_step_def dict_simps split: option.split)

lemma summarize_lookup:
  "dict_get (fold summarize_step rs d) st =
     (let g = filter (\<lambda>r. lg_stage r = st) rs in
      if g = [] then dict_get d st
      else Some (fold accumulate g (case dict_get d st of None \<Rightarrow> empty_accumulator | Some a \<Rightarrow> a)))"
proof (induction rs arbitrary: d)
  case (Cons r rs)
  show ?case by (simp add: Cons.IH [of "summarize_step r d"] Let_def summarize_step_lookup)
qed simp

lemma summarize_keys: "distinct (dict_keys d) \<Longrightarrow> distinct (dict_keys (fold summarize_step rs d))"
  by (induction rs arbitrary: d) (simp_all add: summarize_step_def split: option.split)

definition duration_of :: "event_log_record \<Rightarrow> rat" where
  "duration_of r = (case lg_duration_ms r of None \<Rightarrow> 0 | Some d \<Rightarrow> d)"

abbreviation rank_of :: "event_log_record \<Rightarrow> int" where
  "rank_of r \<equiv> event_level_rank (lg_level r)"

text \<open>What a stage summary says of the records \<open>g\<close> of the stage, in stable order.\<close>

definition summary_of :: "event_log_record list \<Rightarrow> stage_accumulator \<Rightarrow> bool" where
  "summary_of g a \<longleftrightarrow>
     sa_event_count a = int (length g) \<and> sa_total_duration_ms a = sum_list (map duration_of g) \<and>
     sa_first_event_at a = Some (Min (lg_occurred_at ` set g)) \<and>
     sa_last_event_at a = Some (Max (lg_occurred_at ` set g)) \<and>
     sa_latest_sequence a = lg_sequence (last g) \<and> sa_latest_message a = lg_message (last g) \<and>
     sa_best_rank a = Max (rank_of ` set g) \<and> event_level_rank (sa_worst_level a) = Max (rank_of ` set g)"

lemma event_level_rank_nonneg [simp]: "0 \<le> event_level_rank l"
  by (auto simp: event_level_rank_def EVENT_LEVEL_RANKS_def split: option.splits)

lemma summary_first: "summary_of [r] (accumulate r empty_accumulator)"
  by (simp add: summary_of_def accumulate_def empty_accumulator_def duration_of_def)

lemma summary_next:
  assumes "g \<noteq> []" and "summary_of g a"
  shows "summary_of (g @ [r]) (accumulate r a)"
proof -
  have ne: "f ` set g \<noteq> {}" for f :: "event_log_record \<Rightarrow> int" using assms(1) by simp
  have max: "Max (f ` set (g @ [r])) = max (f r) (Max (f ` set g))" for f :: "event_log_record \<Rightarrow> int"
    using ne [of f] by simp
  have min: "Min (f ` set (g @ [r])) = min (f r) (Min (f ` set g))" for f :: "event_log_record \<Rightarrow> int"
    using ne [of f] by simp
  show ?thesis
    using assms(2) unfolding summary_of_def max min
    by (simp add: accumulate_def duration_of_def max_def min_def)
qed

lemma fold_accumulate:
  "g \<noteq> [] \<Longrightarrow> summary_of g (fold accumulate g empty_accumulator)"
proof (induction g rule: rev_induct)
  case (snoc r g)
  show ?case
  proof (cases "g = []")
    case True
    then show ?thesis by (simp add: summary_first)
  next
    case False
    with snoc show ?thesis by (simp add: summary_next)
  qed
qed simp

lemma summarize_result:
  "dict_get (summarize_event_records rs) st = dict_get (fold summarize_step (sort_event_records Asc rs) []) st"
  "distinct (dict_keys (summarize_event_records rs))"
proof -
  let ?d = "fold summarize_step (sort_event_records Asc rs) []"
  let ?s = "summarize_event_records rs"
  have d: "distinct (dict_keys ?d)" by (rule summarize_keys) simp
  have "set ?s = set ?d" by (simp add: summarize_event_records_def)
  moreover have m: "mset ?s = mset ?d" by (simp add: summarize_event_records_def)
  have "mset (dict_keys ?s) = mset (dict_keys ?d)" using m by (metis mset_map)
  with d show k: "distinct (dict_keys ?s)" using mset_eq_imp_distinct_iff by blast
  ultimately show "dict_get ?s st = dict_get ?d st" using map_of_inject_set [OF k d] by simp
qed

lemma cleanup_events_all:
  assumes "0 \<le> l" and "cleanup_events before match exclude (Some l) rs = (n, rs')" and "int n < l"
  shows "rs' = filter (\<lambda>r. \<not> event_doomed before match exclude r) rs"
proof -
  let ?k = tag_key and ?P = "tag_doomed before match exclude"
  let ?F = "first_by ?k ?P (nat l) (tagged rs)"
  have out: "n = length ?F" "rs' = map snd (delete_by ?k ?P (nat l) (tagged rs))"
    using assms(2) by (simp_all add: cleanup_events_delete_by [OF assms(1)])
  have "length ?F < nat l" using assms(3) out(1) by simp
  then have "?F = sort_key ?k (filter ?P (tagged rs))" by (simp add: first_by_def)
  then have "set ?F = set (filter ?P (tagged rs))" by simp
  then have "delete_by ?k ?P (nat l) (tagged rs) = filter (\<lambda>x. \<not> ?P x) (tagged rs)"
    unfolding delete_by_def by (intro filter_cong) auto
  moreover have "map snd (filter (\<lambda>x. \<not> ?P x) xs) = filter (\<lambda>r. \<not> event_doomed before match exclude r) (map snd xs)" for xs
    by (induction xs) (auto simp: tag_doomed_def)
  ultimately show ?thesis using out(2) by simp
qed

lemma cleanup_events_law:
  assumes "0 \<le> l" and "cleanup_events before match exclude (Some l) rs = (n, rs')"
  shows "filter (\<lambda>r. \<not> event_doomed before match exclude r) rs' =
      filter (\<lambda>r. \<not> event_doomed before match exclude r) rs \<and>
    int n \<le> l \<and> length rs' + n = length rs"
proof -
  let ?k = tag_key and ?P = "tag_doomed before match exclude"
  let ?F = "first_by ?k ?P (nat l) (tagged rs)"
  have out: "n = length ?F" "rs' = map snd (delete_by ?k ?P (nat l) (tagged rs))"
    using assms(2) by (simp_all add: cleanup_events_delete_by [OF assms(1)])
  have doomed: "x \<in> set (tagged rs) \<and> ?P x" if "x \<in> set ?F" for x
    using that by (auto simp: first_by_def dest: in_set_takeD)
  have keep: "filter (\<lambda>x. \<not> ?P x) (delete_by ?k ?P (nat l) (tagged rs)) = filter (\<lambda>x. \<not> ?P x) (tagged rs)"
    unfolding delete_by_def filter_filter by (rule filter_cong [OF refl]) (use doomed in blast)
  have snd: "map snd (filter (\<lambda>x. \<not> ?P x) xs) = filter (\<lambda>r. \<not> event_doomed before match exclude r) (map snd xs)" for xs
    by (simp add: filter_map comp_def tag_doomed_def case_prod_unfold)
  have "length (filter (\<lambda>x. x \<notin> set ?F) (tagged rs)) + length (filter (\<lambda>x. x \<in> set ?F) (tagged rs)) = length rs"
    using sum_length_filter_compl [of "\<lambda>x. x \<in> set ?F" "tagged rs"] by simp
  moreover have "length (filter (\<lambda>x. x \<in> set ?F) (tagged rs)) = length ?F"
  proof -
    have "distinct ?F" using tagged_distinct(2) [of rs] by (simp add: first_by_def)
    moreover have "set (filter (\<lambda>x. x \<in> set ?F) (tagged rs)) = set ?F" using doomed by auto
    moreover have "distinct (filter (\<lambda>x. x \<in> set ?F) (tagged rs))" using tagged_distinct(2) [of rs] by simp
    ultimately show ?thesis by (metis distinct_card)
  qed
  ultimately have "length rs' + n = length rs" by (simp add: out delete_by_def)
  moreover have "int n \<le> l" using assms(1) by (simp add: out first_by_def)
  moreover have "filter (\<lambda>r. \<not> event_doomed before match exclude r) rs' =
      filter (\<lambda>r. \<not> event_doomed before match exclude r) rs"
    unfolding out(2) snd [symmetric] keep by (simp add: snd)
  ultimately show ?thesis by blast
qed

section \<open>Properties\<close>

text \<open>the in-memory history never holds more than its capacity, and what it holds are
  exactly the latest published events, in publication order.\<close>

theorem history_keeps_latest:
  assumes "history_config_post_init c0 = Inr c"
  shows "fold (\<lambda>(now, e). publish_event to_str c now e) es [] =
      drop (length es - nat (hc_memory_capacity c))
        (map (\<lambda>(now, e). event_log_record_from_event to_str (hc_extra_columns c) now e) es) \<and>
    int (length (fold (\<lambda>(now, e). publish_event to_str c now e) es [])) \<le> hc_memory_capacity c"
proof -
  have cap: "0 < hc_memory_capacity c"
    using assms by (auto simp: history_config_post_init_def split: if_splits sum.splits)
  then show ?thesis using publish_all [of c to_str es] by (simp add: Let_def)
qed

text \<open>pages of a query tile the full result: with page size \<open>l\<close>, the pages at offsets
  0, \<open>l\<close>, 2\<open>l\<close>, ... concatenate to exactly the matching records in the requested stable order, and
  every page reports the same total.\<close>

theorem pages_cover_history:
  assumes l: "0 < l" and n: "length rs \<le> n * l"
    and extra: "validate_event_extra_filter extra (hc_extra_columns c) = Inr resolved"
  shows "concat (map (\<lambda>k. case query_events c (Some (q\<lparr>q_limit := Some (int l), q_offset := int (k * l)\<rparr>)) extra rs of
        Inl e \<Rightarrow> [] | Inr p \<Rightarrow> page_items p) [0..<n]) =
      sort_event_records (q_order q)
        (filter (\<lambda>r. match_event_record r (Some q) \<and> event_extra_filter_matches r resolved) rs) \<and>
    (\<forall>k. \<exists>p. query_events c (Some (q\<lparr>q_limit := Some (int l), q_offset := int (k * l)\<rparr>)) extra rs = Inr p \<and>
       page_total p = int (length (filter (\<lambda>r. match_event_record r (Some q) \<and>
         event_extra_filter_matches r resolved) rs)))"
proof -
  let ?q = "\<lambda>k. q\<lparr>q_limit := Some (int l), q_offset := int (k * l)\<rparr>"
  let ?full = "sort_event_records (q_order q)
    (filter (\<lambda>r. match_event_record r (Some q) \<and> event_extra_filter_matches r resolved) rs)"
  have match: "match_event_record r (Some (q\<lparr>q_limit := a, q_offset := b\<rparr>)) = match_event_record r (Some q)"
    for r a b
    by (simp add: match_event_record_def query_filters_def)
  have all: "event_extra_filter_matches r []" for r by (simp add: event_extra_filter_matches_def)
  have page: "query_events c (Some (?q k)) extra rs =
      Inr \<lparr>page_items = take l (drop (k * l) ?full), page_limit = int l, page_offset = int (k * l),
           page_total = int (length ?full)\<rparr>" for k
    by (cases "resolved = []")
      (simp_all add: query_events_def extra match all paginate_event_records_def conj_commute nat_mult_distrib Let_def)
  have "length ?full \<le> n * l" using order_trans [OF length_filter_le n] by simp
  note tiles = concat_slices [OF l this]
  show ?thesis unfolding page sum.case page.simps using tiles by simp
qed

text \<open>a stage summary counts exactly the records of its stage, sums their durations,
  spans their first and last occurrence, quotes the latest record of the stable order and names a
  level of the greatest severity; stages without records have no summary, and no stage has two.\<close>

theorem stage_summary_exact:
  "distinct (map fst (summarize_event_records rs)) \<and>
   (let g = filter (\<lambda>r. lg_stage r = st) (sort_event_records Asc rs) in
    case dict_get (summarize_event_records rs) st of
      None \<Rightarrow> g = []
    | Some a \<Rightarrow> g \<noteq> [] \<and> summary_of g a)"
  using fold_accumulate [of "filter (\<lambda>r. lg_stage r = st) (sort_event_records Asc rs)"]
  by (simp add: summarize_result summarize_lookup Let_def)

text \<open>bounded retention converges: a run deleting at most \<open>l\<close> records followed by a run
  deleting at most \<open>m\<close> has the effect and the total count of one run with the bound \<open>l + m\<close>.\<close>

theorem bounded_cleanups_compose:
  assumes "0 \<le> l" and "0 \<le> m"
    and first: "cleanup_events before match exclude (Some l) rs = (n1, rs1)"
    and second: "cleanup_events before match exclude (Some m) rs1 = (n2, rs2)"
  shows "cleanup_events before match exclude (Some (l + m)) rs = (n1 + n2, rs2)"
proof -
  let ?k = tag_key and ?P = "tag_doomed before match exclude"
  let ?xs = "delete_by ?k ?P (nat l) (tagged rs)"
  have rs1: "rs1 = map snd ?xs" "n1 = length (first_by ?k ?P (nat l) (tagged rs))"
    using first by (simp_all add: cleanup_events_delete_by [OF assms(1)])
  have d: "distinct (map fst ?xs)"
    using tagged_distinct(1) [of rs] by (simp add: delete_by_def distinct_map_filter)
  have "(length (first_by ?k ?P (nat m) ?xs), map snd (delete_by ?k ?P (nat m) ?xs)) = (n2, rs2)"
    using second unfolding rs1(1) cleanup_events_delete_by [OF assms(2)] delete_by_retagged [OF d] .
  with rs1(2) delete_by_twice [where k = ?k and P = ?P and n = "nat l" and m = "nat m", OF tagged_distinct(2) [of rs]] show ?thesis
    using assms by (simp add: cleanup_events_delete_by nat_add_distrib)
qed

text \<open>retention never deletes a record that its filter does not select, that an excluded
  filter matches or that is not older than the cutoff, and deletes at most \<open>l\<close> records.\<close>

theorem cleanup_keeps_others:
  assumes "0 \<le> l" and "cleanup_events before match exclude (Some l) rs = (n, rs')"
  shows "filter (\<lambda>r. \<not> event_doomed before match exclude r) rs' =
      filter (\<lambda>r. \<not> event_doomed before match exclude r) rs \<and>
    int n \<le> l \<and> length rs' + n = length rs"
  using cleanup_events_law [OF assms] by blast

section \<open>Witnesses\<close>

definition ex_history_config :: history_config where
  "ex_history_config = \<lparr>hc_batch_size = 20, hc_flush_interval = 1, hc_strict = False,
     hc_memory_capacity = 2, hc_extra_columns = [\<lparr>col_name = ''tenant'', col_source = ''tenant'', col_indexed = False\<rparr>],
     hc_max_pending = 2000\<rparr>"

definition ex_log_record :: "nat \<Rightarrow> event_log_record" where
  "ex_log_record n = event_log_record_from_event (\<lambda>v. []) [] 0
     (ex_event\<lparr>ev_occurred_at := Naive (int n), ev_level := Some ''info''\<rparr>)"

lemma ex_config_valid: "history_config_post_init ex_history_config = Inr ex_history_config"
  by (simp add: history_config_post_init_def ex_history_config_def validate_event_history_extra_columns_def
      is_unquoted_identifier_part_def EVENT_HISTORY_COLUMN_NAMES_def RESERVED_EVENT_HISTORY_COLUMNS_def
      ascii_lower_def ascii_alpha_def ascii_digit_def) code_simp

theorem history_keeps_latest_witness:
  "length (fold (\<lambda>(now, e). publish_event (\<lambda>v. []) ex_history_config now e)
     [(1, ex_event), (2, ex_event), (3, ex_event)] []) \<le> 2"
  using history_keeps_latest [OF ex_config_valid, of "\<lambda>v. []" "[(1, ex_event), (2, ex_event), (3, ex_event)]"]
  by (simp add: ex_history_config_def)

theorem pages_cover_history_witness:
  "concat (map (\<lambda>k. case query_events ex_history_config (Some (empty_query\<lparr>q_limit := Some (int 1), q_offset := int (k * 1)\<rparr>))
       None [ex_log_record 5, ex_log_record 3] of Inl e \<Rightarrow> [] | Inr p \<Rightarrow> page_items p) [0..<2]) =
     [ex_log_record 3, ex_log_record 5]"
proof -
  have "validate_event_extra_filter None (hc_extra_columns ex_history_config) = Inr []"
    by (simp add: validate_event_extra_filter_def)
  from conjunct1 [OF pages_cover_history [of 1 "[ex_log_record 5, ex_log_record 3]" 2, OF _ _ this, of empty_query]]
  show ?thesis
    by (simp add: match_event_record_def query_filters_def empty_query_def event_extra_filter_matches_def
        sort_event_records_def event_log_record_sort_key_def List.map_filter_simps)
      (simp add: ex_log_record_def event_log_record_from_event_def Let_def)
qed

theorem bounded_cleanups_compose_witness:
  "fst (cleanup_events 10 None [] (Some 2) [ex_log_record 5, ex_log_record 3]) = 2"
proof -
  have sel: "event_doomed 10 None [] (ex_log_record n) \<longleftrightarrow> n < 10"
    "event_log_record_sort_key (ex_log_record n) = (int n, case ev_sequence ex_event of None \<Rightarrow> 0 | Some n \<Rightarrow> n, ev_id ex_event)" for n
    by (simp_all add: event_doomed_def match_event_record_def event_log_record_sort_key_def ex_log_record_def
        event_log_record_from_event_def Let_def)
  have "cleanup_events 10 None [] (Some 1) [ex_log_record 5, ex_log_record 3] = (1, [ex_log_record 5])"
    "cleanup_events 10 None [] (Some 1) [ex_log_record 5] = (1, [])"
    by (simp_all add: cleanup_events_def cleanup_targets_def sel py_take_def upt_conv_Cons)
  from bounded_cleanups_compose [OF _ _ this] show ?thesis by simp
qed

theorem cleanup_keeps_others_witness:
  "ex_log_record 5 \<in> set (snd (cleanup_events 4 None [] (Some 2) [ex_log_record 5, ex_log_record 3]))"
proof -
  obtain n rs where res: "cleanup_events 4 None [] (Some 2) [ex_log_record 5, ex_log_record 3] = (n, rs)"
    by (cases "cleanup_events 4 None [] (Some 2) [ex_log_record 5, ex_log_record 3]")
  have "\<not> event_doomed 4 None [] (ex_log_record 5)"
    by (simp add: event_doomed_def ex_log_record_def event_log_record_from_event_def Let_def)
  then have "ex_log_record 5 \<in> set (filter (\<lambda>r. \<not> event_doomed 4 None [] r) [ex_log_record 5, ex_log_record 3])"
    by simp
  moreover have "filter (\<lambda>r. \<not> event_doomed 4 None [] r) rs =
      filter (\<lambda>r. \<not> event_doomed 4 None [] r) [ex_log_record 5, ex_log_record 3]"
    using cleanup_keeps_others [OF _ res] by simp
  ultimately have "ex_log_record 5 \<in> set (filter (\<lambda>r. \<not> event_doomed 4 None [] r) rs)" by simp
  then have "ex_log_record 5 \<in> set rs" by simp
  then show ?thesis by (simp add: res)
qed

end
