(* ===== verification/Maintenance.thy ===== *)
theory Maintenance
  imports Base_Backend Event_Log
begin

text \<open>
  Maintenance (\<open>maintenance.py\<close>): token-fenced ownership, the fixed phase order, the
  time budget, and the ordered retention rules for the event history. The phases themselves
  (sweeps of the service) are an argument. Durations reported in the summary are left out; the
  budget test before a phase is modelled by its answer. The generic fleet lock of
  \<open>backends/base.py\<close> shares the ownership contract.
\<close>

section \<open>Ownership\<close>

datatype lease_op = Acquire string string int instant | Release string string

fun lease_step ::
    "(string \<Rightarrow> string \<Rightarrow> int \<Rightarrow> instant \<Rightarrow> 's \<Rightarrow> bool \<times> 's) \<Rightarrow> (string \<Rightarrow> string \<Rightarrow> 's \<Rightarrow> bool \<times> 's) \<Rightarrow>
     lease_op \<Rightarrow> 's \<Rightarrow> 's" where
  "lease_step acquire release (Acquire n t ttl now) s = snd (acquire n t ttl now s)"
| "lease_step acquire release (Release n t) s = snd (release n t s)"

text \<open>An operation that leaves the lease of \<open>t\<close> on \<open>n\<close> alone until \<open>deadline\<close>.\<close>

fun spares :: "string \<Rightarrow> string \<Rightarrow> instant \<Rightarrow> lease_op \<Rightarrow> bool" where
  "spares n t deadline (Acquire n' t' ttl now) \<longleftrightarrow> n' = n \<longrightarrow> t' \<noteq> t \<and> now < deadline"
| "spares n t deadline (Release n' t') \<longleftrightarrow> n' = n \<longrightarrow> t' \<noteq> t"

locale ownership =
  fixes acquire :: "string \<Rightarrow> string \<Rightarrow> int \<Rightarrow> instant \<Rightarrow> 's \<Rightarrow> bool \<times> 's"
    and release :: "string \<Rightarrow> string \<Rightarrow> 's \<Rightarrow> bool \<times> 's"
    and holder :: "'s \<Rightarrow> string \<Rightarrow> (string \<times> instant) option"
  assumes granted: "acquire n t ttl now s = (True, s') \<Longrightarrow> holder s' = (holder s)(n \<mapsto> (t, now + ttl))"
    and denied: "acquire n t ttl now s = (False, s') \<Longrightarrow> s' = s"
    and denied_iff: "fst (acquire n t ttl now s) = False \<longleftrightarrow>
      (\<exists>t' until. holder s n = Some (t', until) \<and> now < until \<and> t' \<noteq> t)"
    and released: "release n t s = (ok, s') \<Longrightarrow>
      ok = (\<exists>until. holder s n = Some (t, until)) \<and> holder s' = (if ok then (holder s)(n := None) else holder s)"
begin

lemma lease_survives:
  assumes "holder s n = Some (t, deadline)" and "\<forall>x \<in> set ops. spares n t deadline x"
  shows "holder (fold (lease_step acquire release) ops s) n = Some (t, deadline)"
  using assms
proof (induction ops arbitrary: s)
  case Nil
  then show ?case by simp
next
  case (Cons x ops)
  have "holder (lease_step acquire release x s) n = Some (t, deadline)"
  proof (cases x)
    case (Acquire n' t' ttl now)
    obtain ok s' where a: "acquire n' t' ttl now s = (ok, s')" by (cases "acquire n' t' ttl now s")
    show ?thesis
    proof (cases "n' = n")
      case True
      then have "t \<noteq> t'" "now < deadline" using Cons.prems(2) Acquire by auto
      with Cons.prems(1) True have "fst (acquire n' t' ttl now s) = False" unfolding denied_iff by blast
      with a denied [of n' t' ttl now s s'] show ?thesis using Acquire Cons.prems(1) by simp
    next
      case False
      with a granted [of n' t' ttl now s s'] denied [of n' t' ttl now s s'] Cons.prems(1) Acquire
      show ?thesis by (cases ok) simp_all
    qed
  next
    case (Release n' t')
    obtain ok s' where r: "release n' t' s = (ok, s')" by (cases "release n' t' s")
    have "n' = n \<Longrightarrow> t' \<noteq> t" using Cons.prems(2) Release by simp
    with released [OF r] Cons.prems(1) Release r show ?thesis by (cases "n' = n") auto
  qed
  with Cons.IH Cons.prems(2) show ?case by simp
qed

lemma lease_excludes:
  assumes "acquire n t ttl now s = (True, s1)"
    and "\<forall>x \<in> set ops. spares n t (now + ttl) x" and "t' \<noteq> t" and "now' < now + ttl"
  shows "acquire n t' ttl' now' (fold (lease_step acquire release) ops s1)
    = (False, fold (lease_step acquire release) ops s1)"
proof -
  let ?s = "fold (lease_step acquire release) ops s1"
  have "holder s1 n = Some (t, now + ttl)" using granted [OF assms(1)] by simp
  from lease_survives [OF this assms(2)] have "holder ?s n = Some (t, now + ttl)" .
  with assms(3,4) have "fst (acquire n t' ttl' now' ?s) = False" unfolding denied_iff by blast
  then show ?thesis using denied [of n t' ttl' now' ?s] by (metis prod.collapse)
qed

lemma release_own:
  "release n t s = (ok, s') \<Longrightarrow> holder s' n \<noteq> Some (t, until)"
  using released [of n t s ok s'] by auto

lemma release_other:
  "release n t s = (ok, s') \<Longrightarrow> holder s n = Some (t', until) \<Longrightarrow> t' \<noteq> t \<Longrightarrow> holder s' n = Some (t', until)"
  using released [of n t s ok s'] by auto

end

definition mem_holder :: "mem_state \<Rightarrow> string \<Rightarrow> (string \<times> instant) option" where
  "mem_holder s n = dict_get (mem_maintenances s) n"

lemma mem_holder_set:
  "mem_holder (s\<lparr>mem_maintenances := dict_set n v (mem_maintenances s)\<rparr>) = (mem_holder s)(n \<mapsto> v)"
  "mem_holder (s\<lparr>mem_maintenances := dict_del n (mem_maintenances s)\<rparr>) = (mem_holder s)(n := None)"
  by (auto simp: mem_holder_def dict_simps fun_eq_iff)

interpretation mem_lease: ownership acquire_maintenance release_maintenance mem_holder
  by unfold_locales
    (auto simp: acquire_maintenance_def release_maintenance_def mem_holder_set mem_holder_def [symmetric]
      split: option.splits if_splits)

section \<open>Configuration and phases\<close>

record maintenance_config =
  mc_time_budget :: rat
  mc_coordination_timeout :: rat
  mc_expire_limit :: int
  mc_external_limit :: int
  mc_stale_after :: "rat option"
  mc_stale_limit :: int
  mc_schedules_limit :: int
  mc_terminal_retention :: "rat option"
  mc_terminal_limit :: int
  mc_event_retention_rules :: "retention_rule list"
  mc_event_limit :: int

text \<open>The type tests of \<open>__post_init__\<close> are the types of the fields; the route options are left out.\<close>

definition maintenance_config_post_init :: "maintenance_config \<Rightarrow> maintenance_config result" where
  "maintenance_config_post_init c =
     (if mc_time_budget c \<le> 0 \<or> mc_coordination_timeout c \<le> 0 then Inl QueueConfigurationError
      else if mc_expire_limit c \<le> 0 \<or> mc_external_limit c \<le> 0 \<or> mc_stale_limit c \<le> 0 \<or>
          mc_schedules_limit c \<le> 0 \<or> mc_terminal_limit c \<le> 0 \<or> mc_event_limit c \<le> 0
      then Inl QueueConfigurationError
      else if (case mc_stale_after c of None \<Rightarrow> False | Some x \<Rightarrow> x \<le> 0) \<or>
          (case mc_terminal_retention c of None \<Rightarrow> False | Some x \<Rightarrow> x \<le> 0)
      then Inl QueueConfigurationError
      else if mc_coordination_timeout c \<le> mc_time_budget c then Inl QueueConfigurationError
      else Inr c)"

datatype phase = PExpire | PExternal | PStale | PSchedules | PTerminal | PEvents

definition PHASE_ORDER :: "phase list" where
  "PHASE_ORDER = [PExpire, PExternal, PStale, PSchedules, PTerminal, PEvents]"

fun phase_name :: "phase \<Rightarrow> string" where
  "phase_name PExpire = ''expire''"
| "phase_name PExternal = ''external''"
| "phase_name PStale = ''stale''"
| "phase_name PSchedules = ''schedules''"
| "phase_name PTerminal = ''terminal''"
| "phase_name PEvents = ''events''"

definition select_phases :: "string list option \<Rightarrow> phase list result" where
  "select_phases phases =
     (case phases of
        None \<Rightarrow> Inr PHASE_ORDER
      | Some requested \<Rightarrow>
          if (\<exists>x \<in> set requested. x \<notin> set (map phase_name PHASE_ORDER)) then Inl QueueConfigurationError
          else Inr (filter (\<lambda>p. phase_name p \<in> set requested) PHASE_ORDER))"

fun phase_enabled :: "maintenance_config \<Rightarrow> bool \<Rightarrow> bool \<Rightarrow> bool \<Rightarrow> phase \<Rightarrow> bool" where
  "phase_enabled c external schedules has_log PExpire = True"
| "phase_enabled c external schedules has_log PExternal = external"
| "phase_enabled c external schedules has_log PStale = (mc_stale_after c \<noteq> None)"
| "phase_enabled c external schedules has_log PSchedules = schedules"
| "phase_enabled c external schedules has_log PTerminal = (mc_terminal_retention c \<noteq> None)"
| "phase_enabled c external schedules has_log PEvents = (mc_event_retention_rules c \<noteq> [] \<and> has_log)"

definition terminal_cutoff :: "maintenance_config \<Rightarrow> instant \<Rightarrow> instant option" where
  "terminal_cutoff c start =
     map_option (\<lambda>x. start - timedelta_seconds x) (mc_terminal_retention c)"

datatype phase_status = PhaseCompleted | PhaseSkipped | PhaseFailed | PhasePartial

datatype phase_outcome =
    CountOutcome int
  | ExternalOutcome external_reconciliation_result
  | StaleOutcome stale_recovery_result
  | ScheduleOutcome schedule_assertion_result

record phase_result =
  pr_phase :: phase
  pr_status :: phase_status
  pr_changed :: int
  pr_error :: "string option"
  pr_repair :: "dispatch_repair_result option"

definition bare_result :: "phase \<Rightarrow> phase_status \<Rightarrow> phase_result" where
  "bare_result p st = \<lparr>pr_phase = p, pr_status = st, pr_changed = 0, pr_error = None, pr_repair = None\<rparr>"

definition REPAIR_ERROR_CODE :: string where
  "REPAIR_ERROR_CODE = ''maintenance_repair_failed''"

definition PHASE_ERROR_CODE :: string where
  "PHASE_ERROR_CODE = ''maintenance_phase_failed''"

text \<open>What \<open>_run_phase\<close> makes of an outcome, or of the type name of a raised exception.\<close>

definition phase_result_of :: "phase \<Rightarrow> string + phase_outcome \<Rightarrow> phase_result" where
  "phase_result_of p out =
     (case out of
        Inl exc \<Rightarrow> (bare_result p PhaseFailed)\<lparr>pr_error := Some (PHASE_ERROR_CODE @ '':'' @ exc)\<rparr>
      | Inr (CountOutcome n) \<Rightarrow> (bare_result p PhaseCompleted)\<lparr>pr_changed := n\<rparr>
      | Inr (ExternalOutcome r) \<Rightarrow>
          let repair = er_repair r in
          \<lparr>pr_phase = p,
           pr_status = (if dr_failed repair \<noteq> 0 then PhaseFailed
                        else if dr_limit_reached repair then PhasePartial else PhaseCompleted),
           pr_changed = reconciliation_changed r,
           pr_error = (if dr_failed repair \<noteq> 0 then Some REPAIR_ERROR_CODE else None),
           pr_repair = Some repair\<rparr>
      | Inr (StaleOutcome r) \<Rightarrow>
          let failed = (case sr_repair r of None \<Rightarrow> False | Some d \<Rightarrow> dr_failed d > 0) in
          \<lparr>pr_phase = p, pr_status = (if failed then PhaseFailed else PhaseCompleted),
           pr_changed = sr_requeued r + sr_failed r,
           pr_error = (if failed then Some REPAIR_ERROR_CODE else None), pr_repair = sr_repair r\<rparr>
      | Inr (ScheduleOutcome r) \<Rightarrow>
          let failed = (case sa_repair r of None \<Rightarrow> False | Some d \<Rightarrow> dr_failed d > 0);
              partial = (case sa_repair r of None \<Rightarrow> False | Some d \<Rightarrow> dr_limit_reached d) in
          \<lparr>pr_phase = p,
           pr_status = (if failed then PhaseFailed else if partial then PhasePartial else PhaseCompleted),
           pr_changed = assertion_changed r,
           pr_error = (if failed then Some REPAIR_ERROR_CODE else None), pr_repair = sa_repair r\<rparr>)"

section \<open>A maintenance run\<close>

text \<open>
  The loop over the phases: \<open>late n\<close> is the answer of the \<open>n\<close>-th budget test, which is no
  longer made once a test was positive; \<open>exec\<close> is \<open>_execute_phase\<close>.
\<close>

fun phase_loop ::
    "(phase \<Rightarrow> bool) \<Rightarrow> (nat \<Rightarrow> bool) \<Rightarrow> (phase \<Rightarrow> 's \<Rightarrow> (string + phase_outcome) \<times> 's) \<Rightarrow> nat \<Rightarrow> bool \<Rightarrow>
     phase list \<Rightarrow> 's \<Rightarrow> phase_result list \<times> 's" where
  "phase_loop enabled late exec n exhausted [] s = ([], s)"
| "phase_loop enabled late exec n exhausted (p # ps) s =
     (if \<not> enabled p
      then let (rs, s') = phase_loop enabled late exec n exhausted ps s in (bare_result p PhaseSkipped # rs, s')
      else if exhausted
      then let (rs, s') = phase_loop enabled late exec n True ps s in (bare_result p PhasePartial # rs, s')
      else if late n
      then let (rs, s') = phase_loop enabled late exec (Suc n) True ps s in (bare_result p PhasePartial # rs, s')
      else let (out, s1) = exec p s;
               (rs, s') = phase_loop enabled late exec (Suc n) False ps s1
           in (phase_result_of p out # rs, s'))"

datatype run_outcome = RunCompleted | RunFailed | RunPartial | RunAlreadyRunning

record maintenance_summary =
  ms_outcome :: run_outcome
  ms_acquired :: bool
  ms_phases :: "phase_result list"

definition final_outcome :: "phase_result list \<Rightarrow> run_outcome" where
  "final_outcome rs =
     (if \<exists>r \<in> set rs. pr_status r = PhaseFailed then RunFailed
      else if \<exists>r \<in> set rs. pr_status r = PhasePartial then RunPartial else RunCompleted)"

definition maintenance_run ::
    "(string \<Rightarrow> string \<Rightarrow> int \<Rightarrow> instant \<Rightarrow> 's \<Rightarrow> bool \<times> 's) \<Rightarrow> (string \<Rightarrow> string \<Rightarrow> 's \<Rightarrow> bool \<times> 's) \<Rightarrow> capabilities \<Rightarrow>
     maintenance_config \<Rightarrow> string \<Rightarrow> string \<Rightarrow> instant \<Rightarrow> (phase \<Rightarrow> bool) \<Rightarrow> (nat \<Rightarrow> bool) \<Rightarrow>
     (phase \<Rightarrow> 's \<Rightarrow> (string + phase_outcome) \<times> 's) \<Rightarrow> string list option \<Rightarrow> 's \<Rightarrow> maintenance_summary result \<times> 's" where
  "maintenance_run acquire release caps c name token now enabled late exec phases s =
     (case select_phases phases of
        Inl e \<Rightarrow> (Inl e, s)
      | Inr selected \<Rightarrow>
          if \<not> supports_maintenance caps then (Inl QueueConfigurationError, s)
          else
            let (ok, s1) = acquire name token (timedelta_seconds (mc_coordination_timeout c)) now s in
            if \<not> ok
            then (Inr \<lparr>ms_outcome = RunAlreadyRunning, ms_acquired = False,
                       ms_phases = map (\<lambda>p. bare_result p PhaseSkipped) selected\<rparr>, s1)
            else
              let (rs, s2) = phase_loop enabled late exec 0 False selected s1;
                  (_, s3) = release name token s2
              in (Inr \<lparr>ms_outcome = final_outcome rs, ms_acquired = True, ms_phases = rs\<rparr>, s3))"

lemma phase_loop_exhausted:
  "phase_loop enabled late exec n True ps s =
     (map (\<lambda>p. bare_result p (if enabled p then PhasePartial else PhaseSkipped)) ps, s)"
  by (induction ps arbitrary: n) simp_all

lemma phase_result_phase [simp]: "pr_phase (phase_result_of p out) = p" "pr_phase (bare_result p st) = p"
  by (simp_all add: phase_result_of_def bare_result_def Let_def split: sum.split phase_outcome.split)

lemma phase_loop_phases:
  "phase_loop enabled late exec n exhausted ps s = (rs, s') \<Longrightarrow> map pr_phase rs = ps"
  by (induction ps arbitrary: n exhausted s rs) (auto split: if_splits prod.splits)

lemma phase_loop_skipped:
  "phase_loop enabled late exec n exhausted ps s = (rs, s') \<Longrightarrow> r \<in> set rs \<Longrightarrow> \<not> enabled (pr_phase r) \<Longrightarrow>
   r = bare_result (pr_phase r) PhaseSkipped"
  by (induction ps arbitrary: n exhausted s rs) (auto split: if_splits prod.splits)

text \<open>Only phases that were enabled and in time have run: every other one leaves the state alone.\<close>

definition phases_run :: "(phase \<Rightarrow> bool) \<Rightarrow> (nat \<Rightarrow> bool) \<Rightarrow> phase list \<Rightarrow> phase list" where
  "phases_run enabled late ps =
     (let es = filter enabled ps in take (length (takeWhile (\<lambda>n. \<not> late n) [0..<length es])) es)"

fun exec_all :: "(phase \<Rightarrow> 's \<Rightarrow> (string + phase_outcome) \<times> 's) \<Rightarrow> phase list \<Rightarrow> 's \<Rightarrow> 's" where
  "exec_all exec [] s = s"
| "exec_all exec (p # ps) s = exec_all exec ps (snd (exec p s))"

lemma takeWhile_shift:
  "length (takeWhile P [n..<n + Suc k]) = (if P n then Suc (length (takeWhile P [Suc n..<n + Suc k])) else 0)"
  by (simp add: upt_conv_Cons del: upt_Suc)

lemma phase_loop_state:
  "snd (phase_loop enabled late exec n False ps s) =
     exec_all exec (take (length (takeWhile (\<lambda>m. \<not> late m) [n..<n + length (filter enabled ps)])) (filter enabled ps)) s"
proof (induction ps arbitrary: n s)
  case (Cons p ps)
  show ?case
  proof (cases "enabled p")
    case True
    have shift: "length (takeWhile (\<lambda>m. \<not> late m) [n..<n + length (filter enabled (p # ps))]) =
        (if \<not> late n then Suc (length (takeWhile (\<lambda>m. \<not> late m) [Suc n..<Suc n + length (filter enabled ps)])) else 0)"
      using True takeWhile_shift [of "\<lambda>m. \<not> late m" n "length (filter enabled ps)"] by simp
    show ?thesis
      unfolding shift using True Cons.IH [of "Suc n"]
      by (simp add: phase_loop_exhausted case_prod_beta del: upt_Suc)
  next
    case False
    with Cons.IH [of n s] show ?thesis by (simp add: case_prod_beta del: upt_Suc)
  qed
qed simp

section \<open>Event retention\<close>

text \<open>\<open>earlier\<close> are the filters of the rules already applied, \<open>remaining\<close> the shared row budget.\<close>

fun retention_loop ::
    "(instant \<Rightarrow> event_query option \<Rightarrow> event_query list \<Rightarrow> int option \<Rightarrow> 'l \<Rightarrow> nat \<times> 'l) \<Rightarrow> instant \<Rightarrow>
     event_query list \<Rightarrow> retention_rule list \<Rightarrow> int \<Rightarrow> nat \<Rightarrow> 'l \<Rightarrow> nat \<times> 'l" where
  "retention_loop cleanup start earlier [] remaining deleted lg = (deleted, lg)"
| "retention_loop cleanup start earlier (rule # rules) remaining deleted lg =
     (if remaining \<le> 0 then (deleted, lg)
      else let (removed, lg') = cleanup (start - timedelta_seconds (rule_max_age rule))
                 (Some (rule_match rule)) earlier (Some remaining) lg
           in retention_loop cleanup start (earlier @ [rule_match rule]) rules
                (remaining - int removed) (deleted + removed) lg')"

definition run_event_retention_rules ::
    "(instant \<Rightarrow> event_query option \<Rightarrow> event_query list \<Rightarrow> int option \<Rightarrow> 'l \<Rightarrow> nat \<times> 'l) \<Rightarrow> maintenance_config \<Rightarrow>
     instant \<Rightarrow> 'l \<Rightarrow> nat \<times> 'l" where
  "run_event_retention_rules cleanup c start lg =
     retention_loop cleanup start [] (mc_event_retention_rules c) (mc_event_limit c) 0 lg"

text \<open>A record is protected when its first matching rule is not old enough, or no rule matches it.\<close>

definition protected_by :: "instant \<Rightarrow> retention_rule list \<Rightarrow> event_log_record \<Rightarrow> bool" where
  "protected_by start rules r \<longleftrightarrow>
     (case find (\<lambda>rule. match_event_record r (Some (rule_match rule))) rules of
        None \<Rightarrow> True
      | Some rule \<Rightarrow> lg_occurred_at r \<ge> start - timedelta_seconds (rule_max_age rule))"

lemma retention_loop_grows:
  "retention_loop cleanup start earlier rules remaining deleted lg = (n, lg') \<Longrightarrow> deleted \<le> n"
  by (induction rules arbitrary: earlier remaining deleted lg) (fastforce split: if_splits prod.splits)+

locale event_store =
  fixes cleanup :: "instant \<Rightarrow> event_query option \<Rightarrow> event_query list \<Rightarrow> int option \<Rightarrow> 'l \<Rightarrow> nat \<times> 'l"
    and records :: "'l \<Rightarrow> event_log_record list"
  assumes cleanup_law: "0 \<le> l \<Longrightarrow> cleanup before match exclude (Some l) lg = (n, lg') \<Longrightarrow>
    int n \<le> l \<and> length (records lg') + n = length (records lg) \<and>
    filter (\<lambda>r. \<not> event_doomed before match exclude r) (records lg') =
      filter (\<lambda>r. \<not> event_doomed before match exclude r) (records lg)"
    and cleanup_all: "0 \<le> l \<Longrightarrow> cleanup before match exclude (Some l) lg = (n, lg') \<Longrightarrow> int n < l \<Longrightarrow>
    records lg' = filter (\<lambda>r. \<not> event_doomed before match exclude r) (records lg)"
begin

text \<open>A run that does not use up its budget leaves exactly the records that earlier rules own or that
  the rules protect.\<close>

lemma retention_loop_all:
  assumes "retention_loop cleanup start earlier rules remaining deleted lg = (n, lg')"
    and "int n < int deleted + remaining"
  shows "records lg' =
    filter (\<lambda>r. (\<exists>q \<in> set earlier. match_event_record r (Some q)) \<or> protected_by start rules r) (records lg)"
  using assms
proof (induction rules arbitrary: earlier remaining deleted lg)
  case Nil
  then show ?case by (simp add: protected_by_def)
next
  case (Cons rule rules)
  have "0 < remaining"
  proof (rule ccontr)
    assume "\<not> 0 < remaining"
    with Cons.prems show False by simp
  qed
  let ?before = "start - timedelta_seconds (rule_max_age rule)"
  obtain k lg1 where c: "cleanup ?before (Some (rule_match rule)) earlier (Some remaining) lg = (k, lg1)"
    by (cases "cleanup ?before (Some (rule_match rule)) earlier (Some remaining) lg")
  have rest: "retention_loop cleanup start (earlier @ [rule_match rule]) rules (remaining - int k)
      (deleted + k) lg1 = (n, lg')"
    using Cons.prems(1) \<open>0 < remaining\<close> c by simp
  have IH: "records lg' = filter (\<lambda>r. (\<exists>q \<in> set (earlier @ [rule_match rule]). match_event_record r (Some q)) \<or>
      protected_by start rules r) (records lg1)"
    using Cons.IH [OF rest] Cons.prems(2) by simp
  have "deleted + k \<le> n"
    using retention_loop_grows [OF rest] .
  then have "records lg1 = filter (\<lambda>r. \<not> event_doomed ?before (Some (rule_match rule)) earlier r) (records lg)"
    using cleanup_all [OF _ c] Cons.prems(2) \<open>0 < remaining\<close> by simp
  with IH show ?case
    by (auto simp: event_doomed_def protected_by_def intro!: filter_cong split: option.splits)
qed

lemma retention_loop_law:
  assumes "retention_loop cleanup start earlier rules remaining deleted lg = (n, lg')"
    and "\<And>r. keep r \<Longrightarrow> (\<exists>q \<in> set earlier. match_event_record r (Some q)) \<or> protected_by start rules r"
    and "0 \<le> remaining"
  shows "int n \<le> int deleted + remaining \<and> deleted \<le> n \<and>
    length (records lg') + n = length (records lg) + deleted \<and>
    filter keep (records lg') = filter keep (records lg)"
  using assms
proof (induction rules arbitrary: earlier remaining deleted lg)
  case Nil
  then show ?case by simp
next
  case (Cons rule rules)
  show ?case
  proof (cases "remaining \<le> 0")
    case True
    with Cons.prems show ?thesis by simp
  next
    case False
    let ?before = "start - timedelta_seconds (rule_max_age rule)"
    obtain k lg1 where c: "cleanup ?before (Some (rule_match rule)) earlier (Some remaining) lg = (k, lg1)"
      by (cases "cleanup ?before (Some (rule_match rule)) earlier (Some remaining) lg")
    have rest: "retention_loop cleanup start (earlier @ [rule_match rule]) rules (remaining - int k)
        (deleted + k) lg1 = (n, lg')"
      using Cons.prems(1) False c by simp
    have law: "int k \<le> remaining" "length (records lg1) + k = length (records lg)"
      "filter (\<lambda>r. \<not> event_doomed ?before (Some (rule_match rule)) earlier r) (records lg1) =
       filter (\<lambda>r. \<not> event_doomed ?before (Some (rule_match rule)) earlier r) (records lg)"
      using cleanup_law [OF _ c] Cons.prems(3) by simp_all
    have safe: "\<not> event_doomed ?before (Some (rule_match rule)) earlier r" if "keep r" for r
      using Cons.prems(2) [OF that] by (auto simp: event_doomed_def protected_by_def split: if_splits)
    have "filter keep xs = filter keep (filter (\<lambda>r. \<not> event_doomed ?before (Some (rule_match rule)) earlier r) xs)" for xs
      using safe by (induction xs) auto
    then have kept: "filter keep (records lg1) = filter keep (records lg)" using law(3) by metis
    have "(\<exists>q \<in> set (earlier @ [rule_match rule]). match_event_record r (Some q)) \<or> protected_by start rules r"
      if "keep r" for r
      using Cons.prems(2) [OF that] by (auto simp: protected_by_def split: if_splits)
    from Cons.IH [OF rest this] law(1,2) kept show ?thesis by simp
  qed
qed

end

interpretation mem_events: event_store cleanup_events "\<lambda>rs. rs"
proof
  fix l before match exclude lg n lg'
  assume "0 \<le> l" "cleanup_events before match exclude (Some l) lg = (n, lg')"
  from cleanup_events_law [OF this]
  show "int n \<le> l \<and> length lg' + n = length lg \<and>
    filter (\<lambda>r. \<not> event_doomed before match exclude r) lg' = filter (\<lambda>r. \<not> event_doomed before match exclude r) lg"
    by blast
qed (rule cleanup_events_all)

section \<open>Properties\<close>

text \<open>the fleet lock is exclusive: after one worker acquired it at time \<open>now\<close> with
  lifetime \<open>ttl\<close>, every attempt of another worker before \<open>now + ttl\<close> is refused and changes
  nothing, whatever other lock operations ran in between under other tokens or other names.\<close>

theorem fleet_lock_exclusive:
  assumes first: "base_acquire_worker_lock acquire_maintenance name ttl f now s = (True, s1)"
    and between: "\<forall>x \<in> set ops. spares name (uuid_str f) (now + ttl) x"
    and other: "f' \<noteq> f" "f < 16 ^ 32" "f' < 16 ^ 32" and early: "now' < now + ttl"
  shows "base_acquire_worker_lock acquire_maintenance name ttl' f' now'
      (fold (lease_step acquire_maintenance release_maintenance) ops s1) =
    (False, fold (lease_step acquire_maintenance release_maintenance) ops s1)"
  using mem_lease.lease_excludes [OF first [unfolded base_acquire_worker_lock_def] between _ early]
    uuid_str_order(2) [OF other(3,2)] other(1)
  by (simp add: base_acquire_worker_lock_def)

text \<open>Property C33: a maintenance run over the ownership of the in-memory backend reports every selected phase once, in the fixed order. Refused
  ownership changes nothing and skips every phase. Granted ownership runs exactly the enabled phases
  up to the first late budget test, and afterwards the lease under this token is gone.\<close>

theorem maintenance_run_correct:
  assumes run: "maintenance_run acquire_maintenance release_maintenance caps c name token now enabled late exec phases s
      = (Inr summary, s')"
  shows "select_phases phases = Inr (map pr_phase (ms_phases summary)) \<and>
    (\<not> ms_acquired summary \<longrightarrow> s' = s \<and> ms_outcome summary = RunAlreadyRunning \<and>
       (\<forall>r \<in> set (ms_phases summary). pr_status r = PhaseSkipped)) \<and>
    (ms_acquired summary \<longrightarrow>
       (\<forall>until. mem_holder s' name \<noteq> Some (token, until)) \<and>
       ms_outcome summary = final_outcome (ms_phases summary) \<and>
       (\<forall>r \<in> set (ms_phases summary). \<not> enabled (pr_phase r) \<longrightarrow> pr_status r = PhaseSkipped) \<and>
       (\<exists>s1. acquire_maintenance name token (timedelta_seconds (mc_coordination_timeout c)) now s = (True, s1) \<and>
          s' = snd (release_maintenance name token
            (exec_all exec (phases_run enabled late (map pr_phase (ms_phases summary))) s1))))"
proof -
  obtain selected where sel: "select_phases phases = Inr selected" and sup: "supports_maintenance caps"
    using run by (auto simp: maintenance_run_def split: sum.splits if_splits)
  obtain ok s1 where acq: "acquire_maintenance name token (timedelta_seconds (mc_coordination_timeout c)) now s = (ok, s1)"
    by (cases "acquire_maintenance name token (timedelta_seconds (mc_coordination_timeout c)) now s")
  show ?thesis
  proof (cases ok)
    case False
    with run sel sup acq have out: "s' = s1"
      "summary = \<lparr>ms_outcome = RunAlreadyRunning, ms_acquired = False,
         ms_phases = map (\<lambda>p. bare_result p PhaseSkipped) selected\<rparr>"
      by (simp_all add: maintenance_run_def)
    have "s1 = s" using mem_lease.denied [of name token _ now s s1] acq False by simp
    then show ?thesis by (simp add: out sel comp_def bare_result_def)
  next
    case True
    obtain rs s2 where loop: "phase_loop enabled late exec 0 False selected s1 = (rs, s2)"
      by (cases "phase_loop enabled late exec 0 False selected s1")
    obtain freed s3 where rel: "release_maintenance name token s2 = (freed, s3)"
      by (cases "release_maintenance name token s2")
    have out: "s' = s3" "summary = \<lparr>ms_outcome = final_outcome rs, ms_acquired = True, ms_phases = rs\<rparr>"
      using run sel sup acq True loop rel by (simp_all add: maintenance_run_def)
    have ph: "map pr_phase rs = selected" by (rule phase_loop_phases [OF loop])
    have "s2 = exec_all exec (phases_run enabled late selected) s1"
      using phase_loop_state [of enabled late exec 0 selected s1] loop by (simp add: phases_run_def Let_def)
    moreover have "pr_status r = PhaseSkipped" if "r \<in> set rs" "\<not> enabled (pr_phase r)" for r
      using phase_loop_skipped [OF loop that] by (metis bare_result_def phase_result.select_convs(2))
    ultimately show ?thesis using acq True ph rel mem_lease.release_own [OF rel] by (simp add: out sel)
  qed
qed

text \<open>the retention rules obey first match: a record is only deleted when its first
  matching rule says it is too old; a record no rule matches is never deleted; one run deletes at
  most \<open>event_limit\<close> records in total; and a run that deletes fewer leaves exactly the protected
  records, in order.\<close>

theorem retention_first_rule_governs:
  assumes valid: "maintenance_config_post_init c0 = Inr c"
    and run: "run_event_retention_rules cleanup_events c start rs = (n, rs')"
  shows "filter (protected_by start (mc_event_retention_rules c)) rs' =
      filter (protected_by start (mc_event_retention_rules c)) rs \<and>
    int n \<le> mc_event_limit c \<and> length rs' + n = length rs \<and>
    (int n < mc_event_limit c \<longrightarrow> rs' = filter (protected_by start (mc_event_retention_rules c)) rs)"
proof -
  have "0 \<le> mc_event_limit c"
    using valid by (auto simp: maintenance_config_post_init_def split: if_splits)
  with mem_events.retention_loop_law [OF run [unfolded run_event_retention_rules_def],
      of "protected_by start (mc_event_retention_rules c)"]
    mem_events.retention_loop_all [OF run [unfolded run_event_retention_rules_def]]
  show ?thesis by simp
qed

section \<open>Witnesses\<close>

theorem fleet_lock_exclusive_witness:
  "fst (base_acquire_worker_lock acquire_maintenance ''sweep'' 60 2 150
     (fold (lease_step acquire_maintenance release_maintenance) [Release ''sweep'' ''other'']
       (snd (base_acquire_worker_lock acquire_maintenance ''sweep'' 60 1 100 mem_init)))) = False"
proof -
  let ?s1 = "snd (base_acquire_worker_lock acquire_maintenance ''sweep'' 60 1 100 mem_init)"
  have first: "base_acquire_worker_lock acquire_maintenance ''sweep'' 60 1 100 mem_init = (True, ?s1)"
    by (simp add: base_acquire_worker_lock_def acquire_maintenance_def mem_init_def)
  have "length (uuid_str 1) = 36" by (simp add: uuid_str_def)
  then have "uuid_str 1 \<noteq> ''other''" by auto
  then have spare: "\<forall>x \<in> set [Release ''sweep'' ''other'']. spares ''sweep'' (uuid_str 1) (100 + 60) x" by simp
  show ?thesis using fleet_lock_exclusive [OF first spare, of 2 150 60] by simp
qed

definition ex_maintenance :: maintenance_config where
  "ex_maintenance = \<lparr>mc_time_budget = 300, mc_coordination_timeout = 360, mc_expire_limit = 1000,
     mc_external_limit = 100, mc_stale_after = None, mc_stale_limit = 100, mc_schedules_limit = 100,
     mc_terminal_retention = None, mc_terminal_limit = 1000,
     mc_event_retention_rules = [\<lparr>rule_max_age = 1, rule_match = empty_query\<lparr>q_level := Some ''info''\<rparr>\<rparr>,
        \<lparr>rule_max_age = 2, rule_match = empty_query\<rparr>],
     mc_event_limit = 1000\<rparr>"

theorem maintenance_run_correct_witness:
  "\<exists>summary s'. maintenance_run acquire_maintenance release_maintenance mem_capabilities ex_maintenance ''m'' ''t'' 100
      (phase_enabled ex_maintenance False False True) (\<lambda>n. False)
      (\<lambda>p s. (Inr (CountOutcome 0), s)) (Some [''stale'', ''expire'']) mem_init = (Inr summary, s') \<and>
    map pr_phase (ms_phases summary) = [PExpire, PStale] \<and> mem_holder s' ''m'' = None"
proof -
  obtain out s' where run: "maintenance_run acquire_maintenance release_maintenance mem_capabilities ex_maintenance ''m'' ''t'' 100
      (phase_enabled ex_maintenance False False True) (\<lambda>n. False)
      (\<lambda>p s. (Inr (CountOutcome 0), s)) (Some [''stale'', ''expire'']) mem_init = (out, s')"
    by (metis surj_pair)
  have sel: "select_phases (Some [''stale'', ''expire'']) = Inr [PExpire, PStale]"
    by (simp add: select_phases_def PHASE_ORDER_def)
  have "\<exists>summary. out = Inr summary"
    using run by (auto simp: maintenance_run_def sel mem_capabilities_def default_capabilities_def case_prod_beta
        split: if_splits)
  then obtain summary where out: "out = Inr summary" by blast
  have "mem_holder s' ''m'' = None"
    using run by (auto simp: maintenance_run_def sel mem_capabilities_def default_capabilities_def
        acquire_maintenance_def release_maintenance_def mem_init_def ex_maintenance_def mem_holder_def dict_simps
        split: if_splits)
  then show ?thesis using maintenance_run_correct [OF run [unfolded out]] run out sel by auto
qed

theorem retention_first_rule_governs_witness:
  "snd (run_event_retention_rules cleanup_events ex_maintenance 1500000 [ex_log_record 600000]) =
     [ex_log_record 600000]"
proof -
  obtain n rs' where run: "run_event_retention_rules cleanup_events ex_maintenance 1500000 [ex_log_record 600000] = (n, rs')"
    by (cases "run_event_retention_rules cleanup_events ex_maintenance 1500000 [ex_log_record 600000]")
  have valid: "maintenance_config_post_init ex_maintenance = Inr ex_maintenance"
    by (simp add: maintenance_config_post_init_def ex_maintenance_def)
  have age: "timedelta_seconds 1 = 1000000" by (simp add: timedelta_seconds_def round_half_even_def)
  have "lg_level (ex_log_record 600000) = Some ''info''" "lg_occurred_at (ex_log_record 600000) = 600000"
    by (simp_all add: ex_log_record_def event_log_record_from_event_def Let_def)
  then have "protected_by 1500000 (mc_event_retention_rules ex_maintenance) (ex_log_record 600000)"
    by (simp add: protected_by_def ex_maintenance_def match_event_record_def query_filters_def empty_query_def
        List.map_filter_simps age)
  with retention_first_rule_governs [OF valid run]
  have "filter (protected_by 1500000 (mc_event_retention_rules ex_maintenance)) rs' = [ex_log_record 600000]"
    "length rs' \<le> 1" by simp_all
  then have "rs' = [ex_log_record 600000]" by (cases rs') (auto split: if_splits)
  with run show ?thesis by simp
qed

end
