(* ===== verification/History_Buffer.thy ===== *)
theory History_Buffer
  imports Event_Log
begin

text \<open>
  The write-behind buffer of event history (\<open>events/_history_buffer.py\<close>): accepted records wait in
  \<open>pending\<close>, are written in batches under a lock, move to \<open>committed\<close>, and only then are their
  live callbacks released, one at a time. Tasks, events and the waiting are the steps of a
  transition relation; \<open>accepted\<close>, \<open>written\<close> and \<open>released\<close> record what has happened so far.
\<close>

section \<open>State\<close>

datatype raised = Raised py_error | CancelledError

record hist_entry =
  he_sequence :: nat
  he_record :: event_log_record
  he_admitted_at :: rat
  he_has_release :: bool
  he_committed :: bool

datatype hist_state = Accepting | Closing | Closed

record history_buffer =
  hb_pending :: "hist_entry list"
  hb_committed :: "hist_entry list"
  hb_active :: "hist_entry option"
  hb_round :: "nat option"
  hb_writing :: "(nat \<times> hist_entry list) option"
  hb_background_error :: "raised option"
  hb_fatal_error :: bool
  hb_next_retry :: rat
  hb_sequence :: nat
  hb_size :: int
  hb_state :: hist_state
  hb_accepted :: "event_log_record list"
  hb_written :: "event_log_record list"
  hb_released :: "(hist_entry \<times> raised option) list"

definition hb_init :: history_buffer where
  "hb_init = \<lparr>hb_pending = [], hb_committed = [], hb_active = None, hb_round = None, hb_writing = None,
     hb_background_error = None, hb_fatal_error = False, hb_next_retry = 0, hb_sequence = 0, hb_size = 0,
     hb_state = Accepting, hb_accepted = [], hb_written = [], hb_released = []\<rparr>"

section \<open>Admission\<close>

definition raise_background_error :: "history_buffer \<Rightarrow> raised option \<times> history_buffer" where
  "raise_background_error b = (hb_background_error b, b\<lparr>hb_background_error := None\<rparr>)"

definition require_accepting :: "history_buffer \<Rightarrow> raised option" where
  "require_accepting b =
     (if hb_fatal_error b then Some (Raised QueueConfigurationError)
      else if hb_state b \<noteq> Accepting then Some (Raised QueueConfigurationError) else None)"

text \<open>The result of an accepted record is the boundary of the flush that follows, if any.\<close>

definition enqueue_record ::
    "history_config \<Rightarrow> event_log_record \<Rightarrow> bool \<Rightarrow> bool \<Rightarrow> rat \<Rightarrow> history_buffer \<Rightarrow>
     (raised + nat option) \<times> history_buffer" where
  "enqueue_record c r release barrier now b0 =
     (case raise_background_error b0 of
        (Some e, b) \<Rightarrow> (Inl e, b)
      | (None, b) \<Rightarrow>
          (case require_accepting b of
             Some e \<Rightarrow> (Inl e, b)
           | None \<Rightarrow>
               if hb_size b \<ge> hc_max_pending c then (Inl (Raised QueueEventBufferFull), b)
               else
                 let boundary = Suc (hb_sequence b);
                     b' = b\<lparr>hb_sequence := boundary,
                            hb_pending := hb_pending b @
                              [\<lparr>he_sequence = boundary, he_record = r, he_admitted_at = now,
                                he_has_release = release, he_committed = False\<rparr>],
                            hb_size := hb_size b + 1,
                            hb_accepted := hb_accepted b @ [r]\<rparr>
                 in (Inr (if barrier \<or> (int (length (hb_pending b')) \<ge> hc_batch_size c \<and> now \<ge> hb_next_retry b')
                          then Some boundary else None), b')))"

definition flush_begin :: "history_buffer \<Rightarrow> (raised + nat) \<times> history_buffer" where
  "flush_begin b0 =
     (case raise_background_error b0 of
        (Some e, b) \<Rightarrow> (Inl e, b)
      | (None, b) \<Rightarrow>
          (case require_accepting b of Some e \<Rightarrow> (Inl e, b) | None \<Rightarrow> (Inr (hb_sequence b), b)))"

section \<open>Persistence\<close>

text \<open>\<open>n\<close> entries are already in the batch.\<close>

fun collect_batch :: "int \<Rightarrow> nat \<Rightarrow> nat \<Rightarrow> hist_entry list \<Rightarrow> hist_entry list" where
  "collect_batch batch_size boundary n [] = []"
| "collect_batch batch_size boundary n (e # es) =
     (if he_sequence e > boundary \<or> int n \<ge> batch_size then []
      else e # collect_batch batch_size boundary (Suc n) es)"

definition write_due :: "nat \<Rightarrow> history_buffer \<Rightarrow> bool" where
  "write_due boundary b \<longleftrightarrow>
     (case hb_pending b of [] \<Rightarrow> False | e # es \<Rightarrow> he_sequence e \<le> boundary)"

definition write_committed :: "hist_entry list \<Rightarrow> history_buffer \<Rightarrow> history_buffer" where
  "write_committed batch b =
     b\<lparr>hb_pending := drop (length batch) (hb_pending b),
       hb_committed := hb_committed b @ map (\<lambda>e. e\<lparr>he_committed := True\<rparr>) batch,
       hb_next_retry := 0,
       hb_written := hb_written b @ map he_record batch\<rparr>"

text \<open>A failed batch: the error raised to the caller, if any. A cancellation passes through.\<close>

definition write_failed :: "history_config \<Rightarrow> rat \<Rightarrow> raised \<Rightarrow> history_buffer \<Rightarrow> raised option \<times> history_buffer" where
  "write_failed c now e b =
     (case e of
        CancelledError \<Rightarrow> (Some e, b)
      | Raised err \<Rightarrow>
          let b' = b\<lparr>hb_next_retry := now + hc_flush_interval c\<rparr> in
          if err = QueueConfigurationError then (Some e, b'\<lparr>hb_fatal_error := True\<rparr>)
          else if hc_strict c then (Some e, b')
          else (None, b'))"

text \<open>\<open>_persist_to\<close> without interleaving, on a store with state \<open>'w\<close>; \<open>None\<close> is a loop that does not end.\<close>

partial_function (option) persist_to ::
    "history_config \<Rightarrow> (event_log_record list \<Rightarrow> 'w \<Rightarrow> raised option \<times> 'w) \<Rightarrow> rat \<Rightarrow> nat \<Rightarrow> history_buffer \<Rightarrow> 'w \<Rightarrow>
     (raised option \<times> history_buffer \<times> 'w) option" where
  "persist_to c write now boundary b w =
     (if \<not> write_due boundary b then Some (None, b, w)
      else if hb_fatal_error b then Some (Some (Raised QueueConfigurationError), b, w)
      else
        let batch = collect_batch (hc_batch_size c) boundary 0 (hb_pending b) in
        case write (map he_record batch) w of
          (Some e, w') \<Rightarrow> (let (r, b') = write_failed c now e b in Some (r, b', w'))
        | (None, w') \<Rightarrow> persist_to c write now boundary (write_committed batch b) w')"

section \<open>Release\<close>

text \<open>A round of \<open>_run_releases\<close> starts with the boundary \<open>hb_sequence\<close>; a flush from inside a
  callback raises it.\<close>

definition release_due :: "history_buffer \<Rightarrow> bool" where
  "release_due b \<longleftrightarrow>
     (case (hb_round b, hb_committed b) of
        (Some boundary, e # es) \<Rightarrow> he_sequence e \<le> boundary
      | _ \<Rightarrow> False)"

definition release_take :: "history_buffer \<Rightarrow> history_buffer" where
  "release_take b = b\<lparr>hb_active := Some (hd (hb_committed b)), hb_committed := tl (hb_committed b)\<rparr>"

definition release_finish :: "raised option \<Rightarrow> history_buffer \<Rightarrow> history_buffer" where
  "release_finish err b =
     (case hb_active b of
        None \<Rightarrow> b
      | Some e \<Rightarrow>
          b\<lparr>hb_active := None,
            hb_round := (if err = Some CancelledError then None else hb_round b),
            hb_background_error :=
              (if err \<noteq> None \<and> hb_background_error b = None then err else hb_background_error b),
            hb_size := hb_size b - 1,
            hb_released := hb_released b @ [(e, err)]\<rparr>)"

text \<open>What a flush raises after the targets it waits for were released: the write error first, but a
  cancelled callback takes precedence. Targets that were not committed are not waited for.\<close>

fun wait_for_releases :: "(bool \<times> raised option) list \<Rightarrow> raised option \<Rightarrow> raised option" where
  "wait_for_releases [] error = error"
| "wait_for_releases ((committed, err) # ts) error =
     wait_for_releases ts
       (if committed \<and> err \<noteq> None \<and> (error = None \<or> err = Some CancelledError) then err else error)"

section \<open>Steps\<close>

inductive hb_step :: "history_config \<Rightarrow> history_buffer \<Rightarrow> history_buffer \<Rightarrow> bool" for c where
  hb_enqueue: "enqueue_record c r release barrier now b = (res, b') \<Longrightarrow> hb_step c b b'"
| hb_flush: "flush_begin b = (res, b') \<Longrightarrow> hb_step c b b'"
| hb_write_start: "hb_writing b = None \<Longrightarrow> write_due boundary b \<Longrightarrow> \<not> hb_fatal_error b \<Longrightarrow>
    hb_step c b (b\<lparr>hb_writing := Some (boundary, collect_batch (hc_batch_size c) boundary 0 (hb_pending b))\<rparr>)"
| hb_write_ok: "hb_writing b = Some (boundary, batch) \<Longrightarrow>
    hb_step c b (write_committed batch (b\<lparr>hb_writing := None\<rparr>))"
| hb_write_error: "hb_writing b = Some (boundary, batch) \<Longrightarrow> write_failed c now e (b\<lparr>hb_writing := None\<rparr>) = (res, b') \<Longrightarrow>
    hb_step c b b'"
| hb_background: "hb_background_error b = None \<Longrightarrow> hb_step c b (b\<lparr>hb_background_error := Some e\<rparr>)"
| hb_round_start: "hb_round b = None \<Longrightarrow> hb_step c b (b\<lparr>hb_round := Some (hb_sequence b)\<rparr>)"
| hb_round_extend: "hb_round b = Some old \<Longrightarrow> hb_step c b (b\<lparr>hb_round := Some (max old boundary)\<rparr>)"
| hb_take: "hb_active b = None \<Longrightarrow> release_due b \<Longrightarrow> hb_step c b (release_take b)"
| hb_finish: "hb_active b = Some e \<Longrightarrow> hb_step c b (release_finish err b)"
| hb_round_end: "hb_active b = None \<Longrightarrow> hb_round b \<noteq> None \<Longrightarrow> \<not> release_due b \<Longrightarrow> hb_step c b (b\<lparr>hb_round := None\<rparr>)"
| hb_stop: "hb_state b = Accepting \<Longrightarrow> hb_step c b (b\<lparr>hb_state := Closing\<rparr>)"
| hb_closed: "hb_state b = Closing \<Longrightarrow>
    hb_step c b ((release_finish (Some CancelledError) b)\<lparr>hb_round := None, hb_background_error := None,
      hb_state := Closed\<rparr>)"

inductive hb_reachable :: "history_config \<Rightarrow> history_buffer \<Rightarrow> bool" for c where
  hb_start: "hb_reachable c hb_init"
| hb_stepped: "hb_reachable c b \<Longrightarrow> hb_step c b b' \<Longrightarrow> hb_reachable c b'"

section \<open>Invariant\<close>

definition settled :: "history_buffer \<Rightarrow> hist_entry list" where
  "settled b = map fst (hb_released b) @ (case hb_active b of None \<Rightarrow> [] | Some e \<Rightarrow> [e]) @ hb_committed b"

text \<open>\<open>st\<close> are the settled entries, \<open>pend\<close> the pending ones, \<open>n\<close> the number of released ones.\<close>

definition hb_ok ::
    "history_config \<Rightarrow> hist_entry list \<Rightarrow> hist_entry list \<Rightarrow> nat \<Rightarrow> nat \<Rightarrow> int \<Rightarrow> event_log_record list \<Rightarrow>
     event_log_record list \<Rightarrow> (nat \<times> hist_entry list) option \<Rightarrow> bool" where
  "hb_ok c st pend seq n sz acc wr w \<longleftrightarrow>
     map he_sequence (st @ pend) = [1..<Suc seq] \<and> acc = wr @ map he_record pend \<and> wr = map he_record st \<and>
     (\<forall>e \<in> set st. he_committed e) \<and> (\<forall>e \<in> set pend. \<not> he_committed e) \<and>
     sz + int n = int seq \<and> sz \<le> hc_max_pending c \<and>
     (\<forall>boundary batch. w = Some (boundary, batch) \<longrightarrow>
        (\<exists>rest. pend = batch @ rest) \<and> int (length batch) \<le> hc_batch_size c \<and> batch \<noteq> [])"

definition hb_inv :: "history_config \<Rightarrow> history_buffer \<Rightarrow> bool" where
  "hb_inv c b \<longleftrightarrow>
     hb_ok c (settled b) (hb_pending b) (hb_sequence b) (length (hb_released b)) (hb_size b) (hb_accepted b)
       (hb_written b) (hb_writing b)"

lemma collect_batch_prefix: "\<exists>rest. es = collect_batch k boundary n es @ rest"
  by (induction es arbitrary: n) auto

lemma collect_batch_length: "int n \<le> k \<Longrightarrow> int (n + length (collect_batch k boundary n es)) \<le> k"
proof (induction es arbitrary: n)
  case (Cons e es)
  show ?case
  proof (cases "he_sequence e > boundary \<or> int n \<ge> k")
    case False
    then have "int (Suc n + length (collect_batch k boundary (Suc n) es)) \<le> k" by (intro Cons.IH) simp
    with False show ?thesis by simp
  qed (use Cons.prems in simp)
qed simp

lemma collect_batch_boundary: "e \<in> set (collect_batch k boundary n es) \<Longrightarrow> he_sequence e \<le> boundary"
  by (induction es arbitrary: n) (auto split: if_splits)

lemma collect_batch_due: "write_due boundary b \<Longrightarrow> 0 < k \<Longrightarrow> collect_batch k boundary 0 (hb_pending b) \<noteq> []"
  by (auto simp: write_due_def split: list.splits)

lemma hb_inv_init: "0 \<le> hc_max_pending c \<Longrightarrow> hb_inv c hb_init"
  by (simp add: hb_inv_def hb_ok_def hb_init_def settled_def)

lemma settled_unchanged [simp]:
  "settled (b\<lparr>hb_background_error := x\<rparr>) = settled b" "settled (b\<lparr>hb_round := y\<rparr>) = settled b"
  "settled (b\<lparr>hb_state := st\<rparr>) = settled b" "settled (b\<lparr>hb_writing := w\<rparr>) = settled b"
  "settled (b\<lparr>hb_fatal_error := f\<rparr>) = settled b" "settled (b\<lparr>hb_next_retry := t\<rparr>) = settled b"
  by (simp_all add: settled_def)

lemma settled_enqueue [simp]:
  "settled (b\<lparr>hb_pending := p, hb_sequence := n, hb_size := k, hb_accepted := rs\<rparr>) = settled b"
  by (simp add: settled_def)

lemma settled_write [simp]:
  "settled (write_committed batch b) = settled b @ map (\<lambda>e. e\<lparr>he_committed := True\<rparr>) batch"
  by (simp add: settled_def write_committed_def)

lemma settled_take:
  assumes "hb_active b = None" and "release_due b"
  shows "settled (release_take b) = settled b"
  using assms by (cases "hb_committed b") (auto simp: settled_def release_take_def release_due_def split: option.splits)

lemma settled_finish [simp]: "settled (release_finish err b) = settled b"
  by (simp add: settled_def release_finish_def split: option.split)

lemma entry_flag [simp]:
  "he_sequence \<circ> he_committed_update f = he_sequence" "he_record \<circ> he_committed_update f = he_record"
  by (simp_all add: fun_eq_iff)

lemma hb_ok_append:
  assumes "hb_ok c st pend seq n sz acc wr w" and "he_sequence e = Suc seq" and "he_record e = r"
    and "\<not> he_committed e" and "sz < hc_max_pending c"
  shows "hb_ok c st (pend @ [e]) (Suc seq) n (sz + 1) (acc @ [r]) wr w"
proof -
  have "map he_sequence (st @ pend @ [e]) = map he_sequence (st @ pend) @ [Suc seq]" using assms(2) by simp
  also have "\<dots> = [1..<Suc (Suc seq)]" using assms(1) by (simp add: hb_ok_def)
  finally show ?thesis using assms unfolding hb_ok_def by auto
qed

lemma hb_ok_commit:
  assumes "hb_ok c st pend seq n sz acc wr (Some (boundary, batch))"
  shows "hb_ok c (st @ map (\<lambda>e. e\<lparr>he_committed := True\<rparr>) batch) (drop (length batch) pend) seq n sz acc
    (wr @ map he_record batch) None"
proof -
  obtain rest where rest: "pend = batch @ rest" using assms by (auto simp: hb_ok_def)
  let ?st = "st @ map (\<lambda>e. e\<lparr>he_committed := True\<rparr>) batch"
  have "map he_sequence (?st @ rest) = map he_sequence (st @ pend)"
    "map he_record ?st = map he_record st @ map he_record batch"
    by (simp_all add: rest)
  then show ?thesis using assms unfolding hb_ok_def by (auto simp: rest simp del: upt_Suc)
qed

lemma hb_ok_bounds:
  "hb_ok c st pend seq n sz acc wr w \<Longrightarrow> hb_ok c st pend seq n sz acc wr None"
  by (auto simp: hb_ok_def)

lemma hb_inv_enqueue:
  assumes inv: "hb_inv c b0" and res: "enqueue_record c r release barrier now b0 = (res, b')"
  shows "hb_inv c b'"
proof (cases "b' = b0\<lparr>hb_background_error := None\<rparr>")
  case True
  with inv show ?thesis by (simp add: hb_inv_def)
next
  case False
  let ?e = "\<lparr>he_sequence = Suc (hb_sequence b0), he_record = r, he_admitted_at = now,
    he_has_release = release, he_committed = False\<rparr>"
  have b': "b' = b0\<lparr>hb_background_error := None, hb_sequence := Suc (hb_sequence b0), hb_pending := hb_pending b0 @ [?e],
      hb_size := hb_size b0 + 1, hb_accepted := hb_accepted b0 @ [r]\<rparr>" and room: "hb_size b0 < hc_max_pending c"
    using res False
    by (auto simp: enqueue_record_def raise_background_error_def Let_def split: option.splits if_splits)
  have "settled b' = settled b0" by (simp add: b' settled_def)
  moreover have "hb_ok c (settled b0) (hb_pending b0 @ [?e]) (Suc (hb_sequence b0)) (length (hb_released b0))
      (hb_size b0 + 1) (hb_accepted b0 @ [r]) (hb_written b0) (hb_writing b0)"
    using inv room unfolding hb_inv_def by (intro hb_ok_append) simp_all
  ultimately show ?thesis by (simp add: hb_inv_def b')
qed

lemma hb_inv_write:
  assumes inv: "hb_inv c b" and w: "hb_writing b = Some (boundary, batch)"
  shows "hb_inv c (write_committed batch (b\<lparr>hb_writing := None\<rparr>))"
  using hb_ok_commit [of c "settled b"] inv w unfolding hb_inv_def settled_write
  by (simp add: write_committed_def)

lemma hb_inv_write_failed:
  assumes "hb_inv c b" and "write_failed c now e (b\<lparr>hb_writing := None\<rparr>) = (res, b')"
  shows "hb_inv c b'"
  using assms
  by (cases e) (auto simp: write_failed_def hb_inv_def Let_def intro: hb_ok_bounds split: if_splits)

lemma hb_inv_take:
  assumes "hb_inv c b" and "hb_active b = None" and "release_due b"
  shows "hb_inv c (release_take b)"
  using assms(1) unfolding hb_inv_def settled_take [OF assms(2,3)] by (simp add: release_take_def)

lemma hb_inv_finish:
  assumes "hb_inv c b"
  shows "hb_inv c (release_finish err b)"
proof (cases "hb_active b")
  case (Some e)
  have "hb_ok c st pend seq (Suc n) (sz - 1) acc wr w" if "hb_ok c st pend seq n sz acc wr w" for st pend seq n sz acc wr w
    using that by (simp add: hb_ok_def)
  with assms Some show ?thesis unfolding hb_inv_def settled_finish by (simp add: release_finish_def)
qed (use assms in \<open>simp add: release_finish_def\<close>)

lemma hb_inv_bookkeeping:
  assumes "hb_inv c b"
  shows "hb_inv c (b\<lparr>hb_background_error := x\<rparr>)" "hb_inv c (b\<lparr>hb_round := y\<rparr>)" "hb_inv c (b\<lparr>hb_state := st\<rparr>)"
  using assms unfolding hb_inv_def by simp_all

lemma hb_inv_write_start:
  assumes "hb_inv c b" and "write_due boundary b" and "0 < hc_batch_size c"
  shows "hb_inv c (b\<lparr>hb_writing := Some (boundary, collect_batch (hc_batch_size c) boundary 0 (hb_pending b))\<rparr>)"
proof -
  have "hb_ok c st pend seq n sz acc wr (Some (boundary, collect_batch (hc_batch_size c) boundary 0 pend))"
    if "hb_ok c st pend seq n sz acc wr w" "collect_batch (hc_batch_size c) boundary 0 pend \<noteq> []"
    for st pend seq n sz acc wr w
    using that collect_batch_prefix [of pend "hc_batch_size c" boundary 0]
      collect_batch_length [of 0 "hc_batch_size c" boundary pend] assms(3)
    unfolding hb_ok_def by simp
  with assms(1) collect_batch_due [OF assms(2,3)] show ?thesis by (simp add: hb_inv_def)
qed

lemma hb_inv_step:
  assumes "hb_step c b b'" and "hb_inv c b" and "0 < hc_batch_size c"
  shows "hb_inv c b'"
  using assms(1,2)
proof cases
  case (hb_enqueue r release barrier now res)
  with assms(2) show ?thesis by (blast intro: hb_inv_enqueue)
next
  case (hb_flush res)
  then have "b' = b\<lparr>hb_background_error := None\<rparr>"
    by (auto simp: flush_begin_def raise_background_error_def split: option.splits)
  with assms(2) show ?thesis by (simp add: hb_inv_bookkeeping)
next
  case hb_closed
  have "hb_inv c (release_finish (Some CancelledError) b)" using assms(2) by (rule hb_inv_finish)
  from hb_inv_bookkeeping(3) [OF hb_inv_bookkeeping(1) [OF hb_inv_bookkeeping(2) [OF this]]]
  show ?thesis by (simp add: hb_closed)
qed (use assms(3) in \<open>simp_all add: hb_inv_write hb_inv_write_failed hb_inv_take hb_inv_finish hb_inv_bookkeeping
    hb_inv_write_start\<close>)

lemma reachable_hb_inv:
  assumes "hb_reachable c b" and "0 < hc_batch_size c" and "0 \<le> hc_max_pending c"
  shows "hb_inv c b"
  using assms(1) by induction (use assms(2,3) in \<open>auto intro: hb_inv_init hb_inv_step\<close>)


section \<open>Flushing without interleaving\<close>

lemma write_committed_fields [simp]:
  "hb_pending (write_committed batch b) = drop (length batch) (hb_pending b)"
  "hb_fatal_error (write_committed batch b) = hb_fatal_error b"
  by (simp_all add: write_committed_def)

text \<open>With a positive batch size every round of the loop shortens the queue, so it ends.\<close>

lemma persist_to_returns:
  assumes "0 < hc_batch_size c"
  shows "\<exists>r. persist_to c write now boundary b w = Some r"
proof (induction "length (hb_pending b)" arbitrary: b w rule: less_induct)
  case less
  show ?case
  proof (cases "write_due boundary b")
    case True
    let ?batch = "collect_batch (hc_batch_size c) boundary 0 (hb_pending b)"
    have "?batch \<noteq> []" by (rule collect_batch_due [OF True assms])
    moreover from this have "hb_pending b \<noteq> []" by auto
    ultimately have "length (hb_pending (write_committed ?batch b)) < length (hb_pending b)" by simp
    note IH = less [OF this]
    show ?thesis
      using IH by (subst persist_to.simps) (auto simp: Let_def split: option.split prod.split)
  qed (subst persist_to.simps, simp)
qed

lemma collect_batch_takeWhile:
  "map f (collect_batch k boundary n es) @
     map f (takeWhile (\<lambda>e. he_sequence e \<le> boundary) (drop (length (collect_batch k boundary n es)) es)) =
   map f (takeWhile (\<lambda>e. he_sequence e \<le> boundary) es)"
  "dropWhile (\<lambda>e. he_sequence e \<le> boundary) (drop (length (collect_batch k boundary n es)) es) =
   dropWhile (\<lambda>e. he_sequence e \<le> boundary) es"
  by (induction es arbitrary: n) auto

lemma not_write_due:
  assumes "\<not> write_due boundary b"
  shows "takeWhile (\<lambda>e. he_sequence e \<le> boundary) (hb_pending b) = []"
    and "dropWhile (\<lambda>e. he_sequence e \<le> boundary) (hb_pending b) = hb_pending b"
  using assms by (auto simp: write_due_def split: list.splits)

lemma persist_to_all:
  assumes "0 < hc_batch_size c" and ok: "\<And>rs w. fst (write rs w) = None" and "\<not> hb_fatal_error b"
  shows "\<exists>b' w'. persist_to c write now boundary b w = Some (None, b', w') \<and>
    hb_written b' = hb_written b @ map he_record (takeWhile (\<lambda>e. he_sequence e \<le> boundary) (hb_pending b)) \<and>
    hb_pending b' = dropWhile (\<lambda>e. he_sequence e \<le> boundary) (hb_pending b)"
  using assms(3)
proof (induction "length (hb_pending b)" arbitrary: b w rule: less_induct)
  case less
  show ?case
  proof (cases "write_due boundary b")
    case True
    let ?batch = "collect_batch (hc_batch_size c) boundary 0 (hb_pending b)"
    let ?b = "write_committed ?batch b"
    have "?batch \<noteq> []" by (rule collect_batch_due [OF True assms(1)])
    moreover from this have "hb_pending b \<noteq> []" by auto
    ultimately have "length (hb_pending ?b) < length (hb_pending b)" by simp
    from less(1) [OF this, of "snd (write (map he_record ?batch) w)"] less(2)
    obtain b' w' where IH: "persist_to c write now boundary ?b (snd (write (map he_record ?batch) w)) = Some (None, b', w')"
      "hb_written b' = hb_written ?b @ map he_record (takeWhile (\<lambda>e. he_sequence e \<le> boundary) (hb_pending ?b))"
      "hb_pending b' = dropWhile (\<lambda>e. he_sequence e \<le> boundary) (hb_pending ?b)"
      by auto
    have "persist_to c write now boundary b w = Some (None, b', w')"
      using True less(2) IH(1) ok [of "map he_record ?batch" w]
      by (subst persist_to.simps, cases "write (map he_record ?batch) w") (simp add: Let_def)
    moreover have "hb_written b' = hb_written b @ map he_record (takeWhile (\<lambda>e. he_sequence e \<le> boundary) (hb_pending b))"
      unfolding IH(2) using collect_batch_takeWhile(1) [of he_record]
      by (simp add: write_committed_def)
    moreover have "hb_pending b' = dropWhile (\<lambda>e. he_sequence e \<le> boundary) (hb_pending b)"
      unfolding IH(3) by (simp add: collect_batch_takeWhile(2))
    ultimately show ?thesis by blast
  next
    case False
    then show ?thesis by (subst persist_to.simps) (simp add: not_write_due [OF False])
  qed
qed

text \<open>Whatever the store answers, the entries stay in order, and what it accepted is what moved.\<close>

definition entries_kept :: "history_buffer \<Rightarrow> history_buffer \<Rightarrow> bool" where
  "entries_kept b b' \<longleftrightarrow>
     map he_sequence (hb_committed b' @ hb_pending b') = map he_sequence (hb_committed b @ hb_pending b) \<and>
     hb_written b' @ map he_record (hb_pending b') = hb_written b @ map he_record (hb_pending b) \<and>
     hb_size b' = hb_size b \<and> length (hb_pending b') \<le> length (hb_pending b)"

lemma entries_kept_trans: "entries_kept a b \<Longrightarrow> entries_kept b c \<Longrightarrow> entries_kept a c"
  by (simp add: entries_kept_def)

lemma entries_kept_commit: "hb_pending b = batch @ rest \<Longrightarrow> entries_kept b (write_committed batch b)"
  by (simp add: entries_kept_def write_committed_def comp_def)

lemma persist_to_keeps:
  assumes "0 < hc_batch_size c" and "persist_to c write now boundary b w = Some (r, b', w')"
  shows "entries_kept b b' \<and> (r = None \<or> hb_fatal_error b' \<or> hc_strict c \<or> r = Some CancelledError)"
  using assms(2)
proof (induction "length (hb_pending b)" arbitrary: b w rule: less_induct)
  case less
  consider "\<not> write_due boundary b" | "write_due boundary b" "hb_fatal_error b" | "write_due boundary b" "\<not> hb_fatal_error b"
    by blast
  then show ?case
  proof cases
    case 3
    let ?batch = "collect_batch (hc_batch_size c) boundary 0 (hb_pending b)"
    obtain res w1 where wr: "write (map he_record ?batch) w = (res, w1)" by (cases "write (map he_record ?batch) w")
    show ?thesis
    proof (cases res)
      case None
      obtain rest where rest: "hb_pending b = ?batch @ rest" using collect_batch_prefix by blast
      have "?batch \<noteq> []" by (rule collect_batch_due [OF 3(1) assms(1)])
      moreover from this have "hb_pending b \<noteq> []" by auto
      ultimately have "length (hb_pending (write_committed ?batch b)) < length (hb_pending b)" by simp
      moreover have "persist_to c write now boundary (write_committed ?batch b) w1 = Some (r, b', w')"
        using less(2) 3 wr None by (subst (asm) persist_to.simps) (simp add: Let_def)
      ultimately show ?thesis using less(1) entries_kept_trans [OF entries_kept_commit [OF rest]] by blast
    next
      case (Some e)
      then have "write_failed c now e b = (r, b')"
        using less(2) 3 wr by (subst (asm) persist_to.simps) (simp add: Let_def split: prod.splits)
      then show ?thesis by (cases e) (auto simp: write_failed_def entries_kept_def Let_def split: if_splits)
    qed
  qed (use less(2) in \<open>subst (asm) persist_to.simps, auto simp: entries_kept_def\<close>)+
qed

section \<open>Properties\<close>

lemma history_config_bounds:
  "history_config_post_init c0 = Inr c \<Longrightarrow> 0 < hc_batch_size c \<and> hc_batch_size c \<le> hc_max_pending c"
  by (auto simp: history_config_post_init_def split: if_splits sum.splits)

lemma reachable_valid_inv:
  assumes "history_config_post_init c0 = Inr c" and "hb_reachable c b"
  shows "hb_inv c b"
  using history_config_bounds [OF assms(1)] by (intro reachable_hb_inv [OF assms(2)]) simp_all

text \<open>Property C28: under any interleaving of publishers, writers, callbacks, failures and shutdown, the
  store holds a prefix of the accepted records, each once and in order; callbacks are released one
  by one in the order of acceptance and only for records the store already holds; and the accepted
  records not yet released never exceed \<open>max_pending\<close>.\<close>

theorem history_released_after_commit:
  assumes "history_config_post_init c0 = Inr c" and "hb_reachable c b"
  shows "hb_accepted b = hb_written b @ map he_record (hb_pending b) \<and>
    map (he_sequence \<circ> fst) (hb_released b) = [1..<Suc (length (hb_released b))] \<and>
    map (he_record \<circ> fst) (hb_released b) = take (length (hb_released b)) (hb_written b) \<and>
    int (length (hb_accepted b)) - int (length (hb_released b)) \<le> hc_max_pending c"
proof -
  let ?rel = "map fst (hb_released b)"
  obtain more where st: "settled b = ?rel @ more" by (simp add: settled_def)
  have ok: "map he_sequence (settled b @ hb_pending b) = [1..<Suc (hb_sequence b)]"
    "hb_accepted b = hb_written b @ map he_record (hb_pending b)" "hb_written b = map he_record (settled b)"
    "hb_size b + int (length (hb_released b)) = int (hb_sequence b)" "hb_size b \<le> hc_max_pending c"
    using reachable_valid_inv [OF assms] by (simp_all add: hb_inv_def hb_ok_def del: upt_Suc map_append)
  have len: "length (hb_accepted b) = hb_sequence b"
    using arg_cong [OF ok(1), of length] ok(2,3) by (simp del: upt_Suc)
  have "map he_sequence ?rel = take (length ?rel) [1..<Suc (hb_sequence b)]"
    unfolding ok(1) [symmetric] st by simp
  also have "\<dots> = [1..<Suc (length ?rel)]"
  proof -
    have "length ?rel \<le> hb_sequence b" using arg_cong [OF ok(1), of length] st by (simp del: upt_Suc)
    then show ?thesis by (simp add: take_upt del: upt_Suc)
  qed
  finally show ?thesis using ok(2-5) st len by (simp add: comp_def del: upt_Suc)
qed

text \<open>a flush ends whatever the store does, and with a store that accepts every batch it
  persists exactly the accepted entries up to its boundary.\<close>

theorem history_flush_completes:
  assumes "history_config_post_init c0 = Inr c"
  shows "(\<exists>r. persist_to c write now boundary b w = Some r) \<and>
    ((\<forall>rs w. fst (write rs w) = None) \<and> \<not> hb_fatal_error b \<longrightarrow>
      (\<exists>b' w'. persist_to c write now boundary b w = Some (None, b', w') \<and>
        hb_written b' = hb_written b @ map he_record (takeWhile (\<lambda>e. he_sequence e \<le> boundary) (hb_pending b)) \<and>
        hb_pending b' = dropWhile (\<lambda>e. he_sequence e \<le> boundary) (hb_pending b)))"
  using persist_to_returns [of c "write" now boundary b w] persist_to_all [of c "write" b now boundary w]
    history_config_bounds [OF assms] by blast

text \<open>failed writes lose nothing: whatever the store answers, the entries keep their order
  and their slots, each is either written or still pending, and outside strict mode only a
  configuration error or a cancellation reaches the publisher.\<close>

theorem history_failure_keeps_entries:
  assumes "history_config_post_init c0 = Inr c" and "persist_to c write now boundary b w = Some (r, b', w')"
  shows "map he_sequence (hb_committed b' @ hb_pending b') = map he_sequence (hb_committed b @ hb_pending b) \<and>
    hb_written b' @ map he_record (hb_pending b') = hb_written b @ map he_record (hb_pending b) \<and>
    hb_size b' = hb_size b \<and>
    (r = None \<or> hb_fatal_error b' \<or> hc_strict c \<or> r = Some CancelledError)"
  using persist_to_keeps [OF _ assms(2)] history_config_bounds [OF assms(1)]
  by (auto simp: entries_kept_def)

section \<open>Witnesses\<close>

text \<open>One record is accepted, written, and its callback released.\<close>

lemma ex_history_valid: "history_config_post_init ex_history_config = Inr ex_history_config"
  by code_simp

definition ex_hist_entry :: hist_entry where
  "ex_hist_entry = \<lparr>he_sequence = 1, he_record = ex_log_record 5, he_admitted_at = 0, he_has_release = True,
     he_committed = False\<rparr>"

definition ex_buffer :: "hist_entry list \<Rightarrow> hist_entry list \<Rightarrow> history_buffer" where
  "ex_buffer pend com = hb_init\<lparr>hb_pending := pend, hb_committed := com, hb_sequence := 1, hb_size := 1,
     hb_accepted := [ex_log_record 5], hb_written := map he_record com\<rparr>"

definition ex_released :: history_buffer where
  "ex_released = (ex_buffer [] [])\<lparr>hb_round := Some 1, hb_size := 0, hb_written := [ex_log_record 5],
     hb_released := [(ex_hist_entry\<lparr>he_committed := True\<rparr>, None)]\<rparr>"

lemmas ex_buffer_defs = ex_buffer_def ex_hist_entry_def ex_released_def ex_history_config_def hb_init_def

lemma ex_hist_steps:
  "enqueue_record ex_history_config (ex_log_record 5) True False 0 hb_init = (Inr None, ex_buffer [ex_hist_entry] [])"
  by (simp add: ex_buffer_defs enqueue_record_def raise_background_error_def require_accepting_def)

lemma ex_hist_reachable: "hb_reachable ex_history_config ex_released"
proof -
  let ?c = "ex_history_config" and ?b1 = "ex_buffer [ex_hist_entry] []"
    and ?b2 = "ex_buffer [] [ex_hist_entry\<lparr>he_committed := True\<rparr>]"
  have r1: "hb_reachable ?c ?b1" by (rule hb_stepped [OF hb_start hb_enqueue [OF ex_hist_steps]])
  have batch: "collect_batch (hc_batch_size ?c) 1 0 (hb_pending ?b1) = [ex_hist_entry]"
    by (simp add: ex_buffer_defs)
  have "hb_step ?c ?b1 (?b1\<lparr>hb_writing := Some (1, [ex_hist_entry])\<rparr>)"
    using hb_write_start [of ?b1 1 ?c] unfolding batch by (simp add: write_due_def ex_buffer_defs)
  with r1 have r2: "hb_reachable ?c (?b1\<lparr>hb_writing := Some (1, [ex_hist_entry])\<rparr>)" by (rule hb_stepped)
  have "hb_reachable ?c (write_committed [ex_hist_entry] (?b1\<lparr>hb_writing := Some (1, [ex_hist_entry])\<rparr>\<lparr>hb_writing := None\<rparr>))"
    by (rule hb_stepped [OF r2 hb_write_ok]) simp
  then have r3: "hb_reachable ?c ?b2" by (simp add: write_committed_def ex_buffer_defs)
  have "hb_reachable ?c (?b2\<lparr>hb_round := Some (hb_sequence ?b2)\<rparr>)"
    by (rule hb_stepped [OF r3 hb_round_start]) (simp add: ex_buffer_defs)
  then have "hb_reachable ?c (release_take (?b2\<lparr>hb_round := Some (hb_sequence ?b2)\<rparr>))"
    by (rule hb_stepped [OF _ hb_take]) (simp_all add: ex_buffer_defs release_due_def)
  then have "hb_reachable ?c (release_finish None (release_take (?b2\<lparr>hb_round := Some (hb_sequence ?b2)\<rparr>)))"
    by (rule hb_stepped [OF _ hb_finish]) (simp add: release_take_def)
  then show ?thesis by (simp add: release_finish_def release_take_def ex_buffer_defs)
qed

theorem history_released_after_commit_witness:
  "hb_accepted ex_released = [ex_log_record 5] \<and>
   map (he_record \<circ> fst) (hb_released ex_released) = take 1 (hb_written ex_released)"
  using history_released_after_commit [OF ex_history_valid ex_hist_reachable]
  by (simp add: ex_released_def ex_buffer_def)

theorem history_flush_completes_witness:
  "\<exists>b' w'. persist_to ex_history_config (\<lambda>rs log. (None, log @ rs)) 0 1 (ex_buffer [ex_hist_entry] []) [] =
      Some (None, b', w') \<and> hb_written b' = [ex_log_record 5] \<and> hb_pending b' = []"
proof -
  let ?b = "ex_buffer [ex_hist_entry] []" and ?wr = "\<lambda>rs log. (None, log @ rs)"
  have "\<not> hb_fatal_error ?b" by (simp add: ex_buffer_defs)
  then obtain b' w' where run: "persist_to ex_history_config ?wr 0 1 ?b [] = Some (None, b', w')"
    "hb_written b' = hb_written ?b @ map he_record (takeWhile (\<lambda>e. he_sequence e \<le> 1) (hb_pending ?b))"
    "hb_pending b' = dropWhile (\<lambda>e. he_sequence e \<le> 1) (hb_pending ?b)"
    using history_flush_completes [OF ex_history_valid, of ?wr 0 1 ?b "[]"] by auto
  then show ?thesis by (simp add: ex_buffer_defs)
qed

theorem history_failure_keeps_entries_witness:
  "\<exists>b'. persist_to ex_history_config (\<lambda>rs log. (Some (Raised RuntimeError), log)) 0 1 (ex_buffer [ex_hist_entry] []) () =
      Some (None, b', ()) \<and> map he_record (hb_pending b') = [ex_log_record 5]"
proof -
  let ?b = "ex_buffer [ex_hist_entry] []" and ?wr = "\<lambda>rs log. (Some (Raised RuntimeError), log)"
  have run: "persist_to ex_history_config ?wr 0 1 ?b () = Some (None, ?b\<lparr>hb_next_retry := 1\<rparr>, ())"
    by (subst persist_to.simps) (simp add: write_due_def write_failed_def Let_def ex_buffer_defs)
  have "hb_written (?b\<lparr>hb_next_retry := 1\<rparr>) = []" "hb_written ?b = []" by (simp_all add: ex_buffer_def)
  with history_failure_keeps_entries [OF ex_history_valid run] run show ?thesis
    by (simp add: ex_buffer_defs)
qed

end
