(* ===== verification/Live_Buffer.thy ===== *)
theory Live_Buffer
  imports Event_Models "HOL-Library.Multiset" "HOL-Library.Sublist"
begin

text \<open>
  The producer-side buffer of live events (\<open>events/buffer.py\<close>). Events wait in \<open>order\<close> and in an
  index by key until a drain hands them to the sink; work requested from inside a callback of the
  drain is deferred. The drain is a machine of stages, one per point at which it waits. \<open>lb_input\<close>
  is the stream of accepted events and requested callbacks, \<open>lb_log\<close> what was handed out so far.
\<close>

section \<open>State\<close>

datatype buffer_key = TaskKey string | ScopeKey string "string option"

text \<open>The key \<open>("scope", scope, scope_key)\<close> is \<open>ScopeKey scope scope_key\<close>.\<close>

text \<open>\<open>bi_id\<close> is the identity of the object.\<close>

record buffered =
  bi_id :: nat
  bi_key :: buffer_key
  bi_event :: queue_event
  bi_channels :: "string list"

type_synonym release = "nat \<times> buffer_key"

record delivery =
  dv_items :: "buffered list"
  dv_release :: "release option"

definition delivery_size :: "delivery \<Rightarrow> int" where
  "delivery_size d = max 1 (int (length (dv_items d)))"

datatype overflow = DropOldest | DropNewest | Block | FailOnFull

record buffer_config =
  bc_batch_size :: int
  bc_flush_interval :: rat
  bc_max_pending :: int
  bc_overflow :: overflow

definition buffer_config_post_init :: "buffer_config \<Rightarrow> buffer_config result" where
  "buffer_config_post_init c =
     (if bc_batch_size c \<le> 0 then Inl QueueConfigurationError
      else if bc_flush_interval c \<le> 0 then Inl QueueConfigurationError
      else if bc_max_pending c \<le> 0 then Inl QueueConfigurationError
      else Inr c)"

definition max_pending :: "buffer_config \<Rightarrow> int" where
  "max_pending c = max 1 (bc_max_pending c)"

text \<open>\<open>flush(key)\<close> and \<open>publish_immediate(key, release)\<close>.\<close>

datatype request = Flush "buffer_key option" | Immediate release

fun req_key :: "request \<Rightarrow> buffer_key option" where
  "req_key (Flush key) = key"
| "req_key (Immediate r) = Some (snd r)"

fun req_release :: "request \<Rightarrow> release option" where
  "req_release (Flush key) = None"
| "req_release (Immediate r) = Some r"

datatype drain_phase = Before request | Own | After

datatype stage =
    Idle
  | Loop drain_phase
  | Locking request
  | Delivering drain_phase delivery
  | Running drain_phase

datatype emission = Sent buffered | Ran release

record live_buffer =
  lb_order :: "buffered list"
  lb_pending :: "(buffer_key \<times> buffered list) list"
  lb_deferred :: "delivery list"
  lb_deferred_size :: int
  lb_warned_drop :: bool
  lb_stage :: stage
  lb_next_id :: nat
  lb_input :: "emission list"
  lb_log :: "emission list"

definition lb_init :: live_buffer where
  "lb_init = \<lparr>lb_order = [], lb_pending = [], lb_deferred = [], lb_deferred_size = 0, lb_warned_drop = False,
     lb_stage = Idle, lb_next_id = 0, lb_input = [], lb_log = []\<rparr>"

definition event_buffer_key :: "queue_event \<Rightarrow> buffer_key" where
  "event_buffer_key e =
     (case ev_task_id e of Some t \<Rightarrow> TaskKey t | None \<Rightarrow> ScopeKey (ev_scope e) (ev_scope_key e))"

section \<open>The two views of the waiting events\<close>

definition lb_append :: "buffered \<Rightarrow> live_buffer \<Rightarrow> live_buffer" where
  "lb_append item b =
     b\<lparr>lb_order := lb_order b @ [item],
       lb_pending := dict_set (bi_key item)
         ((case dict_get (lb_pending b) (bi_key item) of None \<Rightarrow> [] | Some items \<Rightarrow> items) @ [item]) (lb_pending b),
       lb_next_id := Suc (lb_next_id b),
       lb_input := lb_input b @ [Sent item]\<rparr>"

text \<open>\<open>items.remove(item)\<close> compares the fields, not the identity, and removes the first equal one.\<close>

fun remove_equal :: "buffered \<Rightarrow> buffered list \<Rightarrow> buffered list" where
  "remove_equal x [] = []"
| "remove_equal x (y # ys) = (if y\<lparr>bi_id := bi_id x\<rparr> = x then ys else y # remove_equal x ys)"

definition remove_from_pending :: "buffered \<Rightarrow> (buffer_key \<times> buffered list) list \<Rightarrow> (buffer_key \<times> buffered list) list" where
  "remove_from_pending item d =
     (case dict_get d (bi_key item) of
        None \<Rightarrow> d
      | Some [] \<Rightarrow> d
      | Some items \<Rightarrow>
          let rest = remove_equal item items in
          if rest = [] then dict_del (bi_key item) d else dict_set (bi_key item) rest d)"

definition drop_oldest :: "live_buffer \<Rightarrow> live_buffer" where
  "drop_oldest b =
     (case lb_order b of
        [] \<Rightarrow> b
      | item # rest \<Rightarrow>
          b\<lparr>lb_order := rest, lb_pending := remove_from_pending item (lb_pending b), lb_warned_drop := True,
            lb_input := filter (\<lambda>o'. o' \<noteq> Sent item) (lb_input b)\<rparr>)"

definition lb_drain :: "buffer_key option \<Rightarrow> live_buffer \<Rightarrow> buffered list \<times> live_buffer" where
  "lb_drain key b =
     (case key of
        None \<Rightarrow> (lb_order b, b\<lparr>lb_order := [], lb_pending := []\<rparr>)
      | Some k \<Rightarrow>
          (case dict_get (lb_pending b) k of
             None \<Rightarrow> ([], b)
           | Some items \<Rightarrow>
               let b' = b\<lparr>lb_pending := dict_del k (lb_pending b)\<rparr> in
               if items = [] then ([], b')
               else (items, b'\<lparr>lb_order := filter (\<lambda>x. bi_id x \<notin> bi_id ` set items) (lb_order b)\<rparr>)))"

section \<open>Adding events\<close>

datatype add_outcome = Added bool | DroppedNew | FullError | MustWait

text \<open>\<open>reentrant\<close> tells whether the caller runs inside the active drain. The result of \<open>Added\<close>
  is whether a flush follows; \<open>MustWait\<close> sleeps until the buffer was drained and tries again.\<close>

definition buffer_append ::
    "buffer_config \<Rightarrow> bool \<Rightarrow> queue_event \<Rightarrow> string list \<Rightarrow> live_buffer \<Rightarrow> add_outcome \<times> live_buffer" where
  "buffer_append c reentrant e channels b =
     (if reentrant \<and> int (length (lb_order b)) + 1 \<ge> bc_batch_size c \<and>
         lb_deferred_size b + int (length (lb_order b)) + 1 > max_pending c
      then (FullError, b)
      else
        let b' = lb_append \<lparr>bi_id = lb_next_id b, bi_key = event_buffer_key e, bi_event = e, bi_channels = channels\<rparr> b
        in (Added (int (length (lb_order b')) \<ge> bc_batch_size c), b'))"

definition buffer_add ::
    "buffer_config \<Rightarrow> bool \<Rightarrow> queue_event \<Rightarrow> string list \<Rightarrow> live_buffer \<Rightarrow> add_outcome \<times> live_buffer" where
  "buffer_add c reentrant e channels b =
     (if int (length (lb_order b)) < max_pending c then buffer_append c reentrant e channels b
      else case bc_overflow c of
             DropOldest \<Rightarrow> buffer_append c reentrant e channels (drop_oldest b)
           | DropNewest \<Rightarrow> (DroppedNew, b\<lparr>lb_warned_drop := True\<rparr>)
           | FailOnFull \<Rightarrow> (FullError, b)
           | Block \<Rightarrow> (if reentrant then (FullError, b) else (MustWait, b)))"

section \<open>Drains\<close>

fun release_emissions :: "release option \<Rightarrow> emission list" where
  "release_emissions None = []"
| "release_emissions (Some r) = [Ran r]"

definition op_emissions :: "delivery \<Rightarrow> emission list" where
  "op_emissions d = map Sent (dv_items d) @ release_emissions (dv_release d)"

definition take_delivery :: "request \<Rightarrow> live_buffer \<Rightarrow> delivery \<times> live_buffer" where
  "take_delivery q b =
     (let (items, b') = lb_drain (req_key q) b in
      (\<lparr>dv_items = items, dv_release = req_release q\<rparr>,
       b'\<lparr>lb_input := lb_input b' @ release_emissions (req_release q)\<rparr>))"

text \<open>A dispatch from inside the active drain. \<open>None\<close> is the error that the queue is full.\<close>

definition defer_dispatch :: "buffer_config \<Rightarrow> request \<Rightarrow> live_buffer \<Rightarrow> live_buffer option" where
  "defer_dispatch c q b =
     (let count = (case req_key q of
            None \<Rightarrow> length (lb_order b)
          | Some k \<Rightarrow> (case dict_get (lb_pending b) k of None \<Rightarrow> 0 | Some items \<Rightarrow> length items)) in
      if count = 0 \<and> req_release q = None then Some b
      else if lb_deferred_size b + max 1 (int count) > max_pending c then None
      else let (op, b') = take_delivery q b in
           Some (b'\<lparr>lb_deferred := lb_deferred b' @ [op], lb_deferred_size := lb_deferred_size b' + delivery_size op\<rparr>))"

fun next_phase :: "drain_phase \<Rightarrow> drain_phase" where
  "next_phase (Before q) = Before q"
| "next_phase Own = After"
| "next_phase After = After"

text \<open>\<open>_deliver\<close> up to the call of the sink, which receives the items of the delivery at once.\<close>

definition deliver_start :: "drain_phase \<Rightarrow> delivery \<Rightarrow> live_buffer \<Rightarrow> live_buffer" where
  "deliver_start ph op b =
     b\<lparr>lb_deferred_size := lb_deferred_size b + (if dv_release op \<noteq> None then 1 else 0),
       lb_log := lb_log b @ map Sent (dv_items op), lb_stage := Delivering ph op\<rparr>"

text \<open>The sink returned or raised an ordinary exception.\<close>

definition deliver_published :: "drain_phase \<Rightarrow> delivery \<Rightarrow> live_buffer \<Rightarrow> live_buffer" where
  "deliver_published ph op b =
     (case dv_release op of
        None \<Rightarrow> b\<lparr>lb_stage := Loop (next_phase ph)\<rparr>
      | Some r \<Rightarrow> b\<lparr>lb_deferred_size := lb_deferred_size b - 1, lb_log := lb_log b @ [Ran r],
                    lb_stage := Running (next_phase ph)\<rparr>)"

definition deliver_cancelled :: "delivery \<Rightarrow> live_buffer \<Rightarrow> live_buffer" where
  "deliver_cancelled op b =
     b\<lparr>lb_deferred := (if dv_release op \<noteq> None then [\<lparr>dv_items = [], dv_release = dv_release op\<rparr>] else []) @ lb_deferred b,
       lb_stage := Idle\<rparr>"

text \<open>\<open>contended\<close> allows other callers to take the condition's lock first while a drain waits for it.\<close>

inductive lb_step :: "buffer_config \<Rightarrow> bool \<Rightarrow> live_buffer \<Rightarrow> live_buffer \<Rightarrow> bool" for c contended where
  lb_add: "buffer_add c reentrant e channels b = (out, b') \<Longrightarrow> (reentrant \<longrightarrow> lb_stage b \<noteq> Idle) \<Longrightarrow>
    (contended \<or> (\<forall>q. lb_stage b \<noteq> Locking q)) \<Longrightarrow> lb_step c contended b b'"
| lb_defer: "defer_dispatch c q b = Some b' \<Longrightarrow> lb_stage b \<noteq> Idle \<Longrightarrow>
    (contended \<or> (\<forall>q. lb_stage b \<noteq> Locking q)) \<Longrightarrow> lb_step c contended b b'"
| lb_begin: "lb_stage b = Idle \<Longrightarrow> lb_step c contended b (b\<lparr>lb_stage := Loop (Before q)\<rparr>)"
| lb_pop: "lb_stage b = Loop ph \<Longrightarrow> lb_deferred b = op # ops \<Longrightarrow>
    lb_step c contended b
      (deliver_start ph op (b\<lparr>lb_deferred := ops, lb_deferred_size := lb_deferred_size b - delivery_size op\<rparr>))"
| lb_lock: "lb_stage b = Loop (Before q) \<Longrightarrow> lb_deferred b = [] \<Longrightarrow>
    lb_step c contended b (b\<lparr>lb_stage := Locking q\<rparr>)"
| lb_take: "lb_stage b = Locking q \<Longrightarrow> take_delivery q b = (op, b') \<Longrightarrow>
    lb_step c contended b (deliver_start Own op b')"
| lb_published: "lb_stage b = Delivering ph op \<Longrightarrow> lb_step c contended b (deliver_published ph op b)"
| lb_cancelled: "lb_stage b = Delivering ph op \<Longrightarrow> dv_items op \<noteq> [] \<Longrightarrow> lb_step c contended b (deliver_cancelled op b)"
| lb_ran: "lb_stage b = Running ph \<Longrightarrow> lb_step c contended b (b\<lparr>lb_stage := Loop ph\<rparr>)"
| lb_aborted: "lb_stage b = Running ph \<or> lb_stage b = Locking q \<Longrightarrow> lb_step c contended b (b\<lparr>lb_stage := Idle\<rparr>)"
| lb_finish: "lb_stage b = Loop After \<Longrightarrow> lb_deferred b = [] \<Longrightarrow> lb_step c contended b (b\<lparr>lb_stage := Idle\<rparr>)"

inductive lb_reachable :: "buffer_config \<Rightarrow> bool \<Rightarrow> live_buffer \<Rightarrow> bool" for c contended where
  lb_start: "lb_reachable c contended lb_init"
| lb_stepped: "lb_reachable c contended b \<Longrightarrow> lb_step c contended b b' \<Longrightarrow> lb_reachable c contended b'"

section \<open>Invariant\<close>

definition in_delivery :: "live_buffer \<Rightarrow> emission list" where
  "in_delivery b =
     (case lb_stage b of
        Delivering ph op \<Rightarrow> release_emissions (dv_release op)
      | _ \<Rightarrow> [])"

definition stream :: "live_buffer \<Rightarrow> emission list" where
  "stream b = lb_log b @ in_delivery b @ concat (map op_emissions (lb_deferred b)) @ map Sent (lb_order b)"

fun of_key :: "buffer_key \<Rightarrow> emission \<Rightarrow> bool" where
  "of_key k (Sent item) = (bi_key item = k)"
| "of_key k (Ran r) = (snd r = k)"

definition index_ok :: "live_buffer \<Rightarrow> bool" where
  "index_ok b \<longleftrightarrow>
     (\<forall>k. dict_get (lb_pending b) k =
        (let items = filter (\<lambda>x. bi_key x = k) (lb_order b) in if items = [] then None else Some items)) \<and>
     distinct (map bi_id (lb_order b)) \<and> (\<forall>x \<in> set (lb_order b). bi_id x < lb_next_id b)"

definition sizes_ok :: "buffer_config \<Rightarrow> live_buffer \<Rightarrow> bool" where
  "sizes_ok c b \<longleftrightarrow>
     int (length (lb_order b)) \<le> max_pending c \<and>
     lb_deferred_size b = int (length (in_delivery b)) + (\<Sum>d \<leftarrow> lb_deferred b. delivery_size d) \<and>
     lb_deferred_size b \<le> max_pending c + 1"

fun sent_ids :: "emission list \<Rightarrow> nat list" where
  "sent_ids [] = []"
| "sent_ids (Sent x # os) = bi_id x # sent_ids os"
| "sent_ids (Ran r # os) = sent_ids os"

lemma sent_ids_append [simp]: "sent_ids (xs @ ys) = sent_ids xs @ sent_ids ys"
  by (induction xs rule: sent_ids.induct) simp_all

lemma sent_ids_map [simp]: "sent_ids (map Sent xs) = map bi_id xs"
  by (induction xs) simp_all

lemma sent_ids_release [simp]: "sent_ids (release_emissions rel) = []"
  by (cases rel) simp_all

lemma sent_id_mem: "Sent x \<in> set os \<Longrightarrow> bi_id x \<in> set (sent_ids os)"
  by (induction os rule: sent_ids.induct) auto

lemma sent_ids_filter: "set (sent_ids (filter P os)) \<subseteq> set (sent_ids os)"
  "distinct (sent_ids os) \<Longrightarrow> distinct (sent_ids (filter P os))"
proof -
  show sub: "set (sent_ids (filter P os)) \<subseteq> set (sent_ids os)" for os
    by (induction os rule: sent_ids.induct) auto
  show "distinct (sent_ids os) \<Longrightarrow> distinct (sent_ids (filter P os))"
    by (induction os rule: sent_ids.induct) (use sub in auto)
qed

lemma mset_sent_ids: "mset (sent_ids os) = image_mset (\<lambda>e. case e of Sent x \<Rightarrow> bi_id x | Ran r \<Rightarrow> 0)
    (filter_mset (\<lambda>e. case e of Sent x \<Rightarrow> True | Ran r \<Rightarrow> False) (mset os))"
  by (induction os rule: sent_ids.induct) simp_all

lemma sent_ids_mset_eq:
  assumes "mset xs = mset ys"
  shows "mset (sent_ids xs) = mset (sent_ids ys)"
  using assms by (simp add: mset_sent_ids)

definition lb_inv :: "buffer_config \<Rightarrow> bool \<Rightarrow> live_buffer \<Rightarrow> bool" where
  "lb_inv c contended b \<longleftrightarrow>
     index_ok b \<and> sizes_ok c b \<and> ((\<exists>q. lb_stage b = Locking q) \<longrightarrow> lb_deferred_size b \<le> max_pending c) \<and>
     mset (stream b) = mset (lb_input b) \<and>
     distinct (sent_ids (lb_input b)) \<and> (\<forall>i \<in> set (sent_ids (lb_input b)). i < lb_next_id b) \<and>
     (\<not> contended \<longrightarrow>
        (\<forall>k. filter (of_key k) (stream b) = filter (of_key k) (lb_input b)) \<and>
        ((\<exists>q. lb_stage b = Locking q) \<longrightarrow> lb_deferred b = []))"

section \<open>Preservation\<close>

definition matches_key :: "buffer_key option \<Rightarrow> buffered \<Rightarrow> bool" where
  "matches_key key x \<longleftrightarrow> (case key of None \<Rightarrow> True | Some k \<Rightarrow> bi_key x = k)"

lemma matches_key_simps:
  "matches_key None = (\<lambda>x. True)" "matches_key (Some k) = (\<lambda>x. bi_key x = k)"
  by (simp_all add: matches_key_def fun_eq_iff)

lemma lb_drain_result:
  assumes ok: "index_ok b"
  shows "\<exists>p. lb_drain key b = (filter (matches_key key) (lb_order b),
      b\<lparr>lb_order := filter (\<lambda>x. \<not> matches_key key x) (lb_order b), lb_pending := p\<rparr>) \<and>
    index_ok (b\<lparr>lb_order := filter (\<lambda>x. \<not> matches_key key x) (lb_order b), lb_pending := p\<rparr>)"
proof (cases key)
  case None
  then show ?thesis by (auto simp: lb_drain_def matches_key_def index_ok_def Let_def)
next
  case (Some k)
  have m: "matches_key (Some k) = (\<lambda>x. bi_key x = k)" by (simp add: matches_key_def fun_eq_iff)
  have get: "dict_get (lb_pending b) k = (if filter (\<lambda>x. bi_key x = k) (lb_order b) = [] then None
      else Some (filter (\<lambda>x. bi_key x = k) (lb_order b)))"
    using ok by (simp add: index_ok_def Let_def)
  show ?thesis
  proof (cases "filter (\<lambda>x. bi_key x = k) (lb_order b) = []")
    case True
    then have "filter (\<lambda>x. \<not> bi_key x = k) (lb_order b) = lb_order b" by (simp add: filter_empty_conv)
    moreover have "b\<lparr>lb_order := lb_order b, lb_pending := lb_pending b\<rparr> = b" by (cases b) simp
    ultimately show ?thesis using True get ok
      by (intro exI [of _ "lb_pending b"]) (simp add: lb_drain_def Some m)
  next
    case False
    let ?p = "dict_del k (lb_pending b)"
    have inj: "inj_on bi_id (set (lb_order b))" using ok by (simp add: index_ok_def distinct_map)
    have rest: "filter (\<lambda>x. bi_id x \<notin> bi_id ` set (filter (\<lambda>x. bi_key x = k) (lb_order b))) (lb_order b) =
        filter (\<lambda>x. bi_key x \<noteq> k) (lb_order b)"
      by (rule filter_cong [OF refl]) (use inj_on_eq_iff [OF inj] in auto)
    have "dict_get ?p k' = (let items = filter (\<lambda>x. bi_key x = k') (filter (\<lambda>x. bi_key x \<noteq> k) (lb_order b))
        in if items = [] then None else Some items)" for k'
    proof (cases "k' = k")
      case False
      then have "filter (\<lambda>x. bi_key x = k') (filter (\<lambda>x. bi_key x \<noteq> k) (lb_order b)) =
          filter (\<lambda>x. bi_key x = k') (lb_order b)"
        unfolding filter_filter by (intro filter_cong) auto
      with False ok show ?thesis by (simp add: index_ok_def dict_simps)
    qed (simp add: dict_simps Let_def)
    with ok have "index_ok (b\<lparr>lb_order := filter (\<lambda>x. bi_key x \<noteq> k) (lb_order b), lb_pending := ?p\<rparr>)"
      by (simp add: index_ok_def distinct_map_filter)
    with False get show ?thesis
      by (intro exI [of _ ?p]) (simp add: lb_drain_def Some m rest [simplified] Let_def)
  qed
qed

lemma filter_split_key:
  assumes "\<And>o'. o' \<in> set R \<Longrightarrow> (\<exists>k. key = Some k \<and> of_key k o')" and "key = None \<Longrightarrow> R = []"
  shows "filter (of_key k) (map Sent (filter (matches_key key) xs) @ R @ map Sent (filter (\<lambda>x. \<not> matches_key key x) xs)) =
    filter (of_key k) (map Sent xs @ R)"
proof (cases "key = Some k")
  case True
  then show ?thesis by (induction xs) (auto simp: matches_key_def)
next
  case False
  have "of_key a o' \<Longrightarrow> of_key b o' \<Longrightarrow> a = b" for a b o' by (cases o') auto
  then have "filter (of_key k) R = []" using False assms unfolding filter_empty_conv by metis
  moreover have "filter (of_key k) (map Sent (filter (matches_key key) xs)) @
      filter (of_key k) (map Sent (filter (\<lambda>x. \<not> matches_key key x) xs)) = filter (of_key k) (map Sent xs)"
    using False by (cases key; induction xs) (auto simp: matches_key_def)
  ultimately show ?thesis by simp
qed

lemma mset_split_key:
  "mset (map Sent (filter (matches_key key) xs)) + mset (map Sent (filter (\<lambda>x. \<not> matches_key key x) xs)) =
   mset (map Sent xs)"
  by (simp only: mset_map mset_filter flip: image_mset_union multiset_partition)

lemma req_release_key:
  "o' \<in> set (release_emissions (req_release q)) \<Longrightarrow> \<exists>k. req_key q = Some k \<and> of_key k o'"
  "req_key q = None \<Longrightarrow> release_emissions (req_release q) = []"
  by (cases q; simp)+

text \<open>What a drain takes, and what it leaves.\<close>

lemma take_delivery_result:
  assumes "index_ok b" and "take_delivery q b = (op, b')"
  obtains p where "op = \<lparr>dv_items = filter (matches_key (req_key q)) (lb_order b), dv_release = req_release q\<rparr>"
    and "b' = b\<lparr>lb_order := filter (\<lambda>x. \<not> matches_key (req_key q) x) (lb_order b), lb_pending := p,
        lb_input := lb_input b @ release_emissions (req_release q)\<rparr>"
    and "index_ok b'"
  using lb_drain_result [OF assms(1), of "req_key q"] assms(2)
  by (auto simp: take_delivery_def index_ok_def)

lemma delivery_size_pos: "1 \<le> delivery_size d" "int (length (dv_items d)) \<le> delivery_size d"
  by (simp_all add: delivery_size_def)

lemma sizes_nonneg: "0 \<le> (\<Sum>d \<leftarrow> ds. delivery_size d)"
  using delivery_size_pos(1) by (induction ds) (auto, smt (verit) delivery_size_pos(1))

lemma max_pending_pos: "1 \<le> max_pending c"
  by (simp add: max_pending_def)

lemma lb_inv_init: "lb_inv c contended lb_init"
  using max_pending_pos [of c]
  by (simp add: lb_inv_def lb_init_def index_ok_def sizes_ok_def stream_def in_delivery_def)

lemma lb_append_index:
  assumes "index_ok b" and "bi_id item = lb_next_id b"
  shows "index_ok (lb_append item b)"
proof -
  have "dict_get (lb_pending (lb_append item b)) k =
      (let items = filter (\<lambda>x. bi_key x = k) (lb_order b @ [item]) in if items = [] then None else Some items)" for k
    using assms(1) by (auto simp: lb_append_def index_ok_def dict_simps Let_def)
  moreover have "distinct (map bi_id (lb_order b @ [item]))" "\<forall>x \<in> set (lb_order b @ [item]). bi_id x < Suc (lb_next_id b)"
    using assms by (auto simp: index_ok_def)
  ultimately show ?thesis by (simp add: index_ok_def lb_append_def)
qed

lemma in_delivery_unchanged [simp]:
  "in_delivery (b\<lparr>lb_order := xs, lb_pending := p, lb_next_id := n, lb_input := is\<rparr>) = in_delivery b"
  "in_delivery (b\<lparr>lb_order := xs, lb_pending := p, lb_input := is\<rparr>) = in_delivery b"
  "in_delivery (b\<lparr>lb_order := xs, lb_pending := p, lb_warned_drop := w, lb_input := is\<rparr>) = in_delivery b"
  "in_delivery (b\<lparr>lb_order := xs, lb_pending := p, lb_input := is, lb_deferred := ds, lb_deferred_size := sz\<rparr>) = in_delivery b"
  "in_delivery (b\<lparr>lb_warned_drop := w\<rparr>) = in_delivery b"
  by (simp_all add: in_delivery_def)

lemma lb_inv_append:
  assumes inv: "lb_inv c contended b" and id: "bi_id item = lb_next_id b" and room: "int (length (lb_order b)) < max_pending c"
  shows "lb_inv c contended (lb_append item b)"
proof -
  have st: "stream (lb_append item b) = stream b @ [Sent item]" by (simp add: stream_def lb_append_def)
  moreover have "sizes_ok c (lb_append item b)" using inv room by (simp add: lb_inv_def sizes_ok_def lb_append_def)
  moreover have "lb_input (lb_append item b) = lb_input b @ [Sent item]" "lb_stage (lb_append item b) = lb_stage b"
    "lb_deferred (lb_append item b) = lb_deferred b" "lb_next_id (lb_append item b) = Suc (lb_next_id b)"
    "lb_deferred_size (lb_append item b) = lb_deferred_size b"
    by (simp_all add: lb_append_def)
  ultimately show ?thesis
    using inv lb_append_index [of b item] id unfolding lb_inv_def by (auto simp del: filter.simps)
qed

lemma remove_from_pending_index:
  assumes ok: "index_ok b" and order: "lb_order b = item # rest"
  shows "dict_get (remove_from_pending item (lb_pending b)) k =
    (let items = filter (\<lambda>x. bi_key x = k) rest in if items = [] then None else Some items)"
proof -
  have "dict_get (lb_pending b) (bi_key item) = Some (item # filter (\<lambda>x. bi_key x = bi_key item) rest)"
    using ok order by (simp add: index_ok_def Let_def)
  moreover have "remove_equal item (item # xs) = xs" for xs by simp
  moreover have "dict_get (lb_pending b) k = (let items = filter (\<lambda>x. bi_key x = k) (item # rest) in
      if items = [] then None else Some items)"
    using ok order by (simp add: index_ok_def)
  ultimately show ?thesis
    by (cases "k = bi_key item") (auto simp: remove_from_pending_def Let_def dict_simps)
qed

lemma lb_inv_drop:
  assumes inv: "lb_inv c contended b"
  shows "lb_inv c contended (drop_oldest b)" and "lb_order b \<noteq> [] \<Longrightarrow>
    length (lb_order b) = Suc (length (lb_order (drop_oldest b)))"
proof -
  show "lb_inv c contended (drop_oldest b)"
  proof (cases "lb_order b")
    case Nil
    with inv show ?thesis by (simp add: drop_oldest_def)
  next
    case (Cons item rest)
    let ?P = "\<lambda>o'. o' \<noteq> Sent item"
    let ?A = "lb_log b @ in_delivery b @ concat (map op_emissions (lb_deferred b))"
    let ?b = "drop_oldest b"
    have st: "stream b = ?A @ Sent item # map Sent rest" by (simp add: stream_def Cons)
    have "mset (sent_ids (stream b)) = mset (sent_ids (lb_input b))"
      using inv by (intro sent_ids_mset_eq) (simp add: lb_inv_def)
    then have "distinct (sent_ids (stream b))"
      using inv by (metis lb_inv_def mset_eq_imp_distinct_iff)
    then have "bi_id item \<notin> set (sent_ids ?A)" "bi_id item \<notin> bi_id ` set rest"
      unfolding st by auto
    then have "Sent item \<notin> set ?A" "Sent item \<notin> set (map Sent rest)"
      using sent_id_mem by (blast, auto)
    then have fl: "filter ?P (stream b) = ?A @ map Sent rest"
    proof -
      have "filter ?P ?A = ?A" "filter ?P (map Sent rest) = map Sent rest"
        unfolding filter_id_conv using \<open>Sent item \<notin> set ?A\<close> \<open>Sent item \<notin> set (map Sent rest)\<close> by metis+
      then show ?thesis unfolding st by (simp del: map_append)
    qed
    have st': "stream ?b = filter ?P (stream b)" unfolding fl by (simp add: stream_def drop_oldest_def Cons)
    have inp: "lb_input ?b = filter ?P (lb_input b)" by (simp add: drop_oldest_def Cons)
    have "index_ok ?b"
      using inv remove_from_pending_index [OF _ Cons] Cons by (simp add: lb_inv_def index_ok_def drop_oldest_def)
    moreover have "sizes_ok c ?b" using inv Cons by (simp add: lb_inv_def sizes_ok_def drop_oldest_def)
    moreover have "mset (stream ?b) = mset (lb_input ?b)" unfolding st' inp using inv by (simp add: lb_inv_def)
    moreover have "filter (of_key k) (stream ?b) = filter (of_key k) (lb_input ?b)" if "\<not> contended" for k
    proof -
      have "filter (of_key k) (stream b) = filter (of_key k) (lb_input b)" using inv that by (simp add: lb_inv_def)
      then have "filter ?P (filter (of_key k) (stream b)) = filter ?P (filter (of_key k) (lb_input b))" by simp
      then show ?thesis unfolding st' inp by (simp only: filter_filter conj_commute)
    qed
    moreover have "distinct (sent_ids (lb_input ?b))"
      unfolding inp using inv by (intro sent_ids_filter(2)) (simp add: lb_inv_def)
    moreover have "\<forall>i \<in> set (sent_ids (lb_input ?b)). i < lb_next_id b"
      unfolding inp using inv subsetD [OF sent_ids_filter(1)] unfolding lb_inv_def by blast
    moreover have "lb_stage ?b = lb_stage b" "lb_deferred ?b = lb_deferred b" "lb_next_id ?b = lb_next_id b"
      "lb_deferred_size ?b = lb_deferred_size b"
      by (simp_all add: drop_oldest_def Cons)
    ultimately show ?thesis using inv unfolding lb_inv_def by simp
  qed
qed (auto simp: drop_oldest_def split: list.split)

lemma lb_inv_buffer_append:
  assumes "lb_inv c contended b" and "int (length (lb_order b)) < max_pending c"
    and "buffer_append c reentrant e channels b = (out, b')"
  shows "lb_inv c contended b'"
  using assms by (auto simp: buffer_append_def Let_def intro: lb_inv_append split: if_splits)

lemma lb_inv_add:
  assumes inv: "lb_inv c contended b" and add: "buffer_add c reentrant e channels b = (out, b')"
  shows "lb_inv c contended b'"
proof (cases "int (length (lb_order b)) < max_pending c")
  case True
  with add lb_inv_buffer_append [OF inv] show ?thesis by (simp add: buffer_add_def)
next
  case False
  have "stream (b\<lparr>lb_warned_drop := w\<rparr>) = stream b" "index_ok (b\<lparr>lb_warned_drop := w\<rparr>) = index_ok b"
    "sizes_ok c (b\<lparr>lb_warned_drop := w\<rparr>) = sizes_ok c b" for w
    by (simp_all add: index_ok_def sizes_ok_def stream_def)
  then have warned: "lb_inv c contended (b\<lparr>lb_warned_drop := w\<rparr>)" for w
    using inv unfolding lb_inv_def by simp
  have "lb_order b \<noteq> []" using False max_pending_pos [of c] by auto
  then have room: "int (length (lb_order (drop_oldest b))) < max_pending c"
    using lb_inv_drop(2) [OF inv] inv by (simp add: lb_inv_def sizes_ok_def)
  show ?thesis
    using add False inv warned lb_inv_buffer_append [OF lb_inv_drop(1) [OF inv] room]
    by (cases "bc_overflow c") (auto simp: buffer_add_def split: if_splits)
qed

text \<open>Taking a delivery moves the matching events out of \<open>order\<close>; here they go, with the callback,
  between \<open>front\<close> and what is left.\<close>

lemma taken_stream:
  shows "filter (of_key k) (front @ (map Sent (filter (matches_key (req_key q)) xs) @ release_emissions (req_release q)) @
      map Sent (filter (\<lambda>x. \<not> matches_key (req_key q) x) xs)) =
    filter (of_key k) (front @ map Sent xs) @ filter (of_key k) (release_emissions (req_release q))"
    and "mset (front @ (map Sent (filter (matches_key (req_key q)) xs) @ release_emissions (req_release q)) @
      map Sent (filter (\<lambda>x. \<not> matches_key (req_key q) x) xs)) =
    mset (front @ map Sent xs) + mset (release_emissions (req_release q))"
proof -
  have "filter (of_key k) (map Sent (filter (matches_key (req_key q)) xs) @ release_emissions (req_release q) @
      map Sent (filter (\<lambda>x. \<not> matches_key (req_key q) x) xs)) =
    filter (of_key k) (map Sent xs @ release_emissions (req_release q))"
    using req_release_key by (intro filter_split_key)
  then show "filter (of_key k) (front @ (map Sent (filter (matches_key (req_key q)) xs) @ release_emissions (req_release q)) @
      map Sent (filter (\<lambda>x. \<not> matches_key (req_key q) x) xs)) =
    filter (of_key k) (front @ map Sent xs) @ filter (of_key k) (release_emissions (req_release q))" by simp
  show "mset (front @ (map Sent (filter (matches_key (req_key q)) xs) @ release_emissions (req_release q)) @
      map Sent (filter (\<lambda>x. \<not> matches_key (req_key q) x) xs)) =
    mset (front @ map Sent xs) + mset (release_emissions (req_release q))"
    using mset_split_key [of "req_key q" xs] by (simp del: mset_map add: ac_simps)
qed

lemma lb_inv_defer:
  assumes inv: "lb_inv c contended b" and res: "defer_dispatch c q b = Some b'"
    and free: "contended \<or> (\<forall>q. lb_stage b \<noteq> Locking q)"
  shows "lb_inv c contended b'"
proof -
  obtain op b1 where take: "take_delivery q b = (op, b1)" by (cases "take_delivery q b")
  have idx: "index_ok b" using inv by (simp add: lb_inv_def)
  obtain p where op: "op = \<lparr>dv_items = filter (matches_key (req_key q)) (lb_order b), dv_release = req_release q\<rparr>"
    and b1: "b1 = b\<lparr>lb_order := filter (\<lambda>x. \<not> matches_key (req_key q) x) (lb_order b), lb_pending := p,
        lb_input := lb_input b @ release_emissions (req_release q)\<rparr>" and idx1: "index_ok b1"
    by (rule take_delivery_result [OF idx take])
  consider "b' = b" | "b' = b1\<lparr>lb_deferred := lb_deferred b @ [op], lb_deferred_size := lb_deferred_size b + delivery_size op\<rparr>"
      "lb_deferred_size b + delivery_size op \<le> max_pending c"
  proof -
    have "(case req_key q of None \<Rightarrow> length (lb_order b)
        | Some k \<Rightarrow> (case dict_get (lb_pending b) k of None \<Rightarrow> 0 | Some items \<Rightarrow> length items)) = length (dv_items op)"
      using idx by (auto simp: op index_ok_def Let_def matches_key_simps split: option.splits)
    with res take that show ?thesis
      by (auto simp: defer_dispatch_def delivery_size_def b1 split: if_splits)
  qed
  then show ?thesis
  proof cases
    case 2
    have st: "lb_stage b' = lb_stage b" "in_delivery b' = in_delivery b" by (simp_all add: 2(1) b1 in_delivery_def)
    let ?front = "lb_log b @ in_delivery b @ concat (map op_emissions (lb_deferred b))"
    have s': "stream b' = ?front @ (map Sent (filter (matches_key (req_key q)) (lb_order b)) @ release_emissions (req_release q)) @
        map Sent (filter (\<lambda>x. \<not> matches_key (req_key q) x) (lb_order b))"
      by (simp add: stream_def st) (simp add: 2(1) b1 op op_emissions_def)
    have s: "stream b = ?front @ map Sent (lb_order b)" by (simp add: stream_def)
    have "index_ok b'" using idx1 by (simp add: 2(1) index_ok_def)
    moreover have "sizes_ok c b'"
    proof -
      have "int (length (filter (\<lambda>x. \<not> matches_key (req_key q) x) (lb_order b))) \<le> max_pending c"
        using inv unfolding lb_inv_def sizes_ok_def by (meson length_filter_le of_nat_le_iff order_trans)
      then show ?thesis using inv 2(2) unfolding lb_inv_def sizes_ok_def st by (simp add: 2(1) b1)
    qed
    moreover have "lb_input b' = lb_input b @ release_emissions (req_release q)" "lb_next_id b' = lb_next_id b"
      "lb_deferred_size b' = lb_deferred_size b + delivery_size op"
      by (simp_all add: 2(1) b1)
    ultimately show ?thesis
      using inv free 2(2) taken_stream(1) [of _ ?front q "lb_order b", folded s s']
        taken_stream(2) [of ?front q "lb_order b", folded s s']
      unfolding lb_inv_def st by auto
  qed (use inv in simp)
qed

lemma lb_inv_take:
  assumes inv: "lb_inv c contended b" and lock: "lb_stage b = Locking q" and take: "take_delivery q b = (op, b1)"
  shows "lb_inv c contended (deliver_start Own op b1)"
proof -
  have idx: "index_ok b" using inv by (simp add: lb_inv_def)
  obtain p where op: "op = \<lparr>dv_items = filter (matches_key (req_key q)) (lb_order b), dv_release = req_release q\<rparr>"
    and b1: "b1 = b\<lparr>lb_order := filter (\<lambda>x. \<not> matches_key (req_key q) x) (lb_order b), lb_pending := p,
        lb_input := lb_input b @ release_emissions (req_release q)\<rparr>" and idx1: "index_ok b1"
    by (rule take_delivery_result [OF idx take])
  let ?b = "deliver_start Own op b1"
  let ?items = "map Sent (filter (matches_key (req_key q)) (lb_order b)) @ release_emissions (req_release q)"
  let ?rest = "map Sent (filter (\<lambda>x. \<not> matches_key (req_key q) x) (lb_order b))"
  let ?D = "concat (map op_emissions (lb_deferred b))"
  have fields: "lb_stage ?b = Delivering Own op" "lb_deferred ?b = lb_deferred b" "lb_next_id ?b = lb_next_id b"
    "lb_input ?b = lb_input b @ release_emissions (req_release q)"
    "lb_deferred_size ?b = lb_deferred_size b + (if req_release q \<noteq> None then 1 else 0)"
    "lb_order ?b = filter (\<lambda>x. \<not> matches_key (req_key q) x) (lb_order b)"
    by (simp_all add: deliver_start_def b1 op)
  have ind: "in_delivery ?b = release_emissions (req_release q)" unfolding in_delivery_def fields(1) by (simp add: op)
  have "in_delivery b = []" by (simp add: in_delivery_def lock)
  then have s: "stream b = lb_log b @ ?D @ map Sent (lb_order b)" by (simp add: stream_def)
  have s': "stream ?b = lb_log b @ ?items @ ?D @ ?rest"
    by (simp add: stream_def ind) (simp add: deliver_start_def b1 op)
  have "index_ok ?b" using idx1 by (simp add: index_ok_def deliver_start_def)
  moreover have "sizes_ok c ?b"
  proof -
    have "int (length (filter (\<lambda>x. \<not> matches_key (req_key q) x) (lb_order b))) \<le> max_pending c"
      using inv unfolding lb_inv_def sizes_ok_def by (meson length_filter_le of_nat_le_iff order_trans)
    moreover have "int (length (release_emissions (req_release q))) = (if req_release q \<noteq> None then 1 else 0)"
      by (cases "req_release q") simp_all
    moreover have "lb_deferred_size b \<le> max_pending c" using inv lock by (auto simp: lb_inv_def)
    ultimately show ?thesis
      using inv \<open>in_delivery b = []\<close> unfolding lb_inv_def sizes_ok_def ind fields by auto
  qed
  moreover have "mset (stream ?b) = mset (lb_input ?b)"
    using inv taken_stream(2) [of "lb_log b @ ?D" q "lb_order b"]
    unfolding s' fields lb_inv_def s by (simp add: ac_simps)
  moreover have "filter (of_key k) (stream ?b) = filter (of_key k) (lb_input ?b)" if "\<not> contended" for k
  proof -
    have "lb_deferred b = []" "filter (of_key k) (stream b) = filter (of_key k) (lb_input b)"
      using inv lock that by (auto simp: lb_inv_def)
    then show ?thesis using taken_stream(1) [of k "lb_log b" q "lb_order b"]
      unfolding s' fields s by simp
  qed
  ultimately show ?thesis using inv unfolding lb_inv_def fields by simp
qed

text \<open>Steps that only move the front of the stream keep the rest.\<close>

lemma lb_inv_same_stream:
  assumes inv: "lb_inv c contended b" and same: "stream b' = stream b" "lb_input b' = lb_input b" "lb_order b' = lb_order b"
    "lb_pending b' = lb_pending b" "lb_next_id b' = lb_next_id b"
    and size: "lb_deferred_size b' = int (length (in_delivery b')) + (\<Sum>d \<leftarrow> lb_deferred b'. delivery_size d)"
    "lb_deferred_size b' \<le> lb_deferred_size b"
    and lock: "\<And>q. lb_stage b' = Locking q \<Longrightarrow> lb_deferred b' = []"
  shows "lb_inv c contended b'"
proof -
  have "lb_deferred_size b' \<le> max_pending c" if "lb_stage b' = Locking q" for q
    using lock [OF that] size(1) that max_pending_pos [of c] by (simp add: in_delivery_def)
  moreover have "index_ok b'" using inv same by (simp add: lb_inv_def index_ok_def)
  moreover have "sizes_ok c b'" using inv same size by (simp add: lb_inv_def sizes_ok_def)
  ultimately show ?thesis using inv same lock unfolding lb_inv_def by auto
qed

lemma lb_inv_step:
  assumes step: "lb_step c contended b b'" and inv: "lb_inv c contended b"
  shows "lb_inv c contended b'"
  using step
proof cases
  case (lb_add reentrant e channels out)
  show ?thesis by (rule lb_inv_add [OF inv lb_add(1)])
next
  case (lb_defer q)
  then show ?thesis by (blast intro: lb_inv_defer [OF inv])
next
  case (lb_begin q)
  then show ?thesis
    using inv by (intro lb_inv_same_stream [OF inv]) (simp_all add: stream_def in_delivery_def lb_inv_def sizes_ok_def)
next
  case (lb_pop ph op ops)
  then show ?thesis
    using inv delivery_size_pos(1) [of op]
    by (intro lb_inv_same_stream [OF inv])
      (cases "dv_release op"; simp add: stream_def in_delivery_def lb_inv_def sizes_ok_def deliver_start_def op_emissions_def)+
next
  case (lb_lock q)
  then show ?thesis
    using inv by (intro lb_inv_same_stream [OF inv]) (simp_all add: stream_def in_delivery_def lb_inv_def sizes_ok_def)
next
  case (lb_take q op b1)
  then show ?thesis by (simp add: lb_inv_take [OF inv])
next
  case (lb_published ph op)
  then show ?thesis
    using inv
    by (intro lb_inv_same_stream [OF inv])
      (cases "dv_release op"; simp add: stream_def in_delivery_def lb_inv_def sizes_ok_def deliver_published_def)+
next
  case (lb_cancelled ph op)
  then show ?thesis
    using inv
    by (intro lb_inv_same_stream [OF inv])
      (cases "dv_release op"; simp add: stream_def in_delivery_def lb_inv_def sizes_ok_def deliver_cancelled_def
        op_emissions_def delivery_size_def)+
next
  case (lb_ran ph)
  then show ?thesis
    using inv by (intro lb_inv_same_stream [OF inv]) (simp_all add: stream_def in_delivery_def lb_inv_def sizes_ok_def)
next
  case (lb_aborted ph q)
  then show ?thesis
    using inv by (intro lb_inv_same_stream [OF inv]) (auto simp: stream_def in_delivery_def lb_inv_def sizes_ok_def)
next
  case lb_finish
  then show ?thesis
    using inv by (intro lb_inv_same_stream [OF inv]) (simp_all add: stream_def in_delivery_def lb_inv_def sizes_ok_def)
qed

lemma lb_reachable_inv: "lb_reachable c contended b \<Longrightarrow> lb_inv c contended b"
  by (induction rule: lb_reachable.induct) (auto intro: lb_inv_init lb_inv_step)

section \<open>Properties\<close>

lemma stream_drained:
  "lb_stage b = Idle \<Longrightarrow> lb_order b = [] \<Longrightarrow> lb_deferred b = [] \<Longrightarrow> stream b = lb_log b"
  by (simp add: stream_def in_delivery_def)

text \<open>live events and callbacks of one key leave the buffer in the order in which they were
  accepted, whatever producers, reentrant callbacks, sink failures and cancellations interleave, as long
  as the lock of the condition is free when a drain takes its events: what was handed out is a prefix of
  what was accepted and not dropped. A terminal callback never overtakes an earlier event of its key.\<close>

theorem live_events_in_order:
  assumes "lb_reachable c False b"
  shows "prefix (filter (of_key k) (lb_log b)) (filter (of_key k) (lb_input b))"
proof -
  have "filter (of_key k) (stream b) = filter (of_key k) (lb_input b)"
    using lb_reachable_inv [OF assms] by (simp add: lb_inv_def)
  then show ?thesis by (metis stream_def filter_append prefixI)
qed

text \<open>Property C29: under every interleaving nothing is handed out twice or invented, nothing accepted is
  lost (a drained buffer has handed out everything), and the buffer keeps its bounds.\<close>

theorem live_events_exactly_once:
  assumes "lb_reachable c contended b"
  shows "mset (lb_log b) \<subseteq># mset (lb_input b) \<and> distinct (sent_ids (lb_log b)) \<and>
    (lb_stage b = Idle \<and> lb_order b = [] \<and> lb_deferred b = [] \<longrightarrow> mset (lb_log b) = mset (lb_input b)) \<and>
    int (length (lb_order b)) \<le> max_pending c \<and> lb_deferred_size b \<le> max_pending c + 1"
proof -
  have inv: "lb_inv c contended b" by (rule lb_reachable_inv [OF assms])
  then have m: "mset (stream b) = mset (lb_input b)" by (simp add: lb_inv_def)
  have "mset (sent_ids (stream b)) = mset (sent_ids (lb_input b))" by (rule sent_ids_mset_eq [OF m])
  then have "distinct (sent_ids (stream b))" using inv by (metis lb_inv_def mset_eq_imp_distinct_iff)
  then have "distinct (sent_ids (lb_log b))" by (simp add: stream_def)
  moreover have "mset (lb_log b) \<subseteq># mset (lb_input b)" unfolding m [symmetric] by (simp add: stream_def)
  moreover have "mset (lb_log b) = mset (lb_input b)" if "lb_stage b = Idle \<and> lb_order b = [] \<and> lb_deferred b = []"
    using m stream_drained [of b] that by simp
  ultimately show ?thesis using inv by (auto simp: lb_inv_def sizes_ok_def)
qed

text \<open>Property C35: the index by key refines the plain queue: a drain of a key takes exactly the events of
  the queue with that key, in order, and leaves the others; dropping takes the oldest; a key is in the
  index exactly when the queue has an event for it.\<close>

theorem live_index_refines_queue:
  assumes "lb_reachable c contended b"
  shows "fst (lb_drain (Some k) b) = filter (\<lambda>x. bi_key x = k) (lb_order b) \<and>
    lb_order (snd (lb_drain (Some k) b)) = filter (\<lambda>x. bi_key x \<noteq> k) (lb_order b) \<and>
    lb_drain None b = (lb_order b, snd (lb_drain None b)) \<and> lb_order (snd (lb_drain None b)) = [] \<and>
    lb_order (drop_oldest b) = tl (lb_order b) \<and>
    (dict_get (lb_pending b) k \<noteq> None \<longleftrightarrow> k \<in> bi_key ` set (lb_order b))"
proof -
  have idx: "index_ok b" using lb_reachable_inv [OF assms] by (simp add: lb_inv_def)
  have "fst (lb_drain (Some k) b) = filter (\<lambda>x. bi_key x = k) (lb_order b)"
    "lb_order (snd (lb_drain (Some k) b)) = filter (\<lambda>x. bi_key x \<noteq> k) (lb_order b)"
    using lb_drain_result [OF idx, of "Some k"] by (auto simp: matches_key_simps)
  moreover have "fst (lb_drain None b) = lb_order b" "lb_order (snd (lb_drain None b)) = []"
    by (simp_all add: lb_drain_def)
  moreover have "lb_order (drop_oldest b) = tl (lb_order b)" by (simp add: drop_oldest_def split: list.split)
  moreover have "dict_get (lb_pending b) k \<noteq> None \<longleftrightarrow> k \<in> bi_key ` set (lb_order b)"
    using idx by (auto simp: index_ok_def Let_def filter_empty_conv)
  ultimately show ?thesis by (simp add: prod_eq_iff)
qed

section \<open>Examples\<close>

definition ex_buffer_config :: buffer_config where
  "ex_buffer_config = \<lparr>bc_batch_size = 20, bc_flush_interval = 1, bc_max_pending = 40, bc_overflow = DropOldest\<rparr>"

definition ex_item :: "nat \<Rightarrow> buffered" where
  "ex_item n = \<lparr>bi_id = n, bi_key = event_buffer_key ex_event, bi_event = ex_event, bi_channels = []\<rparr>"

abbreviation ex_key :: buffer_key where "ex_key \<equiv> event_buffer_key ex_event"

definition ex_live :: "nat list \<Rightarrow> nat list \<Rightarrow> stage \<Rightarrow> live_buffer" where
  "ex_live waiting sent st = lb_init\<lparr>lb_order := map ex_item waiting,
     lb_pending := (if waiting = [] then [] else [(ex_key, map ex_item waiting)]), lb_stage := st,
     lb_next_id := length sent + length waiting, lb_input := map (\<lambda>n. Sent (ex_item n)) (sent @ waiting),
     lb_log := map (\<lambda>n. Sent (ex_item n)) sent\<rparr>"

lemmas ex_live_defs = ex_live_def ex_item_def ex_buffer_config_def lb_init_def max_pending_def

lemma ex_live_stage [simp]: "(ex_live waiting sent st)\<lparr>lb_stage := st'\<rparr> = ex_live waiting sent st'"
  by (simp add: ex_live_def lb_init_def)

lemma ex_live_add:
  "buffer_add ex_buffer_config False ex_event [] lb_init = (Added False, ex_live [0] [] Idle)"
  "buffer_add ex_buffer_config False ex_event [] (ex_live [0] [] Idle) = (Added False, ex_live [0, 1] [] Idle)"
  by (simp_all add: ex_live_defs buffer_add_def buffer_append_def lb_append_def)

lemma ex_live_reachable: "lb_reachable ex_buffer_config contended (ex_live [0, 1] [] Idle)"
proof -
  have "lb_reachable ex_buffer_config contended (ex_live [0] [] Idle)"
    by (rule lb_stepped [OF lb_start lb_add [OF ex_live_add(1)]]) (simp_all add: lb_init_def)
  then show ?thesis by (rule lb_stepped [OF _ lb_add [OF ex_live_add(2)]]) (simp_all add: ex_live_defs)
qed

text \<open>The two events are flushed in one batch.\<close>

lemma ex_live_flushed: "lb_reachable ex_buffer_config contended (ex_live [] [0, 1] Idle)"
proof -
  let ?c = "ex_buffer_config" and ?q = "Flush None"
  let ?op = "\<lparr>dv_items = [ex_item 0, ex_item 1], dv_release = None\<rparr>"
  have "lb_reachable ?c contended ((ex_live [0, 1] [] Idle)\<lparr>lb_stage := Loop (Before ?q)\<rparr>)"
    by (rule lb_stepped [OF ex_live_reachable lb_begin]) (simp add: ex_live_defs)
  then have "lb_reachable ?c contended (ex_live [0, 1] [] (Loop (Before ?q)))" by simp
  then have "lb_reachable ?c contended ((ex_live [0, 1] [] (Loop (Before ?q)))\<lparr>lb_stage := Locking ?q\<rparr>)"
    by (rule lb_stepped [OF _ lb_lock]) (simp_all add: ex_live_defs)
  then have lock: "lb_reachable ?c contended (ex_live [0, 1] [] (Locking ?q))" by simp
  have take: "take_delivery ?q (ex_live [0, 1] [] (Locking ?q)) = (?op, (ex_live [] [0, 1] (Locking ?q))\<lparr>lb_log := []\<rparr>)"
    by (simp add: take_delivery_def lb_drain_def ex_live_def lb_init_def)
  have "lb_reachable ?c contended (deliver_start Own ?op ((ex_live [] [0, 1] (Locking ?q))\<lparr>lb_log := []\<rparr>))"
    by (rule lb_stepped [OF lock lb_take [OF _ take]]) (simp add: ex_live_def)
  then have "lb_reachable ?c contended (ex_live [] [0, 1] (Delivering Own ?op))"
    by (simp add: deliver_start_def ex_live_def lb_init_def)
  then have "lb_reachable ?c contended (deliver_published Own ?op (ex_live [] [0, 1] (Delivering Own ?op)))"
    by (rule lb_stepped [OF _ lb_published]) (simp add: ex_live_def)
  then have "lb_reachable ?c contended (ex_live [] [0, 1] (Loop After))" by (simp add: deliver_published_def)
  then have "lb_reachable ?c contended ((ex_live [] [0, 1] (Loop After))\<lparr>lb_stage := Idle\<rparr>)"
    by (rule lb_stepped [OF _ lb_finish]) (simp_all add: ex_live_defs)
  then show ?thesis by simp
qed

theorem live_events_in_order_witness:
  "prefix (filter (of_key ex_key) (lb_log (ex_live [] [0, 1] Idle))) [Sent (ex_item 0), Sent (ex_item 1)]"
  using live_events_in_order [OF ex_live_flushed, of ex_key] by (simp add: ex_live_def ex_item_def)

theorem live_events_exactly_once_witness:
  "mset (lb_log (ex_live [] [0, 1] Idle)) = mset [Sent (ex_item 0), Sent (ex_item 1)]"
  using live_events_exactly_once [OF ex_live_flushed] by (simp add: ex_live_def lb_init_def)

theorem live_index_refines_queue_witness:
  "fst (lb_drain (Some ex_key) (ex_live [0, 1] [] Idle)) = [ex_item 0, ex_item 1]"
  using live_index_refines_queue [OF ex_live_reachable, of ex_key] by (simp add: ex_live_def ex_item_def)

end
