(* ===== verification/Lifecycle.thy ===== *)
theory Lifecycle
  imports Queue_Prelude
begin

text \<open>
  Opening and closing: \<open>QueueService.open\<close> and \<open>close\<close> with its teardown order, the composite event sink
  and the external event producer. What each resource does when it is opened or closed is a parameter;
  the calls made are recorded in order.
\<close>

section \<open>Lifecycle errors\<close>

text \<open>An exception is ordinary or a control-flow one (\<open>BaseException\<close> but not \<open>Exception\<close>).\<close>

datatype base_exception = Ordinary py_error | ControlFlow string

fun is_control :: "base_exception \<Rightarrow> bool" where
  "is_control (ControlFlow s) = True"
| "is_control (Ordinary e) = False"

definition select_lifecycle_error :: "base_exception list \<Rightarrow> base_exception option" where
  "select_lifecycle_error errors =
     (case find is_control errors of
        Some e \<Rightarrow> Some e
      | None \<Rightarrow> (case errors of [] \<Rightarrow> None | e # _ \<Rightarrow> Some e))"

text \<open>
  A resource with optional methods: what \<open>open\<close> and \<open>close\<close> do, or \<open>None\<close> when there is no such method.
\<close>

record 'a managed =
  mg_name :: 'a
  mg_open :: "base_exception option option"
  mg_close :: "base_exception option option"

definition call_optional_lifecycle :: "base_exception option option \<Rightarrow> base_exception + bool" where
  "call_optional_lifecycle method =
     (case method of None \<Rightarrow> Inr False | Some None \<Rightarrow> Inr True | Some (Some e) \<Rightarrow> Inl e)"

text \<open>The resources opened by a loop that stops at the first error.\<close>

fun open_each :: "'a managed list \<Rightarrow> base_exception option \<times> 'a managed list" where
  "open_each [] = (None, [])"
| "open_each (x # xs) =
     (case call_optional_lifecycle (mg_open x) of
        Inl e \<Rightarrow> (Some e, [])
      | Inr exposed \<Rightarrow>
          let (err, opened) = open_each xs in (err, if exposed then x # opened else opened))"

text \<open>One cleanup attempt for each; the errors in order.\<close>

definition close_errors :: "'a managed list \<Rightarrow> base_exception list" where
  "close_errors xs = List.map_filter (\<lambda>x. case call_optional_lifecycle (mg_close x) of Inl e \<Rightarrow> Some e | Inr b \<Rightarrow> None) xs"

section \<open>Composite sinks\<close>

record 'a composite_sink =
  cs_sinks :: "'a managed list"
  cs_strict :: bool
  cs_opened :: "'a managed list"

text \<open>The second component is the list of sinks whose \<open>close\<close> was called, in order.\<close>

definition composite_open ::
    "'a composite_sink \<Rightarrow> (base_exception option \<times> 'a managed list) \<times> 'a composite_sink" where
  "composite_open b =
     (if cs_opened b \<noteq> [] then ((None, []), b)
      else case open_each (cs_sinks b) of
             (Some e, opened) \<Rightarrow> ((Some e, rev opened), b)
           | (None, opened) \<Rightarrow> ((None, []), b\<lparr>cs_opened := opened\<rparr>))"

definition composite_close ::
    "'a composite_sink \<Rightarrow> (base_exception option \<times> 'a managed list) \<times> 'a composite_sink" where
  "composite_close b =
     (let closed = rev (cs_opened b);
          selected = select_lifecycle_error (close_errors closed)
      in ((case selected of
             None \<Rightarrow> None
           | Some e \<Rightarrow> if cs_strict b \<or> is_control e then Some e else None, closed), b\<lparr>cs_opened := []\<rparr>))"

text \<open>Delivery to each sink; a sink's publish answers with an error or nothing.\<close>

fun composite_publish :: "bool \<Rightarrow> ('s \<Rightarrow> base_exception option) \<Rightarrow> 's list \<Rightarrow> 's list \<times> base_exception option" where
  "composite_publish strict publish [] = ([], None)"
| "composite_publish strict publish (s # ss) =
     (case publish s of
        Some e \<Rightarrow>
          if strict \<or> is_control e then ([s], Some e)
          else let (called, err) = composite_publish strict publish ss in (s # called, err)
      | None \<Rightarrow> let (called, err) = composite_publish strict publish ss in (s # called, err))"

section \<open>External producer\<close>

text \<open>\<open>ep_buffer_stop\<close> is what stopping the publisher's buffer does; starting it may fail.\<close>

record 'a external_producer =
  ep_resources :: "'a managed list"
  ep_buffer_start :: "base_exception option"
  ep_buffer_stop :: "base_exception option"
  ep_entered :: bool
  ep_opened :: "'a managed list"

definition producer_close ::
    "base_exception option \<Rightarrow> 'a external_producer \<Rightarrow> (base_exception option \<times> 'a managed list) \<times> 'a external_producer" where
  "producer_close primary p =
     (let stopped = (if ep_entered p then (case ep_buffer_stop p of None \<Rightarrow> [] | Some e \<Rightarrow> [e]) else []);
          closed = rev (ep_opened p);
          errors = stopped @ close_errors closed
      in ((if primary = None then select_lifecycle_error errors else None, closed),
          p\<lparr>ep_entered := False, ep_opened := []\<rparr>))"

text \<open>An error on the way in closes what was acquired and is raised itself.\<close>

definition producer_enter ::
    "'a external_producer \<Rightarrow> (base_exception option \<times> 'a managed list) \<times> 'a external_producer" where
  "producer_enter p =
     (if ep_entered p then ((None, []), p)
      else let (err, opened) = open_each (ep_resources p);
               failure = (case err of Some e \<Rightarrow> Some e | None \<Rightarrow> ep_buffer_start p);
               acquired = p\<lparr>ep_opened := ep_opened p @ opened\<rparr>
           in case failure of
                None \<Rightarrow> ((None, []), acquired\<lparr>ep_entered := True\<rparr>)
              | Some e \<Rightarrow>
                  let ((_, closed), p') = producer_close (Some e) acquired in ((Some e, closed), p'))"

section \<open>The service\<close>

datatype resource = Buffer | DependencyProvider | EventLog | ExecutionBackend | QueueBackend | SinkResource | SyncExecutor

definition CLOSE_ORDER :: "resource list" where
  "CLOSE_ORDER = [ExecutionBackend, EventLog, Buffer, QueueBackend, SinkResource, SyncExecutor, DependencyProvider]"

datatype history_support = NoHistory | HistoryUnsupported | HistorySupported "base_exception option"

text \<open>
  What each call of \<open>_open_resources\<close> does: \<open>None\<close> when it succeeds. \<open>si_provider\<close> is the dependency provider's
  optional \<open>open\<close>; the error of a supported history is that of \<open>set_event_log\<close>.
\<close>

record service_inputs =
  si_preload :: "base_exception option"
  si_provider :: "base_exception option option"
  si_queue_backend :: "base_exception option"
  si_queue_open :: "base_exception option"
  si_history :: history_support
  si_execution_backends :: "base_exception option"
  si_execution_opens :: "base_exception option list"
  si_publisher :: "base_exception option"
  si_sink_open :: "base_exception option"
  si_buffer_start :: "base_exception option"
  si_executor :: "base_exception option"

text \<open>The straight line of \<open>_open_resources\<close>: calls that may raise, and resources noted as opened.\<close>

datatype open_step = Call "base_exception option" | Note resource

definition provider_steps :: "base_exception option option \<Rightarrow> open_step list" where
  "provider_steps provider =
     (case call_optional_lifecycle provider of
        Inl e \<Rightarrow> [Call (Some e)]
      | Inr True \<Rightarrow> [Note DependencyProvider]
      | Inr False \<Rightarrow> [])"

definition event_log_steps :: "history_support \<Rightarrow> open_step list" where
  "event_log_steps h =
     (case h of
        NoHistory \<Rightarrow> []
      | HistoryUnsupported \<Rightarrow> [Call (Some (Ordinary QueueConfigurationError))]
      | HistorySupported err \<Rightarrow> [Note EventLog, Call err])"

definition open_steps :: "service_inputs \<Rightarrow> bool \<Rightarrow> open_step list" where
  "open_steps i executor_present =
     [Call (si_preload i)] @ provider_steps (si_provider i) @
     [Call (si_queue_backend i), Note QueueBackend, Call (si_queue_open i)] @ event_log_steps (si_history i) @
     [Call (si_execution_backends i), Note ExecutionBackend] @ map Call (si_execution_opens i) @
     [Call (si_publisher i), Note SinkResource, Call (si_sink_open i), Note Buffer, Call (si_buffer_start i)] @
     (if executor_present then [] else [Call (si_executor i), Note SyncExecutor])"

fun run_open :: "open_step list \<Rightarrow> resource list \<Rightarrow> base_exception option \<times> resource list" where
  "run_open [] opened = (None, opened)"
| "run_open (Note r # steps) opened = run_open steps (opened @ [r])"
| "run_open (Call None # steps) opened = run_open steps opened"
| "run_open (Call (Some e) # steps) opened = (Some e, opened)"

text \<open>
  \<open>ss_closes\<close> is what closing each resource raises; \<open>ss_execution_closes\<close> are the distinct execution backends
  with theirs, in order: \<open>_close_execution_backends\<close> ends at the first error.
\<close>

record service_state =
  ss_is_open :: bool
  ss_opened :: "resource list"
  ss_executor :: bool

record service_closes =
  sc_close :: "resource \<Rightarrow> base_exception option"
  sc_backends :: "(nat \<times> base_exception option) list"

fun close_execution_backends :: "(nat \<times> base_exception option) list \<Rightarrow> nat list \<times> base_exception option" where
  "close_execution_backends [] = ([], None)"
| "close_execution_backends ((b, err) # rest) =
     (case err of
        Some e \<Rightarrow> ([b], Some e)
      | None \<Rightarrow> let (closed, e) = close_execution_backends rest in (b # closed, e))"

definition teardown_resource :: "service_closes \<Rightarrow> resource \<Rightarrow> base_exception option" where
  "teardown_resource c r = (if r = ExecutionBackend then snd (close_execution_backends (sc_backends c)) else sc_close c r)"

text \<open>The resources torn down, in order, and the error that is raised if errors are.\<close>

definition teardown_resources :: "service_closes \<Rightarrow> resource list \<Rightarrow> resource list \<times> base_exception option" where
  "teardown_resources c opened =
     (let closed = filter (\<lambda>r. r \<in> set opened) CLOSE_ORDER
      in (closed, select_lifecycle_error (List.map_filter (teardown_resource c) closed)))"

text \<open>The result: what is raised, and the resources torn down on the way.\<close>

definition service_open ::
    "service_inputs \<Rightarrow> service_closes \<Rightarrow> service_state \<Rightarrow> (base_exception option \<times> resource list) \<times> service_state" where
  "service_open i c s =
     (if ss_is_open s then ((None, []), s)
      else case run_open (open_steps i (ss_executor s)) [] of
             (None, opened) \<Rightarrow>
               ((None, []), s\<lparr>ss_is_open := True, ss_opened := opened, ss_executor := True\<rparr>)
           | (Some e, opened) \<Rightarrow> ((Some e, fst (teardown_resources c opened)), s))"

definition service_close :: "service_closes \<Rightarrow> service_state \<Rightarrow> (base_exception option \<times> resource list) \<times> service_state" where
  "service_close c s =
     (if \<not> ss_is_open s \<and> ss_opened s = [] then ((None, []), s)
      else let (closed, err) = teardown_resources c (ss_opened s)
           in ((err, closed), s\<lparr>ss_is_open := False, ss_opened := [],
                 ss_executor := ss_executor s \<and> SyncExecutor \<notin> set (ss_opened s)\<rparr>))"

section \<open>Opening is all or nothing\<close>

definition noted :: "open_step list \<Rightarrow> resource set" where
  "noted steps = {r. Note r \<in> set steps}"

definition calls_succeed :: "open_step list \<Rightarrow> bool" where
  "calls_succeed steps \<longleftrightarrow> (\<forall>e. Call (Some e) \<notin> set steps)"

lemma run_open_result:
  "run_open steps opened = (None, out) \<Longrightarrow> calls_succeed steps \<and> set out = set opened \<union> noted steps"
  "run_open steps opened = (Some e, out) \<Longrightarrow>
     \<exists>before rest. steps = before @ Call (Some e) # rest \<and> calls_succeed before \<and> set out = set opened \<union> noted before"
proof (induction steps opened rule: run_open.induct)
  case (2 r steps opened)
  {
    case 1
    with 2 show ?case by (auto simp: calls_succeed_def noted_def)
  next
    case 2
    then obtain before rest where "steps = before @ Call (Some e) # rest" "calls_succeed before"
        "set out = set (opened @ [r]) \<union> noted before"
      using "2.IH"(2) by auto
    then show ?case by (intro exI [of _ "Note r # before"] exI [of _ rest]) (auto simp: calls_succeed_def noted_def)
  }
next
  case (3 steps opened)
  {
    case 1
    with 3 show ?case by (auto simp: calls_succeed_def noted_def)
  next
    case 2
    then obtain before rest where "steps = before @ Call (Some e) # rest" "calls_succeed before"
        "set out = set opened \<union> noted before"
      using "3.IH"(2) by auto
    then show ?case by (intro exI [of _ "Call None # before"] exI [of _ rest]) (auto simp: calls_succeed_def noted_def)
  }
next
  case (4 e' steps opened)
  {
    case 1
    then show ?case by simp
  next
    case 2
    then show ?case by (intro exI [of _ "[]"] exI [of _ steps]) (auto simp: calls_succeed_def noted_def)
  }
qed (auto simp: calls_succeed_def noted_def)

lemma teardown_closes:
  "set (fst (teardown_resources c opened)) = set opened" "distinct (fst (teardown_resources c opened))"
  "fst (teardown_resources c opened) = filter (\<lambda>r. r \<in> set opened) CLOSE_ORDER"
proof -
  have "r \<in> set CLOSE_ORDER" for r by (cases r) (simp_all add: CLOSE_ORDER_def)
  then show "set (fst (teardown_resources c opened)) = set opened" by (auto simp: teardown_resources_def Let_def)
  show "distinct (fst (teardown_resources c opened))" by (simp add: teardown_resources_def Let_def CLOSE_ORDER_def)
  show "fst (teardown_resources c opened) = filter (\<lambda>r. r \<in> set opened) CLOSE_ORDER"
    by (simp add: teardown_resources_def Let_def)
qed

lemma set_map_filter_iff: "y \<in> set (List.map_filter f xs) \<longleftrightarrow> (\<exists>x \<in> set xs. f x = Some y)"
  by (induction xs) (auto simp: List.map_filter_simps split: option.split)

lemma provider_noted:
  "DependencyProvider \<in> noted steps \<Longrightarrow> set steps \<subseteq> set (open_steps i b) \<Longrightarrow> si_provider i = Some None"
  by (auto simp: noted_def open_steps_def provider_steps_def event_log_steps_def call_optional_lifecycle_def
      split: option.splits history_support.splits if_splits)

text \<open>Property C30: opening a service is all or nothing. When every call succeeds the service is open and holds
  what it noted; when one raises, its error is raised, the service is as it was, and exactly the
  resources noted before are torn down, each once and in the fixed order, the dependency provider only
  if its own \<open>open\<close> had succeeded. A later close tears down what was opened, reports a control-flow
  exception before any other error, and closing again does nothing.\<close>

theorem service_lifecycle_balanced:
  assumes closed: "\<not> ss_is_open s" and run: "service_open i c s = ((err, torn), s')"
  shows "case err of
      Some e \<Rightarrow> s' = s \<and> distinct torn \<and> torn = filter (\<lambda>r. r \<in> set torn) CLOSE_ORDER \<and>
        (DependencyProvider \<in> set torn \<longrightarrow> si_provider i = Some None) \<and>
        (\<exists>before rest. open_steps i (ss_executor s) = before @ Call (Some e) # rest \<and> calls_succeed before \<and>
           set torn = noted before)
    | None \<Rightarrow> ss_is_open s' \<and> torn = [] \<and> calls_succeed (open_steps i (ss_executor s)) \<and>
        set (ss_opened s') = noted (open_steps i (ss_executor s)) \<and> service_open i c s' = ((None, []), s') \<and>
        (\<forall>c2. \<exists>e2 s2. service_close c2 s' = ((e2, filter (\<lambda>r. r \<in> set (ss_opened s')) CLOSE_ORDER), s2) \<and> \<not> ss_is_open s2 \<and>
           (e2 = None \<longleftrightarrow> (\<forall>r \<in> set (ss_opened s'). teardown_resource c2 r = None)) \<and>
           (\<forall>r \<in> set (ss_opened s'). \<forall>e. teardown_resource c2 r = Some e \<and> is_control e \<longrightarrow> (\<exists>e'. e2 = Some e' \<and> is_control e')) \<and>
           service_close c2 s2 = ((None, []), s2))"
proof (cases err)
  case (Some e)
  with closed run obtain out where O: "run_open (open_steps i (ss_executor s)) [] = (Some e, out)"
      "torn = fst (teardown_resources c out)" "s' = s"
    by (auto simp: service_open_def split: prod.splits option.splits)
  obtain before rest where B: "open_steps i (ss_executor s) = before @ Call (Some e) # rest" "calls_succeed before"
      "set out = noted before"
    using run_open_result(2) [OF O(1)] by auto
  have torn: "set torn = noted before" "distinct torn" "torn = filter (\<lambda>r. r \<in> set out) CLOSE_ORDER"
    unfolding O(2) B(3) [symmetric] by (rule teardown_closes)+
  moreover have "si_provider i = Some None" if "DependencyProvider \<in> set torn"
    using provider_noted [of before i "ss_executor s"] that torn(1) by (auto simp: B(1))
  ultimately show ?thesis using Some O(3) B by auto
next
  case None
  with closed run obtain out where O: "run_open (open_steps i (ss_executor s)) [] = (None, out)"
      "torn = []" "s' = s\<lparr>ss_is_open := True, ss_opened := out, ss_executor := True\<rparr>"
    by (auto simp: service_open_def split: prod.splits option.splits)
  have out: "calls_succeed (open_steps i (ss_executor s))" "set out = noted (open_steps i (ss_executor s))"
    using run_open_result(1) [OF O(1)] by auto
  have close: "\<exists>e2 s2. service_close c2 s' = ((e2, filter (\<lambda>r. r \<in> set out) CLOSE_ORDER), s2) \<and> \<not> ss_is_open s2 \<and>
      (e2 = None \<longleftrightarrow> (\<forall>r \<in> set out. teardown_resource c2 r = None)) \<and>
      (\<forall>r \<in> set out. \<forall>e. teardown_resource c2 r = Some e \<and> is_control e \<longrightarrow> (\<exists>e'. e2 = Some e' \<and> is_control e')) \<and>
      service_close c2 s2 = ((None, []), s2)" for c2
  proof -
    let ?errors = "List.map_filter (teardown_resource c2) (filter (\<lambda>r. r \<in> set out) CLOSE_ORDER)"
    have errors: "e \<in> set ?errors \<longleftrightarrow> (\<exists>r \<in> set out. teardown_resource c2 r = Some e)" for e
      using teardown_closes(1,3) [of c2 out] by (simp add: set_map_filter_iff)
    have "select_lifecycle_error ?errors = None \<longleftrightarrow> ?errors = []"
      by (auto simp: select_lifecycle_error_def find_None_iff split: option.split list.split)
    then have none: "select_lifecycle_error ?errors = None \<longleftrightarrow> (\<forall>r \<in> set out. teardown_resource c2 r = None)"
      using errors by (metis list.set_intros(1) neq_Nil_conv not_None_eq set_empty empty_iff list.set(1))
    have control: "\<exists>e'. select_lifecycle_error ?errors = Some e' \<and> is_control e'"
      if "r \<in> set out" "teardown_resource c2 r = Some e" "is_control e" for r e
    proof -
      have "e \<in> set ?errors" "is_control e" using errors that by blast+
      then obtain e' where f: "find is_control ?errors = Some e'" by (cases "find is_control ?errors") (auto simp: find_None_iff)
      then have "is_control e'" by (auto simp: find_Some_iff)
      with f show ?thesis by (simp add: select_lifecycle_error_def)
    qed
    show ?thesis
      using none control by (auto simp: service_close_def O(3) teardown_resources_def Let_def)
  qed
  show ?thesis
    using close out by (simp add: None O(2)) (simp add: O(3) service_open_def)
qed

text \<open>
  The backends of one service are closed in one \<open>try\<close>: the first whose \<open>close\<close> raises keeps the later ones
  from being closed at all.
\<close>

theorem failing_close_skips_backends:
  assumes "\<forall>(b, err) \<in> set before. err = None"
  shows "close_execution_backends (before @ (b, Some e) # rest) = (map fst before @ [b], Some e)"
  using assms by (induction before) auto

section \<open>Sinks and producers\<close>

definition exposes_open :: "'a managed \<Rightarrow> bool" where
  "exposes_open x \<longleftrightarrow> mg_open x = Some None"

lemma open_each_result:
  "open_each xs = (None, out) \<Longrightarrow> out = filter exposes_open xs \<and> (\<forall>x \<in> set xs. mg_open x = None \<or> exposes_open x)"
  "open_each xs = (Some e, out) \<Longrightarrow>
     \<exists>before x rest. xs = before @ x # rest \<and> mg_open x = Some (Some e) \<and> out = filter exposes_open before \<and>
       (\<forall>y \<in> set before. mg_open y = None \<or> exposes_open y)"
proof (induction xs arbitrary: out)
  case (Cons x xs)
  {
    case 1
    then show ?case using Cons.IH(1)
      by (auto simp: call_optional_lifecycle_def exposes_open_def split: option.splits prod.splits)
  next
    case 2
    show ?case
    proof (cases "mg_open x = Some (Some e)")
      case True
      then show ?thesis using 2 by (intro exI [of _ "[]"] exI [of _ x] exI [of _ xs]) (auto simp: call_optional_lifecycle_def)
    next
      case False
      then obtain out' where "open_each xs = (Some e, out')" "out = (if exposes_open x then x # out' else out')"
          "mg_open x = None \<or> exposes_open x"
        using 2 by (auto simp: call_optional_lifecycle_def exposes_open_def split: option.splits prod.splits)
      with Cons.IH(2) [of out'] obtain before y rest where "xs = before @ y # rest" "mg_open y = Some (Some e)"
          "out' = filter exposes_open before" "\<forall>z \<in> set before. mg_open z = None \<or> exposes_open z" by blast
      with \<open>out = _\<close> \<open>mg_open x = None \<or> _\<close> show ?thesis
        by (intro exI [of _ "x # before"] exI [of _ y] exI [of _ rest]) auto
    qed
  }
qed simp_all

text \<open>the external producer acquires its transports in order or not at all. If one fails to open,
  or the buffer does, the error is raised and exactly those opened so far are closed, in reverse, each
  once, and the producer holds nothing; otherwise it holds all that have an \<open>open\<close>, and leaving closes
  them in reverse and reports an error exactly when the buffer or one of them raised.\<close>

theorem producer_acquires_in_order:
  assumes new: "\<not> ep_entered p" "ep_opened p = []" and run: "producer_enter p = ((err, torn), p')"
  shows "case err of
      Some e \<Rightarrow> \<not> ep_entered p' \<and> ep_opened p' = [] \<and>
        (\<exists>before rest. ep_resources p = before @ rest \<and> torn = rev (filter exposes_open before) \<and>
           (rest = [] \<and> ep_buffer_start p = Some e \<or> (\<exists>x xs. rest = x # xs \<and> mg_open x = Some (Some e))))
    | None \<Rightarrow> ep_entered p' \<and> torn = [] \<and> ep_opened p' = filter exposes_open (ep_resources p) \<and>
        (\<exists>e2 p2. producer_close None p' = ((e2, rev (filter exposes_open (ep_resources p))), p2) \<and>
           (e2 = None \<longleftrightarrow> ep_buffer_stop p = None \<and> close_errors (rev (filter exposes_open (ep_resources p))) = []) \<and>
           \<not> ep_entered p2 \<and> ep_opened p2 = [])"
proof -
  obtain e1 opened where O: "open_each (ep_resources p) = (e1, opened)" by fastforce
  have none: "select_lifecycle_error es = None \<longleftrightarrow> es = []" for es
    by (auto simp: select_lifecycle_error_def find_None_iff split: option.split list.split)
  show ?thesis
  proof (cases e1)
    case (Some e)
    with O run new have "err = Some e" "torn = rev opened" "\<not> ep_entered p'" "ep_opened p' = []"
      by (auto simp: producer_enter_def producer_close_def Let_def)
    with open_each_result(2) O Some show ?thesis by fastforce
  next
    case None
    note all = open_each_result(1) [OF O [unfolded None]]
    show ?thesis
    proof (cases "ep_buffer_start p")
      case (Some e)
      with O run new None have "err = Some e" "torn = rev opened" "\<not> ep_entered p'" "ep_opened p' = []"
        by (auto simp: producer_enter_def producer_close_def Let_def)
      with all Some show ?thesis by (intro option.case_eq_if [THEN iffD2]) auto
    next
      case start: None
      with O run new None have "err = None" "torn = []" "p' = p\<lparr>ep_opened := opened, ep_entered := True\<rparr>"
        by (auto simp: producer_enter_def Let_def)
      with all show ?thesis by (auto simp: producer_close_def Let_def none split: option.split)
    qed
  qed
qed

lemma composite_open_rolls_back:
  assumes "cs_opened b = []" "composite_open b = ((Some e, torn), b')"
  shows "b' = b \<and> (\<exists>before x rest. cs_sinks b = before @ x # rest \<and> mg_open x = Some (Some e) \<and>
    torn = rev (filter exposes_open before))"
proof -
  obtain opened where "open_each (cs_sinks b) = (Some e, opened)" "torn = rev opened" "b' = b"
    using assms by (auto simp: composite_open_def split: prod.splits option.splits)
  with open_each_result(2) [of "cs_sinks b" e opened] show ?thesis by auto
qed

lemma composite_publish_called:
  "composite_publish strict publish sinks = (called, err) \<Longrightarrow>
   (case err of
      None \<Rightarrow> called = sinks
    | Some e \<Rightarrow> \<exists>before s rest. sinks = before @ s # rest \<and> called = before @ [s] \<and> publish s = Some e \<and> (strict \<or> is_control e))"
proof (induction sinks arbitrary: called)
  case (Cons s ss)
  obtain called' err' where r: "composite_publish strict publish ss = (called', err')" by fastforce
  show ?case
  proof (cases "\<exists>e. publish s = Some e \<and> (strict \<or> is_control e)")
    case True
    then obtain e where "publish s = Some e" "strict \<or> is_control e" by blast
    moreover from this have "called = [s]" "err = Some e" using Cons.prems by auto
    ultimately show ?thesis by (auto intro!: exI [of _ "[]"])
  next
    case False
    then have c: "called = s # called'" "err = err'"
      using Cons.prems r by (auto split: option.splits if_splits)
    note IH = Cons.IH [OF r [folded c(2)]]
    show ?thesis
    proof (cases err)
      case None
      with IH c(1) show ?thesis by simp
    next
      case (Some e)
      with IH obtain before t rest where "ss = before @ t # rest" "called' = before @ [t]" "publish t = Some e"
          "strict \<or> is_control e" by auto
      with c(1) Some show ?thesis by (auto intro!: exI [of _ "s # before"])
    qed
  qed
qed simp

section \<open>Witnesses\<close>

definition ex_inputs :: service_inputs where
  "ex_inputs = \<lparr>si_preload = None, si_provider = Some None, si_queue_backend = None, si_queue_open = None,
     si_history = NoHistory, si_execution_backends = None, si_execution_opens = [None], si_publisher = None,
     si_sink_open = Some (Ordinary RuntimeError), si_buffer_start = None, si_executor = None\<rparr>"

definition ex_closes :: service_closes where
  "ex_closes = \<lparr>sc_close = (\<lambda>r. None), sc_backends = [(1, None)]\<rparr>"

lemma service_lifecycle_balanced_witness:
  "\<exists>torn s'. service_open ex_inputs ex_closes \<lparr>ss_is_open = False, ss_opened = [], ss_executor = False\<rparr> =
     ((Some (Ordinary RuntimeError), torn), s') \<and> torn = filter (\<lambda>r. r \<in> set torn) CLOSE_ORDER \<and> DependencyProvider \<in> set torn"
proof -
  let ?s = "\<lparr>ss_is_open = False, ss_opened = [], ss_executor = False\<rparr>"
  have run: "service_open ex_inputs ex_closes ?s = ((Some (Ordinary RuntimeError),
      [ExecutionBackend, QueueBackend, SinkResource, DependencyProvider]), ?s)"
    by (simp add: service_open_def open_steps_def ex_inputs_def provider_steps_def call_optional_lifecycle_def event_log_steps_def
        teardown_resources_def CLOSE_ORDER_def Let_def)
  have "\<not> ss_is_open ?s" by simp
  from service_lifecycle_balanced [OF this run]
  have order: "[ExecutionBackend, QueueBackend, SinkResource, DependencyProvider] =
      filter (\<lambda>r. r \<in> set [ExecutionBackend, QueueBackend, SinkResource, DependencyProvider]) CLOSE_ORDER"
    unfolding option.case by (elim conjE)
  show ?thesis by (rule exI, rule exI, rule conjI [OF run], rule conjI [OF order]) simp
qed

definition ex_producer :: "nat external_producer" where
  "ex_producer = \<lparr>ep_resources = [\<lparr>mg_name = 1, mg_open = Some None, mg_close = Some None\<rparr>,
       \<lparr>mg_name = 2, mg_open = Some (Some (ControlFlow ''stop'')), mg_close = None\<rparr>],
     ep_buffer_start = None, ep_buffer_stop = None, ep_entered = False, ep_opened = []\<rparr>"

lemma producer_acquires_in_order_witness:
  "\<exists>torn p'. producer_enter ex_producer = ((Some (ControlFlow ''stop''), torn), p') \<and> map mg_name torn = [1] \<and> ep_opened p' = []"
proof -
  have run: "producer_enter ex_producer = ((Some (ControlFlow ''stop''), [\<lparr>mg_name = 1, mg_open = Some None, mg_close = Some None\<rparr>]),
      ex_producer)"
    by (simp add: producer_enter_def ex_producer_def call_optional_lifecycle_def producer_close_def Let_def)
  from producer_acquires_in_order [OF _ _ run] run show ?thesis by (auto simp: ex_producer_def)
qed

end
