(* ===== verification/Schedules.thy ===== *)
theory Schedules
  imports Memory_Backend
begin

text \<open>
  Retry backoff, recurring schedules and cron evaluation, and the uniqueness rules of
  \<open>task.py\<close>. Instants are microseconds of UTC, wall-clock readings are microseconds of
  local time since 1970-01-01 00:00. A time zone of the standard library is the triple of
  its UTC offset at an instant, the fold of the local reading of an instant, and the offset
  it assigns to a local reading with a fold.
\<close>

section \<open>Retry backoff\<close>

record retry_backoff =
  rb_initial_delay :: rat
  rb_multiplier :: rat
  rb_max_delay :: "rat option"

definition retry_backoff_post_init :: "retry_backoff \<Rightarrow> retry_backoff result" where
  "retry_backoff_post_init b =
     (if rb_initial_delay b < 0 then Inl ValueError
      else if rb_multiplier b < 1 then Inl ValueError
      else if (case rb_max_delay b of None \<Rightarrow> False | Some m \<Rightarrow> m < rb_initial_delay b) then Inl ValueError
      else Inr b)"

text \<open>The retry count is not negative; the code computes the power in floats.\<close>

definition delay_for :: "retry_backoff \<Rightarrow> nat \<Rightarrow> rat" where
  "delay_for b n =
     (let delay = rb_initial_delay b * rb_multiplier b ^ n in
      case rb_max_delay b of None \<Rightarrow> delay | Some m \<Rightarrow> min delay m)"

definition backoff_as_metadata :: "retry_backoff \<Rightarrow> dict" where
  "backoff_as_metadata b =
     [(''initial_delay'', PFloat (rb_initial_delay b)), (''multiplier'', PFloat (rb_multiplier b)),
      (''max_delay'', case rb_max_delay b of None \<Rightarrow> PNone | Some m \<Rightarrow> PFloat m)]"

datatype backoff_arg = NoBackoff | BackoffSeconds rat | BackoffPolicy retry_backoff

fun normalize_retry_backoff :: "backoff_arg \<Rightarrow> retry_backoff option result" where
  "normalize_retry_backoff NoBackoff = Inr None"
| "normalize_retry_backoff (BackoffPolicy b) = Inr (Some b)"
| "normalize_retry_backoff (BackoffSeconds x) =
     (case retry_backoff_post_init \<lparr>rb_initial_delay = x, rb_multiplier = 1, rb_max_delay = None\<rparr> of
        Inl e \<Rightarrow> Inl e
      | Inr b \<Rightarrow> Inr (Some b))"

section \<open>Uniqueness\<close>

definition validate_uniqueness :: "string option \<Rightarrow> string option \<Rightarrow> string \<Rightarrow> unit result" where
  "validate_uniqueness k unique_by unique_until =
     (if unique_by \<noteq> None \<and> unique_by \<notin> {Some ''task'', Some ''arguments''} then Inl ValueError
      else if unique_until \<notin> {''terminal'', ''forever''} then Inl ValueError
      else if k \<noteq> None \<and> unique_by \<noteq> None then Inl ValueError
      else if unique_until = ''forever'' \<and> unique_by = None \<and> k = None then Inl ValueError
      else Inr ())"

section \<open>Cron fields\<close>

definition is_space :: "char \<Rightarrow> bool" where
  "is_space c \<longleftrightarrow> (let n = of_char c :: nat in (9 \<le> n \<and> n \<le> 13) \<or> (28 \<le> n \<and> n \<le> 32))"

definition py_strip :: "string \<Rightarrow> string" where
  "py_strip s = rev (dropWhile is_space (rev (dropWhile is_space s)))"

text \<open>\<open>s.split()\<close> on white space, \<open>s.split(sep)\<close> and \<open>s.split(sep, 1)\<close> on a character.\<close>

fun split_words_aux :: "string \<Rightarrow> string \<Rightarrow> string list" where
  "split_words_aux w [] = (if w = [] then [] else [rev w])"
| "split_words_aux w (c # cs) =
     (if is_space c then (if w = [] then split_words_aux [] cs else rev w # split_words_aux [] cs)
      else split_words_aux (c # w) cs)"

definition split_words :: "string \<Rightarrow> string list" where
  "split_words s = split_words_aux [] s"

fun split_on :: "char \<Rightarrow> string \<Rightarrow> string list" where
  "split_on sep [] = [[]]"
| "split_on sep (c # cs) =
     (if c = sep then [] # split_on sep cs
      else (case split_on sep cs of [] \<Rightarrow> [[c]] | w # ws \<Rightarrow> (c # w) # ws))"

definition split_once :: "char \<Rightarrow> string \<Rightarrow> string \<times> string" where
  "split_once sep s = (takeWhile (\<lambda>c. c \<noteq> sep) s, drop 1 (dropWhile (\<lambda>c. c \<noteq> sep) s))"

definition ascii_upper :: "string \<Rightarrow> string" where
  "ascii_upper s = map (\<lambda>c. if CHR ''a'' \<le> c \<and> c \<le> CHR ''z'' then char_of (of_char c - 32 :: nat) else c) s"

text \<open>
  \<open>int(s)\<close>: surrounding white space, an optional sign, decimal digits with single underscores
  between digits. \<open>None\<close> stands for the \<open>ValueError\<close>.
\<close>

definition digit_value :: "char \<Rightarrow> int option" where
  "digit_value c = (if CHR ''0'' \<le> c \<and> c \<le> CHR ''9'' then Some (of_char c - 48) else None)"

fun digits_value :: "int \<Rightarrow> bool \<Rightarrow> string \<Rightarrow> int option" where
  "digits_value acc after_digit [] = (if after_digit then Some acc else None)"
| "digits_value acc after_digit (c # cs) =
     (if c = CHR ''_'' then (if after_digit then digits_value acc False cs else None)
      else case digit_value c of None \<Rightarrow> None | Some d \<Rightarrow> digits_value (acc * 10 + d) True cs)"

definition py_int_of_str :: "string \<Rightarrow> int option" where
  "py_int_of_str s =
     (case py_strip s of
        [] \<Rightarrow> None
      | c # cs \<Rightarrow>
          if c = CHR ''-'' then map_option uminus (digits_value 0 False cs)
          else if c = CHR ''+'' then digits_value 0 False cs
          else digits_value 0 False (c # cs))"

definition parse_cron_value :: "(string \<times> int) list \<Rightarrow> string \<Rightarrow> int result" where
  "parse_cron_value names value =
     (case dict_get names (ascii_upper value) of
        Some n \<Rightarrow> Inr n
      | None \<Rightarrow> (case py_int_of_str value of None \<Rightarrow> Inl ValueError | Some n \<Rightarrow> Inr n))"

text \<open>\<open>range(start, stop, step)\<close> for a positive step.\<close>

definition py_range :: "int \<Rightarrow> int \<Rightarrow> int \<Rightarrow> int list" where
  "py_range start stop step =
     (if stop \<le> start then []
      else map (\<lambda>k. start + int k * step) [0..<nat ((stop - 1 - start) div step + 1)])"

text \<open>One comma-separated part: its range and step.\<close>

definition cron_part :: "(string \<times> int) list \<Rightarrow> int \<Rightarrow> int \<Rightarrow> string \<Rightarrow> int list result" where
  "cron_part names minimum maximum raw_part =
     (let part = py_strip raw_part in
      if part = [] then Inl ValueError
      else
        let stepped = CHR ''/'' \<in> set part;
            (range_part, step_part) = (if stepped then split_once (CHR ''/'') part else (part, ''1'')) in
        bind_result (case py_int_of_str step_part of None \<Rightarrow> Inl ValueError | Some n \<Rightarrow> Inr n) (\<lambda>step.
        if step \<le> 0 then Inl ValueError
        else bind_result
          (if range_part = ''*'' then Inr (minimum, maximum)
           else if CHR ''-'' \<in> set range_part
           then (let (a, b) = split_once (CHR ''-'') range_part in
                 bind_result (parse_cron_value names a) (\<lambda>start.
                 bind_result (parse_cron_value names b) (\<lambda>end'. Inr (start, end'))))
           else bind_result (parse_cron_value names range_part) (\<lambda>start.
                Inr (start, if stepped then maximum else start)))
          (\<lambda>(start, end').
             if start > end' then Inl ValueError
             else if \<not> (minimum \<le> start \<and> start \<le> maximum) \<or> \<not> (minimum \<le> end' \<and> end' \<le> maximum)
             then Inl ValueError
             else Inr (py_range start (end' + 1) step))))"

fun cron_parts :: "(string \<times> int) list \<Rightarrow> int \<Rightarrow> int \<Rightarrow> string list \<Rightarrow> int set result" where
  "cron_parts names minimum maximum [] = Inr {}"
| "cron_parts names minimum maximum (p # ps) =
     bind_result (cron_part names minimum maximum p) (\<lambda>vs.
     bind_result (cron_parts names minimum maximum ps) (\<lambda>rest. Inr (set vs \<union> rest)))"

definition SUNDAY_CRON_VALUE :: int where "SUNDAY_CRON_VALUE = 7"

definition expand_cron_field ::
    "string \<Rightarrow> int \<Rightarrow> int \<Rightarrow> (string \<times> int) list \<Rightarrow> bool \<Rightarrow> bool \<Rightarrow> int set result" where
  "expand_cron_field field minimum maximum names normalize_sunday allow_question =
     (if allow_question \<and> field = ''?'' then Inr (set (py_range minimum (maximum + 1) 1))
      else bind_result (cron_parts names minimum maximum (split_on (CHR '','') field)) (\<lambda>values.
        Inr (if normalize_sunday \<and> SUNDAY_CRON_VALUE \<in> values
             then insert 0 (values - {SUNDAY_CRON_VALUE}) else values)))"

section \<open>Cron expressions\<close>

definition CRON_FIELD_COUNT :: nat where "CRON_FIELD_COUNT = 5"
definition CRON_SEARCH_YEARS :: int where "CRON_SEARCH_YEARS = 8"

definition cron_aliases :: "(string \<times> string) list" where
  "cron_aliases =
     [(''@annually'', ''0 0 1 1 *''), (''@daily'', ''0 0 * * *''), (''@hourly'', ''0 * * * *''),
      (''@midnight'', ''0 0 * * *''), (''@monthly'', ''0 0 1 * *''), (''@weekly'', ''0 0 * * 0''),
      (''@yearly'', ''0 0 1 1 *'')]"

definition month_names :: "(string \<times> int) list" where
  "month_names =
     [(''APR'', 4), (''AUG'', 8), (''DEC'', 12), (''FEB'', 2), (''JAN'', 1), (''JUL'', 7), (''JUN'', 6),
      (''MAR'', 3), (''MAY'', 5), (''NOV'', 11), (''OCT'', 10), (''SEP'', 9)]"

definition weekday_names :: "(string \<times> int) list" where
  "weekday_names =
     [(''FRI'', 5), (''MON'', 1), (''SAT'', 6), (''SUN'', 0), (''THU'', 4), (''TUE'', 2), (''WED'', 3)]"

definition raise_for_unsupported_cron_syntax :: "string \<Rightarrow> string \<Rightarrow> unit result" where
  "raise_for_unsupported_cron_syntax original expression =
     (let parts = split_words expression in
      if original = ''@reboot'' \<or> length parts > CRON_FIELD_COUNT \<or>
         (\<exists>p \<in> set parts. CHR ''L'' \<in> set (ascii_upper p)) \<or>
         (\<exists>p \<in> set parts. CHR ''W'' \<in> set (ascii_upper p)) \<or>
         (\<exists>p \<in> set parts. CHR ''#'' \<in> set p)
      then Inl ValueError else Inr ())"

record parsed_cron =
  pc_minutes :: "int set"
  pc_hours :: "int set"
  pc_days :: "int set"
  pc_months :: "int set"
  pc_weekdays :: "int set"
  pc_day_of_month_restricted :: bool
  pc_day_of_week_restricted :: bool

text \<open>Every error raised while the fields are expanded is turned into a \<open>ValueError\<close>.\<close>

definition parse_cron :: "string \<Rightarrow> parsed_cron result" where
  "parse_cron cron =
     (let expression = (case dict_get cron_aliases cron of None \<Rightarrow> cron | Some e \<Rightarrow> e) in
      bind_result (raise_for_unsupported_cron_syntax cron expression) (\<lambda>_.
      case split_words expression of
        [minute, hour, day_field, month, weekday_field] \<Rightarrow>
          if day_field = ''?'' \<and> weekday_field = ''?'' then Inl ValueError
          else
            bind_result (expand_cron_field minute 0 59 [] False False) (\<lambda>minutes.
            bind_result (expand_cron_field hour 0 23 [] False False) (\<lambda>hours.
            bind_result (expand_cron_field day_field 1 31 [] False True) (\<lambda>days.
            bind_result (expand_cron_field month 1 12 month_names False False) (\<lambda>months.
            bind_result (expand_cron_field weekday_field 0 7 weekday_names True True) (\<lambda>weekdays.
            Inr \<lparr>pc_minutes = minutes, pc_hours = hours, pc_days = days, pc_months = months,
                 pc_weekdays = weekdays,
                 pc_day_of_month_restricted = (day_field \<notin> {''*'', ''?''}),
                 pc_day_of_week_restricted = (weekday_field \<notin> {''*'', ''?''})\<rparr>)))))
      | _ \<Rightarrow> Inl ValueError))"

definition cron_day_matches :: "parsed_cron \<Rightarrow> int \<Rightarrow> int \<Rightarrow> bool" where
  "cron_day_matches p day weekday =
     (let day_matches = day \<in> pc_days p; weekday_matches = weekday \<in> pc_weekdays p in
      if pc_day_of_month_restricted p \<and> pc_day_of_week_restricted p
      then day_matches \<or> weekday_matches else day_matches \<and> weekday_matches)"

section \<open>Calendar and time zones\<close>

definition MINUTE :: int where "MINUTE = 60000000"
definition HOUR :: int where "HOUR = 3600000000"
definition DAY :: int where "DAY = 86400000000"

text \<open>The proleptic Gregorian month and day of a day number (0 is 1970-01-01), as \<open>datetime\<close>
  computes them; and \<open>weekday()\<close>, which counts from Monday.\<close>

definition civil_month_day :: "int \<Rightarrow> int \<times> int" where
  "civil_month_day n =
     (let z = n + 719468;
          doe = z mod 146097;
          yoe = (doe - doe div 1460 + doe div 36524 - doe div 146096) div 365;
          doy = doe - (365 * yoe + yoe div 4 - yoe div 100);
          mp = (5 * doy + 2) div 153
      in (if mp < 10 then mp + 3 else mp - 9, doy - (153 * mp + 2) div 5 + 1))"

definition civil_weekday :: "int \<Rightarrow> int" where
  "civil_weekday n = (n + 3) mod 7"

record tzinfo =
  tz_offset :: "instant \<Rightarrow> int"
  tz_fold :: "instant \<Rightarrow> bool"
  tz_local_offset :: "int \<Rightarrow> bool \<Rightarrow> int"

definition utc_zone :: tzinfo where
  "utc_zone = \<lparr>tz_offset = (\<lambda>u. 0), tz_fold = (\<lambda>u. False), tz_local_offset = (\<lambda>w f. 0)\<rparr>"

definition to_local :: "tzinfo \<Rightarrow> instant \<Rightarrow> int" where
  "to_local tz u = u + tz_offset tz u"

definition from_local :: "tzinfo \<Rightarrow> int \<Rightarrow> bool \<Rightarrow> instant" where
  "from_local tz w fld = w - tz_local_offset tz w fld"

text \<open>\<open>_is_valid_local_time\<close>: the reading survives the round trip through UTC, with its fld and
  offset.\<close>

definition is_valid_local_time :: "tzinfo \<Rightarrow> int \<Rightarrow> bool \<Rightarrow> bool" where
  "is_valid_local_time tz w fld \<longleftrightarrow>
     (let u = from_local tz w fld in
      to_local tz u = w \<and> tz_fold tz u = fld \<and> tz_offset tz u = tz_local_offset tz w fld)"

section \<open>The next run\<close>

definition time_slots :: "parsed_cron \<Rightarrow> int list" where
  "time_slots p =
     concat (map (\<lambda>h. map (\<lambda>m. h * HOUR + m * MINUTE) (sorted_list_of_set (pc_minutes p)))
       (sorted_list_of_set (pc_hours p)))"

definition day_matches :: "parsed_cron \<Rightarrow> int \<Rightarrow> bool" where
  "day_matches p day =
     (let n = day div DAY; (month, dom) = civil_month_day n in
      month \<in> pc_months p \<and> cron_day_matches p dom ((civil_weekday n + 1) mod 7))"

text \<open>
  \<open>datetime + timedelta\<close> resets the fold, so every reading of the search has fold 0. The
  loop over the days of the search window ends with \<open>ValueError\<close>.
\<close>

fun cron_search :: "tzinfo \<Rightarrow> parsed_cron \<Rightarrow> int \<Rightarrow> int list \<Rightarrow> int option" where
  "cron_search tz p candidate [] = None"
| "cron_search tz p candidate (day # days) =
     (case (if day_matches p day
            then find (\<lambda>w. \<not> (w < candidate \<or> \<not> is_valid_local_time tz w False)) (map (\<lambda>t. day + t) (time_slots p))
            else None) of
        Some w \<Rightarrow> Some w
      | None \<Rightarrow> cron_search tz p candidate days)"

definition cron_candidate :: "tzinfo \<Rightarrow> instant \<Rightarrow> int" where
  "cron_candidate tz after = (let w = to_local tz after in w - w mod MINUTE + MINUTE)"

definition cron_days :: "int \<Rightarrow> int list" where
  "cron_days candidate =
     (let day = candidate - candidate mod DAY;
          search_end = candidate + CRON_SEARCH_YEARS * 366 * DAY
      in map (\<lambda>k. day + int k * DAY) [0..<nat ((search_end - day) div DAY + 1)])"

definition next_cron_run :: "tzinfo \<Rightarrow> string \<Rightarrow> instant \<Rightarrow> instant result" where
  "next_cron_run tz cron after =
     bind_result (parse_cron cron) (\<lambda>p.
       let candidate = cron_candidate tz after in
       case cron_search tz p candidate (cron_days candidate) of
         None \<Rightarrow> Inl ValueError
       | Some w \<Rightarrow> Inr (from_local tz w False))"

section \<open>Schedules\<close>

datatype interval_arg = NoInterval | IntervalDelta int | IntervalSeconds rat

fun coerce_interval :: "interval_arg \<Rightarrow> int option" where
  "coerce_interval NoInterval = None"
| "coerce_interval (IntervalDelta d) = Some d"
| "coerce_interval (IntervalSeconds x) = Some (timedelta_seconds x)"

definition coerce_or_zero :: "interval_arg \<Rightarrow> int" where
  "coerce_or_zero a = (case coerce_interval a of None \<Rightarrow> 0 | Some d \<Rightarrow> d)"

record schedule_config =
  sc_task_name :: string
  sc_cron :: "string option"
  sc_interval :: "int option"
  sc_timezone :: string
  sc_initial_delay :: int
  sc_jitter :: int

text \<open>\<open>zones\<close> is the time zone database of the standard library.\<close>

definition schedule_post_init ::
    "(string \<Rightarrow> tzinfo option) \<Rightarrow> string \<Rightarrow> string option \<Rightarrow> interval_arg \<Rightarrow> string \<Rightarrow> interval_arg \<Rightarrow> interval_arg \<Rightarrow>
     schedule_config result" where
  "schedule_post_init zones name cron interval timezone initial_delay jitter =
     (if cron \<noteq> None \<and> interval \<noteq> NoInterval then Inl ValueError
      else if (case coerce_interval interval of None \<Rightarrow> False | Some d \<Rightarrow> d \<le> 0) then Inl ValueError
      else if coerce_or_zero initial_delay < 0 then Inl ValueError
      else if coerce_or_zero jitter < 0 then Inl ValueError
      else if zones timezone = None then Inl ValueError
      else (case (case cron of None \<Rightarrow> Inr () | Some c \<Rightarrow> bind_result (parse_cron c) (\<lambda>_. Inr ())) of
              Inl e \<Rightarrow> Inl e
            | Inr _ \<Rightarrow> Inr \<lparr>sc_task_name = name, sc_cron = cron, sc_interval = coerce_interval interval,
                            sc_timezone = timezone, sc_initial_delay = coerce_or_zero initial_delay,
                            sc_jitter = coerce_or_zero jitter\<rparr>))"

text \<open>\<open>draw\<close> is the uniform random number of seconds between 0 and the jitter.\<close>

definition apply_jitter :: "schedule_config \<Rightarrow> rat \<Rightarrow> instant \<Rightarrow> instant" where
  "apply_jitter c draw u = (if sc_jitter c \<le> 0 then u else u + timedelta_seconds draw)"

definition get_next_run ::
    "(string \<Rightarrow> tzinfo option) \<Rightarrow> schedule_config \<Rightarrow> instant \<Rightarrow> bool \<Rightarrow> rat \<Rightarrow> instant result" where
  "get_next_run zones c base use_initial_delay draw =
     (if use_initial_delay \<and> sc_initial_delay c \<noteq> 0
      then Inr (apply_jitter c draw (base + sc_initial_delay c))
      else case sc_interval c of
             Some d \<Rightarrow> Inr (apply_jitter c draw (base + d))
           | None \<Rightarrow>
               (case sc_cron c of
                  None \<Rightarrow> Inl ValueError
                | Some cron \<Rightarrow>
                    (case zones (sc_timezone c) of
                       None \<Rightarrow> Inl ValueError
                     | Some tz \<Rightarrow> bind_result (next_cron_run tz cron base) (\<lambda>u. Inr (apply_jitter c draw u)))))"

section \<open>Field bounds\<close>

lemma py_range_bounds: "0 < step \<Longrightarrow> set (py_range a (b + 1) step) \<subseteq> {a..b}"
proof
  fix x assume step: "0 < step" and "x \<in> set (py_range a (b + 1) step)"
  then obtain k where k: "x = a + int k * step" "int k < (b - a) div step + 1" "a \<le> b"
    by (auto simp: py_range_def split: if_splits)
  have "int k * step \<le> ((b - a) div step) * step" using k(2) step by (intro mult_right_mono) auto
  also have "\<dots> \<le> b - a" using step pos_mod_sign [of step "b - a"] by (simp add: minus_mod_eq_div_mult [symmetric])
  finally show "x \<in> {a..b}" using k step by simp
qed

lemma py_range_Nil: "0 < step \<Longrightarrow> py_range a (b + 1) step = [] \<longleftrightarrow> b < a"
  using pos_imp_zdiv_nonneg_iff [of step "b - a"] by (auto simp: py_range_def)

lemma py_range_first: "0 < step \<Longrightarrow> a \<le> b \<Longrightarrow> a \<in> set (py_range a (b + 1) step)"
  by (auto simp: py_range_def pos_imp_zdiv_nonneg_iff intro!: image_eqI [of _ _ 0])

lemma py_range_unit: "set (py_range a (b + 1) 1) = {a..b}"
proof
  show "{a..b} \<subseteq> set (py_range a (b + 1) 1)"
  proof
    fix x assume "x \<in> {a..b}"
    then show "x \<in> set (py_range a (b + 1) 1)"
      by (auto simp: py_range_def intro!: image_eqI [of _ _ "nat (x - a)"])
  qed
qed (simp add: py_range_bounds)

lemma cron_part_bounds:
  "cron_part names lo hi part = Inr vs \<Longrightarrow> vs \<noteq> [] \<and> set vs \<subseteq> {lo..hi}"
  unfolding cron_part_def Let_def
  by (auto simp: bind_result_eq_Inr py_range_Nil not_le split: if_splits option.splits prod.splits
      dest!: subsetD [OF py_range_bounds, rotated])

lemma cron_parts_bounds:
  "cron_parts names lo hi parts = Inr S \<Longrightarrow> finite S \<and> S \<subseteq> {lo..hi} \<and> (parts \<noteq> [] \<longrightarrow> S \<noteq> {})"
  by (induction parts arbitrary: S) (auto simp: bind_result_eq_Inr dest!: cron_part_bounds)

lemma split_on_not_Nil [simp]: "split_on sep s \<noteq> []"
  by (induction s) (auto split: list.split)

lemma expand_cron_field_bounds:
  assumes "expand_cron_field field lo hi names ns question = Inr S" and "lo \<le> hi"
  shows "finite S \<and> S \<noteq> {} \<and> (\<not> ns \<longrightarrow> S \<subseteq> {lo..hi})"
proof (cases "question \<and> field = ''?''")
  case True
  with assms show ?thesis by (auto simp: expand_cron_field_def py_range_unit)
next
  case False
  then obtain V where V: "cron_parts names lo hi (split_on (CHR '','') field) = Inr V"
    "S = (if ns \<and> SUNDAY_CRON_VALUE \<in> V then insert 0 (V - {SUNDAY_CRON_VALUE}) else V)"
    using assms(1) by (auto simp: expand_cron_field_def bind_result_eq_Inr)
  from cron_parts_bounds [OF V(1)] show ?thesis by (auto simp: V(2))
qed

lemma expand_weekday_bounds:
  assumes "expand_cron_field field 0 7 names True question = Inr S" and "field \<noteq> ''?''"
  shows "S \<subseteq> {0..6}"
proof -
  obtain V where V: "cron_parts names 0 7 (split_on (CHR '','') field) = Inr V"
    "S = (if SUNDAY_CRON_VALUE \<in> V then insert 0 (V - {SUNDAY_CRON_VALUE}) else V)"
    using assms by (auto simp: expand_cron_field_def bind_result_eq_Inr)
  have V7: "x \<in> V \<Longrightarrow> 0 \<le> x \<and> x \<le> 7" for x using cron_parts_bounds [OF V(1)] by auto
  have "0 \<le> x \<and> x \<le> 6" if x: "x \<in> S" for x
  proof (cases "x = 0")
    case False
    with x V(2) have "x \<in> V" "x \<noteq> 7" by (auto simp: SUNDAY_CRON_VALUE_def split: if_splits)
    with V7 [of x] show ?thesis by auto
  qed simp
  then show ?thesis by auto
qed

lemma parse_cron_bounds:
  assumes "parse_cron cron = Inr p"
  shows "pc_minutes p \<subseteq> {0..59} \<and> pc_hours p \<subseteq> {0..23} \<and> pc_days p \<subseteq> {1..31} \<and> pc_months p \<subseteq> {1..12} \<and>
    pc_minutes p \<noteq> {} \<and> pc_hours p \<noteq> {} \<and> pc_days p \<noteq> {} \<and> pc_months p \<noteq> {} \<and> pc_weekdays p \<noteq> {}"
proof -
  obtain mi h d mo wd where
    "expand_cron_field mi 0 59 [] False False = Inr (pc_minutes p)"
    "expand_cron_field h 0 23 [] False False = Inr (pc_hours p)"
    "expand_cron_field d 1 31 [] False True = Inr (pc_days p)"
    "expand_cron_field mo 1 12 month_names False False = Inr (pc_months p)"
    "expand_cron_field wd 0 7 weekday_names True True = Inr (pc_weekdays p)"
    using assms unfolding parse_cron_def Let_def
    by (auto simp: bind_result_eq_Inr split: list.splits if_splits)
  from this [THEN expand_cron_field_bounds] show ?thesis by simp
qed

section \<open>The search\<close>

text \<open>A wall-clock minute that satisfies the expression.\<close>

definition cron_matches :: "parsed_cron \<Rightarrow> int \<Rightarrow> bool" where
  "cron_matches p w \<longleftrightarrow> w mod MINUTE = 0 \<and> day_matches p (w - w mod DAY) \<and>
     w mod DAY div HOUR \<in> pc_hours p \<and> w mod HOUR div MINUTE \<in> pc_minutes p"

lemma slot_arith:
  assumes "0 \<le> h" "h \<le> 23" "0 \<le> m" "m \<le> 59" "day mod DAY = 0" "w = day + (h * HOUR + m * MINUTE)"
  shows "w mod MINUTE = 0" "w - w mod DAY = day" "w mod DAY div HOUR = h" "w mod HOUR div MINUTE = m"
proof -
  obtain k where k: "day = DAY * k" using assms(5) by (metis dvdE mod_0_imp_dvd)
  have t: "0 \<le> h * HOUR + m * MINUTE" "h * HOUR + m * MINUTE < DAY"
    using assms(1-4) by (simp_all add: HOUR_def MINUTE_def DAY_def)
  then have md: "w mod DAY = h * HOUR + m * MINUTE" by (simp add: assms(6) k)
  then show "w - w mod DAY = day" by (simp add: assms(6))
  have mm: "0 \<le> m * MINUTE" "m * MINUTE < HOUR" using assms(3,4) by (simp_all add: HOUR_def MINUTE_def)
  then show "w mod DAY div HOUR = h" unfolding md by (simp add: HOUR_def)
  have "w = HOUR * (24 * k + h) + m * MINUTE" by (simp add: assms(6) k HOUR_def DAY_def algebra_simps)
  then have wh: "w mod HOUR = m * MINUTE" using mm by simp
  then show "w mod HOUR div MINUTE = m" by (simp add: MINUTE_def)
  have "w = MINUTE * (60 * (24 * k + h) + m)" by (simp add: assms(6) k HOUR_def DAY_def MINUTE_def algebra_simps)
  then show "w mod MINUTE = 0" by simp
qed

lemma slot_of_matching:
  assumes "cron_matches p w"
  shows "w = (w - w mod DAY) + (w mod DAY div HOUR * HOUR + w mod HOUR div MINUTE * MINUTE)"
proof -
  have "w mod DAY mod HOUR = w mod HOUR" by (simp add: DAY_def HOUR_def mod_mod_cancel)
  moreover have "w mod HOUR mod MINUTE = 0" using assms by (simp add: cron_matches_def HOUR_def MINUTE_def mod_mod_cancel)
  ultimately show ?thesis
    using div_mult_mod_eq [of "w mod DAY" HOUR] div_mult_mod_eq [of "w mod HOUR" MINUTE] by linarith
qed

lemma time_slots_set:
  assumes "finite (pc_hours p)" "finite (pc_minutes p)"
  shows "set (time_slots p) = {h * HOUR + m * MINUTE | h m. h \<in> pc_hours p \<and> m \<in> pc_minutes p}"
  using assms by (auto simp: time_slots_def)

lemma sorted_slots:
  assumes "sorted hs" "sorted ms" "set ms \<subseteq> {0..59}" "distinct hs"
  shows "sorted (concat (map (\<lambda>h. map (\<lambda>m. h * HOUR + m * MINUTE) ms) hs))"
  using assms(1,4)
proof (induction hs)
  case (Cons h hs)
  have "sorted (map (\<lambda>m. h * HOUR + m * MINUTE) ms)"
    using assms(2) by (auto simp: sorted_iff_nth_mono MINUTE_def)
  moreover have "x \<le> y" if "x \<in> (\<lambda>m. h * HOUR + m * MINUTE) ` set ms"
    "y \<in> (\<Union>h' \<in> set hs. (\<lambda>m. h' * HOUR + m * MINUTE) ` set ms)" for x y
  proof -
    obtain m h' m' where m: "m \<in> set ms" "x = h * HOUR + m * MINUTE" "h' \<in> set hs" "m' \<in> set ms"
      "y = h' * HOUR + m' * MINUTE" using \<open>x \<in> _\<close> \<open>y \<in> _\<close> by auto
    have "h \<le> h'" "h \<noteq> h'" using Cons.prems m(3) by auto
    moreover have "m \<le> 59" "0 \<le> m'" using m assms(3) by auto
    ultimately have "h + 1 \<le> h'" "m \<le> 59" "0 \<le> m'" by simp_all
    then show ?thesis by (simp add: m HOUR_def MINUTE_def)
  qed
  ultimately show ?case using Cons by (auto simp: sorted_append)
qed simp

lemma find_sorted:
  "sorted xs \<Longrightarrow> find P xs = Some w \<Longrightarrow> w \<in> set xs \<and> P w \<and> (\<forall>x \<in> set xs. x < w \<longrightarrow> \<not> P x)"
  by (induction xs) (auto split: if_splits)

text \<open>The days of a search are consecutive midnights.\<close>

lemma cron_search_result:
  assumes p: "pc_minutes p \<subseteq> {0..59}" "pc_hours p \<subseteq> {0..23}" and day: "day mod DAY = 0"
  shows "case cron_search tz p c (map (\<lambda>k. day + int k * DAY) [0..<n]) of
      None \<Rightarrow> \<forall>w. day \<le> w \<and> w < day + int n * DAY \<longrightarrow> c \<le> w \<longrightarrow> cron_matches p w \<longrightarrow> \<not> is_valid_local_time tz w False
    | Some w \<Rightarrow> day \<le> w \<and> w < day + int n * DAY \<and> c \<le> w \<and> cron_matches p w \<and> is_valid_local_time tz w False \<and>
        (\<forall>v. day \<le> v \<and> c \<le> v \<and> v < w \<longrightarrow> cron_matches p v \<longrightarrow> \<not> is_valid_local_time tz v False)"
  using day
proof (induction n arbitrary: day)
  case 0
  then show ?case by auto
next
  case (Suc n)
  have fin: "finite (pc_hours p)" "finite (pc_minutes p)" using p finite_subset by blast+
  let ?ok = "\<lambda>w. c \<le> w \<and> cron_matches p w \<and> is_valid_local_time tz w False"
  let ?hit = "if day_matches p day then find (\<lambda>w. \<not> (w < c \<or> \<not> is_valid_local_time tz w False)) (map (\<lambda>t. day + t) (time_slots p)) else None"
  have days: "map (\<lambda>k. day + int k * DAY) [0..<Suc n] = day # map (\<lambda>k. (day + DAY) + int k * DAY) [0..<n]"
    by (simp add: upt_conv_Cons map_Suc_upt [symmetric] comp_def algebra_simps del: upt_Suc)
  have inday: "day \<le> w \<and> w < day + DAY \<longleftrightarrow> w - w mod DAY = day" for w
  proof -
    have "w - w mod DAY = DAY * (w div DAY)" by (simp add: minus_mod_eq_mult_div)
    moreover obtain k where "day = DAY * k" using Suc.prems by (metis dvdE mod_0_imp_dvd)
    ultimately show ?thesis
      using pos_mod_bound [of DAY w] pos_mod_sign [of DAY w] by (auto simp: DAY_def)
  qed
  have slots: "w \<in> set (map (\<lambda>t. day + t) (time_slots p)) \<and> day_matches p day \<longleftrightarrow>
      cron_matches p w \<and> day \<le> w \<and> w < day + DAY" for w
  proof
    assume "w \<in> set (map (\<lambda>t. day + t) (time_slots p)) \<and> day_matches p day"
    then obtain h m where hm: "h \<in> pc_hours p" "m \<in> pc_minutes p" "w = day + (h * HOUR + m * MINUTE)" "day_matches p day"
      using time_slots_set [OF fin] by auto
    with p have "0 \<le> h" "h \<le> 23" "0 \<le> m" "m \<le> 59" by auto
    note S = slot_arith [OF this Suc.prems hm(3)]
    have "cron_matches p w" unfolding cron_matches_def S using hm(1,2,4) by simp
    with inday [of w] S(2) show "cron_matches p w \<and> day \<le> w \<and> w < day + DAY" by blast
  next
    assume w: "cron_matches p w \<and> day \<le> w \<and> w < day + DAY"
    then have d: "w - w mod DAY = day" by (simp add: inday [symmetric])
    have slot: "w - day = w mod DAY div HOUR * HOUR + w mod HOUR div MINUTE * MINUTE"
      using slot_of_matching [of p w] w d by simp
    have m: "w mod DAY div HOUR \<in> pc_hours p" "w mod HOUR div MINUTE \<in> pc_minutes p" "day_matches p (w - w mod DAY)"
      using w by (simp_all only: cron_matches_def)
    have "w - day \<in> set (time_slots p)" unfolding time_slots_set [OF fin] using slot m by blast
    moreover have "w = day + (w - day)" by simp
    ultimately show "w \<in> set (map (\<lambda>t. day + t) (time_slots p)) \<and> day_matches p day"
      using m(3) d unfolding set_map by (metis imageI)
  qed
  have "sorted (time_slots p)"
    using sorted_slots [of "sorted_list_of_set (pc_hours p)" "sorted_list_of_set (pc_minutes p)"] fin p
    by (simp add: time_slots_def)
  then have sorted: "sorted (map (\<lambda>t. day + t) (time_slots p))" by (simp add: sorted_iff_nth_mono)
  have next_day: "(day + DAY) mod DAY = 0" using Suc.prems by simp
  show ?case
  proof (cases ?hit)
    case (Some w)
    then have dm: "day_matches p day" by (simp split: if_splits)
    with Some have f: "find (\<lambda>w. \<not> (w < c \<or> \<not> is_valid_local_time tz w False)) (map (\<lambda>t. day + t) (time_slots p)) = Some w"
      by simp
    note F = find_sorted [OF sorted f]
    have w: "?ok w" "day \<le> w" "w < day + DAY" using F dm slots [of w] by auto
    have "\<not> ?ok v" if "day \<le> v" "v < w" for v
      using F dm slots [of v] that w(3) by auto
    moreover have "w < day + int (Suc n) * DAY" using w(3) by (simp add: DAY_def algebra_simps)
    ultimately show ?thesis unfolding days cron_search.simps Some using w by auto
  next
    case None
    have none: "\<not> ?ok w" if "day \<le> w" "w < day + DAY" for w
    proof
      assume ok: "?ok w"
      then have "w \<in> set (map (\<lambda>t. day + t) (time_slots p))" "day_matches p day" using slots [of w] that by blast+
      with None ok show False by (auto simp: find_None_iff)
    qed
    have split: "day \<le> v \<longleftrightarrow> (day \<le> v \<and> v < day + DAY) \<or> day + DAY \<le> v" for v by (auto simp: DAY_def)
    have ends: "day + DAY + int n * DAY = day + int (Suc n) * DAY" by (simp add: algebra_simps)
    note IH = Suc.IH [OF next_day, unfolded ends]
    show ?thesis
    proof (cases "cron_search tz p c (map (\<lambda>k. (day + DAY) + int k * DAY) [0..<n])")
      case None2: None
      with IH none split show ?thesis unfolding days cron_search.simps None by auto
    next
      case (Some w)
      with IH none split show ?thesis unfolding days cron_search.simps None by (auto simp: DAY_def)
    qed
  qed
qed

lemma cron_days_eq:
  "cron_days c = map (\<lambda>k. (c - c mod DAY) + int k * DAY) [0..<2929]"
proof -
  have "(c + CRON_SEARCH_YEARS * 366 * DAY - (c - c mod DAY)) div DAY = 2928"
    by (simp add: CRON_SEARCH_YEARS_def DAY_def)
  then show ?thesis by (simp only: cron_days_def Let_def) simp
qed

text \<open>The result of the search in any time zone, in local readings.\<close>

lemma next_cron_run_local:
  assumes parse: "parse_cron cron = Inr p" and c: "c = cron_candidate tz after"
  shows "case next_cron_run tz cron after of
      Inl e \<Rightarrow> e = ValueError \<and>
        (\<forall>w. c \<le> w \<and> w \<le> c + 2928 * DAY \<longrightarrow> cron_matches p w \<longrightarrow> \<not> is_valid_local_time tz w False)
    | Inr u \<Rightarrow> (\<exists>w. u = from_local tz w False \<and> to_local tz u = w \<and> c \<le> w \<and> cron_matches p w \<and>
        (\<forall>v. c \<le> v \<and> v < w \<longrightarrow> cron_matches p v \<longrightarrow> \<not> is_valid_local_time tz v False))"
proof -
  let ?day = "c - c mod DAY"
  have day: "?day mod DAY = 0" by simp
  have le: "?day \<le> c" "c < ?day + DAY" by (simp_all add: DAY_def)
  have bounds: "pc_minutes p \<subseteq> {0..59}" "pc_hours p \<subseteq> {0..23}" using parse_cron_bounds [OF parse] by blast+
  note R = cron_search_result [where tz = tz and c = c and n = 2929, OF bounds day, folded cron_days_eq]
  show ?thesis
  proof (cases "cron_search tz p c (cron_days c)")
    case None
    have "?day \<le> w \<and> w < ?day + int 2929 * DAY" if "c \<le> w" "w \<le> c + 2928 * DAY" for w
      using that le by simp
    with None R show ?thesis by (simp add: next_cron_run_def parse c [symmetric])
  next
    case (Some w)
    with R have w: "c \<le> w" "cron_matches p w" "is_valid_local_time tz w False"
      "\<forall>v. ?day \<le> v \<and> c \<le> v \<and> v < w \<longrightarrow> cron_matches p v \<longrightarrow> \<not> is_valid_local_time tz v False" by simp_all
    have "to_local tz (from_local tz w False) = w" using w(3) by (simp add: is_valid_local_time_def Let_def)
    moreover have "\<forall>v. c \<le> v \<and> v < w \<longrightarrow> cron_matches p v \<longrightarrow> \<not> is_valid_local_time tz v False"
      using w(4) le by auto
    ultimately show ?thesis using Some w(1,2) by (auto simp: next_cron_run_def parse c [symmetric])
  qed
qed

lemma next_multiple:
  fixes a k M :: int
  assumes "0 < M"
  shows "a - a mod M + M \<le> M * k \<longleftrightarrow> a < M * k"
proof
  assume "a - a mod M + M \<le> M * k"
  with pos_mod_bound [OF assms, of a] show "a < M * k" by simp
next
  assume less: "a < M * k"
  have q: "a - a mod M = M * (a div M)" by (simp add: minus_mod_eq_mult_div)
  with less pos_mod_sign [OF assms, of a] have "M * (a div M) < M * k" by simp
  then have "a div M + 1 \<le> k" using assms by (simp add: mult_less_cancel_left_pos)
  then have "M * (a div M + 1) \<le> M * k" using assms by (simp add: mult_le_cancel_left_pos)
  moreover have "M * (a div M + 1) = M * (a div M) + M" by (simp add: distrib_left)
  ultimately show "a - a mod M + M \<le> M * k" using q by linarith
qed

lemma candidate_is_next_minute:
  assumes "w mod MINUTE = 0"
  shows "cron_candidate tz after \<le> w \<longleftrightarrow> to_local tz after < w"
proof -
  obtain k where "w = MINUTE * k" using assms by (metis dvdE mod_0_imp_dvd)
  moreover have "0 < MINUTE" by (simp add: MINUTE_def)
  ultimately show ?thesis using next_multiple [of MINUTE] by (simp add: cron_candidate_def Let_def)
qed

section \<open>Properties\<close>

text \<open>in UTC the next cron run is the first minute strictly after the given instant that
  satisfies the expression; a \<open>ValueError\<close> means that no minute of the next 2928 days does.\<close>

theorem next_cron_run_utc:
  assumes parse: "parse_cron cron = Inr p"
  shows "case next_cron_run utc_zone cron after of
      Inl e \<Rightarrow> e = ValueError \<and> (\<forall>u. after < u \<and> u \<le> after + 2928 * DAY \<longrightarrow> \<not> cron_matches p u)
    | Inr u \<Rightarrow> after < u \<and> cron_matches p u \<and> (\<forall>v. after < v \<and> v < u \<longrightarrow> \<not> cron_matches p v)"
proof -
  have loc: "to_local utc_zone u = u" "from_local utc_zone w f = w" "is_valid_local_time utc_zone w False" for u w f
    by (simp_all add: to_local_def from_local_def utc_zone_def is_valid_local_time_def)
  have next_minute: "cron_candidate utc_zone after \<le> w \<longleftrightarrow> after < w" if "cron_matches p w" for w
    using candidate_is_next_minute [of w utc_zone after] that by (simp add: loc cron_matches_def)
  have far: "after \<le> cron_candidate utc_zone after"
    using pos_mod_bound [of MINUTE after] by (simp add: cron_candidate_def loc Let_def MINUTE_def)
  have window: "u \<le> cron_candidate utc_zone after + 2928 * DAY" if "u \<le> after + 2928 * DAY" for u
    using that far by simp
  show ?thesis
    using next_cron_run_local [OF parse refl, of utc_zone after] next_minute window
    by (auto simp: loc split: sum.splits)
qed

text \<open>Property C34: in any time zone the next cron run is a valid local reading of a minute that
  satisfies the expression, no earlier valid reading from the next local minute on satisfies it, and
  a \<open>ValueError\<close> means that none in the search window does. Readings skipped by a clock change are
  never returned.\<close>

theorem next_cron_run_in_zone:
  assumes parse: "parse_cron cron = Inr p"
  shows "case next_cron_run tz cron after of
      Inl e \<Rightarrow> e = ValueError \<and> (\<forall>w. cron_candidate tz after \<le> w \<and> w \<le> cron_candidate tz after + 2928 * DAY \<longrightarrow>
        cron_matches p w \<longrightarrow> \<not> is_valid_local_time tz w False)
    | Inr u \<Rightarrow> to_local tz after < to_local tz u \<and> cron_matches p (to_local tz u) \<and>
        (\<forall>v. to_local tz after < v \<and> v < to_local tz u \<longrightarrow> cron_matches p v \<longrightarrow>
           \<not> is_valid_local_time tz v False)"
proof -
  have next_minute: "cron_candidate tz after \<le> w \<longleftrightarrow> to_local tz after < w" if "cron_matches p w" for w
    using candidate_is_next_minute [of w tz after] that by (simp add: cron_matches_def)
  show ?thesis
    using next_cron_run_local [OF parse refl, of tz after] next_minute by (auto split: sum.splits)
qed

text \<open>every field of an accepted cron expression is non-empty and inside its range, so
  the search never proposes an hour, minute, day or month that does not exist.\<close>

theorem parsed_fields_in_range:
  assumes "parse_cron cron = Inr p"
  shows "pc_minutes p \<subseteq> {0..59} \<and> pc_hours p \<subseteq> {0..23} \<and> pc_days p \<subseteq> {1..31} \<and> pc_months p \<subseteq> {1..12} \<and>
    pc_minutes p \<noteq> {} \<and> pc_hours p \<noteq> {} \<and> pc_days p \<noteq> {} \<and> pc_months p \<noteq> {} \<and> pc_weekdays p \<noteq> {}"
  by (rule parse_cron_bounds [OF assms])

text \<open>the delay of a validated backoff policy starts at the initial delay, never
  decreases with the retry count and never exceeds the maximum.\<close>

theorem backoff_delay_bounds:
  assumes "retry_backoff_post_init b0 = Inr b"
  shows "delay_for b 0 = rb_initial_delay b \<and> (m \<le> n \<longrightarrow> delay_for b m \<le> delay_for b n) \<and>
    0 \<le> delay_for b n \<and> rb_initial_delay b \<le> delay_for b n \<and>
    (\<forall>d. rb_max_delay b = Some d \<longrightarrow> delay_for b n \<le> d)"
proof -
  have b: "0 \<le> rb_initial_delay b" "1 \<le> rb_multiplier b" "\<And>d. rb_max_delay b = Some d \<Longrightarrow> rb_initial_delay b \<le> d"
    using assms by (auto simp: retry_backoff_post_init_def split: if_splits option.splits)
  have grow: "rb_initial_delay b * rb_multiplier b ^ m \<le> rb_initial_delay b * rb_multiplier b ^ n" if "m \<le> n" for m n
    using that b(1,2) by (intro mult_left_mono power_increasing) auto
  have "delay_for b 0 = rb_initial_delay b"
    using b(3) by (auto simp: delay_for_def Let_def min_def split: option.split)
  moreover have mono: "delay_for b m \<le> delay_for b n" if "m \<le> n" for m n
    using grow [OF that] by (auto simp: delay_for_def Let_def split: option.split)
  moreover have "delay_for b n \<le> d" if "rb_max_delay b = Some d" for d
    using that by (simp add: delay_for_def Let_def)
  ultimately show ?thesis using b(1) mono [of 0 n] by auto
qed

text \<open>the persisted form of a backoff policy means the same to the backends: the retry
  schedule they compute from the task metadata is the policy's own delay for the attempts consumed.\<close>

theorem backoff_metadata_agrees:
  assumes "get_or_none (metadata r) ''retry_backoff'' = PDict (backoff_as_metadata b)"
    and "attempts_consumed r = int n"
  shows "retry_schedule parse now r =
    Inr (now, if delay_for b n > 0 then Some (now + timedelta_seconds (delay_for b n)) else None)"
  using assms
  by (cases "rb_max_delay b")
    (simp_all add: retry_schedule_def backoff_as_metadata_def get_or_none_def py_pow_def delay_for_def Let_def min.commute)

text \<open>an interval schedule's next run lies between one interval and one interval plus
  the jitter after its base, so it is always in the future of the base.\<close>

theorem interval_run_bounds:
  assumes "schedule_post_init zones name None interval tz delay jitter = Inr c" and "interval \<noteq> NoInterval"
    and "0 \<le> draw" "draw \<le> of_int (sc_jitter c) / 1000000"
  shows "\<exists>u d. get_next_run zones c base False draw = Inr u \<and> sc_interval c = Some d \<and>
    base < u \<and> base + d \<le> u \<and> u \<le> base + d + sc_jitter c"
proof -
  obtain d where d: "sc_interval c = Some d" "0 < d" "0 \<le> sc_jitter c"
    using assms(1,2) by (cases interval) (auto simp: schedule_post_init_def split: if_splits)
  have "0 \<le> timedelta_seconds draw"
    using assms(3) by (simp add: timedelta_seconds_def round_half_even_nonneg)
  moreover have "timedelta_seconds draw \<le> sc_jitter c"
  proof -
    have le: "draw * 1000000 \<le> of_int (sc_jitter c)" using assms(4) by (simp add: field_simps)
    then have "\<lfloor>draw * 1000000\<rfloor> \<le> sc_jitter c" by (simp add: floor_le_iff)
    moreover have "round_half_even (draw * 1000000) \<le> sc_jitter c" if "\<lfloor>draw * 1000000\<rfloor> = sc_jitter c"
    proof -
      have "draw * 1000000 = of_int (sc_jitter c)" using le that by (metis dual_order.antisym of_int_floor_le)
      then show ?thesis by (simp add: round_half_even_def)
    qed
    ultimately show ?thesis
      using round_half_even_mono_floor [of "draw * 1000000"] unfolding timedelta_seconds_def by linarith
  qed
  ultimately show ?thesis using d by (auto simp: get_next_run_def apply_jitter_def)
qed

text \<open>the uniqueness options are accepted exactly when they name one identity source at
  most and a permanent identity has one.\<close>

theorem uniqueness_accepted_iff:
  "validate_uniqueness k source until = Inr () \<longleftrightarrow>
     source \<in> {None, Some ''task'', Some ''arguments''} \<and> until \<in> {''terminal'', ''forever''} \<and>
     \<not> (k \<noteq> None \<and> source \<noteq> None) \<and> \<not> (until = ''forever'' \<and> k = None \<and> source = None)"
  by (auto simp: validate_uniqueness_def)

section \<open>Examples\<close>

definition ex_cron :: parsed_cron where
  "ex_cron = \<lparr>pc_minutes = {30}, pc_hours = {6, 18}, pc_days = set (py_range 1 32 1),
     pc_months = {1, 7}, pc_weekdays = {0, 1, 2, 3, 4, 5},
     pc_day_of_month_restricted = False, pc_day_of_week_restricted = True\<rparr>"

lemma ex_parse: "parse_cron ''30 6,18 * 1,7 SUN,1-5'' = Inr ex_cron"
  by code_simp

text \<open>The month and weekday tables list every name, yet the syntax check rejects each field with
  the letters L or W in it before it looks a name up.\<close>

theorem cron_names_rejected:
  "expand_cron_field ''JUL'' 1 12 month_names False False = Inr {7} \<and>
   expand_cron_field ''WED'' 0 7 weekday_names True True = Inr {3} \<and>
   parse_cron ''0 0 1 JUL *'' = Inl ValueError \<and> parse_cron ''0 0 * * WED'' = Inl ValueError"
  by code_simp

text \<open>A time zone with one clock change, four hours behind UTC before hour 200 and five after.\<close>

definition ex_zone :: tzinfo where
  "ex_zone = \<lparr>tz_offset = (\<lambda>u. if u < 200 * HOUR then - (4 * HOUR) else - (5 * HOUR)),
     tz_fold = (\<lambda>u. 200 * HOUR \<le> u \<and> u < 201 * HOUR),
     tz_local_offset = (\<lambda>w f. if w < 195 * HOUR \<or> w < 196 * HOUR \<and> \<not> f then - (4 * HOUR) else - (5 * HOUR))\<rparr>"


lemma next_cron_run_first_day:
  assumes "parse_cron cron = Inr p" and "day_matches p (c - c mod DAY)" and "c = cron_candidate tz after"
    and "find (\<lambda>w. \<not> (w < c \<or> \<not> is_valid_local_time tz w False)) (map (\<lambda>t. c - c mod DAY + t) (time_slots p)) = Some w"
  shows "next_cron_run tz cron after = Inr (from_local tz w False)"
proof -
  have first: "[0..<2929] = 0 # [1..<2929]"
    by (metis upt_conv_Cons One_nat_def zero_less_numeral)
  have "cron_days c = (c - c mod DAY) # map (\<lambda>k. (c - c mod DAY) + int k * DAY) [1..<2929]"
    by (simp only: cron_days_eq first list.map) simp
  then show ?thesis using assms by (simp add: next_cron_run_def)
qed

definition ex_hourly :: parsed_cron where
  "ex_hourly = \<lparr>pc_minutes = {45}, pc_hours = set (py_range 0 24 1), pc_days = set (py_range 1 32 1),
     pc_months = set (py_range 1 13 1), pc_weekdays = set (py_range 0 7 1),
     pc_day_of_month_restricted = False, pc_day_of_week_restricted = False\<rparr>"

lemma ex_hourly_parse: "parse_cron ''45 * * * *'' = Inr ex_hourly"
  by code_simp

lemma ex_candidate: "cron_candidate ex_zone (200 * HOUR + 30 * MINUTE) = 195 * HOUR + 31 * MINUTE" by code_simp
lemma ex_day: "195 * HOUR + 31 * MINUTE - (195 * HOUR + 31 * MINUTE) mod DAY = 8 * DAY" by code_simp
lemma ex_day_matches: "day_matches ex_hourly (8*DAY)" by code_simp
lemma ex_find: "find (\<lambda>w. \<not> (w < 195 * HOUR + 31 * MINUTE \<or> \<not> is_valid_local_time ex_zone w False)) (map (\<lambda>t. 8 * DAY + t) (time_slots ex_hourly)) = Some (195 * HOUR + 45 * MINUTE)"
  by code_simp
lemma ex_from_local: "from_local ex_zone (195 * HOUR + 45 * MINUTE) False = 199 * HOUR + 45 * MINUTE" by code_simp

text \<open>In the repeated hour after the change, adding a minute resets the fold, so the next run of an
  hourly schedule is an instant before the given one.\<close>

theorem cron_run_before_after:
  "is_valid_local_time ex_zone (to_local ex_zone u) (tz_fold ex_zone u) \<and>
   next_cron_run ex_zone ''45 * * * *'' (200 * HOUR + 30 * MINUTE) = Inr (199 * HOUR + 45 * MINUTE) \<and>
   199 * HOUR + 45 * MINUTE < 200 * HOUR + 30 * MINUTE"
proof -
  have "is_valid_local_time ex_zone (to_local ex_zone u) (tz_fold ex_zone u)"
    by (auto simp: is_valid_local_time_def Let_def to_local_def from_local_def ex_zone_def HOUR_def)
  moreover have "next_cron_run ex_zone ''45 * * * *'' (200 * HOUR + 30 * MINUTE) = Inr (199 * HOUR + 45 * MINUTE)"
    using next_cron_run_first_day [OF ex_hourly_parse _ ex_candidate [symmetric], unfolded ex_day, OF ex_day_matches ex_find]
      ex_from_local by simp
  ultimately show ?thesis by (simp add: HOUR_def MINUTE_def)
qed

lemma ex_next_run: "next_cron_run utc_zone ''45 * * * *'' (195 * HOUR + 30 * MINUTE) = Inr (195 * HOUR + 45 * MINUTE)"
proof -
  have "cron_candidate utc_zone (195 * HOUR + 30 * MINUTE) = 195 * HOUR + 31 * MINUTE" by code_simp
  moreover have "find (\<lambda>w. \<not> (w < 195 * HOUR + 31 * MINUTE \<or> \<not> is_valid_local_time utc_zone w False))
      (map (\<lambda>t. 8 * DAY + t) (time_slots ex_hourly)) = Some (195 * HOUR + 45 * MINUTE)"
    by code_simp
  ultimately show ?thesis
    using next_cron_run_first_day [OF ex_hourly_parse, of "195 * HOUR + 31 * MINUTE", unfolded ex_day, OF ex_day_matches]
    by (simp add: from_local_def utc_zone_def)
qed

theorem next_cron_run_utc_witness:
  "next_cron_run utc_zone ''45 * * * *'' (195 * HOUR + 30 * MINUTE) = Inr (195 * HOUR + 45 * MINUTE) \<and>
   cron_matches ex_hourly (195 * HOUR + 45 * MINUTE) \<and>
   {v. 195 * HOUR + 30 * MINUTE < v \<and> v < 195 * HOUR + 45 * MINUTE \<and> cron_matches ex_hourly v} = {}"
  using next_cron_run_utc [OF ex_hourly_parse, of "195 * HOUR + 30 * MINUTE"]
  by (auto simp add: ex_next_run)

theorem next_cron_run_in_zone_witness:
  "cron_matches ex_hourly (to_local ex_zone (199 * HOUR + 45 * MINUTE)) \<and>
   to_local ex_zone (200 * HOUR + 30 * MINUTE) < to_local ex_zone (199 * HOUR + 45 * MINUTE)"
  using next_cron_run_in_zone [OF ex_hourly_parse, of ex_zone "200 * HOUR + 30 * MINUTE"]
  by (simp add: cron_run_before_after)

theorem parsed_fields_in_range_witness:
  "parse_cron ''30 6,18 * 1,7 SUN,1-5'' = Inr ex_cron \<and> pc_hours ex_cron \<subseteq> {0..23} \<and> pc_days ex_cron \<subseteq> {1..31}"
  using parsed_fields_in_range [OF ex_parse] ex_parse by blast

definition ex_backoff :: retry_backoff where
  "ex_backoff = \<lparr>rb_initial_delay = 5, rb_multiplier = 2, rb_max_delay = Some 60\<rparr>"

theorem backoff_delay_bounds_witness:
  "retry_backoff_post_init ex_backoff = Inr ex_backoff \<and> delay_for ex_backoff 0 = 5 \<and>
   delay_for ex_backoff 2 \<le> delay_for ex_backoff 7 \<and> delay_for ex_backoff 7 \<le> 60"
proof -
  have init: "retry_backoff_post_init ex_backoff = Inr ex_backoff"
    by (simp add: retry_backoff_post_init_def ex_backoff_def)
  have "rb_initial_delay ex_backoff = 5" "rb_max_delay ex_backoff = Some 60" by (simp_all add: ex_backoff_def)
  with backoff_delay_bounds [OF init, of 2 7] init show ?thesis by simp
qed

definition ex_retry_record :: task_record where
  "ex_retry_record = (new_record
     \<lparr>req_task_name = ''send'', req_args = [], req_kwargs = None, req_queue = ''mail'', req_priority = 0,
      req_max_retries = 3, req_scheduled_at = None, req_expires_at = None, req_key = None,
      req_execution_backend = ''local'', req_execution_profile = None,
      req_metadata = Some [(''retry_backoff'', PDict (backoff_as_metadata ex_backoff))]\<rparr> 7 Pending 100)
     \<lparr>retry_count := 2\<rparr>"

theorem backoff_metadata_agrees_witness:
  "retry_schedule Map.empty 100 ex_retry_record =
     Inr (100, if delay_for ex_backoff 2 > 0 then Some (100 + timedelta_seconds (delay_for ex_backoff 2)) else None)"
  by (rule backoff_metadata_agrees)
    (simp_all add: ex_retry_record_def new_record_def get_or_none_def attempts_consumed_def interruption_count_def)

definition ex_schedule :: schedule_config where
  "ex_schedule = \<lparr>sc_task_name = ''send'', sc_cron = None, sc_interval = Some (10 * MINUTE), sc_timezone = ''UTC'',
     sc_initial_delay = 0, sc_jitter = MINUTE\<rparr>"

theorem interval_run_bounds_witness:
  "\<exists>u d. get_next_run (\<lambda>_. Some utc_zone) ex_schedule 100 False 2 = Inr u \<and> sc_interval ex_schedule = Some d \<and>
    100 < u \<and> 100 + d \<le> u \<and> u \<le> 100 + d + sc_jitter ex_schedule"
  by (rule interval_run_bounds [of _ "''send''" "IntervalDelta (10 * MINUTE)" "''UTC''" NoInterval "IntervalDelta MINUTE"])
    (simp_all add: schedule_post_init_def coerce_or_zero_def ex_schedule_def MINUTE_def)

end
