(* ===== verification/Task_Objects.thy ===== *)
theory Task_Objects
  imports Schedules
begin

text \<open>
  Task wrappers and their registration (\<open>task.py\<close>): the validated options of a task, the copies
  \<open>Task.using\<close> makes, the metadata an enqueue persists, the registries the \<open>@task\<close> decorator fills,
  and the persisted form of a recurring schedule. The wrapped callable, its actor and its stale hook
  stay outside; \<open>inspect.signature\<close> is the pair of its \<open>bind\<close> and its \<open>**kwargs\<close> parameters. A
  timeout is a \<open>pyval\<close> because the code stores it without a check.
\<close>

section \<open>Tasks\<close>

record py_signature =
  sig_bind :: "pyval list \<Rightarrow> dict \<Rightarrow> dict result"
  sig_var_keywords :: "string list"

record task_args =
  ta_name :: string
  ta_queue :: string
  ta_priority :: int
  ta_retries :: int
  ta_retry_backoff :: backoff_arg
  ta_timeout :: pyval
  ta_execution_backend :: "string option"
  ta_execution_profile :: "string option"
  ta_key :: "string option"
  ta_unique_by :: "string option"
  ta_unique_until :: string
  ta_run_after :: interval_arg
  ta_expires_in :: interval_arg
  ta_description :: "string option"
  ta_log_level :: "string option"
  ta_log_success :: "bool option"
  ta_requeue_on_stale :: "bool option"
  ta_requeue_on_shutdown :: "bool option"

record task_object =
  to_signature :: py_signature
  to_name :: string
  to_queue :: string
  to_priority :: int
  to_retries :: int
  to_retry_backoff :: "retry_backoff option"
  to_timeout :: pyval
  to_execution_backend :: "string option"
  to_execution_profile :: "string option"
  to_key :: "string option"
  to_unique_by :: "string option"
  to_unique_until :: string
  to_run_after :: "int option"
  to_expires_in :: "int option"
  to_description :: "string option"
  to_log_level :: "string option"
  to_log_success :: "bool option"
  to_requeue_on_stale :: "bool option"
  to_requeue_on_shutdown :: "bool option"

definition task_init :: "py_signature \<Rightarrow> task_args \<Rightarrow> task_object result" where
  "task_init sig a =
     bind_result (validate_uniqueness (ta_key a) (ta_unique_by a) (ta_unique_until a)) (\<lambda>_.
     bind_result (normalize_retry_backoff (ta_retry_backoff a)) (\<lambda>backoff.
       Inr \<lparr>to_signature = sig, to_name = ta_name a, to_queue = ta_queue a, to_priority = ta_priority a,
            to_retries = ta_retries a, to_retry_backoff = backoff, to_timeout = ta_timeout a,
            to_execution_backend = ta_execution_backend a, to_execution_profile = ta_execution_profile a,
            to_key = ta_key a, to_unique_by = ta_unique_by a, to_unique_until = ta_unique_until a,
            to_run_after = coerce_interval (ta_run_after a), to_expires_in = coerce_interval (ta_expires_in a),
            to_description = ta_description a, to_log_level = ta_log_level a,
            to_log_success = ta_log_success a, to_requeue_on_stale = ta_requeue_on_stale a,
            to_requeue_on_shutdown = ta_requeue_on_shutdown a\<rparr>))"

text \<open>\<open>value if value is not None else fallback\<close>.\<close>

fun or_else :: "'a option \<Rightarrow> 'a option \<Rightarrow> 'a option" where
  "or_else None fallback = fallback"
| "or_else (Some x) fallback = Some x"

fun given :: "'a option \<Rightarrow> 'a \<Rightarrow> 'a" where
  "given None fallback = fallback"
| "given (Some x) fallback = x"

definition py_given :: "pyval \<Rightarrow> pyval \<Rightarrow> pyval" where
  "py_given v fallback = (if v = PNone then fallback else v)"

record task_overrides =
  ov_queue :: "string option"
  ov_priority :: "int option"
  ov_retries :: "int option"
  ov_retry_backoff :: backoff_arg
  ov_timeout :: pyval
  ov_execution_backend :: "string option"
  ov_execution_profile :: "string option"
  ov_key :: "string option"
  ov_unique_by :: "string option"
  ov_unique_until :: "string option"
  ov_run_after :: interval_arg
  ov_expires_in :: interval_arg
  ov_description :: "string option"
  ov_log_level :: "string option"
  ov_log_success :: "bool option"
  ov_requeue_on_stale :: "bool option"
  ov_requeue_on_shutdown :: "bool option"

definition no_overrides :: task_overrides where
  "no_overrides = \<lparr>ov_queue = None, ov_priority = None, ov_retries = None, ov_retry_backoff = NoBackoff,
     ov_timeout = PNone, ov_execution_backend = None, ov_execution_profile = None, ov_key = None,
     ov_unique_by = None, ov_unique_until = None, ov_run_after = NoInterval, ov_expires_in = NoInterval,
     ov_description = None, ov_log_level = None, ov_log_success = None, ov_requeue_on_stale = None,
     ov_requeue_on_shutdown = None\<rparr>"

fun interval_or :: "interval_arg \<Rightarrow> int option \<Rightarrow> interval_arg" where
  "interval_or NoInterval None = NoInterval"
| "interval_or NoInterval (Some d) = IntervalDelta d"
| "interval_or a _ = a"

fun backoff_or :: "backoff_arg \<Rightarrow> retry_backoff option \<Rightarrow> backoff_arg" where
  "backoff_or NoBackoff None = NoBackoff"
| "backoff_or NoBackoff (Some b) = BackoffPolicy b"
| "backoff_or a _ = a"

definition task_using :: "task_overrides \<Rightarrow> task_object \<Rightarrow> task_object result" where
  "task_using ov t =
     task_init (to_signature t)
       \<lparr>ta_name = to_name t, ta_queue = given (ov_queue ov) (to_queue t),
        ta_priority = given (ov_priority ov) (to_priority t),
        ta_retries = given (ov_retries ov) (to_retries t),
        ta_retry_backoff = backoff_or (ov_retry_backoff ov) (to_retry_backoff t),
        ta_timeout = py_given (ov_timeout ov) (to_timeout t),
        ta_execution_backend = or_else (ov_execution_backend ov) (to_execution_backend t),
        ta_execution_profile = or_else (ov_execution_profile ov) (to_execution_profile t),
        ta_key = or_else (ov_key ov) (to_key t), ta_unique_by = or_else (ov_unique_by ov) (to_unique_by t),
        ta_unique_until = given (ov_unique_until ov) (to_unique_until t),
        ta_run_after = interval_or (ov_run_after ov) (to_run_after t),
        ta_expires_in = interval_or (ov_expires_in ov) (to_expires_in t),
        ta_description = or_else (ov_description ov) (to_description t),
        ta_log_level = or_else (ov_log_level ov) (to_log_level t),
        ta_log_success = or_else (ov_log_success ov) (to_log_success t),
        ta_requeue_on_stale = or_else (ov_requeue_on_stale ov) (to_requeue_on_stale t),
        ta_requeue_on_shutdown = or_else (ov_requeue_on_shutdown ov) (to_requeue_on_shutdown t)\<rparr>"

section \<open>Persisted metadata\<close>

definition set_if :: "string \<Rightarrow> pyval option \<Rightarrow> dict \<Rightarrow> dict" where
  "set_if k v d = (case v of None \<Rightarrow> d | Some x \<Rightarrow> dict_set k x d)"

definition task_metadata :: "dict option \<Rightarrow> task_object \<Rightarrow> dict" where
  "task_metadata values t =
     set_if ''retry_backoff'' (map_option (\<lambda>b. PDict (backoff_as_metadata b)) (to_retry_backoff t))
       (set_if ''requeue_on_shutdown'' (map_option PBool (to_requeue_on_shutdown t))
         (set_if ''requeue_on_stale'' (map_option PBool (to_requeue_on_stale t))
           (set_if ''log_success'' (map_option PBool (to_log_success t))
             (set_if ''log_level'' (map_option PStr (to_log_level t))
               (set_if ''description'' (map_option PStr (to_description t))
                 (dict_update [] (case values of None \<Rightarrow> [] | Some d \<Rightarrow> d)))))))"

section \<open>Persisted schedules\<close>

definition total_seconds :: "int \<Rightarrow> rat" where
  "total_seconds d = of_int d / 1000000"

definition schedule_as_metadata :: "schedule_config \<Rightarrow> dict" where
  "schedule_as_metadata c =
     [(''cron'', case sc_cron c of None \<Rightarrow> PNone | Some s \<Rightarrow> PStr s),
      (''initial_delay'', PFloat (total_seconds (sc_initial_delay c))),
      (''interval'', case sc_interval c of None \<Rightarrow> PNone | Some d \<Rightarrow> PFloat (total_seconds d)),
      (''jitter'', PFloat (total_seconds (sc_jitter c))),
      (''task_name'', PStr (sc_task_name c)),
      (''timezone'', PStr (sc_timezone c))]"

definition copy_for_task ::
    "(string \<Rightarrow> tzinfo option) \<Rightarrow> string \<Rightarrow> schedule_config \<Rightarrow> schedule_config result" where
  "copy_for_task zones name c =
     schedule_post_init zones name (sc_cron c)
       (case sc_interval c of None \<Rightarrow> NoInterval | Some d \<Rightarrow> IntervalDelta d) (sc_timezone c)
       (IntervalDelta (sc_initial_delay c)) (IntervalDelta (sc_jitter c))"

text \<open>
  \<open>timedelta(seconds=v)\<close> of a stored value; only \<open>None\<close>, an integer, a boolean and a float pass.
\<close>

fun interval_of :: "pyval \<Rightarrow> interval_arg result" where
  "interval_of PNone = Inr NoInterval"
| "interval_of (PBool b) = Inr (IntervalSeconds (if b then 1 else 0))"
| "interval_of (PInt n) = Inr (IntervalSeconds (of_int n))"
| "interval_of (PFloat x) = Inr (IntervalSeconds x)"
| "interval_of _ = Inl TypeError"

fun cron_of :: "pyval \<Rightarrow> string option result" where
  "cron_of PNone = Inr None"
| "cron_of (PStr s) = Inr (Some s)"
| "cron_of _ = Inl TypeError"

text \<open>
  The schedule rebuilt from the metadata of a finished occurrence. \<open>show_value\<close> is \<open>str()\<close> of a value
  that is not text.
\<close>

definition py_str_of :: "(pyval \<Rightarrow> string) \<Rightarrow> pyval \<Rightarrow> string" where
  "py_str_of show_value v = (case v of PStr s \<Rightarrow> s | _ \<Rightarrow> show_value v)"

definition get_or :: "dict \<Rightarrow> string \<Rightarrow> pyval \<Rightarrow> pyval" where
  "get_or d k dflt = (case dict_get d k of None \<Rightarrow> dflt | Some v \<Rightarrow> v)"

definition schedule_from_metadata ::
    "(string \<Rightarrow> tzinfo option) \<Rightarrow> (pyval \<Rightarrow> string) \<Rightarrow> dict \<Rightarrow> schedule_config result" where
  "schedule_from_metadata zones show_value d =
     (case dict_get d ''task_name'' of
        None \<Rightarrow> Inl KeyError
      | Some name \<Rightarrow>
          if get_or_none d ''cron'' \<noteq> PNone \<and> get_or_none d ''interval'' \<noteq> PNone then Inl ValueError
          else
            bind_result (interval_of (get_or_none d ''interval'')) (\<lambda>interval.
            bind_result (interval_of (get_or d ''initial_delay'' (PInt 0))) (\<lambda>initial_delay.
            bind_result (interval_of (get_or d ''jitter'' (PInt 0))) (\<lambda>jitter.
            bind_result (cron_of (get_or_none d ''cron'')) (\<lambda>cron.
              schedule_post_init zones (py_str_of show_value name) cron interval
                (py_str_of show_value (get_or d ''timezone'' (PStr ''UTC''))) initial_delay jitter)))))"

section \<open>Registration\<close>

record task_registry =
  reg_tasks :: "(string \<times> task_object) list"
  reg_schedules :: "(string \<times> schedule_config) list"

definition empty_registry :: task_registry where
  "empty_registry = \<lparr>reg_tasks = [], reg_schedules = []\<rparr>"

text \<open>
  \<open>@task(...)\<close> applied to a function: the schedule is checked under the explicit name first (the
  empty name when there is none), then the task is built and registered, then the schedule under the
  name of the task. \<open>func_name\<close> is the name of the function.
\<close>

definition register_task ::
    "(string \<Rightarrow> tzinfo option) \<Rightarrow> string option \<Rightarrow> string \<Rightarrow> py_signature \<Rightarrow> task_args \<Rightarrow> string option \<Rightarrow>
     interval_arg \<Rightarrow> string \<Rightarrow> interval_arg \<Rightarrow> interval_arg \<Rightarrow> task_registry \<Rightarrow> task_object result \<times> task_registry" where
  "register_task zones explicit func_name sig a cron interval timezone initial_delay jitter reg =
     (if cron \<noteq> None \<and> interval \<noteq> NoInterval then (Inl ValueError, reg)
      else case (if cron \<noteq> None \<or> interval \<noteq> NoInterval
                 then bind_result (schedule_post_init zones (given explicit []) cron interval timezone
                        initial_delay jitter) (\<lambda>c. Inr (Some c))
                 else Inr None) of
             Inl e \<Rightarrow> (Inl e, reg)
           | Inr schedule \<Rightarrow>
               let name = (if given explicit [] = [] then func_name else given explicit []) in
               case task_init sig (a\<lparr>ta_name := name\<rparr>) of
                 Inl e \<Rightarrow> (Inl e, reg)
               | Inr t \<Rightarrow>
                   let reg' = reg\<lparr>reg_tasks := dict_set name t (reg_tasks reg)\<rparr> in
                   case schedule of
                     None \<Rightarrow> (Inr t, reg')
                   | Some c \<Rightarrow>
                       (case copy_for_task zones name c of
                          Inl e \<Rightarrow> (Inl e, reg')
                        | Inr c' \<Rightarrow> (Inr t, reg'\<lparr>reg_schedules := dict_set name c' (reg_schedules reg')\<rparr>)))"

section \<open>Facts\<close>

lemma timedelta_total_seconds [simp]: "timedelta_seconds (total_seconds d) = d"
  by (simp add: timedelta_seconds_def total_seconds_def round_half_even_def)

lemma dict_get_set_if [dict_simps]:
  "dict_get (set_if k v d) k' = (if k' = k then (case v of None \<Rightarrow> dict_get d k | Some x \<Rightarrow> Some x) else dict_get d k')"
  by (auto simp: set_if_def dict_simps split: option.split)

text \<open>The timeout of a task is in no metadata, so a copy that changes it persists the same record.\<close>

lemma metadata_without_timeout: "task_metadata values (t\<lparr>to_timeout := v\<rparr>) = task_metadata values t"
  by (simp add: task_metadata_def)

lemma coerce_interval_or [simp]: "coerce_interval (interval_or NoInterval d) = d"
  by (cases d) auto

lemma normalize_backoff_or [simp]: "normalize_retry_backoff (backoff_or NoBackoff b) = Inr b"
  by (cases b) auto

lemma using_timeout:
  "task_using (no_overrides\<lparr>ov_timeout := v\<rparr>) t =
     bind_result (validate_uniqueness (to_key t) (to_unique_by t) (to_unique_until t))
       (\<lambda>_. Inr (t\<lparr>to_timeout := py_given v (to_timeout t)\<rparr>))"
  by (cases t) (simp add: task_using_def task_init_def no_overrides_def)

lemma using_nothing:
  assumes "task_init sig a = Inr t"
  shows "task_using no_overrides t = Inr t"
proof -
  have "validate_uniqueness (to_key t) (to_unique_by t) (to_unique_until t) = Inr ()"
    using assms by (auto simp: task_init_def bind_result_eq_Inr)
  with using_timeout [of PNone t] show ?thesis by (simp add: no_overrides_def py_given_def)
qed

text \<open>A validated schedule, with what validation has established.\<close>

lemma schedule_post_init_fields:
  assumes "schedule_post_init zones name cron interval tz delay jitter = Inr c"
  shows "sc_task_name c = name" "sc_cron c = cron" "sc_interval c = coerce_interval interval"
    "sc_timezone c = tz" "sc_initial_delay c = coerce_or_zero delay" "sc_jitter c = coerce_or_zero jitter"
    "0 \<le> sc_initial_delay c" "0 \<le> sc_jitter c" "zones tz \<noteq> None" "sc_cron c = None \<or> sc_interval c = None"
    "\<And>d. sc_interval c = Some d \<Longrightarrow> 0 < d"
  using assms by (auto simp: schedule_post_init_def split: if_splits sum.splits option.splits)

lemma schedule_post_init_again:
  assumes "schedule_post_init zones name cron interval tz delay jitter = Inr c"
    and "coerce_interval interval' = coerce_interval interval"
    and "coerce_or_zero delay' = coerce_or_zero delay" "coerce_or_zero jitter' = coerce_or_zero jitter"
    and "interval' = NoInterval \<longleftrightarrow> interval = NoInterval"
  shows "schedule_post_init zones name' cron interval' tz delay' jitter' = Inr (c\<lparr>sc_task_name := name'\<rparr>)"
  using assms by (auto simp: schedule_post_init_def split: if_splits sum.splits)

text \<open>a recurring schedule survives persistence: the schedule rebuilt from the metadata of
  an occurrence is the registered one, to the microsecond, so every successor follows the same rule.\<close>

theorem schedule_round_trip:
  assumes "schedule_post_init zones name cron interval tz delay jitter = Inr c"
  shows "schedule_from_metadata zones show_value (schedule_as_metadata c) = Inr c"
proof -
  note F = schedule_post_init_fields [OF assms]
  have args: "interval_of (case sc_interval c of None \<Rightarrow> PNone | Some d \<Rightarrow> PFloat (total_seconds d)) =
      Inr (case sc_interval c of None \<Rightarrow> NoInterval | Some d \<Rightarrow> IntervalSeconds (total_seconds d))"
    "cron_of (case sc_cron c of None \<Rightarrow> PNone | Some s \<Rightarrow> PStr s) = Inr (sc_cron c)"
    by (simp_all split: option.split)
  have one: "\<not> ((case sc_cron c of None \<Rightarrow> PNone | Some s \<Rightarrow> PStr s) \<noteq> PNone \<and>
      (case sc_interval c of None \<Rightarrow> PNone | Some d \<Rightarrow> PFloat (total_seconds d)) \<noteq> PNone)"
    using F(10) by (auto split: option.splits)
  have again: "schedule_post_init zones name cron
      (case sc_interval c of None \<Rightarrow> NoInterval | Some d \<Rightarrow> IntervalSeconds (total_seconds d)) tz
      (IntervalSeconds (total_seconds (sc_initial_delay c))) (IntervalSeconds (total_seconds (sc_jitter c))) =
      Inr (c\<lparr>sc_task_name := name\<rparr>)"
  proof (rule schedule_post_init_again [OF assms])
    show "coerce_interval (case sc_interval c of None \<Rightarrow> NoInterval | Some d \<Rightarrow> IntervalSeconds (total_seconds d)) =
        coerce_interval interval"
      using F(3) by (simp split: option.split)
    show "(case sc_interval c of None \<Rightarrow> NoInterval | Some d \<Rightarrow> IntervalSeconds (total_seconds d)) = NoInterval \<longleftrightarrow>
        interval = NoInterval"
      using F(3) by (cases interval) simp_all
    show "coerce_or_zero (IntervalSeconds (total_seconds (sc_initial_delay c))) = coerce_or_zero delay"
      using F(5) by (simp add: coerce_or_zero_def)
    show "coerce_or_zero (IntervalSeconds (total_seconds (sc_jitter c))) = coerce_or_zero jitter"
      using F(6) by (simp add: coerce_or_zero_def)
  qed
  have get: "dict_get (schedule_as_metadata c) ''task_name'' = Some (PStr (sc_task_name c))"
    "get_or_none (schedule_as_metadata c) ''cron'' = (case sc_cron c of None \<Rightarrow> PNone | Some s \<Rightarrow> PStr s)"
    "get_or_none (schedule_as_metadata c) ''interval'' =
      (case sc_interval c of None \<Rightarrow> PNone | Some d \<Rightarrow> PFloat (total_seconds d))"
    "get_or (schedule_as_metadata c) ''initial_delay'' v = PFloat (total_seconds (sc_initial_delay c))"
    "get_or (schedule_as_metadata c) ''jitter'' v = PFloat (total_seconds (sc_jitter c))"
    "get_or (schedule_as_metadata c) ''timezone'' v = PStr (sc_timezone c)" for v
    by (simp_all add: schedule_as_metadata_def get_or_none_def get_or_def)
  show ?thesis
    unfolding schedule_from_metadata_def get using one args again F(1,2,4)
    by (simp add: py_str_of_def)
qed

definition ex_every :: schedule_config where
  "ex_every = \<lparr>sc_task_name = ''report'', sc_cron = None, sc_interval = Some 90500000,
     sc_timezone = ''UTC'', sc_initial_delay = 1000001, sc_jitter = 0\<rparr>"

definition ex_zones :: "string \<Rightarrow> tzinfo option" where
  "ex_zones name = (if name = ''UTC'' then Some utc_zone else None)"

lemma ex_every_valid:
  "schedule_post_init ex_zones ''report'' None (IntervalSeconds (181 / 2)) ''UTC'' (IntervalDelta 1000001) NoInterval =
     Inr ex_every"
  by (simp add: schedule_post_init_def ex_zones_def ex_every_def coerce_or_zero_def timedelta_seconds_def
      round_half_even_def)

lemma schedule_round_trip_witness:
  "schedule_from_metadata ex_zones (\<lambda>_. []) (schedule_as_metadata ex_every) = Inr ex_every"
  using schedule_round_trip [OF ex_every_valid, of "\<lambda>_. []"] by simp

end
