(* ===== verification/Service_Core.thy ===== *)
theory Service_Core
  imports Task_Objects
begin

text \<open>
  The ground of the queue service (\<open>service.py\<close>): its configuration, the contract of the execution
  backends (\<open>execution/base.py\<close>), the events it publishes and the helpers its operations share. A
  service operation is a state transformer that may raise: \<open>Inl\<close> keeps the state reached so far.
  The queue backend is the in-memory one. An event is recorded when it is handed to the publisher;
  logging, metrics and spans are left out. The \<open>n\<close>-th reading of the clock by an operation is
  \<open>clk n\<close>, in reading order, or a named argument.
\<close>

section \<open>Operations that may raise\<close>

type_synonym ('s, 'a) op = "'s \<Rightarrow> 'a result \<times> 's"

definition op_return :: "'a \<Rightarrow> ('s, 'a) op" where
  "op_return x s = (Inr x, s)"

definition op_raise :: "py_error \<Rightarrow> ('s, 'a) op" where
  "op_raise e s = (Inl e, s)"

definition op_bind :: "('s, 'a) op \<Rightarrow> ('a \<Rightarrow> ('s, 'b) op) \<Rightarrow> ('s, 'b) op" where
  "op_bind m f s = (case m s of (Inl e, s') \<Rightarrow> (Inl e, s') | (Inr x, s') \<Rightarrow> f x s')"

definition op_lift :: "'a result \<Rightarrow> ('s, 'a) op" where
  "op_lift r s = (r, s)"

definition op_try :: "('s, 'a) op \<Rightarrow> (py_error \<Rightarrow> ('s, 'a) op) \<Rightarrow> ('s, 'a) op" where
  "op_try m h s = (case m s of (Inl e, s') \<Rightarrow> h e s' | (Inr x, s') \<Rightarrow> (Inr x, s'))"

named_theorems op_simps \<open>evaluation of operations\<close>

lemma op_basic [op_simps]:
  "op_return x s = (Inr x, s)" "op_raise e s = (Inl e, s)" "op_lift r s = (r, s)"
  by (simp_all add: op_return_def op_raise_def op_lift_def)

lemma op_bind_simps [op_simps]:
  "m s = (Inl e, s') \<Longrightarrow> op_bind m f s = (Inl e, s')"
  "m s = (Inr x, s') \<Longrightarrow> op_bind m f s = f x s'"
  by (simp_all add: op_bind_def)

lemma op_bind_basic [op_simps]:
  "op_bind (op_return x) f s = f x s" "op_bind (op_raise e) f s = (Inl e, s)"
  "op_bind (op_lift (Inr x)) f s = f x s" "op_bind (op_lift (Inl e)) f s = (Inl e, s)"
  "op_bind (op_bind m f) g s = op_bind m (\<lambda>x. op_bind (f x) g) s"
  by (simp_all add: op_bind_def op_basic split: prod.splits sum.splits)

section \<open>State, events and configuration\<close>

record service_event =
  se_type :: string
  se_task_id :: "uuid option"
  se_worker :: "string option"
  se_attempt :: "int option"
  se_message :: "string option"
  se_payload :: dict

record svc_state =
  ss_store :: mem_state
  ss_events :: "service_event list"

type_synonym 'a svc = "(svc_state, 'a) op"

record exec_backend =
  xb_is_external :: bool
  xb_schedules_on_enqueue :: bool
  xb_max_schedule_horizon :: "int option"
  xb_execute :: "task_record \<Rightarrow> task_record svc"
  xb_dispatch :: "task_record \<Rightarrow> string option svc"
  xb_schedule :: "task_record \<Rightarrow> string option svc"
  xb_repair :: "int \<Rightarrow> dispatch_repair_result svc"
  xb_reconcile :: "task_record \<Rightarrow> task_record option svc"
  xb_cancel_execution :: "task_record \<Rightarrow> execution_cancel_result svc"

definition cancel_unsupported :: "string option \<Rightarrow> execution_cancel_result" where
  "cancel_unsupported detail = \<lparr>cancel_status = Unsupported, cancel_detail = detail\<rparr>"

text \<open>\<open>BaseExecutionBackend\<close>: what a backend inherits when it overrides nothing but \<open>execute\<close>.\<close>

definition base_dispatch :: "(task_record \<Rightarrow> task_record svc) \<Rightarrow> task_record \<Rightarrow> string option svc" where
  "base_dispatch execute r = op_bind (execute r) (\<lambda>_. op_return (execution_ref r))"

definition base_execution_backend :: "(task_record \<Rightarrow> task_record svc) \<Rightarrow> exec_backend" where
  "base_execution_backend execute =
     \<lparr>xb_is_external = False, xb_schedules_on_enqueue = False, xb_max_schedule_horizon = None,
      xb_execute = execute, xb_dispatch = base_dispatch execute, xb_schedule = base_dispatch execute,
      xb_repair = (\<lambda>limit. op_return empty_dispatch_repair_result),
      xb_reconcile = (\<lambda>r. op_return None), xb_cancel_execution = (\<lambda>r. op_return (cancel_unsupported None))\<rparr>"

text \<open>The limits of a typed Cloud Tasks configuration that the service enforces.\<close>

record cloud_tasks_limits =
  ct_default_task_timeout :: rat
  ct_response_margin :: rat
  ct_dispatch_deadline :: int

definition CLOUD_TASKS_MAX_SCHEDULE_HORIZON :: int where
  "CLOUD_TASKS_MAX_SCHEDULE_HORIZON = 30 * DAY"

definition CLOUD_TASKS_BACKEND :: string where
  "CLOUD_TASKS_BACKEND = ''cloudtasks''"

text \<open>
  \<open>sv_backends\<close> answers \<open>None\<close> for a name without an execution backend (a \<open>ValueError\<close>); an exception
  is the text \<open>str(exc)\<close>, which the configured sanitizer may rewrite; the last four fields are the
  standard library: time zones, \<open>float()\<close> of a text, \<open>str()\<close> of a value that is not a text, \<open>isoformat\<close>.
\<close>

record service_env =
  sv_execution_backend :: string
  sv_log_success :: bool
  sv_initialize_schedules :: bool
  sv_max_identity_bytes :: "int option"
  sv_cloud_tasks :: "cloud_tasks_limits option"
  sv_backend_names :: "string list"
  sv_backends :: "string \<Rightarrow> exec_backend option"
  sv_registry :: task_registry
  sv_error_sanitizer :: "(string \<Rightarrow> task_record \<Rightarrow> string) option"
  sv_zones :: "string \<Rightarrow> tzinfo option"
  sv_parse_float :: "string \<Rightarrow> rat option"
  sv_show :: "pyval \<Rightarrow> string"
  sv_isoformat :: "instant \<Rightarrow> string"

definition svc_read :: "(mem_state \<Rightarrow> 'a) \<Rightarrow> 'a svc" where
  "svc_read f s = (Inr (f (ss_store s)), s)"

definition svc_store :: "(mem_state \<Rightarrow> 'a \<times> mem_state) \<Rightarrow> 'a svc" where
  "svc_store f s = (let (x, m) = f (ss_store s) in (Inr x, s\<lparr>ss_store := m\<rparr>))"

definition emit :: "service_event \<Rightarrow> unit svc" where
  "emit e s = (Inr (), s\<lparr>ss_events := ss_events s @ [e]\<rparr>)"

lemma svc_basic [op_simps]:
  "svc_read f s = (Inr (f (ss_store s)), s)"
  "op_bind (svc_read f) g s = g (f (ss_store s)) s"
  "emit e s = (Inr (), s\<lparr>ss_events := ss_events s @ [e]\<rparr>)"
  "op_bind (emit e) h s = h () (s\<lparr>ss_events := ss_events s @ [e]\<rparr>)"
  by (simp_all add: svc_read_def emit_def op_bind_def)

lemma svc_store_simp [op_simps]:
  "svc_store f s = (Inr (fst (f (ss_store s))), s\<lparr>ss_store := snd (f (ss_store s))\<rparr>)"
  "op_bind (svc_store f) g s = g (fst (f (ss_store s))) (s\<lparr>ss_store := snd (f (ss_store s))\<rparr>)"
  by (simp_all add: svc_store_def op_bind_def split: prod.split)

section \<open>Events\<close>

fun status_name :: "task_status \<Rightarrow> string" where
  "status_name Pending = ''pending''"
| "status_name Scheduled = ''scheduled''"
| "status_name Running = ''running''"
| "status_name Completed = ''completed''"
| "status_name Failed = ''failed''"
| "status_name Cancelled = ''cancelled''"
| "status_name Expired = ''expired''"

text \<open>The event of a record; an execution context keeps the attempt number it was built with.\<close>

definition task_event ::
    "string \<Rightarrow> task_record \<Rightarrow> string option \<Rightarrow> int \<Rightarrow> string option \<Rightarrow> dict \<Rightarrow> service_event" where
  "task_event ty r worker attempt message payload =
     \<lparr>se_type = ty, se_task_id = Some (rid r), se_worker = worker, se_attempt = Some attempt,
      se_message = message, se_payload = payload\<rparr>"

definition status_payload :: "task_record \<Rightarrow> dict" where
  "status_payload r = [(''status'', PStr (status_name (status r))), (''retry_count'', PInt (retry_count r))]"

definition error_message :: "service_env \<Rightarrow> string \<Rightarrow> task_record \<Rightarrow> string" where
  "error_message env err r = (case sv_error_sanitizer env of None \<Rightarrow> err | Some f \<Rightarrow> f err r)"

section \<open>Shared helpers\<close>

definition get_execution_backend :: "service_env \<Rightarrow> string option \<Rightarrow> exec_backend option" where
  "get_execution_backend env name = sv_backends env (given name (sv_execution_backend env))"

definition resolve_task :: "service_env \<Rightarrow> string \<Rightarrow> task_object result" where
  "resolve_task env name =
     (case dict_get (reg_tasks (sv_registry env)) name of None \<Rightarrow> Inl KeyError | Some t \<Rightarrow> Inr t)"

definition external_attempt_ref :: "task_record \<Rightarrow> string option" where
  "external_attempt_ref r =
     (case execution_ref r of
        None \<Rightarrow> None
      | Some ref \<Rightarrow> if starts_with EXTERNAL_DISPATCH_RESERVATION_PREFIX ref then None else Some ref)"

definition current_or_claimed :: "task_record \<Rightarrow> task_record svc" where
  "current_or_claimed r = svc_read (\<lambda>m. given (get_task (rid r) m) r)"

definition schedule_persisted :: "service_env \<Rightarrow> task_record \<Rightarrow> task_record svc" where
  "schedule_persisted env r =
     (case get_execution_backend env (Some (execution_backend r)) of
        None \<Rightarrow> op_return r
      | Some b \<Rightarrow>
          if \<not> xb_schedules_on_enqueue b then op_return r
          else op_bind (xb_schedule b r) (\<lambda>_. current_or_claimed r))"

definition beyond_scheduling_horizon ::
    "service_env \<Rightarrow> instant \<Rightarrow> instant option \<Rightarrow> string option \<Rightarrow> bool" where
  "beyond_scheduling_horizon env now scheduled name =
     (case get_execution_backend env name of
        None \<Rightarrow> False
      | Some b \<Rightarrow>
          (case (xb_max_schedule_horizon b, scheduled) of
             (Some horizon, Some t) \<Rightarrow> t > now + horizon
           | _ \<Rightarrow> False))"

fun reject_beyond_scheduling_horizon ::
    "service_env \<Rightarrow> instant \<Rightarrow> instant option \<Rightarrow> string option \<Rightarrow> unit result" where
  "reject_beyond_scheduling_horizon env now scheduled name =
     (if beyond_scheduling_horizon env now scheduled name then Inl QueueConfigurationError else Inr ())"

fun coerce_timedelta :: "interval_arg \<Rightarrow> int option" where
  "coerce_timedelta NoInterval = None"
| "coerce_timedelta (IntervalDelta d) = Some d"
| "coerce_timedelta (IntervalSeconds x) = Some (timedelta_seconds x)"

text \<open>\<open>now\<close> is the clock, read only for a relative deadline without a scheduled time.\<close>

definition resolve_expires_at ::
    "task_object \<Rightarrow> interval_arg \<Rightarrow> py_datetime option \<Rightarrow> instant option \<Rightarrow> instant \<Rightarrow> instant option result" where
  "resolve_expires_at t expires_in deadline scheduled now =
     (if expires_in \<noteq> NoInterval \<and> deadline \<noteq> None then Inl ValueError
      else case deadline of
             Some d \<Rightarrow> Inr (Some (ensure_utc_datetime d))
           | None \<Rightarrow>
               (case or_else (coerce_timedelta expires_in) (to_expires_in t) of
                  None \<Rightarrow> Inr None
                | Some d \<Rightarrow> if d < 0 then Inl ValueError else Inr (Some (given scheduled now + d))))"

definition apply_log_success_default :: "service_env \<Rightarrow> dict \<Rightarrow> dict" where
  "apply_log_success_default env d =
     (if dict_get d ''log_success'' = None then dict_set ''log_success'' (PBool (sv_log_success env)) d else d)"

text \<open>
  The Cloud Tasks checks before anything is written: the timeout to persist, or \<open>None\<close> for a record of
  another configured backend. \<open>now\<close> is the clock of the schedule check.
\<close>

definition finite_number :: "pyval \<Rightarrow> rat option" where
  "finite_number v = (case v of PInt n \<Rightarrow> Some (of_int n) | PFloat x \<Rightarrow> Some x | _ \<Rightarrow> None)"

definition validate_cloud_tasks_record ::
    "service_env \<Rightarrow> string \<Rightarrow> task_object \<Rightarrow> pyval \<Rightarrow> instant option \<Rightarrow> instant \<Rightarrow> pyval option result" where
  "validate_cloud_tasks_record env record_execution t timeout scheduled now =
     (if record_execution \<noteq> CLOUD_TASKS_BACKEND then
        (if record_execution = ''immediate'' \<or> record_execution \<in> set (sv_backend_names env) then Inr None
         else Inl QueueConfigurationError)
      else case sv_cloud_tasks env of
             None \<Rightarrow> Inl QueueConfigurationError
           | Some ct \<Rightarrow>
               let effective = py_given (py_given timeout (to_timeout t)) (PFloat (ct_default_task_timeout ct)) in
               (case finite_number effective of
                  None \<Rightarrow> Inl QueueConfigurationError
                | Some x \<Rightarrow>
                    if x \<le> 0 then Inl QueueConfigurationError
                    else if x + ct_response_margin ct > of_int (ct_dispatch_deadline ct) then Inl QueueConfigurationError
                    else if (case scheduled of None \<Rightarrow> False | Some u \<Rightarrow> u > now + CLOUD_TASKS_MAX_SCHEDULE_HORIZON)
                    then Inl QueueConfigurationError
                    else Inr (Some effective)))"

text \<open>\<open>BaseQueueBackend.enqueue\<close> with the defaults of its keyword arguments.\<close>

definition default_request :: "string \<Rightarrow> task_request" where
  "default_request name =
     \<lparr>req_task_name = name, req_args = [], req_kwargs = None, req_queue = ''default'', req_priority = 0,
      req_max_retries = 0, req_scheduled_at = None, req_expires_at = None, req_key = None,
      req_execution_backend = ''local'', req_execution_profile = None, req_metadata = None\<rparr>"

definition persist_scheduled_record ::
    "service_env \<Rightarrow> task_request \<Rightarrow> uuid \<Rightarrow> (nat \<Rightarrow> instant) \<Rightarrow> task_record svc" where
  "persist_scheduled_record env req fresh clk =
     op_bind (svc_store (enqueue req None fresh (clk 0) (clk 1) (clk 2))) (schedule_persisted env)"

text \<open>Every execution backend is polled: none takes ownership of a record when it is enqueued.\<close>

definition polled :: "service_env \<Rightarrow> bool" where
  "polled env \<longleftrightarrow> (\<forall>name b. sv_backends env name = Some b \<longrightarrow>
     \<not> xb_schedules_on_enqueue b \<and> xb_max_schedule_horizon b = None)"

lemma polled_persisted: "polled env \<Longrightarrow> schedule_persisted env r = op_return r"
  by (auto simp: polled_def schedule_persisted_def get_execution_backend_def split: option.split)

lemma polled_horizon: "polled env \<Longrightarrow> \<not> beyond_scheduling_horizon env now scheduled name"
  by (auto simp: polled_def beyond_scheduling_horizon_def get_execution_backend_def split: option.splits)

lemma resolve_expires_after:
  assumes "resolve_expires_at t expires_in None (Some u) now = Inr (Some e)"
  shows "u \<le> e"
  using assms by (auto simp: resolve_expires_at_def split: option.splits if_splits)

end
