(* ===== verification/Settlement.thy ===== *)
theory Settlement
  imports Service_Core Memory_Properties
begin

text \<open>
  The end of an attempt (\<open>QueueService.execute_record\<close>, \<open>cancel_task\<close>, \<open>interrupt_task\<close> and what
  they call). The task body is any state transformer with one of five outcomes, so whatever other
  workers, sweeps and callers do meanwhile is part of it. The service reads fields of the record
  object it was given when the attempt ends: a backend that returns copies still shows the claimed
  values (\<open>Snapshot\<close>), the in-memory backend hands out the stored object itself (\<open>LiveObject\<close>).
\<close>

section \<open>Attempts\<close>

datatype record_view = Snapshot | LiveObject

fun seen :: "record_view \<Rightarrow> mem_state \<Rightarrow> task_record \<Rightarrow> task_record" where
  "seen Snapshot m r = r"
| "seen LiveObject m r = given (lookup m (rid r)) r"

datatype body_outcome =
    BodyReturned pyval
  | BodyCancelled
  | BodyJobCancelled string
  | BodyNonRetryable string
  | BodyFailed string

datatype exec_result = Executed task_record | CancelPropagated | ExecRaised py_error

text \<open>
  What the settlement of one attempt needs besides the record: how it is read, the worker, the clock,
  the identifier and the jitter of a successor.
\<close>

record attempt_context =
  ac_view :: record_view
  ac_worker :: "string option"
  ac_attempt :: int
  ac_clock :: "nat \<Rightarrow> instant"
  ac_fresh :: uuid
  ac_draw :: rat

definition lifecycle ::
    "attempt_context \<Rightarrow> string \<Rightarrow> task_record \<Rightarrow> string option \<Rightarrow> dict \<Rightarrow> unit svc" where
  "lifecycle x ty r message payload = emit (task_event ty r (ac_worker x) (ac_attempt x) message payload)"

section \<open>Claim loss\<close>

definition claim_lost_payload :: "string \<Rightarrow> int \<Rightarrow> task_record \<Rightarrow> dict" where
  "claim_lost_payload stage expected current =
     [(''phase'', PStr stage), (''expected_retry_count'', PInt expected),
      (''current_status'', PStr (status_name (status current))),
      (''current_retry_count'', PInt (retry_count current))]"

text \<open>Without a context the attempt of the event is the expected one.\<close>

definition publish_claim_lost ::
    "task_record \<Rightarrow> string \<Rightarrow> attempt_context option \<Rightarrow> string option \<Rightarrow> int option \<Rightarrow> task_record svc" where
  "publish_claim_lost r stage context worker expected_retry_count =
     op_bind (current_or_claimed r) (\<lambda>current.
       let expected = given expected_retry_count (retry_count r);
           payload = claim_lost_payload stage expected current;
           message = Some ''Queue task ownership lost''
       in op_bind
            (case context of
               Some x \<Rightarrow> lifecycle x ''task.claim_lost'' r message payload
             | None \<Rightarrow> emit (task_event ''task.claim_lost'' r worker (expected + 1) message payload))
            (\<lambda>_. op_return current))"

section \<open>Retry delay\<close>

text \<open>\<open>_retry_delay\<close>: the power is the retry count of the record, interruptions included.\<close>

definition retry_delay :: "(string \<Rightarrow> rat option) \<Rightarrow> task_record \<Rightarrow> rat result" where
  "retry_delay parse r =
     (case get_or_none (metadata r) ''retry_backoff'' of
        PDict value \<Rightarrow>
          bind_result (py_float parse (get_or value ''initial_delay'' (PFloat 0))) (\<lambda>initial.
          bind_result (py_float parse (get_or value ''multiplier'' (PFloat 1))) (\<lambda>multiplier.
          bind_result (py_pow multiplier (retry_count r)) (\<lambda>power.
            (case get_or_none value ''max_delay'' of
               PNone \<Rightarrow> Inr (initial * power)
             | v \<Rightarrow> bind_result (py_float parse v) (\<lambda>cap. Inr (min (initial * power) cap))))))
      | _ \<Rightarrow> Inr 0)"

section \<open>Recurrence\<close>

definition publish_schedule_rejected :: "task_record \<Rightarrow> unit svc" where
  "publish_schedule_rejected r =
     emit (task_event ''task.event'' r None (retry_count r + 1)
       (Some ''Recurring schedule stopped: the next run is beyond the delivery horizon'')
       [(''phase'', PStr (execution_backend r @ ''.schedule_rejected''))])"

text \<open>The successor carries the metadata of its predecessor with the schedule written again.\<close>

definition successor_request ::
    "task_object \<Rightarrow> schedule_config \<Rightarrow> instant \<Rightarrow> instant option \<Rightarrow> task_record \<Rightarrow> task_request" where
  "successor_request t c scheduled deadline r =
     (default_request (task_name r))\<lparr>req_key := key r, req_queue := queue r, req_max_retries := to_retries t,
        req_priority := priority r, req_scheduled_at := Some scheduled, req_expires_at := deadline,
        req_execution_backend := execution_backend r, req_execution_profile := execution_profile r,
        req_metadata := Some (dict_set ''schedule'' (PDict (schedule_as_metadata c)) (metadata r))\<rparr>"

definition reschedule_if_needed ::
    "service_env \<Rightarrow> attempt_context \<Rightarrow> (nat \<Rightarrow> instant) \<Rightarrow> task_record \<Rightarrow> unit svc" where
  "reschedule_if_needed env x clk r =
     (case (get_or_none (metadata r) ''schedule'', completed_at r) of
        (PDict d, Some finished) \<Rightarrow>
          op_bind (op_lift (schedule_from_metadata (sv_zones env) (sv_show env) d)) (\<lambda>c.
          op_bind (op_lift (resolve_task env (task_name r))) (\<lambda>t.
          op_bind (op_lift (get_next_run (sv_zones env) c finished False (ac_draw x))) (\<lambda>scheduled.
            if beyond_scheduling_horizon env (clk 0) (Some scheduled) (Some (execution_backend r))
            then publish_schedule_rejected r
            else
              op_bind (op_lift (resolve_expires_at t NoInterval None (Some scheduled) (clk 1))) (\<lambda>deadline.
              op_bind (persist_scheduled_record env (successor_request t c scheduled deadline r) (ac_fresh x)
                  (\<lambda>n. clk (n + 1)))
                (\<lambda>_. op_return ())))))
      | _ \<Rightarrow> op_return ())"

section \<open>Cancellation\<close>

fun cancel_status_name :: "execution_cancel_status \<Rightarrow> string" where
  "cancel_status_name Accepted = ''accepted''"
| "cancel_status_name AlreadyCancelled = ''already_cancelled''"
| "cancel_status_name Retryable = ''retryable''"
| "cancel_status_name Unsupported = ''unsupported''"

definition publish_cancel_refused :: "task_record \<Rightarrow> execution_cancel_result \<Rightarrow> unit svc" where
  "publish_cancel_refused r res =
     emit (task_event ''task.event'' r None (retry_count r + 1) (Some ''Remote execution cancellation was refused'')
       [(''phase'', PStr (execution_backend r @ ''.cancel_failed'')),
        (''result'', PStr (cancel_status_name (cancel_status res))),
        (''error'', case cancel_detail res of None \<Rightarrow> PNone | Some d \<Rightarrow> PStr d)])"

definition cancel_external_attempt :: "service_env \<Rightarrow> task_record \<Rightarrow> execution_cancel_result svc" where
  "cancel_external_attempt env r =
     (case get_execution_backend env (Some (execution_backend r)) of
        None \<Rightarrow> op_return (cancel_unsupported (Some ''unknown execution backend''))
      | Some b \<Rightarrow>
          if \<not> xb_is_external b then op_return (cancel_unsupported None)
          else op_bind (xb_cancel_execution b r) (\<lambda>res.
                 if cancel_status res = Retryable
                 then op_bind (publish_cancel_refused r res) (\<lambda>_. op_return res)
                 else op_return res))"

text \<open>The durable half of \<open>_cancel_task\<close>; the backend call carries no expected attempt.\<close>

definition durable_cancel :: "uuid \<Rightarrow> bool \<Rightarrow> string option \<Rightarrow> instant \<Rightarrow> bool svc" where
  "durable_cancel i include_running message now =
     op_bind (svc_store (cancel_task i include_running None now)) (\<lambda>won.
       if \<not> won then op_return False
       else op_bind (svc_read (get_task i)) (\<lambda>found.
         case found of
           None \<Rightarrow> op_return True
         | Some r \<Rightarrow>
             op_bind (emit (task_event ''task.cancelled'' r None (retry_count r + 1) message (status_payload r)))
               (\<lambda>_. if include_running
                    then op_bind (svc_store (\<lambda>m. ((), notify_worker_control (worker_id r) m))) (\<lambda>_. op_return True)
                    else op_return True)))"

definition svc_cancel_task ::
    "service_env \<Rightarrow> uuid \<Rightarrow> bool \<Rightarrow> string option \<Rightarrow> bool \<Rightarrow> instant \<Rightarrow> bool svc" where
  "svc_cancel_task env i include_running message cancel_external now =
     (if cancel_external then
        op_bind (svc_read (get_task i)) (\<lambda>current.
          case current of
            Some r \<Rightarrow>
              if external_attempt_ref r \<noteq> None
              then op_bind (cancel_external_attempt env r) (\<lambda>outcome.
                     if \<not> permits_durable_cancel outcome then op_return False
                     else durable_cancel i include_running message now)
              else durable_cancel i include_running message now
          | None \<Rightarrow> durable_cancel i include_running message now)
      else durable_cancel i include_running message now)"

section \<open>Settlement of an attempt\<close>

definition finish_claim_lost :: "attempt_context \<Rightarrow> task_record \<Rightarrow> string \<Rightarrow> task_record svc" where
  "finish_claim_lost x r stage = publish_claim_lost r stage (Some x) None None"

definition handle_job_cancelled :: "service_env \<Rightarrow> attempt_context \<Rightarrow> task_record \<Rightarrow> string \<Rightarrow> task_record svc" where
  "handle_job_cancelled env x r message =
     op_bind (svc_cancel_task env (rid r) True (Some message) False (ac_clock x 0)) (\<lambda>cancelled.
       if \<not> cancelled then finish_claim_lost x r ''cancel'' else current_or_claimed r)"

definition fail_without_retry :: "service_env \<Rightarrow> attempt_context \<Rightarrow> task_record \<Rightarrow> string \<Rightarrow> task_record svc" where
  "fail_without_retry env x r err =
     (let message = error_message env err r in
      op_bind (svc_store (fail_task (rid r) message False (Some (retry_count r)) None None (ac_clock x 0)))
        (\<lambda>updated. case updated of
           None \<Rightarrow> finish_claim_lost x r ''fail''
         | Some u \<Rightarrow>
             op_bind (lifecycle x ''task.failed'' r (Some message) (status_payload u @ [(''will_retry'', PBool False)]))
               (\<lambda>_. op_return u)))"

definition retry_payload :: "service_env \<Rightarrow> rat \<Rightarrow> instant option \<Rightarrow> task_record \<Rightarrow> dict" where
  "retry_payload env delay retry_at u =
     status_payload u @ [(''will_retry'', PBool (is_waiting u))] @
     (if is_waiting u
      then [(''retry_delay'', PFloat delay),
            (''retry_at'', case retry_at of None \<Rightarrow> PNone | Some t \<Rightarrow> PStr (sv_isoformat env t))]
      else [])"

definition fail_with_retry :: "service_env \<Rightarrow> attempt_context \<Rightarrow> task_record \<Rightarrow> string \<Rightarrow> task_record svc" where
  "fail_with_retry env x r err =
     (let message = error_message env err r; queued = ac_clock x 0 in
      op_bind (op_lift (retry_delay (sv_parse_float env) r)) (\<lambda>delay.
        let retry_at = (if delay > 0 then Some (queued + timedelta_seconds delay) else None) in
        op_bind (svc_store (fail_task (rid r) message True (Some (retry_count r)) retry_at (Some queued) (ac_clock x 1)))
          (\<lambda>updated. case updated of
             None \<Rightarrow> finish_claim_lost x r ''fail''
           | Some u \<Rightarrow>
               op_bind (lifecycle x ''task.failed'' r (Some message) (retry_payload env delay retry_at u)) (\<lambda>_.
                 if status u = Failed
                 then op_bind (reschedule_if_needed env x (\<lambda>n. ac_clock x (n + 2)) u) (\<lambda>_. op_return u)
                 else if is_waiting u then schedule_persisted env u
                 else op_return u))))"

definition complete_attempt :: "service_env \<Rightarrow> attempt_context \<Rightarrow> task_record \<Rightarrow> pyval \<Rightarrow> task_record svc" where
  "complete_attempt env x r v =
     op_bind (svc_store (complete_task (rid r) v (Some (retry_count r)) (ac_clock x 0))) (\<lambda>completed.
       case completed of
         None \<Rightarrow> finish_claim_lost x r ''complete''
       | Some c \<Rightarrow>
           op_bind (lifecycle x ''task.completed'' r None (status_payload c)) (\<lambda>_.
           op_bind (reschedule_if_needed env x (\<lambda>n. ac_clock x (n + 1)) c) (\<lambda>_. op_return c)))"

definition exec_of :: "task_record result \<times> svc_state \<Rightarrow> exec_result \<times> svc_state" where
  "exec_of res = (case res of (Inl e, s) \<Rightarrow> (ExecRaised e, s) | (Inr r, s) \<Rightarrow> (Executed r, s))"

text \<open>Everything after the body; \<open>r\<close> is the object the attempt was given.\<close>

definition settle ::
    "service_env \<Rightarrow> attempt_context \<Rightarrow> body_outcome \<Rightarrow> task_record \<Rightarrow> svc_state \<Rightarrow> exec_result \<times> svc_state" where
  "settle env x outcome r0 s =
     (let r = seen (ac_view x) (ss_store s) r0 in
      case outcome of
        BodyCancelled \<Rightarrow> (CancelPropagated, s)
      | BodyJobCancelled message \<Rightarrow> exec_of (handle_job_cancelled env x r message s)
      | BodyNonRetryable err \<Rightarrow> exec_of (fail_without_retry env x r err s)
      | BodyFailed err \<Rightarrow> exec_of (fail_with_retry env x r err s)
      | BodyReturned v \<Rightarrow> exec_of (complete_attempt env x r v s))"

definition attempt_context_of ::
    "record_view \<Rightarrow> string option \<Rightarrow> (nat \<Rightarrow> instant) \<Rightarrow> uuid \<Rightarrow> rat \<Rightarrow> task_record \<Rightarrow> attempt_context" where
  "attempt_context_of view worker clk fresh draw r =
     \<lparr>ac_view = view, ac_worker = worker, ac_attempt = retry_count r + 1, ac_clock = clk, ac_fresh = fresh,
      ac_draw = draw\<rparr>"

definition execute_record ::
    "service_env \<Rightarrow> record_view \<Rightarrow> string option \<Rightarrow> (nat \<Rightarrow> instant) \<Rightarrow> uuid \<Rightarrow> rat \<Rightarrow>
     (task_record \<Rightarrow> svc_state \<Rightarrow> body_outcome \<times> svc_state) \<Rightarrow> task_record \<Rightarrow> svc_state \<Rightarrow> exec_result \<times> svc_state" where
  "execute_record env view worker clk fresh draw body r s =
     (case resolve_task env (task_name r) of
        Inl e \<Rightarrow> (ExecRaised e, s)
      | Inr t \<Rightarrow>
          let x = attempt_context_of view worker clk fresh draw r;
              (outcome, s') = body r (snd (lifecycle x ''task.started'' r None [] s))
          in settle env x outcome r s')"

section \<open>Interruption\<close>

definition INTERRUPTION_LIMIT_ERROR :: string where
  "INTERRUPTION_LIMIT_ERROR = ''Interrupted during shutdown''"

definition fail_interrupted_task :: "task_record \<Rightarrow> string \<Rightarrow> instant \<Rightarrow> task_record option svc" where
  "fail_interrupted_task r worker now =
     op_bind (svc_store (fail_task (rid r) INTERRUPTION_LIMIT_ERROR True (Some (retry_count r)) None None now))
       (\<lambda>updated. case updated of
          None \<Rightarrow> op_return None
        | Some u \<Rightarrow>
            op_bind (emit (task_event ''task.failed'' u (Some worker) (retry_count u + 1) (Some INTERRUPTION_LIMIT_ERROR)
                (status_payload u @ [(''will_retry'', PBool (\<not> is_terminal u))])))
              (\<lambda>_. op_return (Some u)))"

definition svc_interrupt_task ::
    "task_record \<Rightarrow> string \<Rightarrow> string \<Rightarrow> int option \<Rightarrow> instant \<Rightarrow> task_record option svc" where
  "svc_interrupt_task r worker reason max_interruptions now =
     (if (case max_interruptions of None \<Rightarrow> False | Some k \<Rightarrow> interruption_count r \<ge> k)
      then fail_interrupted_task r worker now
      else op_bind (svc_store (interrupt_task (rid r) (retry_count r) worker now)) (\<lambda>updated.
             case updated of
               None \<Rightarrow> op_return None
             | Some u \<Rightarrow>
                 op_bind (emit (task_event ''task.interrupted'' u (Some worker) (retry_count u + 1) None
                     ([(''reason'', PStr reason)] @ status_payload u)))
                   (\<lambda>_. op_return (Some u))))"

end
