(* ===== verification/Memory_Witnesses.thy ===== *)
theory Memory_Witnesses
  imports Memory_Sweeps Base_Backend
begin

text \<open>
  One small history of the in-memory backend, evaluated step by step: a keyed task with one
  retry is submitted, claimed, fails, is claimed again and completes. The properties of the
  backend are applied to its states.
\<close>

section \<open>The history\<close>

definition ex_request :: task_request where
  "ex_request = \<lparr>req_task_name = ''send'', req_args = [], req_kwargs = None, req_queue = ''mail'',
     req_priority = 0, req_max_retries = 1, req_scheduled_at = None, req_expires_at = None,
     req_key = Some ''k'', req_execution_backend = ''local'', req_execution_profile = None,
     req_metadata = None\<rparr>"

definition ex_record :: task_record where
  "ex_record = new_record ex_request 7 Pending 100"

definition ex_started :: task_record where
  "ex_started = start_record 110 ex_record"

definition ex_failed_once :: task_record where
  "ex_failed_once = fail_record ''boom'' True None (Some 120) 120 ex_started"

definition ex_restarted :: task_record where
  "ex_restarted = start_record 130 ex_failed_once"

definition ex_done :: task_record where
  "ex_done = complete_record (PInt 1) 140 ex_restarted"

definition ex_claim :: mem_op where "ex_claim = OpClaim 7 None None 110 110"

definition ex_fail :: mem_op where "ex_fail = OpFail 7 ''boom'' True (Some 0) None (Some 120) 120"

definition ex_claim_again :: mem_op where "ex_claim_again = OpClaim 7 None None 130 130"

definition ex_state :: "task_record \<Rightarrow> mem_state" where
  "ex_state r = \<lparr>mem_records = [(7, r)], mem_keys = [(''k'', 7)], mem_reservations = [],
     mem_notification = True, mem_control = False, mem_maintenances = []\<rparr>"

lemmas ex_defs = ex_request_def ex_record_def ex_started_def ex_failed_once_def ex_restarted_def
  ex_done_def new_record_def start_record_def fail_record_def complete_record_def

lemma ex_step_enqueue: "mem_step (OpEnqueue ex_request None 7 100 100 100) mem_init = ex_state ex_record"
  by (simp add: enqueue_def existing_for_key_def mem_init_def insert_record_def put_record_def
      notify_new_task_def ex_state_def initial_status_def ex_request_def ex_record_def new_record_def
      is_waiting_def is_due_def Let_def)

lemma ex_lookup [simp]: "lookup (ex_state r) 7 = Some r" "lookup (ex_state r) i = (if i = 7 then Some r else None)"
  by (simp_all add: ex_state_def)

lemma ex_values [simp]: "mem_values (ex_state r) = [r]"
  by (simp add: ex_state_def)

lemma ex_modify [simp]: "ex_state r\<lparr>mem_records := dict_set 7 r' (mem_records (ex_state r))\<rparr> = ex_state r'"
  by (simp add: ex_state_def)

lemma ex_claim_first: "claim_task_with_expired 7 None None t 110 (ex_state ex_record) =
    ((Some ex_started, None), ex_state ex_started)"
  by (simp add: claim_task_with_expired_def claimable_def ex_started_def)
    (simp add: ex_record_def ex_request_def new_record_def is_waiting_def is_due_def is_expired_def)

lemma ex_fail_first: "fail_task 7 ''boom'' True (Some 0) None (Some 120) 120 (ex_state ex_started) =
    (Some ex_failed_once, ex_state ex_failed_once)"
  by (simp add: fail_task_def modify_if_def attempt_fence_def ex_failed_once_def)
    (simp add: ex_started_def start_record_def ex_record_def new_record_def)

lemma ex_claim_second: "claim_task_with_expired 7 None None t 130 (ex_state ex_failed_once) =
    ((Some ex_restarted, None), ex_state ex_restarted)"
  by (simp add: claim_task_with_expired_def claimable_def ex_restarted_def)
    (simp add: ex_defs is_waiting_def is_due_def is_expired_def attempts_consumed_def
      interruption_count_def get_or_none_def)

lemma ex_steps:
  "mem_step ex_claim (ex_state ex_record) = ex_state ex_started"
  "mem_step ex_fail (ex_state ex_started) = ex_state ex_failed_once"
  "mem_step ex_claim_again (ex_state ex_failed_once) = ex_state ex_restarted"
  by (simp_all add: ex_claim_def ex_fail_def ex_claim_again_def ex_claim_first ex_fail_first ex_claim_second)

lemma ex_ops_ok:
  "op_ok (OpEnqueue ex_request None 7 100 100 100) mem_init"
  "op_ok ex_claim s" "op_ok ex_fail s" "op_ok ex_claim_again s"
  by (simp_all add: op_ok_def op_disciplined_def op_new_ids_def new_id_def mem_init_def ex_claim_def
      ex_fail_def ex_claim_again_def)

lemma ex_reachable [simp]:
  "mem_reachable (ex_state ex_record)" "mem_reachable (ex_state ex_started)"
  "mem_reachable (ex_state ex_failed_once)" "mem_reachable (ex_state ex_restarted)"
proof -
  show r1: "mem_reachable (ex_state ex_record)"
    using mem_stepped [OF mem_start ex_ops_ok(1)] by (simp only: ex_step_enqueue)
  show r2: "mem_reachable (ex_state ex_started)"
    using mem_stepped [OF r1 ex_ops_ok(2)] by (simp only: ex_steps)
  show r3: "mem_reachable (ex_state ex_failed_once)"
    using mem_stepped [OF r2 ex_ops_ok(3)] by (simp only: ex_steps)
  show "mem_reachable (ex_state ex_restarted)"
    using mem_stepped [OF r3 ex_ops_ok(4)] by (simp only: ex_steps)
qed

lemma ex_new_ids [simp]:
  "op_new_ids ex_claim = []" "op_new_ids ex_fail = []" "op_new_ids ex_claim_again = []"
  by (simp_all add: op_new_ids_def ex_claim_def ex_fail_def ex_claim_again_def)

lemma ex_runs:
  "mem_run 7 (ex_state ex_started) (ex_state ex_failed_once)"
  "mem_run 7 (ex_state ex_failed_once) (ex_state ex_restarted)"
proof -
  show "mem_run 7 (ex_state ex_started) (ex_state ex_failed_once)"
    using onward [OF stay ex_ops_ok(3), of 7 "ex_state ex_started"] by (simp add: ex_steps)
  show "mem_run 7 (ex_state ex_failed_once) (ex_state ex_restarted)"
    using onward [OF stay ex_ops_ok(4), of 7 "ex_state ex_failed_once"] by (simp add: ex_steps)
qed

lemma ex_fields [simp]:
  "rid ex_record = 7" "rid ex_started = 7" "rid ex_failed_once = 7" "rid ex_restarted = 7"
  "key ex_record = Some ''k''" "key ex_started = Some ''k''" "key ex_failed_once = Some ''k''"
  "status ex_record = Pending" "status ex_started = Running" "status ex_failed_once = Pending"
  "status ex_restarted = Running" "retry_count ex_record = 0" "retry_count ex_started = 0"
  "retry_count ex_failed_once = 1" "retry_count ex_restarted = 1"
  "max_retries ex_record = 1" "max_retries ex_restarted = 1" "interruption_count ex_record = 0"
  "interruption_count ex_restarted = 0" "queue ex_record = ''mail''"
  by (simp_all add: ex_defs attempts_consumed_def interruption_count_def get_or_none_def)

section \<open>The properties on the history\<close>

theorem reachable_states_well_formed_witness: "mem_wf (ex_state ex_restarted)"
  by (rule reachable_states_well_formed) simp




theorem lost_lease_cannot_settle_witness:
  "complete_task 7 (PInt 1) (Some 0) 150 (ex_state ex_restarted) = (None, ex_state ex_restarted)"
  using lost_lease_cannot_settle [of "ex_state ex_failed_once" 7 ex_failed_once 0 "ex_state ex_restarted" "PInt 1" 150]
  by (simp add: ex_runs)

theorem terminal_outcome_final_witness:
  "status ex_done = Completed \<and> task_result ex_done = PInt 1 \<and> completed_at ex_done \<noteq> None"
proof -
  have done_step: "mem_step (OpComplete 7 (PInt 1) (Some 1) 140) (ex_state ex_restarted) = ex_state ex_done"
    by (simp add: complete_task_def modify_if_def attempt_fence_def ex_done_def)
  have ok: "op_ok (OpComplete 7 (PInt 1) (Some 1) 140) (ex_state ex_restarted)"
    by (simp add: op_ok_def op_disciplined_def op_new_ids_def)
  have reach: "mem_reachable (ex_state ex_done)"
    using mem_stepped [OF ex_reachable(4) ok] by (simp only: done_step)
  have s: "status ex_done = Completed" "task_result ex_done = PInt 1"
    by (simp_all add: ex_done_def complete_record_def)
  show ?thesis
    using terminal_outcome_final [OF reach ex_lookup(1) _ stay ex_lookup(1)] s by (simp add: is_terminal_simp)
qed

theorem claim_many_takes_best_witness:
  "fst (claim_many 5 [] None None 110 (ex_state ex_record)) = [ex_started]"
  using claim_many_takes_best [of "ex_state ex_record" 5 "[]" None 110]
  by (simp add: eligible_for_def ex_started_def)
    (simp add: ex_record_def new_record_def ex_request_def is_waiting_def is_due_def is_expired_def)

theorem claim_many_respects_limits_witness:
  "length (filter (\<lambda>r. queue r = ''mail'')
     (fst (claim_many 5 [] None (Some [(''mail'', 0)]) 110 (ex_state ex_record)))) = 0"
proof -
  obtain c s' where res: "claim_many 5 [] None (Some [(''mail'', 0)]) 110 (ex_state ex_record) = (c, s')"
    by (cases "claim_many 5 [] None (Some [(''mail'', 0)]) 110 (ex_state ex_record)")
  have "\<forall>q l. dict_get [(''mail'', 0)] q = Some l \<longrightarrow>
      int (length (filter (\<lambda>r. queue r = q) c)) \<le> max 0 l"
    using claim_many_respects_limits [OF ex_reachable(1) _ res] by simp
  from this [rule_format, of "''mail''" 0] show ?thesis by (simp add: res)
qed

theorem enqueue_deduplicates_witness:
  "fst (enqueue ex_request None 9 200 200 200 (ex_state ex_started)) = ex_started"
proof -
  have first: "enqueue ex_request None 7 100 100 100 mem_init = (ex_record, ex_state ex_record)"
    using ex_step_enqueue by (simp add: prod_eq_iff)
      (simp add: enqueue_def existing_for_key_def ex_request_def mem_init_def Let_def ex_record_def initial_status_def)
  have run: "mem_run 7 (ex_state ex_record) (ex_state ex_started)"
    using onward [OF stay ex_ops_ok(2), of 7 "ex_state ex_record"] by (simp add: ex_steps)
  have "enqueue ex_request None 9 200 200 200 (ex_state ex_started) = (ex_started, ex_state ex_started)"
    by (rule enqueue_deduplicates [OF mem_start _ first _ _ _ _])
      (simp_all add: run new_id_def mem_init_def ex_request_def is_terminal_simp)
  then show ?thesis by simp
qed

text \<open>A task with a deadline, for the expiry sweep.\<close>

definition ex_deadline :: task_request where
  "ex_deadline = ex_request\<lparr>req_expires_at := Some 150\<rparr>"

definition ex_overdue :: task_record where
  "ex_overdue = new_record ex_deadline 7 Pending 100"

lemma ex_deadline_reachable: "mem_reachable (ex_state ex_overdue)"
proof -
  have "op_ok (OpEnqueue ex_deadline None 7 100 100 100) mem_init"
    by (simp add: op_ok_def op_disciplined_def op_new_ids_def new_id_def mem_init_def)
  moreover have "mem_step (OpEnqueue ex_deadline None 7 100 100 100) mem_init = ex_state ex_overdue"
    by (simp add: enqueue_def existing_for_key_def mem_init_def insert_record_def put_record_def
        notify_new_task_def ex_state_def initial_status_def ex_deadline_def ex_request_def ex_overdue_def
        new_record_def is_waiting_def is_due_def Let_def)
  ultimately show ?thesis using mem_stepped [OF mem_start] by metis
qed

theorem expire_overdue_exact_witness:
  "fst (expire_overdue (Some 3) 150 (ex_state ex_overdue)) = [expire_record 150 ex_overdue]"
proof -
  obtain es s' where res: "expire_overdue (Some 3) 150 (ex_state ex_overdue) = (es, s')"
    by (cases "expire_overdue (Some 3) 150 (ex_state ex_overdue)")
  have "overdue 150 ex_overdue"
    by (simp add: overdue_def ex_overdue_def ex_deadline_def new_record_def ex_request_def is_waiting_def is_expired_def)
  then show ?thesis using expire_overdue_exact [OF ex_deadline_reachable res] res by simp
qed

theorem stale_recovery_exact_witness:
  "sr_failed_task_ids (the (map_option (\<lambda>x. x) (case fst (requeue_stale_running (\<lambda>_. None) Preserve 60 None 500 (\<lambda>_. 500)
      (ex_state ex_restarted)) of Inr out \<Rightarrow> Some out | Inl _ \<Rightarrow> None))) = [7]"
proof -
  have rec: "\<not> recoverable ex_restarted" by (simp add: recoverable_def attempts_consumed_def)
  have beat: "heartbeat_at ex_restarted = Some 130" by (simp add: ex_restarted_def start_record_def)
  have cand: "stale_candidates 60 None 500 (ex_state ex_restarted) = [ex_restarted]"
    using beat by (simp add: stale_candidates_def is_stale_def)
  obtain res s' where r: "requeue_stale_running (\<lambda>_. None) Preserve 60 None 500 (\<lambda>_. 500) (ex_state ex_restarted) = (res, s')"
    by (cases "requeue_stale_running (\<lambda>_. None) Preserve 60 None 500 (\<lambda>_. 500) (ex_state ex_restarted)")
  have "\<exists>out. res = Inr out"
    using r cand rec unfolding requeue_stale_running_def stale_candidates_def [symmetric]
    by (auto simp: stale_step_def recoverable_def Let_def split: if_splits)
  then obtain out where out: "res = Inr out" by blast
  from stale_recovery_exact [OF ex_reachable(4) r [unfolded out]] cand rec r out
  show ?thesis by simp
qed

theorem cleanup_terminal_exact_witness:
  "lookup (snd (cleanup_terminal 1000 None (ex_state ex_started))) 7 = Some ex_started"
proof -
  have "cleanup_terminal 1000 None (ex_state ex_started) = (0, ex_state ex_started)"
    by (simp add: cleanup_terminal_def cleanup_candidate_def is_terminal_simp)
  from cleanup_terminal_exact [OF ex_reachable(2) this] this show ?thesis by simp
qed

theorem failing_task_runs_retries_plus_one_witness:
  "status ((failing_attempt 5 ''boom'' ^^ 2) ex_record) = Failed"
  using failing_task_runs_retries_plus_one [of ex_record 1] by (simp add: is_waiting_def numeral_2_eq_2)

theorem interrupt_keeps_budget_witness:
  "attempts_consumed (the (fst (interrupt_task 7 0 ''w'' 120
     (ex_state (ex_started\<lparr>worker_id := Some ''w''\<rparr>))))) = 0"
proof -
  let ?r = "ex_started\<lparr>worker_id := Some ''w''\<rparr>"
  have res: "interrupt_task 7 0 ''w'' 120 (ex_state ?r) = (Some (interrupt_record 120 ?r), ex_state (interrupt_record 120 ?r))"
    by (simp add: interrupt_task_def modify_if_def)
  have "attempts_consumed ?r = 0"
    by (simp add: attempts_consumed_def interruption_count_def ex_defs get_or_none_def)
  with interrupt_keeps_budget [OF res ex_lookup(1)] res show ?thesis by simp
qed

section \<open>The generic claims on the history\<close>

lemma ex_pending: "list_pending now 1 None None (ex_state ex_record) = [ex_record]" if "now = 110"
  unfolding that list_pending_def
  by (simp add: py_take_def)
    (simp add: ex_record_def new_record_def ex_request_def is_waiting_def is_due_def is_expired_def)

theorem base_claim_many_agrees_witness:
  "fst (base_claim_many (clocked_pending (\<lambda>_. 110)) (clocked_claim (\<lambda>_. 110)) 5 [] None None (0, ex_state ex_record))
     = fst (claim_many 5 [] None None 110 (ex_state ex_record))"
  by (rule base_claim_many_agrees) simp

theorem base_claim_many_safe_witness:
  "length (fst (base_claim_many (clocked_pending (\<lambda>_. 110)) (clocked_claim (\<lambda>_. 110)) 1 [''mail''] None None
     (0, ex_state ex_record))) \<le> 1"
proof -
  obtain cs k s' where res: "base_claim_many (clocked_pending (\<lambda>_. 110)) (clocked_claim (\<lambda>_. 110)) 1 [''mail''] None None
     (0, ex_state ex_record) = (cs, k, s')" by (metis prod_cases3)
  show ?thesis using base_claim_many_safe [OF ex_reachable(1) res] res by simp
qed

theorem base_claim_many_limited_witness:
  "length (filter (\<lambda>c. queue c = ''mail'') (fst (base_claim_many (clocked_pending (\<lambda>_. 110)) (clocked_claim (\<lambda>_. 110))
     5 [] None (Some [(''mail'', 0)]) (0, ex_state ex_record)))) = 0"
proof -
  obtain cs ks where res: "base_claim_many (clocked_pending (\<lambda>_. 110)) (clocked_claim (\<lambda>_. 110))
     5 [] None (Some [(''mail'', 0)]) (0, ex_state ex_record) = (cs, ks)" by (metis surj_pair)
  show ?thesis using base_claim_many_limited [OF ex_reachable(1) _ res, of "''mail''" 0] res by simp
qed

theorem base_claim_with_expired_exclusive_witness:
  "fst (base_claim_task_with_expired (clocked_claim (\<lambda>_. 110)) (clocked_expire (\<lambda>_. 110)) 7 None None
     (0, ex_state ex_record)) = (Some ex_started, None)"
proof -
  have "\<not> overdue 110 ex_record" "\<not> overdue 110 ex_started"
    by (simp_all add: overdue_def ex_defs is_expired_def)
  then have none: "expire_overdue None 110 (ex_state ex_record) = ([], ex_state ex_record)"
    "expire_overdue None 110 (ex_state ex_started) = ([], ex_state ex_started)"
    by (simp_all add: expire_overdue_def ex_state_def)
  have claim: "claim_task 7 None None 110 110 (ex_state ex_record) = (Some ex_started, ex_state ex_started)"
    by (simp add: claim_task_def ex_claim_first)
  have res: "base_claim_task_with_expired (clocked_claim (\<lambda>_. 110)) (clocked_expire (\<lambda>_. 110)) 7 None None
      (0, ex_state ex_record) = ((Some ex_started, None), 4, ex_state ex_started)"
    by (simp add: base_claim_task_with_expired_def clocked_expire_def clocked_claim_def none claim)
  from base_claim_with_expired_exclusive [OF ex_reachable(1) res] show ?thesis by (simp add: res)
qed

end
