(* ===== verification/Settlement_Properties.thy ===== *)
theory Settlement_Properties
  imports Settlement Memory_Witnesses
begin

text \<open>
  What settlement guarantees: an attempt that lost its lease changes nothing, a current attempt is
  settled exactly as its outcome says, a finished occurrence of a recurring task has one successor,
  and interruptions are bounded. Three counterexamples mark where the code falls short.
\<close>

section \<open>Fenced updates\<close>

definition attempt_current :: "mem_state \<Rightarrow> task_record \<Rightarrow> bool" where
  "attempt_current m r \<longleftrightarrow>
     (\<exists>q. lookup m (rid r) = Some q \<and> status q = Running \<and> retry_count q = retry_count r)"

lemma modify_if_hit:
  "lookup m i = Some q \<Longrightarrow> guard q \<Longrightarrow>
   modify_if i guard f m = (Some (f q), m\<lparr>mem_records := dict_set i (f q) (mem_records m)\<rparr>)"
  by (simp add: modify_if_def)

lemma modify_if_miss: "(\<And>q. lookup m i = Some q \<Longrightarrow> \<not> guard q) \<Longrightarrow> modify_if i guard f m = (None, m)"
  by (simp add: modify_if_def split: option.split)

lemma settle_hit:
  assumes "lookup m i = Some q" "status q = Running" "retry_count q = n"
  shows "complete_task i v (Some n) now m =
      (Some (complete_record v now q), m\<lparr>mem_records := dict_set i (complete_record v now q) (mem_records m)\<rparr>)"
    and "fail_task i err retry (Some n) ra qa now m =
      (Some (fail_record err retry ra qa now q),
       m\<lparr>mem_records := dict_set i (fail_record err retry ra qa now q) (mem_records m)\<rparr>)"
  using assms by (simp_all add: complete_task_def fail_task_def attempt_fence_def modify_if_hit)

lemma settle_miss:
  assumes "\<not> attempt_current m r"
  shows "complete_task (rid r) v (Some (retry_count r)) now m = (None, m)"
    and "fail_task (rid r) err retry (Some (retry_count r)) ra qa now m = (None, m)"
  using assms
  by (auto simp: complete_task_def fail_task_def attempt_fence_def attempt_current_def intro!: modify_if_miss)

section \<open>Lost attempts\<close>

definition lost_event :: "attempt_context \<Rightarrow> task_record \<Rightarrow> string \<Rightarrow> task_record \<Rightarrow> service_event" where
  "lost_event x r stage current =
     task_event ''task.claim_lost'' r (ac_worker x) (ac_attempt x) (Some ''Queue task ownership lost'')
       (claim_lost_payload stage (retry_count r) current)"

lemma finish_claim_lost_result:
  "finish_claim_lost x r stage s =
     (Inr (given (lookup (ss_store s) (rid r)) r),
      s\<lparr>ss_events := ss_events s @ [lost_event x r stage (given (lookup (ss_store s) (rid r)) r)]\<rparr>)"
  by (simp add: finish_claim_lost_def publish_claim_lost_def current_or_claimed_def lifecycle_def lost_event_def
      Let_def op_simps get_task_def)

lemma store_unchanged: "s\<lparr>ss_store := ss_store s\<rparr> = s"
  by simp

text \<open>Property C3: when the stored record no longer runs the attempt a worker was given, and the worker
  holds that record as it was then, finishing the attempt with a result, an error or a cancellation of the
  coroutine leaves the store as it is and announces at most the loss, with the record as it is now. Two
  cases are left out because there the lost attempt does settle: a body that raises
  \<open>JobCancelledError\<close> (\<open>lost_attempt_can_cancel\<close>), and a record that is the stored object itself
  (\<open>live_record_defeats_fence\<close>).\<close>

theorem lost_attempt_settles_nothing:
  assumes lost: "\<not> attempt_current (ss_store s) r" and view: "ac_view x = Snapshot"
    and outcome: "outcome \<notin> range BodyJobCancelled"
    and run: "settle env x outcome r s = (res, s')"
  shows "ss_store s' = ss_store s \<and>
    (s' = s \<or> (\<exists>stage q. res = Executed q \<and> q = given (lookup (ss_store s) (rid r)) r \<and>
       ss_events s' = ss_events s @ [lost_event x r stage q]))"
proof (cases outcome)
  case (BodyReturned v)
  with run view show ?thesis
    by (auto simp: settle_def complete_attempt_def op_simps settle_miss [OF lost] exec_of_def
        finish_claim_lost_result)
next
  case (BodyNonRetryable err)
  with run view show ?thesis
    by (auto simp: settle_def fail_without_retry_def op_simps settle_miss [OF lost] exec_of_def Let_def
        finish_claim_lost_result)
next
  case (BodyFailed err)
  with run view show ?thesis
    by (cases "retry_delay (sv_parse_float env) r")
      (auto simp: settle_def fail_with_retry_def op_simps settle_miss [OF lost] exec_of_def Let_def
        finish_claim_lost_result)
qed (use run outcome in \<open>auto simp: settle_def\<close>)

section \<open>Operations that keep a relation on the store\<close>

definition keeps :: "(mem_state \<Rightarrow> mem_state \<Rightarrow> bool) \<Rightarrow> 'a svc \<Rightarrow> bool" where
  "keeps R m \<longleftrightarrow> (\<forall>s. R (ss_store s) (ss_store (snd (m s))))"

named_theorems keep_intros \<open>operations that keep a reflexive and transitive relation\<close>

lemma keeps_basic [keep_intros]:
  assumes "reflp R"
  shows "keeps R (op_return x)" "keeps R (op_lift l)" "keeps R (op_raise e)" "keeps R (emit v)"
    "keeps R (svc_read f)"
  using assms by (auto simp: keeps_def op_simps reflp_def)

lemma keeps_bind:
  assumes "transp R" "keeps R m" "\<And>x. keeps R (f x)"
  shows "keeps R (op_bind m f)"
  unfolding keeps_def
proof
  fix s
  obtain a s1 where m: "m s = (a, s1)" by fastforce
  have first: "R (ss_store s) (ss_store s1)" using assms(2) m by (auto simp: keeps_def dest: spec [of _ s])
  show "R (ss_store s) (ss_store (snd (op_bind m f s)))"
  proof (cases a)
    case (Inl e)
    with m first show ?thesis by (simp add: op_bind_def)
  next
    case (Inr y)
    have "R (ss_store s1) (ss_store (snd (f y s1)))" using assms(3) by (auto simp: keeps_def)
    with first m Inr show ?thesis using transpD [OF assms(1)] by (simp add: op_bind_def)
  qed
qed

lemma keeps_store: "(\<And>m. R m (snd (f m))) \<Longrightarrow> keeps R (svc_store f)"
  by (simp add: keeps_def op_simps)

definition same_record :: "uuid \<Rightarrow> mem_state \<Rightarrow> mem_state \<Rightarrow> bool" where
  "same_record i m m' \<longleftrightarrow> (lookup m i \<noteq> None \<longrightarrow> lookup m' i = lookup m i)"

lemma same_record_rel: "reflp (same_record i)" "transp (same_record i)"
  by (auto simp: reflp_def transp_def same_record_def)

lemma enqueue_same_record: "i \<noteq> fresh \<Longrightarrow> same_record i m (snd (enqueue req None fresh t1 t2 t3 m))"
  by (auto simp: same_record_def enqueue_def Let_def notify_new_task_def insert_record_lookup new_record_def
      split: option.split)

lemmas same_record_keeps = keeps_basic [OF same_record_rel(1)] keeps_bind [OF same_record_rel(2)]

lemma reschedule_same_record:
  assumes "polled env" "i \<noteq> ac_fresh x"
  shows "keeps (same_record i) (reschedule_if_needed env x clk r)"
  unfolding reschedule_if_needed_def persist_scheduled_record_def publish_schedule_rejected_def
    polled_persisted [OF assms(1)]
  by (auto split: pyval.split option.split intro!: same_record_keeps keeps_store enqueue_same_record assms(2))

lemma keepsD: "keeps (same_record i) m \<Longrightarrow> lookup (ss_store s) i = Some q \<Longrightarrow> lookup (ss_store (snd (m s))) i = Some q"
  by (auto simp: keeps_def same_record_def dest: spec [of _ s])

section \<open>Exact settlement\<close>

lemma snd_bind_return [simp]:
  "snd (op_bind m (\<lambda>_. op_return c) s) = snd (m s)" "snd (op_bind m (\<lambda>_. Pair (Inr c)) s) = snd (m s)"
  by (auto simp: op_bind_def op_simps split: prod.splits sum.splits)

lemma snd_exec_of [simp]: "snd (exec_of res) = snd res"
  by (auto simp: exec_of_def split: prod.splits sum.splits)

text \<open>The update of the record of an attempt, followed by an operation that keeps the other records.\<close>

lemma update_then_keep:
  assumes "\<And>i. i \<noteq> fresh \<Longrightarrow> keeps (same_record i) op" and "lookup m fresh = None" "lookup m j = Some q"
    and "ss_store s = m\<lparr>mem_records := dict_set j q' (mem_records m)\<rparr>"
  shows "lookup (ss_store (snd (op s))) j = Some q' \<and>
    (\<forall>i. i \<noteq> j \<longrightarrow> same_record i m (ss_store (snd (op s))))"
proof -
  have "j \<noteq> fresh" using assms(2,3) by auto
  have l: "lookup (ss_store s) i = (if i = j then Some q' else lookup m i)" for i
    using assms(4) by (simp add: dict_simps)
  have "lookup (ss_store (snd (op s))) j = Some q'"
    using l by (intro keepsD [OF assms(1) [OF \<open>j \<noteq> fresh\<close>]]) simp
  moreover have "same_record i m (ss_store (snd (op s)))" if "i \<noteq> j" for i
    unfolding same_record_def
  proof
    assume "lookup m i \<noteq> None"
    then obtain y where y: "lookup m i = Some y" "i \<noteq> fresh" using assms(2) by (cases "i = fresh") auto
    with l that have "lookup (ss_store s) i = Some y" by simp
    from keepsD [OF assms(1) [OF y(2)] this] y show "lookup (ss_store (snd (op s))) i = lookup m i" by simp
  qed
  ultimately show ?thesis by blast
qed

lemma returned_settled:
  assumes q: "lookup (ss_store s) (rid r) = Some q" "status q = Running" "retry_count q = retry_count r"
    and env: "polled env" "lookup (ss_store s) (ac_fresh x) = None"
  shows "lookup (ss_store (snd (complete_attempt env x r v s))) (rid r) = Some (complete_record v (ac_clock x 0) q) \<and>
    (\<forall>i. i \<noteq> rid r \<longrightarrow> same_record i (ss_store s) (ss_store (snd (complete_attempt env x r v s))))"
  unfolding complete_attempt_def op_simps settle_hit [OF q] option.case fst_conv snd_conv lifecycle_def snd_bind_return
  by (rule update_then_keep [where op = "reschedule_if_needed env x (\<lambda>n. ac_clock x (n + 1)) c" for c, OF
        reschedule_same_record [OF env(1)] env(2) q(1)]) simp_all

lemma nonretryable_settled:
  assumes q: "lookup (ss_store s) (rid r) = Some q" "status q = Running" "retry_count q = retry_count r"
  shows "lookup (ss_store (snd (fail_without_retry env x r err s))) (rid r) =
      Some (fail_record (error_message env err r) False None None (ac_clock x 0) q) \<and>
    (\<forall>i. i \<noteq> rid r \<longrightarrow> same_record i (ss_store s) (ss_store (snd (fail_without_retry env x r err s))))"
  by (auto simp: fail_without_retry_def Let_def op_simps settle_hit [OF q] lifecycle_def same_record_def dict_simps)

lemma fail_record_status: "status q = Running \<Longrightarrow>
   status (fail_record err retry ra qa now q) \<in> {Failed, Pending, Scheduled}"
  by (simp add: fail_record_def Let_def split: option.split)

lemma failed_settled:
  assumes q: "lookup (ss_store s) (rid r) = Some q" "status q = Running" "retry_count q = retry_count r"
    and env: "polled env" "lookup (ss_store s) (ac_fresh x) = None"
    and d: "retry_delay (sv_parse_float env) r = Inr d"
  shows "lookup (ss_store (snd (fail_with_retry env x r err s))) (rid r) =
      Some (fail_record (error_message env err r) True
        (if d > 0 then Some (ac_clock x 0 + timedelta_seconds d) else None) (Some (ac_clock x 0)) (ac_clock x 1) q) \<and>
    (\<forall>i. i \<noteq> rid r \<longrightarrow> same_record i (ss_store s) (ss_store (snd (fail_with_retry env x r err s))))"
proof -
  define ra where "ra = (if d > 0 then Some (ac_clock x 0 + timedelta_seconds d) else None)"
  define u where "u = fail_record (error_message env err r) True ra (Some (ac_clock x 0)) (ac_clock x 1) q"
  let ?next = "if status u = Failed
    then op_bind (reschedule_if_needed env x (\<lambda>n. ac_clock x (n + 2)) u) (\<lambda>_. op_return u)
    else if is_waiting u then schedule_persisted env u else op_return u"
  have "keeps (same_record i) ?next" if "i \<noteq> ac_fresh x" for i
    by (auto simp: polled_persisted [OF env(1)]
        intro!: same_record_keeps reschedule_same_record [OF env(1) that])
  note K = update_then_keep [where op = ?next and fresh = "ac_fresh x", OF this env(2) q(1)]
  have fail: "fail_task (rid r) (error_message env err r) True (Some (retry_count r)) ra (Some (ac_clock x 0))
      (ac_clock x 1) (ss_store s) = (Some u, ss_store s\<lparr>mem_records := dict_set (rid r) u (mem_records (ss_store s))\<rparr>)"
    unfolding u_def by (rule settle_hit(2) [OF q])
  have run: "fail_with_retry env x r err s = ?next
      (s\<lparr>ss_store := ss_store s\<lparr>mem_records := dict_set (rid r) u (mem_records (ss_store s))\<rparr>,
         ss_events := ss_events s @ [task_event ''task.failed'' r (ac_worker x) (ac_attempt x)
           (Some (error_message env err r)) (retry_payload env d ra u)]\<rparr>)"
    unfolding fail_with_retry_def Let_def d op_simps ra_def [symmetric] fail option.case fst_conv snd_conv lifecycle_def
    by simp
  show ?thesis unfolding ra_def [symmetric] u_def [symmetric] run by (rule K) simp_all
qed

lemma cancelled_settled:
  assumes q: "lookup (ss_store s) (rid r) = Some q" "status q = Running"
  shows "lookup (ss_store (snd (handle_job_cancelled env x r msg s))) (rid r) =
      Some (cancel_record (ac_clock x 0) q) \<and>
    (\<forall>i. i \<noteq> rid r \<longrightarrow> same_record i (ss_store s) (ss_store (snd (handle_job_cancelled env x r msg s))))"
proof -
  have "cancel_task (rid r) True None now (ss_store s) =
      (True, ss_store s\<lparr>mem_records := dict_set (rid r) (cancel_record now q) (mem_records (ss_store s))\<rparr>)" for now
    using q by (simp add: cancel_task_def modify_if_hit [OF q(1)] cancellable_def)
  then show ?thesis
    using q by (simp add: handle_job_cancelled_def svc_cancel_task_def durable_cancel_def op_simps get_task_def
        dict_simps current_or_claimed_def same_record_def notify_worker_control_def)
qed

text \<open>Property C4: an attempt that still holds its lease is settled exactly as its outcome says, however
  the store changed under it: a result completes it; an error requeues it with one more retry after the
  delay of its backoff while the budget lasts, and fails it otherwise; a non-retryable error fails it at
  once; a cancellation by the task cancels it; a cancelled coroutine leaves it running. No other stored
  record changes.\<close>

theorem settlement_exact:
  assumes wf: "mem_wf (ss_store s)" and env: "polled env" "lookup (ss_store s) (ac_fresh x) = None"
    and current: "lookup (ss_store s) (rid r) = Some q" "status q = Running" "retry_count q = retry_count r"
    and run: "settle env x outcome r s = (res, s')"
  shows "(\<exists>q'. lookup (ss_store s') (rid r) = Some q' \<and>
    (case outcome of
       BodyReturned v \<Rightarrow> status q' = Completed \<and> task_result q' = v \<and> error q' = None \<and>
         completed_at q' = Some (ac_clock x 0) \<and> retry_count q' = retry_count q
     | BodyCancelled \<Rightarrow> q' = q
     | BodyJobCancelled msg \<Rightarrow> status q' = Cancelled \<and> completed_at q' = Some (ac_clock x 0)
     | BodyNonRetryable err \<Rightarrow> status q' = Failed \<and> completed_at q' = Some (ac_clock x 0) \<and>
         error q' = Some (error_message env err (seen (ac_view x) (ss_store s) r)) \<and> retry_count q' = retry_count q
     | BodyFailed err \<Rightarrow>
         (\<forall>d. retry_delay (sv_parse_float env) (seen (ac_view x) (ss_store s) r) = Inr d \<longrightarrow>
            error q' = Some (error_message env err (seen (ac_view x) (ss_store s) r)) \<and>
            (if attempts_consumed q < max_retries q
             then retry_count q' = retry_count q + 1 \<and> queued_at q' = ac_clock x 0 \<and>
               status q' = (if d > 0 \<and> timedelta_seconds d > 0 then Scheduled else Pending) \<and>
               scheduled_at q' = (if d > 0 then Some (ac_clock x 0 + timedelta_seconds d) else None)
             else status q' = Failed \<and> completed_at q' = Some (ac_clock x 1) \<and>
               retry_count q' = retry_count q)))) \<and>
    (\<forall>i. i \<noteq> rid r \<longrightarrow> same_record i (ss_store s) (ss_store s'))"
proof -
  let ?r = "seen (ac_view x) (ss_store s) r"
  have r: "rid ?r = rid r" "retry_count ?r = retry_count r"
    using current mem_wfD(2) [OF wf current(1)] by (cases "ac_view x"; simp)+
  note q = current [folded r]
  have s': "s' = snd (settle env x outcome r s)" using run by simp
  show ?thesis
  proof (cases outcome)
    case (BodyReturned v)
    with returned_settled [OF q env, of v] show ?thesis
      by (simp add: s' settle_def Let_def r(1)) (simp add: complete_record_def)
  next
    case BodyCancelled
    with current show ?thesis by (simp add: s' settle_def Let_def same_record_def)
  next
    case (BodyJobCancelled msg)
    with cancelled_settled [OF q(1,2), of env x msg] show ?thesis
      by (simp add: s' settle_def Let_def r(1)) (simp add: cancel_record_def)
  next
    case (BodyNonRetryable err)
    with nonretryable_settled [OF q, of env x err] show ?thesis
      by (simp add: s' settle_def Let_def r(1)) (simp add: fail_record_def)
  next
    case (BodyFailed err)
    show ?thesis
    proof (cases "retry_delay (sv_parse_float env) ?r")
      case (Inl e)
      then have "s' = s" using BodyFailed by (simp add: s' settle_def Let_def fail_with_retry_def op_simps)
      with BodyFailed Inl current show ?thesis by (simp add: same_record_def)
    next
      case (Inr d)
      with BodyFailed failed_settled [OF q env Inr, of err] show ?thesis
        by (simp add: s' settle_def Let_def r(1)) (auto simp: fail_record_def Let_def)
    qed
  qed
qed

section \<open>Recurring tasks\<close>

lemma notify_new_task_tables [simp]:
  "mem_records (notify_new_task now r m) = mem_records m" "mem_keys (notify_new_task now r m) = mem_keys m"
  by (simp_all add: notify_new_task_def)

lemma enqueue_new:
  assumes "existing_for_key (req_key req) m = None"
  shows "fst (enqueue req None fresh t1 t2 t3 m) = new_record req fresh (initial_status t2 req) t1"
    and "lookup (snd (enqueue req None fresh t1 t2 t3 m)) i =
      (if i = fresh then Some (new_record req fresh (initial_status t2 req) t1) else lookup m i)"
    and "dict_get (mem_keys (snd (enqueue req None fresh t1 t2 t3 m))) k =
      (if req_key req = Some k then Some fresh else dict_get (mem_keys m) k)"
  using assms
  by (simp_all add: enqueue_def Let_def insert_record_lookup insert_record_keys new_record_def)

text \<open>The successor of a finished occurrence, as \<open>reschedule_if_needed\<close> builds it.\<close>

definition is_successor ::
    "task_object \<Rightarrow> schedule_config \<Rightarrow> instant \<Rightarrow> task_record \<Rightarrow> task_record \<Rightarrow> bool" where
  "is_successor t c u q n \<longleftrightarrow>
     is_waiting n \<and> scheduled_at n = Some u \<and> retry_count n = 0 \<and> max_retries n = to_retries t \<and>
     task_name n = task_name q \<and> queue n = queue q \<and> priority n = priority q \<and> key n = key q \<and>
     get_or_none (metadata n) ''schedule'' = PDict (schedule_as_metadata c) \<and>
     (\<forall>e. expires_at n = Some e \<longrightarrow> u \<le> e)"

lemma reschedule_creates:
  assumes plan: "get_or_none (metadata q) ''schedule'' = PDict (schedule_as_metadata c)"
      "schedule_post_init (sv_zones env) name cron interval tz delay jitter = Inr c"
    and finished: "completed_at q = Some f" "get_next_run (sv_zones env) c f False (ac_draw x) = Inr u"
    and task: "resolve_task env (task_name q) = Inr t" "\<forall>d. to_expires_in t = Some d \<longrightarrow> 0 \<le> d"
    and env: "polled env" and free: "existing_for_key (key q) (ss_store s) = None"
  shows "\<exists>req t1 t2 t3. ss_store (snd (reschedule_if_needed env x clk q s)) =
      snd (enqueue req None (ac_fresh x) t1 t2 t3 (ss_store s)) \<and> req_key req = key q \<and>
    is_successor t c u q (new_record req (ac_fresh x) (initial_status t2 req) t1)"
proof -
  obtain e where e: "resolve_expires_at t NoInterval None (Some u) now = Inr e" "\<forall>v. e = Some v \<longrightarrow> u \<le> v" for now
    using task(2) by (cases "to_expires_in t") (auto simp: resolve_expires_at_def)
  let ?req = "successor_request t c u e q"
  have req: "req_key ?req = key q" by (simp add: successor_request_def)
  have "ss_store (snd (reschedule_if_needed env x clk q s)) =
      snd (enqueue ?req None (ac_fresh x) (clk 1) (clk 2) (clk 3) (ss_store s))"
    by (simp add: reschedule_if_needed_def plan(1) finished schedule_round_trip [OF plan(2)] task(1) op_simps
        polled_horizon [OF env] e(1) persist_scheduled_record_def polled_persisted [OF env] numeral_eq_Suc)
  moreover have "is_successor t c u q (new_record ?req (ac_fresh x) (initial_status t2 ?req) t1)" for t1 t2
    using initial_status_waiting [of t2 ?req] e(2)
    by (auto simp: is_successor_def new_record_def successor_request_def default_request_def is_waiting_def
        get_or_none_def dict_simps)
  ultimately show ?thesis using req by blast
qed

lemma settled_key_free:
  assumes wf: "mem_wf m" and q: "lookup m i = Some q" "\<not> is_terminal q" "key q = Some k"
    and done': "is_terminal q'" 
  shows "existing_for_key (Some k) (m\<lparr>mem_records := dict_set i q' (mem_records m)\<rparr>) = None"
  using keys_consistentD(2) [OF mem_wfD(4) [OF wf] q] done' by (simp add: existing_for_key_def dict_simps)

lemma successor_found:
  assumes wf: "mem_wf m" and new: "lookup m fresh = None" and free: "existing_for_key (req_key req) m = None"
    and key: "req_key req = Some k"
  shows "get_task_by_key k (snd (enqueue req None fresh t1 t2 t3 m)) =
      Some (new_record req fresh (initial_status t2 req) t1) \<and>
    (\<forall>i w. lookup (snd (enqueue req None fresh t1 t2 t3 m)) i = Some w \<and> \<not> is_terminal w \<and> key w = Some k \<longrightarrow>
      i = fresh)"
proof -
  have "mem_wf (snd (enqueue req None fresh t1 t2 t3 m))"
    by (rule enqueue_wf [OF wf]) (simp add: new_id_def new)
  note own = keys_consistentD(2) [OF mem_wfD(4) [OF this]]
  have fresh: "dict_get (mem_keys (snd (enqueue req None fresh t1 t2 t3 m))) k = Some fresh"
    by (simp add: enqueue_new [OF free] key)
  have "i = fresh" if "lookup (snd (enqueue req None fresh t1 t2 t3 m)) i = Some w" "\<not> is_terminal w" "key w = Some k"
    for i w
    using own [OF that] fresh by simp
  moreover have "get_task_by_key k (snd (enqueue req None fresh t1 t2 t3 m)) =
      Some (new_record req fresh (initial_status t2 req) t1)"
    using fresh by (simp add: get_task_by_key_def enqueue_new [OF free])
  ultimately show ?thesis by blast
qed

text \<open>The outcomes that end an occurrence of a recurring task, with the moment it finishes.\<close>

definition ends_occurrence ::
    "service_env \<Rightarrow> attempt_context \<Rightarrow> body_outcome \<Rightarrow> task_record \<Rightarrow> task_record \<Rightarrow> instant \<Rightarrow> bool" where
  "ends_occurrence env x outcome r q f \<longleftrightarrow>
     (case outcome of
        BodyReturned v \<Rightarrow> f = ac_clock x 0
      | BodyFailed err \<Rightarrow> f = ac_clock x 1 \<and> max_retries q \<le> attempts_consumed q \<and>
          isl (retry_delay (sv_parse_float env) r) = False
      | _ \<Rightarrow> False)"

text \<open>Such an outcome stores a terminal record and goes on to reschedule it.\<close>

lemma ended_reschedules:
  assumes q: "lookup (ss_store s) (rid r) = Some q" "status q = Running" "retry_count q = retry_count r"
    and ends: "ends_occurrence env x outcome r q f" and view: "seen (ac_view x) (ss_store s) r = r"
  shows "\<exists>q' s2 clk z. is_terminal q' \<and> completed_at q' = Some f \<and> metadata q' = metadata q \<and> key q' = key q \<and>
    task_name q' = task_name q \<and> queue q' = queue q \<and> priority q' = priority q \<and>
    ss_store s2 = ss_store s\<lparr>mem_records := dict_set (rid r) q' (mem_records (ss_store s))\<rparr> \<and>
    ss_store s2 = mem_step z (ss_store s) \<and> op_ok z (ss_store s) \<and>
    snd (settle env x outcome r s) = snd (reschedule_if_needed env x clk q' s2)"
  using ends
proof (cases outcome)
  case (BodyReturned v)
  let ?q = "complete_record v (ac_clock x 0) q"
  let ?s = "s\<lparr>ss_store := ss_store s\<lparr>mem_records := dict_set (rid r) ?q (mem_records (ss_store s))\<rparr>,
    ss_events := ss_events s @ [task_event ''task.completed'' r (ac_worker x) (ac_attempt x) None (status_payload ?q)]\<rparr>"
  have "snd (settle env x outcome r s) = snd (reschedule_if_needed env x (\<lambda>n. ac_clock x (n + 1)) ?q ?s)"
    by (simp add: BodyReturned settle_def view complete_attempt_def op_simps settle_hit [OF q] lifecycle_def)
  moreover have "ss_store ?s = mem_step (OpComplete (rid r) v (Some (retry_count r)) (ac_clock x 0)) (ss_store s)"
    by (simp add: settle_hit [OF q])
  moreover have "op_ok (OpComplete (rid r) v (Some (retry_count r)) (ac_clock x 0)) (ss_store s)"
    by (simp add: op_ok_def op_disciplined_def op_new_ids_def)
  moreover have "is_terminal ?q \<and> completed_at ?q = Some f \<and> metadata ?q = metadata q \<and> key ?q = key q \<and>
      task_name ?q = task_name q \<and> queue ?q = queue q \<and> priority ?q = priority q"
    using ends by (simp add: BodyReturned ends_occurrence_def complete_record_def is_terminal_simp)
  ultimately show ?thesis 
    by (intro exI [of _ ?q] exI [of _ ?s] exI [of _ "\<lambda>n. ac_clock x (n + 1)"]
        exI [of _ "OpComplete (rid r) v (Some (retry_count r)) (ac_clock x 0)"])
      (simp only: svc_state.simps simp_thms, simp add: settle_hit [OF q])
next
  case (BodyFailed err)
  obtain d where d: "retry_delay (sv_parse_float env) r = Inr d"
    using ends by (cases "retry_delay (sv_parse_float env) r") (auto simp: BodyFailed ends_occurrence_def)
  define ra where "ra = (if d > 0 then Some (ac_clock x 0 + timedelta_seconds d) else None)"
  define u where "u = fail_record (error_message env err r) True ra (Some (ac_clock x 0)) (ac_clock x 1) q"
  let ?fail = "OpFail (rid r) (error_message env err r) True (Some (retry_count r)) ra (Some (ac_clock x 0)) (ac_clock x 1)"
  let ?s = "s\<lparr>ss_store := ss_store s\<lparr>mem_records := dict_set (rid r) u (mem_records (ss_store s))\<rparr>,
    ss_events := ss_events s @ [task_event ''task.failed'' r (ac_worker x) (ac_attempt x)
      (Some (error_message env err r)) (retry_payload env d ra u)]\<rparr>"
  have u: "status u = Failed" "completed_at u = Some f" "metadata u = metadata q" "key u = key q"
      "task_name u = task_name q" "queue u = queue q" "priority u = priority q"
    using ends by (simp_all add: BodyFailed ends_occurrence_def u_def fail_record_def)
  have fail: "fail_task (rid r) (error_message env err r) True (Some (retry_count r)) ra (Some (ac_clock x 0))
      (ac_clock x 1) (ss_store s) = (Some u, ss_store s\<lparr>mem_records := dict_set (rid r) u (mem_records (ss_store s))\<rparr>)"
    unfolding u_def by (rule settle_hit(2) [OF q])
  have "snd (settle env x outcome r s) = snd (reschedule_if_needed env x (\<lambda>n. ac_clock x (n + 2)) u ?s)"
    unfolding BodyFailed settle_def view Let_def body_outcome.case snd_exec_of fail_with_retry_def d op_simps
      ra_def [symmetric] fail option.case fst_conv snd_conv lifecycle_def
    by (simp add: u(1))
  moreover have "ss_store ?s = mem_step ?fail (ss_store s)" by (simp only: mem_step.simps fail) simp
  moreover have "op_ok ?fail (ss_store s)" by (simp add: op_ok_def op_disciplined_def op_new_ids_def)
  ultimately show ?thesis
    using u by (intro exI [of _ u] exI [of _ ?s] exI [of _ "\<lambda>n. ac_clock x (n + 2)"] exI [of _ ?fail])
      (simp only: svc_state.simps is_terminal_simp, simp)
qed (auto simp: ends_occurrence_def)

text \<open>Property C19: recurrence never stalls or doubles: when an attempt that holds its lease ends an
  occurrence of a recurring task (a result, or the last failure its budget allows), the store has
  exactly one active record under the schedule's key, the successor: due at the schedule's next run
  after the finish, never expiring before it, with a fresh retry count and the registered budget.\<close>

theorem recurring_task_continues:
  assumes wf: "mem_wf (ss_store s)" and env: "polled env" "lookup (ss_store s) (ac_fresh x) = None"
    and current: "lookup (ss_store s) (rid r) = Some q" "status q = Running" "retry_count q = retry_count r"
    and plan: "get_or_none (metadata q) ''schedule'' = PDict (schedule_as_metadata c)" "key q = Some k"
      "schedule_post_init (sv_zones env) name cron interval tz delay jitter = Inr c"
    and task: "resolve_task env (task_name q) = Inr t" "\<forall>d. to_expires_in t = Some d \<longrightarrow> 0 \<le> d"
    and ends: "ends_occurrence env x outcome (seen (ac_view x) (ss_store s) r) q f"
    and next_run: "get_next_run (sv_zones env) c f False (ac_draw x) = Inr u"
    and run: "settle env x outcome r s = (res, s')"
  shows "\<exists>n. get_task_by_key k (ss_store s') = Some n \<and> is_successor t c u q n \<and>
    (\<forall>i w. lookup (ss_store s') i = Some w \<and> \<not> is_terminal w \<and> key w = Some k \<longrightarrow> i = ac_fresh x \<and> w = n)"
proof -
  let ?r = "seen (ac_view x) (ss_store s) r"
  have r: "rid ?r = rid r" "retry_count ?r = retry_count r"
    using current mem_wfD(2) [OF wf current(1)] by (cases "ac_view x"; simp)+
  have again: "seen (ac_view x) (ss_store s) ?r = ?r"
    using current(1) mem_wfD(2) [OF wf current(1)] by (cases "ac_view x") simp_all
  have s': "s' = snd (settle env x outcome ?r s)"
    using run again by (simp add: settle_def)
  obtain q' s2 clk z where q': "is_terminal q'" "completed_at q' = Some f" "metadata q' = metadata q" "key q' = Some k"
      "task_name q' = task_name q" "queue q' = queue q" "priority q' = priority q"
    and s2: "ss_store s2 = ss_store s\<lparr>mem_records := dict_set (rid r) q' (mem_records (ss_store s))\<rparr>"
      "ss_store s2 = mem_step z (ss_store s)" "op_ok z (ss_store s)"
    and s'2: "s' = snd (reschedule_if_needed env x clk q' s2)"
    using ended_reschedules [OF current [folded r] ends again] plan(2) unfolding s' r(1) by auto
  have wf2: "mem_wf (ss_store s2)" unfolding s2(2) by (rule mem_step_wf [OF wf s2(3)])
  have free: "existing_for_key (key q') (ss_store s2) = None"
    unfolding q'(4) s2(1) using current(2) by (intro settled_key_free [OF wf current(1) _ plan(2) q'(1)]) (simp add: is_terminal_simp)
  have new: "lookup (ss_store s2) (ac_fresh x) = None"
    using env(2) current(1) by (auto simp: s2(1) dict_simps)
  obtain req t1 t2 t3 where E: "ss_store s' = snd (enqueue req None (ac_fresh x) t1 t2 t3 (ss_store s2))"
      "req_key req = Some k" "is_successor t c u q' (new_record req (ac_fresh x) (initial_status t2 req) t1)"
    using reschedule_creates [where q = q' and s = s2 and x = x and clk = clk, OF _ plan(3) q'(2) next_run _ task(2) env(1) free]
      plan(1) task(1) q' unfolding s'2 by auto
  let ?n = "new_record req (ac_fresh x) (initial_status t2 req) t1"
  note free' = free [unfolded q'(4), folded E(2)]
  note F = successor_found [OF wf2 new free' E(2), of t1 t2 t3, folded E(1)]
  have "lookup (ss_store s') (ac_fresh x) = Some ?n" unfolding E(1) enqueue_new(2) [OF free'] by simp
  moreover have "is_successor t c u q ?n"
    using E(3) unfolding is_successor_def q' plan(2) .
  ultimately show ?thesis using F by (intro exI [of _ ?n]) auto
qed

section \<open>Interruptions\<close>

text \<open>One attempt that a shutdown interrupts: claimed, owned by a worker, and handed back.\<close>

definition shutdown_cycle :: "int \<Rightarrow> uuid \<Rightarrow> string \<Rightarrow> instant \<Rightarrow> svc_state \<Rightarrow> svc_state" where
  "shutdown_cycle k i w now s =
     (case claim_task i None None now now (ss_store s) of
        (None, m) \<Rightarrow> s\<lparr>ss_store := m\<rparr>
      | (Some r, m) \<Rightarrow>
          (case assign_worker i w (retry_count r) m of
             (None, m') \<Rightarrow> s\<lparr>ss_store := m'\<rparr>
           | (Some r', m') \<Rightarrow>
               snd (svc_interrupt_task r' w ''shutdown'' (Some k) now (s\<lparr>ss_store := m'\<rparr>))))"

definition interrupted_attempt :: "int \<Rightarrow> string \<Rightarrow> instant \<Rightarrow> task_record \<Rightarrow> task_record" where
  "interrupted_attempt k w now r =
     (let q = (start_record now r)\<lparr>worker_id := Some w\<rparr> in
      if interruption_count r \<ge> k then fail_record INTERRUPTION_LIMIT_ERROR True None None now q
      else interrupt_record now q)"

definition ready :: "uuid \<Rightarrow> task_record \<Rightarrow> bool" where
  "ready i r \<longleftrightarrow> rid r = i \<and> is_waiting r \<and> scheduled_at r = None \<and> expires_at r = None \<and> execution_ref r = None"

lemma interruption_count_started [simp]:
  "interruption_count ((start_record now r)\<lparr>worker_id := w\<rparr>) = interruption_count r"
  by (simp add: interruption_count_def start_record_def)

lemma cycle_step:
  assumes "lookup (ss_store s) i = Some r" "ready i r"
  shows "lookup (ss_store (shutdown_cycle k i w now s)) i = Some (interrupted_attempt k w now r)"
proof -
  let ?p = "start_record now r" let ?q = "?p\<lparr>worker_id := Some w\<rparr>"
  have claim: "claim_task i None None now now (ss_store s) =
      (Some ?p, ss_store s\<lparr>mem_records := dict_set i ?p (mem_records (ss_store s))\<rparr>)"
    using assms by (simp add: claim_task_def claim_task_with_expired_def claimable_def ready_def is_due_def is_expired_def)
  have own: "assign_worker i w (retry_count ?p) (ss_store s\<lparr>mem_records := dict_set i ?p (mem_records (ss_store s))\<rparr>) =
      (Some ?q, ss_store s\<lparr>mem_records := dict_set i ?q (dict_set i ?p (mem_records (ss_store s)))\<rparr>)"
    unfolding assign_worker_def
    by (subst modify_if_hit [where q = ?p]) (simp_all add: dict_simps)
  let ?s = "s\<lparr>ss_store := ss_store s\<lparr>mem_records := dict_set i ?q (dict_set i ?p (mem_records (ss_store s)))\<rparr>\<rparr>"
  have q: "lookup (ss_store ?s) i = Some ?q" "status ?q = Running" "retry_count ?q = retry_count r" "rid ?q = i"
      "worker_id ?q = Some w"
    using assms(2) by (simp_all add: dict_simps ready_def start_record_def)
  have "lookup (ss_store (snd (svc_interrupt_task ?q w ''shutdown'' (Some k) now ?s))) i =
      Some (interrupted_attempt k w now r)"
  proof (cases "interruption_count r \<ge> k")
    case True
    then show ?thesis
      by (simp only: svc_interrupt_task_def interruption_count_started option.case if_True fail_interrupted_task_def
          op_simps q(3,4) settle_hit(2) [OF q(1-3)] fst_conv snd_conv)
        (simp add: dict_simps interrupted_attempt_def)
  next
    case False
    have "interrupt_task i (retry_count r) w now (ss_store ?s) =
        (Some (interrupt_record now ?q),
         ss_store ?s\<lparr>mem_records := dict_set i (interrupt_record now ?q) (mem_records (ss_store ?s))\<rparr>)"
      unfolding interrupt_task_def using q by (intro modify_if_hit [OF q(1)]) simp
    with False show ?thesis
      by (simp only: svc_interrupt_task_def interruption_count_started option.case if_False
          op_simps q(3,4) fst_conv snd_conv)
        (simp add: dict_simps interrupted_attempt_def)
  qed
  then show ?thesis by (simp only: shutdown_cycle_def claim own prod.case option.case)
qed

lemma interrupted_attempt_result:
  assumes "ready i r" "retry_count r = int n" "interruption_count r = int (min n k)" "max_retries r = int m"
  shows "n < k + m \<Longrightarrow> ready i (interrupted_attempt (int k) w now r) \<and>
      retry_count (interrupted_attempt (int k) w now r) = int (Suc n) \<and>
      interruption_count (interrupted_attempt (int k) w now r) = int (min (Suc n) k) \<and>
      max_retries (interrupted_attempt (int k) w now r) = int m"
    and "n = k + m \<Longrightarrow> status (interrupted_attempt (int k) w now r) = Failed \<and>
      error (interrupted_attempt (int k) w now r) = Some INTERRUPTION_LIMIT_ERROR"
proof -
  let ?q = "(start_record now r)\<lparr>worker_id := Some w\<rparr>"
  have c: "attempts_consumed ?q = int n - int (min n k)" "max_retries ?q = int m" "retry_count ?q = int n"
    using assms by (simp_all add: attempts_consumed_def) (simp_all add: start_record_def)
  have bump: "interruption_count (interrupt_record now ?q) = interruption_count r + 1"
    unfolding interruption_count_interrupt interruption_count_started ..
  show "n < k + m \<Longrightarrow> ready i (interrupted_attempt (int k) w now r) \<and>
      retry_count (interrupted_attempt (int k) w now r) = int (Suc n) \<and>
      interruption_count (interrupted_attempt (int k) w now r) = int (min (Suc n) k) \<and>
      max_retries (interrupted_attempt (int k) w now r) = int m"
  proof (cases "n < k")
    case True
    moreover from this have "interruption_count (interrupt_record now ?q) = int (Suc n)" using bump assms(3) by simp
    ultimately show ?thesis using assms
      by (simp add: interrupted_attempt_def Let_def) (simp add: ready_def is_waiting_def interrupt_record_def start_record_def)
  next
    case False
    moreover assume "n < k + m"
    ultimately have "attempts_consumed ?q < max_retries ?q" using c by simp
    moreover have "interruption_count (fail_record e True None None now ?q) = interruption_count r" for e
      by (simp add: interruption_count_def fail_record_def start_record_def Let_def)
    ultimately show ?thesis using assms False
      by (simp add: interrupted_attempt_def Let_def)
        (simp add: ready_def is_waiting_def fail_record_def start_record_def Let_def)
  qed
  assume "n = k + m"
  then have "\<not> attempts_consumed ?q < max_retries ?q" using c by simp
  with \<open>n = k + m\<close> assms(3) show "status (interrupted_attempt (int k) w now r) = Failed \<and>
      error (interrupted_attempt (int k) w now r) = Some INTERRUPTION_LIMIT_ERROR"
    by (simp add: interrupted_attempt_def Let_def fail_record_def)
qed

text \<open>A run of interrupted attempts, each with its worker and its instant.\<close>

definition shutdown_cycles :: "int \<Rightarrow> uuid \<Rightarrow> (string \<times> instant) list \<Rightarrow> svc_state \<Rightarrow> svc_state" where
  "shutdown_cycles k i xs s = fold (\<lambda>(w, now). shutdown_cycle k i w now) xs s"

lemma finished_cycle:
  assumes "lookup (ss_store s) i = Some r" "status r = Failed"
  shows "lookup (ss_store (shutdown_cycle k i w now s)) i = Some r"
  using assms
  by (simp add: shutdown_cycle_def claim_task_def claim_task_with_expired_def claimable_def is_waiting_def)

lemma finished_cycles:
  assumes "lookup (ss_store s) i = Some r" "status r = Failed"
  shows "lookup (ss_store (shutdown_cycles k i xs s)) i = Some r"
  using assms by (induction xs arbitrary: s) (auto simp: shutdown_cycles_def finished_cycle)

lemma interrupted_cycles:
  assumes "lookup (ss_store s) i = Some r" "ready i r" "retry_count r = 0" "interruption_count r = 0" "max_retries r = int m"
  shows "length xs \<le> k + m \<Longrightarrow> \<exists>q. lookup (ss_store (shutdown_cycles (int k) i xs s)) i = Some q \<and> ready i q \<and>
      retry_count q = int (length xs) \<and> interruption_count q = int (min (length xs) k) \<and> max_retries q = int m"
proof (induction xs rule: rev_induct)
  case Nil
  with assms show ?case by (simp add: shutdown_cycles_def)
next
  case (snoc x xs)
  then obtain q where q: "lookup (ss_store (shutdown_cycles (int k) i xs s)) i = Some q" "ready i q"
      "retry_count q = int (length xs)" "interruption_count q = int (min (length xs) k)" "max_retries q = int m" by auto
  from interrupted_attempt_result(1) [OF q(2-5)] cycle_step [OF q(1,2)] snoc.prems show ?case
    by (cases x) (auto simp: shutdown_cycles_def)
qed

text \<open>Property C20: shutdowns cannot recycle a task forever. With \<open>k\<close> interruptions allowed and a budget of
  \<open>m\<close> retries, a task whose every attempt is interrupted, by whatever workers and whenever, is requeued by the
  first \<open>k + m\<close> interruptions, fails for good at attempt \<open>k + m + 1\<close> with the error of an interruption, and
  stays failed.\<close>

theorem interrupted_task_ends:
  assumes "lookup (ss_store s) i = Some r" "ready i r" "retry_count r = 0" "interruption_count r = 0"
    and "max_retries r = int m"
  shows "\<exists>q. lookup (ss_store (shutdown_cycles (int k) i xs s)) i = Some q \<and>
    (if length xs \<le> k + m then is_waiting q \<and> retry_count q = int (length xs)
     else status q = Failed \<and> error q = Some INTERRUPTION_LIMIT_ERROR)"
proof (cases "length xs \<le> k + m")
  case True
  with interrupted_cycles [OF assms True] show ?thesis by (auto simp: ready_def)
next
  case False
  define ys where "ys = take (k + m) xs"
  obtain w now zs where rest: "drop (k + m) xs = (w, now) # zs"
    using False by (cases "drop (k + m) xs") auto
  have xs: "xs = ys @ (w, now) # zs" and len: "length ys = k + m"
    using append_take_drop_id [of "k + m" xs] False by (simp_all add: ys_def rest)
  obtain q where q: "lookup (ss_store (shutdown_cycles (int k) i ys s)) i = Some q" "ready i q"
      "retry_count q = int (k + m)" "interruption_count q = int (min (k + m) k)" "max_retries q = int m"
    using interrupted_cycles [OF assms, of ys k] len by auto
  note failed = interrupted_attempt_result(2) [OF q(2-5) refl, of w now]
  have "lookup (ss_store (shutdown_cycles (int k) i xs s)) i = Some (interrupted_attempt (int k) w now q)"
    using finished_cycles [OF cycle_step [OF q(1,2)] conjunct1 [OF failed], of "int k" zs]
    by (simp add: xs shutdown_cycles_def)
  with failed False show ?thesis by simp
qed

section \<open>Where the code falls short\<close>

text \<open>The cancellation of \<open>_handle_job_cancelled\<close> is not fenced: a superseded attempt whose body raises
  \<open>JobCancelledError\<close> cancels the attempt that replaced it.\<close>

theorem lost_attempt_can_cancel:
  assumes "lookup (ss_store s) (rid r) = Some q" "status q = Running" "retry_count q \<noteq> retry_count r"
    and "ac_view x = Snapshot"
  shows "\<exists>q'. lookup (ss_store (snd (settle env x (BodyJobCancelled msg) r s))) (rid r) = Some q' \<and>
    status q' = Cancelled \<and> retry_count q' = retry_count q"
  using cancelled_settled [OF assms(1,2), of env x msg] assms(4)
  by (simp add: settle_def) (simp add: cancel_record_def)

text \<open>With the stored object itself in hand (the in-memory backend) the fence compares the record with
  itself: a superseded attempt completes the attempt that replaced it.\<close>

theorem live_record_defeats_fence:
  assumes "mem_wf (ss_store s)" "lookup (ss_store s) (rid r) = Some q" "status q = Running"
    and "retry_count q \<noteq> retry_count r" "ac_view x = LiveObject" "polled env"
    and "lookup (ss_store s) (ac_fresh x) = None"
  shows "lookup (ss_store (snd (settle env x (BodyReturned v) r s))) (rid r) = Some (complete_record v (ac_clock x 0) q)"
  using returned_settled [of s q q env x v] assms mem_wfD(2) [OF assms(1,2)] by (simp add: settle_def)

text \<open>The successor of an interrupted occurrence starts with the interruptions of its predecessor, so it
  has that many retries more than its budget, and its own shutdown requeues are already used up.\<close>

theorem successor_inherits_interruptions:
  "interruption_count (new_record (successor_request t c u e q) i st now) = interruption_count q \<and>
   attempts_consumed (new_record (successor_request t c u e q) i st now) = - interruption_count q"
  by (simp add: attempts_consumed_def interruption_count_def get_or_none_def new_record_def successor_request_def
      dict_simps)

text \<open>The delay of a failed attempt grows with every requeue, interruptions included; the backends'
  \<open>retry_schedule\<close> counts the attempts consumed (\<open>backoff_metadata_agrees\<close>).\<close>

theorem failure_delay_counts_interruptions:
  assumes "get_or_none (metadata r) ''retry_backoff'' = PDict (backoff_as_metadata b)" "retry_count r = int n"
  shows "retry_delay parse r = Inr (delay_for b n)"
  using assms
  by (cases "rb_max_delay b")
    (simp_all add: retry_delay_def backoff_as_metadata_def get_or_none_def get_or_def py_pow_def delay_for_def Let_def)

section \<open>Witnesses\<close>

definition ex_signature :: py_signature where
  "ex_signature = \<lparr>sig_bind = (\<lambda>a d. Inr d), sig_var_keywords = []\<rparr>"

definition ex_task :: task_object where
  "ex_task = \<lparr>to_signature = ex_signature, to_name = ''report'', to_queue = ''default'', to_priority = 0,
     to_retries = 2, to_retry_backoff = None, to_timeout = PNone, to_execution_backend = None,
     to_execution_profile = None, to_key = None, to_unique_by = None, to_unique_until = ''terminal'',
     to_run_after = None, to_expires_in = Some 60000000, to_description = None, to_log_level = None,
     to_log_success = None, to_requeue_on_stale = None, to_requeue_on_shutdown = None\<rparr>"

definition ex_env :: service_env where
  "ex_env = \<lparr>sv_execution_backend = ''local'', sv_log_success = True, sv_initialize_schedules = True,
     sv_max_identity_bytes = None, sv_cloud_tasks = None, sv_backend_names = [''local''],
     sv_backends = (\<lambda>n. if n = ''local'' then Some (base_execution_backend (\<lambda>r. op_raise NotImplementedError)) else None),
     sv_registry = \<lparr>reg_tasks = [(''report'', ex_task)], reg_schedules = [(''report'', ex_every)]\<rparr>,
     sv_error_sanitizer = None, sv_zones = ex_zones, sv_parse_float = (\<lambda>_. None), sv_show = (\<lambda>_. []),
     sv_isoformat = (\<lambda>_. [])\<rparr>"

definition ex_context :: attempt_context where
  "ex_context = \<lparr>ac_view = Snapshot, ac_worker = Some ''w'', ac_attempt = 1, ac_clock = (\<lambda>n. 200 + int n),
     ac_fresh = 9, ac_draw = 0\<rparr>"

definition ex_svc :: "mem_state \<Rightarrow> svc_state" where
  "ex_svc m = \<lparr>ss_store = m, ss_events = []\<rparr>"

lemma ex_polled: "polled ex_env"
  by (simp add: polled_def ex_env_def base_execution_backend_def)

lemma ex_started_fields:
  "rid ex_started = 7" "retry_count ex_started = 0" "status ex_started = Running"
  "rid ex_restarted = 7" "retry_count ex_restarted = 1" "status ex_restarted = Running"
  by (simp_all add: ex_defs is_waiting_def attempts_consumed_def interruption_count_def get_or_none_def)

lemma lost_attempt_settles_nothing_witness:
  "ss_store (snd (settle ex_env ex_context (BodyReturned (PInt 1)) ex_started (ex_svc (ex_state ex_restarted)))) =
     ex_state ex_restarted"
  using lost_attempt_settles_nothing [of "ex_svc (ex_state ex_restarted)" ex_started ex_context "BodyReturned (PInt 1)"
      ex_env _ "snd (settle ex_env ex_context (BodyReturned (PInt 1)) ex_started (ex_svc (ex_state ex_restarted)))",
      OF _ _ _ surjective_pairing]
  by (auto simp: attempt_current_def ex_svc_def ex_started_fields ex_context_def)

lemma settlement_exact_witness:
  "\<exists>q. lookup (ss_store (snd (settle ex_env ex_context (BodyReturned (PInt 1)) ex_started (ex_svc (ex_state ex_started))))) 7 =
     Some q \<and> status q = Completed \<and> task_result q = PInt 1"
proof -
  have "mem_wf (ex_state ex_started)" using ex_reachable by (auto intro: mem_reachable_wf)
  from settlement_exact [of "ex_svc (ex_state ex_started)" ex_env ex_context ex_started ex_started "BodyReturned (PInt 1)",
      OF _ ex_polled _ _ _ refl surjective_pairing] this
  show ?thesis by (auto simp: ex_svc_def ex_started_fields ex_context_def)
qed

definition ex_occurrence :: task_record where
  "ex_occurrence = (new_record ((default_request ''report'')\<lparr>req_key := Some ''scheduled:report'',
       req_metadata := Some [(''schedule'', PDict (schedule_as_metadata ex_every))]\<rparr>) 7 Pending 100)
     \<lparr>status := Running, started_at := Some 150, heartbeat_at := Some 150\<rparr>"

definition ex_recurring :: mem_state where
  "ex_recurring = mem_init\<lparr>mem_records := [(7, ex_occurrence)], mem_keys := [(''scheduled:report'', 7)]\<rparr>"

lemma ex_occurrence_fields:
  "rid ex_occurrence = 7" "status ex_occurrence = Running" "retry_count ex_occurrence = 0"
  "key ex_occurrence = Some ''scheduled:report''" "task_name ex_occurrence = ''report''"
  "metadata ex_occurrence = [(''schedule'', PDict (schedule_as_metadata ex_every))]"
  by (simp_all add: ex_occurrence_def new_record_def default_request_def)

lemma ex_recurring_wf: "mem_wf ex_recurring"
proof -
  have "record_ok ex_occurrence"
    by (simp add: record_ok_def is_terminal_simp attempts_consumed_def interruption_count_def ex_occurrence_fields)
      (simp add: ex_occurrence_def get_or_none_def new_record_def default_request_def)
  then show ?thesis
    by (simp add: mem_wf_def ex_recurring_def keys_consistent_def ex_occurrence_fields)
qed

lemma recurring_task_continues_witness:
  "\<exists>n. get_task_by_key ''scheduled:report'' (ss_store (snd (settle ex_env ex_context (BodyReturned PNone) ex_occurrence
      (ex_svc ex_recurring)))) = Some n \<and> scheduled_at n = Some 90500200 \<and> max_retries n = 2"
proof -
  let ?s = "ex_svc ex_recurring"
  have wf: "mem_wf (ss_store ?s)" and cur: "lookup (ss_store ?s) (rid ex_occurrence) = Some ex_occurrence"
    and new: "lookup (ss_store ?s) (ac_fresh ex_context) = None"
    using ex_recurring_wf by (simp_all add: ex_svc_def ex_recurring_def ex_occurrence_fields ex_context_def)
  have plan: "get_or_none (metadata ex_occurrence) ''schedule'' = PDict (schedule_as_metadata ex_every)"
    by (simp add: ex_occurrence_fields get_or_none_def)
  have sched: "schedule_post_init (sv_zones ex_env) ''report'' None (IntervalSeconds (181 / 2)) ''UTC''
      (IntervalDelta 1000001) NoInterval = Inr ex_every"
    using ex_every_valid by (simp add: ex_env_def)
  have task: "resolve_task ex_env (task_name ex_occurrence) = Inr ex_task"
    by (simp add: resolve_task_def ex_env_def ex_occurrence_fields)
  have later: "\<forall>d. to_expires_in ex_task = Some d \<longrightarrow> 0 \<le> d" by (simp add: ex_task_def)
  have ends: "ends_occurrence ex_env ex_context (BodyReturned PNone) r ex_occurrence 200" for r
    by (simp add: ends_occurrence_def ex_context_def)
  have next_run: "get_next_run (sv_zones ex_env) ex_every 200 False (ac_draw ex_context) = Inr 90500200"
    by (simp add: get_next_run_def ex_every_def apply_jitter_def)
  note C = recurring_task_continues [OF wf ex_polled new cur ex_occurrence_fields(2) refl plan ex_occurrence_fields(4)
      sched task later ends next_run surjective_pairing]
  have "to_retries ex_task = 2" by (simp add: ex_task_def)
  with C show ?thesis unfolding is_successor_def by metis
qed

lemma interrupted_task_ends_witness:
  "\<exists>q. lookup (ss_store (shutdown_cycles (int 3) 7 [(''a'', 500), (''b'', 600), (''a'', 700), (''c'', 700), (''b'', 900)]
       (ex_svc (ex_state ex_record)))) 7 = Some q \<and> status q = Failed"
proof -
  have "ready 7 ex_record" "retry_count ex_record = 0" "interruption_count ex_record = 0" "max_retries ex_record = int 1"
    by (simp_all add: ready_def ex_record_def ex_request_def new_record_def is_waiting_def interruption_count_def get_or_none_def)
  with interrupted_task_ends [of "ex_svc (ex_state ex_record)" 7 ex_record 1 3
      "[(''a'', 500), (''b'', 600), (''a'', 700), (''c'', 700), (''b'', 900)]"] show ?thesis
    by (auto simp: ex_svc_def)
qed

end
