(* ===== verification/Submission.thy ===== *)
theory Submission
  imports Settlement_Properties
begin

text \<open>
  \<open>QueueService.enqueue\<close>: the identity of a submission, its metadata, times and reservation, and the
  record it leaves. Canonical JSON and SHA-256 (\<open>_identity.py\<close>) are parameters; trace and correlation
  context are the parameter \<open>capture\<close>, which adds entries to the metadata.
\<close>

section \<open>Identity\<close>

text \<open>\<open>encode\<close> is canonical JSON as UTF-8, or \<open>None\<close> for values JSON cannot carry; \<open>digest\<close> is SHA-256 in hex.\<close>

record identity_codec =
  encode :: "pyval \<Rightarrow> string option"
  digest :: "string \<Rightarrow> string"

definition IDENTITY_VERSION :: string where "IDENTITY_VERSION = ''v1''"

definition identity_key :: "string \<Rightarrow> string \<Rightarrow> string" where
  "identity_key mode dig = ''lq:u:'' @ IDENTITY_VERSION @ '':'' @ mode @ '':'' @ dig"

definition encode_identity :: "identity_codec \<Rightarrow> dict \<Rightarrow> string result" where
  "encode_identity c d = (case encode c (PDict d) of None \<Rightarrow> Inl TaskIdentityError | Some t \<Rightarrow> Inr t)"

definition task_identity :: "identity_codec \<Rightarrow> string \<Rightarrow> string result" where
  "task_identity c name =
     (case encode_identity c [(''task'', PStr name), (''version'', PStr IDENTITY_VERSION)] of
        Inl e \<Rightarrow> Inl e
      | Inr t \<Rightarrow> Inr (identity_key ''task'' (digest c t)))"

definition TASK_CONTEXT_KEY :: string where "TASK_CONTEXT_KEY = ''_task_context''"

fun drop_context :: "pyval \<Rightarrow> pyval" where
  "drop_context (PDict d) = PDict (dict_del TASK_CONTEXT_KEY d)"
| "drop_context v = v"

definition bound_arguments :: "py_signature \<Rightarrow> pyval list \<Rightarrow> dict \<Rightarrow> dict result" where
  "bound_arguments sig a d =
     bind_result (sig_bind sig a d) (\<lambda>bound.
       Inr (map (\<lambda>(k, v). (k, if k \<in> set (sig_var_keywords sig) then drop_context v else v))
             (dict_del TASK_CONTEXT_KEY bound)))"

definition arguments_identity ::
    "identity_codec \<Rightarrow> string \<Rightarrow> py_signature \<Rightarrow> pyval list \<Rightarrow> dict \<Rightarrow> int option \<Rightarrow> (string \<times> int) result" where
  "arguments_identity c name sig a d max_payload_bytes =
     (case bound_arguments sig a d of
        Inl e \<Rightarrow> Inl e
      | Inr arguments \<Rightarrow>
          (case encode_identity c [(''arguments'', PDict arguments), (''task'', PStr name),
                  (''version'', PStr IDENTITY_VERSION)] of
             Inl e \<Rightarrow> Inl e
           | Inr t \<Rightarrow>
               let n = int (length t) in
               if (case max_payload_bytes of None \<Rightarrow> False | Some b \<Rightarrow> n > b)
               then Inl (TaskIdentityTooLargeError n (given max_payload_bytes 0))
               else Inr (identity_key ''arguments'' (digest c t), n)))"

definition identity_lifetime_metadata :: "task_object \<Rightarrow> dict \<Rightarrow> dict" where
  "identity_lifetime_metadata t d =
     (if to_unique_until t \<noteq> ''terminal'' then dict_set ''unique_until'' (PStr (to_unique_until t)) d else d)"

definition resolve_identity ::
    "service_env \<Rightarrow> identity_codec \<Rightarrow> task_object \<Rightarrow> string option \<Rightarrow> pyval list \<Rightarrow> dict \<Rightarrow>
     (string option \<times> dict) result" where
  "resolve_identity env c t k a d =
     (if k \<noteq> None then Inr (k, identity_lifetime_metadata t [])
      else if to_key t \<noteq> None then Inr (to_key t, identity_lifetime_metadata t [])
      else case to_unique_by t of
             None \<Rightarrow> Inr (None, [])
           | Some by \<Rightarrow>
               bind_result
                 (if by = ''task'' then task_identity c (to_name t)
                  else bind_result (arguments_identity c (to_name t) (to_signature t) a d (sv_max_identity_bytes env))
                    (\<lambda>(derived, n). Inr derived))
                 (\<lambda>derived. Inr (Some derived, identity_lifetime_metadata t
                    [(''unique_by'', PStr by), (''unique_version'', PStr IDENTITY_VERSION)])))"

section \<open>Options\<close>

record submit_options =
  so_args :: "pyval list"
  so_kwargs :: dict
  so_scheduled_at :: "py_datetime option"
  so_run_after :: interval_arg
  so_expires_in :: interval_arg
  so_expires_at :: "py_datetime option"
  so_key :: "string option"
  so_queue :: "string option"
  so_priority :: "int option"
  so_retries :: "int option"
  so_timeout :: pyval
  so_execution_backend :: "string option"
  so_execution_profile :: "string option"
  so_description :: "string option"
  so_log_level :: "string option"
  so_log_success :: "bool option"
  so_requeue_on_stale :: "bool option"
  so_metadata :: "dict option"

definition default_options :: submit_options where
  "default_options = \<lparr>so_args = [], so_kwargs = [], so_scheduled_at = None, so_run_after = NoInterval,
     so_expires_in = NoInterval, so_expires_at = None, so_key = None, so_queue = None, so_priority = None,
     so_retries = None, so_timeout = PNone, so_execution_backend = None, so_execution_profile = None,
     so_description = None, so_log_level = None, so_log_success = None, so_requeue_on_stale = None,
     so_metadata = None\<rparr>"

text \<open>\<open>now\<close> and \<open>now2\<close>: the clock for a relative schedule, then for a relative deadline.\<close>

definition resolve_schedule_and_expiration ::
    "task_object \<Rightarrow> submit_options \<Rightarrow> instant \<Rightarrow> instant \<Rightarrow> (instant option \<times> instant option) result" where
  "resolve_schedule_and_expiration t o' now now2 =
     (let run_after = (if so_run_after o' \<noteq> NoInterval then coerce_timedelta (so_run_after o') else to_run_after t);
          scheduled = (case so_scheduled_at o' of
              Some u \<Rightarrow> Some (ensure_utc_datetime u)
            | None \<Rightarrow> map_option (\<lambda>d. now + d) run_after)
      in bind_result (resolve_expires_at t (so_expires_in o') (so_expires_at o') scheduled now2)
           (\<lambda>deadline. Inr (scheduled, deadline)))"

definition submission_metadata :: "task_object \<Rightarrow> submit_options \<Rightarrow> dict" where
  "submission_metadata t o' =
     set_if ''timeout'' (if so_timeout o' = PNone then None else Some (so_timeout o'))
       (set_if ''requeue_on_stale'' (map_option PBool (so_requeue_on_stale o'))
         (set_if ''log_success'' (map_option PBool (so_log_success o'))
           (set_if ''log_level'' (map_option PStr (so_log_level o'))
             (set_if ''description'' (map_option PStr (so_description o'))
               (task_metadata (so_metadata o') t)))))"

text \<open>\<open>a or b or c\<close> on strings: the empty string is skipped.\<close>

definition or_text :: "string option \<Rightarrow> string option \<Rightarrow> string \<Rightarrow> string" where
  "or_text a b c =
     (case a of
        Some (x # xs) \<Rightarrow> x # xs
      | _ \<Rightarrow> (case b of Some (y # ys) \<Rightarrow> y # ys | _ \<Rightarrow> c))"

definition effective_backend :: "service_env \<Rightarrow> task_object \<Rightarrow> submit_options \<Rightarrow> string" where
  "effective_backend env t o' = or_text (so_execution_backend o') (to_execution_backend t) (sv_execution_backend env)"

definition cloud_tasks_timeout ::
    "service_env \<Rightarrow> task_object \<Rightarrow> string \<Rightarrow> pyval \<Rightarrow> instant option \<Rightarrow> instant \<Rightarrow> dict \<Rightarrow> dict result" where
  "cloud_tasks_timeout env t backend timeout scheduled now d =
     (if CLOUD_TASKS_BACKEND \<in> {sv_execution_backend env, backend}
      then bind_result (validate_cloud_tasks_record env backend t timeout scheduled now)
             (\<lambda>v. Inr (set_if ''timeout'' v d))
      else Inr d)"

text \<open>Everything computed before the first write: the request. The clock readings are 0 to 2.\<close>

definition prepare_submission ::
    "service_env \<Rightarrow> identity_codec \<Rightarrow> (nat \<Rightarrow> instant) \<Rightarrow> task_object \<Rightarrow> submit_options \<Rightarrow> task_request result" where
  "prepare_submission env c clk t o' =
     bind_result (resolve_identity env c t (so_key o') (so_args o') (so_kwargs o')) (\<lambda>(k, identity).
     bind_result (resolve_schedule_and_expiration t o' (clk 0) (clk 1)) (\<lambda>(scheduled, deadline).
     let backend = effective_backend env t o';
         meta = dict_update (apply_log_success_default env (submission_metadata t o')) identity
     in bind_result (cloud_tasks_timeout env t backend (so_timeout o') scheduled (clk 2) meta) (\<lambda>meta.
       Inr \<lparr>req_task_name = to_name t, req_args = so_args o', req_kwargs = Some (so_kwargs o'),
            req_queue = given (so_queue o') (to_queue t), req_priority = given (so_priority o') (to_priority t),
            req_max_retries = given (so_retries o') (to_retries t), req_scheduled_at = scheduled,
            req_expires_at = deadline, req_key = k, req_execution_backend = backend,
            req_execution_profile = or_else (so_execution_profile o') (to_execution_profile t),
            req_metadata = Some meta\<rparr>)))"

section \<open>Submission\<close>

record task_handle =
  th_task_id :: uuid
  th_task_name :: string
  th_record :: "task_record option"

definition release_failed_reservation :: "string \<Rightarrow> uuid \<Rightarrow> unit svc" where
  "release_failed_reservation k i =
     op_bind (svc_read (get_task i)) (\<lambda>persisted.
       if persisted = None then op_bind (svc_store (reset_identity k (Some i))) (\<lambda>_. op_return ())
       else op_return ())"

definition raise_identity_collision :: "string \<Rightarrow> uuid \<Rightarrow> task_record svc" where
  "raise_identity_collision k i =
     op_bind (svc_store (reset_identity k (Some i))) (\<lambda>_. op_raise QueueConfigurationError)"

text \<open>
  The guarded write. The backend call itself is the parameter \<open>store\<close>, which may raise; \<open>reserved\<close> is
  the identifier reserved for a permanent identity.
\<close>

definition persist_submission ::
    "task_record svc \<Rightarrow> string option \<Rightarrow> uuid option \<Rightarrow> task_record svc" where
  "persist_submission store k reserved =
     op_try
       (op_bind store (\<lambda>r.
          case (reserved, k) of
            (Some i, Some k') \<Rightarrow> if rid r \<noteq> i then raise_identity_collision k' i else op_return r
          | _ \<Rightarrow> op_return r))
       (\<lambda>e. case (reserved, k) of
              (Some i, Some k') \<Rightarrow> op_bind (release_failed_reservation k' i) (\<lambda>_. op_raise e)
            | _ \<Rightarrow> op_raise e)"

definition expired_payload :: "service_env \<Rightarrow> task_record \<Rightarrow> dict" where
  "expired_payload env r =
     status_payload r @ [(''expires_at'', case expires_at r of None \<Rightarrow> PNone | Some t \<Rightarrow> PStr (sv_isoformat env t))]"

definition publish_expired_event :: "service_env \<Rightarrow> string option \<Rightarrow> task_record \<Rightarrow> unit svc" where
  "publish_expired_event env worker r =
     emit (task_event ''task.expired'' r worker (retry_count r + 1) (Some ''Task expired before execution'')
       (expired_payload env r))"

fun op_for_each :: "('a \<Rightarrow> unit svc) \<Rightarrow> 'a list \<Rightarrow> unit svc" where
  "op_for_each f [] = op_return ()"
| "op_for_each f (x # xs) = op_bind (f x) (\<lambda>_. op_for_each f xs)"

definition expire_overdue_tasks ::
    "service_env \<Rightarrow> int option \<Rightarrow> string option \<Rightarrow> instant \<Rightarrow> task_record list svc" where
  "expire_overdue_tasks env limit worker now =
     op_bind (svc_store (expire_overdue limit now)) (\<lambda>expired.
     op_bind (op_for_each (\<lambda>r.
         op_bind (if external_attempt_ref r \<noteq> None
                  then op_bind (cancel_external_attempt env r) (\<lambda>_. op_return ()) else op_return ())
           (\<lambda>_. publish_expired_event env worker r)) expired)
       (\<lambda>_. op_return expired))"

definition svc_claim_task ::
    "service_env \<Rightarrow> uuid \<Rightarrow> string option \<Rightarrow> int option \<Rightarrow> string option \<Rightarrow> instant \<Rightarrow> instant \<Rightarrow>
     (task_record option \<times> task_record option) svc" where
  "svc_claim_task env i worker expected_retry_count expected_execution_ref t now =
     op_bind (svc_store (claim_task_with_expired i expected_retry_count expected_execution_ref t now))
       (\<lambda>(claimed, expired).
          case expired of
            None \<Rightarrow> op_return (claimed, expired)
          | Some r \<Rightarrow> op_bind (publish_expired_event env worker r) (\<lambda>_. op_return (claimed, expired)))"

definition run_immediate :: "service_env \<Rightarrow> instant \<Rightarrow> instant \<Rightarrow> task_record \<Rightarrow> unit svc" where
  "run_immediate env t now r =
     (if execution_backend r \<noteq> ''immediate'' \<or> status r \<noteq> Pending then op_return ()
      else case get_execution_backend env (Some (execution_backend r)) of
             None \<Rightarrow> op_raise ValueError
           | Some b \<Rightarrow>
               if xb_is_external b then op_return ()
               else op_bind (svc_claim_task env (rid r) None None None t now) (\<lambda>(claimed, _).
                      case claimed of
                        None \<Rightarrow> op_return ()
                      | Some c \<Rightarrow> op_bind (xb_execute b c) (\<lambda>_. op_return ())))"

text \<open>
  \<open>fresh\<close> is the identifier of the record, \<open>reserved\<close> the one generated for a permanent identity. Clock
  readings 3 to 6 belong to the reservation and the write, 7 to 10 to what follows.
\<close>

definition finish_submission ::
    "service_env \<Rightarrow> (nat \<Rightarrow> instant) \<Rightarrow> task_object \<Rightarrow> task_record \<Rightarrow> task_handle svc" where
  "finish_submission env clk t r0 =
     op_bind (if is_waiting r0 \<and> is_expired (clk 7) r0
              then op_bind (expire_overdue_tasks env None None (clk 8)) (\<lambda>expired.
                     op_return (given (find (\<lambda>q. rid q = rid r0) expired) r0))
              else op_return r0) (\<lambda>r1.
     op_bind (schedule_persisted env r1) (\<lambda>r.
     op_bind (run_immediate env (clk 9) (clk 10) r) (\<lambda>_.
       op_return \<lparr>th_task_id = rid r, th_task_name = to_name t, th_record = Some r\<rparr>)))"

definition svc_enqueue ::
    "service_env \<Rightarrow> identity_codec \<Rightarrow> (dict \<Rightarrow> dict) \<Rightarrow> (nat \<Rightarrow> instant) \<Rightarrow> uuid \<Rightarrow> uuid \<Rightarrow> task_object \<Rightarrow>
     submit_options \<Rightarrow> task_handle svc" where
  "svc_enqueue env c capture clk reserved fresh t o' =
     op_bind (op_lift (prepare_submission env c clk t o')) (\<lambda>req0.
       let req = req0\<lparr>req_metadata := map_option capture (req_metadata req0)\<rparr> in
       case (if to_unique_until t = ''forever'' then req_key req else None) of
         None \<Rightarrow>
           op_bind (persist_submission (svc_store (enqueue req None fresh (clk 4) (clk 5) (clk 6))) (req_key req) None)
             (finish_submission env clk t)
       | Some k \<Rightarrow>
           op_bind (svc_store (reserve_identity k reserved (to_name t) (clk 3))) (\<lambda>owner.
             case owner of
               Some own \<Rightarrow> op_return \<lparr>th_task_id = res_task_id own, th_task_name = res_task_name own, th_record = None\<rparr>
             | None \<Rightarrow>
                 op_bind (persist_submission (svc_store (enqueue req (Some reserved) fresh (clk 4) (clk 5) (clk 6)))
                     (req_key req) (Some reserved))
                   (finish_submission env clk t)))"

section \<open>What follows the write\<close>

definition svc_evolves :: "mem_state \<Rightarrow> mem_state \<Rightarrow> bool" where
  "svc_evolves m m' \<longleftrightarrow> state_evolves m m' \<and> mem_reservations m' = mem_reservations m"

lemma svc_evolves_refl [simp]: "svc_evolves m m"
  by (auto simp: svc_evolves_def)

lemma op_for_each_store:
  assumes "\<And>x s. x \<in> set xs \<Longrightarrow> \<exists>s'. f x s = (Inr (), s') \<and> ss_store s' = ss_store s"
  shows "\<exists>s'. op_for_each f xs s = (Inr (), s') \<and> ss_store s' = ss_store s"
  using assms
proof (induction xs arbitrary: s)
  case (Cons x xs)
  from Cons.prems [of x s] obtain s1 where s1: "f x s = (Inr (), s1)" "ss_store s1 = ss_store s" by auto
  with Cons.IH [of s1] Cons.prems show ?case by (simp add: op_simps)
qed (simp add: op_simps)

lemma expired_result:
  "x \<in> set (fst (expire_overdue limit now m)) \<Longrightarrow> status x = Expired \<and> execution_ref x = None"
  using expire_loop_result [of 0 now limit "mem_records m"]
  by (auto simp: expire_overdue_def case_prod_beta expire_record_def overdue_def dest!: in_set_takeD
      split: option.splits)

lemma expire_overdue_tasks_result:
  "\<exists>s'. expire_overdue_tasks env limit worker now s = (Inr (fst (expire_overdue limit now (ss_store s))), s') \<and>
     ss_store s' = snd (expire_overdue limit now (ss_store s))"
proof -
  let ?f = "\<lambda>r. op_bind (if external_attempt_ref r \<noteq> None
      then op_bind (cancel_external_attempt env r) (\<lambda>_. op_return ()) else op_return ())
      (\<lambda>_. publish_expired_event env worker r)"
  have "\<exists>s'. ?f x s1 = (Inr (), s') \<and> ss_store s' = ss_store s1"
    if "x \<in> set (fst (expire_overdue limit now (ss_store s)))" for x s1
    using expired_result [OF that] by (simp add: external_attempt_ref_def publish_expired_event_def op_simps)
  note each = op_for_each_store [where f = ?f, OF this]
  let ?s = "s\<lparr>ss_store := snd (expire_overdue limit now (ss_store s))\<rparr>"
  obtain s' where s': "op_for_each ?f (fst (expire_overdue limit now (ss_store s))) ?s = (Inr (), s')"
      "ss_store s' = ss_store ?s"
    using each [where s = ?s] by blast
  have "expire_overdue_tasks env limit worker now s = (Inr (fst (expire_overdue limit now (ss_store s))), s')"
    unfolding expire_overdue_tasks_def svc_store_simp op_bind_simps(2) [where m = "op_for_each ?f _", OF s'(1)] by (simp add: op_simps)
  with s'(2) show ?thesis by simp
qed

lemma expire_overdue_svc: "svc_evolves m (snd (expire_overdue limit now m))"
  by (auto simp: svc_evolves_def expire_overdue_evolves) (simp add: expire_overdue_def case_prod_beta)

lemma finish_submission_result:
  assumes env: "polled env" and r: "execution_backend r \<noteq> ''immediate''"
  shows "\<exists>h s'. finish_submission env clk t r s = (Inr h, s') \<and> th_task_id h = rid r \<and> th_task_name h = to_name t \<and>
    svc_evolves (ss_store s) (ss_store s')"
proof -
  have tail: "op_bind (schedule_persisted env q) (\<lambda>r. op_bind (run_immediate env t1 t2 r)
      (\<lambda>_. op_return \<lparr>th_task_id = rid r, th_task_name = to_name t, th_record = Some r\<rparr>)) s1 =
      (Inr \<lparr>th_task_id = rid q, th_task_name = to_name t, th_record = Some q\<rparr>, s1)"
    if "execution_backend q \<noteq> ''immediate'' \<or> status q \<noteq> Pending" for q s1 t1 t2
    using that by (simp add: polled_persisted [OF env] op_simps run_immediate_def)
  show ?thesis
  proof (cases "is_waiting r \<and> is_expired (clk 7) r")
    case False
    have "finish_submission env clk t r s = (Inr \<lparr>th_task_id = rid r, th_task_name = to_name t, th_record = Some r\<rparr>, s)"
      unfolding finish_submission_def if_not_P [OF False] op_bind_basic by (rule tail) (use r in simp)
    then show ?thesis by simp
  next
    case True
    obtain s1 where s1: "expire_overdue_tasks env None None (clk 8) s =
        (Inr (fst (expire_overdue None (clk 8) (ss_store s))), s1)"
        "ss_store s1 = snd (expire_overdue None (clk 8) (ss_store s))"
      using expire_overdue_tasks_result by blast
    let ?q = "given (find (\<lambda>q. rid q = rid r) (fst (expire_overdue None (clk 8) (ss_store s)))) r"
    have q: "rid ?q = rid r \<and> (execution_backend ?q \<noteq> ''immediate'' \<or> status ?q \<noteq> Pending)"
    proof (cases "find (\<lambda>q. rid q = rid r) (fst (expire_overdue None (clk 8) (ss_store s)))")
      case None
      with r show ?thesis by simp
    next
      case (Some e)
      then have "e \<in> set (fst (expire_overdue None (clk 8) (ss_store s)))" "rid e = rid r"
        by (auto simp: find_Some_iff)
      with expired_result Some show ?thesis by auto
    qed
    have "finish_submission env clk t r s =
        (Inr \<lparr>th_task_id = rid ?q, th_task_name = to_name t, th_record = Some ?q\<rparr>, s1)"
      unfolding finish_submission_def if_P [OF True] op_bind_basic op_bind_simps(2) [where m = "expire_overdue_tasks env None None (clk 8)", OF s1(1)] by (rule tail [OF conjunct2 [OF q]])
    with q s1(2) expire_overdue_svc show ?thesis by simp
  qed
qed

section \<open>Permanent identities\<close>

lemma enqueue_existing:
  "existing_for_key (req_key req) m = Some q \<Longrightarrow> enqueue req eid fresh t1 t2 t3 m = (q, m)"
  by (simp add: enqueue_def)

lemma existing_lookup:
  assumes "mem_wf m" "existing_for_key k m = Some q"
  shows "lookup m (rid q) = Some q"
  using assms mem_wfD(2) [OF assms(1)] by (auto simp: existing_for_key_def split: option.splits if_splits)

lemma enqueue_reserved:
  assumes "existing_for_key (req_key req) m = None"
  shows "rid (fst (enqueue req (Some i) fresh t1 t2 t3 m)) = i"
    and "execution_backend (fst (enqueue req (Some i) fresh t1 t2 t3 m)) = req_execution_backend req"
    and "lookup (snd (enqueue req (Some i) fresh t1 t2 t3 m)) i = Some (new_record req i (initial_status t2 req) t1)"
    and "mem_reservations (snd (enqueue req (Some i) fresh t1 t2 t3 m)) = mem_reservations m"
  using assms
  by (simp_all add: enqueue_def Let_def insert_record_lookup new_record_def)
    (simp add: notify_new_task_def insert_record_def put_record_def split: option.split)

lemma finish_raise_collision:
  assumes "lookup (ss_store s) i = None" "has_identity k (ss_store s) = Some own" "res_task_id own = i"
    and "store s = (Inr q, s)" "rid q \<noteq> i"
  shows "\<exists>s'. persist_submission store (Some k) (Some i) s = (Inl QueueConfigurationError, s') \<and>
    has_identity k (ss_store s') = None \<and> mem_records (ss_store s') = mem_records (ss_store s) \<and>
    mem_keys (ss_store s') = mem_keys (ss_store s)"
proof -
  have "persist_submission store (Some k) (Some i) s =
      op_bind (release_failed_reservation k i) (\<lambda>_. op_raise QueueConfigurationError)
        (s\<lparr>ss_store := snd (reset_identity k (Some i) (ss_store s))\<rparr>)"
    using assms(5) by (simp add: persist_submission_def op_try_def op_bind_simps(2) [where m = store, OF assms(4)]
        raise_identity_collision_def op_simps)
  then show ?thesis
    using assms(1-3)
    by (simp add: release_failed_reservation_def op_simps get_task_def reset_identity_def has_identity_def dict_simps)
qed

text \<open>Property C8: a permanent identity has one task for ever: while the identity is reserved every
  submission under it answers with its owner and writes nothing, whatever has become of the task; the
  first one reserves it for the very record it stores; and one that collides with an active task of
  another policy is refused, leaves the task alone and gives the reservation back.\<close>

theorem forever_identity_unique:
  assumes prep: "prepare_submission env c clk t o' = Inr req" "to_unique_until t = ''forever''" "req_key req = Some k"
    and env: "polled env" "req_execution_backend req \<noteq> ''immediate''"
    and wf: "mem_wf (ss_store s)" "lookup (ss_store s) reserved = None"
    and run: "svc_enqueue env c capture clk reserved fresh t o' s = (res, s')"
  shows "case has_identity k (ss_store s) of
      Some own \<Rightarrow> s' = s \<and> res = Inr \<lparr>th_task_id = res_task_id own, th_task_name = res_task_name own, th_record = None\<rparr>
    | None \<Rightarrow>
        (case existing_for_key (Some k) (ss_store s) of
           Some q \<Rightarrow> res = Inl QueueConfigurationError \<and> has_identity k (ss_store s') = None \<and>
             mem_records (ss_store s') = mem_records (ss_store s) \<and> mem_keys (ss_store s') = mem_keys (ss_store s)
         | None \<Rightarrow> (\<exists>h own r. res = Inr h \<and> th_task_id h = reserved \<and> has_identity k (ss_store s') = Some own \<and>
             res_task_id own = reserved \<and> lookup (ss_store s') reserved = Some r \<and> key r = Some k \<and>
             task_name r = req_task_name req))"
proof -
  let ?req = "req\<lparr>req_metadata := map_option capture (req_metadata req)\<rparr>"
  let ?own = "\<lparr>res_key = k, res_task_id = reserved, res_task_name = to_name t, res_created_at = clk 3\<rparr>"
  let ?m = "(ss_store s)\<lparr>mem_reservations := dict_set k ?own (mem_reservations (ss_store s))\<rparr>"
  let ?s = "s\<lparr>ss_store := ?m\<rparr>"
  let ?store = "svc_store (enqueue ?req (Some reserved) fresh (clk 4) (clk 5) (clk 6))"
  have start: "svc_enqueue env c capture clk reserved fresh t o' s =
    (case has_identity k (ss_store s) of
       Some own \<Rightarrow> (Inr \<lparr>th_task_id = res_task_id own, th_task_name = res_task_name own, th_record = None\<rparr>, s)
     | None \<Rightarrow> op_bind (persist_submission ?store (Some k) (Some reserved)) (finish_submission env clk t) ?s)"
    using prep by (simp add: svc_enqueue_def op_simps Let_def reserve_identity_def has_identity_def split: option.split)
  show ?thesis
  proof (cases "has_identity k (ss_store s)")
    case (Some own)
    with run start show ?thesis by simp
  next
    case None
    have ident: "has_identity k ?m = Some ?own" by (simp add: has_identity_def dict_simps)
    have same: "existing_for_key (Some k) ?m = existing_for_key (Some k) (ss_store s)"
      by (simp add: existing_for_key_def split: option.split)
    show ?thesis
    proof (cases "existing_for_key (Some k) (ss_store s)")
      case (Some q)
      then have q: "enqueue ?req (Some reserved) fresh (clk 4) (clk 5) (clk 6) ?m = (q, ?m)"
        using prep(3) same by (intro enqueue_existing) simp
      have "rid q \<noteq> reserved" using existing_lookup [OF wf(1) Some] wf(2) by auto
      have "?store ?s = (Inr q, ?s)" by (simp add: op_simps q)
      from finish_raise_collision [of ?s reserved k ?own ?store q, OF _ _ _ this \<open>rid q \<noteq> reserved\<close>] ident wf(2)
      obtain s1 where "persist_submission ?store (Some k) (Some reserved) ?s = (Inl QueueConfigurationError, s1)"
        "has_identity k (ss_store s1) = None" "mem_records (ss_store s1) = mem_records ?m" "mem_keys (ss_store s1) = mem_keys ?m"
        by auto
      with run start None Some show ?thesis by (simp add: op_simps)
    next
      case free: None
      have E': "existing_for_key (req_key ?req) ?m = None" using prep(3) same free by simp
      note E = enqueue_reserved [of ?req ?m reserved fresh "clk 4" "clk 5" "clk 6"]
      let ?r = "fst (enqueue ?req (Some reserved) fresh (clk 4) (clk 5) (clk 6) ?m)"
      let ?s2 = "?s\<lparr>ss_store := snd (enqueue ?req (Some reserved) fresh (clk 4) (clk 5) (clk 6) ?m)\<rparr>"
      have "persist_submission ?store (Some k) (Some reserved) ?s = (Inr ?r, ?s2)"
        using E(1) [OF E'] by (simp add: persist_submission_def op_try_def op_simps)
      then have run2: "(res, s') = finish_submission env clk t ?r ?s2"
        using run start None by (simp add: op_simps)
      obtain h s3 where fin: "finish_submission env clk t ?r ?s2 = (Inr h, s3)" "th_task_id h = reserved"
          "svc_evolves (ss_store ?s2) (ss_store s3)"
        using finish_submission_result [OF env(1), where r = ?r and s = ?s2 and clk = clk and t = t] E(1,2) [OF E'] env(2)
        by auto
      have "\<exists>r. lookup (ss_store s3) reserved = Some r \<and> evolves (new_record ?req reserved (initial_status (clk 5) ?req) (clk 4)) r"
        using fin(3) E(3) [OF E'] by (auto simp: svc_evolves_def state_evolves_def intro: recs_evolve_lookup)
      moreover have "has_identity k (ss_store s3) = Some ?own"
        using fin(3) E(4) [OF E'] ident by (simp add: svc_evolves_def has_identity_def)
      ultimately show ?thesis
        using None free run2 fin(1,2) prep(3) by (auto simp: evolves_def new_record_def)
    qed
  qed
qed

text \<open>a failed write gives its permanent identity back exactly when nothing was persisted:
  with no record under the reserved identifier the reservation is gone, otherwise the state is the one
  the failed call left; the error itself is raised unchanged.\<close>

theorem failed_submission_releases:
  assumes "store s = (Inl e, s1)" and "has_identity k (ss_store s1) = Some own" "res_task_id own = i"
  shows "fst (persist_submission store (Some k) (Some i) s) = Inl e \<and>
    (if lookup (ss_store s1) i = None
     then has_identity k (ss_store (snd (persist_submission store (Some k) (Some i) s))) = None
     else snd (persist_submission store (Some k) (Some i) s) = s1)"
  using assms
  by (simp add: persist_submission_def op_try_def op_bind_simps(1) [where m = store, OF assms(1)] release_failed_reservation_def op_simps
      get_task_def reset_identity_def has_identity_def dict_simps)

section \<open>Admission\<close>

lemma cloud_tasks_timeout_result:
  assumes "cloud_tasks_timeout env t CLOUD_TASKS_BACKEND timeout scheduled now d = Inr d'"
  shows "\<exists>ct x v. sv_cloud_tasks env = Some ct \<and> dict_get d' ''timeout'' = Some v \<and> finite_number v = Some x \<and>
    0 < x \<and> x + ct_response_margin ct \<le> of_int (ct_dispatch_deadline ct) \<and>
    (\<forall>u. scheduled = Some u \<longrightarrow> u \<le> now + CLOUD_TASKS_MAX_SCHEDULE_HORIZON)"
  using assms
  by (auto simp: cloud_tasks_timeout_def validate_cloud_tasks_record_def Let_def bind_result_eq_Inr dict_simps
      split: option.splits if_splits)

text \<open>what a submission must satisfy before anything is written: never both a relative and an
  absolute deadline, a relative deadline never before the scheduled time (or the submission, when it is
  not scheduled), a log policy always present, and for Cloud Tasks a typed configuration whose delivery
  budget holds the task's positive timeout and whose horizon holds its schedule.\<close>

theorem submission_admission:
  assumes "prepare_submission env c clk t o' = Inr req"
  shows "(so_expires_in o' = NoInterval \<or> so_expires_at o' = None) \<and>
    (\<forall>e. so_expires_at o' = None \<and> req_expires_at req = Some e \<longrightarrow> given (req_scheduled_at req) (clk 1) \<le> e) \<and>
    (\<exists>d. req_metadata req = Some d \<and> dict_get d ''log_success'' \<noteq> None \<and>
      (req_execution_backend req = CLOUD_TASKS_BACKEND \<longrightarrow>
        (\<exists>ct x v. sv_cloud_tasks env = Some ct \<and> dict_get d ''timeout'' = Some v \<and> finite_number v = Some x \<and>
          0 < x \<and> x + ct_response_margin ct \<le> of_int (ct_dispatch_deadline ct) \<and>
          (\<forall>u. req_scheduled_at req = Some u \<longrightarrow> u \<le> clk 2 + CLOUD_TASKS_MAX_SCHEDULE_HORIZON))))"
proof -
  obtain k identity scheduled deadline d where P:
      "resolve_schedule_and_expiration t o' (clk 0) (clk 1) = Inr (scheduled, deadline)"
      "cloud_tasks_timeout env t (effective_backend env t o') (so_timeout o') scheduled (clk 2)
         (dict_update (apply_log_success_default env (submission_metadata t o')) identity) = Inr d"
      "req_scheduled_at req = scheduled" "req_expires_at req = deadline" "req_metadata req = Some d"
      "req_execution_backend req = effective_backend env t o'"
    using assms by (auto simp: prepare_submission_def bind_result_eq_Inr Let_def)
  have deadline: "resolve_expires_at t (so_expires_in o') (so_expires_at o') scheduled (clk 1) = Inr deadline"
    using P(1) by (auto simp: resolve_schedule_and_expiration_def Let_def bind_result_eq_Inr)
  then have "so_expires_in o' = NoInterval \<or> so_expires_at o' = None"
    by (auto simp: resolve_expires_at_def split: if_splits)
  moreover have later: "given scheduled (clk 1) \<le> e" if "so_expires_at o' = None" "deadline = Some e" for e
    using deadline that by (auto simp: resolve_expires_at_def split: if_splits option.splits)
  moreover have "dict_get d ''log_success'' \<noteq> None"
    using P(2) by (auto simp: cloud_tasks_timeout_def bind_result_eq_Inr dict_simps apply_log_success_default_def
        split: option.splits if_splits)
  ultimately show ?thesis
    using P(2) cloud_tasks_timeout_result by (auto simp: P(3-6))
qed

section \<open>Witnesses\<close>

definition ex_once :: task_object where
  "ex_once = ex_task\<lparr>to_key := Some ''once'', to_unique_until := ''forever''\<rparr>"

definition ex_codec :: identity_codec where
  "ex_codec = \<lparr>encode = (\<lambda>_. None), digest = (\<lambda>t. t)\<rparr>"

definition ex_clock :: "nat \<Rightarrow> instant" where
  "ex_clock n = 300 + int n"

definition ex_submission :: task_request where
  "ex_submission = \<lparr>req_task_name = ''report'', req_args = [], req_kwargs = Some [], req_queue = ''default'',
     req_priority = 0, req_max_retries = 2, req_scheduled_at = None, req_expires_at = Some 60000301,
     req_key = Some ''once'', req_execution_backend = ''local'', req_execution_profile = None,
     req_metadata = Some [(''log_success'', PBool True), (''unique_until'', PStr ''forever'')]\<rparr>"

lemma ex_prepared: "prepare_submission ex_env ex_codec ex_clock ex_once default_options = Inr ex_submission"
  by (simp add: prepare_submission_def resolve_identity_def default_options_def ex_once_def ex_task_def
      identity_lifetime_metadata_def resolve_schedule_and_expiration_def resolve_expires_at_def effective_backend_def
      or_text_def ex_env_def cloud_tasks_timeout_def CLOUD_TASKS_BACKEND_def submission_metadata_def task_metadata_def
      set_if_def dict_update_def apply_log_success_default_def ex_submission_def ex_clock_def Let_def)

lemma forever_identity_unique_witness:
  "\<exists>h own r s'. svc_enqueue ex_env ex_codec (\<lambda>d. d) ex_clock 11 12 ex_once default_options (ex_svc mem_init) = (Inr h, s') \<and>
     th_task_id h = 11 \<and> has_identity ''once'' (ss_store s') = Some own \<and> res_task_id own = 11 \<and>
     lookup (ss_store s') 11 = Some r \<and> key r = Some ''once''"
proof -
  have req: "to_unique_until ex_once = ''forever''" "req_key ex_submission = Some ''once''"
    "req_execution_backend ex_submission \<noteq> ''immediate''"
    by (simp_all add: ex_once_def ex_submission_def)
  have s: "mem_wf (ss_store (ex_svc mem_init))" "lookup (ss_store (ex_svc mem_init)) 11 = None"
    "has_identity ''once'' (ss_store (ex_svc mem_init)) = None"
    "existing_for_key (Some ''once'') (ss_store (ex_svc mem_init)) = None"
    by (simp_all add: ex_svc_def) (simp_all add: mem_init_def has_identity_def existing_for_key_def)
  obtain res s' where run: "svc_enqueue ex_env ex_codec (\<lambda>d. d) ex_clock 11 12 ex_once default_options (ex_svc mem_init) = (res, s')"
    by fastforce
  from forever_identity_unique [OF ex_prepared req(1,2) ex_polled req(3) s(1,2) run] s(3,4)
  show ?thesis unfolding run by auto
qed

definition ex_reserved :: svc_state where
  "ex_reserved = ex_svc (mem_init\<lparr>mem_reservations := [(''once'', \<lparr>res_key = ''once'', res_task_id = 11,
     res_task_name = ''report'', res_created_at = 5\<rparr>)]\<rparr>)"

lemma failed_submission_releases_witness:
  "has_identity ''once'' (ss_store ex_reserved) \<noteq> None \<and>
   has_identity ''once'' (ss_store (snd (persist_submission (op_raise RuntimeError) (Some ''once'') (Some 11) ex_reserved))) = None"
proof -
  have own: "has_identity ''once'' (ss_store ex_reserved) =
      Some \<lparr>res_key = ''once'', res_task_id = 11, res_task_name = ''report'', res_created_at = 5\<rparr>"
    and none: "lookup (ss_store ex_reserved) 11 = None"
    by (simp_all add: ex_reserved_def ex_svc_def has_identity_def) (simp_all add: mem_init_def)
  from failed_submission_releases [where store = "op_raise RuntimeError", OF op_basic(2) own, of 11] none own show ?thesis by simp
qed

lemma submission_admission_witness:
  "given (req_scheduled_at ex_submission) (ex_clock 1) \<le> 60000301"
  using submission_admission [OF ex_prepared] by (simp add: default_options_def ex_submission_def)

end
