(* ===== verification/Service_Schedules.thy ===== *)
theory Service_Schedules
  imports Submission
begin

text \<open>
  Recurring schedules in the service: \<open>initialize_schedules\<close> at startup, \<open>reassert_schedules\<close> in
  maintenance, and the repair of their deliveries. The registry is walked in registration order; the
  clock, the jitter and the fresh identifier of each schedule are a function of its name.
\<close>

section \<open>One occurrence\<close>

definition schedule_key :: "string \<Rightarrow> string" where
  "schedule_key name = ''scheduled:'' @ name"

record occurrence_input =
  oi_clock :: "nat \<Rightarrow> instant"
  oi_draw :: rat
  oi_fresh :: uuid

definition has_schedule :: "schedule_config \<Rightarrow> task_record \<Rightarrow> bool" where
  "has_schedule c r \<longleftrightarrow> py_eq (get_or_none (metadata r) ''schedule'') (PDict (schedule_as_metadata c))"

definition active_occurrence :: "task_record option \<Rightarrow> task_record option" where
  "active_occurrence existing =
     (case existing of None \<Rightarrow> None | Some r \<Rightarrow> if is_terminal r then None else Some r)"

definition occurrence_backend :: "service_env \<Rightarrow> task_object \<Rightarrow> string" where
  "occurrence_backend env t = or_text (to_execution_backend t) None (sv_execution_backend env)"

definition metadata_with_schedule_default ::
    "service_env \<Rightarrow> task_object \<Rightarrow> schedule_config \<Rightarrow> instant \<Rightarrow> instant \<Rightarrow> dict result" where
  "metadata_with_schedule_default env t c scheduled now =
     cloud_tasks_timeout env t (occurrence_backend env t) PNone (Some scheduled) now
       (apply_log_success_default env
         (task_metadata (Some [(''schedule'', PDict (schedule_as_metadata c))]) t))"

definition occurrence_request ::
    "service_env \<Rightarrow> task_object \<Rightarrow> string \<Rightarrow> instant \<Rightarrow> instant option \<Rightarrow> dict \<Rightarrow> task_request" where
  "occurrence_request env t name scheduled deadline meta =
     (default_request name)\<lparr>req_key := Some (schedule_key name), req_max_retries := to_retries t,
        req_priority := to_priority t, req_scheduled_at := Some scheduled, req_expires_at := deadline,
        req_execution_backend := occurrence_backend env t, req_execution_profile := to_execution_profile t,
        req_metadata := Some meta\<rparr>"

definition cancel_active :: "service_env \<Rightarrow> instant \<Rightarrow> task_record option \<Rightarrow> unit svc" where
  "cancel_active env now active =
     (case active of
        None \<Rightarrow> op_return ()
      | Some r \<Rightarrow> op_bind (svc_cancel_task env (rid r) False None True now) (\<lambda>_. op_return ()))"

section \<open>Startup\<close>

definition initialize_missing ::
    "service_env \<Rightarrow> occurrence_input \<Rightarrow> string \<Rightarrow> schedule_config \<Rightarrow> task_object \<Rightarrow> task_record option \<Rightarrow>
     task_record svc" where
  "initialize_missing env x name c t active =
     (let clk = oi_clock x in
      op_bind (op_lift (get_next_run (sv_zones env) c (clk 0) True (oi_draw x))) (\<lambda>scheduled.
      op_bind (op_lift (reject_beyond_scheduling_horizon env (clk 1) (Some scheduled) (to_execution_backend t))) (\<lambda>_.
      op_bind (op_lift (metadata_with_schedule_default env t c scheduled (clk 2))) (\<lambda>meta.
      op_bind (cancel_active env (clk 3) active) (\<lambda>_.
      op_bind (op_lift (resolve_expires_at t NoInterval None (Some scheduled) (clk 4))) (\<lambda>deadline.
        persist_scheduled_record env (occurrence_request env t name scheduled deadline meta) (oi_fresh x)
          (\<lambda>n. clk (n + 5))))))))"

definition initialize_one ::
    "service_env \<Rightarrow> (string \<Rightarrow> occurrence_input) \<Rightarrow> string \<times> schedule_config \<Rightarrow> task_record svc" where
  "initialize_one env inp sched =
     (case sched of (name, c) \<Rightarrow>
        op_bind (op_lift (resolve_task env name)) (\<lambda>t.
        op_bind (svc_read (get_task_by_key (schedule_key name))) (\<lambda>existing.
          case active_occurrence existing of
            Some r \<Rightarrow>
              if has_schedule c r
              then (if execution_ref r = None \<and>
                       \<not> beyond_scheduling_horizon env (oi_clock (inp name) 0) (scheduled_at r) (Some (execution_backend r))
                    then schedule_persisted env r else op_return r)
              else initialize_missing env (inp name) name c t (Some r)
          | None \<Rightarrow> initialize_missing env (inp name) name c t None)))"

fun op_collect :: "('a \<Rightarrow> 'b svc) \<Rightarrow> 'a list \<Rightarrow> 'b list svc" where
  "op_collect f [] = op_return []"
| "op_collect f (x # xs) = op_bind (f x) (\<lambda>y. op_bind (op_collect f xs) (\<lambda>ys. op_return (y # ys)))"

definition initialize_schedules :: "service_env \<Rightarrow> (string \<Rightarrow> occurrence_input) \<Rightarrow> task_record list svc" where
  "initialize_schedules env inp = op_collect (initialize_one env inp) (reg_schedules (sv_registry env))"

definition has_registered_schedules :: "service_env \<Rightarrow> bool" where
  "has_registered_schedules env \<longleftrightarrow> sv_initialize_schedules env \<and> reg_schedules (sv_registry env) \<noteq> []"

section \<open>Reassertion\<close>

record repair_counts =
  rp_examined :: int
  rp_changed :: int
  rp_failed :: int
  rp_unchanged :: int

definition no_repair :: repair_counts where
  "no_repair = \<lparr>rp_examined = 0, rp_changed = 0, rp_failed = 0, rp_unchanged = 0\<rparr>"

definition one_changed :: repair_counts where
  "one_changed = \<lparr>rp_examined = 1, rp_changed = 1, rp_failed = 0, rp_unchanged = 0\<rparr>"

definition one_failed :: repair_counts where
  "one_failed = \<lparr>rp_examined = 1, rp_changed = 0, rp_failed = 1, rp_unchanged = 0\<rparr>"

definition one_unchanged :: repair_counts where
  "one_unchanged = \<lparr>rp_examined = 1, rp_changed = 0, rp_failed = 0, rp_unchanged = 1\<rparr>"

definition dispatch_schedule_occurrence :: "service_env \<Rightarrow> task_record \<Rightarrow> repair_counts svc" where
  "dispatch_schedule_occurrence env r =
     (case get_execution_backend env (Some (execution_backend r)) of
        None \<Rightarrow> op_return no_repair
      | Some b \<Rightarrow>
          if \<not> xb_schedules_on_enqueue b then op_return no_repair
          else op_try (op_bind (xb_schedule b r) (\<lambda>ref. op_return (if ref \<noteq> None then one_changed else one_unchanged)))
                 (\<lambda>e. op_return one_failed))"

text \<open>An occurrence whose delivery exists, or is too far out, is only counted.\<close>

definition counted_unchanged :: "service_env \<Rightarrow> task_record \<Rightarrow> repair_counts" where
  "counted_unchanged env r =
     (case get_execution_backend env (Some (execution_backend r)) of
        None \<Rightarrow> no_repair
      | Some b \<Rightarrow> if xb_schedules_on_enqueue b then one_unchanged else no_repair)"

definition repair_active_occurrence :: "service_env \<Rightarrow> instant \<Rightarrow> task_record \<Rightarrow> repair_counts svc" where
  "repair_active_occurrence env now r =
     (if beyond_scheduling_horizon env now (scheduled_at r) (Some (execution_backend r))
      then op_return (counted_unchanged env r)
      else if execution_ref r \<noteq> None then op_return (counted_unchanged env r)
      else dispatch_schedule_occurrence env r)"

text \<open>The next run of a missing occurrence: after the finish of a terminal one with the same schedule.\<close>

definition next_occurrence ::
    "service_env \<Rightarrow> schedule_config \<Rightarrow> task_record option \<Rightarrow> instant \<Rightarrow> rat \<Rightarrow> instant result" where
  "next_occurrence env c existing now draw =
     (case existing of
        None \<Rightarrow> get_next_run (sv_zones env) c now True draw
      | Some r \<Rightarrow>
          (case completed_at r of
             Some f \<Rightarrow>
               if is_terminal r \<and> has_schedule c r then get_next_run (sv_zones env) c f False draw
               else get_next_run (sv_zones env) c now False draw
           | None \<Rightarrow> get_next_run (sv_zones env) c now False draw))"

text \<open>The first two numbers are the occurrences created and repaired.\<close>

definition reassert_create ::
    "service_env \<Rightarrow> occurrence_input \<Rightarrow> string \<Rightarrow> schedule_config \<Rightarrow> task_object \<Rightarrow> task_record option \<Rightarrow> instant \<Rightarrow>
     (int \<times> int \<times> repair_counts) svc" where
  "reassert_create env x name c t active scheduled =
     (let clk = oi_clock x in
      op_bind (op_lift (metadata_with_schedule_default env t c scheduled (clk 3))) (\<lambda>meta.
      op_bind (cancel_active env (clk 4) active) (\<lambda>_.
      op_bind (op_lift (resolve_expires_at t NoInterval None (Some scheduled) (clk 5))) (\<lambda>deadline.
      op_bind (svc_store (enqueue (occurrence_request env t name scheduled deadline meta) None (oi_fresh x)
          (clk 6) (clk 7) (clk 8))) (\<lambda>r.
      op_bind (dispatch_schedule_occurrence env r) (\<lambda>counts. op_return (1, 0, counts)))))))"

definition reassert_missing ::
    "service_env \<Rightarrow> occurrence_input \<Rightarrow> string \<Rightarrow> schedule_config \<Rightarrow> task_object \<Rightarrow> task_record option \<Rightarrow>
     (int \<times> int \<times> repair_counts) svc" where
  "reassert_missing env x name c t existing =
     (let clk = oi_clock x; active = active_occurrence existing in
      op_bind (op_lift (next_occurrence env c existing (clk 0) (oi_draw x))) (\<lambda>scheduled.
        if beyond_scheduling_horizon env (clk 1) (Some scheduled) (to_execution_backend t)
        then (case existing of
                Some r \<Rightarrow> op_bind (publish_schedule_rejected r) (\<lambda>_. op_return (0, 0, no_repair))
              | None \<Rightarrow>
                  op_bind (op_lift (reject_beyond_scheduling_horizon env (clk 2) (Some scheduled) (to_execution_backend t)))
                    (\<lambda>_. reassert_create env x name c t active scheduled))
        else reassert_create env x name c t active scheduled))"

definition reassert_one ::
    "service_env \<Rightarrow> (string \<Rightarrow> occurrence_input) \<Rightarrow> string \<times> schedule_config \<Rightarrow> (int \<times> int \<times> repair_counts) svc" where
  "reassert_one env inp sched =
     (case sched of (name, c) \<Rightarrow>
        op_bind (op_lift (resolve_task env name)) (\<lambda>t.
        op_bind (svc_read (get_task_by_key (schedule_key name))) (\<lambda>existing.
          case active_occurrence existing of
            Some r \<Rightarrow>
              if has_schedule c r
              then op_bind (repair_active_occurrence env (oi_clock (inp name) 0) r)
                     (\<lambda>counts. op_return (0, rp_changed counts, counts))
              else reassert_missing env (inp name) name c t existing
          | None \<Rightarrow> reassert_missing env (inp name) name c t existing)))"

definition assertion_result :: "bool \<Rightarrow> (int \<times> int \<times> repair_counts) list \<Rightarrow> schedule_assertion_result" where
  "assertion_result limit_reached parts =
     (let examined = sum_list (map (\<lambda>(_, _, p). rp_examined p) parts) in
      \<lparr>sa_created = sum_list (map (\<lambda>(created, _, _). created) parts),
       sa_repaired = sum_list (map (\<lambda>(_, repaired, _). repaired) parts),
       sa_repair =
         (if examined > 0 \<or> limit_reached
          then Some \<lparr>dr_examined = examined, dr_changed = sum_list (map (\<lambda>(_, _, p). rp_changed p) parts),
                 dr_failed = sum_list (map (\<lambda>(_, _, p). rp_failed p) parts),
                 dr_unchanged = sum_list (map (\<lambda>(_, _, p). rp_unchanged p) parts),
                 dr_limit_reached = limit_reached\<rparr>
          else None)\<rparr>)"

definition empty_assertion :: schedule_assertion_result where
  "empty_assertion = \<lparr>sa_created = 0, sa_repaired = 0, sa_repair = None\<rparr>"

definition reassert_schedules ::
    "service_env \<Rightarrow> (string \<Rightarrow> occurrence_input) \<Rightarrow> int option \<Rightarrow> schedule_assertion_result svc" where
  "reassert_schedules env inp limit =
     (let scheds = reg_schedules (sv_registry env) in
      if (case limit of None \<Rightarrow> False | Some l \<Rightarrow> l < 0) then op_raise QueueConfigurationError
      else if \<not> sv_initialize_schedules env then op_return empty_assertion
      else if scheds = [] then op_return empty_assertion
      else if limit = Some 0
      then op_return (empty_assertion\<lparr>sa_repair := Some (empty_dispatch_repair_result\<lparr>dr_limit_reached := True\<rparr>)\<rparr>)
      else
        op_bind (op_collect (reassert_one env inp) (take_limit limit scheds)) (\<lambda>parts.
          op_return (assertion_result (case limit of None \<Rightarrow> False | Some l \<Rightarrow> int (length scheds) > l) parts)))"

section \<open>Replacing an occurrence\<close>

text \<open>An environment whose execution backends all poll the queue and run tasks locally.\<close>

definition local_env :: "service_env \<Rightarrow> bool" where
  "local_env env \<longleftrightarrow> polled env \<and> (\<forall>name b. sv_backends env name = Some b \<longrightarrow> \<not> xb_is_external b)"

lemma local_polled: "local_env env \<Longrightarrow> polled env"
  by (simp add: local_env_def)

lemma durable_cancel_result:
  "\<exists>s' b. durable_cancel i False message now s = (Inr b, s') \<and>
     ss_store s' = snd (cancel_task i False None now (ss_store s))"
  by (auto simp: durable_cancel_def op_simps split: option.split)

lemma local_cancel_result:
  assumes "local_env env"
  shows "\<exists>s' b. svc_cancel_task env i False message external now s = (Inr b, s') \<and>
     ss_store s' = snd (cancel_task i False None now (ss_store s))"
proof -
  have "cancel_external_attempt env r = op_return (cancel_unsupported d)" if "d = (if get_execution_backend env (Some (execution_backend r)) = None then Some ''unknown execution backend'' else None)" for r d
    using assms that
    by (auto simp: cancel_external_attempt_def local_env_def get_execution_backend_def split: option.split)
  then show ?thesis
    using durable_cancel_result [of i message now s]
    by (auto simp: svc_cancel_task_def op_simps permits_durable_cancel_def cancel_unsupported_def split: option.split)
qed

lemma cancel_active_result:
  assumes "local_env env"
  shows "\<exists>s'. cancel_active env now active s = (Inr (), s') \<and>
    ss_store s' = (case active of None \<Rightarrow> ss_store s | Some r \<Rightarrow> snd (cancel_task (rid r) False None now (ss_store s)))"
proof (cases active)
  case (Some r)
  obtain s' b where "svc_cancel_task env (rid r) False None True now s = (Inr b, s')"
      "ss_store s' = snd (cancel_task (rid r) False None now (ss_store s))"
    using local_cancel_result [OF assms] by blast
  then show ?thesis by (auto simp: cancel_active_def Some op_bind_def op_simps)
qed (simp add: cancel_active_def op_simps)

lemma active_occurrence_key: "active_occurrence (get_task_by_key k m) = existing_for_key (Some k) m"
  by (simp add: active_occurrence_def get_task_by_key_def existing_for_key_def split: option.split)

lemma existing_fields:
  assumes "mem_wf m" "existing_for_key (Some k) m = Some q"
  shows "lookup m (rid q) = Some q" "key q = Some k" "\<not> is_terminal q" "get_task_by_key k m = Some q"
proof -
  show "lookup m (rid q) = Some q" by (rule existing_lookup [OF assms])
  show "key q = Some k"
    using assms(2) by (auto simp: existing_for_key_def dest: keys_consistentD(1) [OF mem_wfD(4) [OF assms(1)]]
        split: option.splits if_splits)
  show "\<not> is_terminal q" "get_task_by_key k m = Some q"
    using assms(2) by (auto simp: existing_for_key_def get_task_by_key_def split: option.splits if_splits)
qed

definition cancelled_store :: "instant \<Rightarrow> task_record option \<Rightarrow> mem_state \<Rightarrow> mem_state" where
  "cancelled_store now active m =
     (case active of None \<Rightarrow> m | Some r \<Rightarrow> snd (cancel_task (rid r) False None now m))"

lemma cancelled_store_facts:
  assumes wf: "mem_wf m" and active: "active = existing_for_key (Some k) m"
  shows "mem_wf (cancelled_store now active m)"
    and "\<And>i. lookup m i = None \<Longrightarrow> lookup (cancelled_store now active m) i = None"
    and "\<And>k'. k' \<noteq> k \<Longrightarrow> get_task_by_key k' (cancelled_store now active m) = get_task_by_key k' m"
    and "existing_for_key (Some k) (cancelled_store now active m) =
      (case active of Some q \<Rightarrow> if status q = Running then Some q else None | None \<Rightarrow> None)"
    and "\<And>q. active = Some q \<Longrightarrow> status q = Running \<Longrightarrow> cancelled_store now active m = m"
proof -
  have effect: "cancelled_store now (Some q) m = (if is_waiting q
      then m\<lparr>mem_records := dict_set (rid q) (cancel_record now q) (mem_records m)\<rparr> else m)"
    if "active = Some q" for q
  proof -
    have "lookup m (rid q) = Some q" using existing_fields(1) [OF wf, of k q] active that by simp
    then show ?thesis by (simp add: cancelled_store_def cancel_task_def modify_if_def cancellable_def)
  qed
  have step: "cancelled_store now active m = (case active of None \<Rightarrow> m
      | Some q \<Rightarrow> mem_step (OpCancel (rid q) False None now) m)"
    by (simp add: cancelled_store_def split: option.split)
  show "mem_wf (cancelled_store now active m)"
    unfolding step using mem_step_wf [OF wf, of "OpCancel i False None now" for i]
    by (auto simp: wf op_ok_def op_disciplined_def op_new_ids_def split: option.split)
  show "lookup (cancelled_store now active m) i = None" if "lookup m i = None" for i
  proof (cases active)
    case (Some q)
    have "i \<noteq> rid q" using existing_fields(1) [OF wf, of k q] active Some that by auto
    then show ?thesis by (simp add: effect [OF Some] Some that dict_simps)
  qed (simp add: cancelled_store_def that)
  show "get_task_by_key k' (cancelled_store now active m) = get_task_by_key k' m" if "k' \<noteq> k" for k'
  proof (cases active)
    case (Some q)
    then have q: "key q = Some k" "lookup m (rid q) = Some q" using existing_fields [OF wf, of k q] active by auto
    have "i \<noteq> rid q" if "dict_get (mem_keys m) k' = Some i" for i
      using keys_consistentD(1) [OF mem_wfD(4) [OF wf] that] q \<open>k' \<noteq> k\<close> by auto
    then show ?thesis using effect [OF Some] by (auto simp: Some get_task_by_key_def dict_simps split: option.split)
  qed (simp add: cancelled_store_def)
  show "existing_for_key (Some k) (cancelled_store now active m) =
      (case active of Some q \<Rightarrow> if status q = Running then Some q else None | None \<Rightarrow> None)"
  proof (cases active)
    case (Some q)
    note F = existing_fields [OF wf, of k q]
    have key: "dict_get (mem_keys m) k = Some (rid q)"
      using keys_consistentD(2) [OF mem_wfD(4) [OF wf] F(1) F(3) F(2)] active Some by simp
    show ?thesis
    proof (cases "is_waiting q")
      case True
      then have "status q \<noteq> Running" by (auto simp: is_waiting_def)
      moreover have "existing_for_key (Some k) (m\<lparr>mem_records := dict_set (rid q) (cancel_record now q) (mem_records m)\<rparr>) = None"
        using key by (simp add: existing_for_key_def dict_simps is_terminal_simp cancel_record_def)
      ultimately show ?thesis using effect [OF Some] True by (simp add: Some)
    next
      case False
      then have "status q = Running" using F(3) active Some status_partition [of q] by auto
      moreover have "existing_for_key (Some k) m = Some q" using active Some by simp
      ultimately show ?thesis using effect [OF Some] False by (simp add: Some)
    qed
  qed (use active in \<open>simp add: cancelled_store_def\<close>)
  show "cancelled_store now active m = m" if "active = Some q" "status q = Running" for q
    using effect [OF that(1)] that by (simp add: is_waiting_def)
qed

text \<open>What handling one schedule does to the store.\<close>

definition scheduled_in :: "string \<times> schedule_config \<Rightarrow> mem_state \<Rightarrow> bool" where
  "scheduled_in x m \<longleftrightarrow>
     (\<exists>r. get_task_by_key (schedule_key (fst x)) m = Some r \<and> \<not> is_terminal r \<and> has_schedule (snd x) r)"

definition covered :: "string \<times> schedule_config \<Rightarrow> task_record option \<Rightarrow> task_record option \<Rightarrow> bool" where
  "covered x before after \<longleftrightarrow>
     (\<exists>r. after = Some r \<and> \<not> is_terminal r \<and> (has_schedule (snd x) r \<or> status r = Running \<and> before = Some r))"

definition occurrence_step :: "string \<times> schedule_config \<Rightarrow> uuid \<Rightarrow> mem_state \<Rightarrow> mem_state \<Rightarrow> bool" where
  "occurrence_step x fresh m m' \<longleftrightarrow>
     mem_wf m' \<and> (\<forall>k. k \<noteq> schedule_key (fst x) \<longrightarrow> get_task_by_key k m' = get_task_by_key k m) \<and>
     (\<forall>i. i \<noteq> fresh \<and> lookup m i = None \<longrightarrow> lookup m' i = None) \<and>
     covered x (get_task_by_key (schedule_key (fst x)) m) (get_task_by_key (schedule_key (fst x)) m')"

lemma occurrence_replaced:
  assumes wf: "mem_wf m" and new: "lookup m fresh = None" and req: "req_key req = Some (schedule_key name)"
    and sched: "\<And>st now. has_schedule c (new_record req fresh st now)"
    and active: "active = existing_for_key (Some (schedule_key name)) m"
  shows "occurrence_step (name, c) fresh m (snd (enqueue req None fresh t1 t2 t3 (cancelled_store now active m)))"
proof -
  note C = cancelled_store_facts [where now = now, OF wf active]
  let ?m = "cancelled_store now active m"
  have new': "lookup ?m fresh = None" by (rule C(2) [OF new])
  show ?thesis
  proof (cases "existing_for_key (Some (schedule_key name)) ?m")
    case None
    then have free: "existing_for_key (req_key req) ?m = None" by (simp add: req)
    note E = enqueue_new [OF free]
    have "mem_wf (snd (enqueue req None fresh t1 t2 t3 ?m))"
      by (rule enqueue_wf [OF C(1)]) (simp add: new_id_def new')
    moreover have "get_task_by_key k (snd (enqueue req None fresh t1 t2 t3 ?m)) = get_task_by_key k m"
      if "k \<noteq> schedule_key name" for k
    proof -
      have "get_task_by_key k (snd (enqueue req None fresh t1 t2 t3 ?m)) = get_task_by_key k ?m"
        using that new' keys_consistentD(1) [OF mem_wfD(4) [OF C(1)], of k]
        by (auto simp: get_task_by_key_def E req split: option.split)
      with C(3) [OF that] show ?thesis by simp
    qed
    moreover have "lookup (snd (enqueue req None fresh t1 t2 t3 ?m)) i = None" if "i \<noteq> fresh" "lookup m i = None" for i
      using C(2) [OF that(2)] that(1) by (simp add: E)
    moreover have "get_task_by_key (schedule_key name) (snd (enqueue req None fresh t1 t2 t3 ?m)) =
        Some (new_record req fresh (initial_status t2 req) t1)"
      by (simp add: get_task_by_key_def E req)
    moreover have "\<not> is_terminal (new_record req fresh (initial_status t2 req) t1)"
      using initial_status_waiting [of t2 req] by (auto simp: new_record_def is_terminal_simp)
    ultimately show ?thesis using sched by (simp add: occurrence_step_def covered_def)
  next
    case (Some q)
    with C(4) have q: "active = Some q" "status q = Running" by (auto split: option.splits if_splits)
    have e: "existing_for_key (Some (schedule_key name)) m = Some q" using q(1) active by simp
    have "snd (enqueue req None fresh t1 t2 t3 ?m) = m"
      using Some enqueue_existing [of req ?m q] C(5) [OF q] by (simp add: req)
    with wf existing_fields(3,4) [OF wf e] q(2) show ?thesis
      by (simp add: occurrence_step_def covered_def)
  qed
qed

lemma occurrence_kept:
  assumes "mem_wf m" "scheduled_in x m"
  shows "occurrence_step x fresh m m"
  using assms by (auto simp: occurrence_step_def covered_def scheduled_in_def)

lemma schedule_key_inj: "schedule_key a = schedule_key b \<longleftrightarrow> a = b"
  by (simp add: schedule_key_def)

text \<open>A loop over schedules with different names handles each on the state it finds at the start.\<close>

lemma collect_steps:
  fixes f :: "string \<times> schedule_config \<Rightarrow> 'b svc"
  assumes step: "\<And>x s. x \<in> set xs \<Longrightarrow> mem_wf (ss_store s) \<Longrightarrow> lookup (ss_store s) (fresh x) = None \<Longrightarrow>
      \<exists>y s'. f x s = (Inr y, s') \<and> occurrence_step x (fresh x) (ss_store s) (ss_store s') \<and>
        (scheduled_in x (ss_store s) \<longrightarrow> s' = s) \<and> good x (get_task_by_key (schedule_key (fst x)) (ss_store s)) y"
    and names: "distinct (map fst xs)" and fresh: "distinct (map fresh xs)"
    and wf: "mem_wf (ss_store s)" and new: "\<And>x. x \<in> set xs \<Longrightarrow> lookup (ss_store s) (fresh x) = None"
  shows "\<exists>ys s'. op_collect f xs s = (Inr ys, s') \<and> mem_wf (ss_store s') \<and>
    list_all2 (\<lambda>x y. good x (get_task_by_key (schedule_key (fst x)) (ss_store s)) y) xs ys \<and>
    (\<forall>x \<in> set xs. covered x (get_task_by_key (schedule_key (fst x)) (ss_store s))
       (get_task_by_key (schedule_key (fst x)) (ss_store s'))) \<and>
    (\<forall>k. k \<notin> schedule_key ` fst ` set xs \<longrightarrow> get_task_by_key k (ss_store s') = get_task_by_key k (ss_store s)) \<and>
    ((\<forall>x \<in> set xs. scheduled_in x (ss_store s)) \<longrightarrow> s' = s)"
  using step names fresh wf new
proof (induction xs arbitrary: s)
  case Nil
  then show ?case by (simp add: op_simps)
next
  case (Cons x xs)
  obtain y s1 where y: "f x s = (Inr y, s1)" "occurrence_step x (fresh x) (ss_store s) (ss_store s1)"
      "scheduled_in x (ss_store s) \<longrightarrow> s1 = s" "good x (get_task_by_key (schedule_key (fst x)) (ss_store s)) y"
    using Cons.prems(1) [of x s] Cons.prems(4,5) by auto
  have other: "get_task_by_key (schedule_key (fst z)) (ss_store s1) = get_task_by_key (schedule_key (fst z)) (ss_store s)"
    if "z \<in> set xs" for z
  proof -
    have "fst z \<noteq> fst x" using Cons.prems(2) that by (auto simp: image_iff)
    then show ?thesis using y(2) by (simp add: occurrence_step_def schedule_key_inj)
  qed
  have wf1: "mem_wf (ss_store s1)" using y(2) by (simp add: occurrence_step_def)
  have s1: "lookup (ss_store s1) (fresh z) = None" if "z \<in> set xs" for z
  proof -
    have "fresh z \<noteq> fresh x" using Cons.prems(3) that by (auto simp: image_iff)
    then show ?thesis using y(2) Cons.prems(5) [of z] that by (simp add: occurrence_step_def)
  qed
  obtain ys s' where ys: "op_collect f xs s1 = (Inr ys, s')" "mem_wf (ss_store s')"
      "list_all2 (\<lambda>x y. good x (get_task_by_key (schedule_key (fst x)) (ss_store s1)) y) xs ys"
      "\<forall>x \<in> set xs. covered x (get_task_by_key (schedule_key (fst x)) (ss_store s1))
         (get_task_by_key (schedule_key (fst x)) (ss_store s'))"
      "\<forall>k. k \<notin> schedule_key ` fst ` set xs \<longrightarrow> get_task_by_key k (ss_store s') = get_task_by_key k (ss_store s1)"
      "(\<forall>x \<in> set xs. scheduled_in x (ss_store s1)) \<longrightarrow> s' = s1"
    using Cons.IH [of s1] Cons.prems(1-3) s1 wf1 by auto
  have "op_collect f (x # xs) s = (Inr (y # ys), s')" using y(1) ys(1) by (simp add: op_bind_def op_simps)
  moreover have "list_all2 (\<lambda>x y. good x (get_task_by_key (schedule_key (fst x)) (ss_store s)) y) (x # xs) (y # ys)"
  proof -
    have "list_all2 (\<lambda>x y. good x (get_task_by_key (schedule_key (fst x)) (ss_store s)) y) xs ys"
      using ys(3) by (rule list.rel_mono_strong) (simp add: other)
    with y(4) show ?thesis by simp
  qed
  moreover have "get_task_by_key (schedule_key (fst x)) (ss_store s') = get_task_by_key (schedule_key (fst x)) (ss_store s1)"
  proof -
    have "schedule_key (fst x) \<notin> schedule_key ` fst ` set xs"
    proof
      assume "schedule_key (fst x) \<in> schedule_key ` fst ` set xs"
      then obtain n where "n \<in> fst ` set xs" "schedule_key (fst x) = schedule_key n" by blast
      with Cons.prems(2) show False by (simp add: schedule_key_inj)
    qed
    with ys(5) show ?thesis by blast
  qed
  with y(2) have "covered x (get_task_by_key (schedule_key (fst x)) (ss_store s)) (get_task_by_key (schedule_key (fst x)) (ss_store s'))"
    by (simp add: occurrence_step_def)
  moreover have "covered z (get_task_by_key (schedule_key (fst z)) (ss_store s)) (get_task_by_key (schedule_key (fst z)) (ss_store s'))"
    if "z \<in> set xs" for z
    using ys(4) other [OF that] that by auto
  moreover have "get_task_by_key k (ss_store s') = get_task_by_key k (ss_store s)"
    if "k \<notin> schedule_key ` fst ` set (x # xs)" for k
    using ys(5) y(2) that by (simp add: occurrence_step_def)
  moreover have "s' = s" if "\<forall>z \<in> set (x # xs). scheduled_in z (ss_store s)"
    using ys(6) y(3) that by simp
  ultimately show ?case using ys(2) by (intro exI [of _ "y # ys"] exI [of _ s']) simp
qed

section \<open>Startup and reassertion are exact\<close>

text \<open>What startup computes before it writes: the request of a missing occurrence.\<close>

definition initial_request ::
    "service_env \<Rightarrow> occurrence_input \<Rightarrow> string \<times> schedule_config \<Rightarrow> task_request result" where
  "initial_request env x sched =
     (case sched of (name, c) \<Rightarrow>
       bind_result (resolve_task env name) (\<lambda>t.
       bind_result (get_next_run (sv_zones env) c (oi_clock x 0) True (oi_draw x)) (\<lambda>scheduled.
       bind_result (metadata_with_schedule_default env t c scheduled (oi_clock x 2)) (\<lambda>meta.
       bind_result (resolve_expires_at t NoInterval None (Some scheduled) (oi_clock x 4)) (\<lambda>deadline.
         Inr (occurrence_request env t name scheduled deadline meta))))))"

lemma flat_metadata_eq: "py_eq (PDict (schedule_as_metadata c)) (PDict (schedule_as_metadata c))"
  by (simp add: schedule_as_metadata_def split: option.split)

lemma set_if_other [simp]: "k \<noteq> k' \<Longrightarrow> dict_get (set_if k v d) k' = dict_get d k'"
  by (simp add: set_if_def dict_simps split: option.split)

lemma metadata_schedule:
  assumes "metadata_with_schedule_default env t c scheduled now = Inr d"
  shows "dict_get d ''schedule'' = Some (PDict (schedule_as_metadata c))"
proof -
  let ?base = "apply_log_success_default env (task_metadata (Some [(''schedule'', PDict (schedule_as_metadata c))]) t)"
  have "dict_get ?base ''schedule'' = Some (PDict (schedule_as_metadata c))"
    by (simp add: apply_log_success_default_def dict_simps task_metadata_def dict_update_def)
  moreover have "dict_get d ''schedule'' = dict_get ?base ''schedule''"
    using assms by (auto simp: metadata_with_schedule_default_def cloud_tasks_timeout_def bind_result_eq_Inr split: if_splits)
  ultimately show ?thesis by simp
qed

lemma occurrence_request_record:
  assumes "metadata_with_schedule_default env t c scheduled now' = Inr d"
  shows "has_schedule c (new_record (occurrence_request env t name scheduled deadline d) i st now)"
    "req_key (occurrence_request env t name scheduled deadline d) = Some (schedule_key name)"
  using metadata_schedule [OF assms] flat_metadata_eq
  by (simp_all add: has_schedule_def new_record_def occurrence_request_def get_or_none_def)

lemma scheduled_in_existing:
  "scheduled_in x m \<longleftrightarrow> (\<exists>r. existing_for_key (Some (schedule_key (fst x))) m = Some r \<and> has_schedule (snd x) r)"
  by (auto simp: scheduled_in_def active_occurrence_key [symmetric] active_occurrence_def split: option.split)

lemma initialize_one_step:
  assumes env: "local_env env" and wf: "mem_wf (ss_store s)" and new: "lookup (ss_store s) (oi_fresh (inp (fst x))) = None"
    and ready: "initial_request env (inp (fst x)) x = Inr req"
  shows "\<exists>r s'. initialize_one env inp x s = (Inr r, s') \<and>
    occurrence_step x (oi_fresh (inp (fst x))) (ss_store s) (ss_store s') \<and> (scheduled_in x (ss_store s) \<longrightarrow> s' = s)"
proof -
  obtain name c where x: "x = (name, c)" by fastforce
  let ?key = "schedule_key name" let ?i = "inp name"
  obtain t u d e where R: "resolve_task env name = Inr t"
      "get_next_run (sv_zones env) c (oi_clock ?i 0) True (oi_draw ?i) = Inr u"
      "metadata_with_schedule_default env t c u (oi_clock ?i 2) = Inr d"
      "resolve_expires_at t NoInterval None (Some u) (oi_clock ?i 4) = Inr e"
    using ready by (auto simp: x initial_request_def bind_result_eq_Inr)
  note P = local_polled [OF env]
  let ?active = "existing_for_key (Some ?key) (ss_store s)"
  show ?thesis
  proof (cases "scheduled_in x (ss_store s)")
    case True
    then obtain r where r: "?active = Some r" "has_schedule c r" by (auto simp: x scheduled_in_existing)
    have "initialize_one env inp x s = (Inr r, s)"
      by (simp add: x initialize_one_def op_simps R(1) active_occurrence_key r polled_persisted [OF P])
    with occurrence_kept [OF wf True] show ?thesis by blast
  next
    case False
    then have "\<not> has_schedule c r" if "?active = Some r" for r using that by (simp add: x scheduled_in_existing)
    then have "initialize_one env inp x s = initialize_missing env ?i name c t ?active s"
      by (auto simp: x initialize_one_def op_simps R(1) active_occurrence_key split: option.split)
    moreover obtain s1 where s1: "cancel_active env (oi_clock ?i 3) ?active s = (Inr (), s1)"
        "ss_store s1 = cancelled_store (oi_clock ?i 3) ?active (ss_store s)"
      using cancel_active_result [OF env] by (metis cancelled_store_def)
    let ?req = "occurrence_request env t name u e d"
    have "\<exists>r s'. initialize_missing env ?i name c t ?active s = (Inr r, s') \<and>
        ss_store s' = snd (enqueue ?req None (oi_fresh ?i) (oi_clock ?i 5) (oi_clock ?i 6) (oi_clock ?i 7) (ss_store s1))"
      by (simp add: initialize_missing_def Let_def R(2-4) op_basic polled_horizon [OF P]
          op_bind_simps(2) [where m = "cancel_active env (oi_clock ?i 3) ?active", OF s1(1)]
          persist_scheduled_record_def polled_persisted [OF P] op_simps)
    moreover have "occurrence_step (name, c) (oi_fresh ?i) (ss_store s)
        (snd (enqueue ?req None (oi_fresh ?i) (oi_clock ?i 5) (oi_clock ?i 6) (oi_clock ?i 7) (ss_store s1)))"
      unfolding s1(2) by (rule occurrence_replaced [OF wf _ occurrence_request_record(2) occurrence_request_record(1) refl])
        (use new R(3) x in simp_all)
    ultimately show ?thesis using False by (auto simp: x)
  qed
qed

text \<open>Property C17: startup gives every registered schedule exactly one active occurrence carrying that schedule
  (one that is still running under an older schedule is left to finish); tasks of other keys are
  untouched, and a startup that finds every occurrence in place changes nothing.\<close>

theorem schedules_initialized:
  assumes env: "local_env env" and reg: "scheds = reg_schedules (sv_registry env)"
    and names: "distinct (map fst scheds)" "distinct (map (\<lambda>x. oi_fresh (inp (fst x))) scheds)"
    and wf: "mem_wf (ss_store s)" and new: "\<And>x. x \<in> set scheds \<Longrightarrow> lookup (ss_store s) (oi_fresh (inp (fst x))) = None"
    and ready: "\<And>x. x \<in> set scheds \<Longrightarrow> \<exists>req. initial_request env (inp (fst x)) x = Inr req"
  shows "\<exists>rs s'. initialize_schedules env inp s = (Inr rs, s') \<and> mem_wf (ss_store s') \<and> length rs = length scheds \<and>
    (\<forall>x \<in> set scheds. covered x (get_task_by_key (schedule_key (fst x)) (ss_store s))
       (get_task_by_key (schedule_key (fst x)) (ss_store s'))) \<and>
    (\<forall>k. k \<notin> schedule_key ` fst ` set scheds \<longrightarrow> get_task_by_key k (ss_store s') = get_task_by_key k (ss_store s)) \<and>
    ((\<forall>x \<in> set scheds. scheduled_in x (ss_store s)) \<longrightarrow> s' = s)"
proof -
  let ?fresh = "\<lambda>x :: string \<times> schedule_config. oi_fresh (inp (fst x))"
  have "\<exists>y s'. initialize_one env inp x s = (Inr y, s') \<and> occurrence_step x (?fresh x) (ss_store s) (ss_store s') \<and>
      (scheduled_in x (ss_store s) \<longrightarrow> s' = s) \<and> True"
    if "x \<in> set scheds" "mem_wf (ss_store s)" "lookup (ss_store s) (?fresh x) = None" for x s
    using initialize_one_step [where inp = inp and x = x, OF env that(2,3)] ready [OF that(1)] by blast
  from collect_steps [where good = "\<lambda>_ _ _. True" and fresh = ?fresh and f = "initialize_one env inp", OF this names wf new]
  obtain rs s' where R: "op_collect (initialize_one env inp) scheds s = (Inr rs, s')" "mem_wf (ss_store s')"
      "list_all2 (\<lambda>x y. True) scheds rs"
      "\<forall>x \<in> set scheds. covered x (get_task_by_key (schedule_key (fst x)) (ss_store s))
         (get_task_by_key (schedule_key (fst x)) (ss_store s'))"
      "\<forall>k. k \<notin> schedule_key ` fst ` set scheds \<longrightarrow> get_task_by_key k (ss_store s') = get_task_by_key k (ss_store s)"
      "(\<forall>x \<in> set scheds. scheduled_in x (ss_store s)) \<longrightarrow> s' = s"
    by blast
  then show ?thesis by (auto simp: initialize_schedules_def reg [symmetric] list_all2_conv_all_nth)
qed

text \<open>What one reassertion computes before it writes, given the occurrence it finds.\<close>

definition reassert_request ::
    "service_env \<Rightarrow> occurrence_input \<Rightarrow> string \<times> schedule_config \<Rightarrow> task_record option \<Rightarrow> task_request result" where
  "reassert_request env x sched existing =
     (case sched of (name, c) \<Rightarrow>
       bind_result (resolve_task env name) (\<lambda>t.
       bind_result (next_occurrence env c existing (oi_clock x 0) (oi_draw x)) (\<lambda>scheduled.
       bind_result (metadata_with_schedule_default env t c scheduled (oi_clock x 3)) (\<lambda>meta.
       bind_result (resolve_expires_at t NoInterval None (Some scheduled) (oi_clock x 5)) (\<lambda>deadline.
         Inr (occurrence_request env t name scheduled deadline meta))))))"

definition missing_occurrence :: "string \<times> schedule_config \<Rightarrow> task_record option \<Rightarrow> bool" where
  "missing_occurrence x existing \<longleftrightarrow> \<not> (\<exists>r. active_occurrence existing = Some r \<and> has_schedule (snd x) r)"

definition reassert_outcome :: "string \<times> schedule_config \<Rightarrow> task_record option \<Rightarrow> int \<times> int \<times> repair_counts" where
  "reassert_outcome x existing = (if missing_occurrence x existing then 1 else 0, 0, no_repair)"

lemma polled_dispatch: "polled env \<Longrightarrow> dispatch_schedule_occurrence env r = op_return no_repair"
  by (auto simp: polled_def dispatch_schedule_occurrence_def get_execution_backend_def split: option.split)

lemma polled_repair: "polled env \<Longrightarrow> repair_active_occurrence env now r = op_return no_repair"
  by (auto simp: polled_dispatch repair_active_occurrence_def counted_unchanged_def polled_def get_execution_backend_def
      split: option.split)

lemma missing_scheduled: "missing_occurrence x (get_task_by_key (schedule_key (fst x)) m) \<longleftrightarrow> \<not> scheduled_in x m"
  by (simp add: missing_occurrence_def scheduled_in_existing active_occurrence_key)

lemma reassert_one_step:
  assumes env: "local_env env" and wf: "mem_wf (ss_store s)" and new: "lookup (ss_store s) (oi_fresh (inp (fst x))) = None"
    and ready: "\<And>existing. \<exists>req. reassert_request env (inp (fst x)) x existing = Inr req"
  shows "\<exists>s'. reassert_one env inp x s =
      (Inr (reassert_outcome x (get_task_by_key (schedule_key (fst x)) (ss_store s))), s') \<and>
    occurrence_step x (oi_fresh (inp (fst x))) (ss_store s) (ss_store s') \<and> (scheduled_in x (ss_store s) \<longrightarrow> s' = s)"
proof -
  obtain name c where x: "x = (name, c)" by fastforce
  let ?key = "schedule_key name" let ?i = "inp name" let ?existing = "get_task_by_key (schedule_key name) (ss_store s)"
  obtain t u d e where R: "resolve_task env name = Inr t"
      "next_occurrence env c ?existing (oi_clock ?i 0) (oi_draw ?i) = Inr u"
      "metadata_with_schedule_default env t c u (oi_clock ?i 3) = Inr d"
      "resolve_expires_at t NoInterval None (Some u) (oi_clock ?i 5) = Inr e"
    using ready [of ?existing] by (auto simp: x reassert_request_def bind_result_eq_Inr)
  note P = local_polled [OF env]
  let ?active = "existing_for_key (Some ?key) (ss_store s)"
  note M = missing_scheduled [of x "ss_store s", unfolded x fst_conv]
  show ?thesis
  proof (cases "scheduled_in x (ss_store s)")
    case True
    then obtain r where r: "?active = Some r" "has_schedule c r" by (auto simp: x scheduled_in_existing)
    have "reassert_one env inp x s = (Inr (0, 0, no_repair), s)"
      by (simp add: x reassert_one_def op_simps R(1) active_occurrence_key r polled_repair [OF P])
        (simp add: no_repair_def)
    with occurrence_kept [OF wf True] M True show ?thesis by (auto simp: x reassert_outcome_def)
  next
    case False
    then have "\<not> has_schedule c r" if "?active = Some r" for r using that by (simp add: x scheduled_in_existing)
    then have "reassert_one env inp x s = reassert_missing env ?i name c t ?existing s"
      by (auto simp: x reassert_one_def op_simps R(1) active_occurrence_key split: option.split)
    moreover have "reassert_missing env ?i name c t ?existing s = reassert_create env ?i name c t ?active u s"
      by (simp add: reassert_missing_def Let_def R(2) op_basic op_bind_basic polled_horizon [OF P] active_occurrence_key)
    moreover obtain s1 where s1: "cancel_active env (oi_clock ?i 4) ?active s = (Inr (), s1)"
        "ss_store s1 = cancelled_store (oi_clock ?i 4) ?active (ss_store s)"
      using cancel_active_result [OF env] by (metis cancelled_store_def)
    let ?req = "occurrence_request env t name u e d"
    have "\<exists>s'. reassert_create env ?i name c t ?active u s = (Inr (1, 0, no_repair), s') \<and>
        ss_store s' = snd (enqueue ?req None (oi_fresh ?i) (oi_clock ?i 6) (oi_clock ?i 7) (oi_clock ?i 8) (ss_store s1))"
      by (simp add: reassert_create_def Let_def R(3,4) op_basic polled_dispatch [OF P]
          op_bind_simps(2) [where m = "cancel_active env (oi_clock ?i 4) ?active", OF s1(1)] op_simps)
    moreover have "occurrence_step (name, c) (oi_fresh ?i) (ss_store s)
        (snd (enqueue ?req None (oi_fresh ?i) (oi_clock ?i 6) (oi_clock ?i 7) (oi_clock ?i 8) (ss_store s1)))"
      unfolding s1(2) by (rule occurrence_replaced [OF wf _ occurrence_request_record(2) occurrence_request_record(1) refl])
        (use new R(3) x in simp_all)
    ultimately show ?thesis using False M by (auto simp: x reassert_outcome_def)
  qed
qed

lemma sum_created:
  "list_all2 (\<lambda>x y. y = reassert_outcome x (before x)) xs ys \<Longrightarrow>
   sum_list (map (\<lambda>(created, _, _). created) ys) = int (length (filter (\<lambda>x. missing_occurrence x (before x)) xs)) \<and>
   sum_list (map (\<lambda>(_, repaired, _). repaired) ys) = 0 \<and>
   map (\<lambda>(_, _, p). p) ys = replicate (length xs) no_repair"
  by (induction xs ys rule: list_all2_induct) (auto simp: reassert_outcome_def)

lemma no_repair_sums:
  "rp_examined no_repair = 0" "rp_changed no_repair = 0" "rp_failed no_repair = 0" "rp_unchanged no_repair = 0"
  by (simp_all add: no_repair_def)

text \<open>Property C18: reassertion looks at the first schedules up to its limit and leaves each of them covered:
  with an active occurrence of the schedule, or with the running occurrence of an outdated schedule that
  was there before and is kept. It counts as created the selected schedules that had no active occurrence of
  their present schedule; a running outdated occurrence is counted so although nothing is created for
  it. It says whether the limit cut the registry short, leaves every other key alone and does nothing when
  each selected schedule has its occurrence. A negative limit is refused before anything is read.\<close>

theorem reassert_creates_missing:
  assumes env: "local_env env" "sv_initialize_schedules env" and reg: "scheds = reg_schedules (sv_registry env)"
    and names: "distinct (map fst scheds)" "distinct (map (\<lambda>x. oi_fresh (inp (fst x))) scheds)"
    and wf: "mem_wf (ss_store s)" and new: "\<And>x. x \<in> set scheds \<Longrightarrow> lookup (ss_store s) (oi_fresh (inp (fst x))) = None"
    and ready: "\<And>x existing. x \<in> set scheds \<Longrightarrow> \<exists>req. reassert_request env (inp (fst x)) x existing = Inr req"
  shows "if \<exists>l. limit = Some l \<and> l < 0
    then reassert_schedules env inp limit s = (Inl QueueConfigurationError, s)
    else \<exists>s'. reassert_schedules env inp limit s =
        (Inr \<lparr>sa_created = int (length (filter (\<lambda>x. \<not> scheduled_in x (ss_store s)) (take_limit limit scheds))),
           sa_repaired = 0,
           sa_repair = (if \<exists>l. limit = Some l \<and> l < int (length scheds)
             then Some (empty_dispatch_repair_result\<lparr>dr_limit_reached := True\<rparr>) else None)\<rparr>, s') \<and>
      (\<forall>x \<in> set (take_limit limit scheds). covered x (get_task_by_key (schedule_key (fst x)) (ss_store s))
         (get_task_by_key (schedule_key (fst x)) (ss_store s'))) \<and>
      (\<forall>k. k \<notin> schedule_key ` fst ` set (take_limit limit scheds) \<longrightarrow>
         get_task_by_key k (ss_store s') = get_task_by_key k (ss_store s)) \<and>
      ((\<forall>x \<in> set (take_limit limit scheds). scheduled_in x (ss_store s)) \<longrightarrow> s' = s)"
proof (cases "\<exists>l. limit = Some l \<and> l < 0")
  case True
  then show ?thesis by (auto simp: reassert_schedules_def op_simps)
next
  case False
  let ?fresh = "\<lambda>x :: string \<times> schedule_config. oi_fresh (inp (fst x))"
  let ?key = "\<lambda>x :: string \<times> schedule_config. schedule_key (fst x)"
  let ?sel = "take_limit limit scheds"
  have part: "\<exists>n. ?sel = take n scheds" using False
    by (cases limit) (auto simp: py_take_def intro: exI [of _ "length scheds"])
  have sel: "set ?sel \<subseteq> set scheds" "distinct (map fst ?sel)" "distinct (map ?fresh ?sel)"
    using part names by (auto simp: take_map [symmetric] dest: in_set_takeD)
  have "\<exists>y s'. reassert_one env inp x s = (Inr y, s') \<and> occurrence_step x (?fresh x) (ss_store s) (ss_store s') \<and>
      (scheduled_in x (ss_store s) \<longrightarrow> s' = s) \<and> y = reassert_outcome x (get_task_by_key (?key x) (ss_store s))"
    if "x \<in> set ?sel" "mem_wf (ss_store s)" "lookup (ss_store s) (?fresh x) = None" for x s
    using reassert_one_step [where inp = inp and x = x, OF env(1) that(2,3) ready] that(1) sel(1) by blast
  note step = this
  have new': "lookup (ss_store s) (?fresh x) = None" if "x \<in> set ?sel" for x using new sel(1) that by blast
  from collect_steps [where good = "\<lambda>x before y. y = reassert_outcome x before" and fresh = ?fresh
      and f = "reassert_one env inp", OF step sel(2,3) wf new']
  obtain ys s' where R: "op_collect (reassert_one env inp) ?sel s = (Inr ys, s')"
      "list_all2 (\<lambda>x y. y = reassert_outcome x (get_task_by_key (?key x) (ss_store s))) ?sel ys"
      "\<forall>x \<in> set ?sel. covered x (get_task_by_key (?key x) (ss_store s)) (get_task_by_key (?key x) (ss_store s'))"
      "\<forall>k. k \<notin> schedule_key ` fst ` set ?sel \<longrightarrow> get_task_by_key k (ss_store s') = get_task_by_key k (ss_store s)"
      "(\<forall>x \<in> set ?sel. scheduled_in x (ss_store s)) \<longrightarrow> s' = s"
    by blast
  note S = sum_created [OF R(2)]
  have sums: "sum_list (map (\<lambda>(_, _, p). g p) ys) = 0" if "g no_repair = 0" for g :: "repair_counts \<Rightarrow> int"
  proof -
    have "map (\<lambda>(_, _, p). g p) ys = map g (map (\<lambda>(_, _, p). p) ys)" by (simp add: case_prod_beta comp_def)
    also have "\<dots> = replicate (length ?sel) 0" using S that by simp
    finally show ?thesis by (simp add: sum_list_replicate)
  qed
  have result: "assertion_result limited ys =
      \<lparr>sa_created = int (length (filter (\<lambda>x. \<not> scheduled_in x (ss_store s)) ?sel)), sa_repaired = 0,
       sa_repair = (if limited then Some (empty_dispatch_repair_result\<lparr>dr_limit_reached := True\<rparr>) else None)\<rparr>"
    for limited
    using S by (simp add: assertion_result_def sums no_repair_sums missing_scheduled empty_dispatch_repair_result_def)
  have "reassert_schedules env inp limit s =
      (Inr (assertion_result (\<exists>l. limit = Some l \<and> l < int (length scheds)) ys), s')"
  proof (cases "scheds = [] \<or> limit = Some 0")
    case True
    then have "?sel = []" using part by (auto simp: py_take_def)
    then have "ys = []" "s' = s" using R(1) by (simp_all add: op_simps)
    with True False env(2) show ?thesis
      by (auto simp: reassert_schedules_def reg [symmetric] op_simps assertion_result_def empty_assertion_def
          empty_dispatch_repair_result_def split: option.split_asm)
  next
    case False
    then show ?thesis
      using \<open>\<not> (\<exists>l. limit = Some l \<and> l < 0)\<close> env(2)
      by (simp add: reassert_schedules_def reg [symmetric] op_bind_simps(2) [where m = "op_collect (reassert_one env inp) ?sel", OF R(1)]
          op_basic split: option.split)
  qed
  with False R(3-5) show ?thesis by (auto simp: result)
qed

section \<open>Witnesses\<close>

definition ex_input :: "string \<Rightarrow> occurrence_input" where
  "ex_input name = \<lparr>oi_clock = (\<lambda>n. 300 + int n), oi_draw = 0, oi_fresh = 5\<rparr>"

lemma ex_local: "local_env ex_env" "sv_initialize_schedules ex_env" "[(''report'', ex_every)] = reg_schedules (sv_registry ex_env)"
  by (simp_all add: local_env_def ex_polled) (simp_all add: ex_env_def base_execution_backend_def)

lemma ex_every_times: "get_next_run zones ex_every t False 0 = Inr (t + 90500000)"
  "get_next_run zones ex_every t True 0 = Inr (t + 1000001)"
  by (simp_all add: get_next_run_def ex_every_def apply_jitter_def)

lemma ex_next: "\<exists>u. next_occurrence ex_env ex_every existing t 0 = Inr u"
  by (auto simp: next_occurrence_def ex_every_times split: option.split)

lemma ex_plain_metadata: "\<exists>d. metadata_with_schedule_default ex_env ex_task c u t = Inr d"
  by (simp add: metadata_with_schedule_default_def cloud_tasks_timeout_def occurrence_backend_def or_text_def ex_task_def)
    (simp add: ex_env_def CLOUD_TASKS_BACKEND_def)

lemma ex_deadline: "\<exists>e. resolve_expires_at ex_task NoInterval None (Some u) t = Inr e"
  by (simp add: resolve_expires_at_def ex_task_def)

lemma ex_resolved: "resolve_task ex_env ''report'' = Inr ex_task"
  by (simp add: resolve_task_def ex_env_def)

lemma ex_initial: "\<exists>req. initial_request ex_env (ex_input ''report'') (''report'', ex_every) = Inr req"
proof -
  obtain d where "metadata_with_schedule_default ex_env ex_task ex_every 1000301 302 = Inr d" using ex_plain_metadata by blast
  moreover obtain e where "resolve_expires_at ex_task NoInterval None (Some 1000301) 304 = Inr e" using ex_deadline by blast
  ultimately show ?thesis by (simp add: initial_request_def ex_resolved ex_input_def ex_every_times)
qed

lemma ex_reassert: "\<exists>req. reassert_request ex_env (ex_input ''report'') (''report'', ex_every) existing = Inr req"
proof -
  obtain u where "next_occurrence ex_env ex_every existing 300 0 = Inr u" using ex_next by blast
  moreover obtain d where "metadata_with_schedule_default ex_env ex_task ex_every u 303 = Inr d" using ex_plain_metadata by blast
  moreover obtain e where "resolve_expires_at ex_task NoInterval None (Some u) 305 = Inr e" using ex_deadline by blast
  ultimately show ?thesis by (simp add: reassert_request_def ex_resolved ex_input_def)
qed

lemma schedules_initialized_witness:
  "\<exists>rs s' r. initialize_schedules ex_env ex_input (ex_svc mem_init) = (Inr rs, s') \<and>
     get_task_by_key (schedule_key ''report'') (ss_store s') = Some r \<and> \<not> is_terminal r \<and> has_schedule ex_every r"
proof -
  have empty: "mem_wf (ss_store (ex_svc mem_init))" "lookup (ss_store (ex_svc mem_init)) i = None"
    "get_task_by_key k (ss_store (ex_svc mem_init)) = None" for i k
    by (simp_all add: ex_svc_def) (simp_all add: mem_init_def get_task_by_key_def)
  have "\<exists>rs s'. initialize_schedules ex_env ex_input (ex_svc mem_init) = (Inr rs, s') \<and> mem_wf (ss_store s') \<and>
      length rs = length [(''report'', ex_every)] \<and>
      (\<forall>x \<in> set [(''report'', ex_every)]. covered x (get_task_by_key (schedule_key (fst x)) (ss_store (ex_svc mem_init)))
         (get_task_by_key (schedule_key (fst x)) (ss_store s'))) \<and>
      (\<forall>k. k \<notin> schedule_key ` fst ` set [(''report'', ex_every)] \<longrightarrow>
         get_task_by_key k (ss_store s') = get_task_by_key k (ss_store (ex_svc mem_init))) \<and>
      ((\<forall>x \<in> set [(''report'', ex_every)]. scheduled_in x (ss_store (ex_svc mem_init))) \<longrightarrow> s' = ex_svc mem_init)"
    by (rule schedules_initialized [OF ex_local(1,3)]) (use ex_initial in \<open>simp_all add: empty\<close>)
  then show ?thesis by (auto simp: covered_def empty)
qed

lemma reassert_creates_missing_witness:
  "\<exists>q s' r. reassert_schedules ex_env ex_input (Some 5) (ex_svc mem_init) = (Inr q, s') \<and> sa_created q = 1 \<and>
     sa_repair q = None \<and> get_task_by_key (schedule_key ''report'') (ss_store s') = Some r \<and> has_schedule ex_every r"
proof -
  have empty: "mem_wf (ss_store (ex_svc mem_init))" "lookup (ss_store (ex_svc mem_init)) i = None"
    "get_task_by_key k (ss_store (ex_svc mem_init)) = None" for i k
    by (simp_all add: ex_svc_def) (simp_all add: mem_init_def get_task_by_key_def)
  have none: "\<not> scheduled_in x (ss_store (ex_svc mem_init))" for x by (simp add: scheduled_in_def empty)
  have sel: "py_take 5 [(''report'', ex_every)] = [(''report'', ex_every)]" by (simp add: py_take_def)
  have names: "distinct (map fst [(''report'', ex_every)])"
    "distinct (map (\<lambda>x. oi_fresh (ex_input (fst x))) [(''report'', ex_every)])" by simp_all
  have ready: "\<exists>req. reassert_request ex_env (ex_input (fst x)) x existing = Inr req"
    if "x \<in> set [(''report'', ex_every)]" for x existing
    using that ex_reassert by auto
  from reassert_creates_missing [OF ex_local names empty(1,2) ready, of "Some 5"]
  show ?thesis by (auto simp: sel none covered_def empty)
qed

end
