(* ===== verification/Service_Sweeps.thy ===== *)
theory Service_Sweeps
  imports Service_Schedules
begin

text \<open>
  The sweeps of the service: batch claims with their expiry events, stale recovery with its events, hooks
  and redispatch, and the repair and reconciliation of external deliveries under one allowance. The
  \<open>on_stale_failure\<close> hooks of tasks and the repair, reconcile and schedule calls of execution
  backends are parameters that may do anything to the state or raise.
\<close>

section \<open>Batch claims\<close>

definition svc_claim_tasks ::
    "service_env \<Rightarrow> int \<Rightarrow> string list \<Rightarrow> string option \<Rightarrow> string option \<Rightarrow> (string \<times> int) list option \<Rightarrow>
     instant \<Rightarrow> task_record list svc" where
  "svc_claim_tasks env limit queues backend worker queue_limits now =
     op_bind (svc_store (claim_many_with_expired limit queues backend queue_limits now)) (\<lambda>(claimed, expired).
     op_bind (op_for_each (publish_expired_event env worker) expired) (\<lambda>_. op_return claimed))"

section \<open>Stale recovery\<close>

type_synonym stale_hooks = "string \<Rightarrow> (task_record \<Rightarrow> unit svc) option"

definition svc_fallible :: "(mem_state \<Rightarrow> 'a result \<times> mem_state) \<Rightarrow> 'a svc" where
  "svc_fallible f s = (let (x, m) = f (ss_store s) in (x, s\<lparr>ss_store := m\<rparr>))"

definition invoke_stale_failure_hook :: "service_env \<Rightarrow> stale_hooks \<Rightarrow> task_record \<Rightarrow> unit svc" where
  "invoke_stale_failure_hook env hooks r =
     (case resolve_task env (task_name r) of
        Inl e \<Rightarrow> op_return ()
      | Inr t \<Rightarrow> (case hooks (task_name r) of None \<Rightarrow> op_return () | Some h \<Rightarrow> h r))"

definition stale_failed_event :: "stale_recovery_result \<Rightarrow> string option \<Rightarrow> task_record \<Rightarrow> service_event" where
  "stale_failed_event res worker r =
     task_event ''task.stale_failed'' r worker (retry_count r + 1)
       (Some (or_text (error r) None ''Task heartbeat stale''))
       (status_payload r @
        [(''max_retries'', PInt (max_retries r)), (''requeue_on_stale'', PBool (requeue_on_stale r)),
         (''handler_needed'', PBool (rid r \<in> set (sr_handler_needed_task_ids res)))])"

definition publish_stale_failed_events ::
    "service_env \<Rightarrow> stale_hooks \<Rightarrow> string option \<Rightarrow> stale_recovery_result \<Rightarrow> unit svc" where
  "publish_stale_failed_events env hooks worker res =
     op_for_each (\<lambda>i.
       op_bind (svc_read (get_task i)) (\<lambda>found.
         case found of
           None \<Rightarrow> op_return ()
         | Some r \<Rightarrow> op_bind (emit (stale_failed_event res worker r)) (\<lambda>_. invoke_stale_failure_hook env hooks r)))
       (sr_failed_task_ids res)"

definition stale_summary_event :: "string option \<Rightarrow> stale_recovery_result \<Rightarrow> service_event" where
  "stale_summary_event worker res =
     \<lparr>se_type = ''worker.stale_recovery'', se_task_id = None, se_worker = worker, se_attempt = None,
      se_message = Some ''Recovered stale running tasks'',
      se_payload = map (\<lambda>(k, n). (k, PInt n)) (stale_recovery_to_payload res)\<rparr>"

text \<open>Redispatch of one requeued record; \<open>clk\<close> is the clock when its turn comes.\<close>

definition redispatch_one :: "service_env \<Rightarrow> (uuid \<Rightarrow> instant) \<Rightarrow> uuid \<Rightarrow> repair_counts svc" where
  "redispatch_one env clk i =
     op_bind (svc_read (get_task i)) (\<lambda>found.
       case found of
         None \<Rightarrow> op_return no_repair
       | Some r \<Rightarrow>
           (case get_execution_backend env (Some (execution_backend r)) of
              None \<Rightarrow> op_return no_repair
            | Some b \<Rightarrow>
                if \<not> xb_schedules_on_enqueue b then op_return no_repair
                else if \<not> is_waiting r \<or>
                        beyond_scheduling_horizon env (clk i) (scheduled_at r) (Some (execution_backend r))
                then op_return one_unchanged
                else op_try (op_bind (xb_schedule b r) (\<lambda>ref. op_return (if ref \<noteq> None then one_changed else one_unchanged)))
                       (\<lambda>e. op_return one_failed)))"

definition redispatch_total :: "repair_counts list \<Rightarrow> dispatch_repair_result option" where
  "redispatch_total parts =
     (let examined = sum_list (map rp_examined parts) in
      if examined = 0 then None
      else Some \<lparr>dr_examined = examined, dr_changed = sum_list (map rp_changed parts),
             dr_failed = sum_list (map rp_failed parts), dr_unchanged = sum_list (map rp_unchanged parts),
             dr_limit_reached = False\<rparr>)"

definition redispatch_requeued_tasks ::
    "service_env \<Rightarrow> (uuid \<Rightarrow> instant) \<Rightarrow> uuid list \<Rightarrow> dispatch_repair_result option svc" where
  "redispatch_requeued_tasks env clk ids =
     op_bind (op_collect (redispatch_one env clk) ids) (\<lambda>parts. op_return (redispatch_total parts))"

definition nothing_recovered :: "stale_recovery_result \<Rightarrow> bool" where
  "nothing_recovered res \<longleftrightarrow>
     sr_requeued res = 0 \<and> sr_failed res = 0 \<and> sr_skipped res = 0 \<and> sr_handler_needed res = 0"

definition recover_stale_tasks ::
    "service_env \<Rightarrow> stale_hooks \<Rightarrow> stale_policy \<Rightarrow> string option \<Rightarrow> int \<Rightarrow> int option \<Rightarrow> bool \<Rightarrow> instant \<Rightarrow>
     (uuid \<Rightarrow> instant) \<Rightarrow> stale_recovery_result svc" where
  "recover_stale_tasks env hooks policy worker stale_after limit redispatch now clk =
     op_bind (svc_fallible (requeue_stale_running (sv_parse_float env) policy stale_after limit now clk)) (\<lambda>res.
     op_bind (if nothing_recovered res then op_return ()
              else op_bind (publish_stale_failed_events env hooks worker res)
                     (\<lambda>_. emit (stale_summary_event worker res))) (\<lambda>_.
       if redispatch \<and> sr_requeued_task_ids res \<noteq> []
       then op_bind (redispatch_requeued_tasks env clk (sr_requeued_task_ids res))
              (\<lambda>repair. op_return (res\<lparr>sr_repair := repair\<rparr>))
       else op_return res))"

section \<open>External reconciliation\<close>

definition reconcile_one :: "service_env \<Rightarrow> task_record \<Rightarrow> int svc" where
  "reconcile_one env r =
     (if execution_ref r = None then op_return 0
      else case get_execution_backend env (Some (execution_backend r)) of
             None \<Rightarrow> op_return 0
           | Some b \<Rightarrow>
               op_bind (xb_reconcile b r) (\<lambda>updated.
                 op_return (case updated of None \<Rightarrow> 0 | Some u \<Rightarrow> if is_terminal u then 1 else 0)))"

definition reconcile_external_records :: "service_env \<Rightarrow> int option \<Rightarrow> int svc" where
  "reconcile_external_records env limit =
     op_bind (svc_read (list_running_external limit)) (\<lambda>rs.
     op_bind (op_collect (reconcile_one env) rs) (\<lambda>ns. op_return (sum_list ns)))"

definition merge_repair :: "dispatch_repair_result \<Rightarrow> dispatch_repair_result \<Rightarrow> dispatch_repair_result" where
  "merge_repair acc part =
     \<lparr>dr_examined = dr_examined acc + dr_examined part, dr_changed = dr_changed acc + dr_changed part,
      dr_failed = dr_failed acc + dr_failed part, dr_unchanged = dr_unchanged acc + dr_unchanged part,
      dr_limit_reached = dr_limit_reached part \<or> dr_limit_reached acc\<rparr>"

fun repair_backends :: "int \<Rightarrow> dispatch_repair_result \<Rightarrow> exec_backend list \<Rightarrow> dispatch_repair_result svc" where
  "repair_backends limit acc [] = op_return acc"
| "repair_backends limit acc (b # bs) =
     (let remaining = max 0 (limit - dr_examined acc) in
      if remaining = 0 then op_return (acc\<lparr>dr_limit_reached := True\<rparr>)
      else op_bind (xb_repair b remaining) (\<lambda>part. repair_backends limit (merge_repair acc part) bs))"

definition execution_backends :: "service_env \<Rightarrow> exec_backend list" where
  "execution_backends env = List.map_filter (sv_backends env) (sv_backend_names env)"

definition reconcile_external_result :: "service_env \<Rightarrow> int \<Rightarrow> external_reconciliation_result svc" where
  "reconcile_external_result env limit =
     (if limit < 0 then op_raise QueueConfigurationError
      else if limit = 0
      then op_return \<lparr>er_repair = empty_dispatch_repair_result\<lparr>dr_limit_reached := True\<rparr>, er_reconciled = 0\<rparr>
      else
        op_bind (repair_backends limit empty_dispatch_repair_result (execution_backends env)) (\<lambda>repair.
          let remaining = max 0 (limit - dr_examined repair) in
          op_bind (if remaining \<noteq> 0 then reconcile_external_records env (Some remaining) else op_return 0)
            (\<lambda>n. op_return \<lparr>er_repair = repair, er_reconciled = n\<rparr>)))"

definition reconcile_external :: "service_env \<Rightarrow> int option \<Rightarrow> int svc" where
  "reconcile_external env limit =
     (case limit of
        None \<Rightarrow> reconcile_external_records env None
      | Some l \<Rightarrow>
          op_bind (reconcile_external_result env l) (\<lambda>res.
            if dr_failed (er_repair res) \<noteq> 0 then op_raise QueueDispatchRepairError
            else op_return (reconciliation_changed res)))"

section \<open>Loops over records\<close>

lemma op_collect_results:
  assumes "op_collect f xs s = (Inr ys, s')" "\<And>x s y s'. x \<in> set xs \<Longrightarrow> f x s = (Inr y, s') \<Longrightarrow> P y"
  shows "length ys = length xs \<and> (\<forall>y \<in> set ys. P y)"
  using assms
proof (induction xs arbitrary: s ys)
  case (Cons x xs)
  from Cons.prems(1) obtain y s1 zs where y: "f x s = (Inr y, s1)" "op_collect f xs s1 = (Inr zs, s')" "ys = y # zs"
    by (auto simp: op_bind_def op_return_def split: prod.splits sum.splits)
  moreover have "length zs = length xs \<and> (\<forall>y \<in> set zs. P y)" by (rule Cons.IH [OF y(2)], rule Cons.prems(2)) simp_all
  ultimately show ?case using Cons.prems(2) [of x s y s1] by simp
qed (simp add: op_simps)

lemma op_collect_total:
  assumes "\<And>x s. x \<in> set xs \<Longrightarrow> \<exists>y s'. f x s = (Inr y, s')"
  shows "\<exists>ys s'. op_collect f xs s = (Inr ys, s')"
  using assms
proof (induction xs arbitrary: s)
  case (Cons x xs)
  obtain y s1 where "f x s = (Inr y, s1)" using Cons.prems [of x s] by auto
  moreover obtain ys s2 where "op_collect f xs s1 = (Inr ys, s2)" using Cons.IH [of s1] Cons.prems by auto
  ultimately show ?case by (simp add: op_simps)
qed (simp add: op_simps)

section \<open>The reconciliation allowance\<close>

lemma reconcile_one_result: "reconcile_one env r s = (Inr n, s') \<Longrightarrow> n = 0 \<or> n = 1"
  by (auto simp: reconcile_one_def op_return_def op_bind_def split: option.splits if_splits prod.splits sum.splits)

lemma sum_bits: "(\<forall>n \<in> set ns. n = 0 \<or> n = 1) \<Longrightarrow> 0 \<le> sum_list ns \<and> sum_list ns \<le> int (length ns)" for ns :: "int list"
  by (induction ns) auto

lemma reconcile_records_bound:
  assumes "reconcile_external_records env (Some limit) s = (Inr n, s')" "0 \<le> limit"
  shows "0 \<le> n \<and> n \<le> limit"
proof -
  let ?rs = "list_running_external (Some limit) (ss_store s)"
  obtain ns where ns: "op_collect (reconcile_one env) ?rs s = (Inr ns, s')" "n = sum_list ns"
    using assms(1) by (auto simp: reconcile_external_records_def op_simps op_bind_def [of "op_collect f xs" for f xs] op_return_def
        split: prod.splits sum.splits)
  have "length ns = length ?rs \<and> (\<forall>n \<in> set ns. n = 0 \<or> n = 1)"
    by (rule op_collect_results [OF ns(1) reconcile_one_result])
  moreover have "int (length ?rs) \<le> limit"
    using assms(2) by (simp add: list_running_external_def py_take_def)
  ultimately show ?thesis using sum_bits [of ns] ns(2) by auto
qed

definition repair_within_limit :: "exec_backend \<Rightarrow> bool" where
  "repair_within_limit b \<longleftrightarrow>
     (\<forall>n s part s'. 0 < n \<longrightarrow> xb_repair b n s = (Inr part, s') \<longrightarrow> 0 \<le> dr_examined part \<and> dr_examined part \<le> n)"

lemma repair_backends_bound:
  assumes "repair_backends limit acc bs s = (Inr repair, s')" "\<And>b. b \<in> set bs \<Longrightarrow> repair_within_limit b"
    and "0 \<le> dr_examined acc" "dr_examined acc \<le> limit"
  shows "dr_examined acc \<le> dr_examined repair \<and> dr_examined repair \<le> limit \<and>
    (dr_limit_reached acc \<longrightarrow> dr_limit_reached repair) \<and>
    (dr_examined repair = limit \<longrightarrow> dr_examined acc = limit \<longrightarrow> bs \<noteq> [] \<longrightarrow> dr_limit_reached repair)"
  using assms
proof (induction bs arbitrary: acc s)
  case (Cons b bs)
  show ?case
  proof (cases "limit = dr_examined acc")
    case True
    with Cons.prems show ?thesis by (auto simp: op_simps Let_def)
  next
    case False
    then have more: "0 < limit - dr_examined acc" using Cons.prems(4) by simp
    then have "op_bind (xb_repair b (limit - dr_examined acc)) (\<lambda>part. repair_backends limit (merge_repair acc part) bs) s =
        (Inr repair, s')"
      using Cons.prems(1) by (simp add: Let_def max_def)
    then obtain part s1 where part: "xb_repair b (limit - dr_examined acc) s = (Inr part, s1)"
        "repair_backends limit (merge_repair acc part) bs s1 = (Inr repair, s')"
      by (auto simp: op_bind_def split: prod.splits sum.splits)
    then have "0 \<le> dr_examined part \<and> dr_examined part \<le> limit - dr_examined acc"
      using Cons.prems(2) [of b, unfolded repair_within_limit_def, rule_format, OF _ more] by simp
    with Cons.IH [OF part(2)] Cons.prems(2,3) False show ?thesis by (auto simp: merge_repair_def)
  qed
qed (auto simp: op_simps)

text \<open>repair and reconciliation share one allowance: however the backends divide it, the
  deliveries examined for repair and the records brought to an end together never exceed the limit; with
  no allowance nothing is read or called and the result says that work was deferred; a negative one is
  refused.\<close>

theorem reconciliation_within_allowance:
  assumes "\<And>b. b \<in> set (execution_backends env) \<Longrightarrow> repair_within_limit b"
    and run: "reconcile_external_result env limit s = (Inr res, s')"
  shows "0 \<le> limit \<and> 0 \<le> dr_examined (er_repair res) \<and> 0 \<le> er_reconciled res \<and>
    dr_examined (er_repair res) + er_reconciled res \<le> limit \<and>
    (limit = 0 \<longrightarrow> s' = s \<and> dr_limit_reached (er_repair res) \<and> reconciliation_changed res = 0)"
proof -
  consider "limit < 0" | "limit = 0" | "0 < limit" by linarith
  then show ?thesis
  proof cases
    case 3
    then have "op_bind (repair_backends limit empty_dispatch_repair_result (execution_backends env)) (\<lambda>repair.
        let remaining = max 0 (limit - dr_examined repair) in
        op_bind (if remaining \<noteq> 0 then reconcile_external_records env (Some remaining) else op_return 0)
          (\<lambda>n. op_return \<lparr>er_repair = repair, er_reconciled = n\<rparr>)) s = (Inr res, s')"
      using run by (simp add: reconcile_external_result_def)
    then obtain repair s1 n where R: "repair_backends limit empty_dispatch_repair_result (execution_backends env) s = (Inr repair, s1)"
        "(if max 0 (limit - dr_examined repair) \<noteq> 0
          then reconcile_external_records env (Some (max 0 (limit - dr_examined repair))) else op_return 0) s1 = (Inr n, s')"
        "res = \<lparr>er_repair = repair, er_reconciled = n\<rparr>"
      by (auto simp: op_bind_def Let_def op_return_def split: prod.splits sum.splits if_splits)
    have "0 \<le> dr_examined repair \<and> dr_examined repair \<le> limit"
      using repair_backends_bound [OF R(1) assms(1)] 3 by (simp add: empty_dispatch_repair_result_def)
    with R(2) reconcile_records_bound [of env "max 0 (limit - dr_examined repair)" s1 n s'] 3 show ?thesis
      by (auto simp: R(3) op_return_def split: if_splits)
  qed (use run in \<open>simp_all add: reconcile_external_result_def op_simps, auto simp: empty_dispatch_repair_result_def
    reconciliation_changed_def\<close>)
qed

section \<open>Redispatch\<close>

lemma redispatch_one_result:
  "\<exists>p s'. redispatch_one env clk i s = (Inr p, s') \<and> p \<in> {no_repair, one_changed, one_failed, one_unchanged}"
  by (auto simp: redispatch_one_def op_simps op_try_def op_bind_def [of "xb_schedule b r" for b r] op_return_def
      split: option.split prod.split sum.split)

lemma repair_part_sums:
  assumes "\<forall>p \<in> set parts. p \<in> {no_repair, one_changed, one_failed, one_unchanged}"
  shows "sum_list (map rp_examined parts) =
      sum_list (map rp_changed parts) + sum_list (map rp_failed parts) + sum_list (map rp_unchanged parts) \<and>
    0 \<le> sum_list (map rp_examined parts) \<and> sum_list (map rp_examined parts) \<le> int (length parts)"
  using assms
  by (induction parts) (auto simp: no_repair_def one_changed_def one_failed_def one_unchanged_def)

text \<open>handing requeued tasks back to their transport never fails as a whole, whatever the
  transport does: each task is tried once, a refused one is counted and the next is tried, and the
  result accounts for every task examined.\<close>

theorem redispatch_isolates_failures:
  "\<exists>out s'. redispatch_requeued_tasks env clk ids s = (Inr out, s') \<and>
     (case out of
        None \<Rightarrow> True
      | Some q \<Rightarrow> 0 < dr_examined q \<and> dr_examined q \<le> int (length ids) \<and>
          dr_examined q = dr_changed q + dr_failed q + dr_unchanged q \<and> \<not> dr_limit_reached q)"
proof -
  obtain parts s' where P: "op_collect (redispatch_one env clk) ids s = (Inr parts, s')"
    using op_collect_total [of ids "redispatch_one env clk" s] redispatch_one_result by blast
  have "length parts = length ids \<and> (\<forall>p \<in> set parts. p \<in> {no_repair, one_changed, one_failed, one_unchanged})"
    using redispatch_one_result by (intro op_collect_results [OF P]) (metis Pair_inject sum.inject(2))
  with repair_part_sums [of parts] P show ?thesis
    by (auto simp: redispatch_requeued_tasks_def op_bind_simps(2) [where m = "op_collect (redispatch_one env clk) ids", OF P]
        op_basic redispatch_total_def Let_def)
qed

section \<open>Hooks\<close>

text \<open>
  The hooks run between the store's recovery and everything that follows it, unguarded: when one raises,
  the records are already requeued and failed, but the tasks after it are not announced, the summary is
  not published and nothing is handed back to its transport.
\<close>

theorem stale_hook_stops_recovery:
  assumes recovered: "requeue_stale_running (sv_parse_float env) policy stale_after limit now clk (ss_store s) = (Inr out, m)"
    and failed: "sr_failed_task_ids out = i # rest" "lookup m i = Some r" "\<not> nothing_recovered out"
    and hook: "resolve_task env (task_name r) = Inr t" "hooks (task_name r) = Some h"
    and raises: "h r (s\<lparr>ss_store := m, ss_events := ss_events s @ [stale_failed_event out worker r]\<rparr>) = (Inl e, s')"
  shows "recover_stale_tasks env hooks policy worker stale_after limit redispatch now clk s = (Inl e, s')"
proof -
  let ?f = "requeue_stale_running (sv_parse_float env) policy stale_after limit now clk"
  have "svc_fallible ?f s = (Inr out, s\<lparr>ss_store := m\<rparr>)" by (simp add: svc_fallible_def recovered)
  moreover have "publish_stale_failed_events env hooks worker out (s\<lparr>ss_store := m\<rparr>) = (Inl e, s')"
    using raises by (simp add: publish_stale_failed_events_def failed(1,2) op_simps get_task_def invoke_stale_failure_hook_def hook
        op_bind_def [of "h r"])
  ultimately show ?thesis
    using failed(3) by (simp add: recover_stale_tasks_def op_simps
        op_bind_simps(1) [where m = "publish_stale_failed_events env hooks worker out"])
qed

section \<open>Witnesses\<close>

definition ex_repairing :: exec_backend where
  "ex_repairing = (base_execution_backend (\<lambda>r. op_raise NotImplementedError))\<lparr>xb_is_external := True,
     xb_repair := (\<lambda>limit. op_return \<lparr>dr_examined = min 2 limit, dr_changed = min 2 limit, dr_failed = 0,
       dr_unchanged = 0, dr_limit_reached = False\<rparr>)\<rparr>"

definition ex_external_env :: service_env where
  "ex_external_env = ex_env\<lparr>sv_backend_names := [''remote''], sv_backends := (\<lambda>n. Some ex_repairing)\<rparr>"

lemma reconciliation_within_allowance_witness:
  "\<exists>res s'. reconcile_external_result ex_external_env 3 (ex_svc mem_init) = (Inr res, s') \<and>
     dr_examined (er_repair res) + er_reconciled res \<le> 3 \<and> dr_examined (er_repair res) = 2"
proof -
  have run: "reconcile_external_result ex_external_env 3 (ex_svc mem_init) =
      (Inr \<lparr>er_repair = \<lparr>dr_examined = 2, dr_changed = 2, dr_failed = 0, dr_unchanged = 0, dr_limit_reached = False\<rparr>,
         er_reconciled = 0\<rparr>, ex_svc mem_init)"
    by (simp add: reconcile_external_result_def execution_backends_def ex_external_env_def List.map_filter_simps ex_repairing_def
        op_simps Let_def merge_repair_def empty_dispatch_repair_result_def reconcile_external_records_def
        list_running_external_def ex_svc_def sort_key_def py_take_def)
      (simp add: mem_init_def op_basic op_bind_basic)
  have "b \<in> set (execution_backends ex_external_env) \<Longrightarrow> repair_within_limit b" for b
    by (auto simp: execution_backends_def ex_external_env_def List.map_filter_simps ex_repairing_def repair_within_limit_def
        op_return_def)
  from reconciliation_within_allowance [OF this run] run show ?thesis by auto
qed

end
