(* ===== verification/Consumer.thy ===== *)
theory Consumer
  imports Service_Sweeps
begin

text \<open>
  The push consumer (\<open>consumer.py\<close>): one delivery names a record, the consumer claims it, runs it under a
  heartbeat and reports an exit code. The task body is an input of the run, as a list of turns between
  which the heartbeats happen: what the event loop makes of the two concurrent tasks is one such list.
  The settlement of an attempt is one step; a heartbeat may still come after it. \<open>ce_clock\<close> numbers the
  clock readings.
\<close>

section \<open>One delivery\<close>

datatype exit_code =
    SUCCESS | FAILURE | MISSING_TASK_ID | INVALID_TASK_ID | MISSING_RECORD | UNKNOWN_TASK | CLAIM_LOST
  | CANCELLED | MISSING_CONFIG_FACTORY

fun exit_value :: "exit_code \<Rightarrow> int" where
  "exit_value SUCCESS = 0"
| "exit_value FAILURE = 1"
| "exit_value MISSING_TASK_ID = 2"
| "exit_value INVALID_TASK_ID = 3"
| "exit_value MISSING_RECORD = 4"
| "exit_value UNKNOWN_TASK = 5"
| "exit_value CLAIM_LOST = 6"
| "exit_value CANCELLED = 7"
| "exit_value MISSING_CONFIG_FACTORY = 8"

text \<open>How a delivery ends: with a code, with an exception, or with the caller's own cancellation.\<close>

datatype delivery_end = Exited exit_code | DeliveryRaised py_error | CallerCancelled

text \<open>
  What a delivery depends on: the record view and the clock of the settlement, the identifier and the
  jitter of a successor, the staleness limits of the configuration as durations, the policy and hooks of
  stale recovery and Python's \<open>repr\<close> of a text. The rest is the attempt: its turns in the order the event
  loop takes them, how the body ends when it is let, what it does and how it ends when it is cancelled
  after a lost heartbeat, and the time of a heartbeat after its settlement, if one comes that late.
\<close>

datatype turn = Beat instant "string option" | Work "svc_state \<Rightarrow> svc_state"

record consumer_env =
  ce_view :: record_view
  ce_clock :: "nat \<Rightarrow> instant"
  ce_fresh :: uuid
  ce_draw :: rat
  ce_maintenance_stale_after :: "int option"
  ce_worker_stale_after :: "int option"
  ce_policy :: stale_policy
  ce_hooks :: stale_hooks
  ce_sweep_clock :: "uuid \<Rightarrow> instant"
  ce_repr :: "string \<Rightarrow> string"
  ce_turns :: "task_record \<Rightarrow> turn list"
  ce_finish :: "task_record \<Rightarrow> svc_state \<Rightarrow> body_outcome \<times> svc_state"
  ce_cancelled :: "task_record \<Rightarrow> svc_state \<Rightarrow> body_outcome \<times> svc_state"
  ce_late_beat :: "instant option"

definition consumer_stale_after :: "consumer_env \<Rightarrow> int" where
  "consumer_stale_after c = given (ce_maintenance_stale_after c) (given (ce_worker_stale_after c) 300000000)"

text \<open>One pass of the heartbeat loop: the loop ends when a touch does not reach the attempt.\<close>

definition progress_touch :: "uuid \<Rightarrow> int \<Rightarrow> string option \<Rightarrow> heartbeat_touch" where
  "progress_touch i n detail =
     \<lparr>ht_task_id = i, ht_expected_retry_count = Some n,
      ht_metadata_patch = (case detail of Some (x # xs) \<Rightarrow> Some [(''progress_detail'', PStr (x # xs))] | _ \<Rightarrow> None)\<rparr>"

definition send_beat :: "uuid \<Rightarrow> int \<Rightarrow> instant \<Rightarrow> string option \<Rightarrow> svc_state \<Rightarrow> bool \<times> svc_state" where
  "send_beat i n now detail s =
     (let (res, m) = touch_heartbeats [progress_touch i n detail] now (ss_store s)
      in (i \<in> set (touched_task_ids res), s\<lparr>ss_store := m\<rparr>))"

text \<open>The body and the heartbeat loop side by side, up to the first lost beat.\<close>

fun run_turns :: "uuid \<Rightarrow> int \<Rightarrow> turn list \<Rightarrow> svc_state \<Rightarrow> bool \<times> svc_state" where
  "run_turns i n [] s = (True, s)"
| "run_turns i n (Work f # ts) s = run_turns i n ts (f s)"
| "run_turns i n (Beat now detail # ts) s =
     (case send_beat i n now detail s of
        (True, s') \<Rightarrow> run_turns i n ts s'
      | (False, s') \<Rightarrow> (False, s'))"

text \<open>A lost beat cancels the body where it is.\<close>

definition watched_body :: "consumer_env \<Rightarrow> task_record \<Rightarrow> svc_state \<Rightarrow> body_outcome \<times> svc_state" where
  "watched_body c r s =
     (case run_turns (rid r) (retry_count r) (ce_turns c r) s of
        (True, s') \<Rightarrow> ce_finish c r s'
      | (False, s') \<Rightarrow> ce_cancelled c r s')"

definition attempt_started :: "consumer_env \<Rightarrow> task_record \<Rightarrow> svc_state \<Rightarrow> svc_state" where
  "attempt_started c r s =
     snd (lifecycle (attempt_context_of (ce_view c) None (\<lambda>k. ce_clock c (k + 10)) (ce_fresh c) (ce_draw c) r)
       ''task.started'' r None [] s)"

definition late_beat :: "consumer_env \<Rightarrow> uuid \<Rightarrow> int \<Rightarrow> svc_state \<Rightarrow> bool \<times> svc_state" where
  "late_beat c i n s = (case ce_late_beat c of None \<Rightarrow> (True, s) | Some now \<Rightarrow> send_beat i n now None s)"

definition exit_of_status :: "task_status \<Rightarrow> exit_code" where
  "exit_of_status st = (if st = Completed then SUCCESS else if st = Cancelled then CANCELLED else FAILURE)"

definition release_heartbeat :: "uuid \<Rightarrow> int \<Rightarrow> svc_state \<Rightarrow> svc_state" where
  "release_heartbeat i n s = s\<lparr>ss_store := null_heartbeats [i] (Some n) (ss_store s)\<rparr>"

text \<open>
  Both tasks are over: a lost beat decides before the outcome of the execution, except that an exception
  of the cancelled execution is raised.
\<close>

definition execute_claimed_record ::
    "service_env \<Rightarrow> consumer_env \<Rightarrow> task_record \<Rightarrow> svc_state \<Rightarrow> delivery_end \<times> svc_state" where
  "execute_claimed_record env c claimed s =
     (let i = rid claimed; n = retry_count claimed;
          (res, s1) = execute_record env (ce_view c) None (\<lambda>k. ce_clock c (k + 10)) (ce_fresh c) (ce_draw c)
            (watched_body c) claimed s;
          (alive, s2) = (if fst (run_turns i n (ce_turns c claimed) (attempt_started c claimed s))
            then late_beat c i n s1 else (False, s1))
      in case (res, alive) of
           (ExecRaised e, _) \<Rightarrow> (DeliveryRaised e, release_heartbeat i n s2)
         | (_, False) \<Rightarrow>
             (case publish_claim_lost claimed ''heartbeat'' None None (Some n) s2 of
                (Inl e, s3) \<Rightarrow> (DeliveryRaised e, release_heartbeat i n s3)
              | (Inr q, s3) \<Rightarrow> (Exited CLAIM_LOST, release_heartbeat i n s3))
         | (CancelPropagated, True) \<Rightarrow> (CallerCancelled, release_heartbeat i n s2)
         | (Executed updated, True) \<Rightarrow>
             (Exited (exit_of_status (status (seen (ce_view c) (ss_store (release_heartbeat i n s2)) updated))),
              release_heartbeat i n s2))"

definition retire_unresolvable_record :: "consumer_env \<Rightarrow> task_record \<Rightarrow> exit_code svc" where
  "retire_unresolvable_record c claimed =
     op_bind (svc_store (fail_task (rid claimed) (''Unknown queue task: '' @ ce_repr c (task_name claimed)) False
         (Some (retry_count claimed)) None None (ce_clock c 9))) (\<lambda>updated.
       case updated of
         None \<Rightarrow> op_bind (publish_claim_lost claimed ''unknown_task'' None None (Some (retry_count claimed)))
                   (\<lambda>_. op_return CLAIM_LOST)
       | Some u \<Rightarrow> op_return UNKNOWN_TASK)"

text \<open>At most one of the claimed record and the code is present.\<close>

definition recover_and_claim_stale_record ::
    "service_env \<Rightarrow> consumer_env \<Rightarrow> task_record \<Rightarrow> int option \<Rightarrow> string option \<Rightarrow>
     (task_record option \<times> exit_code option) svc" where
  "recover_and_claim_stale_record env c r expected_retry_count expected_execution_ref =
     op_bind (svc_read (get_task (rid r))) (\<lambda>found.
       case found of
         None \<Rightarrow> op_return (None, None)
       | Some current \<Rightarrow>
           if status current \<noteq> Running then op_return (None, None)
           else if \<not> fence expected_retry_count (retry_count current) then op_return (None, None)
           else if expected_execution_ref \<noteq> None \<and> execution_ref current \<noteq> expected_execution_ref
           then op_return (None, None)
           else if (case heartbeat_at current of None \<Rightarrow> False | Some t \<Rightarrow> t > ce_clock c 2 - consumer_stale_after c)
           then op_return (None, None)
           else
             op_bind (recover_stale_tasks env (ce_hooks c) (ce_policy c) None (consumer_stale_after c) None False
                 (ce_clock c 3) (ce_sweep_clock c)) (\<lambda>_.
             op_bind (svc_read (get_task (rid r))) (\<lambda>refreshed.
               case refreshed of
                 None \<Rightarrow> op_return (None, Some SUCCESS)
               | Some q \<Rightarrow>
                   if is_terminal q then op_return (None, Some SUCCESS)
                   else if (case scheduled_at q of None \<Rightarrow> False | Some t \<Rightarrow> t > ce_clock c 4)
                   then op_bind (schedule_persisted env q) (\<lambda>_. op_return (None, Some SUCCESS))
                   else op_bind (svc_claim_task env (rid q) None None None (ce_clock c 5) (ce_clock c 6))
                          (\<lambda>(claimed, expired).
                             if expired \<noteq> None then op_return (None, Some CLAIM_LOST)
                             else op_return (claimed, None)))))"

definition delivery_of :: "exit_code result \<times> svc_state \<Rightarrow> delivery_end \<times> svc_state" where
  "delivery_of res = (case res of (Inl e, s) \<Rightarrow> (DeliveryRaised e, s) | (Inr x, s) \<Rightarrow> (Exited x, s))"

definition run_claimed :: "service_env \<Rightarrow> consumer_env \<Rightarrow> task_record \<Rightarrow> svc_state \<Rightarrow> delivery_end \<times> svc_state" where
  "run_claimed env c claimed s =
     (case resolve_task env (task_name claimed) of
        Inl e \<Rightarrow> delivery_of (retire_unresolvable_record c claimed s)
      | Inr t \<Rightarrow> execute_claimed_record env c claimed s)"

definition consume_one ::
    "service_env \<Rightarrow> consumer_env \<Rightarrow> uuid \<Rightarrow> int option \<Rightarrow> string option \<Rightarrow> svc_state \<Rightarrow> delivery_end \<times> svc_state" where
  "consume_one env c i expected_retry_count expected_execution_ref s =
     (case get_task i (ss_store s) of
        None \<Rightarrow> (Exited MISSING_RECORD, s)
      | Some r \<Rightarrow>
          (case svc_claim_task env (rid r) None expected_retry_count expected_execution_ref (ce_clock c 0) (ce_clock c 1) s of
             (Inl e, s1) \<Rightarrow> (DeliveryRaised e, s1)
           | (Inr (_, Some x), s1) \<Rightarrow> (Exited CLAIM_LOST, s1)
           | (Inr (Some claimed, None), s1) \<Rightarrow> run_claimed env c claimed s1
           | (Inr (None, None), s1) \<Rightarrow>
               (case recover_and_claim_stale_record env c r expected_retry_count expected_execution_ref s1 of
                  (Inl e, s2) \<Rightarrow> (DeliveryRaised e, s2)
                | (Inr (_, Some code), s2) \<Rightarrow> (Exited code, s2)
                | (Inr (Some claimed, None), s2) \<Rightarrow> run_claimed env c claimed s2
                | (Inr (None, None), s2) \<Rightarrow>
                    delivery_of (op_bind (publish_claim_lost r ''claim'' None None None) (\<lambda>_. op_return CLAIM_LOST) s2))))"

text \<open>The task identifier as text: missing, malformed (\<open>parse\<close> is \<open>uuid.UUID\<close>) or a record to run.\<close>

definition resolve_and_consume ::
    "service_env \<Rightarrow> consumer_env \<Rightarrow> (string \<Rightarrow> uuid option) \<Rightarrow> string option \<Rightarrow> string option \<Rightarrow>
     svc_state \<Rightarrow> delivery_end \<times> svc_state" where
  "resolve_and_consume env c parse task_id env_task_id s =
     (case (if task_id \<noteq> None then task_id else env_task_id) of
        None \<Rightarrow> (Exited MISSING_TASK_ID, s)
      | Some raw \<Rightarrow>
          if raw = [] then (Exited MISSING_TASK_ID, s)
          else (case parse raw of
                  None \<Rightarrow> (Exited INVALID_TASK_ID, s)
                | Some i \<Rightarrow> consume_one env c i None None s))"

section \<open>Well-formed stores\<close>

definition wf_step :: "mem_state \<Rightarrow> mem_state \<Rightarrow> bool" where
  "wf_step m m' \<longleftrightarrow> (mem_wf m \<longrightarrow> mem_wf m')"

lemma wf_step_rel: "reflp wf_step" "transp wf_step"
  by (auto simp: reflp_def transp_def wf_step_def)

lemmas wf_step_keeps = keeps_basic [OF wf_step_rel(1)] keeps_bind [OF wf_step_rel(2)]

lemma wf_keepsD: "keeps wf_step m \<Longrightarrow> mem_wf (ss_store s) \<Longrightarrow> mem_wf (ss_store (snd (m s)))"
  by (auto simp: keeps_def wf_step_def)

lemma step_wf_step: "op_disciplined x \<Longrightarrow> op_local x \<Longrightarrow> wf_step m (mem_step x m)"
  by (auto simp: wf_step_def intro: mem_wf_evolves mem_step_evolves)

section \<open>What an attempt returns is what is stored\<close>

lemma modify_if_result:
  "modify_if i guard f m = (Some u, m') \<Longrightarrow> lookup m' i = Some u \<and> (\<exists>q. lookup m i = Some q \<and> u = f q)"
  "modify_if i guard f m = (None, m') \<Longrightarrow> m' = m"
  by (auto simp: modify_if_def dict_simps split: option.splits if_splits)

lemma settled_fields [simp]: "rid (complete_record v now q) = rid q" "rid (fail_record err retry ra qa now q) = rid q"
  by (simp_all add: complete_record_def fail_record_def Let_def)

lemma cancel_wf: "keeps wf_step (svc_cancel_task env i b message False now)"
  unfolding svc_cancel_task_def durable_cancel_def
  using step_wf_step [of "OpCancel i b None now"] step_wf_step [of "OpNotifyControl w" for w]
  by (auto simp: op_disciplined_def op_local_def split: option.split intro!: wf_step_keeps keeps_store)

definition stored_or_gone :: "uuid \<Rightarrow> task_record \<Rightarrow> mem_state \<Rightarrow> bool" where
  "stored_or_gone i u m \<longleftrightarrow> rid u = i \<and> (lookup m i = Some u \<or> lookup m i = None)"

lemma current_stored: "mem_wf m \<Longrightarrow> stored_or_gone (rid r) (given (lookup m (rid r)) r) m"
  using mem_wfD(2) by (cases "lookup m (rid r)") (auto simp: stored_or_gone_def)

lemma claim_lost_stored:
  "finish_claim_lost x r stage s = (Inr u, s') \<Longrightarrow> mem_wf (ss_store s) \<Longrightarrow> stored_or_gone (rid r) u (ss_store s')"
  using current_stored [of "ss_store s" r] by (auto simp: finish_claim_lost_result)

lemma bind_return_stored:
  assumes "keeps (same_record i) op" "lookup (ss_store s) i = Some u" "rid u = i" "op_bind op (\<lambda>_. op_return u) s = (Inr v, s')"
  shows "v = u \<and> stored_or_gone i u (ss_store s')"
proof -
  have "v = u" "s' = snd (op s)" using assms(4) by (auto simp: op_bind_def op_return_def split: prod.splits sum.splits)
  with keepsD [OF assms(1,2)] assms(3) show ?thesis by (simp add: stored_or_gone_def)
qed

lemma settle_stored:
  assumes env: "polled env" "rid r \<noteq> ac_fresh x" and wf: "mem_wf (ss_store s)"
    and run: "settle env x outcome r s = (Executed u, s')"
  shows "stored_or_gone (rid r) u (ss_store s')"
proof -
  let ?r = "seen (ac_view x) (ss_store s) r"
  have r: "rid ?r = rid r" using mem_wfD(2) [OF wf]
    by (cases "ac_view x"; cases "lookup (ss_store s) (rid r)") auto
  note reschedule = reschedule_same_record [OF env]
  have lost: "stored_or_gone (rid r) u (ss_store s')"
    if "finish_claim_lost x ?r stage t = (Inr u, s')" "mem_wf (ss_store t)" for stage t
    using claim_lost_stored [OF that] by (simp add: r)
  show ?thesis
  proof (cases outcome)
    case (BodyReturned v)
    obtain c m where c: "complete_task (rid ?r) v (Some (retry_count ?r)) (ac_clock x 0) (ss_store s) = (c, m)" by fastforce
    have run': "complete_attempt env x ?r v s = (Inr u, s')"
      using run BodyReturned by (auto simp: settle_def Let_def exec_of_def split: prod.splits sum.splits)
    show ?thesis
    proof (cases c)
      case None
      with c have "m = ss_store s" by (simp add: complete_task_def modify_if_result(2))
      with None run' c wf show ?thesis by (intro lost) (simp_all add: complete_attempt_def op_simps)
    next
      case (Some q)
      with c have q: "lookup m (rid r) = Some q" "rid q = rid r"
        using mem_wfD(2) [OF wf] by (auto simp: complete_task_def r dest!: modify_if_result(1))
      have "op_bind (reschedule_if_needed env x (\<lambda>n. ac_clock x (n + 1)) q) (\<lambda>_. op_return q)
          (s\<lparr>ss_store := m, ss_events := ss_events s @ [task_event ''task.completed'' ?r (ac_worker x) (ac_attempt x) None (status_payload q)]\<rparr>) =
          (Inr u, s')"
        using run' by (simp add: complete_attempt_def op_simps c Some lifecycle_def)
      from bind_return_stored [OF reschedule _ q(2) this] q show ?thesis by simp
    qed
  next
    case (BodyJobCancelled message)
    then have run': "handle_job_cancelled env x ?r message s = (Inr u, s')"
      using run by (auto simp: settle_def Let_def exec_of_def split: prod.splits sum.splits)
    obtain won s1 where won: "svc_cancel_task env (rid ?r) True (Some message) False (ac_clock x 0) s = (won, s1)" by fastforce
    have wf1: "mem_wf (ss_store s1)" using wf_keepsD [OF cancel_wf wf] won by (metis snd_conv)
    show ?thesis
    proof (cases "won = Inr True")
      case True
      with run' won have "u = given (lookup (ss_store s1) (rid r)) ?r" "s' = s1"
        by (auto simp: handle_job_cancelled_def op_bind_def current_or_claimed_def svc_read_def get_task_def r)
      with current_stored [OF wf1, of ?r] show ?thesis by (simp add: r)
    next
      case False
      with run' won have "finish_claim_lost x ?r ''cancel'' s1 = (Inr u, s')"
        by (auto simp: handle_job_cancelled_def op_bind_def split: sum.splits if_splits)
      with wf1 show ?thesis by (rule lost [rotated])
    qed
  next
    case (BodyNonRetryable err)
    obtain c m where c: "fail_task (rid ?r) (error_message env err ?r) False (Some (retry_count ?r)) None None (ac_clock x 0) (ss_store s) = (c, m)" by fastforce
    have run': "fail_without_retry env x ?r err s = (Inr u, s')"
      using run BodyNonRetryable by (auto simp: settle_def Let_def exec_of_def split: prod.splits sum.splits)
    show ?thesis
    proof (cases c)
      case None
      with c have "m = ss_store s" by (simp add: fail_task_def modify_if_result(2))
      with None run' c wf show ?thesis by (intro lost) (simp_all add: fail_without_retry_def Let_def op_simps)
    next
      case (Some q)
      with c have "lookup m (rid r) = Some q" "rid q = rid r"
        using mem_wfD(2) [OF wf] by (auto simp: fail_task_def r dest!: modify_if_result(1))
      with run' c Some show ?thesis by (auto simp: fail_without_retry_def Let_def op_simps lifecycle_def stored_or_gone_def)
    qed
  next
    case (BodyFailed err)
    have run': "fail_with_retry env x ?r err s = (Inr u, s')"
      using run BodyFailed by (auto simp: settle_def Let_def exec_of_def split: prod.splits sum.splits)
    then obtain d where d: "retry_delay (sv_parse_float env) ?r = Inr d"
      by (cases "retry_delay (sv_parse_float env) ?r") (auto simp: fail_with_retry_def Let_def op_simps)
    define ra where "ra = (if d > 0 then Some (ac_clock x 0 + timedelta_seconds d) else None)"
    obtain c m where c: "fail_task (rid ?r) (error_message env err ?r) True (Some (retry_count ?r)) ra (Some (ac_clock x 0)) (ac_clock x 1)
        (ss_store s) = (c, m)" by fastforce
    show ?thesis
    proof (cases c)
      case None
      with c have "m = ss_store s" by (simp add: fail_task_def modify_if_result(2))
      with None run' c wf show ?thesis
        by (intro lost) (simp_all add: fail_with_retry_def Let_def op_simps d ra_def [symmetric])
    next
      case (Some q)
      with c have q: "lookup m (rid r) = Some q" "rid q = rid r"
        using mem_wfD(2) [OF wf] by (auto simp: fail_task_def r dest!: modify_if_result(1))
      define t where "t = s\<lparr>ss_store := m, ss_events := ss_events s @ [task_event ''task.failed'' ?r (ac_worker x) (ac_attempt x)
             (Some (error_message env err ?r)) (retry_payload env d ra q)]\<rparr>"
      have t: "lookup (ss_store t) (rid r) = Some q" "rid q = rid r" by (simp_all add: t_def q)
      have rest: "fail_with_retry env x ?r err s = (if status q = Failed
          then op_bind (reschedule_if_needed env x (\<lambda>n. ac_clock x (n + 2)) q) (\<lambda>_. op_return q) t
          else op_return q t)"
        by (simp add: fail_with_retry_def Let_def op_simps d ra_def [symmetric] c Some lifecycle_def polled_persisted [OF env(1)] t_def
            del: One_nat_def)
      show ?thesis
      proof (cases "status q = Failed")
        case True
        with run' have "op_bind (reschedule_if_needed env x (\<lambda>n. ac_clock x (n + 2)) q) (\<lambda>_. op_return q) t = (Inr u, s')"
          by (simp add: rest)
        from bind_return_stored [OF reschedule t(1) t(2) this] show ?thesis by simp
      next
        case False
        with run' t show ?thesis by (simp add: rest op_return_def stored_or_gone_def)
      qed
    qed
  qed (use run in \<open>simp add: settle_def\<close>)
qed

section \<open>Bodies and hooks\<close>

text \<open>Bodies and hooks may use the whole service, which keeps the store well formed.\<close>

definition tame :: "consumer_env \<Rightarrow> bool" where
  "tame c \<longleftrightarrow> policy_total (ce_policy c) \<and>
     (\<forall>r f s. Work f \<in> set (ce_turns c r) \<longrightarrow> mem_wf (ss_store s) \<longrightarrow> mem_wf (ss_store (f s))) \<and>
     (\<forall>r s. mem_wf (ss_store s) \<longrightarrow> mem_wf (ss_store (snd (ce_finish c r s))) \<and> mem_wf (ss_store (snd (ce_cancelled c r s)))) \<and>
     (\<forall>n h r. ce_hooks c n = Some h \<longrightarrow> keeps wf_step (h r))"

lemma claim_task_wf: "keeps wf_step (svc_claim_task env i worker n ref t now)"
  unfolding svc_claim_task_def publish_expired_event_def
  using step_wf_step [of "OpClaim i n ref t now"]
  by (auto simp: op_disciplined_def op_local_def split: option.split intro!: wf_step_keeps keeps_store)

lemma for_each_wf: "(\<And>x. x \<in> set xs \<Longrightarrow> keeps wf_step (f x)) \<Longrightarrow> keeps wf_step (op_for_each f xs)"
  by (induction xs) (auto intro: wf_step_keeps)

lemma recover_stale_wf:
  assumes "tame c"
  shows "keeps wf_step (recover_stale_tasks env (ce_hooks c) (ce_policy c) worker after limit False now clk)"
proof -
  have store: "keeps wf_step (svc_fallible (requeue_stale_running parse (ce_policy c) after limit now clk))" for parse
    using step_wf_step [of "OpStale parse (ce_policy c) after limit now clk"] assms
    by (simp add: keeps_def svc_fallible_def case_prod_beta op_disciplined_def op_local_def tame_def)
  have hook: "keeps wf_step (invoke_stale_failure_hook env (ce_hooks c) r)" for r
    using assms by (auto simp: invoke_stale_failure_hook_def tame_def split: sum.split option.split intro: wf_step_keeps)
  show ?thesis
    unfolding recover_stale_tasks_def publish_stale_failed_events_def
    by (auto split: option.split intro!: wf_step_keeps store for_each_wf hook)
qed

text \<open>A beat reaches exactly the running attempt it is sent for, and changes no status.\<close>

lemma send_beat_result:
  assumes "send_beat i n now detail s = (alive, s')"
  shows "alive \<longleftrightarrow> (\<exists>r. lookup (ss_store s) i = Some r \<and> status r = Running \<and> retry_count r = n)"
    and "ss_events s' = ss_events s"
    and "map_option status (lookup (ss_store s') j) = map_option status (lookup (ss_store s) j)"
    and "mem_wf (ss_store s) \<Longrightarrow> mem_wf (ss_store s')"
proof -
  show "alive \<longleftrightarrow> (\<exists>r. lookup (ss_store s) i = Some r \<and> status r = Running \<and> retry_count r = n)"
    "ss_events s' = ss_events s"
    "map_option status (lookup (ss_store s') j) = map_option status (lookup (ss_store s) j)"
    using assms
    by (auto simp: send_beat_def touch_heartbeats_def touch_one_def progress_touch_def empty_touch_result_def set_add_def
        modify_if_def touch_record_def dict_simps split: option.splits if_splits)
  have "patch_ok (ht_metadata_patch (progress_touch i n detail))"
    by (simp add: progress_touch_def patch_ok_def split: option.split list.split)
  then show "mem_wf (ss_store s) \<Longrightarrow> mem_wf (ss_store s')"
    using step_wf_step [of "OpTouch [progress_touch i n detail] now" "ss_store s"] assms
    by (auto simp: send_beat_def wf_step_def op_disciplined_def op_local_def split: prod.splits)
qed

lemma run_turns_wf:
  assumes "\<And>f s. Work f \<in> set ts \<Longrightarrow> mem_wf (ss_store s) \<Longrightarrow> mem_wf (ss_store (f s))" and "mem_wf (ss_store s)"
  shows "mem_wf (ss_store (snd (run_turns i n ts s)))"
  using assms
proof (induction i n ts s rule: run_turns.induct)
  case (3 i n now detail ts s)
  obtain alive s' where s': "send_beat i n now detail s = (alive, s')" by fastforce
  have "mem_wf (ss_store s')" by (rule send_beat_result(4) [OF s' 3(3)])
  with 3(1) [OF s' [symmetric]] 3(2) s' show ?case by (cases alive) auto
qed simp_all

lemma watched_body_wf:
  assumes "tame c" "mem_wf (ss_store s)"
  shows "mem_wf (ss_store (snd (watched_body c r s)))"
proof -
  have "mem_wf (ss_store (snd (run_turns (rid r) (retry_count r) (ce_turns c r) s)))"
    using assms by (intro run_turns_wf) (auto simp: tame_def)
  with assms(1) show ?thesis by (auto simp: watched_body_def tame_def split: prod.split bool.split)
qed

lemma late_beat_result:
  assumes "late_beat c i n s = (alive, s')"
  shows "ss_events s' = ss_events s"
    and "map_option status (lookup (ss_store s') j) = map_option status (lookup (ss_store s) j)"
  using assms by (auto simp: late_beat_def dest: send_beat_result split: option.splits)

section \<open>Exit codes\<close>

lemma map_values_get: "dict_get (map (\<lambda>(k, r). (k, f k r)) d) i = map_option (f i) (dict_get d i)"
  by (induction d) auto

lemma null_heartbeats_lookup:
  "lookup (null_heartbeats ids n m) i = map_option (\<lambda>r. if i \<in> set ids \<and> fence n (retry_count r)
     then r\<lparr>heartbeat_at := None\<rparr> else r) (lookup m i)"
  unfolding null_heartbeats_def by (simp add: map_values_get)

lemma execute_record_stored:
  assumes "tame c" "polled env" and fresh: "rid r \<noteq> fresh" and wf: "mem_wf (ss_store s)"
    and run: "execute_record env view worker clk fresh draw (watched_body c) r s = (Executed u, s')"
  shows "stored_or_gone (rid r) u (ss_store s')"
proof -
  define x where "x = attempt_context_of view worker clk fresh draw r"
  define s0 where "s0 = snd (lifecycle x ''task.started'' r None [] s)"
  obtain outcome s1 where body: "watched_body c r s0 = (outcome, s1)" by fastforce
  have "ss_store s0 = ss_store s" by (simp add: s0_def lifecycle_def op_simps)
  then have wf1: "mem_wf (ss_store s1)" using watched_body_wf [OF assms(1), of s0 r] wf body by simp
  have "settle env x outcome r s1 = (Executed u, s')"
    using run body by (auto simp: execute_record_def Let_def x_def [symmetric] s0_def [symmetric] split: sum.splits)
  from settle_stored [OF assms(2) _ wf1 this] fresh show ?thesis by (simp add: x_def attempt_context_of_def)
qed

text \<open>The run ends with the announcement that the record was not this consumer's to run.\<close>

definition announced_lost :: "uuid \<Rightarrow> svc_state \<Rightarrow> bool" where
  "announced_lost i s \<longleftrightarrow> ss_events s \<noteq> [] \<and> se_task_id (last (ss_events s)) = Some i \<and>
     se_type (last (ss_events s)) \<in> {''task.claim_lost'', ''task.expired''}"

lemma publish_claim_lost_announced:
  "publish_claim_lost r stage None w n s = (res, s') \<Longrightarrow>
     (\<exists>q. res = Inr q) \<and> ss_store s' = ss_store s \<and> announced_lost (rid r) s'"
  by (auto simp: publish_claim_lost_def current_or_claimed_def op_simps Let_def announced_lost_def task_event_def op_return_def)

lemma release_heartbeat_fields [simp]:
  "ss_events (release_heartbeat i n s) = ss_events s"
  "announced_lost j (release_heartbeat i n s) = announced_lost j s"
  "map_option status (lookup (ss_store (release_heartbeat i n s)) j) = map_option status (lookup (ss_store s) j)"
  by (auto simp: release_heartbeat_def announced_lost_def null_heartbeats_lookup option.map_comp comp_def
      intro: option.map_cong0 split: option.split simp del: fence.simps)

lemma execute_claimed_exit:
  assumes "tame c" "polled env" "rid claimed \<noteq> ce_fresh c" "mem_wf (ss_store s)"
    and run: "execute_claimed_record env c claimed s = (Exited code, s')"
  shows "code = CLAIM_LOST \<and> announced_lost (rid claimed) s' \<or> code \<in> {SUCCESS, CANCELLED, FAILURE} \<and>
    (\<forall>q. lookup (ss_store s') (rid claimed) = Some q \<longrightarrow> code = exit_of_status (status q))"
proof -
  let ?i = "rid claimed" and ?n = "retry_count claimed"
  obtain res s1 where exec: "execute_record env (ce_view c) None (\<lambda>k. ce_clock c (k + 10)) (ce_fresh c) (ce_draw c)
      (watched_body c) claimed s = (res, s1)"
    by fastforce
  obtain alive s2 where beat: "(if fst (run_turns ?i ?n (ce_turns c claimed) (attempt_started c claimed s))
      then late_beat c ?i ?n s1 else (False, s1)) = (alive, s2)" by fastforce
  have run': "(case (res, alive) of
           (ExecRaised e, _) \<Rightarrow> (DeliveryRaised e, release_heartbeat ?i ?n s2)
         | (_, False) \<Rightarrow>
             (case publish_claim_lost claimed ''heartbeat'' None None (Some ?n) s2 of
                (Inl e, s3) \<Rightarrow> (DeliveryRaised e, release_heartbeat ?i ?n s3)
              | (Inr q, s3) \<Rightarrow> (Exited CLAIM_LOST, release_heartbeat ?i ?n s3))
         | (CancelPropagated, True) \<Rightarrow> (CallerCancelled, release_heartbeat ?i ?n s2)
         | (Executed updated, True) \<Rightarrow>
             (Exited (exit_of_status (status (seen (ce_view c) (ss_store (release_heartbeat ?i ?n s2)) updated))),
              release_heartbeat ?i ?n s2)) = (Exited code, s')"
    using run exec beat by (simp add: execute_claimed_record_def Let_def)
  show ?thesis
  proof (cases alive)
    case False
    then have "code = CLAIM_LOST \<and> announced_lost ?i s'"
      using run' publish_claim_lost_announced [of claimed "''heartbeat''" None "Some ?n" s2]
      by (auto split: exec_result.splits prod.splits sum.splits)
    then show ?thesis by simp
  next
    case True
    with run' obtain u where u: "res = Executed u" "s' = release_heartbeat ?i ?n s2"
        "code = exit_of_status (status (seen (ce_view c) (ss_store s') u))"
      by (auto split: exec_result.splits)
    have stored: "stored_or_gone ?i u (ss_store s1)"
      using execute_record_stored [OF assms(1-4)] exec unfolding u(1) .
    have same: "map_option status (lookup (ss_store s') ?i) = map_option status (lookup (ss_store s1) ?i)"
      using beat True late_beat_result(2) [of c ?i ?n s1 alive s2 ?i] by (auto simp: u(2) split: if_splits)
    have "code = exit_of_status (status q)" if q: "lookup (ss_store s') ?i = Some q" for q
    proof -
      have "status u = status q" "rid u = ?i" using stored same q by (auto simp: stored_or_gone_def)
      then show ?thesis using q by (cases "ce_view c") (simp_all add: u(3))
    qed
    then show ?thesis by (auto simp: u(3) exit_of_status_def)
  qed
qed

text \<open>What an exit code says about the record the delivery named.\<close>

text \<open>The delivery found a running attempt whose consumer had stopped beating.\<close>

definition found_abandoned :: "consumer_env \<Rightarrow> uuid \<Rightarrow> mem_state \<Rightarrow> bool" where
  "found_abandoned c i m \<longleftrightarrow> (\<exists>r. lookup m i = Some r \<and> status r = Running \<and>
     (\<forall>t. heartbeat_at r = Some t \<longrightarrow> t \<le> ce_clock c 2 - consumer_stale_after c))"

definition exit_truthful :: "consumer_env \<Rightarrow> uuid \<Rightarrow> exit_code \<Rightarrow> mem_state \<Rightarrow> svc_state \<Rightarrow> bool" where
  "exit_truthful c i code m s \<longleftrightarrow>
     (case code of
        SUCCESS \<Rightarrow> (\<forall>q. lookup (ss_store s) i = Some q \<longrightarrow> status q = Completed \<or>
          found_abandoned c i m \<and> (is_terminal q \<or> (\<exists>t. scheduled_at q = Some t \<and> t > ce_clock c 4)))
      | CANCELLED \<Rightarrow> (\<forall>q. lookup (ss_store s) i = Some q \<longrightarrow> status q = Cancelled)
      | FAILURE \<Rightarrow> (\<forall>q. lookup (ss_store s) i = Some q \<longrightarrow> status q \<notin> {Completed, Cancelled})
      | UNKNOWN_TASK \<Rightarrow> (\<exists>q. lookup (ss_store s) i = Some q \<and> status q = Failed)
      | MISSING_RECORD \<Rightarrow> lookup m i = None \<and> ss_store s = m
      | CLAIM_LOST \<Rightarrow> announced_lost i s
      | _ \<Rightarrow> False)"

lemma exit_of_status_iff:
  "exit_of_status st = SUCCESS \<longleftrightarrow> st = Completed" "exit_of_status st = CANCELLED \<longleftrightarrow> st = Cancelled"
  "exit_of_status st = FAILURE \<longleftrightarrow> st \<notin> {Completed, Cancelled}"
  by (auto simp: exit_of_status_def)

lemma run_claimed_truthful:
  assumes "tame c" "polled env" "rid claimed \<noteq> ce_fresh c" "mem_wf (ss_store s)"
    and run: "run_claimed env c claimed s = (Exited code, s')"
  shows "exit_truthful c (rid claimed) code m s'"
proof (cases "resolve_task env (task_name claimed)")
  case (Inr t)
  with run have "execute_claimed_record env c claimed s = (Exited code, s')" by (simp add: run_claimed_def)
  from execute_claimed_exit [OF assms(1-4) this] have E: "code = CLAIM_LOST \<and> announced_lost (rid claimed) s' \<or> code \<in> {SUCCESS, CANCELLED, FAILURE}"
    "\<And>q. code \<noteq> CLAIM_LOST \<Longrightarrow> lookup (ss_store s') (rid claimed) = Some q \<Longrightarrow> exit_of_status (status q) = code"
    by auto
  then consider "code = CLAIM_LOST" "announced_lost (rid claimed) s'" | "code = SUCCESS" | "code = CANCELLED" | "code = FAILURE" by blast
  then show ?thesis
  proof cases
    case 2
    with E(2) show ?thesis by (auto simp: exit_truthful_def exit_of_status_iff is_terminal_simp)
  qed (use E(2) in \<open>auto simp: exit_truthful_def exit_of_status_iff\<close>)
next
  case (Inl e)
  obtain o' m' where f: "fail_task (rid claimed) (''Unknown queue task: '' @ ce_repr c (task_name claimed)) False
      (Some (retry_count claimed)) None None (ce_clock c 9) (ss_store s) = (o', m')" by fastforce
  show ?thesis
  proof (cases o')
    case None
    with run Inl f show ?thesis
      by (auto simp: run_claimed_def retire_unresolvable_record_def op_simps op_bind_def [of "publish_claim_lost r g x w n" for r g x w n]
          delivery_of_def exit_truthful_def dest: publish_claim_lost_announced split: prod.splits sum.splits)
  next
    case (Some u)
    with f have "lookup m' (rid claimed) = Some u" "status u = Failed"
      by (auto simp: fail_task_def fail_record_def dest!: modify_if_result(1))
    with run Inl f Some show ?thesis
      by (auto simp: run_claimed_def retire_unresolvable_record_def op_simps delivery_of_def exit_truthful_def)
  qed
qed

lemma claim_result:
  assumes "svc_claim_task env i worker n ref t now s = (Inr (claimed, expired), s')" "mem_wf (ss_store s)"
  shows "(claimed, expired) = fst (claim_task_with_expired i n ref t now (ss_store s))"
    and "ss_store s' = snd (claim_task_with_expired i n ref t now (ss_store s))"
    and "\<And>q. claimed = Some q \<Longrightarrow> rid q = i \<and> lookup (ss_store s') i = Some q \<and> status q = Running"
proof -
  obtain x y m where C: "claim_task_with_expired i n ref t now (ss_store s) = ((x, y), m)"
    by (metis surj_pair)
  then have "x = claimed \<and> y = expired \<and> ss_store s' = m"
    using assms(1) by (auto simp: svc_claim_task_def op_simps publish_expired_event_def split: option.splits)
  with C show "(claimed, expired) = fst (claim_task_with_expired i n ref t now (ss_store s))"
    "ss_store s' = snd (claim_task_with_expired i n ref t now (ss_store s))" by simp_all
  then show "\<And>q. claimed = Some q \<Longrightarrow> rid q = i \<and> lookup (ss_store s') i = Some q \<and> status q = Running"
    using mem_wfD(2) [OF assms(2)] by (auto simp: claim_task_with_expired_def dict_simps start_record_def split: option.splits if_splits)
qed

lemma claim_announced:
  assumes "svc_claim_task env i worker n ref t now s = (Inr (claimed, expired), s')" "mem_wf (ss_store s)"
  shows "expired \<noteq> None \<Longrightarrow> announced_lost i s'"
    and "claimed = None \<Longrightarrow> expired = None \<Longrightarrow> s' = s"
  using assms mem_wfD(2) [OF assms(2), of i]
  by (auto simp: svc_claim_task_def op_simps publish_expired_event_def announced_lost_def task_event_def
      claim_task_with_expired_def expire_record_def start_record_def split: option.splits if_splits)

lemma recovery_exit:
  assumes env: "tame c" "polled env" and wf: "mem_wf (ss_store s)"
    and run: "recover_and_claim_stale_record env c r n ref s = (Inr (claimed, code), s')"
  shows "mem_wf (ss_store s') \<and> (\<forall>x. code = Some x \<longrightarrow> exit_truthful c (rid r) x (ss_store s) s') \<and>
    (\<forall>q. claimed = Some q \<longrightarrow> rid q = rid r)"
proof (cases "(claimed, code, s') = (None, None, s)")
  case True
  with wf show ?thesis by simp
next
  case False
  let ?sweep = "recover_stale_tasks env (ce_hooks c) (ce_policy c) None (consumer_stale_after c) None False (ce_clock c 3) (ce_sweep_clock c)"
  obtain out s1 where sweep: "?sweep s = (Inr out, s1)"
      "(case get_task (rid r) (ss_store s1) of
         None \<Rightarrow> op_return (None, Some SUCCESS)
       | Some q \<Rightarrow>
           if is_terminal q then op_return (None, Some SUCCESS)
           else if (case scheduled_at q of None \<Rightarrow> False | Some t \<Rightarrow> t > ce_clock c 4)
           then op_bind (schedule_persisted env q) (\<lambda>_. op_return (None, Some SUCCESS))
           else op_bind (svc_claim_task env (rid q) None None None (ce_clock c 5) (ce_clock c 6))
                  (\<lambda>(claimed, expired).
                     if expired \<noteq> None then op_return (None, Some CLAIM_LOST) else op_return (claimed, None))) s1 =
       (Inr (claimed, code), s')"
    using run False
    by (auto simp: recover_and_claim_stale_record_def op_simps op_bind_def [of ?sweep] split: option.splits if_splits prod.splits sum.splits)
  have found: "found_abandoned c (rid r) (ss_store s)"
    using run False
    by (force simp: recover_and_claim_stale_record_def op_simps found_abandoned_def get_task_def op_return_def
        split: option.splits if_splits)
  have wf1: "mem_wf (ss_store s1)"
    using wf_keepsD [OF recover_stale_wf [OF env(1)] wf] sweep(1) by (metis snd_conv)
  show ?thesis
  proof (cases "get_task (rid r) (ss_store s1)")
    case None
    with sweep(2) wf1 found show ?thesis by (auto simp: op_return_def exit_truthful_def get_task_def)
  next
    case (Some q)
    then have q: "lookup (ss_store s1) (rid r) = Some q" "rid q = rid r" using mem_wfD(2) [OF wf1] by (auto simp: get_task_def)
    show ?thesis
    proof (cases "is_terminal q \<or> (case scheduled_at q of None \<Rightarrow> False | Some t \<Rightarrow> t > ce_clock c 4)")
      case True
      with sweep(2) Some q wf1 found show ?thesis
        by (auto simp: op_return_def exit_truthful_def polled_persisted [OF env(2)] op_bind_def split: if_splits option.splits)
    next
      case False
      then obtain x y where xy: "svc_claim_task env (rid r) None None None (ce_clock c 5) (ce_clock c 6) s1 = (Inr (x, y), s')"
          "claimed = (if y = None then x else None)" "code = (if y = None then None else Some CLAIM_LOST)"
        using sweep(2) Some q(2) by (auto simp: op_bind_def op_return_def split: prod.splits sum.splits if_splits)
      have "mem_wf (ss_store s')" using wf_keepsD [OF claim_task_wf wf1] xy(1) by (metis snd_conv)
      with xy(2,3) claim_result(3) [OF xy(1) wf1] claim_announced(1) [OF xy(1) wf1] show ?thesis
        by (auto simp: exit_truthful_def split: if_splits)
    qed
  qed
qed

text \<open>Property C12: the exit code of a delivery says how the named record stands when the delivery ends, for
  every interleaving of the body with its heartbeats. \<open>SUCCESS\<close>: if the record is still there it is
  completed, unless the delivery found a running attempt without a live heartbeat; then it may also have
  finished otherwise or wait for a later time. \<open>CANCELLED\<close> and \<open>UNKNOWN_TASK\<close>: it is cancelled, has failed.
  \<open>FAILURE\<close>: it is neither completed nor cancelled; it may wait for a retry. \<open>MISSING_RECORD\<close>: there was
  none and nothing was done. \<open>CLAIM_LOST\<close>: the delivery ends by announcing the loss or the expiry of the
  record. No delivery ends with a code of the command line.\<close>

theorem consumer_exit_truthful:
  assumes env: "tame c" "polled env" "i \<noteq> ce_fresh c" and wf: "mem_wf (ss_store s)"
    and run: "consume_one env c i n ref s = (Exited code, s')"
  shows "exit_truthful c i code (ss_store s) s'"
proof (cases "get_task i (ss_store s)")
  case None
  with run show ?thesis by (auto simp: consume_one_def exit_truthful_def get_task_def)
next
  case (Some r)
  then have r: "rid r = i" using mem_wfD(2) [OF wf] by (auto simp: get_task_def)
  obtain claimed expired s1 where claim: "svc_claim_task env i None n ref (ce_clock c 0) (ce_clock c 1) s = (Inr (claimed, expired), s1)"
    using run Some r by (auto simp: consume_one_def split: prod.splits sum.splits)
  have wf1: "mem_wf (ss_store s1)" using wf_keepsD [OF claim_task_wf wf] claim by (metis snd_conv)
  consider "expired \<noteq> None" | q where "expired = None" "claimed = Some q" | "expired = None" "claimed = None" by blast
  then show ?thesis
  proof cases
    case 1
    with run Some r claim claim_announced(1) [OF claim wf] show ?thesis
      by (auto simp: consume_one_def exit_truthful_def split: option.splits)
  next
    case (2 q)
    with claim_result(3) [OF claim wf] have "rid q = i" by simp
    moreover have "run_claimed env c q s1 = (Exited code, s')" using run Some r claim 2 by (simp add: consume_one_def)
    ultimately show ?thesis using run_claimed_truthful [OF env(1,2) _ wf1] env(3) by blast
  next
    case 3
    then have s1: "s1 = s" using claim_announced(2) [OF claim wf] by simp
    obtain res s2 where rec: "recover_and_claim_stale_record env c r n ref s1 = (res, s2)" by fastforce
    with run Some r claim 3 obtain again x where res: "res = Inr (again, x)" by (auto simp: consume_one_def split: sum.splits)
    note R = recovery_exit [OF env(1,2) wf1 rec [unfolded res]]
    consider y where "x = Some y" | q where "x = None" "again = Some q" | "x = None" "again = None" by blast
    then show ?thesis
    proof cases
      case (1 y)
      with run Some r claim 3 rec res have "code = y" "s' = s2" by (auto simp: consume_one_def split: option.splits)
      with R 1 r s1 show ?thesis by simp
    next
      case (2 q)
      then have "run_claimed env c q s2 = (Exited code, s')" using run Some r claim 3 rec res by (simp add: consume_one_def)
      with R 2 r env(3) show ?thesis using run_claimed_truthful [OF env(1,2), of q s2 code s'] by simp
    next
      case none: 3
      with run Some r claim 3 rec res have "delivery_of (op_bind (publish_claim_lost r ''claim'' None None None)
          (\<lambda>_. op_return CLAIM_LOST) s2) = (Exited code, s')" by (simp add: consume_one_def)
      then have "code = CLAIM_LOST \<and> announced_lost i s'" using r
        by (auto simp: delivery_of_def op_bind_def op_return_def dest: publish_claim_lost_announced split: prod.splits sum.splits)
      then show ?thesis by (simp add: exit_truthful_def)
    qed
  qed
qed

text \<open>
  A beat that comes after the settlement misses, since the record no longer runs, and decides: the delivery
  reports \<open>CLAIM_LOST\<close> for a task that it has just completed.
\<close>

lemma late_beat_reports_claim_lost:
  assumes "resolve_task env (task_name claimed) = Inr t" "ce_turns c claimed = []" "ce_late_beat c = Some now"
    and over: "execute_record env (ce_view c) None (\<lambda>k. ce_clock c (k + 10)) (ce_fresh c) (ce_draw c)
      (watched_body c) claimed s = (Executed u, s1)"
    and "lookup (ss_store s1) (rid claimed) = Some u" "status u = Completed"
  shows "\<exists>s'. execute_claimed_record env c claimed s = (Exited CLAIM_LOST, s') \<and>
    map_option status (lookup (ss_store s') (rid claimed)) = Some Completed"
proof -
  let ?i = "rid claimed" and ?n = "retry_count claimed"
  obtain alive s2 where beat: "send_beat ?i ?n now None s1 = (alive, s2)" by fastforce
  obtain res s3 where lost: "publish_claim_lost claimed ''heartbeat'' None None (Some ?n) s2 = (res, s3)" by fastforce
  have "\<not> alive" using send_beat_result(1) [OF beat] assms(5,6) by auto
  moreover have "map_option status (lookup (ss_store s3) ?i) = Some Completed"
    using send_beat_result(3) [OF beat, of ?i] publish_claim_lost_announced [OF lost] assms(5,6) by simp
  ultimately show ?thesis using publish_claim_lost_announced [OF lost] assms(2,3) over beat lost
    by (auto simp: execute_claimed_record_def Let_def late_beat_def simp del: map_option_eq_Some)
qed

section \<open>Redelivery\<close>

lemma refused_delivery:
  assumes wf: "mem_wf (ss_store s)" and r: "lookup (ss_store s) i = Some r"
    and other: "\<not> is_waiting r \<or> \<not> fence n (retry_count r) \<or> (\<exists>x. ref = Some x \<and> execution_ref r \<noteq> ref)"
    and alive: "status r \<noteq> Running \<or> \<not> fence n (retry_count r) \<or> (\<exists>x. ref = Some x \<and> execution_ref r \<noteq> ref) \<or>
      (\<exists>t. heartbeat_at r = Some t \<and> t > ce_clock c 2 - consumer_stale_after c)"
  shows "consume_one env c i n ref s = (Exited CLAIM_LOST, s\<lparr>ss_events := ss_events s @
    [task_event ''task.claim_lost'' r None (retry_count r + 1) (Some ''Queue task ownership lost'')
       (claim_lost_payload ''claim'' (retry_count r) r)]\<rparr>)"
proof -
  have i: "rid r = i" using mem_wfD(2) [OF wf r] .
  have claim: "claim_task_with_expired i n ref t now (ss_store s) = ((None, None), ss_store s)" for t now
    using other by (auto simp: claim_task_with_expired_def r claimable_def)
  have recover: "recover_and_claim_stale_record env c r n ref s = (Inr (None, None), s)"
    using alive by (auto simp: recover_and_claim_stale_record_def op_simps get_task_def i r)
  have "svc_claim_task env i None n ref (ce_clock c 0) (ce_clock c 1) s = (Inr (None, None), s)"
    by (simp add: svc_claim_task_def op_bind_def svc_store_def claim op_return_def)
  with recover show ?thesis
    by (simp add: consume_one_def get_task_def r i publish_claim_lost_def current_or_claimed_def op_simps Let_def delivery_of_def)
qed

text \<open>a duplicate or late delivery does nothing: when the record the message names is no longer
  waiting, or waits for another attempt or delivery than the one the message was sent for, and it is not a
  running attempt of that delivery that vanished, the delivery ends with \<open>CLAIM_LOST\<close>, announces the loss
  and leaves the store as it is, whatever the body would do.\<close>

theorem duplicate_delivery_refused:
  assumes "mem_wf (ss_store s)" and "lookup (ss_store s) i = Some r"
    and "\<not> is_waiting r \<or> \<not> fence n (retry_count r) \<or> (\<exists>x. ref = Some x \<and> execution_ref r \<noteq> ref)"
    and "status r \<noteq> Running \<or> \<not> fence n (retry_count r) \<or> (\<exists>x. ref = Some x \<and> execution_ref r \<noteq> ref) \<or>
      (\<exists>t. heartbeat_at r = Some t \<and> t > ce_clock c 2 - consumer_stale_after c)"
  shows "consume_one env c i n ref s = (Exited CLAIM_LOST, s\<lparr>ss_events := ss_events s @
    [task_event ''task.claim_lost'' r None (retry_count r + 1) (Some ''Queue task ownership lost'')
       (claim_lost_payload ''claim'' (retry_count r) r)]\<rparr>)"
  using assms by (rule refused_delivery)

lemma recover_without_hooks:
  assumes "requeue_stale_running (sv_parse_float env) policy after limit now clk (ss_store s) = (res, m)"
  shows "\<exists>s'. recover_stale_tasks env (\<lambda>_. None) policy worker after limit False now clk s = (res, s') \<and> ss_store s' = m"
proof (cases res)
  case (Inl e)
  with assms show ?thesis by (simp add: recover_stale_tasks_def op_bind_def svc_fallible_def)
next
  case (Inr out)
  have "\<exists>s'. publish_stale_failed_events env (\<lambda>_. None) worker out s = (Inr (), s') \<and> ss_store s' = ss_store s" for s
    unfolding publish_stale_failed_events_def
    by (rule op_for_each_store) (auto simp: op_simps invoke_stale_failure_hook_def split: option.split sum.split)
  then obtain s2 where s2: "publish_stale_failed_events env (\<lambda>_. None) worker out (s\<lparr>ss_store := m\<rparr>) = (Inr (), s2)"
      "ss_store s2 = m"
    by fastforce
  have "svc_fallible (requeue_stale_running (sv_parse_float env) policy after limit now clk) s = (Inr out, s\<lparr>ss_store := m\<rparr>)"
    by (simp add: svc_fallible_def assms Inr)
  then show ?thesis
    using s2 Inr by (simp add: recover_stale_tasks_def op_simps
        op_bind_simps(2) [where m = "publish_stale_failed_events env (\<lambda>_. None) worker out", OF s2(1)])
qed

lemma swept_record:
  assumes wf: "mem_wf m" and r: "lookup m i = Some r" "is_stale (now - after) r"
    and sweep: "requeue_stale_running parse policy after None now clk m = (Inr out, m')"
  shows "\<exists>q. lookup m' i = Some q \<and> recovered_as r q"
proof -
  let ?rs = "sort_key stale_sort_key (filter (is_stale (now - after)) (mem_values m))"
  have "distinct (map rid ?rs)"
    using mem_wf_distinct_rids(2) [OF wf] by (simp add: distinct_map_sort_key distinct_map_filter)
  moreover have "r \<in> set ?rs"
    using r by (force dest: map_of_SomeD)
  moreover have "rid r = i" using mem_wfD(2) [OF wf r(1)] .
  ultimately show ?thesis
    using stale_loop_result [OF sweep [unfolded requeue_stale_running_def take_limit.simps]] by auto
qed

text \<open>a delivery for a running record whose consumer vanished takes its attempt over: the old lease
  is gone for good, and either the record has failed with its budget used up, or it is at the next
  attempt, which this consumer runs when it is due.\<close>

theorem vanished_consumer_replaced:
  assumes wf: "mem_wf (ss_store s)" and hooks: "tame c" "ce_hooks c = (\<lambda>_. None)" and env: "polled env"
    and r: "lookup (ss_store s) i = Some r" "status r = Running"
    and fences: "fence n (retry_count r)" "ref = None \<or> execution_ref r = ref"
    and stale: "\<And>t. heartbeat_at r = Some t \<Longrightarrow> t < ce_clock c 2 - consumer_stale_after c" "ce_clock c 2 \<le> ce_clock c 3"
    and run: "recover_and_claim_stale_record env c r n ref s = (Inr (claimed, code), s')"
  shows "\<exists>q. lookup (ss_store s') i = Some q \<and>
    (if recoverable r
     then retry_count q = retry_count r + 1 \<and> (claimed = Some q \<and> status q = Running \<or> claimed = None \<and> status q \<noteq> Running)
     else status q = Failed \<and> retry_count q = retry_count r \<and> claimed = None \<and> code = Some SUCCESS)"
proof -
  let ?sweep = "recover_stale_tasks env (\<lambda>_. None) (ce_policy c) None (consumer_stale_after c) None False (ce_clock c 3) (ce_sweep_clock c)"
  have i: "rid r = i" using mem_wfD(2) [OF wf r(1)] .
  have old: "\<not> (case heartbeat_at r of None \<Rightarrow> False | Some t \<Rightarrow> t > ce_clock c 2 - consumer_stale_after c)"
    using stale(1) by (cases "heartbeat_at r") auto
  obtain out s1 where sweep: "?sweep s = (Inr out, s1)"
      "(case get_task i (ss_store s1) of
         None \<Rightarrow> op_return (None, Some SUCCESS)
       | Some q \<Rightarrow>
           if is_terminal q then op_return (None, Some SUCCESS)
           else if (case scheduled_at q of None \<Rightarrow> False | Some t \<Rightarrow> t > ce_clock c 4)
           then op_bind (schedule_persisted env q) (\<lambda>_. op_return (None, Some SUCCESS))
           else op_bind (svc_claim_task env (rid q) None None None (ce_clock c 5) (ce_clock c 6))
                  (\<lambda>(claimed, expired).
                     if expired \<noteq> None then op_return (None, Some CLAIM_LOST) else op_return (claimed, None))) s1 =
       (Inr (claimed, code), s')"
    using run fences old r
    by (auto simp: recover_and_claim_stale_record_def op_simps get_task_def i hooks(2) op_bind_def [of ?sweep]
        split: prod.splits sum.splits)
  have "is_stale (ce_clock c 3 - consumer_stale_after c) r"
    using r(2) stale by (force simp: is_stale_def split: option.split)
  moreover obtain res m where "requeue_stale_running (sv_parse_float env) (ce_policy c) (consumer_stale_after c) None (ce_clock c 3)
      (ce_sweep_clock c) (ss_store s) = (res, m)" by fastforce
  with recover_without_hooks [OF this, of None] sweep(1) have "requeue_stale_running (sv_parse_float env) (ce_policy c)
      (consumer_stale_after c) None (ce_clock c 3) (ce_sweep_clock c) (ss_store s) = (Inr out, ss_store s1)" by auto
  ultimately have "\<exists>q. lookup (ss_store s1) i = Some q \<and> recovered_as r q" by (rule swept_record [OF wf r(1)])
  then
  obtain q where q: "lookup (ss_store s1) i = Some q" "recovered_as r q" by blast
  have wf1: "mem_wf (ss_store s1)"
    using wf_keepsD [OF recover_stale_wf [OF hooks(1)] wf] sweep(1) unfolding hooks(2) by (metis snd_conv)
  have qi: "rid q = i" using mem_wfD(2) [OF wf1 q(1)] .
  show ?thesis
  proof (cases "recoverable r")
    case False
    with q sweep(2) show ?thesis by (auto simp: get_task_def recovered_as_def is_terminal_simp op_return_def)
  next
    case True
    then have w: "is_waiting q" "retry_count q = retry_count r + 1" using q(2) by (auto simp: recovered_as_def)
    show ?thesis
    proof (cases "case scheduled_at q of None \<Rightarrow> False | Some t \<Rightarrow> t > ce_clock c 4")
      case later: True
      with sweep(2) q(1) w True show ?thesis
        by (auto simp: get_task_def is_terminal_simp polled_persisted [OF env] op_simps op_return_def is_waiting_def split: if_splits)
    next
      case False
      then obtain x y where xy: "svc_claim_task env i None None None (ce_clock c 5) (ce_clock c 6) s1 = (Inr (x, y), s')"
          "claimed = (if y = None then x else None)"
        using sweep(2) q(1) qi w(1) by (auto simp: get_task_def is_terminal_simp is_waiting_def op_bind_def op_return_def
            split: prod.splits sum.splits if_splits)
      with claim_result(1,2) [OF xy(1) wf1] q(1) w True show ?thesis
        by (auto simp: claim_task_with_expired_def dict_simps start_record_def expire_record_def is_waiting_def split: if_splits)
    qed
  qed
qed

section \<open>Witnesses\<close>

definition ex_consumer :: "(nat \<Rightarrow> instant) \<Rightarrow> consumer_env" where
  "ex_consumer clk = \<lparr>ce_view = LiveObject, ce_clock = clk, ce_fresh = 9, ce_draw = 0,
     ce_maintenance_stale_after = None, ce_worker_stale_after = None, ce_policy = Preserve, ce_hooks = (\<lambda>_. None),
     ce_sweep_clock = (\<lambda>_. 1000000000), ce_repr = (\<lambda>t. t), ce_turns = (\<lambda>_. []),
     ce_finish = (\<lambda>r s. (BodyReturned (PInt 1), s)), ce_cancelled = (\<lambda>r s. (BodyCancelled, s)), ce_late_beat = None\<rparr>"

lemma ex_tame: "tame (ex_consumer clk)"
  by (simp add: tame_def ex_consumer_def policy_total_def)

lemma ex_unregistered: "resolve_task ex_env (task_name ex_started) = Inl KeyError"
  by (simp add: resolve_task_def ex_env_def ex_defs)

lemma consumer_exit_truthful_witness:
  "\<exists>s' q. consume_one ex_env (ex_consumer (\<lambda>n. 110)) 7 None None (ex_svc (ex_state ex_record)) = (Exited UNKNOWN_TASK, s') \<and>
     lookup (ss_store s') 7 = Some q \<and> status q = Failed"
proof -
  have "rid ex_record = 7" by (simp add: ex_defs)
  moreover have "fail_task 7 e False (Some 0) None None 110 (ex_state ex_started) =
      (Some (fail_record e False None None 110 ex_started), ex_state (fail_record e False None None 110 ex_started))" for e
    using ex_started_fields by (simp add: fail_task_def modify_if_def attempt_fence_def)
  ultimately obtain s' where run: "consume_one ex_env (ex_consumer (\<lambda>n. 110)) 7 None None (ex_svc (ex_state ex_record)) =
      (Exited UNKNOWN_TASK, s')"
    using ex_started_fields
    by (simp add: consume_one_def get_task_def ex_svc_def svc_claim_task_def op_simps ex_consumer_def ex_claim_first
        run_claimed_def ex_unregistered retire_unresolvable_record_def delivery_of_def)
  have "exit_truthful (ex_consumer (\<lambda>n. 110)) 7 UNKNOWN_TASK (ss_store (ex_svc (ex_state ex_record))) s'"
    by (rule consumer_exit_truthful [OF ex_tame ex_polled _ _ run])
      (simp_all add: ex_consumer_def ex_svc_def mem_reachable_wf)
  then show ?thesis using run by (auto simp: exit_truthful_def)
qed

lemma duplicate_delivery_refused_witness:
  "ss_store (snd (consume_one ex_env (ex_consumer (\<lambda>n. 200)) 7 (Some 5) None (ex_svc (ex_state ex_started)))) = ex_state ex_started"
  using duplicate_delivery_refused [where s = "ex_svc (ex_state ex_started)" and i = 7 and r = ex_started and n = "Some 5"
      and c = "ex_consumer (\<lambda>n. 200)" and env = ex_env and ref = None] ex_started_fields
  by (simp add: ex_svc_def mem_reachable_wf)

lemma vanished_consumer_replaced_witness:
  "\<exists>s' q. recover_and_claim_stale_record ex_env (ex_consumer (\<lambda>n. 1000000000)) ex_restarted None None
       (ex_svc (ex_state ex_restarted)) = (Inr (None, Some SUCCESS), s') \<and>
     lookup (ss_store s') 7 = Some q \<and> status q = Failed"
proof -
  let ?c = "ex_consumer (\<lambda>n. 1000000000)"
  let ?sweep = "requeue_stale_running (sv_parse_float ex_env) Preserve 300000000 None 1000000000 (\<lambda>_. 1000000000)"
  have rec: "\<not> recoverable ex_restarted" by (simp add: recoverable_def attempts_consumed_def)
  then have ends: "stale_step parse Preserve t ex_restarted = Exhausted (ex_restarted\<lparr>status := Failed, completed_at := Some t,
      heartbeat_at := None, error := Some STALE_HEARTBEAT_ERROR\<rparr>)" for parse t
    by (auto simp: stale_step_def recoverable_def)
  have beat: "heartbeat_at ex_restarted = Some 130" by (simp add: ex_restarted_def start_record_def)
  then have stale: "is_stale (1000000000 - 300000000) ex_restarted" by (simp add: is_stale_def ex_started_fields)
  then have "\<exists>out. fst (?sweep (ex_state ex_restarted)) = Inr out"
    by (simp add: requeue_stale_running_def ends Let_def)
  then obtain out m where swept: "?sweep (ss_store (ex_svc (ex_state ex_restarted))) = (Inr out, m)"
    by (metis prod.collapse ex_svc_def svc_state.select_convs(1))
  obtain s1 where s1: "recover_stale_tasks ex_env (\<lambda>_. None) Preserve None 300000000 None False 1000000000 (\<lambda>_. 1000000000)
      (ex_svc (ex_state ex_restarted)) = (Inr out, s1)" "ss_store s1 = m"
    using recover_without_hooks [OF swept] by blast
  have wf: "mem_wf (ss_store (ex_svc (ex_state ex_restarted)))" by (simp add: ex_svc_def mem_reachable_wf)
  have found: "lookup (ss_store (ex_svc (ex_state ex_restarted))) 7 = Some ex_restarted" by (simp add: ex_svc_def)
  obtain q where q: "lookup m 7 = Some q" "status q = Failed"
    using swept_record [OF wf found stale swept] rec by (auto simp: recovered_as_def)
  have run: "recover_and_claim_stale_record ex_env ?c ex_restarted None None (ex_svc (ex_state ex_restarted)) = (Inr (None, Some SUCCESS), s1)"
    using s1 q beat ex_started_fields found
    by (simp add: recover_and_claim_stale_record_def op_simps get_task_def ex_consumer_def consumer_stale_after_def is_terminal_simp
        op_bind_def [of "recover_stale_tasks e h p w a l d t k" for e h p w a l d t k])
  note replaced = vanished_consumer_replaced [OF wf ex_tame _ ex_polled found _ _ _ _ _ run]
  have "\<exists>q. lookup (ss_store s1) 7 = Some q \<and> status q = Failed"
    using replaced rec beat ex_started_fields by (auto simp: ex_consumer_def consumer_stale_after_def)
  with run show ?thesis by auto
qed

end
