(* ===== verification/Heartbeat.thy ===== *)
theory Heartbeat
  imports Memory_Sweeps Schedules
begin

text \<open>
  The heartbeat loop of a worker (\<open>worker/heartbeat.py\<close>): the registrations with their miss
  counters, the pending progress details, one bulk touch per tick, and the detection of lost claims.
  The backend is the contract of a locale, discharged by the in-memory backend.
\<close>

section \<open>Reading a UUID\<close>

text \<open>\<open>UUID(text)\<close>: the prefixes, braces and hyphens are removed, 32 characters must remain, and
  \<open>int(text, 16)\<close> must accept them. \<open>skip\<close> characters of a removed occurrence are still to be
  dropped.\<close>

fun remove_all :: "string \<Rightarrow> nat \<Rightarrow> string \<Rightarrow> string" where
  "remove_all pat skip [] = []"
| "remove_all pat (Suc skip) (c # cs) = remove_all pat skip cs"
| "remove_all pat 0 (c # cs) =
     (if take (length pat) (c # cs) = pat then remove_all pat (length pat - 1) cs else c # remove_all pat 0 cs)"

definition strip_braces :: "string \<Rightarrow> string" where
  "strip_braces s =
     (let brace = (\<lambda>c. c = CHR ''{'' \<or> c = CHR ''}'') in
      rev (dropWhile brace (rev (dropWhile brace s))))"

definition hex_value :: "char \<Rightarrow> nat option" where
  "hex_value c =
     (if CHR ''0'' \<le> c \<and> c \<le> CHR ''9'' then Some (of_char c - 48)
      else if CHR ''a'' \<le> c \<and> c \<le> CHR ''f'' then Some (of_char c - 87)
      else if CHR ''A'' \<le> c \<and> c \<le> CHR ''F'' then Some (of_char c - 55)
      else None)"

fun hex_int :: "nat \<Rightarrow> bool \<Rightarrow> string \<Rightarrow> nat option" where
  "hex_int acc after_digit [] = (if after_digit then Some acc else None)"
| "hex_int acc after_digit (c # cs) =
     (if c = CHR ''_'' then (if after_digit then hex_int acc False cs else None)
      else case hex_value c of None \<Rightarrow> None | Some d \<Rightarrow> hex_int (acc * 16 + d) True cs)"

text \<open>\<open>0x\<close> counts as a digit that an underscore may follow; a negative number is not a UUID
  unless it is zero.\<close>

definition py_int_of_hex :: "string \<Rightarrow> nat option" where
  "py_int_of_hex s =
     (let t = py_strip s;
          negative = (t \<noteq> [] \<and> hd t = CHR ''-'');
          u = (if t \<noteq> [] \<and> (hd t = CHR ''-'' \<or> hd t = CHR ''+'') then tl t else t);
          v = (if take 2 u = ''0x'' \<or> take 2 u = ''0X'' then drop 2 u else u);
          v' = (if v \<noteq> u \<and> v \<noteq> [] \<and> hd v = CHR ''_'' then tl v else v)
      in case hex_int 0 False v' of
           None \<Rightarrow> None
         | Some n \<Rightarrow> if negative \<and> n \<noteq> 0 then None else Some n)"

definition uuid_parse :: "string \<Rightarrow> uuid option" where
  "uuid_parse s =
     (let h = remove_all ''-'' 0 (strip_braces (remove_all ''uuid:'' 0 (remove_all ''urn:'' 0 s))) in
      if length h \<noteq> 32 then None else py_int_of_hex h)"

section \<open>Registrations\<close>

record registration =
  rg_expected_retry_count :: "int option"
  rg_consecutive_misses :: int

record heartbeat_manager =
  wh_miss_threshold :: int
  wh_registrations :: "(uuid \<times> registration) list"
  wh_beats :: "(uuid \<times> string option) list"

definition heartbeat_init :: "int \<Rightarrow> heartbeat_manager" where
  "heartbeat_init miss_threshold =
     \<lparr>wh_miss_threshold = max 1 miss_threshold, wh_registrations = [], wh_beats = []\<rparr>"

definition register :: "uuid \<Rightarrow> int option \<Rightarrow> heartbeat_manager \<Rightarrow> heartbeat_manager" where
  "register i expected m =
     m\<lparr>wh_registrations := dict_set i \<lparr>rg_expected_retry_count = expected, rg_consecutive_misses = 0\<rparr>
         (wh_registrations m)\<rparr>"

definition unregister :: "uuid \<Rightarrow> heartbeat_manager \<Rightarrow> heartbeat_manager" where
  "unregister i m =
     (if dict_get (wh_registrations m) i = None then m
      else m\<lparr>wh_registrations := dict_del i (wh_registrations m), wh_beats := dict_del i (wh_beats m)\<rparr>)"

definition record_beat :: "string \<Rightarrow> string option \<Rightarrow> heartbeat_manager \<Rightarrow> heartbeat_manager" where
  "record_beat task_id detail m =
     (case uuid_parse task_id of
        None \<Rightarrow> m
      | Some i \<Rightarrow>
          if dict_get (wh_registrations m) i \<noteq> None
          then m\<lparr>wh_beats := dict_set i (map_option (take 256) detail) (wh_beats m)\<rparr> else m)"

section \<open>A tick\<close>

definition beat_of :: "heartbeat_manager \<Rightarrow> uuid \<Rightarrow> string option" where
  "beat_of m i = (case dict_get (wh_beats m) i of None \<Rightarrow> None | Some detail \<Rightarrow> detail)"

definition tick_touches :: "heartbeat_manager \<Rightarrow> heartbeat_touch list" where
  "tick_touches m =
     map (\<lambda>(i, rg). \<lparr>ht_task_id = i, ht_expected_retry_count = rg_expected_retry_count rg,
         ht_metadata_patch =
           (case beat_of m i of
              None \<Rightarrow> None
            | Some detail \<Rightarrow> if detail = [] then None else Some [(''progress_detail'', PStr detail)])\<rparr>)
       (wh_registrations m)"

definition confirm_touch :: "uuid \<Rightarrow> heartbeat_manager \<Rightarrow> heartbeat_manager" where
  "confirm_touch i m =
     (case dict_get (wh_registrations m) i of
        None \<Rightarrow> m
      | Some rg \<Rightarrow>
          m\<lparr>wh_registrations := dict_set i (rg\<lparr>rg_consecutive_misses := 0\<rparr>) (wh_registrations m),
            wh_beats := dict_del i (wh_beats m)\<rparr>)"

text \<open>
  A tick awaits the backend, and the other coroutines of the worker run meanwhile: they register and
  unregister tasks and record progress. What they call during one await is a list.
\<close>

datatype hb_call = HbRegister uuid "int option" | HbUnregister uuid | HbBeat string "string option"

fun hb_do :: "hb_call \<Rightarrow> heartbeat_manager \<Rightarrow> heartbeat_manager" where
  "hb_do (HbRegister i expected) m = register i expected m"
| "hb_do (HbUnregister i) m = unregister i m"
| "hb_do (HbBeat task_id detail) m = record_beat task_id detail m"

definition hb_calls :: "hb_call list \<Rightarrow> heartbeat_manager \<Rightarrow> heartbeat_manager" where
  "hb_calls cs m = fold hb_do cs m"

text \<open>
  \<open>_publish_claim_lost\<close> reads the record and announces the loss, unless the record is gone; when either
  raises, the registration is kept for the next tick. \<open>announce\<close> is the answer together with the calls of
  the other coroutines until it comes. The tasks that are dropped, and thereby cancelled in the worker, are
  collected with their answers.
\<close>

datatype announcement = LossAnnounced | RecordGone | AnnounceFailed

type_synonym announcer = "uuid \<Rightarrow> int option \<Rightarrow> announcement \<times> hb_call list"

type_synonym dropped = "(uuid \<times> int option \<times> announcement) list"

definition announce_loss ::
    "announcer \<Rightarrow> uuid \<Rightarrow> int option \<Rightarrow> dropped \<times> heartbeat_manager \<Rightarrow> dropped \<times> heartbeat_manager" where
  "announce_loss announce i expected acc =
     (case (acc, announce i expected) of ((lost, m), (answer, calls)) \<Rightarrow>
        if answer = AnnounceFailed then (lost, hb_calls calls m)
        else (lost @ [(i, expected, answer)], unregister i (hb_calls calls m)))"

text \<open>The registration is read when the result has come: it may be another one than that of the touch.\<close>

definition count_miss :: "announcer \<Rightarrow> uuid \<Rightarrow> dropped \<times> heartbeat_manager \<Rightarrow> dropped \<times> heartbeat_manager" where
  "count_miss announce i acc =
     (case acc of (lost, m) \<Rightarrow>
        (case dict_get (wh_registrations m) i of
           None \<Rightarrow> (lost, m)
         | Some rg \<Rightarrow>
             let rg' = rg\<lparr>rg_consecutive_misses := rg_consecutive_misses rg + 1\<rparr>;
                 m' = m\<lparr>wh_registrations := dict_set i rg' (wh_registrations m)\<rparr>
             in if rg_consecutive_misses rg' \<ge> wh_miss_threshold m'
                then announce_loss announce i (rg_expected_retry_count rg') (lost, m')
                else (lost, m')))"

definition apply_result :: "announcer \<Rightarrow> heartbeat_touch_result \<Rightarrow> heartbeat_manager \<Rightarrow> dropped \<times> heartbeat_manager" where
  "apply_result announce res m =
     fold (count_miss announce) (missed_task_ids res) ([], fold confirm_touch (touched_task_ids res) m)"

text \<open>
  \<open>touch\<close> is the backend call; \<open>None\<close> is an exception, which only records a failure. \<open>meanwhile\<close> are the
  calls of the other coroutines between the touch and its result.
\<close>

definition tick ::
    "(heartbeat_touch list \<Rightarrow> 's \<Rightarrow> heartbeat_touch_result option \<times> 's) \<Rightarrow> hb_call list \<Rightarrow> announcer \<Rightarrow>
     heartbeat_manager \<Rightarrow> 's \<Rightarrow> dropped \<times> heartbeat_manager \<times> 's" where
  "tick touch meanwhile announce m s =
     (if wh_registrations m = [] then ([], m, s)
      else case touch (tick_touches m) s of
             (None, s') \<Rightarrow> ([], hb_calls meanwhile m, s')
           | (Some res, s') \<Rightarrow> (let (lost, m') = apply_result announce res (hb_calls meanwhile m) in (lost, m', s')))"

section \<open>Lookup after the parts of a tick\<close>

abbreviation registered :: "heartbeat_manager \<Rightarrow> uuid \<Rightarrow> registration option" where
  "registered m i \<equiv> dict_get (wh_registrations m) i"

text \<open>Calls that leave the registration of a task alone; progress may be recorded.\<close>

definition leaves_alone :: "uuid \<Rightarrow> hb_call list \<Rightarrow> bool" where
  "leaves_alone i cs \<longleftrightarrow> HbUnregister i \<notin> set cs \<and> (\<forall>c \<in> set cs. \<forall>n. c \<noteq> HbRegister i n)"

lemma hb_calls_registered:
  "wh_miss_threshold (hb_calls cs m) = wh_miss_threshold m"
  "leaves_alone i cs \<Longrightarrow> registered (hb_calls cs m) i = registered m i"
  "distinct (map fst (wh_registrations m)) \<Longrightarrow> distinct (map fst (wh_registrations (hb_calls cs m)))"
proof -
  have "wh_miss_threshold (hb_calls cs m) = wh_miss_threshold m \<and>
    (leaves_alone i cs \<longrightarrow> registered (hb_calls cs m) i = registered m i) \<and>
    (distinct (map fst (wh_registrations m)) \<longrightarrow> distinct (map fst (wh_registrations (hb_calls cs m))))"
  proof (induction cs arbitrary: m)
    case (Cons c cs)
    have "wh_miss_threshold (hb_do c m) = wh_miss_threshold m"
      "leaves_alone i (c # cs) \<Longrightarrow> registered (hb_do c m) i = registered m i"
      "distinct (map fst (wh_registrations m)) \<Longrightarrow> distinct (map fst (wh_registrations (hb_do c m)))"
      by (cases c; auto simp: leaves_alone_def register_def unregister_def record_beat_def dict_simps distinct_update
          distinct_delete split: option.split)+
    with Cons.IH [of "hb_do c m"] show ?case by (auto simp: hb_calls_def leaves_alone_def)
  qed (simp add: hb_calls_def)
  then show "wh_miss_threshold (hb_calls cs m) = wh_miss_threshold m"
    "leaves_alone i cs \<Longrightarrow> registered (hb_calls cs m) i = registered m i"
    "distinct (map fst (wh_registrations m)) \<Longrightarrow> distinct (map fst (wh_registrations (hb_calls cs m)))" by blast+
qed

lemma confirm_registered:
  "registered (confirm_touch j m) i =
     (if i = j then map_option (\<lambda>rg. rg\<lparr>rg_consecutive_misses := 0\<rparr>) (registered m i) else registered m i)"
  by (auto simp: confirm_touch_def dict_simps split: option.split)

lemma confirm_all_registered:
  "registered (fold confirm_touch is m) i =
     (if i \<in> set is then map_option (\<lambda>rg. rg\<lparr>rg_consecutive_misses := 0\<rparr>) (registered m i) else registered m i)"
  by (induction "is" arbitrary: m) (auto simp: confirm_registered option.map_comp comp_def)

lemma confirm_threshold [simp]: "wh_miss_threshold (fold confirm_touch is m) = wh_miss_threshold m"
proof (induction "is" arbitrary: m)
  case (Cons i "is")
  have "wh_miss_threshold (confirm_touch i m) = wh_miss_threshold m"
    by (simp add: confirm_touch_def split: option.split)
  with Cons show ?case by simp
qed simp

definition after_miss :: "announcer \<Rightarrow> int \<Rightarrow> uuid \<Rightarrow> registration option \<Rightarrow> registration option" where
  "after_miss announce threshold i r =
     (case r of
        None \<Rightarrow> None
      | Some rg \<Rightarrow>
          if rg_consecutive_misses rg + 1 \<ge> threshold \<and> fst (announce i (rg_expected_retry_count rg)) \<noteq> AnnounceFailed then None
          else Some (rg\<lparr>rg_consecutive_misses := rg_consecutive_misses rg + 1\<rparr>))"

text \<open>Nobody registers or unregisters the task while a loss is announced.\<close>

definition quiet_announcer :: "uuid \<Rightarrow> announcer \<Rightarrow> bool" where
  "quiet_announcer i announce \<longleftrightarrow> (\<forall>j n. leaves_alone i (snd (announce j n)))"

lemma count_miss_registered:
  assumes "quiet_announcer i announce"
  shows "registered (snd (count_miss announce j (lost, m))) i =
     (if i = j then after_miss announce (wh_miss_threshold m) i (registered m i) else registered m i)"
    and "(i, n, a) \<in> set (fst (count_miss announce j (lost, m))) \<longleftrightarrow> (i, n, a) \<in> set lost \<or>
     i = j \<and> (\<exists>rg. registered m i = Some rg \<and> n = rg_expected_retry_count rg \<and> a = fst (announce i n) \<and>
        after_miss announce (wh_miss_threshold m) i (registered m i) = None)"
    and "wh_miss_threshold (snd (count_miss announce j (lost, m))) = wh_miss_threshold m"
proof -
  have q: "leaves_alone i calls" if "announce k e = (answer, calls)" for k e answer calls
    using assms that by (metis quiet_announcer_def snd_conv)
  show "registered (snd (count_miss announce j (lost, m))) i =
      (if i = j then after_miss announce (wh_miss_threshold m) i (registered m i) else registered m i)"
    "(i, n, a) \<in> set (fst (count_miss announce j (lost, m))) \<longleftrightarrow> (i, n, a) \<in> set lost \<or>
     i = j \<and> (\<exists>rg. registered m i = Some rg \<and> n = rg_expected_retry_count rg \<and> a = fst (announce i n) \<and>
        after_miss announce (wh_miss_threshold m) i (registered m i) = None)"
    "wh_miss_threshold (snd (count_miss announce j (lost, m))) = wh_miss_threshold m"
    using q
    by (auto simp: count_miss_def announce_loss_def after_miss_def unregister_def hb_calls_registered dict_simps Let_def
        split: option.split prod.split)
qed

lemma count_misses:
  assumes "distinct is" "quiet_announcer i announce"
  shows "registered (snd (fold (count_miss announce) is (lost, m))) i =
      (if i \<in> set is then after_miss announce (wh_miss_threshold m) i (registered m i) else registered m i) \<and>
    ((i, n, a) \<in> set (fst (fold (count_miss announce) is (lost, m))) \<longleftrightarrow> (i, n, a) \<in> set lost \<or>
      i \<in> set is \<and> (\<exists>rg. registered m i = Some rg \<and> n = rg_expected_retry_count rg \<and> a = fst (announce i n) \<and>
        after_miss announce (wh_miss_threshold m) i (registered m i) = None)) \<and>
    wh_miss_threshold (snd (fold (count_miss announce) is (lost, m))) = wh_miss_threshold m"
  using assms(1)
proof (induction "is" arbitrary: lost m)
  case (Cons j "is")
  obtain lost1 m1 where one: "count_miss announce j (lost, m) = (lost1, m1)" by fastforce
  note step = count_miss_registered [OF assms(2), where j = j and lost = lost and m = m, unfolded one fst_conv snd_conv]
  show ?case using Cons.prems Cons.IH [of lost1 m1] step by (cases "i = j") (simp_all add: one)
qed simp

section \<open>The backend contract\<close>

text \<open>\<open>hits s t\<close>: in the state \<open>s\<close> the attempt that the touch \<open>t\<close> names is running.\<close>

locale heartbeat_store =
  fixes touch :: "heartbeat_touch list \<Rightarrow> 's \<Rightarrow> heartbeat_touch_result option \<times> 's"
    and hits :: "'s \<Rightarrow> heartbeat_touch \<Rightarrow> bool"
  assumes touch_law: "touch ts s = (Some res, s') \<Longrightarrow>
      set (touched_task_ids res) = ht_task_id ` {t \<in> set ts. hits s t} \<and>
      set (missed_task_ids res) = ht_task_id ` {t \<in> set ts. \<not> hits s t} \<and> distinct (missed_task_ids res)"
    and hits_id: "ht_task_id t = ht_task_id u \<Longrightarrow> ht_expected_retry_count t = ht_expected_retry_count u \<Longrightarrow>
      hits s t \<longleftrightarrow> hits s u"
begin

definition alive :: "'s \<Rightarrow> uuid \<Rightarrow> int option \<Rightarrow> bool" where
  "alive s i n \<longleftrightarrow> hits s \<lparr>ht_task_id = i, ht_expected_retry_count = n, ht_metadata_patch = None\<rparr>"

lemma hits_alive: "hits s t \<longleftrightarrow> alive s (ht_task_id t) (ht_expected_retry_count t)"
  unfolding alive_def by (rule hits_id) simp_all

lemma touches_of_tick:
  assumes "distinct (map fst (wh_registrations m))"
  shows "ht_task_id ` {t \<in> set (tick_touches m). P (alive s (ht_task_id t) (ht_expected_retry_count t))} =
    {i. \<exists>rg. registered m i = Some rg \<and> P (alive s i (rg_expected_retry_count rg))}"
  using assms by (force simp: tick_touches_def image_iff dest: map_of_SomeD map_of_is_SomeI)

text \<open>The registration of a task that others leave alone, after a tick, and the losses the tick reports.\<close>

lemma tick_registered:
  assumes d: "distinct (map fst (wh_registrations m))"
    and quiet: "leaves_alone i meanwhile" "quiet_announcer i announce"
    and run: "tick touch meanwhile announce m s = (lost, m', s')" and ok: "touch (tick_touches m) s = (Some res, s')"
  shows "registered m' i =
      (case registered m i of
         None \<Rightarrow> None
       | Some rg \<Rightarrow>
           if alive s i (rg_expected_retry_count rg) then Some (rg\<lparr>rg_consecutive_misses := 0\<rparr>)
           else after_miss announce (wh_miss_threshold m) i (Some rg)) \<and>
    ((i, n, a) \<in> set lost \<longleftrightarrow> (\<exists>rg. registered m i = Some rg \<and> n = rg_expected_retry_count rg \<and> a = fst (announce i n) \<and>
      \<not> alive s i n \<and> after_miss announce (wh_miss_threshold m) i (Some rg) = None)) \<and>
    wh_miss_threshold m' = wh_miss_threshold m"
proof (cases "wh_registrations m = []")
  case True
  with run show ?thesis by (simp add: tick_def)
next
  case False
  have touched: "set (touched_task_ids res) = {i. \<exists>rg. registered m i = Some rg \<and> alive s i (rg_expected_retry_count rg)}"
    and missed: "set (missed_task_ids res) = {i. \<exists>rg. registered m i = Some rg \<and> \<not> alive s i (rg_expected_retry_count rg)}"
    and dist: "distinct (missed_task_ids res)"
    using touch_law [OF ok] touches_of_tick [OF d, of "\<lambda>x. x"] touches_of_tick [OF d, of "\<lambda>x. \<not> x"]
    by (simp_all add: hits_alive)
  define m1 where "m1 = fold confirm_touch (touched_task_ids res) (hb_calls meanwhile m)"
  have m1: "registered m1 i = (case registered m i of None \<Rightarrow> None
      | Some rg \<Rightarrow> if alive s i (rg_expected_retry_count rg) then Some (rg\<lparr>rg_consecutive_misses := 0\<rparr>) else Some rg)"
    "wh_miss_threshold m1 = wh_miss_threshold m"
    by (auto simp: m1_def confirm_all_registered touched hb_calls_registered(1) hb_calls_registered(2) [OF quiet(1)]
        split: option.split)
  have out: "fold (count_miss announce) (missed_task_ids res) ([], m1) = (lost, m')"
    using run ok False by (simp add: tick_def apply_result_def m1_def split: prod.splits)
  show ?thesis
    using count_misses [OF dist quiet(2), of "[]" m1 n a] unfolding out
    by (auto simp: m1 missed split: option.split if_splits)
qed

lemma tick_keys:
  assumes "distinct (map fst (wh_registrations m))" and "tick touch meanwhile announce m s = (lost, m', s')"
  shows "distinct (map fst (wh_registrations m'))"
proof -
  have confirm: "distinct (map fst (wh_registrations (fold confirm_touch is a)))"
    if "distinct (map fst (wh_registrations a))" for "is" a
    using that
  proof (induction "is" arbitrary: a)
    case (Cons i "is")
    have "distinct (map fst (wh_registrations (confirm_touch i a)))"
      using Cons.prems by (simp add: confirm_touch_def distinct_update split: option.split)
    then show ?case using Cons.IH by simp
  qed simp
  have drop: "distinct (map fst (wh_registrations (unregister i a)))"
    if "distinct (map fst (wh_registrations a))" for i a
    using that by (simp add: unregister_def distinct_delete)
  have misses: "distinct (map fst (wh_registrations (snd (fold (count_miss announce) is acc))))"
    if "distinct (map fst (wh_registrations (snd acc)))" for "is" acc
    using that
  proof (induction "is" arbitrary: acc)
    case (Cons i "is")
    have "distinct (map fst (wh_registrations (snd (count_miss announce i acc))))"
      using Cons.prems
      by (auto simp: count_miss_def announce_loss_def Let_def distinct_update split: option.split prod.split
          intro!: hb_calls_registered(3) drop)
    then show ?case using Cons.IH by simp
  qed simp
  show ?thesis
    using assms misses [of "([], fold confirm_touch is (hb_calls meanwhile m))" for "is"]
      confirm [OF hb_calls_registered(3) [OF assms(1)]] hb_calls_registered(3) [OF assms(1)]
    by (auto simp: tick_def apply_result_def split: if_splits option.splits prod.splits) (metis snd_conv)+
qed

end

text \<open>\<open>ticks\<close> are the ticks at a sequence of states of the backend, each as others left it, with what the
  other coroutines call during the tick.\<close>

fun ticks ::
    "(heartbeat_touch list \<Rightarrow> 's \<Rightarrow> heartbeat_touch_result option \<times> 's) \<Rightarrow> announcer \<Rightarrow>
     (hb_call list \<times> 's) list \<Rightarrow> heartbeat_manager \<Rightarrow> dropped \<times> heartbeat_manager" where
  "ticks touch announce [] m = ([], m)"
| "ticks touch announce ((cs, s) # ss) m =
     (let (lost, m1, s1) = tick touch cs announce m s; (more, m2) = ticks touch announce ss m1 in (lost @ more, m2))"

context heartbeat_store
begin

lemma ticks_lost:
  assumes "distinct (map fst (wh_registrations m))" and "registered m i = Some rg"
    and "\<forall>(cs, s) \<in> set ss. \<not> alive s i (rg_expected_retry_count rg) \<and> (\<forall>ts. fst (touch ts s) \<noteq> None) \<and> leaves_alone i cs"
    and "quiet_announcer i announce" "fst (announce i (rg_expected_retry_count rg)) \<noteq> AnnounceFailed"
  shows "(rg_consecutive_misses rg + int (length ss) < wh_miss_threshold m \<longrightarrow>
      registered (snd (ticks touch announce ss m)) i =
        Some (rg\<lparr>rg_consecutive_misses := rg_consecutive_misses rg + int (length ss)\<rparr>)) \<and>
    (0 < length ss \<and> rg_consecutive_misses rg + int (length ss) \<ge> wh_miss_threshold m \<longrightarrow>
      (i, rg_expected_retry_count rg, fst (announce i (rg_expected_retry_count rg))) \<in> set (fst (ticks touch announce ss m)))"
  using assms
proof (induction ss arbitrary: m rg)
  case (Cons x ss)
  obtain cs s where x: "x = (cs, s)" by fastforce
  obtain lost m1 s1 where run: "tick touch cs announce m s = (lost, m1, s1)" by (cases "tick touch cs announce m s")
  have "fst (touch (tick_touches m) s) \<noteq> None" using Cons.prems(3) by (simp add: x)
  then obtain res s2 where ok: "touch (tick_touches m) s = (Some res, s2)"
    by (cases "touch (tick_touches m) s") auto
  have "wh_registrations m \<noteq> []" using Cons.prems(2) by auto
  then have "s1 = s2" using run ok by (simp add: tick_def split: prod.splits)
  have dead: "\<not> alive s i (rg_expected_retry_count rg)" "leaves_alone i cs" using Cons.prems(3) by (simp_all add: x)
  note T = tick_registered [OF Cons.prems(1) dead(2) Cons.prems(4) run ok [folded \<open>s1 = s2\<close>]]
  have keys: "distinct (map fst (wh_registrations m1))" by (rule tick_keys [OF Cons.prems(1) run])
  let ?rg = "rg\<lparr>rg_consecutive_misses := rg_consecutive_misses rg + 1\<rparr>"
  show ?case
  proof (cases "rg_consecutive_misses rg + 1 \<ge> wh_miss_threshold m")
    case True
    then have "(i, rg_expected_retry_count rg, fst (announce i (rg_expected_retry_count rg))) \<in> set lost"
      using T [of "rg_expected_retry_count rg" "fst (announce i (rg_expected_retry_count rg))"] Cons.prems(2,5) dead
      by (simp add: after_miss_def)
    with True show ?thesis by (simp add: run x case_prod_beta)
  next
    case False
    then have "registered m1 i = Some ?rg" "wh_miss_threshold m1 = wh_miss_threshold m"
      using T Cons.prems(2) dead by (simp_all add: after_miss_def)
    with Cons.IH [OF keys, of ?rg] Cons.prems(3-5) False show ?thesis
      by (cases "ss = []") (simp_all add: run x case_prod_beta algebra_simps)
  qed
qed simp

end

section \<open>The in-memory backend\<close>

definition memory_touch :: "instant \<Rightarrow> heartbeat_touch list \<Rightarrow> mem_state \<Rightarrow> heartbeat_touch_result option \<times> mem_state" where
  "memory_touch now ts s = (let (res, s') = touch_heartbeats ts now s in (Some res, s'))"

lemma set_add_distinct: "distinct xs \<Longrightarrow> distinct (set_add x xs)"
  by (simp add: set_add_def)

lemma touch_missed_distinct:
  "distinct (missed_task_ids (fst acc)) \<Longrightarrow> distinct (missed_task_ids (fst (fold (touch_one now) ts acc)))"
proof (induction ts arbitrary: acc)
  case (Cons t ts)
  have "distinct (missed_task_ids (fst (touch_one now t acc)))"
    using Cons.prems by (cases acc) (auto simp: touch_one_def set_add_distinct split: option.split prod.split)
  then show ?case using Cons.IH by simp
qed simp

interpretation mem_beat: heartbeat_store "memory_touch now" touch_hits for now
proof
  fix ts s res s'
  assume run: "memory_touch now ts s = (Some res, s')"
  then have res: "res = fst (touch_heartbeats ts now s)" by (simp add: memory_touch_def split: prod.splits)
  have "distinct (missed_task_ids res)"
    unfolding res touch_heartbeats_def by (rule touch_missed_distinct) (simp add: empty_touch_result_def)
  with touch_fold_result [of now ts empty_touch_result s]
  show "set (touched_task_ids res) = ht_task_id ` {t \<in> set ts. touch_hits s t} \<and>
      set (missed_task_ids res) = ht_task_id ` {t \<in> set ts. \<not> touch_hits s t} \<and> distinct (missed_task_ids res)"
    by (simp add: res touch_heartbeats_def empty_touch_result_def)
next
  fix t u :: heartbeat_touch and s
  assume "ht_task_id t = ht_task_id u" "ht_expected_retry_count t = ht_expected_retry_count u"
  then show "touch_hits s t \<longleftrightarrow> touch_hits s u" by (simp add: touch_hits_def split: option.split)
qed

section \<open>Properties\<close>

text \<open>The attempt a registration stands for is running in the backend.\<close>

definition attempt_running :: "mem_state \<Rightarrow> uuid \<Rightarrow> int option \<Rightarrow> bool" where
  "attempt_running s i expected \<longleftrightarrow>
     (case lookup s i of None \<Rightarrow> False | Some r \<Rightarrow> status r = Running \<and> fence expected (retry_count r))"

lemma alive_running [simp]: "mem_beat.alive s i n = attempt_running s i n"
  by (simp add: mem_beat.alive_def touch_hits_def attempt_running_def split: option.split)

text \<open>Property C36: for a task that nobody registers or unregisters while the tick waits, the tick never
  drops the registration of an attempt that was still running at the touch, and resets its counter of misses; it
  drops a registration only when the loss was announced or the record is gone, and then only of an attempt
  that was not running. Progress may be recorded and other tasks may come and go meanwhile.\<close>

theorem heartbeat_no_false_loss:
  assumes keys: "distinct (map fst (wh_registrations m))"
    and quiet: "leaves_alone i meanwhile" "quiet_announcer i announce"
    and run: "tick (memory_touch now) meanwhile announce m s = (lost, m', s')"
  shows "((i, n, a) \<in> set lost \<longrightarrow> \<not> attempt_running s i n \<and> a = fst (announce i n) \<and> a \<noteq> AnnounceFailed) \<and>
    (\<forall>rg. registered m i = Some rg \<and> attempt_running s i (rg_expected_retry_count rg) \<longrightarrow>
       registered m' i = Some (rg\<lparr>rg_consecutive_misses := 0\<rparr>)) \<and>
    (\<forall>rg. registered m i = Some rg \<and> registered m' i = None \<longrightarrow>
       (\<exists>b. (i, rg_expected_retry_count rg, b) \<in> set lost))"
proof -
  obtain res s2 where touch: "memory_touch now (tick_touches m) s = (Some res, s2)"
    by (cases "touch_heartbeats (tick_touches m) now s") (simp add: memory_touch_def)
  show ?thesis
  proof (cases "wh_registrations m = []")
    case True
    with run show ?thesis by (simp add: tick_def)
  next
    case False
    then have "memory_touch now (tick_touches m) s = (Some res, s')"
      using run touch by (simp add: tick_def split: prod.splits)
    from mem_beat.tick_registered [OF keys quiet run this] show ?thesis
      by (auto simp: after_miss_def split: option.splits if_splits)
  qed
qed

text \<open>a lost claim is noticed in time: when the attempt of a registered task runs at none of
  the next ticks, the tick that makes \<open>miss_threshold\<close> consecutive misses drops it, and no tick before.\<close>

theorem heartbeat_loss_detected:
  assumes keys: "distinct (map fst (wh_registrations m))" and reg: "registered m i = Some rg"
    and gone: "\<forall>(cs, s) \<in> set ss. \<not> attempt_running s i (rg_expected_retry_count rg) \<and> leaves_alone i cs"
    and announced: "quiet_announcer i announce" "fst (announce i (rg_expected_retry_count rg)) \<noteq> AnnounceFailed"
  shows "(rg_consecutive_misses rg + int (length ss) < wh_miss_threshold m \<longrightarrow>
      registered (snd (ticks (memory_touch now) announce ss m)) i \<noteq> None) \<and>
    (0 < length ss \<and> rg_consecutive_misses rg + int (length ss) \<ge> wh_miss_threshold m \<longrightarrow>
      (i, rg_expected_retry_count rg, fst (announce i (rg_expected_retry_count rg)))
        \<in> set (fst (ticks (memory_touch now) announce ss m)))"
proof -
  have "\<forall>(cs, s) \<in> set ss. \<not> mem_beat.alive s i (rg_expected_retry_count rg) \<and>
      (\<forall>ts. fst (memory_touch now ts s) \<noteq> None) \<and> leaves_alone i cs"
    using gone by (auto simp: memory_touch_def split: prod.split)
  from mem_beat.ticks_lost [OF keys reg this announced] show ?thesis by auto
qed

text \<open>
  Without that proviso the promise fails: the result of a touch is charged to whatever is registered when it
  comes. Here the attempt a task was registered for is over, and the task is registered for its next
  attempt while the touch is on its way: the miss of the old attempt drops the new one, although it runs.
  Progress recorded on the way is dropped unsent likewise.
\<close>

lemma reregistered_attempt_charged:
  assumes reg: "wh_registrations m = [(i, rg)]" "wh_miss_threshold m = 1"
    and old: "\<not> attempt_running s i (rg_expected_retry_count rg)" and new: "attempt_running s i (Some n)"
    and told: "announce i (Some n) = (LossAnnounced, [])"
  shows "fst (tick (memory_touch now) [HbUnregister i, HbRegister i (Some n)] announce m s) = [(i, Some n, LossAnnounced)]"
proof -
  obtain res s' where touch: "memory_touch now (tick_touches m) s = (Some res, s')"
    by (cases "touch_heartbeats (tick_touches m) now s") (simp add: memory_touch_def)
  have "distinct (map fst (wh_registrations m))" using reg(1) by simp
  from mem_beat.touch_law [OF touch] mem_beat.touches_of_tick [OF this, of "\<lambda>x. x" s]
    mem_beat.touches_of_tick [OF this, of "\<lambda>x. \<not> x" s]
  have "set (touched_task_ids res) = {}" "set (missed_task_ids res) = {i}" "distinct (missed_task_ids res)"
    using reg(1) old by (auto simp: mem_beat.hits_alive split: if_splits)
  then have res: "touched_task_ids res = []" "set (missed_task_ids res) = {i}" "distinct (missed_task_ids res)"
    by simp_all
  then have "missed_task_ids res = [i]" by (cases "missed_task_ids res") (auto simp: subset_singleton_iff)
  with touch res reg told show ?thesis
    by (simp add: tick_def apply_result_def count_miss_def announce_loss_def hb_calls_def register_def unregister_def
        dict_simps Let_def)
qed

lemma progress_in_flight_dropped:
  assumes "registered m i = Some rg"
  shows "beat_of (confirm_touch i (hb_calls [HbBeat (uuid_str i) detail] m)) i = None"
proof -
  have "wh_registrations (hb_calls [HbBeat (uuid_str i) detail] m) = wh_registrations m"
    by (simp add: hb_calls_def record_beat_def split: option.split)
  with assms show ?thesis by (simp add: confirm_touch_def beat_of_def dict_simps)
qed

section \<open>The identifier of a beat\<close>

lemma remove_all_absent: "CHR '':'' \<notin> set s \<Longrightarrow> CHR '':'' \<in> set pat \<Longrightarrow> remove_all pat 0 s = s"
proof (induction s)
  case (Cons c s)
  have "take (length pat) (c # s) \<noteq> pat"
  proof
    assume "take (length pat) (c # s) = pat"
    then have "CHR '':'' \<in> set (take (length pat) (c # s))" using Cons.prems(2) by simp
    then show False using Cons.prems(1) by (meson in_set_takeD)
  qed
  with Cons show ?case by simp
qed simp

lemma remove_hyphen: "remove_all ''-'' 0 s = filter (\<lambda>c. c \<noteq> CHR ''-'') s"
  by (induction s) simp_all

definition hex_chars :: "char set" where
  "hex_chars = set ''0123456789abcdef''"

lemma hex_chars_not [simp]:
  "CHR '':'' \<notin> hex_chars" "CHR ''{'' \<notin> hex_chars" "CHR ''}'' \<notin> hex_chars" "CHR ''-'' \<notin> hex_chars"
  "CHR ''+'' \<notin> hex_chars" "CHR ''_'' \<notin> hex_chars" "CHR ''x'' \<notin> hex_chars" "CHR ''X'' \<notin> hex_chars"
  by (simp_all add: hex_chars_def)

lemma hex_chars_space: "c \<in> hex_chars \<Longrightarrow> \<not> is_space c"
proof -
  have "\<forall>c \<in> hex_chars. \<not> is_space c" unfolding hex_chars_def by code_simp
  then show "c \<in> hex_chars \<Longrightarrow> \<not> is_space c" by blast
qed

lemma hex_digit_cases: "n < 16 \<Longrightarrow> hex_digit n \<in> hex_chars"
proof -
  assume "n < 16"
  then have "n \<in> set [0..<16]" by simp
  moreover have "\<forall>n \<in> set [0..<16]. hex_digit n \<in> hex_chars" unfolding hex_chars_def by code_simp
  ultimately show ?thesis by blast
qed

lemma hex_value_digit: "n < 16 \<Longrightarrow> hex_value (hex_digit n) = Some n"
proof -
  assume "n < 16"
  then have "n \<in> set [0..<16]" by simp
  moreover have "\<forall>n \<in> set [0..<16]. hex_value (hex_digit n) = Some n" by code_simp
  ultimately show ?thesis by blast
qed

lemma hex_digits_chars: "set (hex_digits w n) \<subseteq> hex_chars"
proof (induction w arbitrary: n)
  case (Suc w)
  have "hex_digit (n mod 16) \<in> hex_chars" by (rule hex_digit_cases) simp
  with Suc show ?case by simp
qed simp

lemma hex_int_digits:
  "hex_int acc True (hex_digits w n @ rest) = hex_int (acc * 16 ^ w + n mod 16 ^ w) True rest"
proof (induction w arbitrary: n rest)
  case (Suc w)
  have "hex_digit (n mod 16) \<in> hex_chars" by (rule hex_digit_cases) simp
  then have d: "hex_digit (n mod 16) \<noteq> CHR ''_''" by auto
  have v: "hex_value (hex_digit (n mod 16)) = Some (n mod 16)" by (rule hex_value_digit) simp
  have "(acc * 16 ^ w + n div 16 mod 16 ^ w) * 16 + n mod 16 = acc * 16 ^ Suc w + n mod 16 ^ Suc w"
    using mod_mult2_eq [of n 16 "16 ^ w"] by (simp add: algebra_simps)
  then show ?case
    using Suc.IH [of "n div 16" "hex_digit (n mod 16) # rest"] d v by (simp del: power_Suc)
qed simp

lemma hex_int_start: "s \<noteq> [] \<Longrightarrow> hd s \<noteq> CHR ''_'' \<Longrightarrow> hex_int acc False s = hex_int acc True s"
  by (cases s) simp_all

lemma join_digits:
  fixes u :: nat
  shows "u div 16 ^ (k + l) mod 16 ^ m * 16 ^ k + u div 16 ^ l mod 16 ^ k = u div 16 ^ l mod 16 ^ (m + k)"
proof -
  have "u div 16 ^ (k + l) = u div 16 ^ l div 16 ^ k" by (metis add.commute power_add div_mult2_eq)
  then show ?thesis using mod_mult2_eq [of "u div 16 ^ l" "16 ^ k" "16 ^ m"]
    by (simp add: power_add mult.commute)
qed

lemma py_int_of_hex_digits:
  assumes "h \<noteq> []" and "py_strip h = h" and "hd h \<in> hex_chars" and "take 2 h \<noteq> ''0x''" and "take 2 h \<noteq> ''0X''"
  shows "py_int_of_hex h = hex_int 0 True h"
proof -
  have "hd h \<noteq> CHR ''-''" "hd h \<noteq> CHR ''+''" "hd h \<noteq> CHR ''_''" using assms(3) by auto
  then show ?thesis using assms hex_int_start [OF assms(1), of 0]
    by (simp add: py_int_of_hex_def Let_def split: option.split)
qed

lemma uuid_parse_str:
  assumes "u < 16 ^ 32"
  shows "uuid_parse (uuid_str u) = Some u"
proof -
  let ?h = "hex_digits 8 (u div 16 ^ 24) @ hex_digits 4 (u div 16 ^ 20) @ hex_digits 4 (u div 16 ^ 16) @
    hex_digits 4 (u div 16 ^ 12) @ hex_digits 12 u"
  have chars: "c \<in> hex_chars" if "c \<in> set (hex_digits w n)" for c w n using subsetD [OF hex_digits_chars that] .
  have hset: "c \<in> hex_chars" if "c \<in> set ?h" for c using that chars unfolding set_append by blast
  have chr: "c \<in> hex_chars \<or> c = CHR ''-''" if "c \<in> set (uuid_str u)" for c
    using that chars unfolding uuid_str_def set_append by (auto simp only: Un_iff list.set empty_iff insert_iff)
  have no_colon: "CHR '':'' \<notin> set (uuid_str u)" and no_brace: "CHR ''{'' \<notin> set (uuid_str u)" "CHR ''}'' \<notin> set (uuid_str u)"
    using chr [of "CHR '':''"] chr [of "CHR ''{''"] chr [of "CHR ''}''"] by auto
  have braces: "strip_braces (uuid_str u) = uuid_str u"
  proof -
    have "dropWhile (\<lambda>c. c = CHR ''{'' \<or> c = CHR ''}'') s = s" if "CHR ''{'' \<notin> set s" "CHR ''}'' \<notin> set s" for s
      using that by (cases s) auto
    with no_brace show ?thesis by (simp add: strip_braces_def)
  qed
  have digits: "filter (\<lambda>c. c \<noteq> CHR ''-'') (hex_digits w n) = hex_digits w n" for w n
    using chars [of "CHR ''-''" w n] by (auto simp: filter_id_conv)
  have cleaned: "remove_all ''-'' 0 (strip_braces (remove_all ''uuid:'' 0 (remove_all ''urn:'' 0 (uuid_str u)))) = ?h"
    using no_colon by (simp add: remove_all_absent braces remove_hyphen) (simp only: uuid_str_def filter_append digits, simp)
  have len: "length ?h = 32" by simp
  have strip: "py_strip ?h = ?h"
  proof -
    have "dropWhile is_space s = s" if "\<forall>c \<in> set s. \<not> is_space c" for s using that by (cases s) auto
    then show ?thesis using hset hex_chars_space unfolding py_strip_def by (metis rev_rev_ident set_rev)
  qed
  have ne: "?h \<noteq> []" using len by force
  have head: "hd ?h \<in> hex_chars" by (rule hset) (rule hd_in_set [OF ne])
  have two: "take 2 ?h \<noteq> [a, b]" if "b \<notin> hex_chars" for a b
  proof
    assume "take 2 ?h = [a, b]"
    then have "b \<in> set (take 2 ?h)" by simp
    then show False using hset that by (meson in_set_takeD)
  qed
  have value': "hex_int 0 True ?h = Some u"
  proof -
    note j = join_digits [of u 4 20 8] join_digits [of u 4 16 12] join_digits [of u 4 12 16] join_digits [of u 12 0 20]
    have "hex_int 0 True ?h = Some (u mod 16 ^ 32)"
      using j hex_int_digits [of _ 12 u "[]"] by (simp add: hex_int_digits del: power_numeral)
    with assms show ?thesis by simp
  qed
  have "py_int_of_hex ?h = Some u"
    using py_int_of_hex_digits [OF ne strip head two two] value' by simp
  then show ?thesis unfolding uuid_parse_def cleaned Let_def len by simp
qed

text \<open>progress reported under the printed identifier of a registered task reaches its
  registration, cut to 256 characters, and travels with the task's next heartbeat touch.\<close>

theorem beat_reaches_touch:
  assumes "i < 16 ^ 32" and "registered m i = Some rg"
  shows "uuid_parse (uuid_str i) = Some i \<and>
    \<lparr>ht_task_id = i, ht_expected_retry_count = rg_expected_retry_count rg,
      ht_metadata_patch = (if detail = [] then None else Some [(''progress_detail'', PStr (take 256 detail))])\<rparr>
      \<in> set (tick_touches (record_beat (uuid_str i) (Some detail) m))"
proof -
  have u: "uuid_parse (uuid_str i) = Some i" by (rule uuid_parse_str [OF assms(1)])
  have "beat_of (record_beat (uuid_str i) (Some detail) m) i = Some (take 256 detail)"
    "wh_registrations (record_beat (uuid_str i) (Some detail) m) = wh_registrations m"
    using assms(2) by (simp_all add: record_beat_def u beat_of_def dict_simps)
  moreover have "(i, rg) \<in> set (wh_registrations m)" using assms(2) by (simp add: map_of_SomeD)
  ultimately show ?thesis
    unfolding tick_touches_def set_map by (auto simp: u intro!: image_eqI [of _ _ "(i, rg)"])
qed

section \<open>Witnesses\<close>

definition ex_manager :: heartbeat_manager where
  "ex_manager = register 7 (Some 0) (register 9 (Some 2) (heartbeat_init 2))"

definition ex_running :: "int \<Rightarrow> task_record" where
  "ex_running n = (new_record
     \<lparr>req_task_name = ''send'', req_args = [], req_kwargs = None, req_queue = ''mail'', req_priority = 0,
      req_max_retries = 3, req_scheduled_at = None, req_expires_at = None, req_key = None,
      req_execution_backend = ''local'', req_execution_profile = None, req_metadata = None\<rparr> 7 Running 100)
     \<lparr>retry_count := n, started_at := Some 100, heartbeat_at := Some 100\<rparr>"

definition ex_store :: "int \<Rightarrow> mem_state" where
  "ex_store n = mem_init\<lparr>mem_records := [(7, ex_running n)]\<rparr>"

lemma ex_attempts: "attempt_running (ex_store k) 7 (Some n) \<longleftrightarrow> k = n" "\<not> attempt_running (ex_store k) 9 e"
  by (auto simp: attempt_running_def ex_store_def ex_running_def new_record_def mem_init_def)

lemma ex_manager_fields: "wh_registrations ex_manager =
    [(9, \<lparr>rg_expected_retry_count = Some 2, rg_consecutive_misses = 0\<rparr>),
     (7, \<lparr>rg_expected_retry_count = Some 0, rg_consecutive_misses = 0\<rparr>)]" "wh_miss_threshold ex_manager = 2"
  by (simp_all add: ex_manager_def register_def heartbeat_init_def)

text \<open>The other task leaves, a third one comes, and task 7 reports progress during the tick.\<close>

definition ex_calls :: "hb_call list" where
  "ex_calls = [HbUnregister 9, HbRegister 11 None, HbBeat (uuid_str 7) (Some ''half'')]"

definition ex_announcer :: announcer where
  "ex_announcer = (\<lambda>_ _. (LossAnnounced, [HbRegister 12 None]))"

lemma ex_quiet: "leaves_alone 7 ex_calls" "leaves_alone 9 []" "quiet_announcer 7 ex_announcer" "quiet_announcer 9 ex_announcer"
  by (auto simp: leaves_alone_def ex_calls_def quiet_announcer_def ex_announcer_def)

theorem heartbeat_no_false_loss_witness:
  "\<exists>lost m' s'. tick (memory_touch 120) ex_calls ex_announcer ex_manager (ex_store 0) = (lost, m', s') \<and>
     registered m' 7 = Some \<lparr>rg_expected_retry_count = Some 0, rg_consecutive_misses = 0\<rparr>"
proof -
  obtain lost m' s' where run: "tick (memory_touch 120) ex_calls ex_announcer ex_manager (ex_store 0) = (lost, m', s')"
    by (cases "tick (memory_touch 120) ex_calls ex_announcer ex_manager (ex_store 0)")
  have "distinct (map fst (wh_registrations ex_manager))" by (simp add: ex_manager_fields)
  from heartbeat_no_false_loss [OF this ex_quiet(1,3) run] run show ?thesis by (simp add: ex_manager_fields ex_attempts)
qed

theorem heartbeat_loss_detected_witness:
  "(9, Some 2, LossAnnounced) \<in> set (fst (ticks (memory_touch 120) ex_announcer [([], ex_store 0), ([], ex_store 1)] ex_manager))"
proof -
  have "distinct (map fst (wh_registrations ex_manager))" by (simp add: ex_manager_fields)
  moreover have "registered ex_manager 9 = Some \<lparr>rg_expected_retry_count = Some 2, rg_consecutive_misses = 0\<rparr>"
    by (simp add: ex_manager_fields)
  ultimately show ?thesis
    using heartbeat_loss_detected [of ex_manager 9 _ "[([], ex_store 0), ([], ex_store 1)]" ex_announcer 120]
    by (simp add: ex_manager_fields ex_attempts ex_quiet) (simp add: ex_announcer_def)
qed

theorem beat_reaches_touch_witness:
  "\<lparr>ht_task_id = 7, ht_expected_retry_count = Some 0,
     ht_metadata_patch = Some [(''progress_detail'', PStr ''half'')]\<rparr>
     \<in> set (tick_touches (record_beat (uuid_str 7) (Some ''half'') ex_manager))"
proof -
  have "registered ex_manager 7 = Some \<lparr>rg_expected_retry_count = Some 0, rg_consecutive_misses = 0\<rparr>"
    by (simp add: ex_manager_fields)
  from beat_reaches_touch [OF _ this, of "''half''"] show ?thesis by simp
qed

end
