(* ===== verification/Worker_Loop.thy ===== *)
theory Worker_Loop
  imports Consumer Heartbeat
begin

text \<open>
  The in-process worker (\<open>worker/worker.py\<close>): polling with backoff, claiming within its capacity, running
  coroutines and shutting down. Coroutines are numbered as they are created; what a coroutine does to the
  store, and what other processes do, happens between the worker's own steps. Metrics and logs are left
  out.
\<close>

section \<open>Polling interval\<close>

definition clamp :: "rat \<Rightarrow> rat \<Rightarrow> rat \<Rightarrow> rat" where
  "clamp v low high = max low (min high v)"

definition next_backoff_interval :: "rat \<Rightarrow> rat \<Rightarrow> rat \<Rightarrow> rat \<Rightarrow> rat" where
  "next_backoff_interval current base maximum multiplier = clamp (current * multiplier) base maximum"

text \<open>\<open>draw\<close> is the uniform sample between -1 and 1.\<close>

definition jittered :: "rat \<Rightarrow> rat \<Rightarrow> rat \<Rightarrow> rat \<Rightarrow> rat \<Rightarrow> rat" where
  "jittered interval base maximum jitter draw =
     (if jitter \<le> 0 then interval else clamp (interval + interval * jitter * draw) base maximum)"

record worker_config =
  wc_id :: string
  wc_batch_size :: int
  wc_max_concurrency :: int
  wc_queue_concurrency :: "(string \<times> int) list"
  wc_queues :: "string list"
  wc_requeue_on_shutdown :: bool
  wc_max_interruptions :: "int option"
  wc_poll_interval :: rat
  wc_poll_backoff_max :: "rat option"
  wc_poll_backoff_multiplier :: rat
  wc_poll_jitter :: rat
  wc_cancellation_poll_interval :: rat

text \<open>
  \<open>wk_running\<close> are the coroutines and their records; \<open>wk_cancelled\<close> those whose \<open>cancel()\<close> was called and
  \<open>wk_cancel_requested\<close> those cancelled by a shutdown.
\<close>

record worker =
  wk_running :: "(nat \<times> task_record) list"
  wk_next :: nat
  wk_cancelled :: "nat list"
  wk_cancel_requested :: "nat list"
  wk_stopping :: bool
  wk_poll :: rat
  wk_last_cancellation_check :: "rat option"

definition worker_init :: "worker_config \<Rightarrow> worker" where
  "worker_init wc = \<lparr>wk_running = [], wk_next = 0, wk_cancelled = [], wk_cancel_requested = [], wk_stopping = False,
     wk_poll = wc_poll_interval wc, wk_last_cancellation_check = None\<rparr>"

definition reset_poll_backoff :: "worker_config \<Rightarrow> worker \<Rightarrow> worker" where
  "reset_poll_backoff wc w = w\<lparr>wk_poll := wc_poll_interval wc\<rparr>"

definition advance_poll_backoff :: "worker_config \<Rightarrow> worker \<Rightarrow> worker" where
  "advance_poll_backoff wc w =
     (case wc_poll_backoff_max wc of
        None \<Rightarrow> w
      | Some cap \<Rightarrow> w\<lparr>wk_poll := next_backoff_interval (wk_poll w) (wc_poll_interval wc) cap (wc_poll_backoff_multiplier wc)\<rparr>)"

text \<open>\<open>due_in\<close> is the backend's \<open>time_until_next_due\<close>, in seconds.\<close>

definition current_wait_timeout :: "worker_config \<Rightarrow> rat \<Rightarrow> rat option \<Rightarrow> worker \<Rightarrow> rat" where
  "current_wait_timeout wc draw due_in w =
     (case wc_poll_backoff_max wc of
        None \<Rightarrow> wk_poll w
      | Some cap \<Rightarrow>
          let timeout = (if wc_poll_jitter wc \<le> 0 then wk_poll w
                         else jittered (wk_poll w) (wc_poll_interval wc) cap (wc_poll_jitter wc) draw)
          in case due_in of None \<Rightarrow> timeout | Some d \<Rightarrow> if d < timeout then d else timeout)"

text \<open>What the loop does with the outcome of a cycle: records processed, or how the wait ended.\<close>

datatype wait_outcome = Notified | Elapsed | Disturbed

definition after_cycle :: "worker_config \<Rightarrow> bool \<Rightarrow> wait_outcome \<Rightarrow> worker \<Rightarrow> worker" where
  "after_cycle wc processed outcome w =
     (if processed then reset_poll_backoff wc w
      else case outcome of
             Notified \<Rightarrow> reset_poll_backoff wc w
           | Elapsed \<Rightarrow> advance_poll_backoff wc w
           | Disturbed \<Rightarrow> w)"

section \<open>Claiming\<close>

definition active_in_queue :: "(nat \<times> task_record) list \<Rightarrow> string \<Rightarrow> int" where
  "active_in_queue running q = int (length (filter (\<lambda>(t, r). queue r = q) running))"

definition remaining_queue_limits :: "worker_config \<Rightarrow> (nat \<times> task_record) list \<Rightarrow> (string \<times> int) list" where
  "remaining_queue_limits wc running =
     map (\<lambda>(q, cap). (q, max 0 (cap - active_in_queue running q))) (wc_queue_concurrency wc)"

fun assign_claimed :: "worker_config \<Rightarrow> task_record list \<Rightarrow> task_record list svc" where
  "assign_claimed wc [] = op_return []"
| "assign_claimed wc (r # rs) =
     op_bind (svc_store (assign_worker (rid r) (wc_id wc) (retry_count r))) (\<lambda>assigned.
     op_bind (assign_claimed wc rs) (\<lambda>owned.
       op_return (case assigned of None \<Rightarrow> owned | Some u \<Rightarrow> u # owned)))"

definition claim_available ::
    "service_env \<Rightarrow> worker_config \<Rightarrow> int \<Rightarrow> instant \<Rightarrow> (nat \<times> task_record) list \<Rightarrow> task_record list svc" where
  "claim_available env wc limit now running =
     (let limits = remaining_queue_limits wc running in
      op_bind (svc_claim_tasks env limit (wc_queues wc) (Some (sv_execution_backend env)) (Some (wc_id wc))
          (if limits = [] then None else Some limits) now)
        (assign_claimed wc))"

fun add_unseen :: "int \<Rightarrow> task_record list \<Rightarrow> task_record list \<Rightarrow> task_record list" where
  "add_unseen limit acc [] = acc"
| "add_unseen limit acc (r # rs) =
     (if rid r \<in> rid ` set acc then add_unseen limit acc rs
      else if int (length acc) + 1 \<ge> limit then acc @ [r]
      else add_unseen limit (acc @ [r]) rs)"

fun pending_of_queues :: "service_env \<Rightarrow> instant \<Rightarrow> int \<Rightarrow> string list \<Rightarrow> task_record list \<Rightarrow> mem_state \<Rightarrow> task_record list" where
  "pending_of_queues env now limit [] acc m = acc"
| "pending_of_queues env now limit (q # qs) acc m =
     (if int (length acc) \<ge> limit then acc
      else pending_of_queues env now limit qs
             (add_unseen limit acc (list_pending now (limit - int (length acc)) (Some q) (Some (sv_execution_backend env)) m)) m)"

definition worker_list_pending :: "service_env \<Rightarrow> worker_config \<Rightarrow> instant \<Rightarrow> int \<Rightarrow> mem_state \<Rightarrow> task_record list" where
  "worker_list_pending env wc now limit m =
     (if wc_queues wc = [] then list_pending now limit None (Some (sv_execution_backend env)) m
      else pending_of_queues env now limit (wc_queues wc) [] m)"

text \<open>A record is dispatched unless it has a delivery or is overdue at its turn.\<close>

fun dispatch_external :: "exec_backend \<Rightarrow> (uuid \<Rightarrow> instant) \<Rightarrow> task_record list \<Rightarrow> int svc" where
  "dispatch_external b clk [] = op_return 0"
| "dispatch_external b clk (r # rs) =
     (if execution_ref r \<noteq> None \<or> is_expired (clk (rid r)) r then dispatch_external b clk rs
      else op_bind (xb_dispatch b r) (\<lambda>ref.
           op_bind (dispatch_external b clk rs) (\<lambda>n. op_return (if ref \<noteq> None then n + 1 else n))))"

definition track_execution :: "task_record \<Rightarrow> worker \<Rightarrow> worker" where
  "track_execution r w = w\<lparr>wk_running := wk_running w @ [(wk_next w, r)], wk_next := wk_next w + 1\<rparr>"

definition available_slots :: "worker_config \<Rightarrow> worker \<Rightarrow> int" where
  "available_slots wc w = min (wc_batch_size wc) (max 0 (wc_max_concurrency wc - int (length (wk_running w))))"

text \<open>The first check of a cycle: coroutines whose stored record was cancelled are cancelled.\<close>

definition maybe_cancel_running :: "worker_config \<Rightarrow> rat \<Rightarrow> mem_state \<Rightarrow> worker \<Rightarrow> worker" where
  "maybe_cancel_running wc t m w =
     (if wk_running w = [] \<or>
         (case wk_last_cancellation_check w of None \<Rightarrow> False | Some u \<Rightarrow> t - u < wc_cancellation_poll_interval wc)
      then w
      else let by_id = map (\<lambda>(k, r). (rid r, k)) (rev (wk_running w));
               hit = List.map_filter (\<lambda>r. if status r = Cancelled then dict_get by_id (rid r) else None)
                       (get_tasks (remdups (map fst by_id)) m)
           in w\<lparr>wk_last_cancellation_check := Some t, wk_cancelled := wk_cancelled w @ hit\<rparr>)"

definition run_once ::
    "service_env \<Rightarrow> worker_config \<Rightarrow> rat \<Rightarrow> instant \<Rightarrow> (uuid \<Rightarrow> instant) \<Rightarrow> worker \<Rightarrow> svc_state \<Rightarrow>
     (int result \<times> worker) \<times> svc_state" where
  "run_once env wc t now clk w0 s =
     (let w = maybe_cancel_running wc t (ss_store s) w0; available = available_slots wc w in
      case get_execution_backend env None of
        None \<Rightarrow> ((Inl ValueError, w), s)
      | Some b \<Rightarrow>
          if xb_schedules_on_enqueue b then ((Inl QueueConfigurationError, w), s)
          else if available \<le> 0 then ((Inr 0, w), s)
          else if xb_is_external b
          then (case dispatch_external b clk (worker_list_pending env wc now available (ss_store s)) s of
                  (res, s') \<Rightarrow> ((res, w), s'))
          else (case claim_available env wc available now (wk_running w) s of
                  (Inl e, s') \<Rightarrow> ((Inl e, w), s')
                | (Inr owned, s') \<Rightarrow> ((Inr (int (length owned)), fold track_execution owned w), s')))"

definition on_execution_done :: "nat \<Rightarrow> worker \<Rightarrow> worker" where
  "on_execution_done k w =
     w\<lparr>wk_running := filter (\<lambda>(t, r). t \<noteq> k) (wk_running w),
       wk_cancel_requested := filter (\<lambda>t. t \<noteq> k) (wk_cancel_requested w)\<rparr>"

section \<open>Shutdown\<close>

definition shutdown_requeues :: "worker_config \<Rightarrow> bool \<Rightarrow> task_record \<Rightarrow> bool" where
  "shutdown_requeues wc stopping r \<longleftrightarrow> stopping \<and>
     (case get_or_none (metadata r) ''requeue_on_shutdown'' of
        PNone \<Rightarrow> wc_requeue_on_shutdown wc
      | v \<Rightarrow> v = PBool True)"

text \<open>The end of a coroutine that was cancelled; an error of the requeue is only logged.\<close>

definition interrupt_cancelled :: "worker_config \<Rightarrow> bool \<Rightarrow> instant \<Rightarrow> task_record \<Rightarrow> unit svc" where
  "interrupt_cancelled wc stopping now r =
     (if shutdown_requeues wc stopping r
      then op_try (op_bind (svc_interrupt_task r (wc_id wc) ''shutdown'' (wc_max_interruptions wc) now) (\<lambda>_. op_return ()))
             (\<lambda>e. op_return ())
      else op_return ())"

definition cancel_running :: "worker \<Rightarrow> worker" where
  "cancel_running w =
     (let new = filter (\<lambda>k. k \<notin> set (wk_cancel_requested w)) (map fst (wk_running w))
      in w\<lparr>wk_cancel_requested := wk_cancel_requested w @ new, wk_cancelled := wk_cancelled w @ new\<rparr>)"

text \<open>Coroutines that outlived their cancellation, by retry count in order of appearance.\<close>

function by_generation :: "task_record list \<Rightarrow> (int \<times> uuid list) list" where
  "by_generation [] = []"
| "by_generation (r # rs) =
     (let rest = filter (\<lambda>x. retry_count x \<noteq> retry_count r) rs
      in (retry_count r, rid r # map rid (filter (\<lambda>x. retry_count x = retry_count r) rs)) # by_generation rest)"
  by pat_completeness auto
termination
  by (relation "measure length") (auto simp: le_imp_less_Suc)

definition hand_off_undead_tasks :: "worker \<Rightarrow> mem_state \<Rightarrow> mem_state" where
  "hand_off_undead_tasks w m =
     fold (\<lambda>(n, ids). null_heartbeats ids (Some n)) (by_generation (map snd (wk_running w))) m"

section \<open>Polling stays within its bounds\<close>

lemma clamp_bounds: "low \<le> high \<Longrightarrow> low \<le> clamp v low high \<and> clamp v low high \<le> high"
  by (auto simp: clamp_def)

definition poll_bounded :: "worker_config \<Rightarrow> worker \<Rightarrow> bool" where
  "poll_bounded wc w \<longleftrightarrow>
     (case wc_poll_backoff_max wc of
        None \<Rightarrow> wk_poll w = wc_poll_interval wc
      | Some cap \<Rightarrow> wc_poll_interval wc \<le> wk_poll w \<and> wk_poll w \<le> cap)"

text \<open>the polling interval stays between the configured interval and the backoff ceiling whatever
  the cycles bring, so does every wait, jitter included, unless known future work is due earlier, which
  is never slept past; without backoff every wait is the configured interval; and a cycle that finds
  work starts over at that interval.\<close>

theorem poll_wait_bounded:
  assumes cap: "\<And>cap. wc_poll_backoff_max wc = Some cap \<Longrightarrow> wc_poll_interval wc \<le> cap"
    and w: "w = fold (\<lambda>(processed, outcome) w. after_cycle wc processed outcome w) cycles (worker_init wc)"
  shows "poll_bounded wc w \<and> wk_poll (after_cycle wc True outcome w) = wc_poll_interval wc \<and>
    (case wc_poll_backoff_max wc of
       None \<Rightarrow> current_wait_timeout wc draw due_in w = wc_poll_interval wc
     | Some cap \<Rightarrow> current_wait_timeout wc draw due_in w \<le> cap \<and>
         (\<forall>d. due_in = Some d \<longrightarrow> current_wait_timeout wc draw due_in w \<le> d) \<and>
         (wc_poll_interval wc \<le> current_wait_timeout wc draw due_in w \<or> due_in = Some (current_wait_timeout wc draw due_in w)))"
proof -
  have step: "poll_bounded wc (after_cycle wc processed outcome v)" if "poll_bounded wc v" for processed outcome v
    using that cap clamp_bounds
    by (auto simp: poll_bounded_def after_cycle_def reset_poll_backoff_def advance_poll_backoff_def next_backoff_interval_def
        split: option.splits wait_outcome.splits)
  have "poll_bounded wc (fold (\<lambda>(processed, outcome) w. after_cycle wc processed outcome w) cs v)" if "poll_bounded wc v" for cs v
    using that by (induction cs arbitrary: v) (auto simp: step)
  moreover have "poll_bounded wc (worker_init wc)"
    using cap by (auto simp: poll_bounded_def worker_init_def split: option.split)
  ultimately have bounded: "poll_bounded wc w" by (simp add: w)
  show ?thesis
  proof (cases "wc_poll_backoff_max wc")
    case None
    with bounded show ?thesis by (simp add: after_cycle_def reset_poll_backoff_def current_wait_timeout_def poll_bounded_def)
  next
    case (Some c)
    have "wc_poll_interval wc \<le> jittered (wk_poll w) (wc_poll_interval wc) c (wc_poll_jitter wc) draw \<and>
        jittered (wk_poll w) (wc_poll_interval wc) c (wc_poll_jitter wc) draw \<le> c"
      using bounded Some clamp_bounds [OF cap [OF Some]] by (simp add: jittered_def poll_bounded_def)
    with bounded Some show ?thesis
      by (auto simp: after_cycle_def reset_poll_backoff_def current_wait_timeout_def poll_bounded_def Let_def split: option.splits)
  qed
qed

section \<open>Capacity\<close>

lemma claim_many_bounds:
  assumes wf: "mem_wf m" and run: "claim_many_with_expired limit qs eb lims now m = ((claimed, expired), m')"
  shows "int (length claimed) \<le> max 0 limit"
    and "\<And>d q l. lims = Some d \<Longrightarrow> dict_get d q = Some l \<Longrightarrow> int (length (filter (\<lambda>r. queue r = q) claimed)) \<le> max 0 l"
    and "\<And>r. r \<in> set claimed \<Longrightarrow> lookup m' (rid r) = Some r"
proof -
  have "int (length claimed) \<le> max 0 limit \<and>
      (\<forall>d q l. lims = Some d \<longrightarrow> dict_get d q = Some l \<longrightarrow> int (length (filter (\<lambda>r. queue r = q) claimed)) \<le> max 0 l) \<and>
      (\<forall>r \<in> set claimed. lookup m' (rid r) = Some r)"
  proof (cases "limit \<le> 0")
    case True
    with run show ?thesis by (auto simp: claim_many_with_expired_def)
  next
    case False
    then have l: "0 < limit" by simp
    obtain recs eligible ex cl recs' where C: "claim_scan now qs eb (mem_records m) = (recs, eligible, ex)"
        "claim_take now limit (case lims of None \<Rightarrow> [] | Some d \<Rightarrow> d) (sort_key claim_key eligible) recs = (cl, recs')"
        "claim_many_with_expired limit qs eb lims now m = ((cl, ex), m\<lparr>mem_records := recs'\<rparr>)"
      by (rule claim_many_unfold [OF wf l])
    with run have cl: "claimed = cl" "m' = m\<lparr>mem_records := recs'\<rparr>" by auto
    note take = C(2) [folded cl(1)]
    have "int (length claimed) \<le> max 0 limit" using claim_take_selects [OF take] by auto
    moreover have "int (length (filter (\<lambda>r. queue r = q) claimed)) \<le> max 0 l" if "lims = Some d" "dict_get d q = Some l" for d q l
      by (rule claim_take_limits [OF take]) (simp add: that)
    moreover have "lookup m' (rid r) = Some r" if "r \<in> set claimed" for r
      using claim_take_table [OF take claim_order_distinct [OF wf C(1)]] that by (simp add: cl(2))
    ultimately show ?thesis by blast
  qed
  then show "int (length claimed) \<le> max 0 limit"
    "\<And>d q l. lims = Some d \<Longrightarrow> dict_get d q = Some l \<Longrightarrow> int (length (filter (\<lambda>r. queue r = q) claimed)) \<le> max 0 l"
    "\<And>r. r \<in> set claimed \<Longrightarrow> lookup m' (rid r) = Some r"
    by blast+
qed

lemma claim_tasks_result:
  "\<exists>s'. svc_claim_tasks env limit qs eb worker lims now s =
      (Inr (fst (fst (claim_many_with_expired limit qs eb lims now (ss_store s)))), s') \<and>
     ss_store s' = snd (claim_many_with_expired limit qs eb lims now (ss_store s))"
proof -
  let ?s = "s\<lparr>ss_store := snd (claim_many_with_expired limit qs eb lims now (ss_store s))\<rparr>"
  let ?expired = "snd (fst (claim_many_with_expired limit qs eb lims now (ss_store s)))"
  obtain s' where "op_for_each (publish_expired_event env worker) ?expired ?s = (Inr (), s')" "ss_store s' = ss_store ?s"
    using op_for_each_store [of ?expired "publish_expired_event env worker" ?s] by (auto simp: publish_expired_event_def op_simps)
  then show ?thesis
    by (simp add: svc_claim_tasks_def op_simps case_prod_beta
        op_bind_simps(2) [where m = "op_for_each (publish_expired_event env worker) ?expired"])
qed

lemma assign_lookup:
  "lookup (snd (assign_worker i w n m)) j = (case lookup m j of None \<Rightarrow> None
     | Some r \<Rightarrow> Some (if j = i \<and> status r = Running \<and> retry_count r = n then r\<lparr>worker_id := Some w\<rparr> else r))"
  "fst (assign_worker i w n m) = Some u \<Longrightarrow> \<exists>r. lookup m i = Some r \<and> u = r\<lparr>worker_id := Some w\<rparr>"
  by (auto simp: assign_worker_def modify_if_def dict_simps split: option.splits if_splits)

lemma assign_claimed_result:
  assumes "\<And>r. r \<in> set rs \<Longrightarrow> \<exists>q. lookup (ss_store s) (rid r) = Some q \<and> queue q = queue r"
  shows "\<exists>owned s'. assign_claimed wc rs s = (Inr owned, s') \<and> length owned \<le> length rs \<and>
    (\<forall>x. length (filter (\<lambda>u. queue u = x) owned) \<le> length (filter (\<lambda>r. queue r = x) rs)) \<and>
    wf_step (ss_store s) (ss_store s')"
  using assms
proof (induction rs arbitrary: s)
  case (Cons r rs)
  let ?m = "assign_worker (rid r) (wc_id wc) (retry_count r) (ss_store s)"
  let ?s = "s\<lparr>ss_store := snd ?m\<rparr>"
  have stable: "\<exists>q. lookup (ss_store ?s) (rid x) = Some q \<and> queue q = queue x" if "x \<in> set rs" for x
  proof -
    obtain q where "lookup (ss_store s) (rid x) = Some q" "queue q = queue x" using Cons.prems [of x] \<open>x \<in> set rs\<close> by auto
    then show ?thesis by (simp add: assign_lookup(1))
  qed
  obtain owned s' where IH: "assign_claimed wc rs ?s = (Inr owned, s')" "length owned \<le> length rs"
      "\<forall>x. length (filter (\<lambda>u. queue u = x) owned) \<le> length (filter (\<lambda>r. queue r = x) rs)" "wf_step (ss_store ?s) (ss_store s')"
    using Cons.IH [of ?s] stable by blast
  have wf: "wf_step (ss_store s) (ss_store s')"
    using step_wf_step [of "OpAssign (rid r) (wc_id wc) (retry_count r)" "ss_store s"] IH(4)
    by (simp add: wf_step_def op_disciplined_def op_local_def)
  have q: "queue u = queue r" if "fst ?m = Some u" for u
    using assign_lookup(2) [OF that] Cons.prems [of r] by auto
  have "assign_claimed wc (r # rs) s = (Inr (case fst ?m of None \<Rightarrow> owned | Some u \<Rightarrow> u # owned), s')"
    by (simp add: op_simps op_bind_simps(2) [where m = "assign_claimed wc rs", OF IH(1)])
  with IH wf q show ?case by (cases "fst ?m") (auto intro: le_SucI)
qed (simp add: op_simps wf_step_def)

text \<open>
  The steps of one worker: a cycle, the end of a coroutine (with whatever it did to the store), the request
  to stop, the cancellation of what runs, and anything other processes and coroutines do.
\<close>

inductive worker_step ::
    "service_env \<Rightarrow> worker_config \<Rightarrow> worker \<times> svc_state \<Rightarrow> worker \<times> svc_state \<Rightarrow> bool"
    for env wc where
  wk_cycle: "run_once env wc t now clk w s = ((res, w'), s') \<Longrightarrow> worker_step env wc (w, s) (w', s')"
| wk_ended: "k \<in> fst ` set (wk_running w) \<Longrightarrow> mem_wf (ss_store s') \<Longrightarrow>
    worker_step env wc (w, s) (on_execution_done k w, s')"
| wk_stop: "worker_step env wc (w, s) (w\<lparr>wk_stopping := True\<rparr>, s)"
| wk_cancel: "worker_step env wc (w, s) (cancel_running w, s)"
| wk_hand_off: "worker_step env wc (w, s) (w, s\<lparr>ss_store := hand_off_undead_tasks w (ss_store s)\<rparr>)"
| wk_others: "mem_wf (ss_store s') \<Longrightarrow> worker_step env wc (w, s) (w, s')"

inductive worker_reachable :: "service_env \<Rightarrow> worker_config \<Rightarrow> worker \<times> svc_state \<Rightarrow> bool" for env wc where
  wk_start: "mem_wf (ss_store s) \<Longrightarrow> worker_reachable env wc (worker_init wc, s)"
| wk_step: "worker_reachable env wc x \<Longrightarrow> worker_step env wc x y \<Longrightarrow> worker_reachable env wc y"

inductive_cases worker_stepE: "worker_step env wc (w, s) (w', s')"

definition within_capacity :: "worker_config \<Rightarrow> worker \<Rightarrow> bool" where
  "within_capacity wc w \<longleftrightarrow>
     int (length (wk_running w)) \<le> max 0 (wc_max_concurrency wc) \<and>
     (\<forall>q cap. dict_get (wc_queue_concurrency wc) q = Some cap \<longrightarrow> active_in_queue (wk_running w) q \<le> max 0 cap) \<and>
     distinct (map fst (wk_running w)) \<and> (\<forall>k \<in> fst ` set (wk_running w). k < wk_next w)"

lemma track_all:
  "wk_running (fold track_execution owned w) = wk_running w @ zip [wk_next w ..< wk_next w + length owned] owned"
  "wk_next (fold track_execution owned w) = wk_next w + length owned"
  by (induction owned arbitrary: w) (auto simp: track_execution_def upt_rec)

lemma cancel_check_fields [simp]:
  "wk_running (maybe_cancel_running wc t m w) = wk_running w" "wk_next (maybe_cancel_running wc t m w) = wk_next w"
  by (simp_all add: maybe_cancel_running_def Let_def)

lemma within_capacity_cong:
  "wk_running w' = wk_running w \<Longrightarrow> wk_next w' = wk_next w \<Longrightarrow> within_capacity wc w' = within_capacity wc w"
  by (simp add: within_capacity_def)

lemma remaining_limit_get:
  "dict_get (wc_queue_concurrency wc) q = Some cap \<Longrightarrow>
   dict_get (remaining_queue_limits wc running) q = Some (max 0 (cap - active_in_queue running q))"
  by (simp add: remaining_queue_limits_def map_values_get)

lemma filter_zip_snd: "length ks = length xs \<Longrightarrow> length (filter (\<lambda>(k, x). P x) (zip ks xs)) = length (filter P xs)"
proof (induction xs arbitrary: ks)
  case (Cons x xs)
  then show ?case by (cases ks) auto
qed simp

lemma tracked_capacity:
  assumes "within_capacity wc w" "0 < available_slots wc w"
    and total: "int (length owned) \<le> available_slots wc w"
    and each: "\<And>q cap. dict_get (wc_queue_concurrency wc) q = Some cap \<Longrightarrow>
      int (length (filter (\<lambda>u. queue u = q) owned)) \<le> max 0 (cap - active_in_queue (wk_running w) q)"
  shows "within_capacity wc (fold track_execution owned w)"
proof -
  have "int (length (wk_running w)) + int (length owned) \<le> max 0 (wc_max_concurrency wc)"
    using assms(2) total by (auto simp: available_slots_def)
  moreover have "active_in_queue (wk_running w @ zip [wk_next w ..< wk_next w + length owned] owned) q =
      active_in_queue (wk_running w) q + int (length (filter (\<lambda>u. queue u = q) owned))" for q
    by (simp add: active_in_queue_def filter_zip_snd)
  moreover have "active_in_queue (wk_running w) q + int (length (filter (\<lambda>u. queue u = q) owned)) \<le> max 0 cap"
    if "dict_get (wc_queue_concurrency wc) q = Some cap" for q cap
    using each [OF that] assms(1) that by (fastforce simp: within_capacity_def)
  moreover have "distinct (map fst (wk_running w @ zip [wk_next w ..< wk_next w + length owned] owned))"
    using assms(1) by (fastforce simp: within_capacity_def)
  moreover have "\<forall>k \<in> fst ` set (wk_running w @ zip [wk_next w ..< wk_next w + length owned] owned). k < wk_next w + length owned"
    using assms(1) by (fastforce simp: within_capacity_def dest: set_zip_leftD)
  ultimately show ?thesis unfolding within_capacity_def track_all length_append length_zip by simp
qed

lemma run_once_capacity:
  assumes env: "local_env env" and wf: "mem_wf (ss_store s)" and w: "within_capacity wc w"
    and run: "run_once env wc t now clk w s = ((res, w'), s')"
  shows "within_capacity wc w' \<and> mem_wf (ss_store s')"
proof -
  let ?w = "maybe_cancel_running wc t (ss_store s) w"
  have w1: "within_capacity wc ?w" using w by (simp add: within_capacity_cong [of ?w w])
  show ?thesis
  proof (cases "get_execution_backend env None = None \<or> available_slots wc ?w \<le> 0")
    case True
    with run w1 wf show ?thesis by (auto simp: run_once_def Let_def split: option.splits if_splits)
  next
    case False
    then obtain b where b: "get_execution_backend env None = Some b" "0 < available_slots wc ?w" by auto
    then have local: "\<not> xb_schedules_on_enqueue b" "\<not> xb_is_external b"
      using env by (auto simp: local_env_def polled_def get_execution_backend_def)
    let ?limits = "remaining_queue_limits wc (wk_running w)"
    let ?C = "claim_many_with_expired (available_slots wc ?w) (wc_queues wc) (Some (sv_execution_backend env))
      (if ?limits = [] then None else Some ?limits) now (ss_store s)"
    obtain claimed expired m where C: "?C = ((claimed, expired), m)" by (metis surj_pair)
    note B = claim_many_bounds [OF wf C]
    obtain s1 where s1: "svc_claim_tasks env (available_slots wc ?w) (wc_queues wc) (Some (sv_execution_backend env)) (Some (wc_id wc))
        (if ?limits = [] then None else Some ?limits) now s = (Inr claimed, s1)" "ss_store s1 = m"
      using claim_tasks_result [of env "available_slots wc ?w" "wc_queues wc" "Some (sv_execution_backend env)" "Some (wc_id wc)"
          "if ?limits = [] then None else Some ?limits" now s] unfolding C by auto
    have wf1: "mem_wf m"
      using step_wf_step [of "OpClaimMany (available_slots wc ?w) (wc_queues wc) (Some (sv_execution_backend env))
          (if ?limits = [] then None else Some ?limits) now" "ss_store s"] wf C
      by (simp add: wf_step_def op_disciplined_def op_local_def)
    obtain owned s2 where A: "assign_claimed wc claimed s1 = (Inr owned, s2)" "length owned \<le> length claimed"
        "\<forall>x. length (filter (\<lambda>u. queue u = x) owned) \<le> length (filter (\<lambda>r. queue r = x) claimed)" "wf_step m (ss_store s2)"
      using assign_claimed_result [of claimed s1 wc] B(3) s1(2) by blast
    have "claim_available env wc (available_slots wc ?w) now (wk_running w) s = (Inr owned, s2)"
      using s1(1) A(1) by (simp add: claim_available_def Let_def op_bind_def)
    with run b local have res: "w' = fold track_execution owned ?w" "s' = s2" by (auto simp: run_once_def Let_def)
    have "within_capacity wc (fold track_execution owned ?w)"
    proof (rule tracked_capacity [OF w1 b(2)])
      show "int (length owned) \<le> available_slots wc ?w" using B(1) A(2) b(2) by linarith
      fix q cap assume q: "dict_get (wc_queue_concurrency wc) q = Some cap"
      then have "?limits \<noteq> []" by (auto simp: remaining_queue_limits_def)
      then have "int (length (filter (\<lambda>r. queue r = q) claimed)) \<le> max 0 (cap - active_in_queue (wk_running w) q)"
        using B(2) [of ?limits q "max 0 (cap - active_in_queue (wk_running w) q)"] remaining_limit_get [OF q] by simp
      moreover have "length (filter (\<lambda>u. queue u = q) owned) \<le> length (filter (\<lambda>r. queue r = q) claimed)" using A(3) by simp
      ultimately show "int (length (filter (\<lambda>u. queue u = q) owned)) \<le> max 0 (cap - active_in_queue (wk_running ?w) q)"
        unfolding cancel_check_fields by linarith
    qed
    with A(4) wf1 show ?thesis by (simp add: res wf_step_def)
  qed
qed

lemma hand_off_wf: "mem_wf m \<Longrightarrow> mem_wf (hand_off_undead_tasks w m)"
proof -
  have "mem_wf (fold (\<lambda>(n, ids). null_heartbeats ids (Some n)) gs m)" if "mem_wf m" for gs m
    using that
  proof (induction gs arbitrary: m)
    case (Cons g gs)
    then have "mem_wf (null_heartbeats (snd g) (Some (fst g)) m)"
      using step_wf_step [of "OpNull (snd g) (Some (fst g))" m] by (simp add: wf_step_def op_disciplined_def op_local_def)
    with Cons.IH show ?case by (cases g) simp
  qed simp
  then show "mem_wf m \<Longrightarrow> mem_wf (hand_off_undead_tasks w m)" by (simp add: hand_off_undead_tasks_def)
qed

lemma length_filter_filter: "length (filter P (filter Q xs)) \<le> length (filter P xs)"
  by (induction xs) auto

lemma within_capacity_done:
  assumes "within_capacity wc w"
  shows "within_capacity wc (on_execution_done k w)"
proof -
  let ?run = "filter (\<lambda>(t, r). t \<noteq> k) (wk_running w)"
  have "int (length ?run) \<le> max 0 (wc_max_concurrency wc)"
    using assms length_filter_le [of "\<lambda>(t, r). t \<noteq> k" "wk_running w"] unfolding within_capacity_def by linarith
  moreover have "active_in_queue ?run q \<le> active_in_queue (wk_running w) q" for q
    unfolding active_in_queue_def by (rule of_nat_mono [OF length_filter_filter])
  moreover have "distinct (map fst ?run)" using assms by (simp add: within_capacity_def distinct_map_filter)
  moreover have "set ?run \<subseteq> set (wk_running w)" by auto
  ultimately show ?thesis
    using assms by (simp add: within_capacity_def on_execution_done_def) (blast intro: order_trans)
qed

text \<open>Property C13: a worker never runs more coroutines than its capacity, nor more of one queue than that
  queue's limit, however its cycles, finished and cancelled coroutines, the shutdown and everybody
  else's changes to the store interleave.\<close>

theorem worker_capacity_respected:
  assumes env: "local_env env" and reach: "worker_reachable env wc (w, s)"
  shows "int (length (wk_running w)) \<le> max 0 (wc_max_concurrency wc) \<and>
    (\<forall>q cap. dict_get (wc_queue_concurrency wc) q = Some cap \<longrightarrow> active_in_queue (wk_running w) q \<le> max 0 cap)"
proof -
  have "within_capacity wc (fst x) \<and> mem_wf (ss_store (snd x))" if "worker_reachable env wc x" for x
    using that
  proof induction
    case (wk_start s)
    then show ?case by (simp add: within_capacity_def worker_init_def active_in_queue_def)
  next
    case (wk_step x y)
    from wk_step.hyps(2) wk_step.IH show ?case
    proof cases
      case (wk_cycle t now clk w s res w' s')
      with wk_step.IH run_once_capacity [OF env, of s wc w t now clk res w' s'] show ?thesis by simp
    next
      case (wk_ended k w s' s)
      with wk_step.IH within_capacity_done show ?thesis by simp
    next
      case (wk_cancel w s)
      have "within_capacity wc (cancel_running w) = within_capacity wc w"
        by (rule within_capacity_cong) (simp_all add: cancel_running_def Let_def)
      with wk_step.IH wk_cancel show ?thesis by simp
    next
      case (wk_stop w s)
      with wk_step.IH show ?thesis by (simp add: within_capacity_cong [of "w\<lparr>wk_stopping := True\<rparr>" w])
    next
      case (wk_hand_off w s)
      with wk_step.IH hand_off_wf show ?thesis by simp
    next
      case (wk_others s' w s)
      with wk_step.IH show ?thesis by simp
    qed
  qed
  from this [OF reach] show ?thesis by (simp add: within_capacity_def)
qed

section \<open>Abandoned attempts\<close>

lemma by_generation_members:
  "(\<exists>ids. (k, ids) \<in> set (by_generation rs) \<and> i \<in> set ids) \<longleftrightarrow> (\<exists>r \<in> set rs. rid r = i \<and> retry_count r = k)"
proof (induction rs rule: by_generation.induct)
  case (2 r rs)
  let ?rest = "filter (\<lambda>x. retry_count x \<noteq> retry_count r) rs"
  have "(\<exists>ids. (k, ids) \<in> set (by_generation (r # rs)) \<and> i \<in> set ids) \<longleftrightarrow>
      (k = retry_count r \<and> (i = rid r \<or> (\<exists>x \<in> set rs. retry_count x = retry_count r \<and> rid x = i))) \<or>
      (\<exists>ids. (k, ids) \<in> set (by_generation ?rest) \<and> i \<in> set ids)"
    by (auto simp: Let_def)
  also have "(\<exists>ids. (k, ids) \<in> set (by_generation ?rest) \<and> i \<in> set ids) \<longleftrightarrow> (\<exists>x \<in> set ?rest. rid x = i \<and> retry_count x = k)"
    by (rule 2) simp
  finally show ?case by auto
qed simp

lemma null_fold_lookup:
  "lookup (fold (\<lambda>(n, ids). null_heartbeats ids (Some n)) gs m) i =
     (case lookup m i of None \<Rightarrow> None
      | Some q \<Rightarrow> Some (if \<exists>ids. (retry_count q, ids) \<in> set gs \<and> i \<in> set ids then q\<lparr>heartbeat_at := None\<rparr> else q))"
proof (induction gs arbitrary: m)
  case Nil
  then show ?case by (simp split: option.split)
next
  case (Cons g gs)
  obtain n ids where g: "g = (n, ids)" by fastforce
  show ?case
  proof (cases "lookup m i")
    case None
    then show ?thesis by (simp add: g Cons null_heartbeats_lookup)
  next
    case (Some q)
    then have one: "lookup (null_heartbeats ids (Some n) m) i = Some (if i \<in> set ids \<and> retry_count q = n then q\<lparr>heartbeat_at := None\<rparr> else q)"
      by (auto simp: null_heartbeats_lookup)
    have rest: "lookup (fold (\<lambda>(n, ids). null_heartbeats ids (Some n)) (g # gs) m) i =
        (case lookup (null_heartbeats ids (Some n) m) i of None \<Rightarrow> None
         | Some q \<Rightarrow> Some (if \<exists>ids. (retry_count q, ids) \<in> set gs \<and> i \<in> set ids then q\<lparr>heartbeat_at := None\<rparr> else q))"
      unfolding g fold_simps prod.case by (rule Cons)
    show ?thesis
    proof (cases "i \<in> set ids \<and> retry_count q = n")
      case True
      then have "\<exists>ids. (retry_count q, ids) \<in> set (g # gs) \<and> i \<in> set ids" by (auto simp: g)
      then show ?thesis unfolding rest one Some by (simp add: True)
    next
      case False
      then have "(\<exists>ids. (retry_count q, ids) \<in> set (g # gs) \<and> i \<in> set ids) \<longleftrightarrow> (\<exists>ids. (retry_count q, ids) \<in> set gs \<and> i \<in> set ids)"
        by (auto simp: g)
      then show ?thesis unfolding rest one Some if_not_P [OF False] by simp
    qed
  qed
qed

text \<open>tasks that survive their cancellation are not lost: the worker clears the heartbeat of every
  attempt it still owns and of no other, so the next stale sweep, whatever age it asks for, takes the
  attempt back, and attempts that meanwhile moved on keep their heartbeat.\<close>

theorem undead_handed_to_recovery:
  assumes wf: "mem_wf m" and r: "(k, r) \<in> set (wk_running w)"
    and q: "lookup m (rid r) = Some q" "status q = Running" "retry_count q = retry_count r"
    and sweep: "requeue_stale_running parse policy after None now clk (hand_off_undead_tasks w m) = (Inr out, m')"
  shows "(\<exists>q'. lookup m' (rid r) = Some q' \<and> (status q' = Failed \<or> is_waiting q' \<and> retry_count q' = retry_count r + 1)) \<and>
    (\<forall>i p. lookup m i = Some p \<and> (\<forall>x \<in> set (wk_running w). rid (snd x) = i \<longrightarrow> retry_count (snd x) \<noteq> retry_count p) \<longrightarrow>
       lookup (hand_off_undead_tasks w m) i = Some p)"
proof -
  have look: "lookup (hand_off_undead_tasks w m) i = (case lookup m i of None \<Rightarrow> None
      | Some q \<Rightarrow> Some (if \<exists>x \<in> set (wk_running w). rid (snd x) = i \<and> retry_count (snd x) = retry_count q
          then q\<lparr>heartbeat_at := None\<rparr> else q))" for i
    unfolding hand_off_undead_tasks_def null_fold_lookup by_generation_members by (simp split: option.split)
  have "\<exists>x \<in> set (wk_running w). rid (snd x) = rid r \<and> retry_count (snd x) = retry_count q" using r q(3) by force
  then have found: "lookup (hand_off_undead_tasks w m) (rid r) = Some (q\<lparr>heartbeat_at := None\<rparr>)" by (simp add: look q(1))
  have "is_stale (now - after) (q\<lparr>heartbeat_at := None\<rparr>)" by (simp add: is_stale_def q(2))
  from swept_record [OF hand_off_wf [OF wf] found this sweep] q(3)
  have "\<exists>q'. lookup m' (rid r) = Some q' \<and> (status q' = Failed \<or> is_waiting q' \<and> retry_count q' = retry_count r + 1)"
    by (auto simp: recovered_as_def split: if_splits)
  moreover have "lookup (hand_off_undead_tasks w m) i = Some p"
    if "lookup m i = Some p" "\<forall>x \<in> set (wk_running w). rid (snd x) = i \<longrightarrow> retry_count (snd x) \<noteq> retry_count p" for i p
  proof -
    have "\<not> (\<exists>x \<in> set (wk_running w). rid (snd x) = i \<and> retry_count (snd x) = retry_count p)" using that(2) by blast
    then show ?thesis by (simp add: look that(1) del: bex_simps)
  qed
  ultimately show ?thesis by blast
qed

section \<open>Witnesses\<close>

definition ex_worker_config :: worker_config where
  "ex_worker_config = \<lparr>wc_id = ''w'', wc_batch_size = 10, wc_max_concurrency = 2, wc_queue_concurrency = [(''mail'', 1)],
     wc_queues = [], wc_requeue_on_shutdown = True, wc_max_interruptions = Some 3, wc_poll_interval = 1,
     wc_poll_backoff_max = Some 8, wc_poll_backoff_multiplier = 3, wc_poll_jitter = 0, wc_cancellation_poll_interval = 1\<rparr>"

lemma poll_wait_bounded_witness:
  "current_wait_timeout ex_worker_config 0 (Some 5)
     (fold (\<lambda>(processed, outcome) w. after_cycle ex_worker_config processed outcome w)
       [(False, Elapsed), (False, Elapsed), (False, Elapsed)] (worker_init ex_worker_config)) \<le> 5"
  using poll_wait_bounded [of ex_worker_config _ "[(False, Elapsed), (False, Elapsed), (False, Elapsed)]" _ 0 "Some 5", OF _ refl]
  by (simp add: ex_worker_config_def)

lemma worker_capacity_respected_witness:
  "active_in_queue (wk_running (worker_init ex_worker_config)) ''mail'' \<le> 1"
proof -
  have "worker_reachable ex_env ex_worker_config (worker_init ex_worker_config, ex_svc (ex_state ex_record))"
    by (rule wk_start) (simp add: ex_svc_def mem_reachable_wf)
  note cap = worker_capacity_respected [OF ex_local(1) this]
  have "dict_get (wc_queue_concurrency ex_worker_config) ''mail'' = Some 1" by (simp add: ex_worker_config_def)
  with cap have "active_in_queue (wk_running (worker_init ex_worker_config)) ''mail'' \<le> max 0 1" by blast
  then show ?thesis by simp
qed

lemma undead_handed_to_recovery_witness:
  "\<exists>out m' q. requeue_stale_running (\<lambda>_. None) Preserve 60 None 500 (\<lambda>_. 500)
       (hand_off_undead_tasks (track_execution ex_restarted (worker_init ex_worker_config)) (ex_state ex_restarted)) = (Inr out, m') \<and>
     lookup m' 7 = Some q \<and> (status q = Failed \<or> is_waiting q)"
proof -
  let ?w = "track_execution ex_restarted (worker_init ex_worker_config)"
  let ?q = "ex_restarted\<lparr>heartbeat_at := None\<rparr>"
  have w: "(0, ex_restarted) \<in> set (wk_running ?w)" by (simp add: track_execution_def worker_init_def)
  have off: "hand_off_undead_tasks ?w (ex_state ex_restarted) = ex_state ?q"
    using ex_started_fields by (simp add: hand_off_undead_tasks_def track_execution_def worker_init_def null_heartbeats_def ex_state_def)
  have "\<not> recoverable ex_restarted" by (simp add: recoverable_def attempts_consumed_def)
  moreover have "requeue_on_stale ?q = requeue_on_stale ex_restarted" "attempts_consumed ?q = attempts_consumed ex_restarted"
    "max_retries ?q = max_retries ex_restarted"
    by (simp_all add: requeue_on_stale_def attempts_consumed_def interruption_count_def)
  ultimately have "\<exists>r'. stale_step parse Preserve t ?q = Exhausted r'" for parse t
    by (auto simp: stale_step_def recoverable_def)
  then obtain r' where ends: "stale_step (\<lambda>_. None) Preserve 500 ?q = Exhausted r'" by blast
  have "is_stale (500 - 60) ?q" by (simp add: is_stale_def ex_started_fields)
  then have "\<exists>out m'. requeue_stale_running (\<lambda>_. None) Preserve 60 None 500 (\<lambda>_. 500) (ex_state ?q) = (Inr out, m')"
    by (simp add: requeue_stale_running_def ends Let_def)
  then obtain out m' where sweep: "requeue_stale_running (\<lambda>_. None) Preserve 60 None 500 (\<lambda>_. 500)
      (hand_off_undead_tasks ?w (ex_state ex_restarted)) = (Inr out, m')" by (auto simp: off)
  have "mem_wf (ex_state ex_restarted)" by (simp add: mem_reachable_wf)
  from undead_handed_to_recovery [OF this w _ _ _ sweep, of ex_restarted] ex_started_fields sweep show ?thesis by auto
qed

end
