(* ===== verification/Brokers.thy ===== *)
theory Brokers
  imports Consumer Heartbeat
begin

text \<open>
  The broker execution backends (\<open>execution/sqs\<close>, \<open>execution/pubsub\<close>, \<open>execution/kafka\<close> and
  \<open>execution/rabbitmq\<close>): an attempt reference is reserved on the record and travels with its identifier
  in a message; the receiving side runs the record and answers the broker. A client is a parameter: a
  call may raise, and the store may change while it runs. Cancellation of a producer is left out, as are
  metrics, spans and logs. Brokers deliver a message any number of times.
\<close>

section \<open>Attempt references\<close>

fun digit_char :: "nat \<Rightarrow> char" where
  "digit_char n = char_of (48 + n)"

fun py_str_nat :: "nat \<Rightarrow> string" where
  "py_str_nat n = (if n < 10 then [digit_char n] else py_str_nat (n div 10) @ [digit_char (n mod 10)])"

declare py_str_nat.simps [simp del]

definition py_str_int :: "int \<Rightarrow> string" where
  "py_str_int n = (if n < 0 then CHR ''-'' # py_str_nat (nat (- n)) else py_str_nat (nat n))"

text \<open>\<open>ms\<close> is the clock in whole milliseconds and \<open>u\<close> a fresh identifier.\<close>

definition new_attempt :: "string \<Rightarrow> int \<Rightarrow> int \<Rightarrow> uuid \<Rightarrow> string" where
  "new_attempt name n ms u = name @ '':'' @ py_str_int n @ '':'' @ py_str_int ms @ '':'' @ uuid_str u"

definition parse_attempt :: "string \<Rightarrow> string option \<Rightarrow> (int \<times> int) option" where
  "parse_attempt name v =
     (case v of
        None \<Rightarrow> None
      | Some s \<Rightarrow>
          (case split_on (CHR '':'') s of
             [p, a, b, c] \<Rightarrow>
               if p \<noteq> name then None
               else (case (py_int_of_str a, py_int_of_str b, uuid_parse c) of
                       (Some n, Some ms, Some u) \<Rightarrow> if n \<ge> 0 \<and> ms \<ge> 0 then Some (n, ms) else None
                     | _ \<Rightarrow> None)
           | _ \<Rightarrow> None))"

definition sqs_new_attempt :: "int \<Rightarrow> int \<Rightarrow> uuid \<Rightarrow> string" where
  "sqs_new_attempt = new_attempt ''sqs''"

definition sqs_parse_attempt :: "string option \<Rightarrow> (int \<times> int) option" where
  "sqs_parse_attempt = parse_attempt ''sqs''"

definition pubsub_new_attempt :: "int \<Rightarrow> int \<Rightarrow> uuid \<Rightarrow> string" where
  "pubsub_new_attempt = new_attempt ''pubsub''"

definition pubsub_parse_attempt :: "string option \<Rightarrow> (int \<times> int) option" where
  "pubsub_parse_attempt = parse_attempt ''pubsub''"

definition kafka_new_attempt :: "int \<Rightarrow> int \<Rightarrow> uuid \<Rightarrow> string" where
  "kafka_new_attempt = new_attempt ''kafka''"

definition kafka_parse_attempt :: "string option \<Rightarrow> (int \<times> int) option" where
  "kafka_parse_attempt = parse_attempt ''kafka''"

definition rabbitmq_new_attempt :: "int \<Rightarrow> int \<Rightarrow> uuid \<Rightarrow> string" where
  "rabbitmq_new_attempt = new_attempt ''rabbitmq''"

definition rabbitmq_parse_attempt :: "string option \<Rightarrow> (int \<times> int) option" where
  "rabbitmq_parse_attempt = parse_attempt ''rabbitmq''"

section \<open>Sending\<close>

text \<open>What goes over the wire, with the fields only some brokers use.\<close>

record delivery_request =
  dq_target :: string
  dq_body :: string
  dq_attempt :: string
  dq_group :: "string option"
  dq_deduplication :: "string option"
  dq_priority :: "int option"

text \<open>
  The client library: connecting may raise, publishing may raise or answer whether the broker confirmed.
\<close>

record broker_client =
  bc_connect :: "unit svc"
  bc_publish :: "delivery_request \<Rightarrow> bool svc"

text \<open>A refused attempt gives its reservation back; an unknown outcome keeps it.\<close>

definition give_back :: "task_record \<Rightarrow> string \<Rightarrow> instant \<Rightarrow> py_error \<Rightarrow> 'a svc" where
  "give_back r ref now e =
     op_bind (svc_store (clear_execution_ref (rid r) (retry_count r) ref now)) (\<lambda>_. op_raise e)"

definition send_failed :: "(py_error \<Rightarrow> bool) \<Rightarrow> task_record \<Rightarrow> string \<Rightarrow> instant \<Rightarrow> py_error \<Rightarrow> 'a svc" where
  "send_failed definitive r ref now e =
     (if definitive e then give_back r ref now e else op_raise QueueDispatchError)"

record sqs_config =
  sq_queue_url :: string
  sq_fifo :: bool
  sq_message_group_id :: "string option"
  sq_dispatch_stale_after :: int

definition sqs_definitive :: "py_error \<Rightarrow> bool" where
  "sqs_definitive e = (case e of ApiError cls (Some st) \<Rightarrow> 400 \<le> st \<and> st < 500 \<and> st \<notin> {408, 429} | _ \<Rightarrow> False)"

text \<open>\<open>sha\<close> is SHA-256 in hex.\<close>

definition derived_group :: "(string \<Rightarrow> string) \<Rightarrow> string \<Rightarrow> string" where
  "derived_group sha q = ''queue-'' @ take 32 (sha q)"

definition sqs_request :: "sqs_config \<Rightarrow> (string \<Rightarrow> string) \<Rightarrow> task_record \<Rightarrow> string \<Rightarrow> delivery_request" where
  "sqs_request cfg sha r ref =
     \<lparr>dq_target = sq_queue_url cfg, dq_body = uuid_str (rid r), dq_attempt = ref,
      dq_group = (if sq_fifo cfg
                  then Some (case sq_message_group_id cfg of
                               Some (x # xs) \<Rightarrow> x # xs | _ \<Rightarrow> derived_group sha (queue r))
                  else None),
      dq_deduplication = (if sq_fifo cfg then Some ref else None), dq_priority = None\<rparr>"

definition sqs_send ::
    "sqs_config \<Rightarrow> (string \<Rightarrow> string) \<Rightarrow> broker_client \<Rightarrow> instant \<Rightarrow> task_record \<Rightarrow> string \<Rightarrow> unit svc" where
  "sqs_send cfg sha cl now r ref =
     op_try (op_bind (bc_connect cl) (\<lambda>_. op_bind (bc_publish cl (sqs_request cfg sha r ref)) (\<lambda>_. op_return ())))
       (send_failed sqs_definitive r ref now)"

definition id_request :: "string \<Rightarrow> task_record \<Rightarrow> string \<Rightarrow> delivery_request" where
  "id_request target r ref =
     \<lparr>dq_target = target, dq_body = uuid_str (rid r), dq_attempt = ref, dq_group = None, dq_deduplication = None,
      dq_priority = None\<rparr>"

definition pubsub_definitive :: "py_error \<Rightarrow> bool" where
  "pubsub_definitive e =
     (case e of
        ApiError cls st \<Rightarrow>
          cls \<in> {''FailedPrecondition'', ''InvalidArgument'', ''NotFound'', ''PermissionDenied'', ''Unauthenticated''}
      | _ \<Rightarrow> False)"

definition pubsub_send :: "string \<Rightarrow> broker_client \<Rightarrow> instant \<Rightarrow> task_record \<Rightarrow> string \<Rightarrow> unit svc" where
  "pubsub_send topic_path cl now r ref =
     op_try (op_bind (bc_connect cl) (\<lambda>_. op_bind (bc_publish cl (id_request topic_path r ref)) (\<lambda>_. op_return ())))
       (send_failed pubsub_definitive r ref now)"

definition kafka_definitive :: "py_error \<Rightarrow> bool" where
  "kafka_definitive e =
     (case e of
        ApiError cls st \<Rightarrow>
          cls \<in> {''InvalidTopicError'', ''MessageSizeTooLargeError'', ''TopicAuthorizationFailedError'',
                 ''UnsupportedVersionError''}
      | _ \<Rightarrow> False)"

text \<open>The connection is made outside of the \<open>try\<close>.\<close>

definition kafka_send :: "string \<Rightarrow> broker_client \<Rightarrow> instant \<Rightarrow> task_record \<Rightarrow> string \<Rightarrow> unit svc" where
  "kafka_send topic cl now r ref =
     op_bind (bc_connect cl) (\<lambda>_.
       op_try (op_bind (bc_publish cl (id_request topic r ref)) (\<lambda>_. op_return ()))
         (send_failed kafka_definitive r ref now))"

text \<open>
  The class test of RabbitMQ is \<open>isinstance\<close>; an exception carries the name of the class it descends from.
\<close>

definition rabbitmq_definitive :: "py_error \<Rightarrow> bool" where
  "rabbitmq_definitive e =
     (case e of ApiError cls st \<Rightarrow> cls \<in> {''DeliveryError'', ''PublishError'', ''NackError''} | _ \<Rightarrow> False)"

definition rabbitmq_request :: "string \<Rightarrow> task_record \<Rightarrow> string \<Rightarrow> delivery_request" where
  "rabbitmq_request queue_name r ref =
     (id_request queue_name r ref)\<lparr>dq_priority := Some (max 0 (min 31 (priority r)))\<rparr>"

definition rabbitmq_send :: "string \<Rightarrow> broker_client \<Rightarrow> instant \<Rightarrow> task_record \<Rightarrow> string \<Rightarrow> unit svc" where
  "rabbitmq_send queue_name cl now r ref =
     op_bind (bc_connect cl) (\<lambda>_.
     op_bind (op_try (bc_publish cl (rabbitmq_request queue_name r ref)) (send_failed rabbitmq_definitive r ref now))
       (\<lambda>confirmed. if confirmed then op_return () else give_back r ref now NegativePublishError))"

section \<open>Dispatch and repair\<close>

text \<open>
  \<open>name\<close> is the backend's name, \<open>send\<close> its way to publish an owned attempt; \<open>now\<close> and \<open>t\<close> are the clock
  readings of the reservation.
\<close>

definition broker_dispatch ::
    "string \<Rightarrow> (task_record \<Rightarrow> string \<Rightarrow> unit svc) \<Rightarrow> string \<Rightarrow> instant \<Rightarrow> instant \<Rightarrow> task_record \<Rightarrow> string option svc" where
  "broker_dispatch name send ref now t r =
     op_bind (svc_store (reserve_external_dispatch (rid r) name ref (execution_profile r) (Some (retry_count r)) now t))
       (\<lambda>reserved. case reserved of
          None \<Rightarrow> op_return None
        | Some q \<Rightarrow> op_bind (send q ref) (\<lambda>_. op_return (Some ref)))"

text \<open>\<open>fresh\<close> gives the milliseconds and the identifier of a new reference of a task.\<close>

definition rotation :: "string \<Rightarrow> (uuid \<Rightarrow> int \<times> uuid) \<Rightarrow> int \<Rightarrow> int \<Rightarrow> task_record \<Rightarrow> (string \<times> string) option" where
  "rotation name fresh now_ms stale_ms r =
     (case execution_ref r of
        None \<Rightarrow> None
      | Some old \<Rightarrow>
          (case parse_attempt name (Some old) of
             None \<Rightarrow> None
           | Some (n, ms) \<Rightarrow>
               if n = retry_count r \<and> now_ms - ms < stale_ms then None
               else Some (old, new_attempt name (retry_count r) (fst (fresh (rid r))) (snd (fresh (rid r))))))"

fun broker_repair_each ::
    "string \<Rightarrow> (task_record \<Rightarrow> string \<Rightarrow> unit svc) \<Rightarrow> (uuid \<Rightarrow> int \<times> uuid) \<Rightarrow> int \<Rightarrow> int \<Rightarrow> task_record list \<Rightarrow> int svc" where
  "broker_repair_each name send fresh now_ms stale_ms [] = op_return 0"
| "broker_repair_each name send fresh now_ms stale_ms (r # rs) =
     (case rotation name fresh now_ms stale_ms r of
        None \<Rightarrow> broker_repair_each name send fresh now_ms stale_ms rs
      | Some (old, new) \<Rightarrow>
          op_bind (svc_store (replace_execution_ref (rid r) (retry_count r) old new)) (\<lambda>rotated.
            case rotated of
              None \<Rightarrow> broker_repair_each name send fresh now_ms stale_ms rs
            | Some q \<Rightarrow>
                op_bind (op_try (op_bind (send q new) (\<lambda>_. op_return 1)) (\<lambda>e. op_return 0)) (\<lambda>sent.
                op_bind (broker_repair_each name send fresh now_ms stale_ms rs) (\<lambda>n. op_return (sent + n)))))"

definition broker_repair ::
    "string \<Rightarrow> (task_record \<Rightarrow> string \<Rightarrow> unit svc) \<Rightarrow> (uuid \<Rightarrow> int \<times> uuid) \<Rightarrow> int \<Rightarrow> int \<Rightarrow> int \<Rightarrow>
     dispatch_repair_result svc" where
  "broker_repair name send fresh now_ms stale_after limit =
     (if limit \<le> 0 then op_return empty_dispatch_repair_result
      else op_bind (svc_read (list_running_external (Some limit))) (\<lambda>rs.
           op_bind (broker_repair_each name send fresh now_ms (stale_after * 1000) rs) (\<lambda>n.
             op_return (empty_dispatch_repair_result\<lparr>dr_examined := int (length rs), dr_changed := n\<rparr>))))"

definition broker_execute :: "(task_record \<Rightarrow> string option svc) \<Rightarrow> task_record \<Rightarrow> task_record svc" where
  "broker_execute dispatch r =
     op_bind (dispatch r) (\<lambda>_. svc_read (\<lambda>m. case get_task (rid r) m of None \<Rightarrow> r | Some q \<Rightarrow> q))"

text \<open>An external backend over a dispatch and a repair, everything else inherited.\<close>

definition broker_backend ::
    "(task_record \<Rightarrow> string option svc) \<Rightarrow> (int \<Rightarrow> dispatch_repair_result svc) \<Rightarrow> exec_backend" where
  "broker_backend dispatch repair =
     \<lparr>xb_is_external = True, xb_schedules_on_enqueue = False, xb_max_schedule_horizon = None,
      xb_execute = broker_execute dispatch, xb_dispatch = dispatch, xb_schedule = dispatch, xb_repair = repair,
      xb_reconcile = (\<lambda>r. op_return None), xb_cancel_execution = (\<lambda>r. op_return (cancel_unsupported None))\<rparr>"

text \<open>
  The four backends. \<open>cl\<close> is the client, \<open>fresh\<close> gives the milliseconds and the identifier of a new
  reference, \<open>now\<close> and \<open>t\<close> are read by the reservation, \<open>later\<close> when a reservation is given back.
\<close>

definition sqs_dispatch ::
    "sqs_config \<Rightarrow> (string \<Rightarrow> string) \<Rightarrow> broker_client \<Rightarrow> (uuid \<Rightarrow> int \<times> uuid) \<Rightarrow> instant \<Rightarrow> instant \<Rightarrow> instant \<Rightarrow>
     task_record \<Rightarrow> string option svc" where
  "sqs_dispatch cfg sha cl fresh now t later r =
     (let (ms, u) = fresh (rid r)
      in broker_dispatch ''sqs'' (sqs_send cfg sha cl later) (sqs_new_attempt (retry_count r) ms u) now t r)"

definition sqs_repair ::
    "sqs_config \<Rightarrow> (string \<Rightarrow> string) \<Rightarrow> broker_client \<Rightarrow> (uuid \<Rightarrow> int \<times> uuid) \<Rightarrow> int \<Rightarrow> instant \<Rightarrow> int \<Rightarrow>
     dispatch_repair_result svc" where
  "sqs_repair cfg sha cl fresh now_ms later =
     broker_repair ''sqs'' (sqs_send cfg sha cl later) fresh now_ms (sq_dispatch_stale_after cfg)"

definition sqs_backend ::
    "sqs_config \<Rightarrow> (string \<Rightarrow> string) \<Rightarrow> broker_client \<Rightarrow> (uuid \<Rightarrow> int \<times> uuid) \<Rightarrow> instant \<Rightarrow> instant \<Rightarrow> int \<Rightarrow> instant \<Rightarrow>
     exec_backend" where
  "sqs_backend cfg sha cl fresh now t now_ms later =
     broker_backend (sqs_dispatch cfg sha cl fresh now t later) (sqs_repair cfg sha cl fresh now_ms later)"

definition pubsub_dispatch ::
    "string \<Rightarrow> broker_client \<Rightarrow> (uuid \<Rightarrow> int \<times> uuid) \<Rightarrow> instant \<Rightarrow> instant \<Rightarrow> instant \<Rightarrow> task_record \<Rightarrow> string option svc" where
  "pubsub_dispatch topic_path cl fresh now t later r =
     (let (ms, u) = fresh (rid r)
      in broker_dispatch ''pubsub'' (pubsub_send topic_path cl later) (pubsub_new_attempt (retry_count r) ms u) now t r)"

definition pubsub_repair ::
    "string \<Rightarrow> int \<Rightarrow> broker_client \<Rightarrow> (uuid \<Rightarrow> int \<times> uuid) \<Rightarrow> int \<Rightarrow> instant \<Rightarrow> int \<Rightarrow> dispatch_repair_result svc" where
  "pubsub_repair topic_path stale_after cl fresh now_ms later =
     broker_repair ''pubsub'' (pubsub_send topic_path cl later) fresh now_ms stale_after"

definition pubsub_backend ::
    "string \<Rightarrow> int \<Rightarrow> broker_client \<Rightarrow> (uuid \<Rightarrow> int \<times> uuid) \<Rightarrow> instant \<Rightarrow> instant \<Rightarrow> int \<Rightarrow> instant \<Rightarrow> exec_backend" where
  "pubsub_backend topic_path stale_after cl fresh now t now_ms later =
     broker_backend (pubsub_dispatch topic_path cl fresh now t later) (pubsub_repair topic_path stale_after cl fresh now_ms later)"

definition kafka_dispatch ::
    "string \<Rightarrow> broker_client \<Rightarrow> (uuid \<Rightarrow> int \<times> uuid) \<Rightarrow> instant \<Rightarrow> instant \<Rightarrow> instant \<Rightarrow> task_record \<Rightarrow> string option svc" where
  "kafka_dispatch topic cl fresh now t later r =
     (let (ms, u) = fresh (rid r)
      in broker_dispatch ''kafka'' (kafka_send topic cl later) (kafka_new_attempt (retry_count r) ms u) now t r)"

definition kafka_repair ::
    "string \<Rightarrow> int \<Rightarrow> broker_client \<Rightarrow> (uuid \<Rightarrow> int \<times> uuid) \<Rightarrow> int \<Rightarrow> instant \<Rightarrow> int \<Rightarrow> dispatch_repair_result svc" where
  "kafka_repair topic stale_after cl fresh now_ms later =
     broker_repair ''kafka'' (kafka_send topic cl later) fresh now_ms stale_after"

definition kafka_backend ::
    "string \<Rightarrow> int \<Rightarrow> broker_client \<Rightarrow> (uuid \<Rightarrow> int \<times> uuid) \<Rightarrow> instant \<Rightarrow> instant \<Rightarrow> int \<Rightarrow> instant \<Rightarrow> exec_backend" where
  "kafka_backend topic stale_after cl fresh now t now_ms later =
     broker_backend (kafka_dispatch topic cl fresh now t later) (kafka_repair topic stale_after cl fresh now_ms later)"

definition rabbitmq_dispatch ::
    "string \<Rightarrow> broker_client \<Rightarrow> (uuid \<Rightarrow> int \<times> uuid) \<Rightarrow> instant \<Rightarrow> instant \<Rightarrow> instant \<Rightarrow> task_record \<Rightarrow> string option svc" where
  "rabbitmq_dispatch queue_name cl fresh now t later r =
     (let (ms, u) = fresh (rid r)
      in broker_dispatch ''rabbitmq'' (rabbitmq_send queue_name cl later) (rabbitmq_new_attempt (retry_count r) ms u) now t r)"

definition rabbitmq_repair ::
    "string \<Rightarrow> int \<Rightarrow> broker_client \<Rightarrow> (uuid \<Rightarrow> int \<times> uuid) \<Rightarrow> int \<Rightarrow> instant \<Rightarrow> int \<Rightarrow> dispatch_repair_result svc" where
  "rabbitmq_repair queue_name stale_after cl fresh now_ms later =
     broker_repair ''rabbitmq'' (rabbitmq_send queue_name cl later) fresh now_ms stale_after"

definition rabbitmq_backend ::
    "string \<Rightarrow> int \<Rightarrow> broker_client \<Rightarrow> (uuid \<Rightarrow> int \<times> uuid) \<Rightarrow> instant \<Rightarrow> instant \<Rightarrow> int \<Rightarrow> instant \<Rightarrow> exec_backend" where
  "rabbitmq_backend queue_name stale_after cl fresh now t now_ms later =
     broker_backend (rabbitmq_dispatch queue_name cl fresh now t later) (rabbitmq_repair queue_name stale_after cl fresh now_ms later)"

section \<open>Deliveries\<close>

text \<open>
  The answer to the broker: the message is done (deleted, acknowledged, committed), given back, or left
  to its deadline. A body that is not text has no \<open>dm_body\<close>.
\<close>

datatype broker_answer = Acknowledged | Rejected | Unanswered

record delivery_message =
  dm_body :: "string option"
  dm_attempt :: "string option"

definition message_task :: "delivery_message \<Rightarrow> uuid option" where
  "message_task msg = (case dm_body msg of None \<Rightarrow> None | Some b \<Rightarrow> uuid_parse b)"

text \<open>
  After a failed run the reference of a record that is not finished is cleared, so that it can be
  dispatched again: \<open>None\<close> when the record is gone, and whether nothing was left to clear otherwise.
\<close>

definition release_retry :: "uuid \<Rightarrow> string \<Rightarrow> instant \<Rightarrow> svc_state \<Rightarrow> bool option \<times> svc_state" where
  "release_retry i ref now s =
     (case get_task i (ss_store s) of
        None \<Rightarrow> (None, s)
      | Some latest \<Rightarrow>
          if is_terminal latest then (Some True, s)
          else let (cleared, m) = clear_execution_ref i (retry_count latest) ref now (ss_store s)
               in (Some (cleared \<noteq> None), s\<lparr>ss_store := m\<rparr>))"

text \<open>
  \<open>reachable\<close>: the store answers the first read; \<open>now\<close> is the clock when a reference is cleared. An SQS
  message has a receipt.
\<close>

definition sqs_resolve :: "bool \<Rightarrow> delivery_message \<Rightarrow> mem_state \<Rightarrow> broker_answer + (uuid \<times> int \<times> string)" where
  "sqs_resolve reachable msg m =
     (case (message_task msg, dm_attempt msg, sqs_parse_attempt (dm_attempt msg)) of
        (Some i, Some ref, Some (n, ms)) \<Rightarrow>
          if \<not> reachable then Inl Unanswered
          else if get_task i m = None then Inl Acknowledged
          else Inr (i, n, ref)
      | _ \<Rightarrow> Inl Acknowledged)"

definition sqs_consume ::
    "service_env \<Rightarrow> consumer_env \<Rightarrow> bool \<Rightarrow> instant \<Rightarrow> delivery_message \<Rightarrow> svc_state \<Rightarrow> broker_answer \<times> svc_state" where
  "sqs_consume env c reachable now msg s =
     (case sqs_resolve reachable msg (ss_store s) of
        Inl answer \<Rightarrow> (answer, s)
      | Inr (i, n, ref) \<Rightarrow>
          (case consume_one env c i (Some n) (Some ref) s of
             (Exited code, s1) \<Rightarrow>
               if code \<noteq> FAILURE then (Acknowledged, s1)
               else (case release_retry i ref now s1 of
                       (Some True, s2) \<Rightarrow> (Acknowledged, s2)
                     | (_, s2) \<Rightarrow> (Unanswered, s2))
           | (_, s1) \<Rightarrow> (Unanswered, s1)))"

definition pubsub_consume ::
    "service_env \<Rightarrow> consumer_env \<Rightarrow> bool \<Rightarrow> instant \<Rightarrow> delivery_message \<Rightarrow> svc_state \<Rightarrow> broker_answer \<times> svc_state" where
  "pubsub_consume env c reachable now msg s =
     (case (message_task msg, dm_attempt msg, pubsub_parse_attempt (dm_attempt msg)) of
        (Some i, Some ref, Some (n, ms)) \<Rightarrow>
          if \<not> reachable then (Rejected, s)
          else (case get_task i (ss_store s) of
                  None \<Rightarrow> (Acknowledged, s)
                | Some current \<Rightarrow>
                    if is_terminal current then (Acknowledged, s)
                    else (case consume_one env c i (Some n) (Some ref) s of
                            (Exited code, s1) \<Rightarrow>
                              if code \<noteq> FAILURE then (Acknowledged, s1)
                              else (case release_retry i ref now s1 of
                                      (Some True, s2) \<Rightarrow> (Acknowledged, s2)
                                    | (_, s2) \<Rightarrow> (Rejected, s2))
                          | (_, s1) \<Rightarrow> (Rejected, s1)))
      | _ \<Rightarrow> (Acknowledged, s))"

definition kafka_consume ::
    "service_env \<Rightarrow> consumer_env \<Rightarrow> bool \<Rightarrow> instant \<Rightarrow> delivery_message \<Rightarrow> svc_state \<Rightarrow> broker_answer \<times> svc_state" where
  "kafka_consume env c reachable now msg s =
     (case (message_task msg, dm_attempt msg, kafka_parse_attempt (dm_attempt msg)) of
        (Some i, Some ref, Some (n, ms)) \<Rightarrow>
          if \<not> reachable then (Unanswered, s)
          else (case get_task i (ss_store s) of
                  None \<Rightarrow> (Acknowledged, s)
                | Some current \<Rightarrow>
                    if is_terminal current then (Acknowledged, s)
                    else (case consume_one env c i (Some n) (Some ref) s of
                            (Exited code, s1) \<Rightarrow>
                              if code \<noteq> FAILURE then (Acknowledged, s1)
                              else (case release_retry i ref now s1 of
                                      (Some True, s2) \<Rightarrow> (Acknowledged, s2)
                                    | (_, s2) \<Rightarrow> (Unanswered, s2))
                          | (_, s1) \<Rightarrow> (Unanswered, s1)))
      | _ \<Rightarrow> (Acknowledged, s))"

text \<open>RabbitMQ acknowledges a failed run whether or not its reference could be cleared.\<close>

definition rabbitmq_consume ::
    "service_env \<Rightarrow> consumer_env \<Rightarrow> bool \<Rightarrow> instant \<Rightarrow> delivery_message \<Rightarrow> svc_state \<Rightarrow> broker_answer \<times> svc_state" where
  "rabbitmq_consume env c reachable now msg s =
     (case (message_task msg, dm_attempt msg, rabbitmq_parse_attempt (dm_attempt msg)) of
        (Some i, Some ref, Some (n, ms)) \<Rightarrow>
          if \<not> reachable then (Rejected, s)
          else (case get_task i (ss_store s) of
                  None \<Rightarrow> (Acknowledged, s)
                | Some current \<Rightarrow>
                    if is_terminal current then (Acknowledged, s)
                    else (case consume_one env c i (Some n) (Some ref) s of
                            (Exited code, s1) \<Rightarrow>
                              (Acknowledged, if code = FAILURE then snd (release_retry i ref now s1) else s1)
                          | (_, s1) \<Rightarrow> (Rejected, s1)))
      | _ \<Rightarrow> (Acknowledged, s))"

text \<open>
  A Kafka partition is processed in order: the offsets committed. \<open>km_assigned\<close> is whether the partition is
  still assigned at a message's turn and \<open>km_commit_ok\<close> whether its commit succeeds.
\<close>

record kafka_message =
  km_message :: delivery_message
  km_offset :: int
  km_assigned :: bool
  km_commit_ok :: bool

fun consume_partition ::
    "(kafka_message \<Rightarrow> svc_state \<Rightarrow> broker_answer \<times> svc_state) \<Rightarrow> kafka_message list \<Rightarrow> svc_state \<Rightarrow> int list \<times> svc_state" where
  "consume_partition consume [] s = ([], s)"
| "consume_partition consume (m # ms) s =
     (if \<not> km_assigned m then ([], s)
      else case consume m s of
             (Acknowledged, s1) \<Rightarrow>
               if \<not> km_commit_ok m then ([], s1)
               else let (committed, s2) = consume_partition consume ms s1 in ((km_offset m + 1) # committed, s2)
           | (_, s1) \<Rightarrow> ([], s1))"

end
