(* ===== verification/Cloud_Run.thy ===== *)
theory Cloud_Run
  imports Brokers
begin

text \<open>
  The Cloud Run Jobs backend (\<open>execution/cloudrun/backend.py\<close>, \<open>config.py\<close>). A dispatch reserves the record
  under a provisional reference with a lease, starts the job and replaces the reservation by the name of the
  execution; reconciliation asks the provider about executions whose record did not settle. The two Google
  clients are parameters: a call may raise, and the store may change while it runs. Cancellation of the
  dispatching coroutine is left out, as are metrics, spans and logs.
\<close>

section \<open>Configuration\<close>

record cloud_run_config =
  rc_project_id :: string
  rc_region :: string
  rc_job_name :: "string option"
  rc_profiles :: "(string \<times> string) list"
  rc_timeout :: int
  rc_extra_env :: "(string \<times> string) list"
  rc_fallback_execution_backend :: "string option"
  rc_schedules_on_enqueue :: bool

definition resolve_job_name :: "cloud_run_config \<Rightarrow> string option \<Rightarrow> string result" where
  "resolve_job_name cfg profile =
     (case (case profile of None \<Rightarrow> None | Some p \<Rightarrow> dict_get (rc_profiles cfg) p) of
        Some job \<Rightarrow> Inr job
      | None \<Rightarrow>
          (case rc_job_name cfg of
             Some job \<Rightarrow> Inr job
           | None \<Rightarrow>
               (case dict_get (rc_profiles cfg) ''default'' of
                  Some job \<Rightarrow> Inr job
                | None \<Rightarrow> Inl QueueConfigurationError)))"

section \<open>Requests and answers\<close>

record run_job_request =
  rj_name :: string
  rj_env :: "(string \<times> string) list"
  rj_timeout :: string

definition TASK_ID_ENV :: string where
  "TASK_ID_ENV = ''QUEUES_TASK_ID''"

definition build_task_env :: "cloud_run_config \<Rightarrow> task_record \<Rightarrow> (string \<times> string) list" where
  "build_task_env cfg r = dict_update [(TASK_ID_ENV, uuid_str (rid r))] (rc_extra_env cfg)"

definition timeout_seconds :: "cloud_run_config \<Rightarrow> pyval \<Rightarrow> int" where
  "timeout_seconds cfg v =
     (case v of
        PInt n \<Rightarrow> n
      | PBool b \<Rightarrow> of_bool b
      | PFloat x \<Rightarrow> py_trunc x
      | _ \<Rightarrow> rc_timeout cfg)"

definition build_run_job_request :: "service_env \<Rightarrow> cloud_run_config \<Rightarrow> task_record \<Rightarrow> run_job_request result" where
  "build_run_job_request env cfg r =
     (case resolve_task env (task_name r) of
        Inl e \<Rightarrow> Inl e
      | Inr t \<Rightarrow>
          (case resolve_job_name cfg (execution_profile r) of
             Inl e \<Rightarrow> Inl e
           | Inr job \<Rightarrow>
               Inr \<lparr>rj_name = ''projects/'' @ rc_project_id cfg @ ''/locations/'' @ rc_region cfg @ ''/jobs/'' @ job,
                    rj_env = build_task_env cfg r,
                    rj_timeout = py_str_int (timeout_seconds cfg (get_or (metadata r) ''timeout'' (to_timeout t))) @ ''s''\<rparr>))"

text \<open>
  The metadata of the operation that \<open>run_job\<close> answers: nothing, a text, a mapping or an object, each of the
  last two with an optional name and an optional nested execution.
\<close>

datatype operation_metadata =
    NoMetadata
  | TextMetadata string
  | MappingMetadata "string option" "operation_metadata option"
  | ObjectMetadata "string option" "operation_metadata option"

fun execution_ref_from_value :: "operation_metadata \<Rightarrow> string option" where
  "execution_ref_from_value NoMetadata = None"
| "execution_ref_from_value (TextMetadata s) = (if s = [] then None else Some s)"
| "execution_ref_from_value (MappingMetadata name nested) =
     (case name of
        Some (x # xs) \<Rightarrow> Some (x # xs)
      | _ \<Rightarrow> (case nested of None \<Rightarrow> None | Some v \<Rightarrow> execution_ref_from_value v))"
| "execution_ref_from_value (ObjectMetadata name nested) =
     (case name of
        Some (x # xs) \<Rightarrow> Some (x # xs)
      | _ \<Rightarrow> (case nested of None \<Rightarrow> None | Some v \<Rightarrow> execution_ref_from_value v))"

definition require_operation_execution_ref :: "operation_metadata \<Rightarrow> string result" where
  "require_operation_execution_ref v =
     (case execution_ref_from_value v of None \<Rightarrow> Inl RuntimeError | Some ref \<Rightarrow> Inr ref)"

record provider_execution =
  pe_succeeded_count :: int
  pe_failed_count :: int
  pe_cancelled_count :: int
  pe_condition_messages :: "string option list"

record run_client =
  rk_connect_jobs :: "unit svc"
  rk_run_job :: "run_job_request \<Rightarrow> operation_metadata svc"
  rk_connect_executions :: "unit svc"
  rk_get_execution :: "string \<Rightarrow> provider_execution svc"
  rk_cancel_execution :: "string \<Rightarrow> unit svc"

section \<open>Reservations\<close>

definition SECOND :: int where
  "SECOND = 1000000"

definition DISPATCH_RESERVATION_LEASE_SECONDS :: int where
  "DISPATCH_RESERVATION_LEASE_SECONDS = 15 * 60"

text \<open>\<open>int(time.time() + lease)\<close> for a clock of microseconds; \<open>u\<close> is a fresh identifier.\<close>

definition dispatch_reservation :: "instant \<Rightarrow> uuid \<Rightarrow> string" where
  "dispatch_reservation now u =
     EXTERNAL_DISPATCH_RESERVATION_PREFIX @
     py_str_int ((now + DISPATCH_RESERVATION_LEASE_SECONDS * SECOND) div SECOND) @ '':'' @ uuid_str u"

definition dispatch_reservation_is_stale :: "(string \<Rightarrow> rat option) \<Rightarrow> instant \<Rightarrow> string \<Rightarrow> bool" where
  "dispatch_reservation_is_stale parse_float now ref =
     (let payload = (if starts_with EXTERNAL_DISPATCH_RESERVATION_PREFIX ref
                     then drop (length EXTERNAL_DISPATCH_RESERVATION_PREFIX) ref else ref) in
      if CHR '':'' \<notin> set payload then True
      else (case parse_float (takeWhile (\<lambda>c. c \<noteq> CHR '':'') payload) of
              None \<Rightarrow> True
            | Some deadline \<Rightarrow> deadline \<le> of_int now / of_int SECOND))"

section \<open>Cancellation\<close>

definition is_not_found_error :: "py_error \<Rightarrow> bool" where
  "is_not_found_error e = (case e of ApiError cls code \<Rightarrow> cls = ''NotFound'' \<or> code = Some 404 | _ \<Rightarrow> False)"

definition cancel_execution_ref :: "(py_error \<Rightarrow> string) \<Rightarrow> run_client \<Rightarrow> string \<Rightarrow> execution_cancel_result svc" where
  "cancel_execution_ref show_exc cl ref =
     op_try (op_bind (rk_connect_executions cl) (\<lambda>_. op_bind (rk_cancel_execution cl ref) (\<lambda>_.
               op_return \<lparr>cancel_status = Accepted, cancel_detail = Some ref\<rparr>)))
       (\<lambda>e. op_return (if is_not_found_error e
                       then \<lparr>cancel_status = AlreadyCancelled, cancel_detail = Some ''Cloud Run execution not found''\<rparr>
                       else \<lparr>cancel_status = Retryable, cancel_detail = Some (show_exc e)\<rparr>))"

definition cloud_run_cancel :: "(py_error \<Rightarrow> string) \<Rightarrow> run_client \<Rightarrow> task_record \<Rightarrow> execution_cancel_result svc" where
  "cloud_run_cancel show_exc cl r =
     (case execution_ref r of
        None \<Rightarrow> op_return (cancel_unsupported (Some ''no Cloud Run execution reference''))
      | Some ref \<Rightarrow>
          if starts_with EXTERNAL_DISPATCH_RESERVATION_PREFIX ref
          then op_return (cancel_unsupported (Some ''no Cloud Run execution reference''))
          else cancel_execution_ref show_exc cl ref)"

section \<open>Dispatch\<close>

definition run_job_call :: "service_env \<Rightarrow> cloud_run_config \<Rightarrow> run_client \<Rightarrow> task_record \<Rightarrow> string svc" where
  "run_job_call env cfg cl reserved =
     op_bind (op_lift (build_run_job_request env cfg reserved)) (\<lambda>request.
     op_bind (rk_connect_jobs cl) (\<lambda>_.
     op_bind (rk_run_job cl request) (\<lambda>operation.
       op_lift (require_operation_execution_ref operation))))"

definition publish_dispatch_failure ::
    "(py_error \<Rightarrow> string) \<Rightarrow> cloud_run_config \<Rightarrow> task_record \<Rightarrow> py_error \<Rightarrow> unit svc" where
  "publish_dispatch_failure show_exc cfg r e =
     emit (task_event ''task.event'' r None (retry_count r + 1) (Some ''Cloud Run dispatch failed'')
       [(''phase'', PStr ''cloudrun.dispatch_fallback''), (''error'', PStr (show_exc e)),
        (''fallback_execution_backend'',
         case rc_fallback_execution_backend cfg of None \<Rightarrow> PNone | Some b \<Rightarrow> PStr b)])"

definition dispatch_failed ::
    "(py_error \<Rightarrow> string) \<Rightarrow> cloud_run_config \<Rightarrow> task_record \<Rightarrow> string \<Rightarrow> instant \<Rightarrow> py_error \<Rightarrow> string option svc" where
  "dispatch_failed show_exc cfg r reservation now e =
     op_bind (publish_dispatch_failure show_exc cfg r e) (\<lambda>_.
       case rc_fallback_execution_backend cfg of
         None \<Rightarrow>
           op_bind (svc_store (release_external_dispatch (rid r) reservation (execution_backend r) (execution_profile r) now))
             (\<lambda>_. op_raise e)
       | Some fallback \<Rightarrow>
           op_bind (svc_store (release_external_dispatch (rid r) reservation fallback (execution_profile r) now))
             (\<lambda>_. op_return None))"

definition finalize_dispatch ::
    "(py_error \<Rightarrow> string) \<Rightarrow> run_client \<Rightarrow> task_record \<Rightarrow> string \<Rightarrow> string \<Rightarrow> string option svc" where
  "finalize_dispatch show_exc cl r reservation ref =
     op_bind (svc_store (finalize_external_dispatch (rid r) reservation ''cloudrun'' ref (execution_profile r))) (\<lambda>finalized.
       case finalized of
         Some q \<Rightarrow> op_return (Some ref)
       | None \<Rightarrow> op_bind (cancel_execution_ref show_exc cl ref) (\<lambda>_. op_raise RuntimeError))"

text \<open>\<open>clk 0\<close> dates the reservation, \<open>clk 1\<close> and \<open>clk 2\<close> are read reserving it, \<open>clk 3\<close> giving it back.\<close>

definition cloud_run_dispatch ::
    "(py_error \<Rightarrow> string) \<Rightarrow> service_env \<Rightarrow> cloud_run_config \<Rightarrow> run_client \<Rightarrow> (nat \<Rightarrow> instant) \<Rightarrow> uuid \<Rightarrow> task_record \<Rightarrow>
     string option svc" where
  "cloud_run_dispatch show_exc env cfg cl clk u r =
     (let reservation = dispatch_reservation (clk 0) u in
      op_bind (svc_store (reserve_external_dispatch (rid r) ''cloudrun'' reservation (execution_profile r) None (clk 1) (clk 2)))
        (\<lambda>reserved.
          case reserved of
            None \<Rightarrow> op_return None
          | Some q \<Rightarrow>
              op_bind (op_try (op_bind (run_job_call env cfg cl q) (\<lambda>ref. op_return (Inr ref)))
                         (\<lambda>e. op_bind (dispatch_failed show_exc cfg r reservation (clk 3) e) (\<lambda>out. op_return (Inl out))))
                (\<lambda>started.
                   case started of
                     Inl out \<Rightarrow> op_return out
                   | Inr ref \<Rightarrow> finalize_dispatch show_exc cl r reservation ref)))"

definition cloud_run_execute :: "(task_record \<Rightarrow> string option svc) \<Rightarrow> task_record \<Rightarrow> task_record svc" where
  "cloud_run_execute dispatch r = op_bind (dispatch r) (\<lambda>_. current_or_claimed r)"

section \<open>Scheduling\<close>

text \<open>\<open>now\<close> is read when a stale reference is cleared, \<open>t\<close> to compare the due time.\<close>

definition cloud_run_schedule ::
    "cloud_run_config \<Rightarrow> (task_record \<Rightarrow> string option svc) \<Rightarrow> instant \<Rightarrow> instant \<Rightarrow> task_record \<Rightarrow> string option svc" where
  "cloud_run_schedule cfg dispatch now t r =
     (if \<not> rc_schedules_on_enqueue cfg then op_return None
      else op_bind (svc_read (get_task (rid r))) (\<lambda>found.
        case found of
          None \<Rightarrow> op_return None
        | Some current \<Rightarrow>
            if \<not> is_waiting current then op_return None
            else op_bind
              (case execution_ref current of
                 Some ref \<Rightarrow>
                   if starts_with EXTERNAL_DISPATCH_RESERVATION_PREFIX ref then op_return (Some current)
                   else svc_store (clear_execution_ref (rid current) (retry_count current) ref now)
               | None \<Rightarrow> op_return (Some current))
              (\<lambda>cleared.
                case cleared of
                  None \<Rightarrow> op_return None
                | Some q \<Rightarrow> if \<not> is_due t q then op_return None else dispatch q)))"

section \<open>Repair\<close>

datatype candidate_outcome = Dispatched | DispatchFailed | Skipped

text \<open>\<open>now\<close> is read once per pass, \<open>t\<close> for the lease of this candidate, \<open>later\<close> giving it back.\<close>

definition cloud_run_repair_candidate ::
    "(string \<Rightarrow> rat option) \<Rightarrow> (task_record \<Rightarrow> string option svc) \<Rightarrow> instant \<Rightarrow> instant \<Rightarrow> instant \<Rightarrow> task_record \<Rightarrow>
     candidate_outcome svc" where
  "cloud_run_repair_candidate parse_float dispatch now t later candidate =
     op_bind (svc_read (get_task (rid candidate))) (\<lambda>found.
       case found of
         None \<Rightarrow> op_return Skipped
       | Some current \<Rightarrow>
           if \<not> is_waiting current then op_return Skipped
           else op_bind
             (case execution_ref current of
                Some ref \<Rightarrow>
                  if starts_with EXTERNAL_DISPATCH_RESERVATION_PREFIX ref \<and> dispatch_reservation_is_stale parse_float t ref
                  then svc_store (release_external_dispatch (rid current) ref (execution_backend current)
                         (execution_profile current) later)
                  else op_return (Some current)
              | None \<Rightarrow> op_return (Some current))
             (\<lambda>released.
               case released of
                 None \<Rightarrow> op_return Skipped
               | Some q \<Rightarrow>
                   if execution_ref q \<noteq> None \<or> \<not> is_due now q then op_return Skipped
                   else op_try (op_bind (dispatch q) (\<lambda>ref. op_return (if ref \<noteq> None then Dispatched else Skipped)))
                          (\<lambda>e. op_return DispatchFailed)))"

text \<open>\<open>clk i\<close> are the readings of the turn of record \<open>i\<close>.\<close>

fun cloud_run_repair_all ::
    "(string \<Rightarrow> rat option) \<Rightarrow> (task_record \<Rightarrow> string option svc) \<Rightarrow> (uuid \<Rightarrow> nat \<Rightarrow> instant) \<Rightarrow> instant \<Rightarrow>
     task_record list \<Rightarrow> candidate_outcome list svc" where
  "cloud_run_repair_all parse_float dispatch clk now [] = op_return []"
| "cloud_run_repair_all parse_float dispatch clk now (r # rs) =
     op_bind (cloud_run_repair_candidate parse_float dispatch now (clk (rid r) 0) (clk (rid r) 1) r) (\<lambda>outcome.
     op_bind (cloud_run_repair_all parse_float dispatch clk now rs) (\<lambda>outcomes. op_return (outcome # outcomes)))"

definition cloud_run_repair ::
    "(string \<Rightarrow> rat option) \<Rightarrow> cloud_run_config \<Rightarrow> (task_record \<Rightarrow> string option svc) \<Rightarrow> (uuid \<Rightarrow> nat \<Rightarrow> instant) \<Rightarrow>
     instant \<Rightarrow> instant \<Rightarrow> int \<Rightarrow> dispatch_repair_result svc" where
  "cloud_run_repair parse_float cfg dispatch clk listed now limit =
     (if limit < 0 then op_raise QueueConfigurationError
      else if limit = 0 \<or> \<not> rc_schedules_on_enqueue cfg then op_return empty_dispatch_repair_result
      else op_bind (svc_fallible (list_dispatch_repair_candidates ''cloudrun'' limit listed)) (\<lambda>page.
           op_bind (cloud_run_repair_all parse_float dispatch clk now (rc_records page)) (\<lambda>outcomes.
             op_return
               \<lparr>dr_examined = int (rc_examined page),
                dr_changed = int (length (filter (\<lambda>x. x = Dispatched) outcomes)),
                dr_failed = int (length (filter (\<lambda>x. x = DispatchFailed) outcomes)),
                dr_unchanged = int (rc_examined page) - int (length outcomes) + int (length (filter (\<lambda>x. x = Skipped) outcomes)),
                dr_limit_reached = rc_limit_reached page\<rparr>)))"

section \<open>Reconciliation\<close>

record execution_status =
  xs_succeeded :: bool
  xs_failed :: bool
  xs_cancelled :: bool
  xs_running :: bool
  xs_error :: "string option"

definition execution_error :: "provider_execution \<Rightarrow> string option" where
  "execution_error x =
     (case filter (\<lambda>m. m \<noteq> None \<and> m \<noteq> Some []) (rev (pe_condition_messages x)) of [] \<Rightarrow> None | m # ms \<Rightarrow> m)"

definition check_execution_status :: "(py_error \<Rightarrow> string) \<Rightarrow> run_client \<Rightarrow> string \<Rightarrow> execution_status svc" where
  "check_execution_status show_exc cl ref =
     op_try
       (op_bind (rk_connect_executions cl) (\<lambda>_. op_bind (rk_get_execution cl ref) (\<lambda>x.
          let succeeded = pe_succeeded_count x > 0; failed = pe_failed_count x > 0; cancelled = pe_cancelled_count x > 0 in
          op_return
            \<lparr>xs_succeeded = succeeded, xs_failed = failed, xs_cancelled = cancelled,
             xs_running = (\<not> (succeeded \<or> failed \<or> cancelled)), xs_error = (if failed then execution_error x else None)\<rparr>)))
       (\<lambda>e. op_return
          (if is_not_found_error e
           then \<lparr>xs_succeeded = False, xs_failed = True, xs_cancelled = False, xs_running = False,
                 xs_error = Some ''Cloud Run execution not found''\<rparr>
           else \<lparr>xs_succeeded = False, xs_failed = False, xs_cancelled = False, xs_running = True,
                 xs_error = Some (show_exc e)\<rparr>))"

text \<open>An elapsed lease gives the record back; the sweep that follows may expire it.\<close>

definition recover_dispatch_reservation ::
    "service_env \<Rightarrow> instant \<Rightarrow> instant \<Rightarrow> instant \<Rightarrow> task_record \<Rightarrow> task_record option svc" where
  "recover_dispatch_reservation env t later now r =
     (case execution_ref r of
        None \<Rightarrow> op_return None
      | Some ref \<Rightarrow>
          if \<not> dispatch_reservation_is_stale (sv_parse_float env) t ref then op_return None
          else op_bind (svc_store (release_external_dispatch (rid r) ref (execution_backend r) (execution_profile r) later))
            (\<lambda>released.
              case released of
                None \<Rightarrow> op_return None
              | Some q \<Rightarrow> op_bind (expire_overdue_tasks env None None now) (\<lambda>expired.
                  op_return (find (\<lambda>x. rid x = rid r) expired))))"

definition settle_failed_execution ::
    "execution_status \<Rightarrow> task_record \<Rightarrow> instant \<Rightarrow> instant \<Rightarrow> task_record option svc" where
  "settle_failed_execution st current now later =
     op_bind (svc_store (fail_task (rid current) (or_text (xs_error st) None ''Cloud Run execution failed'') True
         (if status current = Running then Some (retry_count current) else None) None None now)) (\<lambda>updated.
       case updated of
         None \<Rightarrow> op_return None
       | Some q \<Rightarrow>
           if is_waiting q
           then svc_store (set_execution_backend (rid q) (execution_backend q) (execution_profile q) later)
           else op_return (Some q))"

definition settle_from_execution ::
    "execution_status \<Rightarrow> task_record \<Rightarrow> instant \<Rightarrow> instant \<Rightarrow> task_record option svc" where
  "settle_from_execution st current now later =
     (let fence = (if status current = Running then Some (retry_count current) else None) in
      if xs_succeeded st then
        if status current \<noteq> Running then op_return None
        else svc_store (complete_task (rid current)
               (if task_result current \<noteq> PNone then task_result current
                else PDict [(''cloudrun_execution'', case execution_ref current of None \<Rightarrow> PNone | Some x \<Rightarrow> PStr x),
                            (''status'', PStr ''succeeded'')]) fence now)
      else if xs_cancelled st then
        if status current \<noteq> Running then op_return None
        else op_bind (svc_store (cancel_task (rid current) True fence now)) (\<lambda>cancelled.
               if cancelled then svc_read (get_task (rid current)) else op_return None)
      else if xs_failed st then settle_failed_execution st current now later
      else op_return None)"

definition cloud_run_reconcile ::
    "(py_error \<Rightarrow> string) \<Rightarrow> service_env \<Rightarrow> run_client \<Rightarrow> (nat \<Rightarrow> instant) \<Rightarrow> task_record \<Rightarrow> task_record option svc" where
  "cloud_run_reconcile show_exc env cl clk r =
     (case execution_ref r of
        None \<Rightarrow> op_return None
      | Some ref \<Rightarrow>
          if starts_with EXTERNAL_DISPATCH_RESERVATION_PREFIX ref
          then recover_dispatch_reservation env (clk 0) (clk 1) (clk 2) r
          else op_bind (current_or_claimed r) (\<lambda>current.
            if is_terminal current then op_return None
            else op_bind (check_execution_status show_exc cl ref) (\<lambda>st.
              if xs_running st then op_return None else settle_from_execution st current (clk 0) (clk 1))))"

text \<open>\<open>dispatch_clk i\<close> and \<open>fresh i\<close> belong to a dispatch of record \<open>i\<close>; the other clocks likewise.\<close>

definition cloud_run_backend ::
    "(py_error \<Rightarrow> string) \<Rightarrow> service_env \<Rightarrow> cloud_run_config \<Rightarrow> run_client \<Rightarrow> (uuid \<Rightarrow> nat \<Rightarrow> instant) \<Rightarrow> (uuid \<Rightarrow> uuid) \<Rightarrow>
     instant \<Rightarrow> exec_backend" where
  "cloud_run_backend show_exc env cfg cl clk fresh now =
     (let dispatch = (\<lambda>r. cloud_run_dispatch show_exc env cfg cl (clk (rid r)) (fresh (rid r)) r) in
      \<lparr>xb_is_external = True, xb_schedules_on_enqueue = rc_schedules_on_enqueue cfg, xb_max_schedule_horizon = None,
       xb_execute = cloud_run_execute dispatch, xb_dispatch = dispatch,
       xb_schedule = cloud_run_schedule cfg dispatch now now, xb_repair = cloud_run_repair (sv_parse_float env) cfg dispatch clk now now,
       xb_reconcile = (\<lambda>r. cloud_run_reconcile show_exc env cl (clk (rid r)) r), xb_cancel_execution = cloud_run_cancel show_exc cl\<rparr>)"

end
