(* ===== verification/Cloud_Tasks.thy ===== *)
theory Cloud_Tasks
  imports Brokers
begin

text \<open>
  The Cloud Tasks backend (\<open>execution/cloudtasks/backend.py\<close>) and the route its deliveries arrive at
  (\<open>routes.py\<close>, \<open>oidc.py\<close>). A name for the delivery is reserved on the record before the provider is asked to
  create it. The client is a parameter: a call may raise, and the store may change while it runs.
\<close>

section \<open>Delivery names\<close>

record cloud_tasks_config =
  cc_queue_path :: string
  cc_delivery_name_prefix :: "string option"
  cc_target_url :: string
  cc_dispatch_deadline :: int
  cc_service_account_email :: string
  cc_audience :: "string option"

definition uuid_hex :: "uuid \<Rightarrow> string" where
  "uuid_hex u = hex_digits 32 u"

definition delivery_name_prefix :: "cloud_tasks_config \<Rightarrow> task_record \<Rightarrow> string" where
  "delivery_name_prefix cfg r =
     cc_queue_path cfg @ ''/tasks/'' @ (case cc_delivery_name_prefix cfg of Some (x # xs) \<Rightarrow> x # xs | _ \<Rightarrow> ''lq-'') @
     uuid_hex (rid r) @ ''-r'' @ py_str_int (retry_count r) @ ''-''"

text \<open>\<open>u\<close> is a fresh identifier.\<close>

definition delivery_name :: "cloud_tasks_config \<Rightarrow> task_record \<Rightarrow> uuid \<Rightarrow> string" where
  "delivery_name cfg r u = delivery_name_prefix cfg r @ uuid_hex u"

definition is_current_delivery_name :: "string \<Rightarrow> cloud_tasks_config \<Rightarrow> task_record \<Rightarrow> bool" where
  "is_current_delivery_name name cfg r \<longleftrightarrow> starts_with (delivery_name_prefix cfg r) name"

section \<open>The client\<close>

text \<open>The body is the JSON of the protocol version and the identifier.\<close>

record create_request =
  cr_parent :: string
  cr_name :: string
  cr_deadline :: int
  cr_url :: string
  cr_version :: int
  cr_task_id :: string
  cr_service_account :: string
  cr_audience :: "string option"
  cr_schedule_time :: "instant option"

definition CLOUD_TASKS_PROTOCOL_VERSION :: int where
  "CLOUD_TASKS_PROTOCOL_VERSION = 1"

definition create_task_request :: "cloud_tasks_config \<Rightarrow> task_record \<Rightarrow> string \<Rightarrow> create_request" where
  "create_task_request cfg r name =
     \<lparr>cr_parent = cc_queue_path cfg, cr_name = name, cr_deadline = cc_dispatch_deadline cfg, cr_url = cc_target_url cfg,
      cr_version = CLOUD_TASKS_PROTOCOL_VERSION, cr_task_id = uuid_str (rid r),
      cr_service_account = cc_service_account_email cfg, cr_audience = cc_audience cfg,
      cr_schedule_time = scheduled_at r\<rparr>"

record tasks_client =
  tc_connect :: "unit svc"
  tc_create :: "create_request \<Rightarrow> unit svc"
  tc_get :: "string \<Rightarrow> unit svc"
  tc_delete :: "string \<Rightarrow> unit svc"

definition is_already_exists :: "py_error \<Rightarrow> bool" where
  "is_already_exists e = (case e of ApiError cls code \<Rightarrow> cls = ''AlreadyExists'' \<or> code = Some 409 | _ \<Rightarrow> False)"

definition is_not_found :: "py_error \<Rightarrow> bool" where
  "is_not_found e = (case e of ApiError cls code \<Rightarrow> cls = ''NotFound'' \<or> code = Some 404 | _ \<Rightarrow> False)"

section \<open>One delivery\<close>

definition same_attempt :: "instant \<Rightarrow> task_record \<Rightarrow> task_record \<Rightarrow> string option \<Rightarrow> bool" where
  "same_attempt now current snapshot reference \<longleftrightarrow>
     rid current = rid snapshot \<and> execution_backend current = execution_backend snapshot \<and>
     execution_backend snapshot = CLOUD_TASKS_BACKEND \<and> retry_count current = retry_count snapshot \<and>
     execution_ref current = reference \<and> is_waiting current \<and> not_expired now current"

definition validate_schedulable :: "instant \<Rightarrow> task_record \<Rightarrow> unit result" where
  "validate_schedulable now r =
     (if execution_backend r \<noteq> CLOUD_TASKS_BACKEND then Inl QueueConfigurationError
      else if (case scheduled_at r of None \<Rightarrow> False | Some t \<Rightarrow> t > now + CLOUD_TASKS_MAX_SCHEDULE_HORIZON)
      then Inl QueueConfigurationError
      else Inr ())"

record delivery_operation =
  do_phase :: string
  do_failure_message :: string

definition SCHEDULE :: delivery_operation where
  "SCHEDULE = \<lparr>do_phase = ''cloudtasks.schedule_failed'', do_failure_message = ''Cloud Tasks delivery creation failed''\<rparr>"

definition REPAIR :: delivery_operation where
  "REPAIR = \<lparr>do_phase = ''cloudtasks.repair_failed'', do_failure_message = ''Cloud Tasks delivery repair failed''\<rparr>"

definition report_delivery_failure :: "task_record \<Rightarrow> delivery_operation \<Rightarrow> unit svc" where
  "report_delivery_failure r operation =
     emit (task_event ''task.event'' r None (retry_count r + 1) (Some (do_failure_message operation))
       [(''phase'', PStr (do_phase operation))])"

text \<open>The clock readings of each helper are numbered from 0.\<close>

definition reserve_delivery_name ::
    "cloud_tasks_config \<Rightarrow> (nat \<Rightarrow> instant) \<Rightarrow> uuid \<Rightarrow> task_record \<Rightarrow> string option svc" where
  "reserve_delivery_name cfg clk u r =
     (let name = delivery_name cfg r u in
      op_bind (svc_store (reserve_scheduled_execution_ref (rid r) (execution_backend r) name (retry_count r)
          (execution_ref r) (clk 0))) (\<lambda>stored.
        case stored of
          None \<Rightarrow> op_return None
        | Some q \<Rightarrow>
            if \<not> same_attempt (clk 1) q r (Some name) then op_return None
            else op_bind (op_lift (validate_schedulable (clk 2) q)) (\<lambda>_. op_return (Some name))))"

definition owns_delivery :: "instant \<Rightarrow> task_record \<Rightarrow> string \<Rightarrow> bool svc" where
  "owns_delivery now r name =
     svc_read (\<lambda>m. case get_task (rid r) m of None \<Rightarrow> False | Some q \<Rightarrow> same_attempt now q r (Some name))"

definition create_call ::
    "cloud_tasks_config \<Rightarrow> tasks_client \<Rightarrow> (nat \<Rightarrow> instant) \<Rightarrow> task_record \<Rightarrow> string \<Rightarrow> string option svc" where
  "create_call cfg cl clk r name =
     op_bind (tc_connect cl) (\<lambda>_.
     op_bind (svc_read (get_task (rid r))) (\<lambda>found.
       case found of
         None \<Rightarrow> op_return None
       | Some q \<Rightarrow>
           if \<not> same_attempt (clk 0) q r (Some name) then op_return None
           else op_bind (op_lift (validate_schedulable (clk 1) q)) (\<lambda>_.
                op_bind (tc_create cl (create_task_request cfg q name)) (\<lambda>_. op_return (Some name)))))"

definition create_delivery ::
    "cloud_tasks_config \<Rightarrow> tasks_client \<Rightarrow> (nat \<Rightarrow> instant) \<Rightarrow> delivery_operation \<Rightarrow> task_record \<Rightarrow> string \<Rightarrow>
     string option svc" where
  "create_delivery cfg cl clk operation r name =
     op_try (create_call cfg cl clk r name) (\<lambda>e.
       op_bind (if is_already_exists e then owns_delivery (clk 2) r name else op_return False) (\<lambda>owned.
         if owned then op_return (Some name)
         else op_bind (report_delivery_failure r operation) (\<lambda>_. op_raise QueueDispatchError)))"

section \<open>Scheduling\<close>

definition schedule_delivery ::
    "cloud_tasks_config \<Rightarrow> tasks_client \<Rightarrow> (nat \<Rightarrow> instant) \<Rightarrow> uuid \<Rightarrow> task_record \<Rightarrow> string option svc" where
  "schedule_delivery cfg cl clk u current =
     op_bind (op_lift (validate_schedulable (clk 0) current)) (\<lambda>_.
     op_bind (case execution_ref current of
                Some name \<Rightarrow>
                  if is_current_delivery_name name cfg current then op_return (Some name)
                  else reserve_delivery_name cfg (\<lambda>n. clk (n + 1)) u current
              | None \<Rightarrow> reserve_delivery_name cfg (\<lambda>n. clk (n + 1)) u current) (\<lambda>name.
       case name of
         None \<Rightarrow> op_return None
       | Some x \<Rightarrow> create_delivery cfg cl (\<lambda>n. clk (n + 4)) SCHEDULE current x))"

definition cloud_tasks_schedule ::
    "cloud_tasks_config \<Rightarrow> tasks_client \<Rightarrow> (nat \<Rightarrow> instant) \<Rightarrow> uuid \<Rightarrow> task_record \<Rightarrow> string option svc" where
  "cloud_tasks_schedule cfg cl clk u r =
     op_bind (svc_read (get_task (rid r))) (\<lambda>found.
       case found of
         None \<Rightarrow> op_return None
       | Some current \<Rightarrow>
           if \<not> is_waiting current then op_return None
           else op_try (schedule_delivery cfg cl clk u current) (\<lambda>e.
                  if e = QueueDispatchError then op_raise e
                  else op_bind (report_delivery_failure r SCHEDULE) (\<lambda>_. op_raise QueueDispatchError)))"

section \<open>Repair\<close>

datatype repair_outcome = Changed | RepairFailed | Unchanged

definition delivery_exists :: "tasks_client \<Rightarrow> string \<Rightarrow> bool svc" where
  "delivery_exists cl name =
     op_bind (tc_connect cl) (\<lambda>_.
       op_try (op_bind (tc_get cl name) (\<lambda>_. op_return True)) (\<lambda>e. if is_not_found e then op_return False else op_raise e))"

definition repair_candidate ::
    "cloud_tasks_config \<Rightarrow> tasks_client \<Rightarrow> (nat \<Rightarrow> instant) \<Rightarrow> uuid \<Rightarrow> task_record \<Rightarrow> repair_outcome svc" where
  "repair_candidate cfg cl clk u r =
     op_bind (svc_read (get_task (rid r))) (\<lambda>found.
       case found of
         None \<Rightarrow> op_return Unchanged
       | Some current \<Rightarrow>
           if \<not> same_attempt (clk 0) current r (execution_ref r) then op_return Unchanged
           else op_bind (op_lift (validate_schedulable (clk 1) current)) (\<lambda>_.
                op_bind (case execution_ref current of None \<Rightarrow> op_return False | Some name \<Rightarrow> delivery_exists cl name) (\<lambda>held.
                  if held then op_return Unchanged
                  else op_bind (reserve_delivery_name cfg (\<lambda>n. clk (n + 2)) u current) (\<lambda>name.
                    case name of
                      None \<Rightarrow> op_return Unchanged
                    | Some x \<Rightarrow>
                        op_bind (create_delivery cfg cl (\<lambda>n. clk (n + 5)) REPAIR current x) (\<lambda>delivery.
                          op_return (if delivery \<noteq> None then Changed else Unchanged))))))"

definition cloud_tasks_repair_one ::
    "cloud_tasks_config \<Rightarrow> tasks_client \<Rightarrow> (nat \<Rightarrow> instant) \<Rightarrow> uuid \<Rightarrow> task_record \<Rightarrow> repair_outcome svc" where
  "cloud_tasks_repair_one cfg cl clk u r =
     op_try (repair_candidate cfg cl clk u r) (\<lambda>e.
       if e = QueueDispatchError then op_return RepairFailed
       else op_bind (report_delivery_failure r REPAIR) (\<lambda>_. op_return RepairFailed))"

text \<open>\<open>clk i\<close> are the readings and \<open>fresh i\<close> the fresh identifier of the turn of record \<open>i\<close>.\<close>

fun repair_all ::
    "cloud_tasks_config \<Rightarrow> tasks_client \<Rightarrow> (uuid \<Rightarrow> nat \<Rightarrow> instant) \<Rightarrow> (uuid \<Rightarrow> uuid) \<Rightarrow> task_record list \<Rightarrow>
     repair_outcome list svc" where
  "repair_all cfg cl clk fresh [] = op_return []"
| "repair_all cfg cl clk fresh (r # rs) =
     op_bind (cloud_tasks_repair_one cfg cl (clk (rid r)) (fresh (rid r)) r) (\<lambda>outcome.
     op_bind (repair_all cfg cl clk fresh rs) (\<lambda>outcomes. op_return (outcome # outcomes)))"

definition repaired :: "int \<Rightarrow> bool \<Rightarrow> repair_outcome list \<Rightarrow> dispatch_repair_result" where
  "repaired examined limit_reached outcomes =
     \<lparr>dr_examined = examined, dr_changed = int (length (filter (\<lambda>x. x = Changed) outcomes)),
      dr_failed = int (length (filter (\<lambda>x. x = RepairFailed) outcomes)),
      dr_unchanged = examined - int (length outcomes) + int (length (filter (\<lambda>x. x = Unchanged) outcomes)),
      dr_limit_reached = limit_reached\<rparr>"

definition cloud_tasks_repair ::
    "cloud_tasks_config \<Rightarrow> tasks_client \<Rightarrow> (uuid \<Rightarrow> nat \<Rightarrow> instant) \<Rightarrow> (uuid \<Rightarrow> uuid) \<Rightarrow> instant \<Rightarrow> int \<Rightarrow>
     dispatch_repair_result svc" where
  "cloud_tasks_repair cfg cl clk fresh now limit =
     (if limit < 0 then op_raise QueueConfigurationError
      else if limit = 0 then op_return empty_dispatch_repair_result
      else op_bind (svc_fallible (list_dispatch_repair_candidates CLOUD_TASKS_BACKEND limit now)) (\<lambda>page.
           op_bind (repair_all cfg cl clk fresh (rc_records page)) (\<lambda>outcomes.
             op_return (repaired (int (rc_examined page)) (rc_limit_reached page) outcomes))))"

section \<open>Cancellation\<close>

text \<open>\<open>show_exc\<close> is the text of an exception.\<close>

definition cloud_tasks_cancel :: "(py_error \<Rightarrow> string) \<Rightarrow> tasks_client \<Rightarrow> task_record \<Rightarrow> execution_cancel_result svc" where
  "cloud_tasks_cancel show_exc cl r =
     (case execution_ref r of
        None \<Rightarrow> op_return (cancel_unsupported (Some ''no Cloud Tasks delivery reference''))
      | Some name \<Rightarrow>
          op_try (op_bind (tc_connect cl) (\<lambda>_. op_bind (tc_delete cl name) (\<lambda>_.
                    op_return \<lparr>cancel_status = Accepted, cancel_detail = Some name\<rparr>)))
            (\<lambda>e. op_return (if is_not_found e
                            then \<lparr>cancel_status = AlreadyCancelled, cancel_detail = Some ''Cloud Tasks delivery not found''\<rparr>
                            else \<lparr>cancel_status = Retryable, cancel_detail = Some (show_exc e)\<rparr>)))"

definition cloud_tasks_backend ::
    "(py_error \<Rightarrow> string) \<Rightarrow> cloud_tasks_config \<Rightarrow> tasks_client \<Rightarrow> (uuid \<Rightarrow> nat \<Rightarrow> instant) \<Rightarrow> (uuid \<Rightarrow> uuid) \<Rightarrow> instant \<Rightarrow>
     exec_backend" where
  "cloud_tasks_backend show_exc cfg cl clk fresh now =
     (base_execution_backend (\<lambda>r. op_raise NotImplementedError))
       \<lparr>xb_is_external := True, xb_schedules_on_enqueue := True,
        xb_max_schedule_horizon := Some CLOUD_TASKS_MAX_SCHEDULE_HORIZON,
        xb_schedule := (\<lambda>r. cloud_tasks_schedule cfg cl (clk (rid r)) (fresh (rid r)) r),
        xb_repair := cloud_tasks_repair cfg cl clk fresh now, xb_cancel_execution := cloud_tasks_cancel show_exc cl\<rparr>"

section \<open>The delivery route\<close>

text \<open>
  The HTTP status a delivery is answered with, or \<open>None\<close> when the request itself was cancelled. Any other
  status than a 2xx makes Cloud Tasks deliver again.
\<close>

definition run_delivered_record ::
    "service_env \<Rightarrow> consumer_env \<Rightarrow> uuid \<Rightarrow> svc_state \<Rightarrow> int option \<times> svc_state" where
  "run_delivered_record env c i s =
     (case consume_one env c i None None s of
        (DeliveryRaised e, s1) \<Rightarrow> (Some 503, s1)
      | (CallerCancelled, s1) \<Rightarrow> (None, s1)
      | (Exited code, s1) \<Rightarrow>
          (Some (if code = CLAIM_LOST \<and>
                    (case get_task i (ss_store s1) of None \<Rightarrow> False | Some q \<Rightarrow> status q = Running)
                 then 503 else 204), s1))"

definition delivery_outcome :: "mem_state \<Rightarrow> uuid \<Rightarrow> exit_code \<Rightarrow> string" where
  "delivery_outcome m i code =
     (if code = CLAIM_LOST then ''duplicate''
      else if code \<noteq> FAILURE then ''acknowledged''
      else case get_task i m of
             None \<Rightarrow> ''acknowledged''
           | Some q \<Rightarrow> if is_terminal q then ''acknowledged'' else ''retry_scheduled'')"

text \<open>A body of another protocol version is a validation error.\<close>

definition consume_cloud_task ::
    "service_env \<Rightarrow> consumer_env \<Rightarrow> int \<Rightarrow> uuid \<Rightarrow> svc_state \<Rightarrow> int option \<times> svc_state" where
  "consume_cloud_task env c version i s =
     (if version \<noteq> CLOUD_TASKS_PROTOCOL_VERSION then (Some 400, s) else run_delivered_record env c i s)"

text \<open>
  The guard of the route. \<open>verify\<close> checks a token against an audience and answers its claims, or nothing
  when it raises; headers are looked up by their lower-case names.
\<close>

record oidc_guard =
  og_audience :: "string option"
  og_service_account_email :: "string option"
  og_queue_id :: "string option"

definition oidc_allows ::
    "(string \<Rightarrow> string option \<Rightarrow> dict option) \<Rightarrow> oidc_guard \<Rightarrow> (string \<times> string) list \<Rightarrow> bool" where
  "oidc_allows verify g headers =
     (let auth = given (dict_get headers ''authorization'') []; token = py_strip (drop 7 auth) in
      starts_with ''Bearer '' auth \<and> token \<noteq> [] \<and>
      (case verify token (og_audience g) of
         None \<Rightarrow> False
       | Some token_claims \<Rightarrow>
           (case og_service_account_email g of
              None \<Rightarrow> True
            | Some email \<Rightarrow> get_or_none token_claims ''email'' = PStr email \<and> py_truthy (get_or token_claims ''email_verified'' (PBool False))) \<and>
           (case og_queue_id g of
              None \<Rightarrow> True
            | Some q \<Rightarrow> (case dict_get headers ''x-cloudtasks-queuename'' of None \<Rightarrow> True | Some x \<Rightarrow> x = q))))"

end
