(* ===== verification/Broker_Properties.thy ===== *)
theory Broker_Properties
  imports Brokers Settlement_Properties
begin

text \<open>
  What the broker backends guarantee: references survive the wire, a dispatch owns its attempt before it is
  sent, repair rotates exactly the references that went stale, and a message is acknowledged only when
  nothing is left to do for it.
\<close>

section \<open>References survive the wire\<close>

lemma split_on_absent: "sep \<notin> set s \<Longrightarrow> split_on sep s = [s]"
  by (induction s) auto

lemma split_on_first: "sep \<notin> set a \<Longrightarrow> split_on sep (a @ sep # b) = a # split_on sep b"
  by (induction a) auto

definition decimal_chars :: "char set" where
  "decimal_chars = set ''0123456789''"

lemma digit_char_facts:
  assumes "n < 10"
  shows "digit_char n \<in> decimal_chars" "digit_value (digit_char n) = Some (int n)"
proof -
  have n: "n \<in> set [0..<10]" using assms by simp
  have "\<forall>n \<in> set [0..<10]. digit_char n \<in> decimal_chars \<and> digit_value (digit_char n) = Some (int n)"
    unfolding decimal_chars_def by code_simp
  with n show "digit_char n \<in> decimal_chars" "digit_value (digit_char n) = Some (int n)" by blast+
qed

lemma decimal_chars_not [simp]:
  "CHR '':'' \<notin> decimal_chars" "CHR ''-'' \<notin> decimal_chars" "CHR ''+'' \<notin> decimal_chars" "CHR ''_'' \<notin> decimal_chars"
  by (simp_all add: decimal_chars_def)

lemma decimal_chars_space: "c \<in> decimal_chars \<Longrightarrow> \<not> is_space c"
proof -
  have "\<forall>c \<in> decimal_chars. \<not> is_space c" unfolding decimal_chars_def by code_simp
  then show "c \<in> decimal_chars \<Longrightarrow> \<not> is_space c" by blast
qed

lemma py_str_nat_chars: "py_str_nat n \<noteq> []" "set (py_str_nat n) \<subseteq> decimal_chars"
proof (induction n rule: py_str_nat.induct)
  case (1 n)
  {
    case 1
    show ?case by (subst py_str_nat.simps) simp
  next
    case 2
    have "set (py_str_nat n) = (if n < 10 then {digit_char n} else insert (digit_char (n mod 10)) (set (py_str_nat (n div 10))))"
      by (subst py_str_nat.simps) simp
    then show ?case using "1.IH"(2) digit_char_facts(1) [of n] digit_char_facts(1) [of "n mod 10"] by (simp split: if_splits)
  }
qed

lemma digits_value_step:
  "n < 10 \<Longrightarrow> digits_value acc b (digit_char n # cs) = digits_value (acc * 10 + int n) True cs"
proof -
  assume "n < 10"
  note d = digit_char_facts [OF this]
  from d(1) have "digit_char n \<noteq> CHR ''_''" by (auto simp del: digit_char.simps)
  with d(2) show ?thesis by (simp del: digit_char.simps)
qed

lemma digits_value_nat: "digits_value 0 b (py_str_nat n @ cs) = digits_value (int n) True cs"
proof (induction n arbitrary: b cs rule: py_str_nat.induct)
  case (1 n)
  show ?case
  proof (cases "n < 10")
    case True
    have "digits_value 0 b (digit_char n # cs) = digits_value (int n) True cs" using digits_value_step [OF True, of 0] by simp
    with True show ?thesis by (subst py_str_nat.simps) (simp del: digit_char.simps digits_value.simps)
  next
    case False
    have "digits_value 0 b (py_str_nat (n div 10) @ digit_char (n mod 10) # cs) =
        digits_value (int (n div 10) * 10 + int (n mod 10)) True cs"
      using "1.IH" [OF False] digits_value_step [of "n mod 10"] by simp
    also have "int (n div 10) * 10 + int (n mod 10) = int n" by presburger
    finally show ?thesis using False by (subst py_str_nat.simps) (simp del: digit_char.simps digits_value.simps)
  qed
qed

lemma dropWhile_none: "\<forall>x \<in> set xs. \<not> P x \<Longrightarrow> dropWhile P xs = xs"
  by (cases xs) auto

lemma py_strip_id: "\<forall>c \<in> set s. \<not> is_space c \<Longrightarrow> py_strip s = s"
  by (simp add: py_strip_def dropWhile_none)

lemma py_int_of_str_nat: "py_int_of_str (py_str_nat n) = Some (int n)"
proof -
  obtain c cs where c: "py_str_nat n = c # cs" using py_str_nat_chars(1) by (cases "py_str_nat n") auto
  then have "c \<in> decimal_chars" using py_str_nat_chars(2) [of n] by auto
  then have "c \<noteq> CHR ''-''" "c \<noteq> CHR ''+''" by auto
  moreover have "py_strip (c # cs) = c # cs"
    using py_str_nat_chars(2) [of n] decimal_chars_space by (intro py_strip_id) (auto simp: c)
  moreover have "digits_value 0 False (c # cs) = Some (int n)" using digits_value_nat [of False n "[]"] by (simp add: c)
  ultimately show ?thesis by (simp add: py_int_of_str_def c del: digits_value.simps)
qed

lemma py_str_int_round_trip: "0 \<le> n \<Longrightarrow> py_int_of_str (py_str_int n) = Some n"
  by (simp add: py_str_int_def py_int_of_str_nat)

lemma py_str_int_no_colon: "0 \<le> n \<Longrightarrow> CHR '':'' \<notin> set (py_str_int n)"
  using py_str_nat_chars(2) [of "nat n"] by (auto simp: py_str_int_def)

lemma uuid_str_no_colon: "CHR '':'' \<notin> set (uuid_str u)"
proof -
  have "CHR '':'' \<notin> set (hex_digits w n)" for w n using hex_digits_chars [of w n] by auto
  then show ?thesis by (simp add: uuid_str_def)
qed

lemma parse_new_attempt:
  assumes "CHR '':'' \<notin> set name" "0 \<le> n" "0 \<le> ms" "u < 16 ^ 32"
  shows "parse_attempt name' (Some (new_attempt name n ms u)) = (if name' = name then Some (n, ms) else None)"
  using assms
  by (simp add: parse_attempt_def new_attempt_def split_on_first split_on_absent py_str_int_no_colon uuid_str_no_colon
      py_str_int_round_trip uuid_parse_str)

section \<open>The store behind a delivery\<close>

lemma then_notify_simps [simp]:
  "fst (then_notify now res) = fst res" "lookup (snd (then_notify now res)) j = lookup (snd res) j"
  by (simp_all add: then_notify_def split: prod.split option.split)

lemma modify_if_lookup:
  "lookup (snd (modify_if i guard f m)) j = (case lookup m j of None \<Rightarrow> None
     | Some q \<Rightarrow> Some (if j = i \<and> guard q then f q else q))"
  "fst (modify_if i guard f m) = (case lookup m i of None \<Rightarrow> None | Some q \<Rightarrow> if guard q then Some (f q) else None)"
  by (auto simp: modify_if_def dict_simps split: option.split)

lemma clear_lookup:
  "lookup (snd (clear_execution_ref i n ref now m)) j = (case lookup m j of None \<Rightarrow> None
     | Some q \<Rightarrow> Some (if j = i \<and> is_waiting q \<and> retry_count q = n \<and> execution_ref q = Some ref
                     then q\<lparr>execution_ref := None\<rparr> else q))"
  "fst (clear_execution_ref i n ref now m) = (case lookup m i of None \<Rightarrow> None
     | Some q \<Rightarrow> if is_waiting q \<and> retry_count q = n \<and> execution_ref q = Some ref
               then Some (q\<lparr>execution_ref := None\<rparr>) else None)"
  by (simp_all add: clear_execution_ref_def modify_if_lookup)

lemma replace_lookup:
  "lookup (snd (replace_execution_ref i n old new m)) j = (case lookup m j of None \<Rightarrow> None
     | Some q \<Rightarrow> Some (if j = i \<and> is_waiting q \<and> retry_count q = n \<and> execution_ref q = Some old
                     then q\<lparr>execution_ref := Some new\<rparr> else q))"
  "fst (replace_execution_ref i n old new m) = (case lookup m i of None \<Rightarrow> None
     | Some q \<Rightarrow> if is_waiting q \<and> retry_count q = n \<and> execution_ref q = Some old
               then Some (q\<lparr>execution_ref := Some new\<rparr>) else None)"
  by (simp_all add: replace_execution_ref_def modify_if_lookup)

definition dispatchable :: "instant \<Rightarrow> instant \<Rightarrow> int \<Rightarrow> task_record \<Rightarrow> bool" where
  "dispatchable now t n p \<longleftrightarrow>
     is_waiting p \<and> is_due t p \<and> execution_ref p = None \<and> retry_count p = n \<and> \<not> is_expired now p"

definition owned_by :: "string \<Rightarrow> string option \<Rightarrow> string \<Rightarrow> task_record \<Rightarrow> task_record" where
  "owned_by name profile ref p = p\<lparr>execution_backend := name, execution_profile := profile, execution_ref := Some ref\<rparr>"

lemma owned_by_fields [simp]:
  "rid (owned_by name profile ref p) = rid p" "retry_count (owned_by name profile ref p) = retry_count p"
  "status (owned_by name profile ref p) = status p" "execution_ref (owned_by name profile ref p) = Some ref"
  by (simp_all add: owned_by_def)

lemma reserve_result:
  assumes "lookup m i = Some p"
  shows "fst (reserve_external_dispatch i name ref profile (Some n) now t m) =
      (if dispatchable now t n p then Some (owned_by name profile ref p) else None)"
    and "lookup (snd (reserve_external_dispatch i name ref profile (Some n) now t m)) j =
      (if j \<noteq> i then lookup m j
       else Some (if dispatchable now t n p then owned_by name profile ref p
                  else if is_waiting p \<and> is_due t p \<and> execution_ref p = None \<and> retry_count p = n then expire_record now p
                  else p))"
  using assms
  by (auto simp: reserve_external_dispatch_def dispatchable_def owned_by_def dict_simps Let_def)

section \<open>Senders\<close>

lemma op_bind_return_id: "op_bind m (\<lambda>k. op_return k) s = m s"
  by (simp add: op_bind_def op_return_def split: prod.split sum.split)

text \<open>A client whose calls leave the store alone: nothing else runs meanwhile.\<close>

definition quiet_client :: "broker_client \<Rightarrow> bool" where
  "quiet_client cl \<longleftrightarrow> (\<forall>s. ss_store (snd (bc_connect cl s)) = ss_store s) \<and>
     (\<forall>q s. ss_store (snd (bc_publish cl q s)) = ss_store s)"

lemma quiet_clientD:
  "quiet_client cl \<Longrightarrow> bc_connect cl s = (x, s') \<Longrightarrow> ss_store s' = ss_store s"
  "quiet_client cl \<Longrightarrow> bc_publish cl q s = (y, s') \<Longrightarrow> ss_store s' = ss_store s"
  by (metis quiet_client_def snd_conv)+

text \<open>
  What the dispatch and the repair rely on: the message names the record and its attempt, success means
  that it was published, and a failed send either leaves the reservation or, when the client refused
  the message for good, gives it back. A lost answer is not a refusal.
\<close>

locale broker_sender =
  fixes cl :: broker_client
    and request :: "task_record \<Rightarrow> string \<Rightarrow> delivery_request"
    and refused :: "py_error \<Rightarrow> bool"
    and send :: "instant \<Rightarrow> task_record \<Rightarrow> string \<Rightarrow> unit svc"
  assumes carries: "dq_body (request q ref) = uuid_str (rid q)" "dq_attempt (request q ref) = ref"
    and published: "send now q ref s = (Inr u, s') \<Longrightarrow> \<exists>s1 s2 x. bc_publish cl (request q ref) s1 = (Inr x, s2)"
    and settled: "quiet_client cl \<Longrightarrow> send now q ref s = (res, s') \<Longrightarrow>
      ss_store s' = ss_store s \<or>
      (\<exists>e. res = Inl e \<and> refused e \<and>
         ss_store s' = snd (clear_execution_ref (rid q) (retry_count q) ref now (ss_store s)))"
    and lost_answer: "\<not> refused QueueDispatchError"
begin

text \<open>A dispatch of the stored record \<open>p\<close>.\<close>

lemma dispatch_refused:
  assumes p: "lookup (ss_store s) (rid r) = Some p"
    and run: "broker_dispatch name (send later) ref now t r s = (res, s')" and no: "\<not> dispatchable now t (retry_count r) p"
  shows "res = Inr None" "i \<noteq> rid r \<Longrightarrow> lookup (ss_store s') i = lookup (ss_store s) i"
    "lookup (ss_store s') (rid r) \<in> {Some p, Some (expire_record now p)}"
proof -
  note reserve = reserve_result [OF p, of name ref "execution_profile r" "retry_count r" now t]
  from run no reserve(1) show "res = Inr None" by (auto simp: broker_dispatch_def op_simps)
  from run no reserve(1) have s': "ss_store s' =
      snd (reserve_external_dispatch (rid r) name ref (execution_profile r) (Some (retry_count r)) now t (ss_store s))"
    by (auto simp: broker_dispatch_def op_simps)
  show "i \<noteq> rid r \<Longrightarrow> lookup (ss_store s') i = lookup (ss_store s) i" by (simp add: s' reserve(2))
  show "lookup (ss_store s') (rid r) \<in> {Some p, Some (expire_record now p)}" by (auto simp: s' reserve(2) no)
qed

lemma dispatch_owned:
  assumes quiet: "quiet_client cl" and p: "lookup (ss_store s) (rid r) = Some p" "rid p = rid r"
    and run: "broker_dispatch name (send later) ref now t r s = (res, s')" and yes: "dispatchable now t (retry_count r) p"
  defines "q \<equiv> owned_by name (execution_profile r) ref p"
  shows "res = Inr (Some ref) \<and> (\<exists>s1 s2 x. bc_publish cl (request q ref) s1 = (Inr x, s2)) \<or> (\<exists>e. res = Inl e)"
    "i \<noteq> rid r \<Longrightarrow> lookup (ss_store s') i = lookup (ss_store s) i"
    "lookup (ss_store s') (rid r) = Some q \<or>
     (\<exists>e. res = Inl e \<and> refused e \<and> lookup (ss_store s') (rid r) = Some (q\<lparr>execution_ref := None\<rparr>))"
proof -
  let ?m = "snd (reserve_external_dispatch (rid r) name ref (execution_profile r) (Some (retry_count r)) now t (ss_store s))"
  note reserve = reserve_result [OF p(1), of name ref "execution_profile r" "retry_count r" now t]
  obtain sent s1 where sent: "send later q ref (s\<lparr>ss_store := ?m\<rparr>) = (sent, s1)" by fastforce
  with run yes reserve(1) have s': "s' = s1" and res: "res = (case sent of Inl e \<Rightarrow> Inl e | Inr u \<Rightarrow> Inr (Some ref))"
    by (auto simp: broker_dispatch_def q_def op_simps op_bind_def [of "send later x y" for x y] split: sum.splits)
  have found: "lookup ?m (rid r) = Some q" using reserve(2) [of "rid r"] yes by (simp add: q_def)
  have fields: "rid q = rid r" "retry_count q = retry_count r" "is_waiting q" "execution_ref q = Some ref"
    using yes p(2) by (simp_all add: q_def dispatchable_def is_waiting_def)
  from settled [OF quiet sent] consider "ss_store s1 = ?m"
    | e where "sent = Inl e" "refused e" "ss_store s1 = snd (clear_execution_ref (rid q) (retry_count q) ref later ?m)"
    by auto
  then have both: "(lookup (ss_store s1) (rid r) = Some q \<or>
      (\<exists>e. sent = Inl e \<and> refused e \<and> lookup (ss_store s1) (rid r) = Some (q\<lparr>execution_ref := None\<rparr>))) \<and>
    (\<forall>i. i \<noteq> rid r \<longrightarrow> lookup (ss_store s1) i = lookup ?m i)"
  proof cases
    case 1
    then show ?thesis by (simp add: found)
  next
    case 2
    then show ?thesis by (simp add: found clear_lookup fields split: option.split)
  qed
  then show "lookup (ss_store s') (rid r) = Some q \<or>
      (\<exists>e. res = Inl e \<and> refused e \<and> lookup (ss_store s') (rid r) = Some (q\<lparr>execution_ref := None\<rparr>))"
    by (auto simp: s' res)
  show "i \<noteq> rid r \<Longrightarrow> lookup (ss_store s') i = lookup (ss_store s) i" using both by (simp add: s' reserve(2))
  show "res = Inr (Some ref) \<and> (\<exists>s1 s2 x. bc_publish cl (request q ref) s1 = (Inr x, s2)) \<or> (\<exists>e. res = Inl e)"
    using published [of later q ref "s\<lparr>ss_store := ?m\<rparr>"] sent by (cases sent) (auto simp: res)
qed

end

text \<open>
  What the repair relies on, besides: how the send turns out when the client answers every call in the
  same way. An accepted message is a success, a refusal for good gives the reservation back, and any
  other failure leaves it.
\<close>

datatype send_outcome = SendAccepted | SendRefused | SendUnknown

definition answers_with :: "broker_client \<Rightarrow> unit result \<Rightarrow> (delivery_request \<Rightarrow> bool result) \<Rightarrow> bool" where
  "answers_with cl conn answer \<longleftrightarrow> (\<forall>s. bc_connect cl s = (conn, s)) \<and> (\<forall>q s. bc_publish cl q s = (answer q, s))"

definition ends_as :: "send_outcome \<Rightarrow> task_record \<Rightarrow> string \<Rightarrow> instant \<Rightarrow> svc_state \<Rightarrow> unit result \<times> svc_state \<Rightarrow> bool" where
  "ends_as outcome q ref now s res \<longleftrightarrow>
     (case outcome of
        SendAccepted \<Rightarrow> res = (Inr (), s)
      | SendUnknown \<Rightarrow> (\<exists>e. res = (Inl e, s))
      | SendRefused \<Rightarrow> (\<exists>e. res = (Inl e, s\<lparr>ss_store := snd (clear_execution_ref (rid q) (retry_count q) ref now (ss_store s))\<rparr>)))"

text \<open>A stored delivery that repair has to send again, and the record afterwards.\<close>

definition due_for_rotation :: "string \<Rightarrow> int \<Rightarrow> int \<Rightarrow> task_record \<Rightarrow> bool" where
  "due_for_rotation name now_ms stale_ms r \<longleftrightarrow> is_waiting r \<and>
     (case parse_attempt name (execution_ref r) of
        None \<Rightarrow> False
      | Some (n, ms) \<Rightarrow> n \<noteq> retry_count r \<or> stale_ms \<le> now_ms - ms)"

definition fresh_reference :: "string \<Rightarrow> (uuid \<Rightarrow> int \<times> uuid) \<Rightarrow> task_record \<Rightarrow> string" where
  "fresh_reference name fresh r = new_attempt name (retry_count r) (fst (fresh (rid r))) (snd (fresh (rid r)))"

definition sent_again ::
    "(task_record \<Rightarrow> string \<Rightarrow> delivery_request) \<Rightarrow> (bool result \<Rightarrow> send_outcome) \<Rightarrow> (delivery_request \<Rightarrow> bool result) \<Rightarrow>
     string \<Rightarrow> task_record \<Rightarrow> send_outcome" where
  "sent_again request outcome answer ref r = outcome (answer (request (r\<lparr>execution_ref := Some ref\<rparr>) ref))"

definition repaired_as :: "send_outcome \<Rightarrow> string \<Rightarrow> task_record \<Rightarrow> task_record" where
  "repaired_as outcome ref r = r\<lparr>execution_ref := if outcome = SendRefused then None else Some ref\<rparr>"

locale answering_sender = broker_sender +
  fixes outcome :: "unit result \<Rightarrow> bool result \<Rightarrow> send_outcome"
  assumes answered: "answers_with cl conn answer \<Longrightarrow>
      ends_as (outcome conn (answer (request q ref))) q ref now s (send now q ref s)"
begin

lemma rotate_one:
  fixes name :: string and fresh :: "uuid \<Rightarrow> int \<times> uuid" and now_ms stale_ms :: int
  assumes steady: "answers_with cl conn answer" and r: "lookup (ss_store s) (rid r) = Some r"
  defines "ref \<equiv> fresh_reference name fresh r"
  defines "o' \<equiv> sent_again request (outcome conn) answer ref r" and "due \<equiv> due_for_rotation name now_ms stale_ms r"
  shows "\<exists>s1. lookup (ss_store s1) = (lookup (ss_store s))(rid r := Some (if due then repaired_as o' ref r else r)) \<and>
    broker_repair_each name (send later) fresh now_ms stale_ms (r # rs) s =
      op_bind (broker_repair_each name (send later) fresh now_ms stale_ms rs)
        (\<lambda>k. op_return ((if due \<and> o' = SendAccepted then 1 else 0) + k)) s1"
proof (cases "rotation name fresh now_ms stale_ms r")
  case None
  then have "\<not> due" by (auto simp: due_def due_for_rotation_def rotation_def parse_attempt_def split: option.splits if_splits)
  with None r show ?thesis by (intro exI [of _ s]) (auto simp: op_bind_return_id)
next
  case (Some c)
  obtain old new where c: "c = (old, new)" by fastforce
  have old: "execution_ref r = Some old" and new: "new = ref" and waits: "due \<longleftrightarrow> is_waiting r"
    using Some c by (auto simp: rotation_def due_def due_for_rotation_def ref_def fresh_reference_def split: option.splits if_splits)
  let ?m = "snd (replace_execution_ref (rid r) (retry_count r) old new (ss_store s))"
  note replace = replace_lookup [of "rid r" "retry_count r" old new "ss_store s"]
  show ?thesis
  proof (cases "is_waiting r")
    case False
    then have "lookup ?m = (lookup (ss_store s))(rid r := Some r)" using r by (auto simp: fun_eq_iff replace(1) split: option.split)
    moreover from False have "fst (replace_execution_ref (rid r) (retry_count r) old new (ss_store s)) = None" by (simp add: replace(2) r)
    ultimately show ?thesis using Some False waits
      by (intro exI [of _ "s\<lparr>ss_store := ?m\<rparr>"]) (simp add: c op_simps op_bind_return_id)
  next
    case True
    let ?q = "r\<lparr>execution_ref := Some new\<rparr>" and ?s = "s\<lparr>ss_store := ?m\<rparr>"
    have fst: "fst (replace_execution_ref (rid r) (retry_count r) old new (ss_store s)) = Some ?q"
      using True by (simp add: replace(2) r old)
    have found: "lookup ?m = (lookup (ss_store s))(rid r := Some ?q)"
      using True by (auto simp: fun_eq_iff replace(1) r old split: option.split)
    have w: "is_waiting ?q" using True by (simp add: is_waiting_def)
    obtain sent s1 where sent: "send later ?q new ?s = (sent, s1)" by fastforce
    have E: "ends_as o' ?q new later ?s (sent, s1)"
      using answered [OF steady, of ?q new later ?s] sent by (simp add: o'_def sent_again_def new)
    have store: "lookup (ss_store s1) = (lookup (ss_store s))(rid r := Some (repaired_as o' ref r))"
      using E by (cases o') (auto simp: ends_as_def repaired_as_def found clear_lookup fun_eq_iff w new [symmetric] split: option.split)
    define k where "k = (if o' = SendAccepted then 1 else 0 :: int)"
    have "op_try (op_bind (send later ?q new) (\<lambda>_. op_return 1)) (\<lambda>e. op_return 0) ?s = (Inr k, s1)"
      using E by (cases o') (auto simp: k_def ends_as_def op_try_def op_bind_def sent op_return_def)
    then have "broker_repair_each name (send later) fresh now_ms stale_ms (r # rs) s =
        op_bind (broker_repair_each name (send later) fresh now_ms stale_ms rs) (\<lambda>n. op_return (k + n)) s1"
      using Some fst by (simp add: c op_simps op_bind_simps(2) [where m = "op_try (op_bind (send later ?q new) (\<lambda>_. op_return 1)) (\<lambda>e. op_return 0)"])
    with store True waits show ?thesis by (intro exI [of _ s1]) (simp add: k_def del: broker_repair_each.simps)
  qed
qed

text \<open>The number of deliveries sent again, and the records afterwards.\<close>

lemma repair_each:
  fixes name :: string and fresh :: "uuid \<Rightarrow> int \<times> uuid" and now_ms stale_ms :: int
  assumes steady: "answers_with cl conn answer"
  defines "ref \<equiv> fresh_reference name fresh" and "due \<equiv> due_for_rotation name now_ms stale_ms"
  defines "o' \<equiv> (\<lambda>r. sent_again request (outcome conn) answer (ref r) r)"
  shows "distinct (map rid rs) \<Longrightarrow> (\<And>r. r \<in> set rs \<Longrightarrow> lookup (ss_store s) (rid r) = Some r) \<Longrightarrow>
    \<exists>s'. broker_repair_each name (send later) fresh now_ms stale_ms rs s =
        (Inr (int (length (filter (\<lambda>r. due r \<and> o' r = SendAccepted) rs))), s') \<and>
      (\<forall>i. i \<notin> rid ` set rs \<longrightarrow> lookup (ss_store s') i = lookup (ss_store s) i) \<and>
      (\<forall>r \<in> set rs. lookup (ss_store s') (rid r) = Some (if due r then repaired_as (o' r) (ref r) r else r))"
proof (induction rs arbitrary: s)
  case (Cons r rs)
  from rotate_one [OF steady Cons.prems(2) [OF list.set_intros(1)], where name = name and fresh = fresh and now_ms = now_ms
      and stale_ms = stale_ms and later = later and rs = rs]
  obtain s1 where "lookup (ss_store s1) = (lookup (ss_store s))(rid r := Some (if due r then repaired_as (o' r) (ref r) r else r)) \<and>
      broker_repair_each name (send later) fresh now_ms stale_ms (r # rs) s =
        op_bind (broker_repair_each name (send later) fresh now_ms stale_ms rs)
          (\<lambda>k. op_return ((if due r \<and> o' r = SendAccepted then 1 else 0) + k)) s1"
    unfolding ref_def due_def o'_def by (elim exE) (rule that [unfolded ref_def due_def o'_def])
  then have one: "lookup (ss_store s1) = (lookup (ss_store s))(rid r := Some (if due r then repaired_as (o' r) (ref r) r else r))"
      "broker_repair_each name (send later) fresh now_ms stale_ms (r # rs) s =
        op_bind (broker_repair_each name (send later) fresh now_ms stale_ms rs)
          (\<lambda>k. op_return ((if due r \<and> o' r = SendAccepted then 1 else 0) + k)) s1"
    by - (elim conjE, assumption)+
  have apart: "rid r \<notin> rid ` set rs" using Cons.prems(1) by simp
  have "lookup (ss_store s1) (rid x) = Some x" if "x \<in> set rs" for x
  proof -
    have "rid x \<noteq> rid r" using apart that by (metis imageI)
    then show ?thesis using Cons.prems(2) [of x] that by (simp add: one(1))
  qed
  with Cons.IH [of s1] Cons.prems(1) obtain s2 where rest:
      "broker_repair_each name (send later) fresh now_ms stale_ms rs s1 =
        (Inr (int (length (filter (\<lambda>r. due r \<and> o' r = SendAccepted) rs))), s2)"
      "\<And>i. i \<notin> rid ` set rs \<Longrightarrow> lookup (ss_store s2) i = lookup (ss_store s1) i"
      "\<And>r. r \<in> set rs \<Longrightarrow> lookup (ss_store s2) (rid r) = Some (if due r then repaired_as (o' r) (ref r) r else r)"
    by auto
  have "broker_repair_each name (send later) fresh now_ms stale_ms (r # rs) s =
      (Inr (int (length (filter (\<lambda>r. due r \<and> o' r = SendAccepted) (r # rs)))), s2)"
    by (simp add: one(2) op_bind_def rest(1) op_return_def del: broker_repair_each.simps)
  moreover have "lookup (ss_store s2) i = lookup (ss_store s) i" if "i \<notin> rid ` set (r # rs)" for i
    using that rest(2) [of i] by (simp add: one(1))
  moreover have "lookup (ss_store s2) (rid x) = Some (if due x then repaired_as (o' x) (ref x) x else x)" if "x \<in> set (r # rs)" for x
    using that rest(2) [OF apart] rest(3) [of x] by (cases "x = r") (simp_all add: one(1))
  ultimately show ?case by blast
qed (simp add: op_return_def)

lemma repair_result:
  fixes name :: string and fresh :: "uuid \<Rightarrow> int \<times> uuid" and now_ms stale_after :: int
  assumes steady: "answers_with cl conn answer" and wf: "mem_wf (ss_store s)" and limit: "0 < limit"
  defines "rs \<equiv> list_running_external (Some limit) (ss_store s)"
  defines "ref \<equiv> fresh_reference name fresh" and "due \<equiv> due_for_rotation name now_ms (stale_after * 1000)"
  defines "o' \<equiv> (\<lambda>r. sent_again request (outcome conn) answer (ref r) r)"
  shows "\<exists>s'. broker_repair name (send later) fresh now_ms stale_after limit s =
      (Inr (empty_dispatch_repair_result\<lparr>dr_examined := int (length rs),
         dr_changed := int (length (filter (\<lambda>r. due r \<and> o' r = SendAccepted) rs))\<rparr>), s') \<and>
    int (length rs) \<le> limit \<and>
    (\<forall>i. i \<notin> rid ` set rs \<longrightarrow> lookup (ss_store s') i = lookup (ss_store s) i) \<and>
    (\<forall>r \<in> set rs. lookup (ss_store s') (rid r) = Some (if due r then repaired_as (o' r) (ref r) r else r))"
proof -
  let ?all = "filter (\<lambda>r. \<not> is_terminal r \<and> execution_ref r \<noteq> None) (mem_values (ss_store s))"
  have rs: "rs = take (nat limit) (sort_key (\<lambda>r. (case started_at r of Some t \<Rightarrow> t | None \<Rightarrow> created_at r, uuid_str (rid r))) ?all)"
    using limit by (simp add: rs_def list_running_external_def py_take_def)
  have members: "set rs \<subseteq> set (mem_values (ss_store s))" unfolding rs using set_take_subset by fastforce
  have "distinct (map rid ?all)" using mem_wf_distinct_rids(2) [OF wf] distinct_map_filter by blast
  then have "distinct (map rid rs)" unfolding rs take_map [symmetric]
    by (intro distinct_take) (simp add: distinct_map)
  moreover have "lookup (ss_store s) (rid r) = Some r" if "r \<in> set rs" for r
    using that members mem_wf_values [OF wf] by blast
  ultimately obtain s' where "broker_repair_each name (send later) fresh now_ms (stale_after * 1000) rs s =
        (Inr (int (length (filter (\<lambda>r. due r \<and> o' r = SendAccepted) rs))), s') \<and>
      (\<forall>i. i \<notin> rid ` set rs \<longrightarrow> lookup (ss_store s') i = lookup (ss_store s) i) \<and>
      (\<forall>r \<in> set rs. lookup (ss_store s') (rid r) = Some (if due r then repaired_as (o' r) (ref r) r else r))"
    using repair_each [OF steady, where rs = rs and s = s and name = name and later = later and fresh = fresh and now_ms = now_ms
        and stale_ms = "stale_after * 1000"] unfolding ref_def due_def o'_def by blast
  moreover have "int (length rs) \<le> limit" using limit by (simp add: rs)
  ultimately show ?thesis using limit
    by (intro exI [of _ s'])
      (simp add: broker_repair_def op_simps rs_def [symmetric] op_bind_simps(2) [where m = "broker_repair_each name (send later) fresh now_ms (stale_after * 1000) rs"])
qed

end

lemma send_failed_store:
  assumes "\<And>x s1. call s = (x, s1) \<Longrightarrow> ss_store s1 = ss_store s"
    and "op_try call (send_failed definitive q ref now) s = (res, s')"
  shows "ss_store s' = ss_store s \<or> (\<exists>e. res = Inl e \<and> definitive e \<and>
      ss_store s' = snd (clear_execution_ref (rid q) (retry_count q) ref now (ss_store s)))"
  using assms
  by (auto simp: op_try_def send_failed_def give_back_def op_simps split: prod.splits sum.splits if_splits)

lemma quiet_publish_store:
  assumes "quiet_client cl" and "op_bind (bc_publish cl r) (\<lambda>_. op_return ()) s = (x, s1)"
  shows "ss_store s1 = ss_store s"
  using assms by (auto simp: op_bind_def op_return_def dest: quiet_clientD split: prod.splits sum.splits)

lemma quiet_call_store:
  assumes "quiet_client cl" and "op_bind (bc_connect cl) (\<lambda>_. op_bind (bc_publish cl r) (\<lambda>_. op_return ())) s = (x, s1)"
  shows "ss_store s1 = ss_store s"
  using assms(2) quiet_clientD [OF assms(1)]
  by (auto simp: op_bind_def op_return_def split: prod.splits sum.splits)

lemma call_published:
  "op_try (op_bind (bc_publish cl r) (\<lambda>_. op_return ())) (send_failed d q ref now) s = (Inr u, s') \<Longrightarrow>
    \<exists>s1 s2 x. bc_publish cl r s1 = (Inr x, s2)"
  "op_try (bc_publish cl r) (send_failed d q ref now) s = (Inr b, s') \<Longrightarrow> \<exists>s1 s2 x. bc_publish cl r s1 = (Inr x, s2)"
  by (auto simp: op_try_def op_bind_def send_failed_def give_back_def op_simps split: prod.splits sum.splits if_splits)

text \<open>
  How the answers of a client are taken. SQS and Pub/Sub classify a failure to connect like one to publish;
  Kafka and RabbitMQ only raise it. RabbitMQ may answer that the message was not confirmed.
\<close>

definition failed_outcome :: "(py_error \<Rightarrow> bool) \<Rightarrow> py_error \<Rightarrow> send_outcome" where
  "failed_outcome definitive e = (if definitive e then SendRefused else SendUnknown)"

fun api_outcome :: "(py_error \<Rightarrow> bool) \<Rightarrow> unit result \<Rightarrow> bool result \<Rightarrow> send_outcome" where
  "api_outcome definitive (Inl e) answer = failed_outcome definitive e"
| "api_outcome definitive (Inr u) (Inl e) = failed_outcome definitive e"
| "api_outcome definitive (Inr u) (Inr b) = SendAccepted"

fun kafka_outcome :: "unit result \<Rightarrow> bool result \<Rightarrow> send_outcome" where
  "kafka_outcome (Inl e) answer = SendUnknown"
| "kafka_outcome (Inr u) answer = api_outcome kafka_definitive (Inr u) answer"

fun rabbitmq_outcome :: "unit result \<Rightarrow> bool result \<Rightarrow> send_outcome" where
  "rabbitmq_outcome (Inl e) answer = SendUnknown"
| "rabbitmq_outcome (Inr u) (Inl e) = failed_outcome rabbitmq_definitive e"
| "rabbitmq_outcome (Inr u) (Inr confirmed) = (if confirmed then SendAccepted else SendRefused)"

lemmas answer_simps = answers_with_def ends_as_def failed_outcome_def op_try_def op_bind_def send_failed_def give_back_def
  op_return_def op_raise_def svc_store_def

interpretation sqs: answering_sender cl "sqs_request cfg sha" sqs_definitive "sqs_send cfg sha cl" "api_outcome sqs_definitive"
    for cfg sha cl
proof
  show "answers_with cl conn answer \<Longrightarrow> ends_as (api_outcome sqs_definitive conn (answer (sqs_request cfg sha q ref))) q ref now s
      (sqs_send cfg sha cl now q ref s)" for conn answer q ref now s
    by (cases conn; cases "answer (sqs_request cfg sha q ref)") (simp_all add: sqs_send_def answer_simps case_prod_beta)
  show "sqs_send cfg sha cl now q ref s = (Inr u, s') \<Longrightarrow> \<exists>s1 s2 x. bc_publish cl (sqs_request cfg sha q ref) s1 = (Inr x, s2)"
    for now q ref s u s'
    by (auto simp: sqs_send_def op_try_def op_bind_def send_failed_def give_back_def op_simps split: prod.splits sum.splits if_splits)
  show "quiet_client cl \<Longrightarrow> sqs_send cfg sha cl now q ref s = (res, s') \<Longrightarrow> ss_store s' = ss_store s \<or>
      (\<exists>e. res = Inl e \<and> sqs_definitive e \<and> ss_store s' = snd (clear_execution_ref (rid q) (retry_count q) ref now (ss_store s)))"
    for now q ref s res s'
    unfolding sqs_send_def by (rule send_failed_store) (auto dest: quiet_call_store)
qed (simp_all add: sqs_request_def sqs_definitive_def)

interpretation pubsub: answering_sender cl "id_request topic_path" pubsub_definitive "pubsub_send topic_path cl"
    "api_outcome pubsub_definitive" for topic_path cl
proof
  show "answers_with cl conn answer \<Longrightarrow> ends_as (api_outcome pubsub_definitive conn (answer (id_request topic_path q ref))) q ref now s
      (pubsub_send topic_path cl now q ref s)" for conn answer q ref now s
    by (cases conn; cases "answer (id_request topic_path q ref)") (simp_all add: pubsub_send_def answer_simps case_prod_beta)
  show "pubsub_send topic_path cl now q ref s = (Inr u, s') \<Longrightarrow> \<exists>s1 s2 x. bc_publish cl (id_request topic_path q ref) s1 = (Inr x, s2)"
    for now q ref s u s'
    by (auto simp: pubsub_send_def op_try_def op_bind_def send_failed_def give_back_def op_simps split: prod.splits sum.splits if_splits)
  show "quiet_client cl \<Longrightarrow> pubsub_send topic_path cl now q ref s = (res, s') \<Longrightarrow> ss_store s' = ss_store s \<or>
      (\<exists>e. res = Inl e \<and> pubsub_definitive e \<and> ss_store s' = snd (clear_execution_ref (rid q) (retry_count q) ref now (ss_store s)))"
    for now q ref s res s'
    unfolding pubsub_send_def by (rule send_failed_store) (auto dest: quiet_call_store)
qed (simp_all add: id_request_def pubsub_definitive_def)

interpretation kafka: answering_sender cl "id_request topic" kafka_definitive "kafka_send topic cl" kafka_outcome for topic cl
proof
  show "answers_with cl conn answer \<Longrightarrow> ends_as (kafka_outcome conn (answer (id_request topic q ref))) q ref now s
      (kafka_send topic cl now q ref s)" for conn answer q ref now s
    by (cases conn; cases "answer (id_request topic q ref)") (simp_all add: kafka_send_def answer_simps case_prod_beta)
  show "kafka_send topic cl now q ref s = (Inr u, s') \<Longrightarrow> \<exists>s1 s2 x. bc_publish cl (id_request topic q ref) s1 = (Inr x, s2)"
    for now q ref s u s'
    by (auto simp: kafka_send_def op_bind_def [of "bc_connect cl"] split: prod.splits sum.splits dest: call_published)
  show "ss_store s' = ss_store s \<or>
      (\<exists>e. res = Inl e \<and> kafka_definitive e \<and> ss_store s' = snd (clear_execution_ref (rid q) (retry_count q) ref now (ss_store s)))"
    if quiet: "quiet_client cl" and run: "kafka_send topic cl now q ref s = (res, s')" for now q ref s res s'
  proof (cases "bc_connect cl s")
    case (Pair x s1)
    note same = quiet_clientD(1) [OF quiet Pair]
    show ?thesis
    proof (cases x)
      case (Inl e)
      with run Pair same show ?thesis by (simp add: kafka_send_def op_bind_def)
    next
      case (Inr u)
      with run Pair have "op_try (op_bind (bc_publish cl (id_request topic q ref)) (\<lambda>_. op_return ()))
          (send_failed kafka_definitive q ref now) s1 = (res, s')"
        by (simp add: kafka_send_def op_bind_simps(2))
      from send_failed_store [OF quiet_publish_store [OF quiet] this] show ?thesis by (simp add: same)
    qed
  qed
qed (simp_all add: id_request_def kafka_definitive_def)

interpretation rabbitmq: answering_sender cl "rabbitmq_request queue_name" "\<lambda>e. rabbitmq_definitive e \<or> e = NegativePublishError"
    "rabbitmq_send queue_name cl" rabbitmq_outcome for queue_name cl
proof
  show "answers_with cl conn answer \<Longrightarrow> ends_as (rabbitmq_outcome conn (answer (rabbitmq_request queue_name q ref))) q ref now s
      (rabbitmq_send queue_name cl now q ref s)" for conn answer q ref now s
    by (cases conn; cases "answer (rabbitmq_request queue_name q ref)") (simp_all add: rabbitmq_send_def answer_simps case_prod_beta)
  let ?send = "\<lambda>q ref now. op_try (bc_publish cl (rabbitmq_request queue_name q ref)) (send_failed rabbitmq_definitive q ref now)"
  show "\<exists>s1 s2 x. bc_publish cl (rabbitmq_request queue_name q ref) s1 = (Inr x, s2)"
    if "rabbitmq_send queue_name cl now q ref s = (Inr u, s')" for now q ref s u s'
    using that call_published(2)
    by (auto simp: rabbitmq_send_def op_bind_def [of "bc_connect cl"] op_bind_def [of "?send q ref now"] split: prod.splits sum.splits)
  show "ss_store s' = ss_store s \<or> (\<exists>e. res = Inl e \<and> (rabbitmq_definitive e \<or> e = NegativePublishError) \<and>
      ss_store s' = snd (clear_execution_ref (rid q) (retry_count q) ref now (ss_store s)))"
    if quiet: "quiet_client cl" and run: "rabbitmq_send queue_name cl now q ref s = (res, s')" for now q ref s res s'
  proof (cases "bc_connect cl s")
    case (Pair x s1)
    note same = quiet_clientD(1) [OF quiet Pair]
    show ?thesis
    proof (cases x)
      case (Inl e)
      with run Pair same show ?thesis by (simp add: rabbitmq_send_def op_bind_def)
    next
      case (Inr u)
      obtain sent s2 where sent: "?send q ref now s1 = (sent, s2)" by fastforce
      have store: "ss_store s2 = ss_store s1 \<or> (\<exists>e. sent = Inl e \<and> rabbitmq_definitive e \<and>
          ss_store s2 = snd (clear_execution_ref (rid q) (retry_count q) ref now (ss_store s1)))"
        by (rule send_failed_store [OF _ sent]) (rule quiet_clientD(2) [OF quiet])
      have ok: "ss_store s2 = ss_store s1" if "sent = Inr b" for b using store that by simp
      from run Pair Inr have "op_bind (?send q ref now)
          (\<lambda>confirmed. if confirmed then op_return () else give_back q ref now NegativePublishError) s1 = (res, s')"
        by (simp add: rabbitmq_send_def op_bind_simps(2))
      then show ?thesis using store ok
        by (cases sent) (auto simp: op_bind_def [of "?send q ref now"] sent same give_back_def op_simps split: if_splits)
    qed
  qed
qed (simp_all add: rabbitmq_request_def id_request_def rabbitmq_definitive_def)

section \<open>The four backends together\<close>

definition attempt_codecs ::
    "(string \<times> (int \<Rightarrow> int \<Rightarrow> uuid \<Rightarrow> string) \<times> (string option \<Rightarrow> (int \<times> int) option)) list" where
  "attempt_codecs =
     [(''sqs'', sqs_new_attempt, sqs_parse_attempt), (''pubsub'', pubsub_new_attempt, pubsub_parse_attempt),
      (''kafka'', kafka_new_attempt, kafka_parse_attempt), (''rabbitmq'', rabbitmq_new_attempt, rabbitmq_parse_attempt)]"

definition broker_dispatchers ::
    "sqs_config \<Rightarrow> (string \<Rightarrow> string) \<Rightarrow> string \<Rightarrow> broker_client \<Rightarrow> (uuid \<Rightarrow> int \<times> uuid) \<Rightarrow> instant \<Rightarrow> instant \<Rightarrow> instant \<Rightarrow>
     (string \<times> (task_record \<Rightarrow> string \<Rightarrow> delivery_request) \<times> (py_error \<Rightarrow> bool) \<times> (task_record \<Rightarrow> string option svc)) list" where
  "broker_dispatchers cfg sha target cl fresh now t later =
     [(''sqs'', sqs_request cfg sha, sqs_definitive, sqs_dispatch cfg sha cl fresh now t later),
      (''pubsub'', id_request target, pubsub_definitive, pubsub_dispatch target cl fresh now t later),
      (''kafka'', id_request target, kafka_definitive, kafka_dispatch target cl fresh now t later),
      (''rabbitmq'', rabbitmq_request target, \<lambda>e. rabbitmq_definitive e \<or> e = NegativePublishError,
       rabbitmq_dispatch target cl fresh now t later)]"

definition broker_repairers ::
    "sqs_config \<Rightarrow> (string \<Rightarrow> string) \<Rightarrow> string \<Rightarrow> int \<Rightarrow> broker_client \<Rightarrow> (uuid \<Rightarrow> int \<times> uuid) \<Rightarrow> int \<Rightarrow> instant \<Rightarrow>
     (string \<times> int \<times> (task_record \<Rightarrow> string \<Rightarrow> delivery_request) \<times> (unit result \<Rightarrow> bool result \<Rightarrow> send_outcome) \<times>
      (int \<Rightarrow> dispatch_repair_result svc)) list" where
  "broker_repairers cfg sha target stale_after cl fresh now_ms later =
     [(''sqs'', sq_dispatch_stale_after cfg, sqs_request cfg sha, api_outcome sqs_definitive, sqs_repair cfg sha cl fresh now_ms later),
      (''pubsub'', stale_after, id_request target, api_outcome pubsub_definitive,
       pubsub_repair target stale_after cl fresh now_ms later),
      (''kafka'', stale_after, id_request target, kafka_outcome, kafka_repair target stale_after cl fresh now_ms later),
      (''rabbitmq'', stale_after, rabbitmq_request target, rabbitmq_outcome,
       rabbitmq_repair target stale_after cl fresh now_ms later)]"

definition broker_consumers ::
    "service_env \<Rightarrow> consumer_env \<Rightarrow> (string \<times> (bool \<Rightarrow> instant \<Rightarrow> delivery_message \<Rightarrow> svc_state \<Rightarrow> broker_answer \<times> svc_state)) list" where
  "broker_consumers env c =
     [(''sqs'', sqs_consume env c), (''pubsub'', pubsub_consume env c), (''kafka'', kafka_consume env c),
      (''rabbitmq'', rabbitmq_consume env c)]"

lemmas broker_defs = sqs_new_attempt_def sqs_parse_attempt_def pubsub_new_attempt_def pubsub_parse_attempt_def
  kafka_new_attempt_def kafka_parse_attempt_def rabbitmq_new_attempt_def rabbitmq_parse_attempt_def

text \<open>Property C21: the reference of an attempt survives the wire: parsing what a backend printed gives its
  retry count and time stamp back, and the other backends refuse it.\<close>

theorem attempt_reference_round_trip:
  assumes "(name, new, parse) \<in> set attempt_codecs" and "(name', new', parse') \<in> set attempt_codecs"
    and "0 \<le> n" "0 \<le> ms" "u < 16 ^ 32"
  shows "parse' (Some (new n ms u)) = (if name' = name then Some (n, ms) else None)"
  using assms by (auto simp: attempt_codecs_def broker_defs parse_new_attempt)

lemma dispatcher_sender:
  assumes "(name, request, refused, dispatch) \<in> set (broker_dispatchers cfg sha target cl fresh now t later)"
  obtains send where "broker_sender cl request refused send"
    "\<And>r. dispatch r = broker_dispatch name (send later) (new_attempt name (retry_count r) (fst (fresh (rid r))) (snd (fresh (rid r)))) now t r"
proof -
  from assms consider "name = ''sqs''" "request = sqs_request cfg sha" "refused = sqs_definitive"
      "dispatch = sqs_dispatch cfg sha cl fresh now t later"
    | "name = ''pubsub''" "request = id_request target" "refused = pubsub_definitive"
      "dispatch = pubsub_dispatch target cl fresh now t later"
    | "name = ''kafka''" "request = id_request target" "refused = kafka_definitive"
      "dispatch = kafka_dispatch target cl fresh now t later"
    | "name = ''rabbitmq''" "request = rabbitmq_request target" "refused = (\<lambda>e. rabbitmq_definitive e \<or> e = NegativePublishError)"
      "dispatch = rabbitmq_dispatch target cl fresh now t later"
    by (auto simp: broker_dispatchers_def)
  then show ?thesis
  proof cases
    case 1
    then show ?thesis
      using sqs.broker_sender_axioms by (intro that [of "sqs_send cfg sha cl"]) (simp_all add: sqs_dispatch_def broker_defs case_prod_beta)
  next
    case 2
    then show ?thesis
      using pubsub.broker_sender_axioms by (intro that [of "pubsub_send target cl"]) (simp_all add: pubsub_dispatch_def broker_defs case_prod_beta)
  next
    case 3
    then show ?thesis
      using kafka.broker_sender_axioms by (intro that [of "kafka_send target cl"]) (simp_all add: kafka_dispatch_def broker_defs case_prod_beta)
  next
    case 4
    then show ?thesis
      using rabbitmq.broker_sender_axioms by (intro that [of "rabbitmq_send target cl"]) (simp_all add: rabbitmq_dispatch_def broker_defs case_prod_beta)
  qed
qed

text \<open>Property C14: a dispatch owns its attempt before it is sent. When the stored record waits, is due, has no
  delivery and is at the caller's retry count, the record carries the new reference and the message that
  was published names the record and that reference; success means that it was published; a failure
  gives the reservation back only when the client refused the message for good, never when the answer
  was lost. In every other case nothing is sent. Other records are not touched.\<close>

theorem dispatch_owns_attempt:
  assumes sender: "(name, request, refused, dispatch) \<in> set (broker_dispatchers cfg sha target cl fresh now t later)"
    and quiet: "quiet_client cl" and wf: "mem_wf (ss_store s)" and p: "lookup (ss_store s) (rid r) = Some p"
    and run: "dispatch r s = (res, s')"
    and ref: "ref = new_attempt name (retry_count r) (fst (fresh (rid r))) (snd (fresh (rid r)))"
    and q: "q = owned_by name (execution_profile r) ref p"
  shows "(if dispatchable now t (retry_count r) p
     then (res = Inr (Some ref) \<and> (\<exists>s1 s2 x. bc_publish cl (request q ref) s1 = (Inr x, s2)) \<or> (\<exists>e. res = Inl e)) \<and>
          (lookup (ss_store s') (rid r) = Some q \<or>
           (\<exists>e. res = Inl e \<and> refused e \<and> lookup (ss_store s') (rid r) = Some (q\<lparr>execution_ref := None\<rparr>)))
     else res = Inr None \<and> lookup (ss_store s') (rid r) \<in> {Some p, Some (expire_record now p)}) \<and>
    (\<forall>i. i \<noteq> rid r \<longrightarrow> lookup (ss_store s') i = lookup (ss_store s) i) \<and>
    dq_body (request q ref) = uuid_str (rid r) \<and> dq_attempt (request q ref) = ref \<and> \<not> refused QueueDispatchError"
proof -
  obtain send where S: "broker_sender cl request refused send"
      "dispatch r = broker_dispatch name (send later) ref now t r"
    using dispatcher_sender [OF sender] ref by metis
  have i: "rid p = rid r" using mem_wfD(2) [OF wf p] .
  note run = run [unfolded S(2)]
  note owned = broker_sender.dispatch_owned [OF S(1) quiet p i run, folded q]
  note refused = broker_sender.dispatch_refused [OF S(1) p run]
  have "dq_body (request q ref) = uuid_str (rid r) \<and> dq_attempt (request q ref) = ref \<and> \<not> refused QueueDispatchError"
    using broker_sender.carries [OF S(1)] broker_sender.lost_answer [OF S(1)] by (simp add: q i)
  then show ?thesis using owned refused by (cases "dispatchable now t (retry_count r) p") auto
qed

text \<open>Property C16: with a client that answers steadily, repair examines at most \<open>limit\<close> records with a
  reference and never raises. Exactly the waiting ones whose reference is of another retry count, or as
  old as the limit or older, are sent again under a fresh reference, which they carry afterwards unless the client
  refused that message for good; then they carry none. Those whose message was accepted are counted.
  Every other record is as before.\<close>

theorem broker_repair_rotates:
  assumes sender: "(name, stale, request, outcome, repair) \<in> set (broker_repairers cfg sha target stale_after cl fresh now_ms later)"
    and steady: "answers_with cl conn answer" and wf: "mem_wf (ss_store s)" and limit: "0 < limit"
    and rs: "rs = list_running_external (Some limit) (ss_store s)"
    and due: "due = due_for_rotation name now_ms (stale * 1000)" and ref: "ref = fresh_reference name fresh"
    and again: "again = (\<lambda>r. sent_again request (outcome conn) answer (ref r) r)"
  shows "\<exists>s'. repair limit s = (Inr (empty_dispatch_repair_result\<lparr>dr_examined := int (length rs),
        dr_changed := int (length (filter (\<lambda>r. due r \<and> again r = SendAccepted) rs))\<rparr>), s') \<and>
    int (length rs) \<le> limit \<and>
    (\<forall>i. i \<notin> rid ` set rs \<longrightarrow> lookup (ss_store s') i = lookup (ss_store s) i) \<and>
    (\<forall>r \<in> set rs. lookup (ss_store s') (rid r) = Some (if due r then repaired_as (again r) (ref r) r else r))"
proof -
  from sender consider "name = ''sqs''" "stale = sq_dispatch_stale_after cfg" "request = sqs_request cfg sha"
      "outcome = api_outcome sqs_definitive" "repair = sqs_repair cfg sha cl fresh now_ms later"
    | "name = ''pubsub''" "stale = stale_after" "request = id_request target" "outcome = api_outcome pubsub_definitive"
      "repair = pubsub_repair target stale_after cl fresh now_ms later"
    | "name = ''kafka''" "stale = stale_after" "request = id_request target" "outcome = kafka_outcome"
      "repair = kafka_repair target stale_after cl fresh now_ms later"
    | "name = ''rabbitmq''" "stale = stale_after" "request = rabbitmq_request target" "outcome = rabbitmq_outcome"
      "repair = rabbitmq_repair target stale_after cl fresh now_ms later"
    by (auto simp: broker_repairers_def)
  then show ?thesis
  proof cases
    case 1
    show ?thesis unfolding 1 sqs_repair_def rs due ref again by (rule sqs.repair_result [OF steady wf limit])
  next
    case 2
    show ?thesis unfolding 2 pubsub_repair_def rs due ref again by (rule pubsub.repair_result [OF steady wf limit])
  next
    case 3
    show ?thesis unfolding 3 kafka_repair_def rs due ref again by (rule kafka.repair_result [OF steady wf limit])
  next
    case 4
    show ?thesis unfolding 4 rabbitmq_repair_def rs due ref again by (rule rabbitmq.repair_result [OF steady wf limit])
  qed
qed

section \<open>Deliveries\<close>

lemma release_retry_store:
  assumes "release_retry i ref now s = (x, s')" and "lookup (ss_store s') i = Some q"
  shows "\<not> (is_waiting q \<and> execution_ref q = Some ref)"
proof -
  have terminal: "is_terminal q \<Longrightarrow> \<not> is_waiting q" by (auto simp: is_terminal_simp is_waiting_def)
  from assms show ?thesis
    by (auto simp: release_retry_def get_task_def clear_lookup terminal split: option.splits prod.splits if_splits)
      (auto simp: clear_lookup dest!: arg_cong [where f = snd] split: if_splits)
qed

text \<open>The part the consumers share: a message that names a task and an attempt, of a store that answers.\<close>

definition delivery_done ::
    "service_env \<Rightarrow> consumer_env \<Rightarrow> uuid \<Rightarrow> int \<Rightarrow> string \<Rightarrow> svc_state \<Rightarrow> svc_state \<Rightarrow> bool" where
  "delivery_done env c i n ref s s' \<longleftrightarrow>
     (\<forall>q. lookup (ss_store s) i = Some q \<longrightarrow> is_terminal q) \<and> s' = s \<or>
     (\<exists>code s1. consume_one env c i (Some n) (Some ref) s = (Exited code, s1) \<and>
        (if code = FAILURE
         then \<forall>q. lookup (ss_store s') i = Some q \<longrightarrow> \<not> (is_waiting q \<and> execution_ref q = Some ref)
         else s' = s1))"

lemma finished_delivery:
  "lookup (ss_store s) i = None \<Longrightarrow> delivery_done env c i n ref s s"
  "lookup (ss_store s) i = Some q \<Longrightarrow> is_terminal q \<Longrightarrow> delivery_done env c i n ref s s"
  by (simp_all add: delivery_done_def)

lemma acknowledged_delivery:
  assumes "(case consume_one env c i (Some n) (Some ref) s of
        (Exited code, s1) \<Rightarrow>
          if code \<noteq> FAILURE then (Acknowledged, s1)
          else (case release_retry i ref now s1 of
                  (Some True, s2) \<Rightarrow> (Acknowledged, s2)
                | (_, s2) \<Rightarrow> (other, s2))
      | (_, s1) \<Rightarrow> (other, s1)) = (Acknowledged, s')" and "other \<noteq> Acknowledged"
  shows "delivery_done env c i n ref s s'"
proof -
  obtain code s1 where one: "consume_one env c i (Some n) (Some ref) s = (Exited code, s1)"
    using assms by (auto split: prod.splits delivery_end.splits)
  show ?thesis
  proof (cases "code = FAILURE")
    case False
    with one assms show ?thesis by (auto simp: delivery_done_def)
  next
    case True
    obtain x s2 where "release_retry i ref now s1 = (x, s2)" by fastforce
    moreover from this have "s2 = s'" using assms one True by (auto split: option.splits bool.splits)
    ultimately show ?thesis using one True release_retry_store by (auto simp: delivery_done_def)
  qed
qed

lemma rabbitmq_acknowledged:
  assumes "(case consume_one env c i (Some n) (Some ref) s of
        (Exited code, s1) \<Rightarrow> (Acknowledged, if code = FAILURE then snd (release_retry i ref now s1) else s1)
      | (_, s1) \<Rightarrow> (Rejected, s1)) = (Acknowledged, s')"
  shows "delivery_done env c i n ref s s'"
proof -
  obtain code s1 where one: "consume_one env c i (Some n) (Some ref) s = (Exited code, s1)"
      "s' = (if code = FAILURE then snd (release_retry i ref now s1) else s1)"
    using assms by (auto split: prod.splits delivery_end.splits)
  then show ?thesis using release_retry_store [of i ref now s1 "fst (release_retry i ref now s1)" s']
    by (auto simp: delivery_done_def)
qed

text \<open>Property C15: a broker message is acknowledged only when nothing is left to do for it: it names no
  attempt, its record is gone or finished, or the attempt was handled to an exit code; and after a failed
  run the record does not wait under the reference of the message, so it can be dispatched again. When
  the store does not answer, or the run raises or is cancelled, the broker keeps the message.\<close>

theorem acknowledged_when_done:
  assumes consumer: "(name, consume) \<in> set (broker_consumers env c)"
    and run: "consume reachable now msg s = (Acknowledged, s')"
  shows "(message_task msg = None \<or> parse_attempt name (dm_attempt msg) = None) \<and> s' = s \<or>
    reachable \<and> (\<exists>i ref n ms. message_task msg = Some i \<and> dm_attempt msg = Some ref \<and>
      parse_attempt name (Some ref) = Some (n, ms) \<and> delivery_done env c i n ref s s')"
proof (cases "message_task msg = None \<or> parse_attempt name (dm_attempt msg) = None")
  case True
  with consumer run show ?thesis
    by (auto simp: broker_consumers_def sqs_consume_def sqs_resolve_def pubsub_consume_def kafka_consume_def rabbitmq_consume_def broker_defs
        split: option.splits)
next
  case False
  then obtain i ref n ms where M: "message_task msg = Some i" "dm_attempt msg = Some ref" "parse_attempt name (Some ref) = Some (n, ms)"
    by (cases "dm_attempt msg") (auto simp: parse_attempt_def)
  from consumer consider "name = ''sqs''" "consume = sqs_consume env c" | "name = ''pubsub''" "consume = pubsub_consume env c"
    | "name = ''kafka''" "consume = kafka_consume env c" | "name = ''rabbitmq''" "consume = rabbitmq_consume env c"
    by (auto simp: broker_consumers_def)
  then have "reachable \<and> delivery_done env c i n ref s s'"
  proof cases
    case 1
    with run M show ?thesis
      by (auto simp: sqs_consume_def sqs_resolve_def broker_defs get_task_def split: if_splits intro: finished_delivery dest: acknowledged_delivery)
  next
    case 2
    with run M show ?thesis
      by (auto simp: pubsub_consume_def broker_defs get_task_def split: if_splits option.splits intro: finished_delivery dest: acknowledged_delivery)
  next
    case 3
    with run M show ?thesis
      by (auto simp: kafka_consume_def broker_defs get_task_def split: if_splits option.splits intro: finished_delivery dest: acknowledged_delivery)
  next
    case 4
    with run M show ?thesis
      by (auto simp: rabbitmq_consume_def broker_defs get_task_def split: if_splits option.splits intro: finished_delivery dest: rabbitmq_acknowledged)
  qed
  with M show ?thesis by blast
qed

text \<open>redelivery is harmless: a message that comes again after its record took another reference or
  moved to another attempt, or finished, runs nothing, is acknowledged and leaves the store as it is.\<close>

theorem stale_message_ignored:
  assumes consumer: "(name, consume) \<in> set (broker_consumers env c)" and wf: "mem_wf (ss_store s)"
    and msg: "message_task msg = Some i" "dm_attempt msg = Some ref" "parse_attempt name (Some ref) = Some (n, ms)"
    and r: "lookup (ss_store s) i = Some r" "execution_ref r \<noteq> Some ref \<or> retry_count r \<noteq> n \<or> is_terminal r"
  shows "\<exists>s'. consume True now msg s = (Acknowledged, s') \<and> ss_store s' = ss_store s"
proof -
  have terminal: "is_terminal r \<Longrightarrow> \<not> is_waiting r \<and> status r \<noteq> Running" by (auto simp: is_terminal_simp is_waiting_def)
  obtain s1 where refused: "consume_one env c i (Some n) (Some ref) s = (Exited CLAIM_LOST, s1)" "ss_store s1 = ss_store s"
    using refused_delivery [OF wf r(1), where n = "Some n" and ref = "Some ref" and c = c and env = env] r(2) terminal by auto
  from consumer consider "name = ''sqs''" "consume = sqs_consume env c" | "name = ''pubsub''" "consume = pubsub_consume env c"
    | "name = ''kafka''" "consume = kafka_consume env c" | "name = ''rabbitmq''" "consume = rabbitmq_consume env c"
    by (auto simp: broker_consumers_def)
  then show ?thesis
    using msg r(1) refused
    by cases (simp_all add: sqs_consume_def sqs_resolve_def pubsub_consume_def kafka_consume_def rabbitmq_consume_def broker_defs get_task_def)
qed

text \<open>the offsets a Kafka partition commits are those right behind a prefix of its messages, in
  order, and every message of the prefix was acknowledged at its turn: an unfinished message and
  everything behind it stay uncommitted, so a restart delivers them again.\<close>

theorem kafka_commits_finished_prefix:
  assumes "consume_partition consume msgs s = (committed, s')"
  shows "\<exists>k \<le> length msgs. committed = map (\<lambda>m. km_offset m + 1) (take k msgs) \<and>
    (\<forall>j < k. fst (consume (msgs ! j) (snd (consume_partition consume (take j msgs) s))) = Acknowledged)"
  using assms
proof (induction msgs arbitrary: s committed s')
  case (Cons m msgs)
  show ?case
  proof (cases "committed = []")
    case True
    then show ?thesis by (intro exI [of _ 0]) simp
  next
    case False
    obtain s1 where one: "km_assigned m" "consume m s = (Acknowledged, s1)" "km_commit_ok m"
      using Cons.prems False by (auto split: if_splits prod.splits broker_answer.splits)
    obtain rest where rest: "consume_partition consume msgs s1 = (rest, s')" "committed = (km_offset m + 1) # rest"
      using Cons.prems one by (auto split: prod.splits)
    from Cons.IH [OF rest(1)] obtain k where k: "k \<le> length msgs" "rest = map (\<lambda>m. km_offset m + 1) (take k msgs)"
        "\<And>j. j < k \<Longrightarrow> fst (consume (msgs ! j) (snd (consume_partition consume (take j msgs) s1))) = Acknowledged"
      by blast
    have "fst (consume ((m # msgs) ! j) (snd (consume_partition consume (take j (m # msgs)) s))) = Acknowledged" if "j < Suc k" for j
    proof (cases j)
      case 0
      with one show ?thesis by simp
    next
      case (Suc l)
      with k(3) [of l] that one show ?thesis by (simp add: case_prod_beta)
    qed
    with k(1,2) rest(2) show ?thesis by (intro exI [of _ "Suc k"]) simp
  qed
qed simp

section \<open>Witnesses\<close>

definition ex_client :: broker_client where
  "ex_client = \<lparr>bc_connect = op_return (), bc_publish = (\<lambda>q. op_return True)\<rparr>"

lemma ex_client_quiet: "quiet_client ex_client"
  by (simp add: quiet_client_def ex_client_def op_return_def)

definition ex_sqs :: sqs_config where
  "ex_sqs = \<lparr>sq_queue_url = ''https://sqs'', sq_fifo = True, sq_message_group_id = None, sq_dispatch_stale_after = 60\<rparr>"

definition ex_delivery :: "uuid \<Rightarrow> delivery_message" where
  "ex_delivery i = \<lparr>dm_body = Some (uuid_str i), dm_attempt = Some (sqs_new_attempt 0 1000 9)\<rparr>"

lemma ex_delivery_fields:
  "i < 16 ^ 32 \<Longrightarrow> message_task (ex_delivery i) = Some i" "dm_attempt (ex_delivery i) = Some (sqs_new_attempt 0 1000 9)"
  "parse_attempt ''sqs'' (Some (sqs_new_attempt 0 1000 9)) = Some (0, 1000)"
  by (simp_all add: message_task_def ex_delivery_def uuid_parse_str broker_defs parse_new_attempt)

lemma attempt_reference_round_trip_witness:
  "sqs_parse_attempt (Some (sqs_new_attempt 3 1700000000000 9)) = Some (3, 1700000000000) \<and>
   kafka_parse_attempt (Some (sqs_new_attempt 3 1700000000000 9)) = None"
  using attempt_reference_round_trip [of "''sqs''" sqs_new_attempt sqs_parse_attempt "''sqs''" sqs_new_attempt sqs_parse_attempt 3 1700000000000 9]
    attempt_reference_round_trip [of "''sqs''" sqs_new_attempt sqs_parse_attempt "''kafka''" kafka_new_attempt kafka_parse_attempt 3 1700000000000 9]
  by (simp add: attempt_codecs_def)

lemma dispatch_owns_attempt_witness:
  "\<exists>q. lookup (ss_store (snd (pubsub_dispatch ''topic'' ex_client (\<lambda>_. (1000, 9)) 105 105 105 ex_record (ex_svc (ex_state ex_record))))) 7 = Some q \<and>
     retry_count q = 0 \<and> status q = Pending"
proof -
  obtain res s' where run: "pubsub_dispatch ''topic'' ex_client (\<lambda>_. (1000, 9)) 105 105 105 ex_record (ex_svc (ex_state ex_record)) = (res, s')"
    by fastforce
  have here: "mem_wf (ss_store (ex_svc (ex_state ex_record)))"
    "lookup (ss_store (ex_svc (ex_state ex_record))) (rid ex_record) = Some ex_record"
    by (simp_all add: ex_svc_def mem_reachable_wf)
  have "dispatchable 105 105 (retry_count ex_record) ex_record"
    by (simp add: dispatchable_def ex_defs is_waiting_def is_due_def is_expired_def)
  moreover have "(''pubsub'', id_request ''topic'', pubsub_definitive, pubsub_dispatch ''topic'' ex_client (\<lambda>_. (1000, 9)) 105 105 105) \<in>
      set (broker_dispatchers ex_sqs id ''topic'' ex_client (\<lambda>_. (1000, 9)) 105 105 105)"
    by (simp add: broker_dispatchers_def)
  note owns = dispatch_owns_attempt [OF this ex_client_quiet here(1) here(2) run refl refl]
  have "rid ex_record = 7" "retry_count ex_record = 0" "status ex_record = Pending" by (simp_all add: ex_record_def new_record_def)
  ultimately show ?thesis using owns by (auto simp: run)
qed

text \<open>A record that was dispatched at time 0 and is still waiting at second 3600.\<close>

definition ex_dispatched :: task_record where
  "ex_dispatched = ex_record\<lparr>execution_backend := ''sqs'', execution_profile := None, execution_ref := Some (sqs_new_attempt 0 0 9)\<rparr>"

lemma ex_dispatched_wf: "mem_wf (ex_state ex_dispatched)"
proof -
  have "ex_state ex_dispatched = snd (set_execution_ref 7 ''sqs'' (sqs_new_attempt 0 0 9) None (ex_state ex_record))"
    by (simp add: set_execution_ref_def modify_if_def ex_dispatched_def)
  then show ?thesis using mem_wf_evolves [OF _ set_execution_ref_evolves] by (simp add: mem_reachable_wf)
qed

lemma broker_repair_rotates_witness:
  "\<exists>s'. sqs_repair ex_sqs id ex_client (\<lambda>_. (3600000, 10)) 3600000 3600000000 5 (ex_svc (ex_state ex_dispatched)) =
      (Inr (empty_dispatch_repair_result\<lparr>dr_examined := 1, dr_changed := 1\<rparr>), s') \<and>
    (\<exists>q. lookup (ss_store s') 7 = Some q \<and> execution_ref q = Some (sqs_new_attempt 0 3600000 10))"
proof -
  let ?s = "ex_svc (ex_state ex_dispatched)"
  have fields: "rid ex_dispatched = 7" "retry_count ex_dispatched = 0" "is_waiting ex_dispatched" "\<not> is_terminal ex_dispatched"
    "execution_ref ex_dispatched = Some (new_attempt ''sqs'' 0 0 9)"
    by (simp_all add: ex_dispatched_def ex_defs is_waiting_def is_terminal_simp broker_defs)
  have wf: "mem_wf (ss_store ?s)" by (simp add: ex_svc_def ex_dispatched_wf)
  have rs: "[ex_dispatched] = list_running_external (Some 5) (ss_store ?s)"
    by (simp add: list_running_external_def ex_svc_def fields py_take_def)
  have due: "due_for_rotation ''sqs'' 3600000 60000 ex_dispatched"
    by (simp add: due_for_rotation_def fields parse_new_attempt)
  have steady: "answers_with ex_client (Inr ()) (\<lambda>_. Inr True)"
    by (simp add: answers_with_def ex_client_def op_return_def)
  have "(''sqs'', 60, sqs_request ex_sqs id, api_outcome sqs_definitive,
        sqs_repair ex_sqs id ex_client (\<lambda>_. (3600000, 10)) 3600000 3600000000) \<in>
      set (broker_repairers ex_sqs id ''t'' 60 ex_client (\<lambda>_. (3600000, 10)) 3600000 3600000000)"
    by (simp add: broker_repairers_def ex_sqs_def)
  from broker_repair_rotates [OF this steady wf _ rs refl refl refl] show ?thesis
    by (auto simp: due sent_again_def repaired_as_def fresh_reference_def fields broker_defs)
qed

lemma stale_message_ignored_witness:
  "\<exists>s'. sqs_consume ex_env (ex_consumer (\<lambda>n. 105)) True 105 (ex_delivery 7) (ex_svc (ex_state ex_record)) = (Acknowledged, s') \<and>
     ss_store s' = ex_state ex_record"
proof -
  have here: "lookup (ss_store (ex_svc (ex_state ex_record))) 7 = Some ex_record" "mem_wf (ss_store (ex_svc (ex_state ex_record)))"
    by (simp_all add: ex_svc_def mem_reachable_wf)
  have "execution_ref ex_record = None" by (simp add: ex_defs)
  with stale_message_ignored [of "''sqs''" "sqs_consume ex_env (ex_consumer (\<lambda>n. 105))" ex_env "ex_consumer (\<lambda>n. 105)", OF _ here(2) _ _ _ here(1),
      where msg = "ex_delivery 7" and ref = "sqs_new_attempt 0 1000 9" and n = 0 and ms = 1000 and now = 105]
  show ?thesis by (simp add: broker_consumers_def ex_delivery_fields ex_svc_def)
qed

lemma acknowledged_when_done_witness:
  "delivery_done ex_env (ex_consumer (\<lambda>n. 105)) 8 0 (sqs_new_attempt 0 1000 9) (ex_svc (ex_state ex_record)) (ex_svc (ex_state ex_record))"
proof -
  have run: "sqs_consume ex_env (ex_consumer (\<lambda>n. 105)) True 105 (ex_delivery 8) (ex_svc (ex_state ex_record)) =
      (Acknowledged, ex_svc (ex_state ex_record))"
    using ex_delivery_fields by (simp add: sqs_consume_def sqs_resolve_def broker_defs get_task_def ex_svc_def)
  have "(''sqs'', sqs_consume ex_env (ex_consumer (\<lambda>n. 105))) \<in> set (broker_consumers ex_env (ex_consumer (\<lambda>n. 105)))"
    by (simp add: broker_consumers_def)
  from acknowledged_when_done [OF this run] show ?thesis by (simp add: ex_delivery_fields)
qed

definition ex_batch :: "kafka_message list" where
  "ex_batch = map (\<lambda>j. \<lparr>km_message = ex_delivery 7, km_offset = j, km_assigned = True, km_commit_ok = True\<rparr>) [0, 1, 2]"

lemma kafka_commits_finished_prefix_witness:
  "\<exists>k \<le> 3. [1, 2] = map (\<lambda>m. km_offset m + 1) (take k ex_batch)"
proof -
  have run: "consume_partition (\<lambda>m s. (if km_offset m < 2 then Acknowledged else Unanswered, s)) ex_batch
      (ex_svc (ex_state ex_record)) = ([1, 2], ex_svc (ex_state ex_record))"
    by (simp add: ex_batch_def)
  have "length ex_batch = 3" by (simp add: ex_batch_def)
  with kafka_commits_finished_prefix [OF run] show ?thesis by metis
qed

end
