(* ===== verification/Cloud_Tasks_Properties.thy ===== *)
theory Cloud_Tasks_Properties
  imports Cloud_Tasks Broker_Properties
begin

text \<open>
  What the Cloud Tasks backend guarantees: names identify attempts, scheduling reserves before it creates
  and only raises after it reported, repair contains its failures.
\<close>

section \<open>Names\<close>

lemma hex_digits_inject: "hex_digits w m = hex_digits w n \<Longrightarrow> m mod 16 ^ w = n mod 16 ^ w"
  using hex_int_digits [of 0 w m "[]"] hex_int_digits [of 0 w n "[]"] by simp

lemma py_str_int_inject: "0 \<le> m \<Longrightarrow> 0 \<le> n \<Longrightarrow> py_str_int m = py_str_int n \<Longrightarrow> m = n"
  using py_str_int_round_trip by (metis option.inject)

lemma py_str_int_no_hyphen: "0 \<le> n \<Longrightarrow> CHR ''-'' \<notin> set (py_str_int n)"
  using py_str_nat_chars(2) [of "nat n"] by (auto simp: py_str_int_def)

lemma split_first: "x \<notin> set a \<Longrightarrow> x \<notin> set b \<Longrightarrow> a @ x # c = b @ x # d \<longleftrightarrow> a = b \<and> c = d"
  by (induction a arbitrary: b) (case_tac b; auto)+

lemma starts_with_append: "starts_with p (p @ s)"
  by (simp add: starts_with_def)

text \<open>the name of a delivery tells which attempt it is for: a name generated for one record at one
  retry count counts as current for exactly the records with that identifier and retry count, so a name
  left over from an earlier attempt is never reused.\<close>

theorem delivery_name_identifies_attempt:
  assumes "0 \<le> retry_count r" "0 \<le> retry_count r'" "rid r < 16 ^ 32" "rid r' < 16 ^ 32"
  shows "is_current_delivery_name (delivery_name cfg r u) cfg r' \<longleftrightarrow> rid r = rid r' \<and> retry_count r = retry_count r'"
proof
  assume "is_current_delivery_name (delivery_name cfg r u) cfg r'"
  then obtain rest where "delivery_name_prefix cfg r @ uuid_hex u = delivery_name_prefix cfg r' @ rest"
    unfolding is_current_delivery_name_def delivery_name_def starts_with_def by (metis append_take_drop_id)
  then have "uuid_hex (rid r) @ ''-r'' @ py_str_int (retry_count r) @ ''-'' @ uuid_hex u =
      uuid_hex (rid r') @ ''-r'' @ py_str_int (retry_count r') @ ''-'' @ rest"
    by (simp add: delivery_name_prefix_def)
  then have "uuid_hex (rid r) = uuid_hex (rid r')"
      "py_str_int (retry_count r) @ CHR ''-'' # uuid_hex u = py_str_int (retry_count r') @ CHR ''-'' # rest"
    by (simp_all add: uuid_hex_def append_eq_append_conv length_hex_digits)
  then show "rid r = rid r' \<and> retry_count r = retry_count r'"
    using hex_digits_inject [of 32 "rid r" "rid r'"] assms py_str_int_inject
    by (simp add: uuid_hex_def split_first py_str_int_no_hyphen)
next
  assume "rid r = rid r' \<and> retry_count r = retry_count r'"
  then have "delivery_name_prefix cfg r = delivery_name_prefix cfg r'" by (simp add: delivery_name_prefix_def)
  then show "is_current_delivery_name (delivery_name cfg r u) cfg r'"
    by (simp add: is_current_delivery_name_def delivery_name_def starts_with_append)
qed

section \<open>Scheduling\<close>

text \<open>A client that leaves the service's state alone, and with it everything concurrent.\<close>

definition quiet_tasks :: "tasks_client \<Rightarrow> bool" where
  "quiet_tasks cl \<longleftrightarrow> (\<forall>s. snd (tc_connect cl s) = s) \<and> (\<forall>q s. snd (tc_create cl q s) = s) \<and> (\<forall>x s. snd (tc_get cl x s) = s)"

lemma quiet_tasks_calls:
  assumes "quiet_tasks cl"
  shows "tc_connect cl s = (fst (tc_connect cl s), s)" "tc_create cl q s = (fst (tc_create cl q s), s)"
    "tc_get cl x s = (fst (tc_get cl x s), s)"
  using assms by (metis quiet_tasks_def prod.collapse)+

lemma quiet_bind: "snd (m s) = s \<Longrightarrow> op_bind m f s = (case fst (m s) of Inl e \<Rightarrow> (Inl e, s) | Inr x \<Rightarrow> f x s)"
  by (cases "m s") (auto simp: op_bind_def split: sum.split)

lemma lift_bind: "op_bind (op_lift r) h s = (case r of Inl e \<Rightarrow> (Inl e, s) | Inr x \<Rightarrow> h x s)"
  by (simp add: op_bind_def op_lift_def split: sum.split)

lemma quiet_tasks_bind:
  assumes "quiet_tasks cl"
  shows "op_bind (tc_connect cl) f s = (case fst (tc_connect cl s) of Inl e \<Rightarrow> (Inl e, s) | Inr x \<Rightarrow> f x s)"
    "op_bind (tc_create cl q) f s = (case fst (tc_create cl q s) of Inl e \<Rightarrow> (Inl e, s) | Inr x \<Rightarrow> f x s)"
    "op_bind (tc_get cl y) f s = (case fst (tc_get cl y s) of Inl e \<Rightarrow> (Inl e, s) | Inr x \<Rightarrow> f x s)"
    "op_bind (op_lift r) h s = (case r of Inl e \<Rightarrow> (Inl e, s) | Inr x \<Rightarrow> h x s)"
  using assms by (simp_all add: quiet_bind quiet_tasks_def) (simp add: op_bind_def op_lift_def split: sum.split)

definition failure_event :: "task_record \<Rightarrow> delivery_operation \<Rightarrow> service_event" where
  "failure_event r operation = task_event ''task.event'' r None (retry_count r + 1) (Some (do_failure_message operation))
     [(''phase'', PStr (do_phase operation))]"

text \<open>The delivery exists at the provider: this call created it, or an earlier one had.\<close>

definition delivered :: "cloud_tasks_config \<Rightarrow> tasks_client \<Rightarrow> (nat \<Rightarrow> instant) \<Rightarrow> task_record \<Rightarrow> string \<Rightarrow> svc_state \<Rightarrow> bool" where
  "delivered cfg cl clk r name s \<longleftrightarrow>
     (\<exists>q. fst (tc_create cl (create_task_request cfg q name) s) = Inr () \<and> rid q = rid r) \<or>
     (\<exists>e. fst (create_call cfg cl clk r name s) = Inl e \<and> is_already_exists e)"

lemma create_delivery_result:
  assumes quiet: "quiet_tasks cl" and q: "lookup (ss_store s) (rid r) = Some q" "rid q = rid r"
    and run: "create_delivery cfg cl clk operation r name s = (res, s')"
  shows "res = Inl QueueDispatchError \<and> s' = s\<lparr>ss_events := ss_events s @ [failure_event r operation]\<rparr> \<or>
    s' = s \<and> (res = Inr None \<and> \<not> same_attempt (clk 0) q r (Some name) \<or>
               res = Inr (Some name) \<and> delivered cfg cl clk r name s)"
proof -
  note calls = quiet_tasks_calls [OF quiet]
  have call: "create_call cfg cl clk r name s =
      (case fst (tc_connect cl s) of Inl e \<Rightarrow> Inl e
       | Inr u \<Rightarrow> if \<not> same_attempt (clk 0) q r (Some name) then Inr None
                else case validate_schedulable (clk 1) q of Inl e \<Rightarrow> Inl e
                     | Inr u \<Rightarrow> (case fst (tc_create cl (create_task_request cfg q name) s) of
                                 Inl e \<Rightarrow> Inl e | Inr u \<Rightarrow> Inr (Some name)), s)"
    by (simp add: create_call_def quiet_tasks_bind [OF quiet] op_simps get_task_def q split: sum.split)
  show ?thesis
  proof (cases "fst (create_call cfg cl clk r name s)")
    case (Inl e)
    with call have e: "create_call cfg cl clk r name s = (Inl e, s)" by simp
    have owned: "owns_delivery (clk 2) r name s = (Inr (same_attempt (clk 2) q r (Some name)), s)"
      by (simp add: owns_delivery_def svc_read_def get_task_def q)
    show ?thesis
    proof (cases "is_already_exists e \<and> same_attempt (clk 2) q r (Some name)")
      case True
      with run e owned Inl show ?thesis
        by (auto simp: create_delivery_def op_try_def op_bind_simps(2) op_simps delivered_def)
    next
      case False
      then have "(if is_already_exists e then owns_delivery (clk 2) r name else op_return False) s = (Inr False, s)"
        using owned by (auto simp: op_simps)
      with run e show ?thesis
        by (auto simp: create_delivery_def op_try_def op_bind_simps(2) op_simps report_delivery_failure_def failure_event_def)
    qed
  next
    case (Inr x)
    with run call have "res = Inr x" "s' = s" by (auto simp: create_delivery_def op_try_def)
    moreover have "x = None \<and> \<not> same_attempt (clk 0) q r (Some name) \<or> x = Some name \<and> delivered cfg cl clk r name s"
      using Inr q(2) unfolding call delivered_def by (auto split: sum.splits if_splits)
    ultimately show ?thesis by auto
  qed
qed

text \<open>The reservation of a name for the stored record \<open>p\<close>.\<close>

lemma reserve_name_result:
  assumes p: "lookup (ss_store s) (rid p) = Some p" and run: "reserve_delivery_name cfg clk u p s = (res, s')"
  defines "name \<equiv> delivery_name cfg p u"
  defines "q \<equiv> p\<lparr>execution_ref := Some name\<rparr>"
  shows "ss_events s' = ss_events s" "i \<noteq> rid p \<Longrightarrow> lookup (ss_store s') i = lookup (ss_store s) i"
    "lookup (ss_store s') (rid p) = Some p \<and> res = Inr None \<and> (is_waiting p \<longrightarrow> is_expired (clk 0) p) \<or>
     lookup (ss_store s') (rid p) = Some q \<and>
       (res = Inr None \<and> \<not> same_attempt (clk 1) q p (Some name) \<or>
        res = Inl QueueConfigurationError \<or> res = Inr (Some name) \<and> same_attempt (clk 1) q p (Some name))"
proof -
  let ?ok = "is_waiting p \<and> \<not> is_expired (clk 0) p"
  let ?store = "reserve_scheduled_execution_ref (rid p) (execution_backend p) name (retry_count p) (execution_ref p) (clk 0) (ss_store s)"
  have fst: "fst ?store = (if ?ok then Some q else None)"
    by (simp add: reserve_scheduled_execution_ref_def modify_if_lookup p q_def)
  have snd: "lookup (snd ?store) j = (if j = rid p \<and> ?ok then Some q else lookup (ss_store s) j)" for j
    by (cases "j = rid p") (simp_all add: reserve_scheduled_execution_ref_def modify_if_lookup p q_def split: option.split)
  let ?s = "s\<lparr>ss_store := snd ?store\<rparr>"
  have eq: "reserve_delivery_name cfg clk u p s =
      (case fst ?store of
         None \<Rightarrow> (Inr None, ?s)
       | Some x \<Rightarrow> if \<not> same_attempt (clk 1) x p (Some name) then (Inr None, ?s)
           else case validate_schedulable (clk 2) x of Inl e \<Rightarrow> (Inl e, ?s) | Inr y \<Rightarrow> (Inr (Some name), ?s))"
    by (simp add: reserve_delivery_name_def Let_def name_def svc_store_simp lift_bind op_return_def split: option.split sum.split)
  have invalid: "validate_schedulable now x = Inl e \<Longrightarrow> e = QueueConfigurationError" for now x e
    by (auto simp: validate_schedulable_def split: if_splits)
  have s': "s' = ?s" using run unfolding eq by (auto split: option.splits if_splits sum.splits)
  then show "ss_events s' = ss_events s" "i \<noteq> rid p \<Longrightarrow> lookup (ss_store s') i = lookup (ss_store s) i"
    by (simp_all add: snd)
  show "lookup (ss_store s') (rid p) = Some p \<and> res = Inr None \<and> (is_waiting p \<longrightarrow> is_expired (clk 0) p) \<or>
     lookup (ss_store s') (rid p) = Some q \<and>
       (res = Inr None \<and> \<not> same_attempt (clk 1) q p (Some name) \<or>
        res = Inl QueueConfigurationError \<or> res = Inr (Some name) \<and> same_attempt (clk 1) q p (Some name))"
  proof (cases ?ok)
    case False
    then have none: "fst ?store = None" using fst by auto
    from run have "res = Inr None" unfolding eq none by simp
    moreover have "lookup (ss_store s') (rid p) = Some p" using False by (auto simp: s' snd p)
    ultimately show ?thesis using False by blast
  next
    case True
    with run have "res = (if \<not> same_attempt (clk 1) q p (Some name) then Inr None
        else case validate_schedulable (clk 2) q of Inl e \<Rightarrow> Inl e | Inr y \<Rightarrow> Inr (Some name))"
      unfolding eq fst by (auto split: if_splits sum.splits)
    moreover have "lookup (ss_store s') (rid p) = Some q" using True by (simp add: s' snd)
    ultimately show ?thesis using invalid by (auto split: if_splits sum.splits)
  qed
qed

text \<open>What an attempt to deliver the waiting record \<open>p\<close> under a name leaves behind.\<close>

definition attempt_settled ::
    "cloud_tasks_config \<Rightarrow> tasks_client \<Rightarrow> (nat \<Rightarrow> instant) \<Rightarrow> task_record \<Rightarrow> string option \<Rightarrow> string option \<Rightarrow> svc_state \<Rightarrow> bool" where
  "attempt_settled cfg cl clk p ref out s \<longleftrightarrow>
     (case out of
        None \<Rightarrow> is_waiting p \<longrightarrow> (\<exists>n. is_expired (clk n) p)
      | Some name \<Rightarrow> ref = Some name \<and> is_waiting p \<and> is_current_delivery_name name cfg p \<and>
          (\<exists>k. delivered cfg cl (\<lambda>n. clk (n + k)) p name s))"

lemma same_attempt_updated:
  "same_attempt t (p\<lparr>execution_ref := x\<rparr>) p x \<longleftrightarrow>
     execution_backend p = CLOUD_TASKS_BACKEND \<and> is_waiting p \<and> \<not> is_expired t p"
  by (auto simp: same_attempt_def is_waiting_def not_expired_def is_expired_def split: option.split)

lemma delivery_name_current: "is_current_delivery_name (delivery_name cfg r u) cfg r"
  by (simp add: is_current_delivery_name_def delivery_name_def starts_with_append)

text \<open>A delivery under a name the record already carries.\<close>

lemma create_delivery_settles:
  assumes quiet: "quiet_tasks cl" and q: "lookup (ss_store s) (rid p) = Some (p\<lparr>execution_ref := Some name\<rparr>)"
    and p: "execution_backend p = CLOUD_TASKS_BACKEND" "is_waiting p" and name: "is_current_delivery_name name cfg p"
    and run: "create_delivery cfg cl (\<lambda>n. clk (n + k)) operation p name s = (res, s')"
  shows "res = Inl QueueDispatchError \<and> s' = s\<lparr>ss_events := ss_events s @ [failure_event p operation]\<rparr> \<or>
    (\<exists>out. res = Inr out \<and> s' = s \<and> attempt_settled cfg cl clk p (Some name) out s)"
proof -
  have "rid (p\<lparr>execution_ref := Some name\<rparr>) = rid p" by simp
  from create_delivery_result [OF quiet q this run] show ?thesis
    using p name by (auto simp: attempt_settled_def same_attempt_updated)
qed

lemma schedule_delivery_result:
  assumes quiet: "quiet_tasks cl" and p: "lookup (ss_store s) (rid p) = Some p" "is_waiting p"
    and run: "schedule_delivery cfg cl clk u p s = (res, s')"
  shows "i \<noteq> rid p \<Longrightarrow> lookup (ss_store s') i = lookup (ss_store s) i"
    "\<exists>ref. lookup (ss_store s') (rid p) = Some (p\<lparr>execution_ref := ref\<rparr>) \<and>
       (ref = execution_ref p \<or> ref = Some (delivery_name cfg p u)) \<and>
       (case res of
          Inl e \<Rightarrow> ss_events s' = ss_events s @ (if e = QueueDispatchError then [failure_event p SCHEDULE] else [])
        | Inr out \<Rightarrow> ss_events s' = ss_events s \<and> attempt_settled cfg cl clk p ref out s')"
proof -
  have same: "p\<lparr>execution_ref := execution_ref p\<rparr> = p" by simp
  have rid [simp]: "rid (p\<lparr>execution_ref := x\<rparr>) = rid p" for x by simp
  let ?post = "\<lambda>s'. (\<forall>i. i \<noteq> rid p \<longrightarrow> lookup (ss_store s') i = lookup (ss_store s) i) \<and>
    (\<exists>ref. lookup (ss_store s') (rid p) = Some (p\<lparr>execution_ref := ref\<rparr>) \<and>
       (ref = execution_ref p \<or> ref = Some (delivery_name cfg p u)) \<and>
       (case res of
          Inl e \<Rightarrow> ss_events s' = ss_events s @ (if e = QueueDispatchError then [failure_event p SCHEDULE] else [])
        | Inr out \<Rightarrow> ss_events s' = ss_events s \<and> attempt_settled cfg cl clk p ref out s'))"
  have create: "?post s'"
    if "lookup (ss_store s1) (rid p) = Some (p\<lparr>execution_ref := Some x\<rparr>)" "execution_backend p = CLOUD_TASKS_BACKEND"
      "is_current_delivery_name x cfg p" "create_delivery cfg cl (\<lambda>n. clk (n + 4)) SCHEDULE p x s1 = (res, s')"
      "ss_events s1 = ss_events s" "\<forall>i. i \<noteq> rid p \<longrightarrow> lookup (ss_store s1) i = lookup (ss_store s) i"
      "Some x = execution_ref p \<or> x = delivery_name cfg p u" for s1 x
    using create_delivery_settles [OF quiet that(1,2) p(2) that(3,4)]
  proof (elim disjE exE conjE)
    assume "res = Inl QueueDispatchError" "s' = s1\<lparr>ss_events := ss_events s1 @ [failure_event p SCHEDULE]\<rparr>"
    with that show ?thesis by auto
  next
    fix out assume "res = Inr out" "s' = s1" "attempt_settled cfg cl clk p (Some x) out s1"
    with that show ?thesis by auto
  qed
  have "?post s'"
  proof (cases "validate_schedulable (clk 0) p")
    case (Inl e)
    then have "e = QueueConfigurationError" by (auto simp: validate_schedulable_def split: if_splits)
    with Inl run have "res = Inl QueueConfigurationError" "s' = s" by (simp_all add: schedule_delivery_def lift_bind)
    then show ?thesis using p by (auto intro: exI [of _ "execution_ref p"])
  next
    case (Inr z)
    then have backend: "execution_backend p = CLOUD_TASKS_BACKEND" by (auto simp: validate_schedulable_def split: if_splits)
    show ?thesis
    proof (cases "\<exists>x. execution_ref p = Some x \<and> is_current_delivery_name x cfg p")
      case True
      then obtain x where x: "execution_ref p = Some x" "is_current_delivery_name x cfg p" by blast
      with run Inr have "create_delivery cfg cl (\<lambda>n. clk (n + 4)) SCHEDULE p x s = (res, s')"
        by (simp add: schedule_delivery_def lift_bind op_simps)
      then show ?thesis using create [of s x] x backend p(1) same by auto
    next
      case False
      obtain r1 s1 where reserve: "reserve_delivery_name cfg (\<lambda>n. clk (n + 1)) u p s = (r1, s1)" by fastforce
      note reserved = reserve_name_result [OF p(1) this]
      from False Inr run reserve have rest: "(res, s') = (case r1 of Inl e \<Rightarrow> (Inl e, s1) | Inr None \<Rightarrow> (Inr None, s1)
          | Inr (Some x) \<Rightarrow> create_delivery cfg cl (\<lambda>n. clk (n + 4)) SCHEDULE p x s1)"
      proof -
        have "(case execution_ref p of
                 Some name \<Rightarrow> if is_current_delivery_name name cfg p then op_return (Some name)
                   else reserve_delivery_name cfg (\<lambda>n. clk (n + 1)) u p
               | None \<Rightarrow> reserve_delivery_name cfg (\<lambda>n. clk (n + 1)) u p) = reserve_delivery_name cfg (\<lambda>n. clk (n + 1)) u p"
          using False by (auto split: option.split)
        with Inr run reserve show ?thesis
          by (auto simp: schedule_delivery_def lift_bind op_bind_def [of "reserve_delivery_name c k v r" for c k v r] op_return_def
              split: option.splits sum.splits)
      qed
      from reserved(3) show ?thesis
      proof (elim disjE conjE)
        assume s1: "lookup (ss_store s1) (rid p) = Some p" and r1: "r1 = Inr None" and late: "is_waiting p \<longrightarrow> is_expired (clk (0 + 1)) p"
        from rest r1 have "res = Inr None" "s' = s1" by simp_all
        with s1 late same reserved(1,2) show ?thesis
          by (auto simp: attempt_settled_def intro!: exI [of _ "execution_ref p"])
      next
        assume s1: "lookup (ss_store s1) (rid p) = Some (p\<lparr>execution_ref := Some (delivery_name cfg p u)\<rparr>)"
          and r1: "r1 = Inr None" and "\<not> same_attempt (clk (1 + 1)) (p\<lparr>execution_ref := Some (delivery_name cfg p u)\<rparr>) p (Some (delivery_name cfg p u))"
        then have "is_expired (clk (1 + 1)) p" using backend p(2) unfolding same_attempt_updated by blast
        moreover from rest r1 have "res = Inr None" "s' = s1" by simp_all
        ultimately show ?thesis using s1 reserved(1,2) by (auto simp: attempt_settled_def)
      next
        assume s1: "lookup (ss_store s1) (rid p) = Some (p\<lparr>execution_ref := Some (delivery_name cfg p u)\<rparr>)"
          and r1: "r1 = Inl QueueConfigurationError"
        from rest r1 have "res = Inl QueueConfigurationError" "s' = s1" by simp_all
        with s1 reserved(1,2) show ?thesis by auto
      next
        assume s1: "lookup (ss_store s1) (rid p) = Some (p\<lparr>execution_ref := Some (delivery_name cfg p u)\<rparr>)"
          and r1: "r1 = Inr (Some (delivery_name cfg p u))"
        from rest r1 have "create_delivery cfg cl (\<lambda>n. clk (n + 4)) SCHEDULE p (delivery_name cfg p u) s1 = (res, s')" by simp
        then show ?thesis using create [OF s1 backend delivery_name_current] reserved(1,2) by blast
      qed
    qed
  qed
  then show "i \<noteq> rid p \<Longrightarrow> lookup (ss_store s') i = lookup (ss_store s) i"
    "\<exists>ref. lookup (ss_store s') (rid p) = Some (p\<lparr>execution_ref := ref\<rparr>) \<and>
       (ref = execution_ref p \<or> ref = Some (delivery_name cfg p u)) \<and>
       (case res of
          Inl e \<Rightarrow> ss_events s' = ss_events s @ (if e = QueueDispatchError then [failure_event p SCHEDULE] else [])
        | Inr out \<Rightarrow> ss_events s' = ss_events s \<and> attempt_settled cfg cl clk p ref out s')"
    by blast+
qed

text \<open>Property C24: scheduling a record with Cloud Tasks writes the name of the delivery to the record before
  the delivery is created, and keeps a name that already is for this attempt. It raises nothing but a
  dispatch error, and only after one event reported the failure; it hands out a name only if the record
  carries it and the delivery exists, and no name only if the record no longer waits or has expired. No
  other record is touched.\<close>

theorem schedule_reserves_first:
  assumes quiet: "quiet_tasks cl" and p: "lookup (ss_store s) (rid r) = Some p" "rid p = rid r"
    and run: "cloud_tasks_schedule cfg cl clk u r s = (res, s')"
  shows "(\<forall>i. i \<noteq> rid r \<longrightarrow> lookup (ss_store s') i = lookup (ss_store s) i) \<and>
    (\<exists>ref. lookup (ss_store s') (rid r) = Some (p\<lparr>execution_ref := ref\<rparr>) \<and>
       (ref = execution_ref p \<or> ref = Some (delivery_name cfg p u)) \<and>
       (case res of
          Inl e \<Rightarrow> e = QueueDispatchError \<and> (\<exists>x \<in> {r, p}. ss_events s' = ss_events s @ [failure_event x SCHEDULE])
        | Inr out \<Rightarrow> ss_events s' = ss_events s \<and> attempt_settled cfg cl clk p ref out s'))"
proof (cases "is_waiting p")
  case False
  with run p have "res = Inr None" "s' = s" by (simp_all add: cloud_tasks_schedule_def svc_read_def op_simps get_task_def)
  with False p show ?thesis by (auto simp: attempt_settled_def intro!: exI [of _ "execution_ref p"])
next
  case True
  have p': "lookup (ss_store s) (rid p) = Some p" using p by simp
  obtain r1 s1 where sched: "schedule_delivery cfg cl clk u p s = (r1, s1)" by fastforce
  note facts = schedule_delivery_result [OF quiet p' True sched]
  from run p True have eq: "(res, s') = op_try (\<lambda>s. (r1, s1)) (\<lambda>e.
      if e = QueueDispatchError then op_raise e
      else op_bind (report_delivery_failure r SCHEDULE) (\<lambda>_. op_raise QueueDispatchError)) s"
    by (simp add: cloud_tasks_schedule_def svc_read_def op_simps get_task_def op_try_def sched)
  from facts(2) obtain ref where ref: "lookup (ss_store s1) (rid p) = Some (p\<lparr>execution_ref := ref\<rparr>)"
      "ref = execution_ref p \<or> ref = Some (delivery_name cfg p u)"
      "case r1 of Inl e \<Rightarrow> ss_events s1 = ss_events s @ (if e = QueueDispatchError then [failure_event p SCHEDULE] else [])
       | Inr out \<Rightarrow> ss_events s1 = ss_events s \<and> attempt_settled cfg cl clk p ref out s1" by blast
  have store: "ss_store s' = ss_store s1" and "case res of
      Inl e \<Rightarrow> e = QueueDispatchError \<and> (\<exists>x \<in> {r, p}. ss_events s' = ss_events s @ [failure_event x SCHEDULE])
    | Inr out \<Rightarrow> ss_events s' = ss_events s \<and> attempt_settled cfg cl clk p ref out s'"
    using eq ref(3)
    by (cases r1; simp add: op_try_def op_simps report_delivery_failure_def failure_event_def split: if_splits)+
  with ref facts(1) p(2) show ?thesis by (auto intro!: exI [of _ ref])
qed

section \<open>Repair\<close>

text \<open>The errors of the provider and its client library are not the dispatch error of the queue.\<close>

definition foreign_errors :: "tasks_client \<Rightarrow> bool" where
  "foreign_errors cl \<longleftrightarrow> (\<forall>s. fst (tc_connect cl s) \<noteq> Inl QueueDispatchError) \<and> (\<forall>x s. fst (tc_get cl x s) \<noteq> Inl QueueDispatchError)"

text \<open>What the provider says about the delivery of a record: silence about it is not its absence.\<close>

datatype holding = Held | Missing | Unknown

definition provider_answer :: "tasks_client \<Rightarrow> svc_state \<Rightarrow> task_record \<Rightarrow> holding" where
  "provider_answer cl s r =
     (case execution_ref r of
        None \<Rightarrow> Missing
      | Some x \<Rightarrow>
          (case (fst (tc_connect cl s), fst (tc_get cl x s)) of
             (Inr _, Inr _) \<Rightarrow> Held
           | (Inr _, Inl e) \<Rightarrow> if is_not_found e then Missing else Unknown
           | (Inl _, _) \<Rightarrow> Unknown))"

definition steady_tasks :: "tasks_client \<Rightarrow> bool" where
  "steady_tasks cl \<longleftrightarrow> (\<forall>s t. fst (tc_connect cl s) = fst (tc_connect cl t)) \<and> (\<forall>x s t. fst (tc_get cl x s) = fst (tc_get cl x t))"

lemma steady_answer:
  assumes "steady_tasks cl"
  shows "provider_answer cl s = provider_answer cl t"
proof
  fix r
  have "fst (tc_connect cl s) = fst (tc_connect cl t)" "fst (tc_get cl x s) = fst (tc_get cl x t)" for x
    using assms unfolding steady_tasks_def by blast+
  then show "provider_answer cl s r = provider_answer cl t r" by (simp only: provider_answer_def)
qed

text \<open>The record waits for this backend within the horizon and does not expire while its turn lasts.\<close>

definition live_turn :: "(nat \<Rightarrow> instant) \<Rightarrow> task_record \<Rightarrow> bool" where
  "live_turn clk r \<longleftrightarrow> (\<forall>n. same_attempt (clk n) r r (execution_ref r)) \<and> validate_schedulable (clk 1) r = Inr ()"

text \<open>The turn of a candidate \<open>r\<close>: what it returns, and the record it leaves.\<close>

definition repair_turn ::
    "cloud_tasks_config \<Rightarrow> tasks_client \<Rightarrow> (uuid \<Rightarrow> nat \<Rightarrow> instant) \<Rightarrow> (uuid \<Rightarrow> uuid) \<Rightarrow> holding \<Rightarrow> task_record \<Rightarrow>
     repair_outcome \<Rightarrow> task_record option \<Rightarrow> bool" where
  "repair_turn cfg cl clk fresh answer r outcome stored \<longleftrightarrow>
     (let name = delivery_name cfg r (fresh (rid r)); live = live_turn (clk (rid r)) r in
      (answer \<noteq> Missing \<longrightarrow> stored = Some r \<and> outcome \<noteq> Changed) \<and>
      (answer = Held \<and> live \<longrightarrow> outcome = Unchanged) \<and>
      (answer = Unknown \<and> live \<longrightarrow> outcome = RepairFailed) \<and>
      (answer = Missing \<longrightarrow> stored \<in> {Some r, Some (r\<lparr>execution_ref := Some name\<rparr>)}) \<and>
      (answer = Missing \<and> live \<longrightarrow> stored = Some (r\<lparr>execution_ref := Some name\<rparr>) \<and> outcome \<noteq> Unchanged) \<and>
      (outcome = Changed \<longrightarrow> stored = Some (r\<lparr>execution_ref := Some name\<rparr>) \<and>
         (\<exists>k s. delivered cfg cl (\<lambda>n. clk (rid r) (n + k)) r name s)))"

lemma delivery_exists_quiet:
  assumes "quiet_tasks cl"
  shows "delivery_exists cl x s = (fst (delivery_exists cl x s), s)"
  using assms
  by (simp add: delivery_exists_def quiet_tasks_bind op_try_def op_simps split: sum.split)

lemma delivery_exists_answer:
  assumes "quiet_tasks cl"
  shows "(case (fst (tc_connect cl s), fst (tc_get cl x s)) of
             (Inr _, Inr _) \<Rightarrow> Held
           | (Inr _, Inl e) \<Rightarrow> if is_not_found e then Missing else Unknown
           | (Inl _, _) \<Rightarrow> Unknown) =
    (case fst (delivery_exists cl x s) of Inl e \<Rightarrow> Unknown | Inr True \<Rightarrow> Held | Inr False \<Rightarrow> Missing)"
proof (cases "fst (tc_connect cl s)")
  case (Inl e)
  with assms show ?thesis by (simp add: delivery_exists_def quiet_tasks_bind)
next
  case (Inr u)
  with assms show ?thesis
    by (cases "fst (tc_get cl x s)") (simp_all add: delivery_exists_def quiet_tasks_bind op_try_def op_simps)
qed

lemma delivery_exists_foreign:
  assumes "quiet_tasks cl" "foreign_errors cl"
  shows "fst (delivery_exists cl x s) \<noteq> Inl QueueDispatchError"
proof (cases "fst (tc_connect cl s)")
  case (Inl e)
  with assms show ?thesis by (auto simp: delivery_exists_def quiet_tasks_bind foreign_errors_def)
next
  case (Inr u)
  with assms show ?thesis
    by (cases "fst (tc_get cl x s)")
      (auto simp: delivery_exists_def quiet_tasks_bind op_try_def op_simps foreign_errors_def split: if_splits)
qed

lemma repair_one_result:
  assumes quiet: "quiet_tasks cl" "foreign_errors cl" and r: "lookup (ss_store s) (rid r) = Some r"
  defines "answer \<equiv> provider_answer cl s r"
  shows "\<exists>outcome s'. cloud_tasks_repair_one cfg cl (clk (rid r)) (fresh (rid r)) r s = (Inr outcome, s') \<and>
    (\<forall>i. i \<noteq> rid r \<longrightarrow> lookup (ss_store s') i = lookup (ss_store s) i) \<and>
    repair_turn cfg cl clk fresh answer r outcome (lookup (ss_store s') (rid r)) \<and>
    ss_events s' = ss_events s @ (if outcome = RepairFailed then [failure_event r REPAIR] else [])"
proof -
  define c where "c = clk (rid r)"
  let ?name = "delivery_name cfg r (fresh (rid r))"
  let ?goal = "\<lambda>res s1. (case res of Inr outcome \<Rightarrow> outcome \<noteq> RepairFailed | Inl e \<Rightarrow> True) \<and>
    (\<forall>i. i \<noteq> rid r \<longrightarrow> lookup (ss_store s1) i = lookup (ss_store s) i) \<and>
    repair_turn cfg cl clk fresh answer r (case res of Inl e \<Rightarrow> RepairFailed | Inr x \<Rightarrow> x) (lookup (ss_store s1) (rid r)) \<and>
    ss_events s1 = ss_events s @ (if res = Inl QueueDispatchError then [failure_event r REPAIR] else [])"
  obtain res s1 where run: "repair_candidate cfg cl c (fresh (rid r)) r s = (res, s1)" by fastforce
  have goal: "?goal res s1"
  proof -
    have found: "svc_read (get_task (rid r)) s = (Inr (Some r), s)" by (simp add: svc_read_def get_task_def r)
    note turn = repair_turn_def Let_def live_turn_def c_def [symmetric]
    show ?thesis
    proof (cases "same_attempt (c 0) r r (execution_ref r)")
      case False
      with run found have "res = Inr Unchanged" "s1 = s" by (simp_all add: repair_candidate_def op_simps)
      with False r show ?thesis by (auto simp: turn)
    next
      case True
      then have r': "execution_backend r = CLOUD_TASKS_BACKEND" "is_waiting r" by (simp_all add: same_attempt_def)
      show ?thesis
      proof (cases "validate_schedulable (c 1) r")
        case (Inl e)
        then have "e = QueueConfigurationError" by (auto simp: validate_schedulable_def split: if_splits)
        with run found True Inl have "res = Inl QueueConfigurationError" "s1 = s"
          by (simp_all add: repair_candidate_def op_simps lift_bind)
        with r Inl show ?thesis by (auto simp: turn)
      next
        case (Inr u)
        let ?held = "case execution_ref r of None \<Rightarrow> op_return False | Some name \<Rightarrow> delivery_exists cl name"
        define h where "h = fst (?held s)"
        have held: "?held s = (h, s)"
          using delivery_exists_quiet [OF quiet(1)] by (auto simp: h_def op_return_def split: option.split)
        have answer: "answer = (case h of Inl e \<Rightarrow> Unknown | Inr True \<Rightarrow> Held | Inr False \<Rightarrow> Missing)"
          using delivery_exists_answer [OF quiet(1), where s = s]
          by (cases "execution_ref r") (auto simp: answer_def h_def provider_answer_def op_return_def)
        from run found True Inr have eq: "(res, s1) = (case h of Inl e \<Rightarrow> (Inl e, s) | Inr True \<Rightarrow> (Inr Unchanged, s)
            | Inr False \<Rightarrow> op_bind (reserve_delivery_name cfg (\<lambda>n. c (n + 2)) (fresh (rid r)) r) (\<lambda>name.
                case name of None \<Rightarrow> op_return Unchanged
                | Some x \<Rightarrow> op_bind (create_delivery cfg cl (\<lambda>n. c (n + 5)) REPAIR r x)
                    (\<lambda>delivery. op_return (if delivery \<noteq> None then Changed else Unchanged))) s)"
          by (auto simp: repair_candidate_def op_simps lift_bind op_bind_def [of ?held] held
              simp del: not_None_eq split: sum.split bool.split)
        show ?thesis
        proof (cases "h = Inr False")
          case False
          then consider e where "h = Inl e" | "h = Inr True" by (cases h) auto
          then show ?thesis
          proof cases
            case 1
            then have "e \<noteq> QueueDispatchError"
              using delivery_exists_foreign [OF quiet] by (auto simp: h_def op_return_def split: option.splits)
            with eq 1 r answer show ?thesis by (auto simp: turn)
          qed (use eq r answer in \<open>auto simp: turn\<close>)
        next
          case h: True
          then have missing: "answer = Missing" by (simp add: answer)
          obtain r1 s2 where reserve: "reserve_delivery_name cfg (\<lambda>n. c (n + 2)) (fresh (rid r)) r s = (r1, s2)" by fastforce
          note reserved = reserve_name_result [OF r this]
          have live: "same_attempt (c n) r r (execution_ref r) \<longleftrightarrow> \<not> is_expired (c n) r" for n
            using r' by (auto simp: same_attempt_def not_expired_def is_expired_def split: option.split)
          from eq h have eq: "(res, s1) = op_bind (reserve_delivery_name cfg (\<lambda>n. c (n + 2)) (fresh (rid r)) r) (\<lambda>name.
                case name of None \<Rightarrow> op_return Unchanged
                | Some x \<Rightarrow> op_bind (create_delivery cfg cl (\<lambda>n. c (n + 5)) REPAIR r x)
                    (\<lambda>delivery. op_return (if delivery \<noteq> None then Changed else Unchanged))) s" by (simp del: not_None_eq)
          note eq = eq [unfolded op_bind_def [of "reserve_delivery_name cfg (\<lambda>n. c (n + 2)) (fresh (rid r)) r"] reserve prod.case]
          from reserved(3) show ?thesis
          proof (elim disjE conjE)
            assume "lookup (ss_store s2) (rid r) = Some r" "r1 = Inr None" "is_waiting r \<longrightarrow> is_expired (c (0 + 2)) r"
            with eq reserved(1,2) r'(2) missing show ?thesis by (auto simp: op_return_def turn live)
          next
            assume "lookup (ss_store s2) (rid r) = Some (r\<lparr>execution_ref := Some ?name\<rparr>)" "r1 = Inr None"
              "\<not> same_attempt (c (1 + 2)) (r\<lparr>execution_ref := Some ?name\<rparr>) r (Some ?name)"
            with eq reserved(1,2) r' missing show ?thesis by (auto simp: op_return_def turn live same_attempt_updated)
          next
            assume "lookup (ss_store s2) (rid r) = Some (r\<lparr>execution_ref := Some ?name\<rparr>)" "r1 = Inl QueueConfigurationError"
            with eq reserved(1,2) missing show ?thesis by (auto simp: turn)
          next
            assume s2: "lookup (ss_store s2) (rid r) = Some (r\<lparr>execution_ref := Some ?name\<rparr>)" and r1: "r1 = Inr (Some ?name)"
            obtain r2 s3 where create: "create_delivery cfg cl (\<lambda>n. c (n + 5)) REPAIR r ?name s2 = (r2, s3)" by fastforce
            with eq r1 have "(res, s1) = (case r2 of Inl e \<Rightarrow> (Inl e, s3)
                | Inr delivery \<Rightarrow> (Inr (if delivery \<noteq> None then Changed else Unchanged), s3))"
              by (simp add: op_bind_def op_return_def split: sum.split)
            with create_delivery_settles [OF quiet(1) s2 r' delivery_name_current create] s2 reserved(1,2) r'(2) missing
            show ?thesis
              by (elim disjE exE) (auto simp: turn live attempt_settled_def split: option.splits)
          qed
        qed
      qed
    qed
  qed
  show ?thesis
  proof (cases res)
    case (Inr outcome)
    with run have "cloud_tasks_repair_one cfg cl c (fresh (rid r)) r s = (Inr outcome, s1)"
      by (simp add: cloud_tasks_repair_one_def op_try_def)
    with goal Inr show ?thesis by (auto simp: c_def)
  next
    case (Inl e)
    with run have "cloud_tasks_repair_one cfg cl c (fresh (rid r)) r s =
        (Inr RepairFailed, if e = QueueDispatchError then s1 else s1\<lparr>ss_events := ss_events s1 @ [failure_event r REPAIR]\<rparr>)"
      by (simp add: cloud_tasks_repair_one_def op_try_def op_simps report_delivery_failure_def failure_event_def)
    with goal Inl show ?thesis by (auto simp: c_def)
  qed
qed

lemma repair_all_result:
  assumes quiet: "quiet_tasks cl" "foreign_errors cl" and steady: "steady_tasks cl"
  shows "distinct (map rid rs) \<Longrightarrow> (\<And>r. r \<in> set rs \<Longrightarrow> lookup (ss_store s) (rid r) = Some r) \<Longrightarrow>
    \<exists>outcomes s'. repair_all cfg cl clk fresh rs s = (Inr outcomes, s') \<and>
      (\<forall>i. i \<notin> rid ` set rs \<longrightarrow> lookup (ss_store s') i = lookup (ss_store s) i) \<and>
      list_all2 (\<lambda>r outcome. repair_turn cfg cl clk fresh (provider_answer cl s0 r) r outcome (lookup (ss_store s') (rid r))) rs outcomes \<and>
      ss_events s' = ss_events s @ map (\<lambda>(r, outcome). failure_event r REPAIR)
        (filter (\<lambda>(r, outcome). outcome = RepairFailed) (zip rs outcomes))"
proof (induction rs arbitrary: s)
  case Nil
  then show ?case by (simp add: op_return_def)
next
  case (Cons r rs)
  obtain outcome s1 where one: "cloud_tasks_repair_one cfg cl (clk (rid r)) (fresh (rid r)) r s = (Inr outcome, s1)"
      "\<forall>i. i \<noteq> rid r \<longrightarrow> lookup (ss_store s1) i = lookup (ss_store s) i"
      "repair_turn cfg cl clk fresh (provider_answer cl s0 r) r outcome (lookup (ss_store s1) (rid r))"
      "ss_events s1 = ss_events s @ (if outcome = RepairFailed then [failure_event r REPAIR] else [])"
    using repair_one_result [where cfg = cfg and clk = clk and fresh = fresh, OF quiet Cons.prems(2) [of r]]
      steady_answer [OF steady, of s s0] by auto
  have rest: "lookup (ss_store s1) (rid q) = Some q" if "q \<in> set rs" for q
  proof -
    have "rid q \<in> rid ` set rs" using that by simp
    then have "rid q \<noteq> rid r" using Cons.prems(1) by auto
    with one(2) that Cons.prems(2) show ?thesis by simp
  qed
  have "distinct (map rid rs)" using Cons.prems(1) by simp
  from Cons.IH [OF this rest] obtain outcomes s' where all: "repair_all cfg cl clk fresh rs s1 = (Inr outcomes, s')"
      "\<forall>i. i \<notin> rid ` set rs \<longrightarrow> lookup (ss_store s') i = lookup (ss_store s1) i"
      "list_all2 (\<lambda>r outcome. repair_turn cfg cl clk fresh (provider_answer cl s0 r) r outcome (lookup (ss_store s') (rid r))) rs outcomes"
      "ss_events s' = ss_events s1 @ map (\<lambda>(r, outcome). failure_event r REPAIR)
        (filter (\<lambda>(r, outcome). outcome = RepairFailed) (zip rs outcomes))" by blast
  have "lookup (ss_store s') (rid r) = lookup (ss_store s1) (rid r)" using all(2) Cons.prems(1) by auto
  with one all show ?case
    by (intro exI [of _ "outcome # outcomes"] exI [of _ s']) (auto simp: op_bind_simps(2) op_simps)
qed

lemma stamp_rid [simp]: "rid (stamp_checked now r) = rid r"
  by (simp add: stamp_checked_def)

lemma fold_put_lookup:
  "distinct (map rid rs) \<Longrightarrow> r \<in> set rs \<Longrightarrow> lookup (fold put_record rs m) (rid r) = Some r"
proof (induction rs arbitrary: m rule: rev_induct)
  case (snoc q rs)
  have "rid r = rid q \<Longrightarrow> r = q" using snoc.prems by (auto simp: image_iff)
  then show ?case using snoc by (auto simp: put_record_def dict_simps)
qed simp

lemma repair_page_facts:
  assumes wf: "mem_wf m" and limit: "0 < limit"
    and page: "list_dispatch_repair_candidates eb limit now m = (Inr page, m')"
  shows "distinct (map rid (rc_records page))" "rc_examined page = length (rc_records page)"
    "int (rc_examined page) \<le> limit" "r \<in> set (rc_records page) \<Longrightarrow> lookup m' (rid r) = Some r"
proof -
  let ?rs = "take (nat limit) (sort_key repair_key
      (filter (\<lambda>r. execution_backend r = eb \<and> is_waiting r \<and> not_expired now r) (mem_values m)))"
  have p: "page = \<lparr>rc_records = map (stamp_checked now) ?rs, rc_examined = length ?rs,
      rc_limit_reached = (int (length ?rs) = limit)\<rparr>" "m' = fold put_record (map (stamp_checked now) ?rs) m"
    using page limit by (auto simp: list_dispatch_repair_candidates_def Let_def)
  define rs where "rs = ?rs"
  note p = p [folded rs_def]
  have "distinct (map rid rs)" unfolding rs_def using mem_wf_distinct_rids(2) [OF wf]
    by (intro distinct_map_take) (simp add: distinct_map_sort_key distinct_map_filter)
  then have ids: "distinct (map rid (map (stamp_checked now) rs))" by (simp add: o_def)
  then show "distinct (map rid (rc_records page))" using p(1) by simp
  have len: "length rs \<le> nat limit" by (simp add: rs_def)
  show "rc_examined page = length (rc_records page)" "int (rc_examined page) \<le> limit" using p(1) limit len by auto
  show "r \<in> set (rc_records page) \<Longrightarrow> lookup m' (rid r) = Some r"
    using fold_put_lookup [OF ids] p by simp
qed

text \<open>Property C25: repair with Cloud Tasks never raises. It examines at most \<open>limit\<close> records, the counts add up
  to those examined, and each failure is reported by exactly one event. With a client that answers
  steadily: a record whose delivery the provider holds, or about whose delivery it gives no answer, stays as it
  is, and no answer is a failure; a record whose delivery is missing gets a fresh delivery name, always when it
  stays live during its turn, and nothing else of it changes; it counts as changed only when its new delivery
  exists. All other records stay as the page of candidates left them.\<close>

theorem cloud_tasks_repair_contained:
  assumes quiet: "quiet_tasks cl" "foreign_errors cl" "steady_tasks cl" and wf: "mem_wf (ss_store s)" and limit: "0 < limit"
    and page: "list_dispatch_repair_candidates CLOUD_TASKS_BACKEND limit now (ss_store s) = (Inr page, m)"
  shows "\<exists>outcomes n s'. cloud_tasks_repair cfg cl clk fresh now limit s = (Inr n, s') \<and>
    dr_examined n = int (length (rc_records page)) \<and> dr_examined n \<le> limit \<and>
    dr_changed n + dr_failed n + dr_unchanged n = dr_examined n \<and>
    dr_failed n = int (length (filter (\<lambda>x. x = RepairFailed) outcomes)) \<and>
    (\<forall>i. i \<notin> rid ` set (rc_records page) \<longrightarrow> lookup (ss_store s') i = lookup m i) \<and>
    list_all2 (\<lambda>r outcome. repair_turn cfg cl clk fresh (provider_answer cl s r) r outcome (lookup (ss_store s') (rid r))) (rc_records page) outcomes \<and>
    ss_events s' = ss_events s @ map (\<lambda>(r, outcome). failure_event r REPAIR)
      (filter (\<lambda>(r, outcome). outcome = RepairFailed) (zip (rc_records page) outcomes))"
proof -
  note facts = repair_page_facts [OF wf limit page]
  let ?s = "s\<lparr>ss_store := m\<rparr>"
  have "lookup (ss_store ?s) (rid r) = Some r" if "r \<in> set (rc_records page)" for r
    using facts(4) [OF that] by simp
  from repair_all_result [OF quiet facts(1) this, where cfg = cfg and clk = clk and fresh = fresh and ?s0.0 = s]
  obtain outcomes s' where all: "repair_all cfg cl clk fresh (rc_records page) ?s = (Inr outcomes, s')"
      "\<forall>i. i \<notin> rid ` set (rc_records page) \<longrightarrow> lookup (ss_store s') i = lookup m i"
      "list_all2 (\<lambda>r outcome. repair_turn cfg cl clk fresh (provider_answer cl s r) r outcome (lookup (ss_store s') (rid r))) (rc_records page) outcomes"
      "ss_events s' = ss_events s @ map (\<lambda>(r, outcome). failure_event r REPAIR)
        (filter (\<lambda>(r, outcome). outcome = RepairFailed) (zip (rc_records page) outcomes))" by auto
  let ?n = "repaired (int (rc_examined page)) (rc_limit_reached page) outcomes"
  have run: "cloud_tasks_repair cfg cl clk fresh now limit s = (Inr ?n, s')"
    using limit all(1) by (simp add: cloud_tasks_repair_def op_bind_def svc_fallible_def page op_return_def)
  have "length outcomes = length (filter (\<lambda>x. x = Changed) outcomes) + length (filter (\<lambda>x. x = RepairFailed) outcomes)
      + length (filter (\<lambda>x. x = Unchanged) outcomes)" for outcomes
  proof (induction outcomes)
    case (Cons x xs)
    then show ?case by (cases x) simp_all
  qed simp
  from this [of outcomes] have sums: "dr_changed ?n + dr_failed ?n + dr_unchanged ?n = dr_examined ?n"
    by (simp add: repaired_def)
  show ?thesis
    by (rule exI [of _ outcomes], rule exI [of _ ?n], rule exI [of _ s'])
      (use run sums facts(2,3) all(2-4) in \<open>simp add: repaired_def\<close>)
qed

section \<open>Witnesses\<close>

definition ex_tasks :: tasks_client where
  "ex_tasks = \<lparr>tc_connect = op_return (), tc_create = (\<lambda>q. op_return ()),
     tc_get = (\<lambda>x. op_raise (ApiError ''NotFound'' (Some 404))), tc_delete = (\<lambda>x. op_return ())\<rparr>"

definition ex_queue :: cloud_tasks_config where
  "ex_queue = \<lparr>cc_queue_path = ''projects/p/locations/l/queues/q'', cc_delivery_name_prefix = None, cc_target_url = ''https://app'',
     cc_dispatch_deadline = 600, cc_service_account_email = ''a@b'', cc_audience = None\<rparr>"

definition ex_scheduled :: task_record where
  "ex_scheduled = ex_record\<lparr>execution_backend := CLOUD_TASKS_BACKEND, execution_profile := None, execution_ref := Some ''old''\<rparr>"

lemma ex_tasks_quiet: "quiet_tasks ex_tasks" "foreign_errors ex_tasks" "steady_tasks ex_tasks"
  by (simp_all add: quiet_tasks_def foreign_errors_def steady_tasks_def ex_tasks_def op_simps)

lemma ex_scheduled_fields: "rid ex_scheduled = 7" "retry_count ex_scheduled = 0" "is_waiting ex_scheduled"
  "not_expired t ex_scheduled" "execution_ref ex_scheduled = Some ''old''" "execution_backend ex_scheduled = CLOUD_TASKS_BACKEND"
  by (simp_all add: ex_scheduled_def ex_defs is_waiting_def not_expired_def)

lemma delivery_name_identifies_attempt_witness:
  "\<not> is_current_delivery_name (delivery_name ex_queue ex_scheduled 9) ex_queue (ex_scheduled\<lparr>retry_count := 1\<rparr>)"
  using delivery_name_identifies_attempt [of ex_scheduled "ex_scheduled\<lparr>retry_count := 1\<rparr>" ex_queue 9]
  by (simp add: ex_scheduled_fields)

lemma schedule_reserves_first_witness:
  "\<exists>s' ref. snd (cloud_tasks_schedule ex_queue ex_tasks (\<lambda>_. 105) 9 ex_scheduled (ex_svc (ex_state ex_scheduled))) = s' \<and>
    lookup (ss_store s') 7 = Some (ex_scheduled\<lparr>execution_ref := ref\<rparr>) \<and> ref \<in> {Some ''old'', Some (delivery_name ex_queue ex_scheduled 9)}"
proof -
  let ?s = "ex_svc (ex_state ex_scheduled)"
  obtain res s' where run: "cloud_tasks_schedule ex_queue ex_tasks (\<lambda>_. 105) 9 ex_scheduled ?s = (res, s')" by fastforce
  have "lookup (ss_store ?s) (rid ex_scheduled) = Some ex_scheduled" by (simp add: ex_svc_def ex_scheduled_fields)
  from schedule_reserves_first [OF ex_tasks_quiet(1) this refl run] show ?thesis
    using run by (auto simp: ex_scheduled_fields)
qed

lemma ex_scheduled_wf: "mem_wf (ex_state ex_scheduled)"
proof -
  have "ex_state ex_scheduled = snd (set_execution_ref 7 CLOUD_TASKS_BACKEND ''old'' None (ex_state ex_record))"
    by (simp add: set_execution_ref_def modify_if_def ex_scheduled_def)
  then show ?thesis using mem_wf_evolves [OF _ set_execution_ref_evolves] by (simp add: mem_reachable_wf)
qed

lemma cloud_tasks_repair_contained_witness:
  "\<exists>n s'. cloud_tasks_repair ex_queue ex_tasks (\<lambda>_ _. 105) (\<lambda>_. 9) 105 5 (ex_svc (ex_state ex_scheduled)) = (Inr n, s') \<and>
    dr_examined n = 1 \<and> map_option execution_ref (lookup (ss_store s') 7) = Some (Some (delivery_name ex_queue ex_scheduled 9))"
proof -
  let ?s = "ex_svc (ex_state ex_scheduled)"
  have wf: "mem_wf (ss_store ?s)" by (simp add: ex_svc_def ex_scheduled_wf)
  define r where "r = stamp_checked 105 ex_scheduled"
  obtain page m where page: "list_dispatch_repair_candidates CLOUD_TASKS_BACKEND 5 105 (ss_store ?s) = (Inr page, m)"
      "rc_records page = [r]"
    by (simp add: list_dispatch_repair_candidates_def Let_def ex_svc_def ex_scheduled_fields r_def)
  have r: "rid r = 7" "execution_ref r = Some ''old''" "live_turn (\<lambda>_. 105) r" "delivery_name ex_queue r 9 = delivery_name ex_queue ex_scheduled 9"
    using ex_scheduled_fields
    by (auto simp: r_def stamp_checked_def live_turn_def same_attempt_def validate_schedulable_def is_waiting_def not_expired_def
        delivery_name_def delivery_name_prefix_def ex_scheduled_def ex_defs)
  have missing: "provider_answer ex_tasks ?s r = Missing"
    by (simp add: provider_answer_def r(2) ex_tasks_def op_simps is_not_found_def)
  have "0 < (5 :: int)" by simp
  from cloud_tasks_repair_contained [OF ex_tasks_quiet wf this page(1), where cfg = ex_queue and clk = "\<lambda>_ _. 105" and fresh = "\<lambda>_. 9"]
  obtain outcome n s' where run: "cloud_tasks_repair ex_queue ex_tasks (\<lambda>_ _. 105) (\<lambda>_. 9) 105 5 ?s = (Inr n, s')"
      "dr_examined n = int (length [r])"
      "repair_turn ex_queue ex_tasks (\<lambda>_ _. 105) (\<lambda>_. 9) Missing r outcome (lookup (ss_store s') (rid r))"
    unfolding page(2) by (auto simp: list_all2_Cons1 missing)
  then have "lookup (ss_store s') 7 = Some (r\<lparr>execution_ref := Some (delivery_name ex_queue r 9)\<rparr>)"
    using r(1,3) by (simp add: repair_turn_def Let_def)
  with run(1,2) show ?thesis by (simp add: r(4))
qed

end
