(* ===== verification/Cloud_Run_Properties.thy ===== *)
theory Cloud_Run_Properties
  imports Cloud_Run Cloud_Tasks_Properties
begin

text \<open>
  What the Cloud Run backend guarantees: a dispatch never leaves a record stuck under its reservation,
  whatever happens to the record meanwhile; a lease runs out; reconciliation follows the provider and
  nothing else; repair contains its failures.
\<close>

section \<open>Dispatch\<close>

lemma reserve_open_result:
  assumes "lookup m i = Some p"
  shows "fst (reserve_external_dispatch i name ref profile None now t m) =
      (if dispatchable now t (retry_count p) p then Some (owned_by name profile ref p) else None)"
    and "lookup (snd (reserve_external_dispatch i name ref profile None now t m)) j =
      (if j \<noteq> i then lookup m j
       else Some (if dispatchable now t (retry_count p) p then owned_by name profile ref p
                  else if is_waiting p \<and> is_due t p \<and> execution_ref p = None then expire_record now p
                  else p))"
  using assms
  by (auto simp: reserve_external_dispatch_def dispatchable_def owned_by_def dict_simps Let_def)

lemma reserve_missing:
  "lookup m i = None \<Longrightarrow> reserve_external_dispatch i name ref profile n now t m = (None, m)"
  by (simp add: reserve_external_dispatch_def)

lemma release_lookup:
  "lookup (snd (release_external_dispatch i ref eb profile now m)) j = (case lookup m j of None \<Rightarrow> None
     | Some q \<Rightarrow> Some (if j = i \<and> execution_ref q = Some ref
                     then q\<lparr>execution_backend := eb, execution_profile := profile, execution_ref := None\<rparr> else q))"
  "fst (release_external_dispatch i ref eb profile now m) = (case lookup m i of None \<Rightarrow> None
     | Some q \<Rightarrow> if execution_ref q = Some ref
               then Some (q\<lparr>execution_backend := eb, execution_profile := profile, execution_ref := None\<rparr>) else None)"
  by (simp_all add: release_external_dispatch_def modify_if_lookup)

lemma finalize_lookup:
  "lookup (snd (finalize_external_dispatch i reservation eb ref profile m)) j = (case lookup m j of None \<Rightarrow> None
     | Some q \<Rightarrow> Some (if j = i \<and> execution_ref q = Some reservation \<and> is_waiting q
                     then q\<lparr>execution_backend := eb, execution_profile := profile, execution_ref := Some ref\<rparr> else q))"
  "fst (finalize_external_dispatch i reservation eb ref profile m) = (case lookup m i of None \<Rightarrow> None
     | Some q \<Rightarrow> if execution_ref q = Some reservation \<and> is_waiting q
               then Some (q\<lparr>execution_backend := eb, execution_profile := profile, execution_ref := Some ref\<rparr>) else None)"
  by (simp_all add: finalize_external_dispatch_def modify_if_lookup)

text \<open>Cancelling leaves the records alone; the names of executions are not the reservation.\<close>

definition quiet_cancel :: "run_client \<Rightarrow> bool" where
  "quiet_cancel cl \<longleftrightarrow> (\<forall>s. ss_store (snd (rk_connect_executions cl s)) = ss_store s) \<and>
     (\<forall>x s. ss_store (snd (rk_cancel_execution cl x s)) = ss_store s)"

definition names_other :: "run_client \<Rightarrow> string \<Rightarrow> bool" where
  "names_other cl x \<longleftrightarrow> (\<forall>q s v. fst (rk_run_job cl q s) = Inr v \<longrightarrow> execution_ref_from_value v \<noteq> Some x)"

lemma cancel_ref_store:
  assumes "quiet_cancel cl"
  shows "ss_store (snd (cancel_execution_ref show_exc cl ref s)) = ss_store s"
    "\<exists>out. fst (cancel_execution_ref show_exc cl ref s) = Inr out"
proof -
  have "ss_store (snd (rk_connect_executions cl s)) = ss_store s" "ss_store (snd (rk_cancel_execution cl x t)) = ss_store t" for x t
    using assms by (simp_all add: quiet_cancel_def)
  then show "ss_store (snd (cancel_execution_ref show_exc cl ref s)) = ss_store s"
    by (auto simp: cancel_execution_ref_def op_try_def op_bind_def op_return_def split: prod.splits sum.splits) (metis snd_conv)+
  show "\<exists>out. fst (cancel_execution_ref show_exc cl ref s) = Inr out"
    by (auto simp: cancel_execution_ref_def op_try_def op_bind_def op_return_def split: prod.splits sum.splits)
qed

lemma run_job_call_named:
  "names_other cl x \<Longrightarrow> run_job_call env cfg cl q s = (Inr ref, s') \<Longrightarrow> ref \<noteq> x"
  by (auto simp: run_job_call_def op_bind_def op_lift_def require_operation_execution_ref_def names_other_def
      split: prod.splits sum.splits option.splits) (metis fst_conv)+

lemma dispatch_failed_result:
  "dispatch_failed show_exc cfg r reservation now e s =
    (let s1 = snd (publish_dispatch_failure show_exc cfg r e s) in
     (case rc_fallback_execution_backend cfg of None \<Rightarrow> Inl e | Some b \<Rightarrow> Inr None,
      s1\<lparr>ss_store := snd (release_external_dispatch (rid r) reservation
          (case rc_fallback_execution_backend cfg of None \<Rightarrow> execution_backend r | Some b \<Rightarrow> b) (execution_profile r) now (ss_store s))\<rparr>))"
  by (simp add: dispatch_failed_def publish_dispatch_failure_def op_simps Let_def split: option.split)

text \<open>The part after the reservation.\<close>

lemma cloud_run_dispatch_reserved:
  assumes "reserve_external_dispatch (rid r) ''cloudrun'' (dispatch_reservation (clk 0) u) (execution_profile r) None
      (clk 1) (clk 2) (ss_store s) = (Some q, m)"
    and "run_job_call env cfg cl q (s\<lparr>ss_store := m\<rparr>) = (r1, s2)"
  shows "cloud_run_dispatch show_exc env cfg cl clk u r s =
     (case r1 of Inl e \<Rightarrow> dispatch_failed show_exc cfg r (dispatch_reservation (clk 0) u) (clk 3) e s2
      | Inr ref \<Rightarrow> finalize_dispatch show_exc cl r (dispatch_reservation (clk 0) u) ref s2)"
  using assms
  by (auto simp: cloud_run_dispatch_def Let_def svc_store_simp op_try_def op_bind_def op_return_def split: sum.splits prod.splits)

text \<open>Property C22: whatever happens to the record while the job is being started, a dispatch to Cloud Run leaves
  no waiting record under its reservation, so the record can be dispatched again; and the name of an
  execution is handed out only if the waiting record carries it. An execution that was started but whose reservation is gone is
  cancelled, and the dispatch raises.\<close>

theorem cloud_run_dispatch_unstuck:
  assumes cl: "quiet_cancel cl" "names_other cl reservation" and res: "reservation = dispatch_reservation (clk 0) u"
    and unheld: "\<And>q. lookup (ss_store s) (rid r) = Some q \<Longrightarrow> execution_ref q \<noteq> Some reservation"
    and run: "cloud_run_dispatch show_exc env cfg cl clk u r s = (out, s')"
  shows "(\<forall>q. lookup (ss_store s') (rid r) = Some q \<longrightarrow> \<not> (is_waiting q \<and> execution_ref q = Some reservation)) \<and>
    (\<forall>ref. out = Inr (Some ref) \<longrightarrow> (\<exists>q. lookup (ss_store s') (rid r) = Some q \<and> is_waiting q \<and>
       execution_backend q = ''cloudrun'' \<and> execution_ref q = Some ref)) \<and>
    (\<forall>q m s2 ref. reserve_external_dispatch (rid r) ''cloudrun'' reservation (execution_profile r) None (clk 1) (clk 2) (ss_store s) =
         (Some q, m) \<and> run_job_call env cfg cl q (s\<lparr>ss_store := m\<rparr>) = (Inr ref, s2) \<longrightarrow>
       out = Inr (Some ref) \<or> out = Inl RuntimeError \<and> (\<exists>t. s' = snd (cancel_execution_ref show_exc cl ref t)))"
proof -
  let ?reserve = "reserve_external_dispatch (rid r) ''cloudrun'' reservation (execution_profile r) None (clk 1) (clk 2) (ss_store s)"
  show ?thesis
  proof (cases "fst ?reserve")
    case None
    then have s': "s' = s\<lparr>ss_store := snd ?reserve\<rparr>" "out = Inr None"
      using run by (simp_all add: cloud_run_dispatch_def Let_def svc_store_simp op_simps res)
    have none: "?reserve \<noteq> (Some q, m)" for q m using None by (metis fst_conv option.distinct(1))
    have expired: "\<not> is_waiting (expire_record now p)" for now p by (simp add: is_waiting_def expire_record_def)
    show ?thesis
    proof (cases "lookup (ss_store s) (rid r)")
      case (Some p)
      with None unheld [OF this] expired none show ?thesis
        by (auto simp: s' reserve_open_result split: if_splits)
    qed (simp add: s' reserve_missing)
  next
    case (Some q)
    then obtain m where m: "?reserve = (Some q, m)" by (metis prod.collapse)
    obtain r1 s2 where call: "run_job_call env cfg cl q (s\<lparr>ss_store := m\<rparr>) = (r1, s2)" by fastforce
    note step = cloud_run_dispatch_reserved [OF m [unfolded res] call, folded res]
    have started: "r1 = Inr ref'" if "?reserve = (Some q', m')" "run_job_call env cfg cl q' (s\<lparr>ss_store := m'\<rparr>) = (Inr ref', s2')" for q' m' s2' ref'
      using that m call by simp
    show ?thesis
    proof (cases r1)
      case (Inl e)
      with started have never: "\<not> (?reserve = (Some q', m') \<and> run_job_call env cfg cl q' (s\<lparr>ss_store := m'\<rparr>) = (Inr ref', s2'))"
        for q' m' s2' ref' by (metis Inl_Inr_False)
      from Inl run step have "ss_store s' = snd (release_external_dispatch (rid r) reservation b (execution_profile r) (clk 3) (ss_store s2)) \<and>
          (\<forall>ref. out \<noteq> Inr (Some ref))"
        if "b = (case rc_fallback_execution_backend cfg of None \<Rightarrow> execution_backend r | Some b \<Rightarrow> b)" for b
        using that by (auto simp: dispatch_failed_result Let_def split: option.splits)
      note this [OF refl]
      then show ?thesis using never by (auto simp: release_lookup simp del: One_nat_def split: option.splits if_splits)
    next
      case (Inr ref)
      with call have other: "ref \<noteq> reservation" using run_job_call_named [OF cl(2)] by simp
      let ?final = "finalize_external_dispatch (rid r) reservation ''cloudrun'' ref (execution_profile r) (ss_store s2)"
      let ?s = "s2\<lparr>ss_store := snd ?final\<rparr>"
      have eq: "(out, s') = (case fst ?final of Some q \<Rightarrow> (Inr (Some ref), ?s)
          | None \<Rightarrow> (Inl RuntimeError, snd (cancel_execution_ref show_exc cl ref ?s)))"
        using run step Inr cancel_ref_store(2) [OF cl(1), of show_exc ref ?s]
        by (auto simp: finalize_dispatch_def svc_store_simp op_bind_def op_simps split: option.splits prod.splits)
      have "ss_store s' = snd ?final" using eq cancel_ref_store(1) [OF cl(1), of show_exc ref ?s] by (auto split: option.splits)
      moreover have "out = Inr (Some ref') \<or> out = Inl RuntimeError \<and> (\<exists>t. s' = snd (cancel_execution_ref show_exc cl ref' t))"
        if "?reserve = (Some q', m') \<and> run_job_call env cfg cl q' (s\<lparr>ss_store := m'\<rparr>) = (Inr ref', s2')" for q' m' s2' ref'
      proof -
        from that started Inr have "ref' = ref" by (metis sum.inject(2))
        with eq show ?thesis by (auto split: option.splits)
      qed
      ultimately show ?thesis using eq other by (auto simp: finalize_lookup is_waiting_def split: option.splits if_splits)
    qed
  qed
qed

text \<open>A client whose calls change nothing: nothing else runs meanwhile.\<close>

definition quiet_run :: "run_client \<Rightarrow> bool" where
  "quiet_run cl \<longleftrightarrow> (\<forall>s. snd (rk_connect_jobs cl s) = s) \<and> (\<forall>q s. snd (rk_run_job cl q s) = s) \<and>
     (\<forall>s. snd (rk_connect_executions cl s) = s) \<and> (\<forall>x s. snd (rk_get_execution cl x s) = s) \<and>
     (\<forall>x s. snd (rk_cancel_execution cl x s) = s)"

lemma run_job_call_quiet: "quiet_run cl \<Longrightarrow> snd (run_job_call env cfg cl q s) = s"
  by (auto simp: run_job_call_def quiet_run_def quiet_bind op_lift_def split: sum.split)

text \<open>Property C26: when nothing else runs meanwhile, a dispatch to Cloud Run either starts the job for the record
  it reserved and writes the name of the execution to it, or reports the failure by one event and gives
  the record back: to its own backend, raising the error, or to the configured fallback. A record that
  may not be dispatched is left alone, unless it is overdue, and so is every other record.\<close>

theorem cloud_run_dispatch_exact:
  assumes quiet: "quiet_run cl" and p: "lookup (ss_store s) (rid r) = Some p"
    and reserved: "reserved = owned_by ''cloudrun'' (execution_profile r) (dispatch_reservation (clk 0) u) p"
    and run: "cloud_run_dispatch show_exc env cfg cl clk u r s = (out, s')"
  shows "(\<forall>i. i \<noteq> rid r \<longrightarrow> lookup (ss_store s') i = lookup (ss_store s) i) \<and>
    (if dispatchable (clk 1) (clk 2) (retry_count p) p
     then \<exists>s1. case fst (run_job_call env cfg cl reserved s1) of
         Inr ref \<Rightarrow> out = Inr (Some ref) \<and> ss_events s' = ss_events s \<and>
           lookup (ss_store s') (rid r) = Some (owned_by ''cloudrun'' (execution_profile r) ref p)
       | Inl e \<Rightarrow> ss_events (snd (publish_dispatch_failure show_exc cfg r e s)) = ss_events s' \<and>
           (case rc_fallback_execution_backend cfg of
              None \<Rightarrow> out = Inl e \<and> lookup (ss_store s') (rid r) =
                Some (p\<lparr>execution_backend := execution_backend r, execution_profile := execution_profile r, execution_ref := None\<rparr>)
            | Some b \<Rightarrow> out = Inr None \<and> lookup (ss_store s') (rid r) =
                Some (p\<lparr>execution_backend := b, execution_profile := execution_profile r, execution_ref := None\<rparr>))
     else out = Inr None \<and> ss_events s' = ss_events s \<and> lookup (ss_store s') (rid r) \<in> {Some p, Some (expire_record (clk 1) p)})"
proof (cases "dispatchable (clk 1) (clk 2) (retry_count p) p")
  case False
  then have "fst (reserve_external_dispatch (rid r) ''cloudrun'' x (execution_profile r) None (clk 1) (clk 2) (ss_store s)) = None" for x
    using reserve_open_result(1) [OF p] by simp
  with run have "s' = s\<lparr>ss_store := snd (reserve_external_dispatch (rid r) ''cloudrun'' (dispatch_reservation (clk 0) u)
      (execution_profile r) None (clk 1) (clk 2) (ss_store s))\<rparr>" "out = Inr None"
    by (simp_all add: cloud_run_dispatch_def Let_def svc_store_simp op_simps)
  with False show ?thesis by (simp add: reserve_open_result(2) [OF p])
next
  case True
  obtain m where m: "reserve_external_dispatch (rid r) ''cloudrun'' (dispatch_reservation (clk 0) u) (execution_profile r) None
      (clk 1) (clk 2) (ss_store s) = (Some reserved, m)"
    using reserve_open_result(1) [OF p] True reserved by (simp only: prod_eq_iff fst_conv snd_conv if_True)
  let ?s = "s\<lparr>ss_store := m\<rparr>"
  have store: "lookup m i = (if i \<noteq> rid r then lookup (ss_store s) i else Some reserved)" for i
    using reserve_open_result(2) [OF p, of _ _ _ "clk 1" "clk 2" i, where name = "''cloudrun''" and profile = "execution_profile r"
        and ref = "dispatch_reservation (clk 0) u"] True reserved by (simp only: m snd_conv if_True)
  define r1 where "r1 = fst (run_job_call env cfg cl reserved ?s)"
  have call: "run_job_call env cfg cl reserved ?s = (r1, ?s)"
    using run_job_call_quiet [OF quiet, of env cfg reserved ?s] by (simp only: r1_def prod_eq_iff fst_conv snd_conv)
  note step = cloud_run_dispatch_reserved [OF m call, where show_exc = show_exc, unfolded run]
  show ?thesis
  proof (cases r1)
    case (Inl e)
    with step show ?thesis using True call reserved
      by (auto simp: dispatch_failed_result publish_dispatch_failure_def emit_def Let_def release_lookup store owned_by_def
          intro!: exI [of _ ?s] split: option.splits)
  next
    case (Inr ref)
    have "is_waiting reserved" using True reserved by (simp add: dispatchable_def is_waiting_def)
    with Inr step show ?thesis using True call reserved
      by (auto simp: finalize_dispatch_def svc_store_simp op_simps finalize_lookup store owned_by_def intro!: exI [of _ ?s] split: option.split)
  qed
qed

section \<open>Leases\<close>

text \<open>the lease of a reservation lasts its fifteen minutes, to the second, and not longer: the reference
  a dispatch wrote at one time counts as abandoned at another exactly when the whole second at which the
  lease ends has been reached.\<close>

theorem reservation_lease_ends:
  assumes float: "\<And>n. 0 \<le> n \<Longrightarrow> parse_float (py_str_int n) = Some (of_int n)" and start: "0 \<le> start"
  shows "dispatch_reservation_is_stale parse_float now (dispatch_reservation start u) \<longleftrightarrow>
    (start div SECOND + DISPATCH_RESERVATION_LEASE_SECONDS) * SECOND \<le> now"
proof -
  let ?n = "start div SECOND + DISPATCH_RESERVATION_LEASE_SECONDS"
  have n: "(start + DISPATCH_RESERVATION_LEASE_SECONDS * SECOND) div SECOND = ?n" "0 \<le> ?n"
    using start by (simp_all add: SECOND_def DISPATCH_RESERVATION_LEASE_SECONDS_def)
  have "dispatch_reservation start u = EXTERNAL_DISPATCH_RESERVATION_PREFIX @ py_str_int ?n @ CHR '':'' # uuid_str u"
    using n by (simp add: dispatch_reservation_def)
  moreover have "takeWhile (\<lambda>c. c \<noteq> CHR '':'') (py_str_int ?n @ CHR '':'' # uuid_str u) = py_str_int ?n"
    using py_str_int_no_colon [OF n(2)] by (simp add: takeWhile_append takeWhile_eq_all_conv)
  ultimately have "dispatch_reservation_is_stale parse_float now (dispatch_reservation start u) \<longleftrightarrow>
      (of_int ?n :: rat) \<le> of_int now / of_int SECOND"
    by (simp add: dispatch_reservation_is_stale_def Let_def starts_with_append float [OF n(2)])
  also have "\<dots> \<longleftrightarrow> (of_int (?n * SECOND) :: rat) \<le> of_int now"
    by (simp add: pos_le_divide_eq SECOND_def)
  finally show ?thesis by (simp only: of_int_le_iff)
qed

section \<open>Reconciliation\<close>

text \<open>What the answer of the provider about an execution amounts to.\<close>

datatype verdict = Unknown | Succeeded | WasCancelled | FailedWith string

definition verdict_of_error :: "py_error \<Rightarrow> verdict" where
  "verdict_of_error e = (if is_not_found_error e then FailedWith ''Cloud Run execution not found'' else Unknown)"

text \<open>
  As the fields of \<open>CloudRunExecutionStatus\<close> are documented: an execution failed when one of its tasks
  did, was cancelled when one was and none failed, and succeeded when some did and the others did neither.
\<close>

definition verdict_of_execution :: "provider_execution \<Rightarrow> verdict" where
  "verdict_of_execution x =
     (if pe_failed_count x > 0 then FailedWith (or_text (execution_error x) None ''Cloud Run execution failed'')
      else if pe_cancelled_count x > 0 then WasCancelled
      else if pe_succeeded_count x > 0 then Succeeded
      else Unknown)"


definition verdict :: "run_client \<Rightarrow> string \<Rightarrow> svc_state \<Rightarrow> verdict" where
  "verdict cl ref s =
     (case fst (rk_connect_executions cl s) of
        Inl e \<Rightarrow> verdict_of_error e
      | Inr u \<Rightarrow> (case fst (rk_get_execution cl ref s) of Inl e \<Rightarrow> verdict_of_error e | Inr x \<Rightarrow> verdict_of_execution x))"





text \<open>One succeeded task is enough for the code, although others of the same execution failed.\<close>

lemma partial_success_succeeds:
  assumes "rk_connect_executions cl s = (Inr (), s)" "rk_get_execution cl ref s = (Inr x, s)"
    and "pe_succeeded_count x > 0" "pe_failed_count x > 0"
  shows "\<exists>st. check_execution_status show_exc cl ref s = (Inr st, s) \<and> xs_succeeded st \<and> xs_failed st"
    and "verdict cl ref s = FailedWith (or_text (execution_error x) None ''Cloud Run execution failed'')"
  using assms
  by (simp_all add: check_execution_status_def op_try_def op_bind_def op_return_def Let_def verdict_def verdict_of_execution_def)

text \<open>
  A record that was read while it waited is failed without a fence after the status was awaited: when it
  finished meanwhile, its outcome is dropped and it waits again.
\<close>

lemma unfenced_failure_revives:
  assumes read: "is_waiting current" and now: "lookup (ss_store s) (rid current) = Some p" "rid p = rid current"
    and finished: "status p = Completed" "attempts_consumed p < max_retries p"
  shows "\<exists>q s'. settle_failed_execution st current t later s = (Inr (Some q), s') \<and>
    lookup (ss_store s') (rid current) = Some q \<and> is_waiting q"
proof -
  define e where "e = or_text (xs_error st) None ''Cloud Run execution failed''"
  define q where "q = fail_record e True None None t p"
  have q: "is_waiting q" "rid q = rid current"
    using finished(2) now(2) by (simp_all add: q_def fail_record_def is_waiting_def Let_def)
  have fence: "(if status current = Running then Some (retry_count current) else None) = None"
    using read by (auto simp: is_waiting_def)
  let ?first = "fail_task (rid current) e True None None None t (ss_store s)"
  have first: "fst ?first = Some q" "lookup (snd ?first) (rid current) = Some q"
    using now by (auto simp: fail_task_def modify_if_lookup attempt_fence_def q_def)
  let ?second = "set_execution_backend (rid q) (execution_backend q) (execution_profile q) later (snd ?first)"
  have second: "fst ?second = Some (q\<lparr>execution_ref := None\<rparr>)" "lookup (snd ?second) (rid current) = Some (q\<lparr>execution_ref := None\<rparr>)"
    using first q by (simp_all add: set_execution_backend_def modify_if_lookup)
  have "is_waiting (q\<lparr>execution_ref := None\<rparr>)" using q(1) by (simp add: is_waiting_def)
  then show ?thesis using first second q
    by (intro exI [of _ "q\<lparr>execution_ref := None\<rparr>"] exI [of _ "s\<lparr>ss_store := snd ?second\<rparr>"])
      (simp add: settle_failed_execution_def fence e_def [symmetric] svc_store_simp)
qed

text \<open>A configured variable of the same name hides the identifier of the record.\<close>

lemma extra_env_hides_record:
  "rc_extra_env cfg = [(TASK_ID_ENV, v)] \<Longrightarrow> dict_get (build_task_env cfg r) TASK_ID_ENV = Some v"
  by (simp add: build_task_env_def dict_update_def dict_simps)

section \<open>Repair\<close>

definition repairable :: "instant \<Rightarrow> task_record \<Rightarrow> bool" where
  "repairable now q \<longleftrightarrow> is_waiting q \<and> execution_ref q = None \<and> is_due now q"

definition keeps_wf :: "(task_record \<Rightarrow> 'a svc) \<Rightarrow> bool" where
  "keeps_wf d \<longleftrightarrow> (\<forall>q s. mem_wf (ss_store s) \<longrightarrow> mem_wf (ss_store (snd (d q s))))"

text \<open>Two dispatches that agree on repairable records; repair cannot tell them apart.\<close>

definition same_dispatch :: "instant \<Rightarrow> (task_record \<Rightarrow> string option svc) \<Rightarrow> (task_record \<Rightarrow> string option svc) \<Rightarrow> bool" where
  "same_dispatch now d d' \<longleftrightarrow> (\<forall>q. repairable now q \<longrightarrow> d q = d' q)"

lemma repair_candidate_contained:
  assumes d: "keeps_wf d" "same_dispatch now d d'" and wf: "mem_wf (ss_store s)"
  shows "\<exists>outcome s'. cloud_run_repair_candidate parse d now t later r s = (Inr outcome, s') \<and>
    cloud_run_repair_candidate parse d' now t later r s = (Inr outcome, s') \<and> mem_wf (ss_store s')"
proof -
  let ?turn = "\<lambda>d q. if execution_ref q \<noteq> None \<or> \<not> is_due now q then op_return Skipped
    else op_try (op_bind (d q) (\<lambda>ref. op_return (if ref \<noteq> None then Dispatched else Skipped))) (\<lambda>e. op_return DispatchFailed)"
  have turn: "\<exists>outcome s'. ?turn d q s1 = (Inr outcome, s') \<and> ?turn d' q s1 = (Inr outcome, s') \<and> mem_wf (ss_store s')"
    if "is_waiting q" "mem_wf (ss_store s1)" for q s1
  proof (cases "repairable now q")
    case True
    then have same: "d' q = d q" using d(2) by (simp add: same_dispatch_def)
    obtain x s2 where run: "d q s1 = (x, s2)" by fastforce
    have "mem_wf (ss_store s2)" using d(1) that(2) run by (metis keeps_wf_def snd_conv)
    with True same run show ?thesis by (cases x) (simp_all add: repairable_def op_try_def op_bind_def op_return_def)
  next
    case False
    with that show ?thesis by (auto simp: repairable_def op_return_def)
  qed
  show ?thesis
  proof (cases "lookup (ss_store s) (rid r)")
    case None
    with wf show ?thesis by (simp add: cloud_run_repair_candidate_def op_simps get_task_def)
  next
    case (Some p)
    have id: "rid p = rid r" using mem_wfD(2) [OF wf Some] .
    show ?thesis
    proof (cases "is_waiting p")
      case False
      with Some wf show ?thesis by (simp add: cloud_run_repair_candidate_def op_simps get_task_def)
    next
      case waits: True
      show ?thesis
      proof (cases "\<exists>ref. execution_ref p = Some ref \<and> starts_with EXTERNAL_DISPATCH_RESERVATION_PREFIX ref \<and>
          dispatch_reservation_is_stale parse t ref")
        case True
        then obtain ref where ref: "execution_ref p = Some ref" "starts_with EXTERNAL_DISPATCH_RESERVATION_PREFIX ref"
          "dispatch_reservation_is_stale parse t ref" by blast
        define release where "release = release_external_dispatch (rid p) ref (execution_backend p) (execution_profile p) later (ss_store s)"
        have released: "fst release = Some (p\<lparr>execution_ref := None\<rparr>)"
          using Some id ref(1) by (simp add: release_def release_lookup)
        have "mem_wf (snd release)" unfolding release_def by (rule mem_wf_evolves [OF wf release_external_evolves])
        then have wf1: "mem_wf (ss_store (s\<lparr>ss_store := snd release\<rparr>))" by simp
        have waits1: "is_waiting (p\<lparr>execution_ref := None\<rparr>)" using waits by (simp add: is_waiting_def)
        have step: "cloud_run_repair_candidate parse x now t later r s = ?turn x (p\<lparr>execution_ref := None\<rparr>) (s\<lparr>ss_store := snd release\<rparr>)" for x
          using Some waits ref released
          by (simp add: cloud_run_repair_candidate_def op_simps get_task_def svc_store_simp release_def [symmetric])
        show ?thesis unfolding step by (rule turn [OF waits1 wf1])
      next
        case False
        then have "(case execution_ref p of
             Some ref \<Rightarrow>
               if starts_with EXTERNAL_DISPATCH_RESERVATION_PREFIX ref \<and> dispatch_reservation_is_stale parse t ref
               then svc_store (release_external_dispatch (rid p) ref (execution_backend p) (execution_profile p) later)
               else op_return (Some p)
           | None \<Rightarrow> op_return (Some p)) = op_return (Some p)" by (auto split: option.split)
        then have step: "cloud_run_repair_candidate parse x now t later r s = ?turn x p s" for x
          using Some waits by (simp add: cloud_run_repair_candidate_def op_simps get_task_def)
        show ?thesis unfolding step by (rule turn [OF waits wf])
      qed
    qed
  qed
qed

lemma cloud_run_repair_all_contained:
  assumes d: "keeps_wf d" "same_dispatch now d d'"
  shows "mem_wf (ss_store s) \<Longrightarrow>
    \<exists>outcomes s'. cloud_run_repair_all parse d clk now rs s = (Inr outcomes, s') \<and>
      cloud_run_repair_all parse d' clk now rs s = (Inr outcomes, s') \<and> length outcomes = length rs"
proof (induction rs arbitrary: s)
  case Nil
  then show ?case by (simp add: op_return_def)
next
  case (Cons r rs)
  from repair_candidate_contained [OF d Cons.prems] obtain outcome s1 where one:
      "cloud_run_repair_candidate parse d now (clk (rid r) 0) (clk (rid r) 1) r s = (Inr outcome, s1)"
      "cloud_run_repair_candidate parse d' now (clk (rid r) 0) (clk (rid r) 1) r s = (Inr outcome, s1)"
      "mem_wf (ss_store s1)" by blast
  from Cons.IH [OF one(3)] obtain outcomes s2 where rest:
      "cloud_run_repair_all parse d clk now rs s1 = (Inr outcomes, s2)" "cloud_run_repair_all parse d' clk now rs s1 = (Inr outcomes, s2)"
      "length outcomes = length rs" by blast
  show ?case
    using rest(3) by (simp add: op_bind_def one(1,2) [unfolded One_nat_def] rest(1,2) op_return_def)
qed

text \<open>Property C27: repair with Cloud Run never raises, whatever its dispatches do; it examines at most \<open>limit\<close> records
  and accounts for each as dispatched, failed or unchanged. It dispatches only waiting records that are
  due and carry no reference, once an abandoned reservation has been given back: exchanging the
  dispatch on all other records changes nothing.\<close>

theorem cloud_run_repair_contained:
  assumes d: "keeps_wf d" and wf: "mem_wf (ss_store s)" and limit: "0 < limit" and on: "rc_schedules_on_enqueue cfg"
    and page: "list_dispatch_repair_candidates ''cloudrun'' limit listed (ss_store s) = (Inr page, m)"
  shows "\<exists>n s'. cloud_run_repair parse cfg d clk listed now limit s = (Inr n, s') \<and>
    dr_changed n + dr_failed n + dr_unchanged n = dr_examined n \<and> dr_examined n = int (length (rc_records page)) \<and>
    dr_examined n \<le> limit \<and>
    (\<forall>d'. same_dispatch now d d' \<longrightarrow> cloud_run_repair parse cfg d' clk listed now limit s = (Inr n, s'))"
proof -
  note facts = repair_page_facts [OF wf limit page]
  let ?s = "s\<lparr>ss_store := m\<rparr>"
  have wf1: "mem_wf (ss_store ?s)"
    using mem_wf_evolves [OF wf repair_candidates_evolves [OF wf, of "''cloudrun''" limit listed]] by (simp add: page)
  have self: "same_dispatch now d d" by (simp add: same_dispatch_def)
  from cloud_run_repair_all_contained [OF d self wf1] obtain outcomes s' where
    all: "cloud_run_repair_all parse d clk now (rc_records page) ?s = (Inr outcomes, s')" "length outcomes = length (rc_records page)" by blast
  have other: "cloud_run_repair_all parse d' clk now (rc_records page) ?s = (Inr outcomes, s')" if "same_dispatch now d d'" for d'
    using cloud_run_repair_all_contained [OF d that wf1, of parse clk "rc_records page"] all(1) by auto
  have "length xs = length (filter (\<lambda>x. x = Dispatched) xs) + length (filter (\<lambda>x. x = DispatchFailed) xs) +
      length (filter (\<lambda>x. x = Skipped) xs)" for xs
  proof (induction xs)
    case (Cons x xs)
    then show ?case by (cases x) simp_all
  qed simp
  from this [of outcomes] have sums: "int (length (rc_records page)) = int (length (filter (\<lambda>x. x = Dispatched) outcomes)) +
      int (length (filter (\<lambda>x. x = DispatchFailed) outcomes)) + int (length (filter (\<lambda>x. x = Skipped) outcomes))"
    using all(2) by linarith
  have step: "cloud_run_repair parse cfg x clk listed now limit s =
      op_bind (cloud_run_repair_all parse x clk now (rc_records page)) (\<lambda>outcomes. op_return
         \<lparr>dr_examined = int (rc_examined page), dr_changed = int (length (filter (\<lambda>x. x = Dispatched) outcomes)),
          dr_failed = int (length (filter (\<lambda>x. x = DispatchFailed) outcomes)),
          dr_unchanged = int (rc_examined page) - int (length outcomes) + int (length (filter (\<lambda>x. x = Skipped) outcomes)),
          dr_limit_reached = rc_limit_reached page\<rparr>) ?s" for x
    using limit on by (simp add: cloud_run_repair_def op_bind_def [of "svc_fallible f" for f] svc_fallible_def page)
  show ?thesis
    unfolding step by (auto simp: op_bind_def all other op_return_def facts(2) facts(3) [unfolded facts(2)] sums [symmetric])
qed

section \<open>Witnesses\<close>

definition ex_run :: run_client where
  "ex_run = \<lparr>rk_connect_jobs = op_return (), rk_run_job = (\<lambda>q. op_return (MappingMetadata (Some ''executions/1'') None)),
     rk_connect_executions = op_return (),
     rk_get_execution = (\<lambda>x. op_return \<lparr>pe_succeeded_count = 0, pe_failed_count = 1, pe_cancelled_count = 0,
       pe_condition_messages = [Some ''out of memory'']\<rparr>),
     rk_cancel_execution = (\<lambda>x. op_return ())\<rparr>"

definition ex_jobs :: cloud_run_config where
  "ex_jobs = \<lparr>rc_project_id = ''p'', rc_region = ''us-central1'', rc_job_name = Some ''job'', rc_profiles = [], rc_timeout = 300,
     rc_extra_env = [], rc_fallback_execution_backend = Some ''local'', rc_schedules_on_enqueue = True\<rparr>"

lemma ex_run_quiet: "quiet_run ex_run" "quiet_cancel ex_run" "x \<noteq> ''executions/1'' \<Longrightarrow> names_other ex_run x"
  by (simp_all add: quiet_run_def quiet_cancel_def names_other_def ex_run_def op_simps op_return_def)

lemma quiet_dispatch_keeps_wf:
  assumes "quiet_run cl"
  shows "keeps_wf (\<lambda>r. cloud_run_dispatch show_exc env cfg cl (clk (rid r)) (fresh (rid r)) r)"
  unfolding keeps_wf_def
proof (intro allI impI)
  fix r :: task_record and s :: svc_state
  assume wf: "mem_wf (ss_store s)"
  let ?ref = "dispatch_reservation (clk (rid r) 0) (fresh (rid r))"
  obtain x m where reserve: "reserve_external_dispatch (rid r) ''cloudrun'' ?ref (execution_profile r) None
      (clk (rid r) 1) (clk (rid r) 2) (ss_store s) = (x, m)" by fastforce
  have m: "mem_wf m" using mem_wf_evolves [OF wf reserve_external_evolves] reserve by (metis snd_conv)
  show "mem_wf (ss_store (snd (cloud_run_dispatch show_exc env cfg cl (clk (rid r)) (fresh (rid r)) r s)))"
  proof (cases x)
    case None
    with reserve m show ?thesis by (simp add: cloud_run_dispatch_def Let_def svc_store_simp op_simps)
  next
    case (Some q)
    let ?s = "s\<lparr>ss_store := m\<rparr>"
    define r1 where "r1 = fst (run_job_call env cfg cl q ?s)"
    have call: "run_job_call env cfg cl q ?s = (r1, ?s)"
      using run_job_call_quiet [OF assms, of env cfg q ?s] by (simp only: r1_def prod_eq_iff fst_conv snd_conv)
    note step = cloud_run_dispatch_reserved [OF reserve [unfolded Some] call, where show_exc = show_exc]
    show ?thesis
    proof (cases r1)
      case (Inl e)
      then show ?thesis using mem_wf_evolves [OF m release_external_evolves]
        by (simp add: step dispatch_failed_result Let_def)
    next
      case (Inr ref)
      let ?f = "finalize_external_dispatch (rid r) ?ref ''cloudrun'' ref (execution_profile r) m"
      have "quiet_cancel cl" using assms by (simp add: quiet_cancel_def quiet_run_def)
      note cancel = cancel_ref_store [OF this, of show_exc ref "?s\<lparr>ss_store := snd ?f\<rparr>"]
      have "ss_store (snd (finalize_dispatch show_exc cl r ?ref ref ?s)) = snd ?f"
        using cancel by (auto simp: finalize_dispatch_def svc_store_simp op_bind_def op_simps split: option.split prod.splits)
      with Inr show ?thesis using mem_wf_evolves [OF m finalize_external_evolves] by (simp add: step)
    qed
  qed
qed

lemma cloud_run_dispatch_unstuck_witness:
  "\<not> (\<exists>q. lookup (ss_store (snd (cloud_run_dispatch (\<lambda>e. ''x'') ex_env ex_jobs ex_run (\<lambda>_. 105) 9 ex_record (ex_svc (ex_state ex_record))))) 7 = Some q \<and>
     is_waiting q \<and> execution_ref q = Some (dispatch_reservation 105 9))"
proof -
  obtain out s' where run: "cloud_run_dispatch (\<lambda>e. ''x'') ex_env ex_jobs ex_run (\<lambda>_. 105) 9 ex_record (ex_svc (ex_state ex_record)) = (out, s')" by fastforce
  have "dispatch_reservation 105 9 \<noteq> ''executions/1''" by (simp add: dispatch_reservation_def EXTERNAL_DISPATCH_RESERVATION_PREFIX_def)
  note named = ex_run_quiet(3) [OF this]
  have free: "lookup (ss_store (ex_svc (ex_state ex_record))) (rid ex_record) = Some q \<Longrightarrow> execution_ref q \<noteq> Some (dispatch_reservation 105 9)" for q
    by (simp add: ex_svc_def ex_defs) auto
  have "rid ex_record = 7" by (simp add: ex_defs)
  with cloud_run_dispatch_unstuck [OF ex_run_quiet(2) named refl free run] run show ?thesis by simp
qed

lemma cloud_run_dispatch_exact_witness:
  "fst (cloud_run_dispatch (\<lambda>e. ''x'') ex_env ex_jobs ex_run (\<lambda>_. 105) 9 (ex_record\<lparr>task_name := ''gone''\<rparr>)
     (ex_svc (ex_state (ex_record\<lparr>task_name := ''gone''\<rparr>)))) \<in> {Inr None, Inr (Some ''executions/1'')}"
proof -
  let ?r = "ex_record\<lparr>task_name := ''gone''\<rparr>"
  obtain out s' where run: "cloud_run_dispatch (\<lambda>e. ''x'') ex_env ex_jobs ex_run (\<lambda>_. 105) 9 ?r (ex_svc (ex_state ?r)) = (out, s')" by fastforce
  have "lookup (ss_store (ex_svc (ex_state ?r))) (rid ?r) = Some ?r" by (simp add: ex_svc_def ex_defs)
  note exact = cloud_run_dispatch_exact [OF ex_run_quiet(1) this refl run]
  have name: "ref = ''executions/1''" if "fst (run_job_call ex_env ex_jobs ex_run q s) = Inr ref" for q s ref
    using that by (auto simp: run_job_call_def op_bind_def op_lift_def ex_run_def op_return_def require_operation_execution_ref_def split: sum.splits)
  have fallback: "rc_fallback_execution_backend ex_jobs = Some ''local''" by (simp add: ex_jobs_def)
  have "dispatchable 105 105 (retry_count ?r) ?r"
    by (simp add: dispatchable_def ex_defs is_waiting_def is_due_def is_expired_def)
  note exact [THEN conjunct2, unfolded if_P [OF this]]
  then have "out \<in> {Inr None, Inr (Some ''executions/1'')}"
  proof (elim exE, goal_cases)
    case (1 s1)
    then show ?case
      by (cases "fst (run_job_call ex_env ex_jobs ex_run (owned_by ''cloudrun'' (execution_profile ?r) (dispatch_reservation 105 9) ?r) s1)")
        (use name fallback in simp_all)
  qed
  with run show ?thesis by simp
qed

lemma reservation_lease_ends_witness:
  "dispatch_reservation_is_stale (\<lambda>x. map_option of_int (py_int_of_str x)) 901000000 (dispatch_reservation 1500000 9) \<and>
   \<not> dispatch_reservation_is_stale (\<lambda>x. map_option of_int (py_int_of_str x)) 900999999 (dispatch_reservation 1500000 9)"
proof -
  have "0 \<le> n \<Longrightarrow> map_option (of_int :: int \<Rightarrow> rat) (py_int_of_str (py_str_int n)) = Some (of_int n)" for n
    by (simp add: py_str_int_round_trip)
  from reservation_lease_ends [of "\<lambda>x. map_option of_int (py_int_of_str x)" 1500000, OF this] show ?thesis
    by (simp add: SECOND_def DISPATCH_RESERVATION_LEASE_SECONDS_def)
qed

definition ex_launched :: task_record where
  "ex_launched = ex_record\<lparr>execution_backend := ''cloudrun'', execution_profile := None, execution_ref := Some ''executions/1''\<rparr>"


lemma cloud_run_repair_contained_witness:
  "\<exists>n s'. cloud_run_repair (\<lambda>x. None) ex_jobs (\<lambda>r. cloud_run_dispatch (\<lambda>e. ''x'') ex_env ex_jobs ex_run (\<lambda>_. 105) 9 r)
      (\<lambda>_ _. 105) 105 105 5 (ex_svc (ex_state ex_launched)) = (Inr n, s') \<and> dr_examined n = 1"
proof -
  let ?s = "ex_svc (ex_state ex_launched)"
  have "ex_state ex_launched = snd (set_execution_ref 7 ''cloudrun'' ''executions/1'' None (ex_state ex_record))"
    by (simp add: set_execution_ref_def modify_if_def ex_launched_def)
  then have "mem_wf (ex_state ex_launched)" using mem_wf_evolves [OF _ set_execution_ref_evolves] by (simp add: mem_reachable_wf)
  then have wf: "mem_wf (ss_store ?s)" by (simp add: ex_svc_def)
  obtain page m where page: "list_dispatch_repair_candidates ''cloudrun'' 5 105 (ss_store ?s) = (Inr page, m)" "length (rc_records page) = 1"
    by (simp add: list_dispatch_repair_candidates_def Let_def ex_svc_def ex_launched_def ex_defs is_waiting_def not_expired_def)
  note keeps = quiet_dispatch_keeps_wf [OF ex_run_quiet(1), of "\<lambda>e. ''x''" ex_env ex_jobs "\<lambda>_ _. 105" "\<lambda>_. 9"]
  have "0 < (5 :: int)" "rc_schedules_on_enqueue ex_jobs" by (simp_all add: ex_jobs_def)
  from cloud_run_repair_contained [OF keeps wf this page(1)] page(2) show ?thesis by fastforce
qed

end
