(* ===== verification/Iso_Time.thy ===== *)
theory Iso_Time
  imports Brokers
begin

text \<open>
  The text \<open>value.astimezone(UTC).isoformat()\<close> the SQLite backend stores and compares its times as: the proleptic
  Gregorian date as \<open>datetime\<close> computes it from a day number, and the proof that the order of the texts
  is the order of the times.
\<close>

section \<open>Dates\<close>

definition days_before_year :: "int \<Rightarrow> int" where
  "days_before_year y = (let p = y - 1 in p * 365 + p div 4 - p div 100 + p div 400)"

definition leap_year :: "int \<Rightarrow> bool" where
  "leap_year y \<longleftrightarrow> y mod 4 = 0 \<and> (y mod 100 \<noteq> 0 \<or> y mod 400 = 0)"

text \<open>The year of a day number (0 is the first of January of year 1) and the day within it, from 0.\<close>

definition year_day :: "int \<Rightarrow> int \<times> int" where
  "year_day n =
     (let n400 = n div 146097; a = n mod 146097; n100 = a div 36524; b = a mod 36524;
          n4 = b div 1461; c = b mod 1461; n1 = c div 365; d = c mod 365;
          y = n400 * 400 + n100 * 100 + n4 * 4 + n1 + 1
      in if n1 = 4 \<or> n100 = 4 then (y - 1, 365) else (y, d))"

definition DAYS_BEFORE_MONTH :: "int list" where
  "DAYS_BEFORE_MONTH = [0, 31, 59, 90, 120, 151, 181, 212, 243, 273, 304, 334]"

definition before_month :: "bool \<Rightarrow> int \<Rightarrow> int" where
  "before_month leap m = DAYS_BEFORE_MONTH ! nat (m - 1) + (if m > 2 \<and> leap then 1 else 0)"

text \<open>Month and day of a day within the year: \<open>(d + 50) >> 5\<close> is the month or the one after it.\<close>

definition month_day :: "bool \<Rightarrow> int \<Rightarrow> int \<times> int" where
  "month_day leap d =
     (let m = (d + 50) div 32; m' = (if before_month leap m > d then m - 1 else m)
      in (m', d - before_month leap m' + 1))"

section \<open>Texts\<close>

fun dec_digits :: "nat \<Rightarrow> nat \<Rightarrow> string" where
  "dec_digits 0 n = []"
| "dec_digits (Suc w) n = dec_digits w (n div 10) @ [digit_char (n mod 10)]"

text \<open>1970-01-01 is day 719162.\<close>

definition DAY_OF_EPOCH :: int where
  "DAY_OF_EPOCH = 719162"

definition date_text :: "int \<Rightarrow> string" where
  "date_text n =
     (let (y, d) = year_day n; (m, day) = month_day (leap_year y) d
      in dec_digits 4 (nat y) @ ''-'' @ dec_digits 2 (nat m) @ ''-'' @ dec_digits 2 (nat day))"

definition time_text :: "int \<Rightarrow> string" where
  "time_text us =
     (let s = us div 1000000; f = us mod 1000000
      in dec_digits 2 (nat (s div 3600)) @ '':'' @ dec_digits 2 (nat (s div 60 mod 60)) @ '':'' @ dec_digits 2 (nat (s mod 60)) @
         (if f = 0 then [] else ''.'' @ dec_digits 6 (nat f)) @ ''+00:00'')"

definition iso_text :: "instant \<Rightarrow> string" where
  "iso_text t = date_text (t div DAY + DAY_OF_EPOCH) @ ''T'' @ time_text (t mod DAY)"

text \<open>The range of \<open>datetime\<close>: the years 1 to 9999.\<close>

definition datetime_range :: "instant \<Rightarrow> bool" where
  "datetime_range t \<longleftrightarrow> 0 \<le> t div DAY + DAY_OF_EPOCH \<and> t div DAY + DAY_OF_EPOCH < days_before_year 10000"

section \<open>The order of the texts\<close>

lemma digit_char_less: "m < 10 \<Longrightarrow> n < 10 \<Longrightarrow> digit_char m < digit_char n \<longleftrightarrow> m < n"
  by (auto simp: less_char_def)

lemma digit_char_inj: "m < 10 \<Longrightarrow> n < 10 \<Longrightarrow> digit_char m = digit_char n \<longleftrightarrow> m = n"
  using digit_char_less [of m n] digit_char_less [of n m] by (metis less_irrefl nat_neq_iff)

lemma length_dec_digits: "length (dec_digits w n) = w"
  by (induction w arbitrary: n) simp_all

lemma dec_digits_order:
  "(dec_digits w a < dec_digits w b \<longleftrightarrow> a mod 10 ^ w < b mod 10 ^ w) \<and>
   (dec_digits w a = dec_digits w b \<longleftrightarrow> a mod 10 ^ w = b mod 10 ^ w)"
proof (induction w arbitrary: a b)
  case (Suc w)
  have pow: "(10::nat) ^ Suc w = 10 ^ w * 10" by simp
  show ?case
    unfolding dec_digits.simps pow
    by (simp add: lex_append_same_length length_dec_digits digit_char_less digit_char_inj Suc.IH mod_pow_split del: digit_char.simps)
qed simp

lemma dec_digits_less:
  assumes "0 \<le> a" "a < 10 ^ w" "0 \<le> b" "b < 10 ^ w"
  shows "dec_digits w (nat a) @ p < dec_digits w (nat b) @ q \<longleftrightarrow> a < b \<or> a = b \<and> p < q"
proof -
  have "nat a < 10 ^ w" "nat b < 10 ^ w" using assms by (simp_all add: nat_less_iff)
  then show ?thesis using dec_digits_order [of w "nat a" "nat b"] assms
    by (auto simp: lex_append_same_length length_dec_digits)
qed

subsection \<open>Years\<close>

lemma div_step:
  fixes y k :: int
  assumes "0 < k"
  shows "y div k = (y - 1) div k + (if y mod k = 0 then 1 else 0)"
proof -
  define q r where "q = y div k" and "r = y mod k"
  have y: "y = k * q + r" "0 \<le> r" "r < k" using assms by (simp_all add: q_def r_def)
  have "(y - 1) div k = (if r = 0 then q - 1 else q)"
  proof (cases "r = 0")
    case True
    with y have "y - 1 = k * (q - 1) + (k - 1)" by (simp add: algebra_simps)
    then have "(y - 1) div k = q - 1" by (rule int_div_pos_eq) (use assms in simp_all)
    with True show ?thesis by simp
  next
    case False
    have "y - 1 = k * q + (r - 1)" using y by simp
    then have "(y - 1) div k = q" by (rule int_div_pos_eq) (use y False in simp_all)
    with False show ?thesis by simp
  qed
  then show ?thesis by (simp add: q_def r_def)
qed

lemma div_lex:
  fixes a b k :: int
  assumes "0 < k"
  shows "a < b \<longleftrightarrow> a div k < b div k \<or> a div k = b div k \<and> a mod k < b mod k"
proof -
  have parts: "a = k * (a div k) + a mod k" "b = k * (b div k) + b mod k" by simp_all
  have le: "x < y \<Longrightarrow> x div k \<le> y div k" for x y using assms by (simp add: zdiv_mono1)
  show ?thesis
  proof (cases "a div k = b div k")
    case True
    then show ?thesis using parts by (metis add_less_cancel_left less_irrefl)
  next
    case False
    then show ?thesis using le [of a b] le [of b a] by (metis antisym_conv3 less_le not_less)
  qed
qed

lemma nested_conditions:
  "(Q \<Longrightarrow> P) \<Longrightarrow> (R \<Longrightarrow> Q) \<Longrightarrow>
    (if P then 1 else 0) - (if Q then 1 else 0) + (if R then 1 else 0) = (if P \<and> (\<not> Q \<or> R) then 1 else (0 :: int))"
  by (cases P; cases Q; cases R) simp_all

lemma year_length: "days_before_year (y + 1) = days_before_year y + (if leap_year y then 366 else 365)"
proof -
  have four: "y mod 100 = 0 \<Longrightarrow> y mod 4 = 0" "y mod 400 = 0 \<Longrightarrow> y mod 100 = 0" by presburger+
  have after: "days_before_year (y + 1) = y * 365 + y div 4 - y div 100 + y div 400"
    and before: "days_before_year y = (y - 1) * 365 + (y - 1) div 4 - (y - 1) div 100 + (y - 1) div 400"
    by (simp_all only: days_before_year_def Let_def add_diff_cancel_right')
  have step: "y div k - (y - 1) div k = (if y mod k = 0 then 1 else 0)" if "0 < k" for k :: int
    using div_step [OF that, of y] by linarith
  have "(y div 4 - (y - 1) div 4) - (y div 100 - (y - 1) div 100) + (y div 400 - (y - 1) div 400) = (if leap_year y then 1 else 0)"
    unfolding leap_year_def using nested_conditions [OF four] by (simp only: step zero_less_numeral)
  moreover have "days_before_year (y + 1) = days_before_year y + 365 +
      ((y div 4 - (y - 1) div 4) - (y div 100 - (y - 1) div 100) + (y div 400 - (y - 1) div 400))"
    unfolding after before by algebra
  ultimately show ?thesis by (simp only: split: if_split) simp
qed

lemma days_before_year_mono: "y \<le> y' \<Longrightarrow> days_before_year y \<le> days_before_year y'"
proof (induction y' rule: int_ge_induct)
  case (step y')
  then show ?case using year_length [of y'] by (simp split: if_splits)
qed simp

lemma year_day_bounds:
  assumes n: "0 \<le> n" and yd: "year_day n = (y, d)"
  shows "n = days_before_year y + d" "0 \<le> d" "d < (if leap_year y then 366 else 365)" "1 \<le> y"
proof -
  define n400 a where "n400 = n div 146097" and "a = n mod 146097"
  define n100 b where "n100 = a div 36524" and "b = a mod 36524"
  define n4 c where "n4 = b div 1461" and "c = b mod 1461"
  define n1 e where "n1 = c div 365" and "e = c mod 365"
  have eqs: "n = 146097 * n400 + a" "a = 36524 * n100 + b" "b = 1461 * n4 + c" "c = 365 * n1 + e"
    by (simp_all add: n400_def a_def n100_def b_def n4_def c_def n1_def e_def)
  have ranges: "0 \<le> n400" "0 \<le> a" "a < 146097" "0 \<le> b" "b < 36524" "0 \<le> c" "c < 1461" "0 \<le> e" "e < 365"
    using n by (simp_all add: n400_def a_def b_def c_def e_def pos_imp_zdiv_nonneg_iff)
  have lower: "0 \<le> n100" "0 \<le> n4" "0 \<le> n1"
    using ranges by (simp_all add: n100_def n4_def n1_def pos_imp_zdiv_nonneg_iff)
  have upper: "n100 \<le> 4" "n4 \<le> 24" "n1 \<le> 4" using eqs ranges lower by linarith+
  have yd': "year_day n = (if n1 = 4 \<or> n100 = 4 then (n400 * 400 + n100 * 100 + n4 * 4 + n1, 365)
      else (n400 * 400 + n100 * 100 + n4 * 4 + n1 + 1, e))"
    by (simp add: year_day_def Let_def n400_def a_def n100_def b_def n4_def c_def n1_def e_def)
  have before: "days_before_year (n400 * 400 + h * 100 + q * 4 + k + 1) = 146097 * n400 + 36524 * h + 1461 * q + 365 * k"
    if "0 \<le> h" "h \<le> 3" "0 \<le> q" "q \<le> 24" "0 \<le> k" "k \<le> 3" for h q k
  proof -
    let ?p = "n400 * 400 + h * 100 + q * 4 + k"
    have "?p = 4 * (100 * n400 + 25 * h + q) + k" "?p = 100 * (4 * n400 + h) + (4 * q + k)" "?p = 400 * n400 + (100 * h + 4 * q + k)"
      by simp_all
    moreover have "(4 * x + k) div 4 = x" for x using that by simp
    moreover have "(100 * x + (4 * q + k)) div 100 = x" for x using that by simp
    moreover have "(400 * x + (100 * h + 4 * q + k)) div 400 = x" for x using that by simp
    ultimately have "?p div 4 = 100 * n400 + 25 * h + q" "?p div 100 = 4 * n400 + h" "?p div 400 = n400" by metis+
    then show ?thesis by (simp add: days_before_year_def Let_def)
  qed
  have "n = days_before_year y + d \<and> 0 \<le> d \<and> d < (if leap_year y then 366 else 365) \<and> 1 \<le> y"
  proof (cases "n100 = 4")
    case True
    then have z: "b = 0" "n4 = 0" "c = 0" "n1 = 0" "a = 146096" using eqs ranges lower by linarith+
    have y: "y = n400 * 400 + 3 * 100 + 24 * 4 + 3 + 1" "d = 365" using yd yd' True z by simp_all
    have "days_before_year y = 146097 * n400 + 36524 * 3 + 1461 * 24 + 365 * 3" unfolding y by (rule before) simp_all
    moreover have "leap_year y"
    proof -
      have "y = 400 * (n400 + 1)" "y = 4 * (100 * (n400 + 1))" using y by simp_all
      then have "y mod 400 = 0" "y mod 4 = 0" by (metis mod_mult_self1_is_0)+
      then show ?thesis by (simp add: leap_year_def)
    qed
    ultimately show ?thesis using eqs(1) z y ranges by simp
  next
    case h: False
    then have h3: "n100 \<le> 3" using upper by simp
    show ?thesis
    proof (cases "n1 = 4")
      case True
      then have z: "e = 0" "c = 1460" using eqs ranges by linarith+
      then have q: "n4 \<le> 23" using eqs ranges upper by linarith
      have y: "y = n400 * 400 + n100 * 100 + n4 * 4 + 3 + 1" "d = 365" using yd yd' True by simp_all
      have "days_before_year y = 146097 * n400 + 36524 * n100 + 1461 * n4 + 365 * 3" unfolding y(1) using lower upper h3 by (intro before) simp_all
      moreover have "y mod 4 = 0" "y mod 100 \<noteq> 0"
      proof -
        have "y = 4 * (100 * n400 + 25 * n100 + n4 + 1)" "y = 100 * (4 * n400 + n100) + (4 * n4 + 4)" using y by simp_all
        then show "y mod 4 = 0" by simp
        have "(100 * z + w) mod 100 = w" if "0 \<le> w" "w < 100" for z w :: int using that by simp
        then have "(100 * (4 * n400 + n100) + (4 * n4 + 4)) mod 100 = 4 * n4 + 4" using q lower by (simp only:)
        with \<open>y = 100 * (4 * n400 + n100) + (4 * n4 + 4)\<close> have "y mod 100 = 4 * n4 + 4" by (simp only:)
        with lower show "y mod 100 \<noteq> 0" by simp
      qed
      ultimately show ?thesis using eqs z y ranges lower True by (simp add: leap_year_def)
    next
      case False
      then have k: "n1 \<le> 3" using upper by simp
      have y: "y = n400 * 400 + n100 * 100 + n4 * 4 + n1 + 1" "d = e" using yd yd' False h by simp_all
      have "days_before_year y = 146097 * n400 + 36524 * n100 + 1461 * n4 + 365 * n1" unfolding y(1) using lower upper h3 k by (intro before)
      with eqs y ranges lower show ?thesis by simp
    qed
  qed
  then show "n = days_before_year y + d" "0 \<le> d" "d < (if leap_year y then 366 else 365)" "1 \<le> y" by simp_all
qed

lemma year_day_less:
  assumes "0 \<le> n" "n < n'" "year_day n = (y, d)" "year_day n' = (y', d')"
  shows "y < y' \<or> y = y' \<and> d < d'"
proof (rule ccontr)
  note one = year_day_bounds [OF assms(1,3)]
  have "0 \<le> n'" using assms by simp
  note two = year_day_bounds [OF this assms(4)]
  assume no: "\<not> (y < y' \<or> y = y' \<and> d < d')"
  show False
  proof (cases "y = y'")
    case True
    with no one two assms(2) show ?thesis by simp
  next
    case False
    with no have "y' + 1 \<le> y" by simp
    from days_before_year_mono [OF this] year_length [of y'] one two assms(2) show ?thesis by (simp split: if_splits)
  qed
qed

subsection \<open>Months\<close>

definition month_day_code :: "bool \<Rightarrow> int \<Rightarrow> int" where
  "month_day_code leap d = (let (m, day) = month_day leap d in m * 32 + day)"

lemma month_day_table:
  "list_all (\<lambda>leap. list_all (\<lambda>d. case month_day leap d of (m, day) \<Rightarrow> 1 \<le> m \<and> m \<le> 12 \<and> 1 \<le> day \<and> day \<le> 31)
     [0..(if leap then 365 else 364)]) [False, True]"
  "list_all (\<lambda>leap. list_all (\<lambda>d. month_day_code leap d < month_day_code leap (d + 1)) [0..(if leap then 364 else 363)]) [False, True]"
  by code_simp+

lemma month_day_bounds:
  assumes "0 \<le> d" "d < (if leap then 366 else 365)" "month_day leap d = (m, day)"
  shows "1 \<le> m" "m \<le> 12" "1 \<le> day" "day \<le> 31"
proof -
  have "d \<in> set [0..(if leap then 365 else 364)]" using assms by (cases leap) simp_all
  then have "case month_day leap d of (m, day) \<Rightarrow> 1 \<le> m \<and> m \<le> 12 \<and> 1 \<le> day \<and> day \<le> 31"
    using month_day_table(1) by (cases leap) (auto simp: list_all_iff)
  with assms(3) show "1 \<le> m" "m \<le> 12" "1 \<le> day" "day \<le> 31" by simp_all
qed

lemma month_day_less:
  assumes d: "0 \<le> d" "d < d'" "d' < (if leap then 366 else 365)" and md: "month_day leap d = (m, day)" "month_day leap d' = (m', day')"
  shows "m < m' \<or> m = m' \<and> day < day'"
proof -
  have step': "month_day_code leap x < month_day_code leap (x + 1)" if "0 \<le> x" "x + 1 < (if leap then 366 else 365)" for x
  proof -
    have "x \<in> set [0..(if leap then 364 else 363)]" using that by (simp split: if_splits)
    then show ?thesis using month_day_table(2) by (cases leap) (auto simp: list_all_iff)
  qed
  from d(2) have "d' < (if leap then 366 else 365) \<longrightarrow> month_day_code leap d < month_day_code leap d'"
  proof (induction d' rule: int_gr_induct)
    case base
    then show ?case using step' [of d] d(1) by simp
  next
    case (step x)
    then show ?case using step' [of x] d(1) by (auto intro: less_trans split: if_splits)
  qed
  then have "m * 32 + day < m' * 32 + day'" using md d(3) by (simp add: month_day_code_def)
  then show ?thesis using month_day_bounds [OF _ _ md(1)] month_day_bounds [OF _ _ md(2)] d by auto
qed

subsection \<open>Texts\<close>

lemma dec_digits_less_same: "0 \<le> a \<Longrightarrow> a < 10 ^ w \<Longrightarrow> 0 \<le> b \<Longrightarrow> b < 10 ^ w \<Longrightarrow> a < b \<Longrightarrow> dec_digits w (nat a) @ p < dec_digits w (nat b) @ q"
  by (simp add: dec_digits_less)

lemma length_date_text: "length (date_text n) = 10"
  by (simp add: date_text_def length_dec_digits split: prod.split)

lemma date_text_less:
  assumes "0 \<le> n" "n < n'" "n' < days_before_year 10000"
  shows "date_text n @ p < date_text n' @ q"
proof -
  obtain y d y' d' where yd: "year_day n = (y, d)" "year_day n' = (y', d')" by fastforce
  obtain m day m' day' where md: "month_day (leap_year y) d = (m, day)" "month_day (leap_year y') d' = (m', day')" by fastforce
  have n': "0 \<le> n'" using assms by simp
  note one = year_day_bounds [OF assms(1) yd(1)] and two = year_day_bounds [OF n' yd(2)]
  note mone = month_day_bounds [OF one(2,3) md(1)] and mtwo = month_day_bounds [OF two(2,3) md(2)]
  have upper: "x < 10000" if "days_before_year x \<le> n'" for x
    using days_before_year_mono [of 10000 x] that assms(3) by (cases "x < 10000") simp_all
  have years: "y < 10000" "y' < 10000" using upper one two assms(2) by simp_all
  have dates: "y < y' \<or> y = y' \<and> (m < m' \<or> m = m' \<and> day < day')"
    using year_day_less [OF assms(1,2) yd] month_day_less [OF one(2) _ _ md(1), of d' m' day'] two md(2) by auto
  show ?thesis
    using dates one(4) two(4) years mone mtwo
    by (auto simp: date_text_def yd md dec_digits_less)
qed

lemma clock_text_less:
  assumes "0 \<le> h" "h < 100" "0 \<le> m" "m < 60" "0 \<le> c" "c < 60" "0 \<le> h'" "h' < 100" "0 \<le> m'" "m' < 60" "0 \<le> c'" "c' < 60"
    and "h < h' \<or> h = h' \<and> (m < m' \<or> m = m' \<and> (c < c' \<or> c = c' \<and> x < x'))"
  shows "dec_digits 2 (nat h) @ '':'' @ dec_digits 2 (nat m) @ '':'' @ dec_digits 2 (nat c) @ x
    < dec_digits 2 (nat h') @ '':'' @ dec_digits 2 (nat m') @ '':'' @ dec_digits 2 (nat c') @ x'"
  using assms by (auto simp: dec_digits_less)

lemma time_text_less:
  assumes "0 \<le> u" "u < u'" "u' < DAY"
  shows "time_text u < time_text u'"
proof -
  define s f s' f' where "s = u div 1000000" "f = u mod 1000000" "s' = u' div 1000000" "f' = u' mod 1000000"
  have u: "u = 1000000 * s + f" "u' = 1000000 * s' + f'" by (simp_all add: s_f_s'_f'_def)
  have f: "0 \<le> f" "f < 1000000" "0 \<le> f'" "f' < 1000000" by (simp_all add: s_f_s'_f'_def)
  have "0 \<le> s" "0 \<le> s'" using assms by (simp_all add: s_f_s'_f'_def pos_imp_zdiv_nonneg_iff)
  with u f assms have s: "0 \<le> s" "s < 86400" "0 \<le> s'" "s' < 86400" "s < s' \<or> s = s' \<and> f < f'" by (auto simp: DAY_def)
  have parts: "x = 3600 * (x div 3600) + 60 * (x div 60 mod 60) + x mod 60" "0 \<le> x div 3600" "x div 3600 < 100"
     "0 \<le> x div 60 mod 60" "x div 60 mod 60 < 60" "0 \<le> x mod 60" "x mod 60 < 60" if "0 \<le> x" "x < 86400" for x :: int
  proof -
    have "x div 3600 = x div 60 div 60" by (simp add: zdiv_zmult2_eq)
    moreover have "60 * (x div 60) + x mod 60 = x" "60 * (x div 60 div 60) + x div 60 mod 60 = x div 60" by (rule mult_div_mod_eq)+
    ultimately show "x = 3600 * (x div 3600) + 60 * (x div 60 mod 60) + x mod 60" by linarith
    show "0 \<le> x div 3600" "x div 3600 < 100" "0 \<le> x div 60 mod 60" "x div 60 mod 60 < 60" "0 \<le> x mod 60" "x mod 60 < 60"
      using that by (simp_all add: pos_imp_zdiv_nonneg_iff)
  qed
  have fraction: "(if f = 0 then [] else ''.'' @ dec_digits 6 (nat f)) @ ''+00:00'' < (if f' = 0 then [] else ''.'' @ dec_digits 6 (nat f')) @ ''+00:00''"
    if "f < f'"
  proof (cases "f = 0")
    case True
    with that show ?thesis by (simp add: less_char_def)
  next
    case False
    with that f show ?thesis by (simp add: dec_digits_less)
  qed
  note A = parts [OF s(1,2)] and B = parts [OF s(3,4)]
  have hours: "x div 60 div 60 = x div 3600" for x :: int by (simp add: zdiv_zmult2_eq)
  have "x = y \<Longrightarrow> x div k = y div k \<and> x mod k = y mod k" for x y k :: int by simp
  with s(5) have "s div 3600 < s' div 3600 \<or> s div 3600 = s' div 3600 \<and>
     (s div 60 mod 60 < s' div 60 mod 60 \<or> s div 60 mod 60 = s' div 60 mod 60 \<and>
       (s mod 60 < s' mod 60 \<or> s mod 60 = s' mod 60 \<and> f < f'))"
    using div_lex [of 60 s s'] div_lex [of 60 "s div 60" "s' div 60"] hours by (metis zero_less_numeral)
  note order = this
  show ?thesis
    unfolding time_text_def Let_def s_f_s'_f'_def [symmetric]
    by (rule clock_text_less [OF A(2-7) B(2-7)]) (use order fraction in blast)
qed

lemma iso_text_compare:
  assumes "datetime_range t" "datetime_range t'"
  shows "iso_text t < iso_text t' \<longleftrightarrow> t < t'" and "iso_text t = iso_text t' \<longleftrightarrow> t = t'"
proof -
  have less: "iso_text a < iso_text b" if "a < b" "datetime_range a" "datetime_range b" for a b
  proof -
    have ab: "a = DAY * (a div DAY) + a mod DAY" "b = DAY * (b div DAY) + b mod DAY" by simp_all
    have r: "0 \<le> a mod DAY" "a mod DAY < DAY" "0 \<le> b mod DAY" "b mod DAY < DAY" by (simp_all add: DAY_def)
    have "a div DAY \<le> b div DAY" using that(1) by (intro zdiv_mono1) (simp_all add: DAY_def)
    moreover have "a mod DAY < b mod DAY" if "a div DAY = b div DAY" using ab that \<open>a < b\<close> by (metis add_less_cancel_left)
    ultimately consider "a div DAY < b div DAY" | "a div DAY = b div DAY" "a mod DAY < b mod DAY" by fastforce
    then show ?thesis
    proof cases
      case 1
      then show ?thesis using that(2,3) by (simp add: iso_text_def date_text_less datetime_range_def)
    next
      case 2
      then show ?thesis using r time_text_less [of "a mod DAY" "b mod DAY"] by (simp add: iso_text_def lex_append_same_length)
    qed
  qed
  show "iso_text t < iso_text t' \<longleftrightarrow> t < t'" "iso_text t = iso_text t' \<longleftrightarrow> t = t'"
    using less [of t t'] less [of t' t] assms by (cases t t' rule: linorder_cases; force)+
qed

text \<open>the texts in which the SQLite backend stores and compares times are ordered as the times are,
  for all times \<open>datetime\<close> can represent: whole seconds are written without a fraction, and still sort
  before the fractions of the same second.\<close>

theorem iso_text_order:
  assumes "datetime_range t" "datetime_range t'"
  shows "(iso_text t < iso_text t' \<longleftrightarrow> t < t') \<and> (iso_text t = iso_text t' \<longleftrightarrow> t = t')"
  using iso_text_compare [OF assms] by blast

lemma iso_text_order_witness: "iso_text 1000000 < iso_text 1000001"
proof -
  have "datetime_range 1000000" "datetime_range 1000001"
    by (simp_all add: datetime_range_def DAY_def DAY_OF_EPOCH_def days_before_year_def Let_def)
  from iso_text_order [OF this] show ?thesis by simp
qed

end
