(* ===== verification/Ephemeral_Codec.thy ===== *)
theory Ephemeral_Codec
  imports Iso_Time
begin

text \<open>
  The payloads of the SQLite backend (\<open>backends/ephemeral/codec.py\<close>). The JSON serializer and
  \<open>datetime.fromisoformat\<close> are parameters; a byte string is a list of characters. The code checks the
  version, the presence of every field and the types it needs to take a payload apart; it hands the other
  values to the record unchecked, and here one of a type the record cannot hold is a \<open>TypeError\<close>.
\<close>

section \<open>Payloads\<close>

record json_codec =
  jc_encode :: "pyval \<Rightarrow> string option"
  jc_decode :: "string \<Rightarrow> pyval option"
  jc_datetime :: "string \<Rightarrow> instant option"

definition MAGIC :: string where
  "MAGIC = ''LQEP'' @ [CHR 0x03]"

definition SCHEMA_VERSION :: int where
  "SCHEMA_VERSION = 5"

definition encode_payload :: "json_codec \<Rightarrow> pyval \<Rightarrow> string result" where
  "encode_payload jc v = (case jc_encode jc v of None \<Rightarrow> Inl QueueConfigurationError | Some b \<Rightarrow> Inr (MAGIC @ b))"

definition decode_payload :: "json_codec \<Rightarrow> string \<Rightarrow> dict result" where
  "decode_payload jc b =
     (if \<not> starts_with MAGIC b then Inl EphemeralDatabaseError
      else (case jc_decode jc (drop (length MAGIC) b) of
              Some (PDict d) \<Rightarrow> Inr d
            | _ \<Rightarrow> Inl EphemeralDatabaseError))"

definition parse_stored_datetime :: "json_codec \<Rightarrow> pyval \<Rightarrow> instant option result" where
  "parse_stored_datetime jc v =
     (case v of
        PNone \<Rightarrow> Inr None
      | PStr s \<Rightarrow> (case jc_datetime jc s of None \<Rightarrow> Inl EphemeralDatabaseError | Some t \<Rightarrow> Inr (Some t))
      | _ \<Rightarrow> Inl EphemeralDatabaseError)"

section \<open>Records\<close>

definition opt_str :: "string option \<Rightarrow> pyval" where
  "opt_str x = (case x of None \<Rightarrow> PNone | Some s \<Rightarrow> PStr s)"

definition opt_iso :: "instant option \<Rightarrow> pyval" where
  "opt_iso x = (case x of None \<Rightarrow> PNone | Some t \<Rightarrow> PStr (iso_text t))"

definition record_datetimes :: "task_record \<Rightarrow> (string \<times> instant option) list" where
  "record_datetimes r =
     [(''scheduled_at'', scheduled_at r), (''expires_at'', expires_at r), (''created_at'', Some (created_at r)),
      (''queued_at'', Some (queued_at r)), (''started_at'', started_at r), (''completed_at'', completed_at r),
      (''heartbeat_at'', heartbeat_at r), (''dispatch_checked_at'', dispatch_checked_at r)]"

definition record_mapping :: "task_record \<Rightarrow> dict" where
  "record_mapping r =
     [(''schema_version'', PInt SCHEMA_VERSION), (''task_name'', PStr (task_name r)), (''id'', PStr (uuid_str (rid r))),
      (''args'', PList (args r)), (''kwargs'', PDict (kwargs r)), (''queue'', PStr (queue r)),
      (''execution_backend'', PStr (execution_backend r)), (''execution_profile'', opt_str (execution_profile r)),
      (''execution_ref'', opt_str (execution_ref r)), (''worker_id'', opt_str (worker_id r)),
      (''status'', PStr (status_name (status r))), (''priority'', PInt (priority r)), (''max_retries'', PInt (max_retries r)),
      (''retry_count'', PInt (retry_count r)), (''result'', task_result r), (''error'', opt_str (error r)),
      (''key'', opt_str (key r)), (''metadata'', PDict (metadata r))] @
     map (\<lambda>(name, t). (name, opt_iso t)) (record_datetimes r)"

definition record_to_payload :: "json_codec \<Rightarrow> task_record \<Rightarrow> string result" where
  "record_to_payload jc r = encode_payload jc (PDict (record_mapping r))"

definition RECORD_FIELDS :: "string list" where
  "RECORD_FIELDS =
     [''task_name'', ''id'', ''args'', ''kwargs'', ''queue'', ''execution_backend'', ''execution_profile'', ''execution_ref'',
      ''worker_id'', ''status'', ''priority'', ''max_retries'', ''retry_count'', ''scheduled_at'', ''expires_at'', ''created_at'',
      ''queued_at'', ''started_at'', ''completed_at'', ''heartbeat_at'', ''dispatch_checked_at'', ''result'', ''error'', ''key'',
      ''metadata'']"

text \<open>
  The records of the model are typed. The code takes a field over as it is, whatever its type, except for the
  identifier, the containers and the times; a payload with a field of another type, which no backend
  writes, is outside the model and reads as \<open>TypeError\<close> here.
\<close>

definition read_str :: "pyval \<Rightarrow> string result" where
  "read_str v = (case v of PStr s \<Rightarrow> Inr s | _ \<Rightarrow> Inl TypeError)"

definition read_opt_str :: "pyval \<Rightarrow> string option result" where
  "read_opt_str v = (case v of PNone \<Rightarrow> Inr None | PStr s \<Rightarrow> Inr (Some s) | _ \<Rightarrow> Inl TypeError)"

definition read_int :: "pyval \<Rightarrow> int result" where
  "read_int v = (case v of PInt n \<Rightarrow> Inr n | _ \<Rightarrow> Inl TypeError)"

definition read_status :: "pyval \<Rightarrow> task_status result" where
  "read_status v =
     (case find (\<lambda>st. v = PStr (status_name st)) [Pending, Scheduled, Running, Completed, Failed, Cancelled, Expired] of
        None \<Rightarrow> Inl TypeError | Some st \<Rightarrow> Inr st)"

definition read_required :: "instant option \<Rightarrow> instant result" where
  "read_required t = (case t of None \<Rightarrow> Inl TypeError | Some u \<Rightarrow> Inr u)"

text \<open>\<open>UUID(str(decoded["id"]))\<close>: of the values of JSON only texts and long numbers can be identifiers.\<close>

definition read_uuid :: "pyval \<Rightarrow> uuid result" where
  "read_uuid v =
     (case (case v of PStr s \<Rightarrow> uuid_parse s | PInt n \<Rightarrow> uuid_parse (py_str_int n) | _ \<Rightarrow> None) of
        None \<Rightarrow> Inl EphemeralDatabaseError | Some i \<Rightarrow> Inr i)"

definition read_containers :: "dict \<Rightarrow> (pyval list \<times> dict \<times> dict) result" where
  "read_containers d =
     (case (get_or_none d ''args'', get_or_none d ''kwargs'', get_or_none d ''metadata'') of
        (PList a, PDict k, PDict m) \<Rightarrow> Inr (a, k, m)
      | _ \<Rightarrow> Inl EphemeralDatabaseError)"

definition read_datetime :: "json_codec \<Rightarrow> dict \<Rightarrow> string \<Rightarrow> instant option result" where
  "read_datetime jc d name = parse_stored_datetime jc (get_or_none d name)"

definition build_record :: "json_codec \<Rightarrow> dict \<Rightarrow> uuid \<Rightarrow> pyval list \<Rightarrow> dict \<Rightarrow> dict \<Rightarrow> task_record result" where
  "build_record jc d i a k m =
     bind_result (read_str (get_or_none d ''task_name'')) (\<lambda>name.
     bind_result (read_str (get_or_none d ''queue'')) (\<lambda>q.
     bind_result (read_str (get_or_none d ''execution_backend'')) (\<lambda>eb.
     bind_result (read_opt_str (get_or_none d ''execution_profile'')) (\<lambda>profile.
     bind_result (read_opt_str (get_or_none d ''execution_ref'')) (\<lambda>ref.
     bind_result (read_opt_str (get_or_none d ''worker_id'')) (\<lambda>w.
     bind_result (read_status (get_or_none d ''status'')) (\<lambda>st.
     bind_result (read_int (get_or_none d ''priority'')) (\<lambda>p.
     bind_result (read_int (get_or_none d ''max_retries'')) (\<lambda>mr.
     bind_result (read_int (get_or_none d ''retry_count'')) (\<lambda>rc.
     bind_result (read_opt_str (get_or_none d ''error'')) (\<lambda>err.
     bind_result (read_opt_str (get_or_none d ''key'')) (\<lambda>k'.
     bind_result (read_datetime jc d ''scheduled_at'') (\<lambda>sched.
     bind_result (read_datetime jc d ''expires_at'') (\<lambda>expires.
     bind_result (read_datetime jc d ''created_at'') (\<lambda>created.
     bind_result (read_datetime jc d ''queued_at'') (\<lambda>queued.
     bind_result (read_datetime jc d ''started_at'') (\<lambda>started.
     bind_result (read_datetime jc d ''completed_at'') (\<lambda>completed.
     bind_result (read_datetime jc d ''heartbeat_at'') (\<lambda>beat.
     bind_result (read_datetime jc d ''dispatch_checked_at'') (\<lambda>checked.
     bind_result (read_required created) (\<lambda>created'.
     bind_result (read_required queued) (\<lambda>queued'.
       Inr \<lparr>task_name = name, rid = i, args = a, kwargs = k, queue = q, execution_backend = eb,
            execution_profile = profile, execution_ref = ref, worker_id = w, status = st, priority = p,
            max_retries = mr, retry_count = rc, scheduled_at = sched, expires_at = expires, created_at = created',
            queued_at = queued', started_at = started, completed_at = completed, heartbeat_at = beat,
            task_result = get_or_none d ''result'', error = err, key = k', metadata = m,
            dispatch_checked_at = checked\<rparr>))))))))))))))))))))))"

definition record_from_payload :: "json_codec \<Rightarrow> string \<Rightarrow> task_record result" where
  "record_from_payload jc b =
     bind_result (decode_payload jc b) (\<lambda>d.
       if \<not> py_eq (get_or_none d ''schema_version'') (PInt SCHEMA_VERSION) then Inl EphemeralDatabaseError
       else if \<exists>name \<in> set RECORD_FIELDS. dict_get d name = None then Inl EphemeralDatabaseError
       else bind_result (read_uuid (get_or_none d ''id'')) (\<lambda>i.
            bind_result (read_containers d) (\<lambda>(a, k, m). build_record jc d i a k m)))"

section \<open>What the serializer must provide\<close>

text \<open>
  The documented behaviour of the serializer and of \<open>datetime\<close>, for the values of one record: what is written is
  read back. It fails for values that are not JSON. The other two conditions are those of the Python
  types: a UUID has 128 bits, a \<open>datetime\<close> lies in the years 1 to 9999.
\<close>

definition codec_keeps :: "json_codec \<Rightarrow> task_record \<Rightarrow> bool" where
  "codec_keeps jc r \<longleftrightarrow>
     (case jc_encode jc (PDict (record_mapping r)) of
        None \<Rightarrow> False | Some b \<Rightarrow> jc_decode jc b = Some (PDict (record_mapping r))) \<and>
     list_all (\<lambda>(name, t). case t of None \<Rightarrow> True | Some u \<Rightarrow> jc_datetime jc (iso_text u) = Some u) (record_datetimes r)"

definition in_range :: "task_record \<Rightarrow> bool" where
  "in_range r \<longleftrightarrow> rid r < 16 ^ 32 \<and>
     list_all (\<lambda>(name, t). case t of None \<Rightarrow> True | Some u \<Rightarrow> datetime_range u) (record_datetimes r)"

definition storable :: "json_codec \<Rightarrow> task_record \<Rightarrow> bool" where
  "storable jc r \<longleftrightarrow> codec_keeps jc r \<and> in_range r"

lemma read_written [simp]:
  "read_str (PStr s) = Inr s" "read_opt_str (opt_str x) = Inr x" "read_int (PInt n) = Inr n"
  "read_status (PStr (status_name st)) = Inr st" "read_required (Some t) = Inr t"
  by (simp_all add: read_str_def read_opt_str_def opt_str_def read_int_def read_required_def split: option.split)
    (cases st; simp add: read_status_def)

lemma parse_written:
  "storable jc r \<Longrightarrow> (name, t) \<in> set (record_datetimes r) \<Longrightarrow> parse_stored_datetime jc (opt_iso t) = Inr t"
  by (auto simp: storable_def codec_keeps_def list_all_iff parse_stored_datetime_def opt_iso_def split: option.splits)

lemma encode_written:
  assumes "storable jc r"
  shows "\<exists>b. record_to_payload jc r = Inr b \<and> decode_payload jc b = Inr (record_mapping r)"
proof -
  from assms obtain b where "jc_encode jc (PDict (record_mapping r)) = Some b" "jc_decode jc b = Some (PDict (record_mapping r))"
    by (auto simp: storable_def codec_keeps_def split: option.splits)
  then have "record_to_payload jc r = Inr (MAGIC @ b) \<and> decode_payload jc (MAGIC @ b) = Inr (record_mapping r)"
    by (simp add: record_to_payload_def encode_payload_def decode_payload_def starts_with_def)
  then show ?thesis by blast
qed

lemma mapping_lookup:
  "get_or_none (record_mapping r) ''schema_version'' = PInt SCHEMA_VERSION"
  "get_or_none (record_mapping r) ''task_name'' = PStr (task_name r)" "get_or_none (record_mapping r) ''id'' = PStr (uuid_str (rid r))"
  "get_or_none (record_mapping r) ''args'' = PList (args r)" "get_or_none (record_mapping r) ''kwargs'' = PDict (kwargs r)"
  "get_or_none (record_mapping r) ''metadata'' = PDict (metadata r)" "get_or_none (record_mapping r) ''queue'' = PStr (queue r)"
  "get_or_none (record_mapping r) ''execution_backend'' = PStr (execution_backend r)"
  "get_or_none (record_mapping r) ''execution_profile'' = opt_str (execution_profile r)"
  "get_or_none (record_mapping r) ''execution_ref'' = opt_str (execution_ref r)"
  "get_or_none (record_mapping r) ''worker_id'' = opt_str (worker_id r)"
  "get_or_none (record_mapping r) ''status'' = PStr (status_name (status r))"
  "get_or_none (record_mapping r) ''priority'' = PInt (priority r)" "get_or_none (record_mapping r) ''max_retries'' = PInt (max_retries r)"
  "get_or_none (record_mapping r) ''retry_count'' = PInt (retry_count r)" "get_or_none (record_mapping r) ''result'' = task_result r"
  "get_or_none (record_mapping r) ''error'' = opt_str (error r)" "get_or_none (record_mapping r) ''key'' = opt_str (key r)"
  by (simp_all add: get_or_none_def record_mapping_def record_datetimes_def)

lemma mapping_times:
  assumes "(name, t) \<in> set (record_datetimes r)"
  shows "get_or_none (record_mapping r) name = opt_iso t"
proof -
  have "list_all (\<lambda>(name, t). get_or_none (record_mapping r) name = opt_iso t) (record_datetimes r)"
    by (simp add: get_or_none_def record_mapping_def record_datetimes_def)
  with assms show ?thesis by (auto simp: list_all_iff)
qed

lemma mapping_complete: "\<not> (\<exists>name \<in> set RECORD_FIELDS. dict_get (record_mapping r) name = None)"
proof -
  have "list_all (\<lambda>name. dict_get (record_mapping r) name \<noteq> None) RECORD_FIELDS"
    by (simp add: record_mapping_def record_datetimes_def RECORD_FIELDS_def)
  then show ?thesis by (auto simp: list_all_iff)
qed

lemma payload_kept:
  assumes "storable jc r"
  shows "\<exists>b. record_to_payload jc r = Inr b \<and> record_from_payload jc b = Inr r"
proof -
  obtain b where b: "record_to_payload jc r = Inr b" "decode_payload jc b = Inr (record_mapping r)"
    using encode_written [OF assms] by blast
  have id: "read_uuid (PStr (uuid_str (rid r))) = Inr (rid r)"
    using assms by (simp add: read_uuid_def uuid_parse_str storable_def in_range_def)
  have times: "read_datetime jc (record_mapping r) name = Inr t" if "(name, t) \<in> set (record_datetimes r)" for name t
    using that parse_written [OF assms that] by (simp add: read_datetime_def mapping_times)
  have "build_record jc (record_mapping r) (rid r) (args r) (kwargs r) (metadata r) = Inr r"
    unfolding build_record_def
    by (simp add: mapping_lookup times record_datetimes_def)
  then have "record_from_payload jc b = Inr r"
    unfolding record_from_payload_def b(2) by (simp only: mapping_complete if_False bind_result_simps mapping_lookup id read_containers_def) simp
  with b(1) show ?thesis by blast
qed

text \<open>Property C40: a record the backend can hold survives its payload: encoding it succeeds, and the payload is
  read back as the very record, with every field, every time and every nested value. A payload without
  the marker, of another version or without one of the fields is refused.\<close>

theorem payload_round_trip:
  assumes "storable jc r"
  shows "(\<exists>b. record_to_payload jc r = Inr b \<and> record_from_payload jc b = Inr r) \<and>
    (\<forall>b. \<not> starts_with MAGIC b \<longrightarrow> record_from_payload jc b = Inl EphemeralDatabaseError) \<and>
    (\<forall>b d. decode_payload jc b = Inr d \<longrightarrow>
       \<not> py_eq (get_or_none d ''schema_version'') (PInt SCHEMA_VERSION) \<or> (\<exists>name \<in> set RECORD_FIELDS. dict_get d name = None) \<longrightarrow>
       record_from_payload jc b = Inl EphemeralDatabaseError)"
  using payload_kept [OF assms] by (auto simp: record_from_payload_def decode_payload_def)

text \<open>A serializer that knows one record.\<close>

definition sample_record :: task_record where
  "sample_record = (new_record \<lparr>req_task_name = ''app.mail'', req_args = [PInt 3], req_kwargs = Some [(''to'', PStr ''a'')],
     req_queue = ''default'', req_priority = 5, req_max_retries = 2, req_scheduled_at = Some 1000000, req_expires_at = None,
     req_key = Some ''k'', req_execution_backend = ''local'', req_execution_profile = None, req_metadata = None\<rparr> 7 Scheduled 10)"

definition sample_codec :: json_codec where
  "sample_codec = \<lparr>jc_encode = (\<lambda>v. if v = PDict (record_mapping sample_record) then Some ''{}'' else None),
     jc_decode = (\<lambda>b. if b = ''{}'' then Some (PDict (record_mapping sample_record)) else None),
     jc_datetime = (\<lambda>s. if s = iso_text 1000000 then Some 1000000 else if s = iso_text 10 then Some 10 else None)\<rparr>"

lemma payload_round_trip_witness:
  "\<exists>b. record_to_payload sample_codec sample_record = Inr b \<and> record_from_payload sample_codec b = Inr sample_record"
proof -
  have range: "datetime_range 1000000" "datetime_range 10"
    by (simp_all add: datetime_range_def DAY_def DAY_OF_EPOCH_def days_before_year_def Let_def)
  have "storable sample_codec sample_record"
    using range iso_text_compare(2) [OF range]
    by (simp add: storable_def codec_keeps_def in_range_def sample_codec_def record_datetimes_def sample_record_def new_record_def)
  from payload_round_trip [OF this] show ?thesis by blast
qed

end
