(* ===== verification/Ephemeral_Backend.thy ===== *)
theory Ephemeral_Backend
  imports Ephemeral_Codec Event_Log
begin

text \<open>
  \<open>backends/ephemeral/backend.py\<close> and \<open>schema.py\<close>: the queue of one server invocation in a private SQLite file.
  The state holds the rows of the tables and the backend's own fields. A statement of the code is the
  function its SQL text denotes: texts compare by their characters, \<open>LIMIT\<close> with a negative bound does not
  limit, a row that breaks a unique index raises \<open>IntegrityError\<close>. The order in which SQLite returns the rows of a
  query without \<open>ORDER BY\<close> is not defined: it is the parameter \<open>ee_plan\<close>. So are the serializer
  (\<open>ee_codec\<close>) and the failure SQLite reports for the call, if any (\<open>ee_failure\<close>). A mutating operation runs
  inside \<open>BEGIN IMMEDIATE\<close>, so it is one state transformer, also between processes. The record transformers
  the code repeats from the in-memory backend are those of \<open>Memory_Backend\<close>. Clock readings are arguments.
\<close>

section \<open>Tables\<close>

record task_row =
  row_id :: string
  row_task_name :: string
  row_queue :: string
  row_execution_backend :: string
  row_worker_id :: "string option"
  row_status :: string
  row_priority :: int
  row_retry_count :: int
  row_scheduled_at :: "string option"
  row_expires_at :: "string option"
  row_created_at :: string
  row_queued_at :: string
  row_completed_at :: "string option"
  row_heartbeat_at :: "string option"
  row_dispatch_checked_at :: "string option"
  row_key :: "string option"
  row_payload :: string

record reservation_row =
  rr_identity_key :: string
  rr_task_id :: string
  rr_task_name :: string
  rr_created_at :: string

record maintenance_row =
  mr_name :: string
  mr_token :: string
  mr_expires_at :: string

record eph_state =
  es_path :: "string option"
  es_tasks :: "task_row list"
  es_reservations :: "reservation_row list"
  es_maintenance :: "maintenance_row list"
  es_notification :: bool

section \<open>Failures\<close>

datatype sqlite_error = SqliteIntegrity | SqliteDatabase string

definition has_marker :: "string list \<Rightarrow> string \<Rightarrow> bool" where
  "has_marker markers s \<longleftrightarrow> (\<exists>m \<in> set markers. \<exists>i \<in> set [0..<Suc (length s)]. starts_with m (drop i s))"

datatype database_message = BusyMessage | MissingMessage | UnreadableMessage

definition classify_sqlite :: "sqlite_error \<Rightarrow> database_message option" where
  "classify_sqlite e =
     (case e of
        SqliteIntegrity \<Rightarrow> None
      | SqliteDatabase s \<Rightarrow>
          (let t = ascii_lower s
           in if has_marker [''locked'', ''busy''] t then Some BusyMessage
              else if has_marker [''unable to open database file'', ''no such table'', ''no such database''] t then Some MissingMessage
              else Some UnreadableMessage))"

definition sqlite_errors :: "sqlite_error \<Rightarrow> py_error" where
  "sqlite_errors e = (case classify_sqlite e of None \<Rightarrow> IntegrityError | Some m \<Rightarrow> EphemeralDatabaseError)"

record eph_env =
  ee_codec :: json_codec
  ee_plan :: "task_row list \<Rightarrow> task_row list"
  ee_failure :: "sqlite_error option"

text \<open>
  \<open>_run\<close> reads over a connection of its own; \<open>_transaction\<close> commits what its operation wrote, or rolls it back
  when the operation raises.
\<close>

definition eph_run :: "eph_env \<Rightarrow> (eph_state \<Rightarrow> 'a result) \<Rightarrow> (eph_state, 'a) op" where
  "eph_run env query s =
     (case es_path s of
        None \<Rightarrow> (Inl QueueConfigurationError, s)
      | Some path \<Rightarrow>
          (case ee_failure env of
             Some e \<Rightarrow> (Inl (sqlite_errors e), s)
           | None \<Rightarrow> (query s, s)))"

definition eph_transaction :: "eph_env \<Rightarrow> (eph_state, 'a) op \<Rightarrow> (eph_state, 'a) op" where
  "eph_transaction env body s =
     (case es_path s of
        None \<Rightarrow> (Inl QueueConfigurationError, s)
      | Some path \<Rightarrow>
          (case ee_failure env of
             Some e \<Rightarrow> (Inl (sqlite_errors e), s)
           | None \<Rightarrow> (case body s of (Inl e, _) \<Rightarrow> (Inl e, s) | (Inr x, s') \<Rightarrow> (Inr x, s'))))"

section \<open>Opening\<close>

definition env_lookup :: "(string \<times> string) list \<Rightarrow> string \<Rightarrow> string option" where
  "env_lookup environ name = (case dict_get environ name of None \<Rightarrow> None | Some v \<Rightarrow> if v = [] then None else Some v)"

definition read_environment :: "string \<Rightarrow> string \<Rightarrow> (string \<times> string) list \<Rightarrow> (string \<times> string) option" where
  "read_environment path_var nonce_var environ =
     (case (env_lookup environ path_var, env_lookup environ nonce_var) of
        (Some path, Some nonce) \<Rightarrow> if starts_with ''/'' path then Some (path, nonce) else None
      | _ \<Rightarrow> None)"

record path_info =
  pi_symlink :: bool
  pi_directory :: bool
  pi_mode :: nat

text \<open>The low six bits of the mode are the rights of the group and of others.\<close>

definition is_private_directory :: "bool \<Rightarrow> path_info option \<Rightarrow> bool" where
  "is_private_directory windows info =
     (case info of
        None \<Rightarrow> False
      | Some i \<Rightarrow>
          if pi_symlink i \<or> \<not> pi_directory i then False
          else if windows then True else pi_mode i mod 64 = 0)"

text \<open>What the file system and the runtime table say of a path.\<close>

record file_facts =
  ff_parent :: "path_info option"
  ff_symlink :: bool
  ff_runtime :: "(int \<times> string) option"

definition belongs_to_invocation :: "bool \<Rightarrow> file_facts \<Rightarrow> string \<Rightarrow> bool" where
  "belongs_to_invocation windows f nonce =
     (if \<not> is_private_directory windows (ff_parent f) \<or> ff_symlink f then False
      else (case ff_runtime f of
              None \<Rightarrow> False
            | Some (version, n) \<Rightarrow> version = SCHEMA_VERSION \<and> n = nonce))"

definition eph_open ::
    "string \<Rightarrow> string \<Rightarrow> (string \<times> string) list \<Rightarrow> bool \<Rightarrow> (string \<Rightarrow> file_facts) \<Rightarrow> (eph_state, bool) op" where
  "eph_open path_var nonce_var environ windows facts s =
     (case read_environment path_var nonce_var environ of
        None \<Rightarrow> (Inl QueueConfigurationError, s)
      | Some (path, nonce) \<Rightarrow>
          if \<not> belongs_to_invocation windows (facts path) nonce then (Inl QueueConfigurationError, s)
          else (Inr True, s\<lparr>es_path := Some path\<rparr>))"

section \<open>Rows\<close>

definition WAITING_TEXTS :: "string list" where
  "WAITING_TEXTS = [''pending'', ''scheduled'']"

definition TERMINAL_TEXTS :: "string list" where
  "TERMINAL_TEXTS = [''completed'', ''failed'', ''cancelled'', ''expired'']"

definition task_columns :: "json_codec \<Rightarrow> task_record \<Rightarrow> task_row result" where
  "task_columns jc r =
     bind_result (record_to_payload jc r) (\<lambda>payload. Inr
       \<lparr>row_id = uuid_str (rid r), row_task_name = task_name r, row_queue = queue r,
        row_execution_backend = execution_backend r, row_worker_id = worker_id r,
        row_status = status_name (status r), row_priority = priority r, row_retry_count = retry_count r,
        row_scheduled_at = map_option iso_text (scheduled_at r), row_expires_at = map_option iso_text (expires_at r),
        row_created_at = iso_text (created_at r), row_queued_at = iso_text (queued_at r),
        row_completed_at = map_option iso_text (completed_at r),
        row_heartbeat_at = map_option iso_text (heartbeat_at r),
        row_dispatch_checked_at = map_option iso_text (dispatch_checked_at r), row_key = key r,
        row_payload = payload\<rparr>)"

text \<open>The unique index \<open>ux_queue_task_active_key\<close>.\<close>

definition live_row :: "task_row \<Rightarrow> bool" where
  "live_row q \<longleftrightarrow> row_status q \<notin> set TERMINAL_TEXTS"

definition key_taken :: "task_row \<Rightarrow> task_row list \<Rightarrow> bool" where
  "key_taken row rows \<longleftrightarrow> row_key row \<noteq> None \<and> live_row row \<and>
     (\<exists>q \<in> set rows. row_id q \<noteq> row_id row \<and> row_key q = row_key row \<and> live_row q)"

definition replace_row :: "task_row \<Rightarrow> task_row list \<Rightarrow> task_row list" where
  "replace_row row = map (\<lambda>q. if row_id q = row_id row then row else q)"

definition eph_write :: "json_codec \<Rightarrow> task_record \<Rightarrow> (eph_state, unit) op" where
  "eph_write jc r s =
     (case task_columns jc r of
        Inl e \<Rightarrow> (Inl e, s)
      | Inr row \<Rightarrow>
          if (\<exists>q \<in> set (es_tasks s). row_id q = row_id row) \<and> key_taken row (es_tasks s) then (Inl IntegrityError, s)
          else (Inr (), s\<lparr>es_tasks := replace_row row (es_tasks s)\<rparr>))"

definition eph_insert :: "json_codec \<Rightarrow> task_record \<Rightarrow> (eph_state, unit) op" where
  "eph_insert jc r s =
     (case task_columns jc r of
        Inl e \<Rightarrow> (Inl e, s)
      | Inr row \<Rightarrow>
          if (\<exists>q \<in> set (es_tasks s). row_id q = row_id row) \<or> key_taken row (es_tasks s) then (Inl IntegrityError, s)
          else (Inr (), s\<lparr>es_tasks := es_tasks s @ [row]\<rparr>))"

definition decode_row :: "json_codec \<Rightarrow> task_row \<Rightarrow> task_record result" where
  "decode_row jc row = record_from_payload jc (row_payload row)"

fun decode_all :: "json_codec \<Rightarrow> task_row list \<Rightarrow> task_record list result" where
  "decode_all jc [] = Inr []"
| "decode_all jc (row # rows) =
     bind_result (decode_row jc row) (\<lambda>r. bind_result (decode_all jc rows) (\<lambda>rs. Inr (r # rs)))"

definition decode_option :: "json_codec \<Rightarrow> task_row option \<Rightarrow> task_record option result" where
  "decode_option jc x =
     (case x of None \<Rightarrow> Inr None | Some row \<Rightarrow> bind_result (decode_row jc row) (\<lambda>r. Inr (Some r)))"

text \<open>\<open>SELECT payload FROM queue_task WHERE id = ?\<close>\<close>

definition eph_fetch :: "json_codec \<Rightarrow> uuid \<Rightarrow> eph_state \<Rightarrow> task_record option result" where
  "eph_fetch jc i s = decode_option jc (find (\<lambda>q. row_id q = uuid_str i) (es_tasks s))"

definition op_read :: "('s \<Rightarrow> 'a result) \<Rightarrow> ('s, 'a) op" where
  "op_read query s = (query s, s)"

definition sql_limit :: "int \<Rightarrow> 'a list \<Rightarrow> 'a list" where
  "sql_limit n xs = (if n < 0 then xs else take (nat n) xs)"

definition sql_limit_option :: "int option \<Rightarrow> 'a list \<Rightarrow> 'a list" where
  "sql_limit_option n xs = (case n of None \<Rightarrow> xs | Some k \<Rightarrow> sql_limit k xs)"

definition waiting_row :: "task_row \<Rightarrow> bool" where
  "waiting_row q \<longleftrightarrow> row_status q \<in> set WAITING_TEXTS"

definition due_row :: "string \<Rightarrow> task_row \<Rightarrow> bool" where
  "due_row now q \<longleftrightarrow> (case row_scheduled_at q of None \<Rightarrow> True | Some t \<Rightarrow> t \<le> now)"

definition unexpired_row :: "string \<Rightarrow> task_row \<Rightarrow> bool" where
  "unexpired_row now q \<longleftrightarrow> (case row_expires_at q of None \<Rightarrow> True | Some t \<Rightarrow> t > now)"

definition expired_row :: "string \<Rightarrow> task_row \<Rightarrow> bool" where
  "expired_row now q \<longleftrightarrow> (case row_expires_at q of None \<Rightarrow> False | Some t \<Rightarrow> t \<le> now)"

text \<open>\<open>ORDER BY priority DESC, queued_at ASC, created_at ASC, id ASC\<close>\<close>

definition claim_row_key :: "task_row \<Rightarrow> int \<times> string \<times> string \<times> string" where
  "claim_row_key q = (- row_priority q, row_queued_at q, row_created_at q, row_id q)"

text \<open>
  The shape of the operations on one record: fetch, test the guard, mutate, write back and return the record, or
  return \<open>None\<close> without a write.
\<close>

definition eph_update ::
    "eph_env \<Rightarrow> uuid \<Rightarrow> (task_record \<Rightarrow> bool) \<Rightarrow> (task_record \<Rightarrow> task_record) \<Rightarrow> (eph_state, task_record option) op" where
  "eph_update env i guard f =
     eph_transaction env (op_bind (op_read (eph_fetch (ee_codec env) i)) (\<lambda>x.
       case x of
         None \<Rightarrow> op_return None
       | Some r \<Rightarrow>
           if guard r then op_bind (eph_write (ee_codec env) (f r)) (\<lambda>_. op_return (Some (f r)))
           else op_return None))"

fun write_all :: "json_codec \<Rightarrow> task_record list \<Rightarrow> (eph_state, unit) op" where
  "write_all jc [] = op_return ()"
| "write_all jc (r # rs) = op_bind (eph_write jc r) (\<lambda>_. write_all jc rs)"

section \<open>Notifications\<close>

definition eph_notify_new_task :: "instant \<Rightarrow> task_record \<Rightarrow> eph_state \<Rightarrow> eph_state" where
  "eph_notify_new_task now r s = (if is_waiting r \<and> is_due now r then s\<lparr>es_notification := True\<rparr> else s)"

definition eph_notify_new_tasks :: "instant \<Rightarrow> task_record list \<Rightarrow> eph_state \<Rightarrow> eph_state" where
  "eph_notify_new_tasks now rs s =
     (case filter (\<lambda>r. is_waiting r \<and> is_due now r) rs of [] \<Rightarrow> s | r # _ \<Rightarrow> eph_notify_new_task now r s)"

definition then_notified :: "instant \<Rightarrow> (eph_state, task_record option) op \<Rightarrow> (eph_state, task_record option) op" where
  "then_notified now m = op_bind m (\<lambda>x s.
     (Inr x, case x of None \<Rightarrow> s | Some r \<Rightarrow> eph_notify_new_task now r s))"

section \<open>Enqueue and reads\<close>

definition active_by_key :: "json_codec \<Rightarrow> string \<Rightarrow> eph_state \<Rightarrow> task_record option result" where
  "active_by_key jc k s = decode_option jc (find (\<lambda>q. row_key q = Some k \<and> live_row q) (es_tasks s))"

definition active_for_request :: "json_codec \<Rightarrow> string option \<Rightarrow> eph_state \<Rightarrow> task_record option result" where
  "active_for_request jc k s = (case k of None \<Rightarrow> Inr None | Some k' \<Rightarrow> active_by_key jc k' s)"

definition store_new :: "json_codec \<Rightarrow> task_record \<Rightarrow> (eph_state, task_record) op" where
  "store_new jc r =
     op_bind (op_read (active_for_request jc (key r))) (\<lambda>x.
       case x of
         Some existing \<Rightarrow> op_return existing
       | None \<Rightarrow> op_bind (eph_insert jc r) (\<lambda>_. op_return r))"

definition eph_enqueue ::
    "eph_env \<Rightarrow> task_request \<Rightarrow> uuid option \<Rightarrow> uuid \<Rightarrow> instant \<Rightarrow> instant \<Rightarrow> instant \<Rightarrow> (eph_state, task_record) op" where
  "eph_enqueue env req explicit_id fresh now now2 now3 =
     (let r = new_record req (case explicit_id of None \<Rightarrow> fresh | Some i \<Rightarrow> i) (initial_status now2 req) now
      in op_bind (eph_transaction env (store_new (ee_codec env) r)) (\<lambda>stored s.
           (Inr stored, eph_notify_new_task now3 stored s)))"

fun store_requests :: "json_codec \<Rightarrow> instant \<Rightarrow> (task_request \<times> uuid) list \<Rightarrow> (eph_state, task_record list) op" where
  "store_requests jc now [] = op_return []"
| "store_requests jc now ((req, fresh) # rest) =
     op_bind (store_new jc (new_record req fresh (initial_status now req) now)) (\<lambda>r.
     op_bind (store_requests jc now rest) (\<lambda>rs. op_return (r # rs)))"

definition eph_enqueue_many ::
    "eph_env \<Rightarrow> (task_request \<times> uuid) list \<Rightarrow> instant \<Rightarrow> instant \<Rightarrow> (eph_state, task_record list) op" where
  "eph_enqueue_many env requests now now2 =
     (if requests = [] then op_return []
      else op_bind (eph_transaction env (store_requests (ee_codec env) now requests)) (\<lambda>rs s.
             (Inr rs, eph_notify_new_tasks now2 rs s)))"

definition eph_get_task :: "eph_env \<Rightarrow> uuid \<Rightarrow> (eph_state, task_record option) op" where
  "eph_get_task env i = eph_run env (eph_fetch (ee_codec env) i)"

fun eph_get_tasks :: "eph_env \<Rightarrow> uuid list \<Rightarrow> (eph_state, task_record list) op" where
  "eph_get_tasks env [] = op_return []"
| "eph_get_tasks env (i # ids) =
     op_bind (eph_get_task env i) (\<lambda>x. op_bind (eph_get_tasks env ids) (\<lambda>rs.
       op_return (case x of None \<Rightarrow> rs | Some r \<Rightarrow> r # rs)))"

text \<open>\<open>ORDER BY created_at DESC, id DESC LIMIT 1\<close>\<close>

definition eph_get_task_by_key :: "eph_env \<Rightarrow> string \<Rightarrow> (eph_state, task_record option) op" where
  "eph_get_task_by_key env k = eph_run env (\<lambda>s.
     decode_option (ee_codec env)
       (case rev (sort_key (\<lambda>q. (row_created_at q, row_id q)) (filter (\<lambda>q. row_key q = Some k) (es_tasks s))) of
          [] \<Rightarrow> None | q # _ \<Rightarrow> Some q))"

definition pending_rows :: "string \<Rightarrow> (string \<Rightarrow> bool) \<Rightarrow> string option \<Rightarrow> int \<Rightarrow> eph_state \<Rightarrow> task_row list" where
  "pending_rows now in_queue eb limit s =
     sql_limit limit (sort_key claim_row_key
       (filter (\<lambda>q. waiting_row q \<and> due_row now q \<and> unexpired_row now q \<and> in_queue (row_queue q) \<and>
           fence eb (row_execution_backend q)) (es_tasks s)))"

definition unreserved :: "task_record \<Rightarrow> bool" where
  "unreserved r \<longleftrightarrow> \<not> is_external_dispatch_reservation (execution_ref r)"

definition eph_list_pending ::
    "eph_env \<Rightarrow> instant \<Rightarrow> int \<Rightarrow> string option \<Rightarrow> string option \<Rightarrow> (eph_state, task_record list) op" where
  "eph_list_pending env now limit q eb = eph_run env (\<lambda>s.
     bind_result (decode_all (ee_codec env) (pending_rows (iso_text now) (fence q) eb limit s)) (\<lambda>rs.
       Inr (filter unreserved rs)))"

definition eph_list_running_external :: "eph_env \<Rightarrow> int option \<Rightarrow> (eph_state, task_record list) op" where
  "eph_list_running_external env limit = eph_run env (\<lambda>s.
     bind_result (decode_all (ee_codec env) (ee_plan env (filter live_row (es_tasks s)))) (\<lambda>rs.
       Inr (take_limit limit (sort_key
         (\<lambda>r. (case started_at r of Some t \<Rightarrow> t | None \<Rightarrow> created_at r, uuid_str (rid r)))
         (filter (\<lambda>r. execution_ref r \<noteq> None) rs)))))"

definition STATISTICS_FIELDS :: "task_status list" where
  "STATISTICS_FIELDS = [Pending, Scheduled, Running, Completed, Failed, Cancelled, Expired]"

definition eph_get_statistics :: "eph_env \<Rightarrow> string option \<Rightarrow> (eph_state, queue_statistics) op" where
  "eph_get_statistics env q = eph_run env (\<lambda>s.
     Inr (fold (\<lambda>st stats.
            (let total = length (filter (\<lambda>row. row_status row = status_name st \<and> fence q (row_queue row)) (es_tasks s))
             in if total = 0 then stats else statistics_set stats st (int total)))
          STATISTICS_FIELDS empty_statistics))"

definition eph_list_completed_by_task ::
    "eph_env \<Rightarrow> string \<Rightarrow> instant option \<Rightarrow> int \<Rightarrow> (eph_state, task_record list) op" where
  "eph_list_completed_by_task env name since limit = eph_run env (\<lambda>s.
     decode_all (ee_codec env) (sql_limit limit (rev (sort_key row_completed_at
       (ee_plan env (filter (\<lambda>q. row_task_name q = name \<and> row_status q = ''completed'' \<and>
           (case row_completed_at q of
              None \<Rightarrow> False
            | Some t \<Rightarrow> (case since of None \<Rightarrow> True | Some u \<Rightarrow> iso_text u \<le> t))) (es_tasks s)))))))"

section \<open>Claims\<close>

definition eph_claim_task_with_expired ::
    "eph_env \<Rightarrow> uuid \<Rightarrow> int option \<Rightarrow> string option \<Rightarrow> instant \<Rightarrow> instant \<Rightarrow>
     (eph_state, task_record option \<times> task_record option) op" where
  "eph_claim_task_with_expired env i expected_retry_count expected_execution_ref t now =
     eph_transaction env (op_bind (op_read (eph_fetch (ee_codec env) i)) (\<lambda>x.
       case x of
         None \<Rightarrow> op_return (None, None)
       | Some r \<Rightarrow>
           if \<not> claimable t expected_retry_count expected_execution_ref r then op_return (None, None)
           else if execution_ref r = None \<and> is_expired now r
           then op_bind (eph_write (ee_codec env) (expire_record now r)) (\<lambda>_. op_return (None, Some (expire_record now r)))
           else op_bind (eph_write (ee_codec env) (start_record now r)) (\<lambda>_. op_return (Some (start_record now r), None))))"

definition eph_claim_task ::
    "eph_env \<Rightarrow> uuid \<Rightarrow> int option \<Rightarrow> string option \<Rightarrow> instant \<Rightarrow> instant \<Rightarrow> (eph_state, task_record option) op" where
  "eph_claim_task env i expected_retry_count expected_execution_ref t now =
     op_bind (eph_claim_task_with_expired env i expected_retry_count expected_execution_ref t now) (\<lambda>(claimed, _).
       op_return claimed)"

definition in_queues :: "string list \<Rightarrow> string \<Rightarrow> bool" where
  "in_queues queues q \<longleftrightarrow> queues = [] \<or> q \<in> set queues"

definition claim_batch ::
    "eph_env \<Rightarrow> int \<Rightarrow> string list \<Rightarrow> string option \<Rightarrow> instant \<Rightarrow>
     (eph_state, task_record list \<times> task_record list) op" where
  "claim_batch env limit queues eb now =
     op_bind (op_read (\<lambda>s. decode_all (ee_codec env)
        (ee_plan env (filter (\<lambda>q. waiting_row q \<and> expired_row (iso_text now) q) (es_tasks s))))) (\<lambda>overdue.
     let expired = map (expire_record now)
           (filter (\<lambda>r. unreserved r \<and> in_queues queues (queue r) \<and> fence eb (execution_backend r)) overdue)
     in op_bind (write_all (ee_codec env) expired) (\<lambda>_.
        op_bind (op_read (\<lambda>s. decode_all (ee_codec env) (pending_rows (iso_text now) (in_queues queues) eb limit s))) (\<lambda>rs.
        let claimed = map (start_record now) (filter unreserved rs)
        in op_bind (write_all (ee_codec env) claimed) (\<lambda>_. op_return (claimed, expired)))))"

definition eph_expire_overdue :: "eph_env \<Rightarrow> int option \<Rightarrow> instant \<Rightarrow> (eph_state, task_record list) op" where
  "eph_expire_overdue env limit now =
     eph_transaction env (op_bind (op_read (\<lambda>s. decode_all (ee_codec env)
        (sql_limit_option limit (sort_key (\<lambda>q. (row_expires_at q, row_created_at q, row_id q))
           (filter (\<lambda>q. waiting_row q \<and> expired_row (iso_text now) q) (es_tasks s)))))) (\<lambda>rs.
     let expired = map (expire_record now) (filter (\<lambda>r. execution_ref r = None) rs)
     in op_bind (write_all (ee_codec env) expired) (\<lambda>_. op_return expired)))"

text \<open>
  With \<open>queue_limits\<close> the method hands over to \<open>BaseQueueBackend.claim_many_with_expired\<close>, which calls
  \<open>self.claim_many\<close>, which calls this method again. The number is the frames Python's recursion limit leaves;
  running out of them raises \<open>RecursionError\<close>, a \<open>RuntimeError\<close>. At depth \<open>d\<close> the clock reads
  \<open>clk (2 * d)\<close> and \<open>clk (2 * d + 1)\<close>.
\<close>

fun eph_claim_many ::
    "eph_env \<Rightarrow> (nat \<Rightarrow> instant) \<Rightarrow> nat \<Rightarrow> int \<Rightarrow> string list \<Rightarrow> string option \<Rightarrow> (string \<times> int) list option \<Rightarrow>
     (eph_state, task_record list) op"
  and eph_claim_many_with_expired ::
    "eph_env \<Rightarrow> (nat \<Rightarrow> instant) \<Rightarrow> nat \<Rightarrow> int \<Rightarrow> string list \<Rightarrow> string option \<Rightarrow> (string \<times> int) list option \<Rightarrow>
     (eph_state, task_record list \<times> task_record list) op" where
  "eph_claim_many env clk 0 limit queues eb limits = op_raise RuntimeError"
| "eph_claim_many env clk (Suc d) limit queues eb limits =
     op_bind (eph_claim_many_with_expired env clk d limit queues eb limits) (\<lambda>(claimed, _). op_return claimed)"
| "eph_claim_many_with_expired env clk 0 limit queues eb limits = op_raise RuntimeError"
| "eph_claim_many_with_expired env clk (Suc d) limit queues eb limits =
     (case limits of
        Some caps \<Rightarrow>
          op_bind (eph_expire_overdue env None (clk (2 * d))) (\<lambda>before.
          op_bind (eph_claim_many env clk d limit queues eb limits) (\<lambda>claimed.
          op_bind (eph_expire_overdue env None (clk (2 * d + 1))) (\<lambda>after.
            op_return (claimed, map snd (fold (\<lambda>r. dict_set (rid r) r) (before @ after) [])))))
      | None \<Rightarrow>
          if limit \<le> 0 then op_return ([], [])
          else eph_transaction env (claim_batch env limit queues eb (clk (2 * d))))"

definition eph_assign_worker :: "eph_env \<Rightarrow> uuid \<Rightarrow> string \<Rightarrow> int \<Rightarrow> (eph_state, task_record option) op" where
  "eph_assign_worker env i w expected_retry_count =
     eph_update env i (\<lambda>r. status r = Running \<and> retry_count r = expected_retry_count) (\<lambda>r. r\<lparr>worker_id := Some w\<rparr>)"

section \<open>External dispatch\<close>

definition repair_row_key :: "task_row \<Rightarrow> string \<times> string" where
  "repair_row_key q = (case row_dispatch_checked_at q of None \<Rightarrow> row_created_at q | Some t \<Rightarrow> t, row_id q)"

definition eph_list_dispatch_repair_candidates ::
    "eph_env \<Rightarrow> string \<Rightarrow> int \<Rightarrow> instant \<Rightarrow> (eph_state, dispatch_repair_candidates) op" where
  "eph_list_dispatch_repair_candidates env eb limit now =
     (if limit < 0 then op_raise QueueConfigurationError
      else if limit = 0 then op_return no_repair_candidates
      else eph_transaction env (op_bind (op_read (\<lambda>s. decode_all (ee_codec env)
          (sql_limit limit (sort_key repair_row_key
             (filter (\<lambda>q. row_execution_backend q = eb \<and> waiting_row q \<and> unexpired_row (iso_text now) q) (es_tasks s)))))) (\<lambda>rs.
        let stale = (\<lambda>r. case dispatch_checked_at r of None \<Rightarrow> True | Some t \<Rightarrow> t < now)
        in op_bind (write_all (ee_codec env) (map (stamp_checked now) (filter stale rs))) (\<lambda>_.
           op_return \<lparr>rc_records = map (stamp_checked now) rs, rc_examined = length rs,
              rc_limit_reached = (int (length rs) = limit)\<rparr>))))"

definition eph_reserve_scheduled_execution_ref ::
    "eph_env \<Rightarrow> uuid \<Rightarrow> string \<Rightarrow> string \<Rightarrow> int \<Rightarrow> string option \<Rightarrow> instant \<Rightarrow> (eph_state, task_record option) op" where
  "eph_reserve_scheduled_execution_ref env i eb ref expected_retry_count expected_ref now =
     eph_transaction env (op_bind (op_read (\<lambda>s. decode_option (ee_codec env)
        (find (\<lambda>q. row_id q = uuid_str i \<and> row_execution_backend q = eb \<and> row_retry_count q = expected_retry_count \<and>
            waiting_row q \<and> unexpired_row (iso_text now) q) (es_tasks s)))) (\<lambda>x.
       case x of
         None \<Rightarrow> op_return None
       | Some r \<Rightarrow>
           if execution_ref r \<noteq> expected_ref then op_return None
           else let r' = r\<lparr>execution_ref := Some ref\<rparr>
                in op_bind (eph_write (ee_codec env) r') (\<lambda>_. op_return (Some r'))))"

definition eph_reserve_external_dispatch ::
    "eph_env \<Rightarrow> uuid \<Rightarrow> string \<Rightarrow> string \<Rightarrow> string option \<Rightarrow> int option \<Rightarrow> instant \<Rightarrow> instant \<Rightarrow>
     (eph_state, task_record option) op" where
  "eph_reserve_external_dispatch env i eb ref profile expected_retry_count now t =
     eph_transaction env (op_bind (op_read (eph_fetch (ee_codec env) i)) (\<lambda>x.
       case x of
         None \<Rightarrow> op_return None
       | Some r \<Rightarrow>
           if \<not> is_waiting r \<or> \<not> is_due t r \<or> execution_ref r \<noteq> None \<or> \<not> fence expected_retry_count (retry_count r)
           then op_return None
           else if is_expired now r
           then op_bind (eph_write (ee_codec env) (expire_record now r)) (\<lambda>_. op_return None)
           else let r' = r\<lparr>execution_backend := eb, execution_profile := profile, execution_ref := Some ref\<rparr>
                in op_bind (eph_write (ee_codec env) r') (\<lambda>_. op_return (Some r'))))"

definition eph_clear_execution_ref ::
    "eph_env \<Rightarrow> uuid \<Rightarrow> int \<Rightarrow> string \<Rightarrow> instant \<Rightarrow> (eph_state, task_record option) op" where
  "eph_clear_execution_ref env i expected_retry_count expected_ref now =
     then_notified now (eph_update env i
       (\<lambda>r. is_waiting r \<and> retry_count r = expected_retry_count \<and> execution_ref r = Some expected_ref)
       (\<lambda>r. r\<lparr>execution_ref := None\<rparr>))"

definition eph_replace_execution_ref ::
    "eph_env \<Rightarrow> uuid \<Rightarrow> int \<Rightarrow> string \<Rightarrow> string \<Rightarrow> (eph_state, task_record option) op" where
  "eph_replace_execution_ref env i expected_retry_count expected_ref ref =
     eph_update env i
       (\<lambda>r. is_waiting r \<and> retry_count r = expected_retry_count \<and> execution_ref r = Some expected_ref)
       (\<lambda>r. r\<lparr>execution_ref := Some ref\<rparr>)"

definition eph_release_external_dispatch ::
    "eph_env \<Rightarrow> uuid \<Rightarrow> string \<Rightarrow> string \<Rightarrow> string option \<Rightarrow> instant \<Rightarrow> (eph_state, task_record option) op" where
  "eph_release_external_dispatch env i ref eb profile now =
     then_notified now (eph_update env i (\<lambda>r. execution_ref r = Some ref)
       (\<lambda>r. r\<lparr>execution_backend := eb, execution_profile := profile, execution_ref := None\<rparr>))"

definition eph_finalize_external_dispatch ::
    "eph_env \<Rightarrow> uuid \<Rightarrow> string \<Rightarrow> string \<Rightarrow> string \<Rightarrow> string option \<Rightarrow> (eph_state, task_record option) op" where
  "eph_finalize_external_dispatch env i reservation_ref eb ref profile =
     eph_update env i (\<lambda>r. execution_ref r = Some reservation_ref \<and> is_waiting r)
       (\<lambda>r. r\<lparr>execution_backend := eb, execution_profile := profile, execution_ref := Some ref\<rparr>)"

definition eph_set_execution_ref ::
    "eph_env \<Rightarrow> uuid \<Rightarrow> string \<Rightarrow> string \<Rightarrow> string option \<Rightarrow> (eph_state, task_record option) op" where
  "eph_set_execution_ref env i eb ref profile =
     eph_update env i (\<lambda>r. True)
       (\<lambda>r. r\<lparr>execution_backend := eb, execution_profile := profile, execution_ref := Some ref\<rparr>)"

definition eph_set_execution_backend ::
    "eph_env \<Rightarrow> uuid \<Rightarrow> string \<Rightarrow> string option \<Rightarrow> instant \<Rightarrow> (eph_state, task_record option) op" where
  "eph_set_execution_backend env i eb profile now =
     then_notified now (eph_update env i (\<lambda>r. True)
       (\<lambda>r. r\<lparr>execution_backend := eb, execution_profile := profile, execution_ref := None\<rparr>))"

section \<open>Settlement\<close>

definition eph_complete_task :: "eph_env \<Rightarrow> uuid \<Rightarrow> pyval \<Rightarrow> int option \<Rightarrow> instant \<Rightarrow> (eph_state, task_record option) op" where
  "eph_complete_task env i v expected_retry_count now =
     eph_update env i (attempt_fence expected_retry_count) (complete_record v now)"

definition eph_fail_task ::
    "eph_env \<Rightarrow> uuid \<Rightarrow> string \<Rightarrow> bool \<Rightarrow> int option \<Rightarrow> instant option \<Rightarrow> instant option \<Rightarrow> instant \<Rightarrow>
     (eph_state, task_record option) op" where
  "eph_fail_task env i err retry expected_retry_count retry_at queued now =
     eph_update env i (attempt_fence expected_retry_count) (fail_record err retry retry_at queued now)"

definition eph_cancel_task :: "eph_env \<Rightarrow> uuid \<Rightarrow> bool \<Rightarrow> int option \<Rightarrow> instant \<Rightarrow> (eph_state, bool) op" where
  "eph_cancel_task env i include_running expected_retry_count now =
     op_bind (eph_update env i
       (\<lambda>r. cancellable include_running r \<and> fence expected_retry_count (retry_count r)) (cancel_record now))
       (\<lambda>x. op_return (x \<noteq> None))"

definition eph_interrupt_task :: "eph_env \<Rightarrow> uuid \<Rightarrow> int \<Rightarrow> string \<Rightarrow> instant \<Rightarrow> (eph_state, task_record option) op" where
  "eph_interrupt_task env i expected_retry_count w queued =
     eph_update env i
       (\<lambda>r. status r = Running \<and> retry_count r = expected_retry_count \<and> worker_id r = Some w)
       (interrupt_record queued)"

definition eph_cancel_tasks ::
    "eph_env \<Rightarrow> string option \<Rightarrow> string option \<Rightarrow> dict option \<Rightarrow> dict option \<Rightarrow> bool \<Rightarrow> instant \<Rightarrow> (eph_state, nat) op" where
  "eph_cancel_tasks env name q kw meta include_running now =
     eph_transaction env (op_bind (op_read (\<lambda>s. decode_all (ee_codec env)
        (ee_plan env (filter (\<lambda>row. waiting_row row \<or> include_running \<and> row_status row = ''running'') (es_tasks s))))) (\<lambda>rs.
     let cancelled = map (cancel_record now) (filter (\<lambda>r. record_matches_filters r name q kw meta) rs)
     in op_bind (write_all (ee_codec env) cancelled) (\<lambda>_. op_return (length cancelled))))"

section \<open>Heartbeats\<close>

fun touch_rows ::
    "json_codec \<Rightarrow> instant \<Rightarrow> heartbeat_touch list \<Rightarrow> heartbeat_touch_result \<Rightarrow> (eph_state, heartbeat_touch_result) op" where
  "touch_rows jc now [] res = op_return res"
| "touch_rows jc now (t # ts) res =
     op_bind (op_read (eph_fetch jc (ht_task_id t))) (\<lambda>x.
       let missed = res\<lparr>missed_task_ids := set_add (ht_task_id t) (missed_task_ids res)\<rparr>
       in case x of
            None \<Rightarrow> touch_rows jc now ts missed
          | Some r \<Rightarrow>
              if status r \<noteq> Running \<or> \<not> fence (ht_expected_retry_count t) (retry_count r) then touch_rows jc now ts missed
              else op_bind (eph_write jc (touch_record now (ht_metadata_patch t) r)) (\<lambda>_.
                     touch_rows jc now ts (res\<lparr>touched_task_ids := set_add (ht_task_id t) (touched_task_ids res)\<rparr>)))"

definition eph_touch_heartbeats ::
    "eph_env \<Rightarrow> heartbeat_touch list \<Rightarrow> instant \<Rightarrow> (eph_state, heartbeat_touch_result) op" where
  "eph_touch_heartbeats env touches now =
     (if touches = [] then op_return empty_touch_result
      else eph_transaction env (touch_rows (ee_codec env) now touches empty_touch_result))"

fun null_rows :: "json_codec \<Rightarrow> int option \<Rightarrow> uuid list \<Rightarrow> (eph_state, unit) op" where
  "null_rows jc expected_retry_count [] = op_return ()"
| "null_rows jc expected_retry_count (i # ids) =
     op_bind (op_read (eph_fetch jc i)) (\<lambda>x.
       case x of
         None \<Rightarrow> null_rows jc expected_retry_count ids
       | Some r \<Rightarrow>
           if \<not> fence expected_retry_count (retry_count r) then null_rows jc expected_retry_count ids
           else op_bind (eph_write jc (r\<lparr>heartbeat_at := None\<rparr>)) (\<lambda>_. null_rows jc expected_retry_count ids))"

text \<open>\<open>set(task_ids)\<close>: the order of a set does not show in the outcome.\<close>

definition eph_null_heartbeats :: "eph_env \<Rightarrow> uuid list \<Rightarrow> int option \<Rightarrow> (eph_state, unit) op" where
  "eph_null_heartbeats env ids expected_retry_count =
     (if ids = [] then op_return ()
      else eph_transaction env (null_rows (ee_codec env) expected_retry_count (remdups ids)))"

section \<open>Stale recovery\<close>

fun recover_rows ::
    "json_codec \<Rightarrow> (string \<Rightarrow> rat option) \<Rightarrow> stale_policy \<Rightarrow> instant \<Rightarrow> task_record list \<Rightarrow> stale_recovery_result \<Rightarrow>
     (eph_state, stale_recovery_result) op" where
  "recover_rows jc parse policy now [] res = op_return res"
| "recover_rows jc parse policy now (r # rest) res =
     (case stale_step parse policy now r of
        Raised e r' \<Rightarrow> op_raise e
      | Requeued r' \<Rightarrow>
          op_bind (eph_write jc r') (\<lambda>_.
            recover_rows jc parse policy now rest (res\<lparr>sr_requeued := sr_requeued res + 1\<rparr>))
      | Exhausted r' \<Rightarrow>
          let res' = res\<lparr>sr_failed := sr_failed res + 1, sr_failed_task_ids := sr_failed_task_ids res @ [rid r]\<rparr>
          in op_bind (eph_write jc r') (\<lambda>_.
            recover_rows jc parse policy now rest
              (if requeue_on_stale r then res'
               else res'\<lparr>sr_handler_needed := sr_handler_needed res' + 1,
                  sr_handler_needed_task_ids := sr_handler_needed_task_ids res' @ [rid r]\<rparr>)))"

definition eph_requeue_stale_running ::
    "eph_env \<Rightarrow> (string \<Rightarrow> rat option) \<Rightarrow> stale_policy \<Rightarrow> int \<Rightarrow> int option \<Rightarrow> instant \<Rightarrow> (eph_state, stale_recovery_result) op" where
  "eph_requeue_stale_running env parse policy stale_after limit now =
     eph_transaction env (op_bind (op_read (\<lambda>s. decode_all (ee_codec env)
        (ee_plan env (filter (\<lambda>q. row_status q = ''running'') (es_tasks s))))) (\<lambda>rs.
       recover_rows (ee_codec env) parse policy now
         (take_limit limit (sort_key stale_sort_key
            (filter (\<lambda>r. case heartbeat_at r of None \<Rightarrow> True | Some t \<Rightarrow> t < now - stale_after) rs)))
         empty_stale_recovery_result))"

section \<open>Retention\<close>

definition eph_cleanup_terminal :: "eph_env \<Rightarrow> instant \<Rightarrow> int option \<Rightarrow> (eph_state, nat) op" where
  "eph_cleanup_terminal env before limit =
     eph_transaction env (\<lambda>s.
       let ids = map row_id (sql_limit_option limit (sort_key (\<lambda>q. (row_completed_at q, row_id q))
             (filter (\<lambda>q. row_status q \<in> set TERMINAL_TEXTS \<and>
                (case row_completed_at q of None \<Rightarrow> False | Some t \<Rightarrow> t < iso_text before)) (es_tasks s))))
       in (Inr (length ids), s\<lparr>es_tasks := filter (\<lambda>q. row_id q \<notin> set ids) (es_tasks s)\<rparr>))"

section \<open>Maintenance ownership\<close>

definition put_maintenance :: "maintenance_row \<Rightarrow> eph_state \<Rightarrow> eph_state" where
  "put_maintenance row s =
     s\<lparr>es_maintenance := filter (\<lambda>q. mr_name q \<noteq> mr_name row) (es_maintenance s) @ [row]\<rparr>"

definition eph_acquire_maintenance :: "eph_env \<Rightarrow> string \<Rightarrow> string \<Rightarrow> int \<Rightarrow> instant \<Rightarrow> (eph_state, bool) op" where
  "eph_acquire_maintenance env name token ttl now =
     eph_transaction env (\<lambda>s.
       let granted = (Inr True, put_maintenance \<lparr>mr_name = name, mr_token = token, mr_expires_at = iso_text (now + ttl)\<rparr> s)
       in case find (\<lambda>q. mr_name q = name) (es_maintenance s) of
            None \<Rightarrow> granted
          | Some q \<Rightarrow>
              (case jc_datetime (ee_codec env) (mr_expires_at q) of
                 None \<Rightarrow> (Inl ValueError, s)
               | Some until \<Rightarrow> if until > now \<and> mr_token q \<noteq> token then (Inr False, s) else granted))"

definition eph_release_maintenance :: "eph_env \<Rightarrow> string \<Rightarrow> string \<Rightarrow> (eph_state, bool) op" where
  "eph_release_maintenance env name token =
     eph_transaction env (\<lambda>s.
       (Inr (\<exists>q \<in> set (es_maintenance s). mr_name q = name \<and> mr_token q = token),
        s\<lparr>es_maintenance := filter (\<lambda>q. \<not> (mr_name q = name \<and> mr_token q = token)) (es_maintenance s)\<rparr>))"

section \<open>Identity reservations\<close>

definition read_reservation :: "json_codec \<Rightarrow> string \<Rightarrow> eph_state \<Rightarrow> task_reservation option result" where
  "read_reservation jc k s =
     (case find (\<lambda>q. rr_identity_key q = k) (es_reservations s) of
        None \<Rightarrow> Inr None
      | Some q \<Rightarrow>
          (case (uuid_parse (rr_task_id q), jc_datetime jc (rr_created_at q)) of
             (Some i, Some t) \<Rightarrow>
               Inr (Some \<lparr>res_key = rr_identity_key q, res_task_id = i, res_task_name = rr_task_name q, res_created_at = t\<rparr>)
           | _ \<Rightarrow> Inl ValueError))"

definition eph_reserve_identity ::
    "eph_env \<Rightarrow> string \<Rightarrow> uuid \<Rightarrow> string \<Rightarrow> instant \<Rightarrow> (eph_state, task_reservation option) op" where
  "eph_reserve_identity env k i name now =
     eph_transaction env (op_bind (op_read (read_reservation (ee_codec env) k)) (\<lambda>x.
       case x of
         Some owner \<Rightarrow> op_return (Some owner)
       | None \<Rightarrow> (\<lambda>s. (Inr None, s\<lparr>es_reservations := es_reservations s @
           [\<lparr>rr_identity_key = k, rr_task_id = uuid_str i, rr_task_name = name, rr_created_at = iso_text now\<rparr>]\<rparr>))))"

definition eph_has_identity :: "eph_env \<Rightarrow> string \<Rightarrow> (eph_state, task_reservation option) op" where
  "eph_has_identity env k = eph_run env (read_reservation (ee_codec env) k)"

definition eph_reset_identity :: "eph_env \<Rightarrow> string \<Rightarrow> uuid option \<Rightarrow> (eph_state, bool) op" where
  "eph_reset_identity env k expected_task_id =
     eph_transaction env (\<lambda>s.
       let hit = (\<lambda>q. rr_identity_key q = k \<and> fence (map_option uuid_str expected_task_id) (rr_task_id q))
       in (Inr (\<exists>q \<in> set (es_reservations s). hit q),
           s\<lparr>es_reservations := filter (\<lambda>q. \<not> hit q) (es_reservations s)\<rparr>))"

section \<open>Waiting and reset\<close>

definition eph_has_due_work :: "eph_env \<Rightarrow> instant \<Rightarrow> (eph_state, bool) op" where
  "eph_has_due_work env now = eph_run env (\<lambda>s.
     Inr (\<exists>q \<in> set (es_tasks s). waiting_row q \<and> due_row (iso_text now) q \<and> unexpired_row (iso_text now) q))"

definition eph_time_until_next_due ::
    "eph_env \<Rightarrow> string list \<Rightarrow> instant \<Rightarrow> instant \<Rightarrow> (eph_state, int option) op" where
  "eph_time_until_next_due env queues now now2 =
     op_bind (eph_run env (\<lambda>s. Inr
       (case List.map_filter (\<lambda>q.
             if waiting_row q \<and> unexpired_row (iso_text now) q \<and> in_queues queues (row_queue q)
             then (case row_scheduled_at q of None \<Rightarrow> None | Some t \<Rightarrow> if t > iso_text now then Some t else None)
             else None) (es_tasks s) of
          [] \<Rightarrow> None
        | t # ts \<Rightarrow> Some (fold min ts t)))) (\<lambda>x.
     case x of
       None \<Rightarrow> op_return None
     | Some t \<Rightarrow>
         (case jc_datetime (ee_codec env) t of
            None \<Rightarrow> op_raise ValueError
          | Some u \<Rightarrow> op_return (Some (max (u - now2) 0))))"

text \<open>
  \<open>wait_for_wakeups\<close> after its first test. One turn polls the database and the event (at different moments, so
  both are observations of the turn), reads the clock of the event loop and sleeps. The list holds what the turns
  observe; the result is the answer, \<open>None\<close> while the wait goes on, and the sleeps taken.
\<close>

definition MIN_POLL :: rat where
  "MIN_POLL = 1 / 100"

definition MAX_POLL :: rat where
  "MAX_POLL = 1 / 10"

definition poll_interval :: "rat option \<Rightarrow> rat" where
  "poll_interval configured = (case configured of None \<Rightarrow> MAX_POLL | Some p \<Rightarrow> min (max p MIN_POLL) MAX_POLL)"

record poll_turn =
  pt_due :: bool
  pt_notified :: bool
  pt_time :: rat

fun poll_loop :: "rat \<Rightarrow> rat option \<Rightarrow> poll_turn list \<Rightarrow> bool option \<times> rat list" where
  "poll_loop interval deadline [] = (None, [])"
| "poll_loop interval deadline (t # ts) =
     (if pt_due t \<or> pt_notified t then (Some True, [])
      else
        let remaining = (case deadline of None \<Rightarrow> interval | Some d \<Rightarrow> min interval (d - pt_time t))
        in if deadline \<noteq> None \<and> remaining \<le> 0 then (Some False, [])
           else let (x, sleeps) = poll_loop interval deadline ts in (x, remaining # sleeps))"

definition eph_wait_for_wakeups ::
    "rat option \<Rightarrow> rat option \<Rightarrow> rat \<Rightarrow> poll_turn list \<Rightarrow> eph_state \<Rightarrow> (bool option \<times> rat list) \<times> eph_state" where
  "eph_wait_for_wakeups configured timeout start turns s =
     (if es_notification s then ((Some True, []), s\<lparr>es_notification := False\<rparr>)
      else let (x, sleeps) = poll_loop (poll_interval configured) (map_option (\<lambda>t. start + t) timeout) turns
           in ((x, sleeps), if x = Some True then s\<lparr>es_notification := False\<rparr> else s))"

definition eph_clear :: "eph_env \<Rightarrow> (eph_state, unit) op" where
  "eph_clear env =
     op_bind (eph_transaction env (\<lambda>s. (Inr (), s\<lparr>es_tasks := [], es_reservations := [], es_maintenance := []\<rparr>))) (\<lambda>_ s.
       (Inr (), s\<lparr>es_notification := False\<rparr>))"

end
