(* ===== verification/Ephemeral_Table.thy ===== *)
theory Ephemeral_Table
  imports Ephemeral_Backend Memory_System
begin

text \<open>
  The table of the SQLite backend as an image of the records of the in-memory backend: what the columns of a row
  say of its record, and that reading, writing and inserting rows follow the dictionary of records.
\<close>

section \<open>Rows of records\<close>

definition row_of :: "json_codec \<Rightarrow> task_record \<Rightarrow> task_row" where
  "row_of jc r = projr (task_columns jc r)"

named_theorems row_facts \<open>what a row says of its record\<close>

lemma task_columns_row: "storable jc r \<Longrightarrow> task_columns jc r = Inr (row_of jc r)"
  using payload_kept [of jc r] by (auto simp: row_of_def task_columns_def)

lemma row_columns [row_facts]:
  assumes "storable jc r"
  shows "row_id (row_of jc r) = uuid_str (rid r)" "row_task_name (row_of jc r) = task_name r"
    "row_queue (row_of jc r) = queue r" "row_execution_backend (row_of jc r) = execution_backend r"
    "row_status (row_of jc r) = status_name (status r)" "row_priority (row_of jc r) = priority r"
    "row_retry_count (row_of jc r) = retry_count r" "row_scheduled_at (row_of jc r) = map_option iso_text (scheduled_at r)"
    "row_expires_at (row_of jc r) = map_option iso_text (expires_at r)" "row_created_at (row_of jc r) = iso_text (created_at r)"
    "row_queued_at (row_of jc r) = iso_text (queued_at r)" "row_completed_at (row_of jc r) = map_option iso_text (completed_at r)"
    "row_dispatch_checked_at (row_of jc r) = map_option iso_text (dispatch_checked_at r)" "row_key (row_of jc r) = key r"
  using payload_kept [OF assms] by (auto simp: row_of_def task_columns_def)

lemma decode_row_of [row_facts]: "storable jc r \<Longrightarrow> decode_row jc (row_of jc r) = Inr r"
  using payload_kept [of jc r] by (auto simp: row_of_def task_columns_def decode_row_def)

lemma decode_rows [row_facts]: "(\<And>r. r \<in> set rs \<Longrightarrow> storable jc r) \<Longrightarrow> decode_all jc (map (row_of jc) rs) = Inr rs"
  by (induction rs) (simp_all add: row_facts)

lemma decode_option_row: "(\<And>r. x = Some r \<Longrightarrow> storable jc r) \<Longrightarrow> decode_option jc (map_option (row_of jc) x) = Inr x"
  by (cases x) (simp_all add: decode_option_def decode_row_of)

lemma find_member: "find P xs = Some x \<Longrightarrow> x \<in> set xs"
  by (metis find_Some_iff nth_mem)

lemma storable_times:
  assumes "storable jc r"
  shows "\<And>t. scheduled_at r = Some t \<Longrightarrow> datetime_range t" "\<And>t. expires_at r = Some t \<Longrightarrow> datetime_range t"
    "datetime_range (created_at r)" "datetime_range (queued_at r)"
    "\<And>t. completed_at r = Some t \<Longrightarrow> datetime_range t" "\<And>t. dispatch_checked_at r = Some t \<Longrightarrow> datetime_range t"
    "rid r < 16 ^ 32"
  using assms by (simp_all add: storable_def in_range_def record_datetimes_def)

lemma iso_le: "datetime_range t \<Longrightarrow> datetime_range u \<Longrightarrow> iso_text t \<le> iso_text u \<longleftrightarrow> t \<le> u"
  using iso_text_compare(1) [of u t] by (simp add: linorder_not_less [symmetric])

lemma row_tests [row_facts]:
  assumes "storable jc r"
  shows "waiting_row (row_of jc r) \<longleftrightarrow> is_waiting r" "live_row (row_of jc r) \<longleftrightarrow> \<not> is_terminal r"
    "row_status (row_of jc r) = ''running'' \<longleftrightarrow> status r = Running"
    "row_status (row_of jc r) \<in> set TERMINAL_TEXTS \<longleftrightarrow> is_terminal r"
  by (cases "status r"; simp add: row_columns [OF assms] waiting_row_def live_row_def WAITING_TEXTS_def TERMINAL_TEXTS_def
      is_waiting_def is_terminal_simp)+

lemma row_clock [row_facts]:
  assumes "storable jc r" "datetime_range now"
  shows "due_row (iso_text now) (row_of jc r) \<longleftrightarrow> is_due now r"
    "unexpired_row (iso_text now) (row_of jc r) \<longleftrightarrow> \<not> is_expired now r"
    "expired_row (iso_text now) (row_of jc r) \<longleftrightarrow> is_expired now r"
  using storable_times(1,2) [OF assms(1)] assms(2)
  by (auto simp: row_columns [OF assms(1)] due_row_def unexpired_row_def expired_row_def is_due_def is_expired_def iso_le
      iso_text_compare(1) split: option.splits)

lemma row_id_eq [row_facts]: "storable jc r \<Longrightarrow> i < 16 ^ 32 \<Longrightarrow> row_id (row_of jc r) = uuid_str i \<longleftrightarrow> rid r = i"
  unfolding row_columns(1) by (rule uuid_str_order(2) [OF storable_times(7)])

lemma row_id_same: "storable jc p \<Longrightarrow> storable jc r \<Longrightarrow> row_id (row_of jc p) = row_id (row_of jc r) \<longleftrightarrow> rid p = rid r"
  unfolding row_columns(1) by (rule uuid_str_order(2) [OF storable_times(7) storable_times(7)])

lemma find_map_cong:
  "(\<And>x. x \<in> set xs \<Longrightarrow> P (f x) \<longleftrightarrow> Q x) \<Longrightarrow> find P (map f xs) = map_option f (find Q xs)"
  by (induction xs) auto

lemma filter_map_cong:
  "(\<And>x. x \<in> set xs \<Longrightarrow> P (f x) \<longleftrightarrow> Q x) \<Longrightarrow> filter P (map f xs) = map f (filter Q xs)"
  by (induction xs) auto

lemma insort_key_same_order:
  "(\<And>y. y \<in> set xs \<Longrightarrow> f x \<le> f y \<longleftrightarrow> g x \<le> g y) \<Longrightarrow> insort_key f x xs = insort_key g x xs"
  by (induction xs) auto

lemma sort_key_same_order:
  "(\<And>x y. x \<in> set xs \<Longrightarrow> y \<in> set xs \<Longrightarrow> f x \<le> f y \<longleftrightarrow> g x \<le> g y) \<Longrightarrow> sort_key f xs = sort_key g xs"
proof (induction xs)
  case (Cons x xs)
  have "sort_key f xs = sort_key g xs" by (rule Cons.IH) (simp add: Cons.prems)
  moreover have "insort_key f x (sort_key g xs) = insort_key g x (sort_key g xs)"
    by (rule insort_key_same_order) (simp add: Cons.prems)
  ultimately show ?case by simp
qed simp

lemma sort_rows:
  assumes "\<And>x y. x \<in> set rs \<Longrightarrow> y \<in> set rs \<Longrightarrow> k (f x) \<le> k (f y) \<longleftrightarrow> h x \<le> h y"
  shows "sort_key k (map f rs) = map f (sort_key h rs)"
  by (simp add: sort_key_map [symmetric] sort_key_same_order [OF assms])

section \<open>The relation\<close>

definition state_storable :: "json_codec \<Rightarrow> mem_state \<Rightarrow> bool" where
  "state_storable jc s \<longleftrightarrow>
     (\<forall>r \<in> set (mem_values s). storable jc r) \<and>
     (\<forall>k v. dict_get (mem_reservations s) k = Some v \<longrightarrow> res_key v = k \<and> res_task_id v < 16 ^ 32 \<and>
        jc_datetime jc (iso_text (res_created_at v)) = Some (res_created_at v)) \<and>
     (\<forall>k h t. dict_get (mem_maintenances s) k = Some (h, t) \<longrightarrow> jc_datetime jc (iso_text t) = Some t)"

text \<open>
  The database mirrors the in-memory backend: the rows are those of the records, the other tables answer as its
  dictionaries do, and a wakeup the in-memory backend has pending is pending.
\<close>

definition mirrors :: "json_codec \<Rightarrow> mem_state \<Rightarrow> eph_state \<Rightarrow> bool" where
  "mirrors jc ms es \<longleftrightarrow>
     es_path es \<noteq> None \<and> es_tasks es = map (row_of jc) (mem_values ms) \<and>
     distinct (map rr_identity_key (es_reservations es)) \<and> distinct (map mr_name (es_maintenance es)) \<and>
     (\<forall>k. find (\<lambda>q. rr_identity_key q = k) (es_reservations es) =
        map_option (\<lambda>v. \<lparr>rr_identity_key = k, rr_task_id = uuid_str (res_task_id v), rr_task_name = res_task_name v,
          rr_created_at = iso_text (res_created_at v)\<rparr>) (dict_get (mem_reservations ms) k)) \<and>
     (\<forall>k. find (\<lambda>q. mr_name q = k) (es_maintenance es) =
        map_option (\<lambda>(h, t). \<lparr>mr_name = k, mr_token = h, mr_expires_at = iso_text t\<rparr>) (dict_get (mem_maintenances ms) k)) \<and>
     (mem_notification ms \<longrightarrow> es_notification es)"

lemma state_storableD: "state_storable jc s \<Longrightarrow> r \<in> set (mem_values s) \<Longrightarrow> storable jc r"
  unfolding state_storable_def by blast

lemma mirrorsD:
  assumes "mirrors jc ms es"
  shows "es_path es \<noteq> None" "es_tasks es = map (row_of jc) (mem_values ms)"
  using assms by (simp_all add: mirrors_def)

lemma find_lookup:
  assumes "mem_wf s"
  shows "find (\<lambda>r. rid r = i) (mem_values s) = lookup s i"
proof -
  have "find (\<lambda>r. rid r = i) (map snd recs) = dict_get recs i" if "map rid (map snd recs) = dict_keys recs" for recs
    using that by (induction recs) auto
  with mem_wf_distinct_rids(1) [OF assms] show ?thesis by blast
qed

lemma lookup_values: "lookup s i = Some r \<Longrightarrow> r \<in> set (mem_values s)"
  by (force dest: map_of_SomeD)

lemma fetch_mirrored:
  assumes wf: "mem_wf ms" and m: "mirrors jc ms es" and st: "state_storable jc ms" and i: "i < 16 ^ 32"
  shows "eph_fetch jc i es = Inr (lookup ms i)"
proof -
  note st = state_storableD [OF st]
  have "find (\<lambda>q. row_id q = uuid_str i) (es_tasks es) = map_option (row_of jc) (lookup ms i)"
    unfolding mirrorsD(2) [OF m] find_lookup [OF wf, symmetric] by (rule find_map_cong) (rule row_id_eq [OF st i])
  then show ?thesis
    by (auto simp: eph_fetch_def decode_option_def row_facts st dest: lookup_values split: option.split)
qed

section \<open>Writes\<close>

lemma replace_row_mirrored:
  assumes "map rid (map snd recs) = dict_keys recs" "distinct (dict_keys recs)" "rid r \<in> fst ` set recs"
    and "storable jc r" "\<And>q. q \<in> set (map snd recs) \<Longrightarrow> storable jc q"
  shows "replace_row (row_of jc r) (map (row_of jc) (map snd recs)) = map (row_of jc) (map snd (dict_set (rid r) r recs))"
  using assms
proof (induction recs)
  case (Cons x recs)
  obtain k q where x: "x = (k, q)" by (cases x)
  have q: "storable jc q" "rid q = k" using Cons.prems by (simp_all add: x)
  have same: "row_id (row_of jc p) = row_id (row_of jc r) \<longleftrightarrow> rid p = rid r" if "storable jc p" for p
    by (rule row_id_same [OF that Cons.prems(4)])
  show ?case
  proof (cases "k = rid r")
    case True
    have "rid p \<noteq> rid r" if "p \<in> set (map snd recs)" for p
    proof -
      have "map rid (map snd recs) = dict_keys recs" using Cons.prems(1) by (simp add: x)
      moreover have "rid p \<in> set (map rid (map snd recs))" using that by (simp only: set_map imageI)
      ultimately have "rid p \<in> set (dict_keys recs)" by simp
      with Cons.prems(2) True show ?thesis by (force simp: x)
    qed
    then show ?thesis using Cons.prems(5) True q by (auto simp: x replace_row_def same)
  next
    case False
    then have "replace_row (row_of jc r) (map (row_of jc) (map snd recs)) = map (row_of jc) (map snd (dict_set (rid r) r recs))"
      using Cons.prems by (intro Cons.IH) (auto simp: x)
    with False show ?thesis using q by (simp add: x replace_row_def same)
  qed
qed simp

lemma mirrors_records:
  assumes "mirrors jc ms es" "es_tasks es' = map (row_of jc) (mem_values ms')" "es_path es' = es_path es"
    "es_reservations es' = es_reservations es" "es_maintenance es' = es_maintenance es"
    "mem_reservations ms' = mem_reservations ms" "mem_maintenances ms' = mem_maintenances ms"
    "mem_notification ms' \<longrightarrow> mem_notification ms" "es_notification es \<longrightarrow> es_notification es'"
  shows "mirrors jc ms' es'"
  using assms by (simp add: mirrors_def)

lemma live_key_owner:
  assumes "mem_wf s" "q \<in> set (mem_values s)" "\<not> is_terminal q" "key q = Some k"
  shows "dict_get (mem_keys s) k = Some (rid q)"
  using keys_consistentD(2) [OF mem_wfD(4) [OF assms(1)] mem_wf_values [OF assms(1,2)] assms(3,4)] .

lemma write_mirrored:
  assumes wf: "mem_wf ms" and m: "mirrors jc ms es" and st: "state_storable jc ms"
    and r: "lookup ms (rid r') = Some r" "evolves r r'" "storable jc r'"
  shows "\<exists>es'. eph_write jc r' es = (Inr (), es') \<and> mirrors jc (put_record r' ms) es'"
proof -
  note stq = state_storableD [OF st]
  have ids: "map rid (mem_values ms) = dict_keys (mem_records ms)" "distinct (dict_keys (mem_records ms))"
    using mem_wf_distinct_rids(1) [OF wf] mem_wfD(1) [OF wf] by simp_all
  have "\<not> key_taken (row_of jc r') (es_tasks es)"
  proof
    assume "key_taken (row_of jc r') (es_tasks es)"
    then obtain q where q: "q \<in> set (mem_values ms)" "row_id (row_of jc q) \<noteq> row_id (row_of jc r')"
      "row_key (row_of jc q) = row_key (row_of jc r')" "row_key (row_of jc r') \<noteq> None" "live_row (row_of jc q)" "live_row (row_of jc r')"
      unfolding key_taken_def mirrorsD(2) [OF m] set_map [of "row_of jc"] by blast
    then obtain k where k: "key q = Some k" "key r' = Some k" by (auto simp only: row_columns(14) [OF stq] row_columns(14) [OF r(3)])
    have "\<not> is_terminal q" "\<not> is_terminal r'" using q r(3) stq by (simp_all add: row_facts)
    moreover have "r \<in> set (mem_values ms)" "key r = Some k" "rid r = rid r'"
      using r k lookup_values [OF r(1)] by (simp_all add: evolves_def)
    ultimately have "rid q = rid r'"
      using live_key_owner [OF wf q(1) _ k(1)] live_key_owner [OF wf, of r k] evolves_not_terminal [OF r(2)] by simp
    with q(1,2) stq r(3) show False by (simp add: row_id_same)
  qed
  then have w: "eph_write jc r' es = (Inr (), es\<lparr>es_tasks := replace_row (row_of jc r') (es_tasks es)\<rparr>)"
    by (simp add: eph_write_def task_columns_row [OF r(3)])
  have "rid r' \<in> fst ` set (mem_records ms)" using r(1) by (force dest: map_of_SomeD)
  from replace_row_mirrored [OF ids this r(3) stq]
  have "mirrors jc (put_record r' ms) (es\<lparr>es_tasks := replace_row (row_of jc r') (es_tasks es)\<rparr>)"
    by (intro mirrors_records [OF m]) (simp_all add: put_record_def mirrorsD(2) [OF m])
  with w show ?thesis by blast
qed

end
