(* ===== verification/Ephemeral_Refinement.thy ===== *)
theory Ephemeral_Refinement
  imports Ephemeral_Table
begin

text \<open>
  The SQLite backend against the in-memory one, operation by operation: over a database that mirrors the in-memory
  state, an operation gives the same answer and leaves a database that mirrors the new state.
\<close>

section \<open>Agreement of operations\<close>

definition agrees ::
    "eph_env \<Rightarrow> mem_state \<Rightarrow> (eph_state, 'a) op \<Rightarrow> 'a result \<Rightarrow> mem_state \<Rightarrow> bool" where
  "agrees env ms m x ms' \<longleftrightarrow>
     (\<forall>es. mirrors (ee_codec env) ms es \<longrightarrow> (\<exists>es'. m es = (x, es') \<and> mirrors (ee_codec env) ms' es'))"

definition ready :: "eph_env \<Rightarrow> mem_state \<Rightarrow> bool" where
  "ready env ms \<longleftrightarrow> mem_wf ms \<and> state_storable (ee_codec env) ms \<and> ee_failure env = None"

named_theorems agree \<open>agreement of an operation with the in-memory backend\<close>

lemma agrees_return [agree]: "agrees env ms (op_return x) (Inr x) ms"
  by (simp add: agrees_def op_return_def)

lemma agrees_raise [agree]: "agrees env ms (op_raise e) (Inl e) ms"
  by (simp add: agrees_def op_raise_def)

lemma agrees_bind:
  "agrees env ms m (Inr x) ms1 \<Longrightarrow> agrees env ms1 (f x) y ms2 \<Longrightarrow> agrees env ms (op_bind m f) y ms2"
  unfolding agrees_def by (metis op_bind_simps(2))

lemma agrees_read: "(\<And>es. mirrors (ee_codec env) ms es \<Longrightarrow> q es = Inr x) \<Longrightarrow> agrees env ms (op_read q) (Inr x) ms"
  by (simp add: agrees_def op_read_def)

lemma agrees_transaction:
  "ready env ms \<Longrightarrow> agrees env ms body (Inr x) ms' \<Longrightarrow> agrees env ms (eph_transaction env body) (Inr x) ms'"
  unfolding agrees_def
  by (auto simp: ready_def eph_transaction_def dest: mirrorsD(1) split: option.splits)

lemma agrees_fetch: "ready env ms \<Longrightarrow> i < 16 ^ 32 \<Longrightarrow>
  agrees env ms (op_read (eph_fetch (ee_codec env) i)) (Inr (lookup ms i)) ms"
  by (rule agrees_read) (simp only: ready_def fetch_mirrored)

lemma agrees_write:
  "ready env ms \<Longrightarrow> lookup ms (rid r') = Some r \<Longrightarrow> evolves r r' \<Longrightarrow> storable (ee_codec env) r' \<Longrightarrow>
   agrees env ms (eph_write (ee_codec env) r') (Inr ()) (put_record r' ms)"
  unfolding agrees_def ready_def by (blast intro: write_mirrored)

lemma agrees_update:
  assumes r: "ready env ms" and i: "i < 16 ^ 32"
    and f: "\<And>q. lookup ms i = Some q \<Longrightarrow> guard q \<Longrightarrow> evolves q (f q)"
    and st: "state_storable (ee_codec env) (snd (modify_if i guard f ms))"
  shows "agrees env ms (eph_update env i guard f) (Inr (fst (modify_if i guard f ms))) (snd (modify_if i guard f ms))"
  unfolding eph_update_def
proof (rule agrees_transaction [OF r agrees_bind [OF agrees_fetch [OF r i]]])
  show "agrees env ms (case lookup ms i of None \<Rightarrow> op_return None
      | Some q \<Rightarrow> if guard q then op_bind (eph_write (ee_codec env) (f q)) (\<lambda>_. op_return (Some (f q))) else op_return None)
     (Inr (fst (modify_if i guard f ms))) (snd (modify_if i guard f ms))"
  proof (cases "\<exists>q. lookup ms i = Some q \<and> guard q")
    case True
    then obtain q where q: "lookup ms i = Some q" "guard q" by blast
    have id: "rid (f q) = i" using f [OF q] mem_wfD(2) [of ms i q] r q by (simp add: evolves_def ready_def)
    have m: "modify_if i guard f ms = (Some (f q), put_record (f q) ms)" using q by (simp add: modify_if_def put_record_def id)
    have "f q \<in> set (mem_values (put_record (f q) ms))" by (rule lookup_values [where i = i]) (simp add: put_record_def id dict_simps)
    with st have "storable (ee_codec env) (f q)" by (simp add: m state_storableD)
    with q show ?thesis
      by (simp add: m, intro agrees_bind [OF agrees_write [OF r _ f [OF q]] agrees_return]) (simp_all add: id)
  next
    case False
    then show ?thesis by (auto simp: modify_if_def agree split: option.split)
  qed
qed

lemma agrees_notified:
  assumes "agrees env ms m (Inr (fst res)) (snd res)"
  shows "agrees env ms (then_notified now m) (Inr (fst (then_notify now res))) (snd (then_notify now res))"
proof -
  obtain x s where res: "res = (x, s)" by (cases res)
  have "agrees env s (\<lambda>es. (Inr x, case x of None \<Rightarrow> es | Some r \<Rightarrow> eph_notify_new_task now r es))
      (Inr (fst (then_notify now res))) (snd (then_notify now res))"
    unfolding agrees_def
    by (cases x) (auto simp: res then_notify_def eph_notify_new_task_def notify_new_task_def mirrors_def)
  with assms show ?thesis unfolding then_notified_def res by (auto intro: agrees_bind)
qed

section \<open>Operations on one record\<close>

lemma agrees_single:
  assumes r: "ready env ms" and i: "i < 16 ^ 32"
  shows
   "state_storable (ee_codec env) (snd (assign_worker i w n ms)) \<Longrightarrow>
      agrees env ms (eph_assign_worker env i w n) (Inr (fst (assign_worker i w n ms))) (snd (assign_worker i w n ms))"
   "state_storable (ee_codec env) (snd (complete_task i v (Some n) now ms)) \<Longrightarrow>
      agrees env ms (eph_complete_task env i v (Some n) now)
        (Inr (fst (complete_task i v (Some n) now ms))) (snd (complete_task i v (Some n) now ms))"
   "state_storable (ee_codec env) (snd (fail_task i err retry (Some n) ra q now ms)) \<Longrightarrow>
      agrees env ms (eph_fail_task env i err retry (Some n) ra q now)
        (Inr (fst (fail_task i err retry (Some n) ra q now ms))) (snd (fail_task i err retry (Some n) ra q now ms))"
   "state_storable (ee_codec env) (snd (interrupt_task i n w now ms)) \<Longrightarrow>
      agrees env ms (eph_interrupt_task env i n w now) (Inr (fst (interrupt_task i n w now ms))) (snd (interrupt_task i n w now ms))"
   "state_storable (ee_codec env) (snd (replace_execution_ref i n x y ms)) \<Longrightarrow>
      agrees env ms (eph_replace_execution_ref env i n x y)
        (Inr (fst (replace_execution_ref i n x y ms))) (snd (replace_execution_ref i n x y ms))"
   "state_storable (ee_codec env) (snd (finalize_external_dispatch i x eb y p ms)) \<Longrightarrow>
      agrees env ms (eph_finalize_external_dispatch env i x eb y p)
        (Inr (fst (finalize_external_dispatch i x eb y p ms))) (snd (finalize_external_dispatch i x eb y p ms))"
   "state_storable (ee_codec env) (snd (set_execution_ref i eb y p ms)) \<Longrightarrow>
      agrees env ms (eph_set_execution_ref env i eb y p)
        (Inr (fst (set_execution_ref i eb y p ms))) (snd (set_execution_ref i eb y p ms))"
  unfolding eph_assign_worker_def assign_worker_def eph_complete_task_def complete_task_def eph_fail_task_def fail_task_def
    eph_interrupt_task_def interrupt_task_def eph_replace_execution_ref_def replace_execution_ref_def
    eph_finalize_external_dispatch_def finalize_external_dispatch_def eph_set_execution_ref_def set_execution_ref_def
  by (rule agrees_update [OF r i]; (assumption | auto simp: attempt_fence_def intro: evolve_intros))+

lemma storable_notified: "state_storable jc (snd (then_notify now res)) \<longleftrightarrow> state_storable jc (snd res)"
  by (cases res; cases "fst res") (simp_all add: then_notify_def notify_new_task_def state_storable_def)

lemma agrees_notifying:
  assumes r: "ready env ms" and i: "i < 16 ^ 32"
  shows
   "state_storable (ee_codec env) (snd (clear_execution_ref i n x now ms)) \<Longrightarrow>
      agrees env ms (eph_clear_execution_ref env i n x now)
        (Inr (fst (clear_execution_ref i n x now ms))) (snd (clear_execution_ref i n x now ms))"
   "state_storable (ee_codec env) (snd (release_external_dispatch i x eb p now ms)) \<Longrightarrow>
      agrees env ms (eph_release_external_dispatch env i x eb p now)
        (Inr (fst (release_external_dispatch i x eb p now ms))) (snd (release_external_dispatch i x eb p now ms))"
   "state_storable (ee_codec env) (snd (set_execution_backend i eb p now ms)) \<Longrightarrow>
      agrees env ms (eph_set_execution_backend env i eb p now)
        (Inr (fst (set_execution_backend i eb p now ms))) (snd (set_execution_backend i eb p now ms))"
  unfolding eph_clear_execution_ref_def clear_execution_ref_def eph_release_external_dispatch_def release_external_dispatch_def
    eph_set_execution_backend_def set_execution_backend_def storable_notified
  by (rule agrees_notified, rule agrees_update [OF r i]; (assumption | auto intro: evolve_intros))+

text \<open>Writing one changed record and answering.\<close>

lemma agrees_put:
  assumes r: "ready env ms" and q: "lookup ms i = Some q" "evolves q r'"
    and st: "state_storable (ee_codec env) (ms\<lparr>mem_records := dict_set i r' (mem_records ms)\<rparr>)"
  shows "agrees env ms (op_bind (eph_write (ee_codec env) r') (\<lambda>_. op_return x)) (Inr x)
    (ms\<lparr>mem_records := dict_set i r' (mem_records ms)\<rparr>)"
proof -
  let ?s = "ms\<lparr>mem_records := dict_set i r' (mem_records ms)\<rparr>"
  have id: "rid r' = i" using q mem_wfD(2) [of ms i q] r by (simp add: evolves_def ready_def)
  have s: "?s = put_record r' ms" by (simp add: put_record_def id)
  have "r' \<in> set (mem_values ?s)" by (rule lookup_values [where i = i]) (simp add: dict_simps)
  from agrees_write [OF r _ q(2) state_storableD [OF st this]] q(1) id
  have "agrees env ms (eph_write (ee_codec env) r') (Inr ()) ?s" by (simp add: s)
  then show ?thesis by (rule agrees_bind) (rule agrees_return)
qed

lemma agrees_cancel_task:
  assumes "ready env ms" "i < 16 ^ 32" "state_storable (ee_codec env) (snd (cancel_task i b n now ms))"
  shows "agrees env ms (eph_cancel_task env i b n now) (Inr (fst (cancel_task i b n now ms))) (snd (cancel_task i b n now ms))"
proof -
  obtain x s where m: "modify_if i (\<lambda>r. cancellable b r \<and> fence n (retry_count r)) (cancel_record now) ms = (x, s)" by (meson surj_pair)
  have "agrees env ms (eph_update env i (\<lambda>r. cancellable b r \<and> fence n (retry_count r)) (cancel_record now)) (Inr x) s"
    using agrees_update [OF assms(1,2), of "\<lambda>r. cancellable b r \<and> fence n (retry_count r)" "cancel_record now"] assms(3)
    by (auto simp: m cancel_task_def intro: evolve_intros)
  then have "agrees env ms (eph_cancel_task env i b n now) (Inr (x \<noteq> None)) s"
    unfolding eph_cancel_task_def by (rule agrees_bind) (rule agrees_return)
  then show ?thesis by (simp add: cancel_task_def m)
qed

lemma agrees_claim_task:
  assumes r: "ready env ms" and i: "i < 16 ^ 32"
    and st: "state_storable (ee_codec env) (snd (claim_task_with_expired i n ref t now ms))"
  shows "agrees env ms (eph_claim_task_with_expired env i n ref t now)
    (Inr (fst (claim_task_with_expired i n ref t now ms))) (snd (claim_task_with_expired i n ref t now ms))"
  unfolding eph_claim_task_with_expired_def
proof (rule agrees_transaction [OF r agrees_bind [OF agrees_fetch [OF r i]]], cases "lookup ms i")
  case (Some q)
  have w: "evolves q (expire_record now q)" "evolves q (start_record now q)" if "claimable t n ref q"
    using that by (auto simp: claimable_def intro: evolve_intros)
  show "agrees env ms (case lookup ms i of None \<Rightarrow> op_return (None, None)
      | Some r \<Rightarrow> if \<not> claimable t n ref r then op_return (None, None)
          else if execution_ref r = None \<and> is_expired now r
          then op_bind (eph_write (ee_codec env) (expire_record now r)) (\<lambda>_. op_return (None, Some (expire_record now r)))
          else op_bind (eph_write (ee_codec env) (start_record now r)) (\<lambda>_. op_return (Some (start_record now r), None)))
     (Inr (fst (claim_task_with_expired i n ref t now ms))) (snd (claim_task_with_expired i n ref t now ms))"
  proof (cases "claimable t n ref q")
    case c: True
    show ?thesis
    proof (cases "execution_ref q = None \<and> is_expired now q")
      case True
      with st Some c have "state_storable (ee_codec env) (ms\<lparr>mem_records := dict_set i (expire_record now q) (mem_records ms)\<rparr>)"
        by (simp add: claim_task_with_expired_def)
      from agrees_put [OF r Some w(1) [OF c] this] show ?thesis using Some c True by (simp add: claim_task_with_expired_def)
    next
      case False
      with st Some c have "state_storable (ee_codec env) (ms\<lparr>mem_records := dict_set i (start_record now q) (mem_records ms)\<rparr>)"
        by (simp only: claim_task_with_expired_def option.case if_False simp_thms snd_conv)
      from agrees_put [OF r Some w(2) [OF c] this] show ?thesis using Some c False
        by (simp only: claim_task_with_expired_def option.case if_False simp_thms fst_conv snd_conv)
    qed
  qed (simp add: claim_task_with_expired_def Some agree)
qed (simp add: claim_task_with_expired_def agree)

lemma agrees_reserve_external:
  assumes r: "ready env ms" and i: "i < 16 ^ 32"
    and st: "state_storable (ee_codec env) (snd (reserve_external_dispatch i eb ref p n now t ms))"
  shows "agrees env ms (eph_reserve_external_dispatch env i eb ref p n now t)
    (Inr (fst (reserve_external_dispatch i eb ref p n now t ms))) (snd (reserve_external_dispatch i eb ref p n now t ms))"
  unfolding eph_reserve_external_dispatch_def
proof (rule agrees_transaction [OF r agrees_bind [OF agrees_fetch [OF r i]]], cases "lookup ms i")
  case (Some q)
  define blocked where "blocked \<longleftrightarrow> \<not> is_waiting q \<or> \<not> is_due t q \<or> execution_ref q \<noteq> None \<or> \<not> fence n (retry_count q)"
  have w: "evolves q (expire_record now q)" if "\<not> blocked" using that by (auto simp: blocked_def intro: evolve_intros)
  show "agrees env ms (case lookup ms i of None \<Rightarrow> op_return None
      | Some r \<Rightarrow> if \<not> is_waiting r \<or> \<not> is_due t r \<or> execution_ref r \<noteq> None \<or> \<not> fence n (retry_count r) then op_return None
          else if is_expired now r then op_bind (eph_write (ee_codec env) (expire_record now r)) (\<lambda>_. op_return None)
          else let r' = r\<lparr>execution_backend := eb, execution_profile := p, execution_ref := Some ref\<rparr>
               in op_bind (eph_write (ee_codec env) r') (\<lambda>_. op_return (Some r')))
     (Inr (fst (reserve_external_dispatch i eb ref p n now t ms))) (snd (reserve_external_dispatch i eb ref p n now t ms))"
    unfolding reserve_external_dispatch_def Some option.case blocked_def [symmetric] Let_def
    using st [unfolded reserve_external_dispatch_def Some option.case blocked_def [symmetric] Let_def]
      agrees_put [OF r Some w] agrees_put [OF r Some evolves_ref(2)]
    by (cases blocked; cases "is_expired now q") (simp_all only: if_True if_False simp_thms fst_conv snd_conv agrees_return)
qed (simp add: reserve_external_dispatch_def agree)

lemma agrees_reserve_scheduled:
  assumes r: "ready env ms" and i: "i < 16 ^ 32" and now: "datetime_range now"
    and st: "state_storable (ee_codec env) (snd (reserve_scheduled_execution_ref i eb ref n expected now ms))"
  shows "agrees env ms (eph_reserve_scheduled_execution_ref env i eb ref n expected now)
    (Inr (fst (reserve_scheduled_execution_ref i eb ref n expected now ms)))
    (snd (reserve_scheduled_execution_ref i eb ref n expected now ms))"
proof -
  define fits where "fits q \<longleftrightarrow> execution_backend q = eb \<and> retry_count q = n \<and> is_waiting q \<and> \<not> is_expired now q" for q
  note stq = state_storableD [OF conjunct1 [OF conjunct2 [OF r [unfolded ready_def]]]]
  have read: "agrees env ms (op_read (\<lambda>s. decode_option (ee_codec env)
      (find (\<lambda>q. row_id q = uuid_str i \<and> row_execution_backend q = eb \<and> row_retry_count q = n \<and>
          waiting_row q \<and> unexpired_row (iso_text now) q) (es_tasks s))))
      (Inr (find (\<lambda>q. rid q = i \<and> fits q) (mem_values ms))) ms"
  proof (rule agrees_read)
    fix es assume m: "mirrors (ee_codec env) ms es"
    have f: "find (\<lambda>q. row_id q = uuid_str i \<and> row_execution_backend q = eb \<and> row_retry_count q = n \<and>
          waiting_row q \<and> unexpired_row (iso_text now) q) (es_tasks es)
        = map_option (row_of (ee_codec env)) (find (\<lambda>q. rid q = i \<and> fits q) (mem_values ms))"
      unfolding mirrorsD(2) [OF m]
      by (rule find_map_cong) (simp only: row_id_eq [OF stq i] row_columns(4,7) [OF stq] row_tests(1) [OF stq] row_clock(2) [OF stq now] fits_def)
    show "decode_option (ee_codec env) (find (\<lambda>q. row_id q = uuid_str i \<and> row_execution_backend q = eb \<and> row_retry_count q = n \<and>
          waiting_row q \<and> unexpired_row (iso_text now) q) (es_tasks es)) = Inr (find (\<lambda>q. rid q = i \<and> fits q) (mem_values ms))"
      unfolding f by (rule decode_option_row) (metis stq find_member)
  qed
  have found: "find (\<lambda>q. rid q = i \<and> fits q) (mem_values ms) = (case lookup ms i of None \<Rightarrow> None | Some q \<Rightarrow> if fits q then Some q else None)"
  proof -
    have wf: "mem_wf ms" using r by (simp add: ready_def)
    have "find (\<lambda>q. rid q = i \<and> fits q) (map snd recs) = (case dict_get recs i of None \<Rightarrow> None | Some q \<Rightarrow> if fits q then Some q else None)"
      if "map rid (map snd recs) = dict_keys recs" "distinct (dict_keys recs)" for recs
      using that
    proof (induction recs)
      case (Cons x recs)
      then have "find (\<lambda>q. rid q = i \<and> fits q) (map snd recs) = (case dict_get recs i of None \<Rightarrow> None | Some q \<Rightarrow> if fits q then Some q else None)"
        by simp
      moreover have "dict_get recs (fst x) = None" using Cons.prems(2) by (simp add: map_of_eq_None_iff)
      ultimately show ?case using Cons.prems(1) by (cases x) auto
    qed simp
    with mem_wf_distinct_rids(1) [OF wf] mem_wfD(1) [OF wf] show ?thesis by blast
  qed
  show ?thesis
    unfolding eph_reserve_scheduled_execution_ref_def
  proof (rule agrees_transaction [OF r agrees_bind [OF read]], cases "\<exists>q. lookup ms i = Some q \<and> fits q \<and> execution_ref q = expected")
    case True
    then obtain q where q: "lookup ms i = Some q" "fits q" "execution_ref q = expected" by blast
    then show "agrees env ms (case find (\<lambda>q. rid q = i \<and> fits q) (mem_values ms) of None \<Rightarrow> op_return None
        | Some r \<Rightarrow> if execution_ref r \<noteq> expected then op_return None
            else let r' = r\<lparr>execution_ref := Some ref\<rparr> in op_bind (eph_write (ee_codec env) r') (\<lambda>_. op_return (Some r')))
       (Inr (fst (reserve_scheduled_execution_ref i eb ref n expected now ms)))
       (snd (reserve_scheduled_execution_ref i eb ref n expected now ms))"
      unfolding found using agrees_put [OF r q(1) evolves_ref(1)] st
      by (simp add: Let_def reserve_scheduled_execution_ref_def modify_if_def fits_def)
  next
    case False
    then show "agrees env ms (case find (\<lambda>q. rid q = i \<and> fits q) (mem_values ms) of None \<Rightarrow> op_return None
        | Some r \<Rightarrow> if execution_ref r \<noteq> expected then op_return None
            else let r' = r\<lparr>execution_ref := Some ref\<rparr> in op_bind (eph_write (ee_codec env) r') (\<lambda>_. op_return (Some r')))
       (Inr (fst (reserve_scheduled_execution_ref i eb ref n expected now ms)))
       (snd (reserve_scheduled_execution_ref i eb ref n expected now ms))"
      unfolding found
      by (auto simp: Let_def reserve_scheduled_execution_ref_def modify_if_def fits_def agree split: option.split)
  qed
qed

end
