(* ===== verification/Ephemeral_Bulk.thy ===== *)
theory Ephemeral_Bulk
  imports Ephemeral_Refinement
begin

text \<open>
  The agreement of the SQLite backend with the in-memory one, continued: insertion, the operations that write
  several records, retention, identities and maintenance ownership.
\<close>

section \<open>Insertion\<close>

lemma readyD:
  assumes "ready env ms"
  shows "mem_wf ms" "state_storable (ee_codec env) ms" "ee_failure env = None"
    "\<And>r. r \<in> set (mem_values ms) \<Longrightarrow> storable (ee_codec env) r"
  using assms state_storableD by (auto simp: ready_def)

lemma active_find:
  assumes "mem_wf s"
  shows "find (\<lambda>r. key r = Some k \<and> \<not> is_terminal r) (mem_values s) = existing_for_key (Some k) s"
proof (cases "find (\<lambda>r. key r = Some k \<and> \<not> is_terminal r) (mem_values s)")
  case (Some r)
  then have r: "r \<in> set (mem_values s)" "key r = Some k" "\<not> is_terminal r" by (auto simp: find_Some_iff)
  then show ?thesis using live_key_owner [OF assms r(1,3,2)] mem_wf_values [OF assms r(1)] Some by (simp add: existing_for_key_def)
next
  case None
  then have none: "\<And>r. r \<in> set (mem_values s) \<Longrightarrow> key r = Some k \<Longrightarrow> is_terminal r" by (auto simp: find_None_iff)
  show ?thesis
  proof (cases "dict_get (mem_keys s) k")
    case (Some i)
    then obtain r where "lookup s i = Some r" "key r = Some k" using keys_consistentD(1) [OF mem_wfD(4) [OF assms]] by blast
    then show ?thesis using none [OF lookup_values] Some None by (simp add: existing_for_key_def)
  qed (simp add: existing_for_key_def None)
qed

lemma agrees_active:
  assumes r: "ready env ms"
  shows "agrees env ms (op_read (active_for_request (ee_codec env) k)) (Inr (existing_for_key k ms)) ms"
proof (rule agrees_read)
  fix es assume m: "mirrors (ee_codec env) ms es"
  show "active_for_request (ee_codec env) k es = Inr (existing_for_key k ms)"
  proof (cases k)
    case None
    then show ?thesis by (simp add: active_for_request_def existing_for_key_def)
  next
    case (Some x)
    have f: "find (\<lambda>q. row_key q = Some x \<and> live_row q) (es_tasks es)
        = map_option (row_of (ee_codec env)) (existing_for_key (Some x) ms)"
      unfolding mirrorsD(2) [OF m] active_find [OF readyD(1) [OF r], symmetric]
      by (rule find_map_cong) (simp only: row_columns(14) [OF readyD(4) [OF r]] row_tests(2) [OF readyD(4) [OF r]])
    have "storable (ee_codec env) q" if "existing_for_key (Some x) ms = Some q" for q
      using that readyD(4) [OF r] unfolding active_find [OF readyD(1) [OF r], symmetric] by (blast dest: find_member)
    then show ?thesis using decode_option_row by (simp add: Some active_for_request_def active_by_key_def f)
  qed
qed

lemma dict_set_new: "dict_get d k = None \<Longrightarrow> dict_set k v d = d @ [(k, v)]"
  by (induction d) (auto split: if_splits)

lemma agrees_insert:
  assumes r: "ready env ms" and new: "lookup ms (rid r') = None" and free: "existing_for_key (key r') ms = None"
    and st: "storable (ee_codec env) r'"
  shows "agrees env ms (eph_insert (ee_codec env) r') (Inr ()) (insert_record r' ms)"
  unfolding agrees_def
proof (intro allI impI)
  fix es assume m: "mirrors (ee_codec env) ms es"
  let ?row = "row_of (ee_codec env) r'"
  have old: "\<not> (\<exists>q \<in> set (es_tasks es). row_id q = row_id ?row)"
  proof
    assume "\<exists>q \<in> set (es_tasks es). row_id q = row_id ?row"
    then obtain q where "q \<in> set (mem_values ms)" "row_id (row_of (ee_codec env) q) = row_id ?row"
      unfolding mirrorsD(2) [OF m] set_map [of "row_of (ee_codec env)"] by blast
    with row_id_same [OF readyD(4) [OF r] st] have "q \<in> set (mem_values ms)" "rid q = rid r'" by blast+
    with mem_wf_values [OF readyD(1) [OF r]] new show False by fastforce
  qed
  have "\<not> key_taken ?row (es_tasks es)"
  proof
    assume "key_taken ?row (es_tasks es)"
    then obtain q where q: "q \<in> set (mem_values ms)" "row_key (row_of (ee_codec env) q) = row_key ?row" "row_key ?row \<noteq> None"
      "live_row (row_of (ee_codec env) q)"
      unfolding key_taken_def mirrorsD(2) [OF m] set_map [of "row_of (ee_codec env)"] by blast
    then obtain k where k: "key q = Some k" "key r' = Some k" "\<not> is_terminal q"
      by (auto simp only: row_columns(14) [OF readyD(4) [OF r]] row_columns(14) [OF st] row_tests(2) [OF readyD(4) [OF r]])
    with q(1) have "find (\<lambda>r. key r = Some k \<and> \<not> is_terminal r) (mem_values ms) \<noteq> None" unfolding find_None_iff by blast
    with active_find [OF readyD(1) [OF r]] free k show False by simp
  qed
  with old have w: "eph_insert (ee_codec env) r' es = (Inr (), es\<lparr>es_tasks := es_tasks es @ [?row]\<rparr>)"
    by (simp add: eph_insert_def task_columns_row [OF st])
  have "mirrors (ee_codec env) (insert_record r' ms) (es\<lparr>es_tasks := es_tasks es @ [?row]\<rparr>)"
    by (rule mirrors_records [OF m])
      (simp_all add: insert_record_def put_record_def dict_set_new [OF new] mirrorsD(2) [OF m] split: option.split)
  with w show "\<exists>es'. eph_insert (ee_codec env) r' es = (Inr (), es') \<and> mirrors (ee_codec env) (insert_record r' ms) es'" by blast
qed

lemma agrees_store_new:
  assumes r: "ready env ms" and new: "lookup ms (rid q) = None"
    and st: "existing_for_key (key q) ms = None \<Longrightarrow> storable (ee_codec env) q"
  shows "agrees env ms (store_new (ee_codec env) q)
    (Inr (case existing_for_key (key q) ms of None \<Rightarrow> q | Some p \<Rightarrow> p))
    (case existing_for_key (key q) ms of None \<Rightarrow> insert_record q ms | Some p \<Rightarrow> ms)"
  unfolding store_new_def
proof (rule agrees_bind [OF agrees_active [OF r]])
  show "agrees env ms (case existing_for_key (key q) ms of None \<Rightarrow> op_bind (eph_insert (ee_codec env) q) (\<lambda>_. op_return q)
      | Some existing \<Rightarrow> op_return existing) (Inr (case existing_for_key (key q) ms of None \<Rightarrow> q | Some p \<Rightarrow> p))
      (case existing_for_key (key q) ms of None \<Rightarrow> insert_record q ms | Some p \<Rightarrow> ms)"
    using agrees_bind [OF agrees_insert [OF r new _ st] agrees_return]
    by (cases "existing_for_key (key q) ms") (simp_all add: agrees_return)
qed

lemma mirrors_notified:
  assumes "mirrors jc ms es"
  shows "mirrors jc (notify_new_task now r ms) (eph_notify_new_task now r es)" "mirrors jc ms (eph_notify_new_task now r es)"
    "mirrors jc (notify_new_tasks now rs ms) (eph_notify_new_tasks now rs es)"
  using assms by (auto simp: mirrors_def notify_new_task_def eph_notify_new_task_def notify_new_tasks_def
      eph_notify_new_tasks_def split: list.split)

lemma values_put_subset:
  "mem_values (notify_new_task now r s) = mem_values s" "mem_values (notify_new_tasks now rs s) = mem_values s"
  by (simp_all add: notify_new_task_def notify_new_tasks_def split: list.split)

lemma insert_values: "r \<in> set (mem_values (insert_record r s))"
  by (rule lookup_values [where i = "rid r"]) (simp add: insert_record_lookup)

lemma agrees_enqueue:
  assumes r: "ready env ms" and new: "lookup ms (new_id eid fresh) = None"
    and st: "state_storable (ee_codec env) (snd (enqueue req eid fresh t1 t2 t3 ms))"
  shows "agrees env ms (eph_enqueue env req eid fresh t1 t2 t3)
    (Inr (fst (enqueue req eid fresh t1 t2 t3 ms))) (snd (enqueue req eid fresh t1 t2 t3 ms))"
proof -
  let ?q = "new_record req (new_id eid fresh) (initial_status t2 req) t1"
  have q: "rid ?q = new_id eid fresh" "key ?q = req_key req" by (simp_all add: new_record_def)
  have s: "storable (ee_codec env) ?q" if "existing_for_key (req_key req) ms = None"
    using st that insert_values [of ?q ms]
    by (intro state_storableD [OF st]) (simp add: enqueue_def new_id_def [symmetric] Let_def values_put_subset)
  note store = agrees_transaction [OF r agrees_store_new [OF r, of ?q, unfolded q, OF new s]]
  show ?thesis
    unfolding eph_enqueue_def Let_def new_id_def [symmetric] agrees_def
  proof (intro allI impI)
    fix es assume m: "mirrors (ee_codec env) ms es"
    from store m obtain es1 where
      1: "eph_transaction env (store_new (ee_codec env) ?q) es = (Inr (case existing_for_key (req_key req) ms of None \<Rightarrow> ?q | Some p \<Rightarrow> p), es1)"
        "mirrors (ee_codec env) (case existing_for_key (req_key req) ms of None \<Rightarrow> insert_record ?q ms | Some p \<Rightarrow> ms) es1"
      unfolding agrees_def by blast
    show "\<exists>es'. op_bind (eph_transaction env (store_new (ee_codec env) ?q)) (\<lambda>stored s. (Inr stored, eph_notify_new_task t3 stored s)) es =
        (Inr (fst (enqueue req eid fresh t1 t2 t3 ms)), es') \<and> mirrors (ee_codec env) (snd (enqueue req eid fresh t1 t2 t3 ms)) es'"
      using mirrors_notified(1,2) [OF 1(2)]
      by (cases "existing_for_key (req_key req) ms")
        (simp_all add: op_bind_def 1(1) enqueue_def new_id_def [symmetric] Let_def)
  qed
qed

section \<open>Writing several records\<close>

lemma storable_between:
  assumes "state_storable jc s" "mem_wf s1" "mem_reservations s1 = mem_reservations s" "mem_maintenances s1 = mem_maintenances s"
    and "\<And>i q. lookup s1 i = Some q \<Longrightarrow> lookup s i = Some q \<or> storable jc q"
  shows "state_storable jc s1"
proof -
  have "storable jc q" if "q \<in> set (mem_values s1)" for q
    using assms(5) [OF mem_wf_values [OF assms(2) that]] state_storableD [OF assms(1) lookup_values] by blast
  then show ?thesis using assms(1) unfolding state_storable_def assms(3,4) by blast
qed

lemma ready_put:
  assumes r: "ready env ms" and q: "lookup ms (rid q') = Some q" "evolves q q'" "storable (ee_codec env) q'"
  shows "ready env (put_record q' ms)"
proof -
  have wf: "mem_wf (put_record q' ms)" by (rule mem_wf_evolves [OF readyD(1) [OF r] put_record_evolves [OF q(1,2)]])
  have "state_storable (ee_codec env) (put_record q' ms)"
    by (rule storable_between [OF readyD(2) [OF r] wf]) (use q(3) in \<open>auto simp: put_record_def dict_simps split: if_splits\<close>)
  with wf r show ?thesis by (simp add: ready_def)
qed

lemma dict_set_map:
  "distinct (dict_keys d) \<Longrightarrow> k \<in> fst ` set d \<Longrightarrow> dict_set k v d = map (\<lambda>(k', q). (k', if k' = k then v else q)) d"
proof (induction d)
  case (Cons x d)
  show ?case
  proof (cases "fst x = k")
    case True
    have "fst x \<notin> fst ` set d" using Cons.prems(1) by simp
    with True have "fst y \<noteq> k" if "y \<in> set d" for y using imageI [OF that, of fst] by metis
    then have "map (\<lambda>(k', q). (k', if k' = k then v else q)) d = d" by (intro map_idI) (auto split: prod.split; blast)
    with True show ?thesis by (cases x) simp
  qed (use Cons in \<open>cases x; auto\<close>)
qed simp

lemma fold_put_image:
  assumes wf: "mem_wf s" and xs: "set xs \<subseteq> set (mem_values s)" "distinct (map rid xs)" "\<And>q. q \<in> set xs \<Longrightarrow> rid (f q) = rid q"
  shows "fold put_record (map f xs) s = s\<lparr>mem_records := map (\<lambda>(k, q). (k, if q \<in> set xs then f q else q)) (mem_records s)\<rparr>"
  using xs
proof (induction xs rule: rev_induct)
  case (snoc x xs)
  let ?recs = "map (\<lambda>(k, q). (k, if q \<in> set xs then f q else q)) (mem_records s)"
  have id: "k = rid q" if "(k, q) \<in> set (mem_records s)" for k q
    using mem_wfD(2) [OF wf map_of_is_SomeI [OF mem_wfD(1) [OF wf] that]] by simp
  have keys: "dict_keys ?recs = dict_keys (mem_records s)" by (induction "mem_records s") auto
  have "rid x \<in> fst ` set ?recs"
  proof -
    have "(rid x, x) \<in> set (mem_records s)" using snoc.prems(1) id by force
    then show ?thesis by force
  qed
  moreover have "distinct (dict_keys ?recs)" unfolding keys by (rule mem_wfD(1) [OF wf])
  ultimately have "dict_set (rid x) (f x) ?recs = map (\<lambda>(k', q). (k', if k' = rid x then f x else q)) ?recs"
    by (intro dict_set_map)
  also have "\<dots> = map (\<lambda>(k, q). (k, if q \<in> set (xs @ [x]) then f q else q)) (mem_records s)"
  proof -
    have "(if k = rid x then f x else if q \<in> set xs then f q else q) = (if q \<in> set (xs @ [x]) then f q else q)"
      if "(k, q) \<in> set (mem_records s)" for k q
    proof -
      have "q = x \<longleftrightarrow> rid q = rid x"
        using mem_wf_values [OF wf, of q] mem_wf_values [OF wf, of x] that snoc.prems(1) by force
      then show ?thesis using id [OF that] by auto
    qed
    then show ?thesis by (auto simp: case_prod_beta)
  qed
  finally show ?case using snoc by (simp add: put_record_def)
qed simp

lemma agrees_write_all:
  assumes "ready env ms" and "\<And>q. q \<in> set xs \<Longrightarrow> lookup ms (rid q) = Some q" and "distinct (map rid xs)"
    and "\<And>q. q \<in> set xs \<Longrightarrow> evolves q (f q) \<and> storable (ee_codec env) (f q)"
  shows "agrees env ms (write_all (ee_codec env) (map f xs)) (Inr ()) (fold put_record (map f xs) ms)"
  using assms
proof (induction xs arbitrary: ms)
  case Nil
  then show ?case by (simp add: agree)
next
  case (Cons x xs)
  have x: "lookup ms (rid (f x)) = Some x" "evolves x (f x)" "storable (ee_codec env) (f x)"
    using Cons.prems(2,4) by (simp_all add: evolves_def)
  have "agrees env (put_record (f x) ms) (write_all (ee_codec env) (map f xs)) (Inr ()) (fold put_record (map f xs) (put_record (f x) ms))"
  proof (rule Cons.IH [OF ready_put [OF Cons.prems(1) x]])
    fix q assume q: "q \<in> set xs"
    have "rid q \<noteq> rid (f x)" using rid_neq [OF Cons.prems(3) q] x(2) by (simp add: evolves_def)
    then show "lookup (put_record (f x) ms) (rid q) = Some q" using Cons.prems(2) q by (simp add: put_record_def dict_simps)
  qed (use Cons.prems in auto)
  with agrees_bind [OF agrees_write [OF Cons.prems(1) x]] show ?case by simp
qed

text \<open>
  A batch: the rows the statement selects, in whatever order, are decoded, changed and written back.
\<close>

definition plan_ok :: "eph_env \<Rightarrow> bool" where
  "plan_ok env \<longleftrightarrow> (\<forall>rows. mset (ee_plan env rows) = mset rows)"

lemma mset_map_back: "mset ys = mset (map f rs) \<Longrightarrow> \<exists>xs. ys = map f xs \<and> mset xs = mset rs"
proof (induction ys arbitrary: rs)
  case (Cons y ys)
  then have "y \<in> set (map f rs)" by (metis list.set_intros(1) set_mset_mset)
  then obtain x where x: "x \<in> set rs" "y = f x" unfolding set_map by blast
  obtain rs' where rs: "mset rs = add_mset x (mset rs')" using x(1) by (metis ex_mset insert_DiffM set_mset_mset)
  have "mset ys = mset (map f rs')" using Cons.prems x(2) by (simp add: rs)
  from Cons.IH [OF this] obtain xs where "ys = map f xs" "mset xs = mset rs'" by blast
  with x rs show ?case by (intro exI [of _ "x # xs"]) simp
qed simp

lemma planned_rows:
  assumes "plan_ok env"
  shows "\<exists>xs. ee_plan env (map f rs) = map f xs \<and> mset xs = mset rs"
  using assms by (intro mset_map_back) (simp add: plan_ok_def)

text \<open>The body of a sweep: select the rows that qualify, in the order of the plan, and write the changed records.\<close>

lemma agrees_select:
  assumes r: "ready env ms" and plan: "plan_ok env"
    and hit: "\<And>q. q \<in> set (mem_values ms) \<Longrightarrow> hit (row_of (ee_codec env) q) \<longleftrightarrow> sel q"
    and es: "mirrors (ee_codec env) ms es"
  shows "\<exists>xs. decode_all (ee_codec env) (ee_plan env (filter hit (es_tasks es))) = Inr xs \<and> mset xs = mset (filter sel (mem_values ms))"
proof -
  obtain xs where xs: "ee_plan env (map (row_of (ee_codec env)) (filter sel (mem_values ms))) = map (row_of (ee_codec env)) xs"
      "mset xs = mset (filter sel (mem_values ms))"
    using planned_rows [OF plan] by blast
  have "filter hit (es_tasks es) = map (row_of (ee_codec env)) (filter sel (mem_values ms))"
    unfolding mirrorsD(2) [OF es] by (rule filter_map_cong) (rule hit)
  moreover have "storable (ee_codec env) q" if "q \<in> set xs" for q
    using readyD(4) [OF r, of q] that mset_eq_setD [OF xs(2)] by simp
  ultimately show ?thesis using xs decode_rows [of xs] by auto
qed

lemma sweep_state:
  assumes r: "ready env ms" and xs: "mset xs = mset (filter sel (mem_values ms))"
    and f: "\<And>q. q \<in> set (mem_values ms) \<Longrightarrow> sel q \<Longrightarrow> evolves q (f q)"
    and st: "state_storable (ee_codec env) (ms\<lparr>mem_records := map (\<lambda>(k, q). (k, if sel q then f q else q)) (mem_records ms)\<rparr>)"
  shows "agrees env ms (write_all (ee_codec env) (map f xs)) (Inr ())
    (ms\<lparr>mem_records := map (\<lambda>(k, q). (k, if sel q then f q else q)) (mem_records ms)\<rparr>)"
proof -
  have set: "set xs = {q \<in> set (mem_values ms). sel q}" using mset_eq_setD [OF xs] by simp
  have "mset (map rid xs) = mset (map rid (filter sel (mem_values ms)))" using xs by simp
  then have dist: "distinct (map rid xs)"
    using mem_wf_distinct_rids(2) [OF readyD(1) [OF r]] by (metis distinct_map_filter mset_eq_imp_distinct_iff)
  have st': "storable (ee_codec env) (f q)" if "q \<in> set xs" for q
  proof (rule state_storableD [OF st])
    from that set obtain k where "(k, q) \<in> set (mem_records ms)" "sel q" by auto
    then show "f q \<in> set (mem_values (ms\<lparr>mem_records := map (\<lambda>(k, q). (k, if sel q then f q else q)) (mem_records ms)\<rparr>))"
      by force
  qed
  have e: "fold put_record (map f xs) ms = ms\<lparr>mem_records := map (\<lambda>(k, q). (k, if sel q then f q else q)) (mem_records ms)\<rparr>"
  proof -
    have "fold put_record (map f xs) ms = ms\<lparr>mem_records := map (\<lambda>(k, q). (k, if q \<in> set xs then f q else q)) (mem_records ms)\<rparr>"
      by (rule fold_put_image [OF readyD(1) [OF r] _ dist]) (use set f in \<open>auto simp: evolves_def\<close>)
    also have "map (\<lambda>(k, q). (k, if q \<in> set xs then f q else q)) (mem_records ms) = map (\<lambda>(k, q). (k, if sel q then f q else q)) (mem_records ms)"
      by (rule map_cong [OF refl]) (force simp: set)
    finally show ?thesis .
  qed
  show ?thesis
    unfolding e [symmetric]
    by (rule agrees_write_all [OF r _ dist]) (use set f st' mem_wf_values [OF readyD(1) [OF r]] in auto)
qed

lemma agrees_cancel_tasks:
  assumes r: "ready env ms" and plan: "plan_ok env"
    and st: "state_storable (ee_codec env) (snd (cancel_tasks name q kw meta b (\<lambda>_. now) ms))"
  shows "agrees env ms (eph_cancel_tasks env name q kw meta b now)
    (Inr (fst (cancel_tasks name q kw meta b (\<lambda>_. now) ms))) (snd (cancel_tasks name q kw meta b (\<lambda>_. now) ms))"
  unfolding eph_cancel_tasks_def
proof (rule agrees_transaction [OF r], unfold agrees_def, intro allI impI)
  fix es assume m: "mirrors (ee_codec env) ms es"
  let ?hit = "\<lambda>r. cancellable b r \<and> record_matches_filters r name q kw meta"
  obtain xs where xs: "decode_all (ee_codec env) (ee_plan env
      (filter (\<lambda>row. waiting_row row \<or> b \<and> row_status row = ''running'') (es_tasks es))) = Inr xs"
      "mset xs = mset (filter (cancellable b) (mem_values ms))"
    using agrees_select [OF r plan _ m, of "\<lambda>row. waiting_row row \<or> b \<and> row_status row = ''running''" "cancellable b"]
    by (auto simp: row_tests(1,3) [OF readyD(4) [OF r]] cancellable_def)
  define ys where "ys = filter (\<lambda>r. record_matches_filters r name q kw meta) xs"
  have "mset ys = filter_mset (\<lambda>r. record_matches_filters r name q kw meta) (mset (filter (cancellable b) (mem_values ms)))"
    unfolding ys_def by (simp only: mset_filter xs(2))
  then have ys: "mset ys = mset (filter ?hit (mem_values ms))" by (simp add: filter_filter_mset conj_commute)
  have "agrees env ms (write_all (ee_codec env) (map (cancel_record now) ys)) (Inr ()) (snd (cancel_tasks name q kw meta b (\<lambda>_. now) ms))"
    using sweep_state [OF r ys, of "cancel_record now"] st by (auto simp: cancel_tasks_def intro: evolve_intros)
  with m obtain es' where es': "write_all (ee_codec env) (map (cancel_record now) ys) es = (Inr (), es')"
      "mirrors (ee_codec env) (snd (cancel_tasks name q kw meta b (\<lambda>_. now) ms)) es'"
    unfolding agrees_def by blast
  have "length ys = length (filter ?hit (mem_values ms))" using ys by (metis size_mset)
  with es' show "\<exists>es'. op_bind (op_read (\<lambda>s. decode_all (ee_codec env) (ee_plan env
      (filter (\<lambda>row. waiting_row row \<or> b \<and> row_status row = ''running'') (es_tasks s))))) (\<lambda>rs.
      let cancelled = map (cancel_record now) (filter (\<lambda>r. record_matches_filters r name q kw meta) rs)
      in op_bind (write_all (ee_codec env) cancelled) (\<lambda>_. op_return (length cancelled))) es =
      (Inr (fst (cancel_tasks name q kw meta b (\<lambda>_. now) ms)), es') \<and>
      mirrors (ee_codec env) (snd (cancel_tasks name q kw meta b (\<lambda>_. now) ms)) es'"
    by (simp add: op_bind_def op_read_def xs(1) Let_def ys_def [symmetric] op_return_def) (simp add: cancel_tasks_def)
qed

end
