(* ===== verification/Ephemeral_Agreement.thy ===== *)
theory Ephemeral_Agreement
  imports Ephemeral_Bulk
begin

text \<open>
  The remaining operations of the SQLite backend against the in-memory one: bulk insertion, heartbeats, retention,
  the repair page, maintenance ownership and permanent identities.
\<close>

section \<open>Bulk insertion\<close>

lemma enqueue_many_keeps: "lookup s i = Some r \<Longrightarrow> i \<notin> set (map (\<lambda>(req, fresh, t). fresh) reqs) \<Longrightarrow>
  lookup (snd (enqueue_many_loop now reqs s)) i = Some r"
proof (induction reqs arbitrary: s)
  case (Cons x reqs)
  obtain req fresh t where x: "x = (req, fresh, t)" by (cases x)
  show ?case
  proof (cases "existing_for_key (req_key req) s")
    case None
    have "lookup (insert_record (new_record req fresh (initial_status now req) t) s) i = Some r"
      using Cons.prems by (simp add: insert_record_lookup new_record_def x)
    from Cons.IH [OF this] Cons.prems(2) show ?thesis by (simp add: x None Let_def case_prod_beta)
  qed (use Cons in \<open>simp add: x case_prod_beta\<close>)
qed simp

lemma insert_other_tables:
  "mem_reservations (insert_record r s) = mem_reservations s" "mem_maintenances (insert_record r s) = mem_maintenances s"
  by (simp_all add: insert_record_def put_record_def split: option.split)

lemma agrees_store_requests:
  assumes "ready env ms" and "distinct (map (\<lambda>(req, fresh, t). fresh) reqs)"
    and "\<And>i. i \<in> set (map (\<lambda>(req, fresh, t). fresh) reqs) \<Longrightarrow> lookup ms i = None"
    and "\<And>req fresh t. (req, fresh, t) \<in> set reqs \<Longrightarrow> t = now"
    and "state_storable (ee_codec env) (snd (enqueue_many_loop now reqs ms))"
  shows "agrees env ms (store_requests (ee_codec env) now (map (\<lambda>(req, fresh, t). (req, fresh)) reqs))
    (Inr (fst (enqueue_many_loop now reqs ms))) (snd (enqueue_many_loop now reqs ms))"
  using assms
proof (induction reqs arbitrary: ms)
  case Nil
  then show ?case by (simp add: agree)
next
  case (Cons x reqs)
  obtain req fresh where x: "x = (req, fresh, now)" using Cons.prems(4) by (cases x) force
  let ?q = "new_record req fresh (initial_status now req) now"
  have q: "rid ?q = fresh" "key ?q = req_key req" by (simp_all add: new_record_def)
  let ?s = "case existing_for_key (req_key req) ms of None \<Rightarrow> insert_record ?q ms | Some p \<Rightarrow> ms"
  let ?p = "case existing_for_key (req_key req) ms of None \<Rightarrow> ?q | Some p \<Rightarrow> p"
  have loop: "enqueue_many_loop now (x # reqs) ms = (?p # fst (enqueue_many_loop now reqs ?s), snd (enqueue_many_loop now reqs ?s))"
    by (simp add: x Let_def case_prod_beta split: option.split)
  have fresh: "lookup ms fresh = None" "fresh \<notin> set (map (\<lambda>(req, fresh, t). fresh) reqs)"
    using Cons.prems(2,3) by (simp_all add: x)
  have st: "storable (ee_codec env) ?q" if "existing_for_key (req_key req) ms = None"
  proof (rule state_storableD [OF Cons.prems(5)], rule lookup_values)
    show "lookup (snd (enqueue_many_loop now (x # reqs) ms)) fresh = Some ?q"
      unfolding loop snd_conv by (rule enqueue_many_keeps) (use that fresh q in \<open>simp_all add: insert_record_lookup\<close>)
  qed
  have ready: "ready env ?s"
  proof (cases "existing_for_key (req_key req) ms")
    case None
    have wf: "mem_wf (insert_record ?q ms)"
      using readyD(1) [OF Cons.prems(1)] fresh None initial_status_waiting [of now req]
      by (intro insert_record_wf new_record_ok) (simp_all add: q)
    have "state_storable (ee_codec env) (insert_record ?q ms)"
      by (rule storable_between [OF readyD(2) [OF Cons.prems(1)] wf])
        (use st [OF None] q in \<open>auto simp: insert_record_lookup insert_other_tables split: if_splits\<close>)
    with wf None Cons.prems(1) show ?thesis by (simp add: ready_def)
  qed (simp add: Cons.prems(1))
  have "lookup ?s i = None" if "i \<in> set (map (\<lambda>(req, fresh, t). fresh) reqs)" for i
  proof -
    have "i \<noteq> fresh" using that fresh(2) by blast
    then show ?thesis using Cons.prems(3) [of i] that q by (simp add: insert_record_lookup x split: option.split)
  qed
  note new = this
  have rest: "agrees env ?s (store_requests (ee_codec env) now (map (\<lambda>(req, fresh, t). (req, fresh)) reqs))
      (Inr (fst (enqueue_many_loop now reqs ?s))) (snd (enqueue_many_loop now reqs ?s))"
  proof (rule Cons.IH [OF ready _ new])
    show "distinct (map (\<lambda>(req, fresh, t). fresh) reqs)" using Cons.prems(2) by simp
    show "t = now" if "(req, fresh, t) \<in> set reqs" for req fresh t using Cons.prems(4) that by (meson list.set_intros(2))
    show "state_storable (ee_codec env) (snd (enqueue_many_loop now reqs ?s))" using Cons.prems(5) unfolding loop snd_conv .
  qed
  show ?case
    unfolding loop fst_conv snd_conv unfolding x list.map prod.case store_requests.simps
    by (rule agrees_bind [OF agrees_store_new [OF Cons.prems(1), of ?q, unfolded q, OF fresh(1) st]], assumption)
      (rule agrees_bind [OF rest agrees_return])
qed

lemma storable_after_notify: "state_storable jc (notify_new_tasks now rs s) \<longleftrightarrow> state_storable jc s"
  by (simp add: state_storable_def notify_new_tasks_def notify_new_task_def split: list.split)

lemma agrees_enqueue_many:
  assumes r: "ready env ms" and new: "distinct (map (\<lambda>(req, fresh, t). fresh) reqs)"
      "\<And>i. i \<in> set (map (\<lambda>(req, fresh, t). fresh) reqs) \<Longrightarrow> lookup ms i = None"
    and now: "\<And>req fresh t. (req, fresh, t) \<in> set reqs \<Longrightarrow> t = now"
    and st: "state_storable (ee_codec env) (snd (enqueue_many reqs now now2 ms))"
  shows "agrees env ms (eph_enqueue_many env (map (\<lambda>(req, fresh, t). (req, fresh)) reqs) now now2)
    (Inr (fst (enqueue_many reqs now now2 ms))) (snd (enqueue_many reqs now now2 ms))"
proof (cases "reqs = []")
  case True
  then show ?thesis by (simp add: eph_enqueue_many_def enqueue_many_def agree)
next
  case False
  obtain rs s where loop: "enqueue_many_loop now reqs ms = (rs, s)" by (meson surj_pair)
  have all: "enqueue_many reqs now now2 ms = (rs, notify_new_tasks now2 rs s)" using False by (simp add: enqueue_many_def loop)
  have "state_storable (ee_codec env) s" using st by (simp add: all storable_after_notify)
  with agrees_store_requests [OF r new now] loop
  have "agrees env ms (eph_transaction env (store_requests (ee_codec env) now (map (\<lambda>(req, fresh, t). (req, fresh)) reqs))) (Inr rs) s"
    by (intro agrees_transaction [OF r]) simp
  moreover have "agrees env s (\<lambda>es. (Inr rs, eph_notify_new_tasks now2 rs es)) (Inr rs) (notify_new_tasks now2 rs s)"
    by (simp add: agrees_def mirrors_notified)
  ultimately show ?thesis using False by (simp add: eph_enqueue_many_def all agrees_bind)
qed

section \<open>Heartbeats\<close>

lemma touch_fold_other:
  "i \<notin> set (map ht_task_id ts) \<Longrightarrow> lookup (snd (fold (touch_one now) ts acc)) i = lookup (snd acc) i"
proof (induction ts arbitrary: acc)
  case (Cons t ts)
  have "lookup (snd (touch_one now t acc)) i = lookup (snd acc) i"
    using Cons.prems by (cases acc) (auto simp: touch_one_def modify_if_def dict_simps split: option.split)
  then show ?case using Cons by simp
qed simp

lemma agrees_touch_rows:
  assumes "ready env ms" and "distinct (map ht_task_id ts)"
    and "\<And>t. t \<in> set ts \<Longrightarrow> ht_task_id t < 16 ^ 32 \<and> patch_ok (ht_metadata_patch t)"
    and "state_storable (ee_codec env) (snd (fold (touch_one now) ts (res, ms)))"
  shows "agrees env ms (touch_rows (ee_codec env) now ts res)
    (Inr (fst (fold (touch_one now) ts (res, ms)))) (snd (fold (touch_one now) ts (res, ms)))"
  using assms
proof (induction ts arbitrary: ms res)
  case Nil
  then show ?case by (simp add: agree)
next
  case (Cons t ts)
  let ?i = "ht_task_id t"
  let ?missed = "res\<lparr>missed_task_ids := set_add ?i (missed_task_ids res)\<rparr>"
  let ?guard = "\<lambda>q. status q = Running \<and> fence (ht_expected_retry_count t) (retry_count q)"
  note IH = Cons.IH [OF _ _ Cons.prems(3)]
  have i: "?i < 16 ^ 32" "patch_ok (ht_metadata_patch t)" using Cons.prems(3) [of t] by (simp_all del: power_numeral)
  show ?case
  proof (cases "\<exists>q. lookup ms ?i = Some q \<and> ?guard q")
    case True
    then obtain q where q: "lookup ms ?i = Some q" "?guard q" by blast
    let ?q = "touch_record now (ht_metadata_patch t) q"
    have e: "evolves q ?q" using q(2) i(2) by (intro evolve_intros) simp_all
    have id: "rid ?q = ?i" using e mem_wfD(2) [OF readyD(1) [OF Cons.prems(1)] q(1)] by (simp add: evolves_def)
    have one: "touch_one now t (res, ms) = (res\<lparr>touched_task_ids := set_add ?i (touched_task_ids res)\<rparr>, put_record ?q ms)"
      using q by (simp add: touch_one_def modify_if_def put_record_def id)
    have "lookup (snd (fold (touch_one now) (t # ts) (res, ms))) ?i = Some ?q"
      using Cons.prems(2) by (simp add: one touch_fold_other put_record_def id dict_simps)
    then have st: "storable (ee_codec env) ?q" by (rule state_storableD [OF Cons.prems(4) lookup_values])
    have lq: "lookup ms (rid ?q) = Some q" by (simp add: id q(1))
    have rest: "agrees env (put_record ?q ms) (touch_rows (ee_codec env) now ts (res\<lparr>touched_task_ids := set_add ?i (touched_task_ids res)\<rparr>))
        (Inr (fst (fold (touch_one now) (t # ts) (res, ms)))) (snd (fold (touch_one now) (t # ts) (res, ms)))"
      using IH [OF ready_put [OF Cons.prems(1) lq e st]] Cons.prems(2,4) by (simp add: one)
    show ?thesis
      unfolding touch_rows.simps
      by (rule agrees_bind [OF agrees_fetch [OF Cons.prems(1) i(1)]])
        (use q agrees_bind [OF agrees_write [OF Cons.prems(1) lq e st] rest] in \<open>simp add: Let_def\<close>)
  next
    case False
    have one: "touch_one now t (res, ms) = (?missed, ms)"
      using False by (auto simp: touch_one_def modify_if_def split: option.split)
    have rest: "agrees env ms (touch_rows (ee_codec env) now ts ?missed)
        (Inr (fst (fold (touch_one now) (t # ts) (res, ms)))) (snd (fold (touch_one now) (t # ts) (res, ms)))"
      using IH [OF Cons.prems(1)] Cons.prems(2,4) by (simp add: one)
    show ?thesis
      unfolding touch_rows.simps
      by (rule agrees_bind [OF agrees_fetch [OF Cons.prems(1) i(1)]])
        (use False rest in \<open>auto simp: Let_def split: option.split\<close>)
  qed
qed

lemma agrees_touch_heartbeats:
  assumes "ready env ms" "distinct (map ht_task_id ts)"
    and "\<And>t. t \<in> set ts \<Longrightarrow> ht_task_id t < 16 ^ 32 \<and> patch_ok (ht_metadata_patch t)"
    and "state_storable (ee_codec env) (snd (touch_heartbeats ts now ms))"
  shows "agrees env ms (eph_touch_heartbeats env ts now)
    (Inr (fst (touch_heartbeats ts now ms))) (snd (touch_heartbeats ts now ms))"
  using agrees_transaction [OF assms(1) agrees_touch_rows [OF assms(1-3) assms(4) [unfolded touch_heartbeats_def]]]
  by (simp add: eph_touch_heartbeats_def touch_heartbeats_def agree)

lemma null_heartbeats_step:
  assumes wf: "mem_wf s" and i: "i \<notin> set ids"
  shows "null_heartbeats (i # ids) n s = null_heartbeats ids n
    (case lookup s i of None \<Rightarrow> s | Some q \<Rightarrow> if fence n (retry_count q) then put_record (q\<lparr>heartbeat_at := None\<rparr>) s else s)"
proof (cases "\<exists>q. lookup s i = Some q \<and> fence n (retry_count q)")
  case True
  then obtain q where q: "lookup s i = Some q" "fence n (retry_count q)" by blast
  have "i \<in> fst ` set (mem_records s)" using q(1) by (force dest: map_of_SomeD)
  then have set: "dict_set i (q\<lparr>heartbeat_at := None\<rparr>) (mem_records s) =
      map (\<lambda>(k, p). (k, if k = i then q\<lparr>heartbeat_at := None\<rparr> else p)) (mem_records s)"
    by (rule dict_set_map [OF mem_wfD(1) [OF wf]])
  have "p = q" if "(i, p) \<in> set (mem_records s)" for p
    using map_of_is_SomeI [OF mem_wfD(1) [OF wf] that] q(1) by simp
  then have "map (\<lambda>(k, r). (k, if k \<in> set (i # ids) \<and> fence n (retry_count r) then r\<lparr>heartbeat_at := None\<rparr> else r)) (mem_records s) =
      map (\<lambda>(k, r). (k, if k \<in> set ids \<and> fence n (retry_count r) then r\<lparr>heartbeat_at := None\<rparr> else r))
        (map (\<lambda>(k, p). (k, if k = i then q\<lparr>heartbeat_at := None\<rparr> else p)) (mem_records s))"
    using i q(2) by (auto simp: case_prod_beta)
  then show ?thesis using q mem_wfD(2) [OF wf q(1)] by (simp add: null_heartbeats_def put_record_def set)
next
  case False
  have "map (\<lambda>(k, r). (k, if k \<in> set (i # ids) \<and> fence n (retry_count r) then r\<lparr>heartbeat_at := None\<rparr> else r)) (mem_records s) =
      map (\<lambda>(k, r). (k, if k \<in> set ids \<and> fence n (retry_count r) then r\<lparr>heartbeat_at := None\<rparr> else r)) (mem_records s)"
    using False map_of_is_SomeI [OF mem_wfD(1) [OF wf]] by (intro map_cong) auto
  then show ?thesis using False by (auto simp: null_heartbeats_def split: option.split)
qed

lemma agrees_null_rows:
  assumes "ready env ms" "distinct ids" "\<And>i. i \<in> set ids \<Longrightarrow> i < 16 ^ 32"
    and "state_storable (ee_codec env) (null_heartbeats ids n ms)"
  shows "agrees env ms (null_rows (ee_codec env) n ids) (Inr ()) (null_heartbeats ids n ms)"
  using assms
proof (induction ids arbitrary: ms)
  case Nil
  then show ?case by (simp add: agree null_heartbeats_def case_prod_beta)
next
  case (Cons i ids)
  have i: "i < 16 ^ 32" by (rule Cons.prems(3)) simp
  have d: "i \<notin> set ids" "distinct ids" using Cons.prems(2) by simp_all
  note step = null_heartbeats_step [OF readyD(1) [OF Cons.prems(1)] d(1)]
  have IH: "agrees env s (null_rows (ee_codec env) n ids) (Inr ()) (null_heartbeats ids n s)"
    if "ready env s" "state_storable (ee_codec env) (null_heartbeats ids n s)" for s
    by (rule Cons.IH [OF that(1) d(2) Cons.prems(3) that(2)]) simp
  show ?case
  proof (cases "\<exists>q. lookup ms i = Some q \<and> fence n (retry_count q)")
    case True
    then obtain q where q: "lookup ms i = Some q" "fence n (retry_count q)" by blast
    let ?q = "q\<lparr>heartbeat_at := None\<rparr>"
    have id: "rid ?q = i" using mem_wfD(2) [OF readyD(1) [OF Cons.prems(1)] q(1)] by simp
    have all: "null_heartbeats (i # ids) n ms = null_heartbeats ids n (put_record ?q ms)" using q by (simp add: step)
    have "lookup (null_heartbeats ids n s) i = lookup s i" if "i \<notin> set ids" for s
    proof -
      have "dict_get (map (\<lambda>(k, r). (k, if k \<in> set ids \<and> fence n (retry_count r) then r\<lparr>heartbeat_at := None\<rparr> else r)) recs) i = dict_get recs i" for recs
        using that by (induction recs) auto
      then show ?thesis by (simp add: null_heartbeats_def)
    qed
    with d(1) have "lookup (null_heartbeats (i # ids) n ms) i = Some ?q" by (simp add: all put_record_def id dict_simps)
    then have st: "storable (ee_codec env) ?q" by (rule state_storableD [OF Cons.prems(4) lookup_values])
    have lq: "lookup ms (rid ?q) = Some q" by (simp add: id q(1))
    note rest = IH [OF ready_put [OF Cons.prems(1) lq evolves_null st]]
    show ?thesis
      unfolding null_rows.simps
      by (rule agrees_bind [OF agrees_fetch [OF Cons.prems(1) i]])
        (use q agrees_bind [OF agrees_write [OF Cons.prems(1) lq evolves_null st] rest] Cons.prems(4) in \<open>simp add: all\<close>)
  next
    case False
    have all: "null_heartbeats (i # ids) n ms = null_heartbeats ids n ms" using False by (auto simp: step split: option.split)
    show ?thesis
      unfolding null_rows.simps
      by (rule agrees_bind [OF agrees_fetch [OF Cons.prems(1) i]])
        (use False IH [OF Cons.prems(1)] Cons.prems(4) in \<open>auto simp: all split: option.split\<close>)
  qed
qed

lemma agrees_null_heartbeats:
  assumes "ready env ms" "\<And>i. i \<in> set ids \<Longrightarrow> i < 16 ^ 32" "state_storable (ee_codec env) (null_heartbeats ids n ms)"
  shows "agrees env ms (eph_null_heartbeats env ids n) (Inr ()) (null_heartbeats ids n ms)"
proof -
  have same: "null_heartbeats (remdups ids) n ms = null_heartbeats ids n ms" by (simp add: null_heartbeats_def)
  have none: "null_heartbeats [] n ms = ms" by (simp add: null_heartbeats_def case_prod_beta)
  show ?thesis
    using agrees_transaction [OF assms(1) agrees_null_rows [OF assms(1), of "remdups ids" n]] assms
    by (cases "ids = []") (simp_all add: eph_null_heartbeats_def agree same none)
qed

end
