(* ===== verification/Ephemeral_System.thy ===== *)
theory Ephemeral_System
  imports Ephemeral_Agreement
begin

text \<open>
  The last operations of the SQLite backend against the in-memory one, and the simulation: over every sequence of
  operations the two give the same answers.
\<close>

section \<open>Retention\<close>

lemma fold_cleanup_records:
  "mem_records (fold cleanup_one rs s) = filter (\<lambda>(k, q). k \<notin> rid ` set rs) (mem_records s)"
proof (induction rs arbitrary: s)
  case (Cons r rs)
  have "mem_records (cleanup_one r s) = filter (\<lambda>(k, q). rid r \<noteq> k) (mem_records s)"
    by (simp add: cleanup_one_def AList.delete_eq)
  then show ?case by (simp add: Cons.IH) (rule filter_cong, auto)
qed simp

lemma fold_cleanup_others:
  "mem_reservations (fold cleanup_one rs s) = mem_reservations s" "mem_maintenances (fold cleanup_one rs s) = mem_maintenances s"
  "mem_notification (fold cleanup_one rs s) = mem_notification s"
  by (induction rs arbitrary: s) (simp_all add: cleanup_one_def)

lemma completed_order:
  assumes "storable jc a" "storable jc b"
  shows "(row_completed_at (row_of jc a), row_id (row_of jc a)) \<le> (row_completed_at (row_of jc b), row_id (row_of jc b)) \<longleftrightarrow>
    (completed_at a, uuid_str (rid a)) \<le> (completed_at b, uuid_str (rid b))"
  using storable_times(5) [OF assms(1)] storable_times(5) [OF assms(2)]
  by (cases "completed_at a"; cases "completed_at b") (auto simp: row_columns assms less_eq_prod_def iso_le iso_text_compare)

lemma agrees_cleanup:
  assumes r: "ready env ms" and before: "datetime_range before" and limit: "case limit of None \<Rightarrow> True | Some n \<Rightarrow> 0 \<le> n"
  shows "agrees env ms (eph_cleanup_terminal env before limit)
    (Inr (fst (cleanup_terminal before limit ms))) (snd (cleanup_terminal before limit ms))"
  unfolding eph_cleanup_terminal_def
proof (rule agrees_transaction [OF r], unfold agrees_def, intro allI impI)
  fix es assume m: "mirrors (ee_codec env) ms es"
  note st = readyD(4) [OF r]
  let ?row = "row_of (ee_codec env)" and ?sel = "cleanup_selection before limit ms"
  let ?hit = "\<lambda>q. row_status q \<in> set TERMINAL_TEXTS \<and> (case row_completed_at q of None \<Rightarrow> False | Some t \<Rightarrow> t < iso_text before)"
  have f: "filter ?hit (es_tasks es) = map ?row (filter (cleanup_candidate before) (mem_values ms))"
    unfolding mirrorsD(2) [OF m]
    by (rule filter_map_cong)
      (auto simp: row_tests(4) [OF st] row_columns(12) [OF st] cleanup_candidate_def
        iso_text_compare(1) [OF storable_times(5) [OF st] before] split: option.split)
  have s: "sort_key (\<lambda>q. (row_completed_at q, row_id q)) (map ?row (filter (cleanup_candidate before) (mem_values ms)))
      = map ?row (sort_key (\<lambda>r. (completed_at r, uuid_str (rid r))) (filter (cleanup_candidate before) (mem_values ms)))"
    by (rule sort_rows) (rule completed_order; simp add: st)
  have rows: "sql_limit_option limit (sort_key (\<lambda>q. (row_completed_at q, row_id q)) (filter ?hit (es_tasks es))) = map ?row ?sel"
    using limit unfolding f s cleanup_selection_def
    by (cases limit) (simp_all add: sql_limit_option_def sql_limit_def py_take_def take_map)
  have sel: "q \<in> set (mem_values ms)" if "q \<in> set ?sel" for q
    using cleanup_selection_facts(2) [OF readyD(1) [OF r] that] by (blast dest: lookup_values)
  have "filter (\<lambda>q. row_id q \<notin> set (map row_id (map ?row ?sel))) (es_tasks es)
      = map ?row (filter (\<lambda>q. rid q \<notin> rid ` set ?sel) (mem_values ms))"
    unfolding mirrorsD(2) [OF m]
    by (rule filter_map_cong) (use row_id_same [OF st st] sel in \<open>fastforce simp: image_iff\<close>)
  also have "filter (\<lambda>q. rid q \<notin> rid ` set ?sel) (mem_values ms) = mem_values (snd (cleanup_terminal before limit ms))"
  proof -
    have "map snd (filter (\<lambda>(k, q). k \<notin> rid ` set ?sel) recs) = filter (\<lambda>q. rid q \<notin> rid ` set ?sel) (map snd recs)"
      if "map rid (map snd recs) = dict_keys recs" for recs
      using that by (induction recs) auto
    from this [OF mem_wf_distinct_rids(1) [OF readyD(1) [OF r]]] show ?thesis
      unfolding cleanup_terminal_eq snd_conv fold_cleanup_records by (rule sym)
  qed
  finally have "mirrors (ee_codec env) (snd (cleanup_terminal before limit ms))
      (es\<lparr>es_tasks := filter (\<lambda>q. row_id q \<notin> set (map row_id (map ?row ?sel))) (es_tasks es)\<rparr>)"
    by (intro mirrors_records [OF m]) (simp_all add: cleanup_terminal_eq fold_cleanup_others)
  then show "\<exists>es'. (let ids = map row_id (sql_limit_option limit (sort_key (\<lambda>q. (row_completed_at q, row_id q)) (filter ?hit (es_tasks es))))
      in (Inr (length ids), es\<lparr>es_tasks := filter (\<lambda>q. row_id q \<notin> set ids) (es_tasks es)\<rparr>)) =
      (Inr (fst (cleanup_terminal before limit ms)), es') \<and> mirrors (ee_codec env) (snd (cleanup_terminal before limit ms)) es'"
    unfolding rows Let_def by (simp add: cleanup_terminal_eq)
qed

section \<open>The repair page\<close>

lemma repair_order:
  assumes "storable jc a" "storable jc b"
  shows "repair_row_key (row_of jc a) \<le> repair_row_key (row_of jc b) \<longleftrightarrow> repair_key a \<le> repair_key b"
  using storable_times(3,6) [OF assms(1)] storable_times(3,6) [OF assms(2)]
  by (cases "dispatch_checked_at a"; cases "dispatch_checked_at b")
    (auto simp: repair_row_key_def repair_key_def row_columns assms less_eq_prod_def iso_le iso_text_compare)

lemma agrees_repair_page:
  assumes r: "ready env ms" and now: "datetime_range now"
    and st': "state_storable (ee_codec env) (snd (list_dispatch_repair_candidates eb limit now ms))"
  shows "agrees env ms (eph_list_dispatch_repair_candidates env eb limit now)
    (fst (list_dispatch_repair_candidates eb limit now ms)) (snd (list_dispatch_repair_candidates eb limit now ms))"
proof (cases "0 < limit")
  case False
  then show ?thesis by (simp add: eph_list_dispatch_repair_candidates_def list_dispatch_repair_candidates_def agree)
next
  case True
  note st = readyD(4) [OF r]
  let ?row = "row_of (ee_codec env)"
  let ?sel = "\<lambda>r. execution_backend r = eb \<and> is_waiting r \<and> not_expired now r"
  define rs where "rs = take (nat limit) (sort_key repair_key (filter ?sel (mem_values ms)))"
  define stale where "stale = (\<lambda>r :: task_record. case dispatch_checked_at r of None \<Rightarrow> True | Some t \<Rightarrow> t < now)"
  have rs: "set rs \<subseteq> set (mem_values ms)" "distinct (map rid rs)"
    using mem_wf_distinct_rids(2) [OF readyD(1) [OF r]] unfolding rs_def
    by (auto dest!: in_set_takeD intro!: distinct_map_take simp: distinct_map_sort_key distinct_map_filter)
  have stamp: "rid (stamp_checked now q) = rid q" "\<not> stale q \<Longrightarrow> stamp_checked now q = q" for q
    by (auto simp: stamp_checked_def stale_def)
  have mem: "list_dispatch_repair_candidates eb limit now ms =
      (Inr \<lparr>rc_records = map (stamp_checked now) rs, rc_examined = length rs, rc_limit_reached = (int (length rs) = limit)\<rparr>,
       fold put_record (map (stamp_checked now) rs) ms)"
    using True by (simp add: list_dispatch_repair_candidates_def Let_def rs_def)
  have image: "fold put_record (map (stamp_checked now) xs) ms =
      ms\<lparr>mem_records := map (\<lambda>(k, q). (k, if q \<in> set rs then stamp_checked now q else q)) (mem_records ms)\<rparr>"
    if "xs = rs \<or> xs = filter stale rs" for xs
  proof -
    have "fold put_record (map (stamp_checked now) xs) ms =
        ms\<lparr>mem_records := map (\<lambda>(k, q). (k, if q \<in> set xs then stamp_checked now q else q)) (mem_records ms)\<rparr>"
      by (rule fold_put_image [OF readyD(1) [OF r]]) (use that rs in \<open>auto simp: stamp distinct_map_filter\<close>)
    moreover have "(if q \<in> set xs then stamp_checked now q else q) = (if q \<in> set rs then stamp_checked now q else q)" for q
      using that stamp(2) by auto
    ultimately show ?thesis by simp
  qed
  have sts: "storable (ee_codec env) (stamp_checked now q)" if "q \<in> set rs" for q
  proof (rule state_storableD [OF st'])
    from that rs(1) obtain k where "(k, q) \<in> set (mem_records ms)" by auto
    with that show "stamp_checked now q \<in> set (mem_values (snd (list_dispatch_repair_candidates eb limit now ms)))"
      by (force simp: mem image)
  qed
  have read: "agrees env ms (op_read (\<lambda>s. decode_all (ee_codec env) (sql_limit limit (sort_key repair_row_key
      (filter (\<lambda>q. row_execution_backend q = eb \<and> waiting_row q \<and> unexpired_row (iso_text now) q) (es_tasks s)))))) (Inr rs) ms"
  proof (rule agrees_read)
    fix es assume m: "mirrors (ee_codec env) ms es"
    have f: "filter (\<lambda>q. row_execution_backend q = eb \<and> waiting_row q \<and> unexpired_row (iso_text now) q) (es_tasks es)
        = map ?row (filter ?sel (mem_values ms))"
      unfolding mirrorsD(2) [OF m]
      by (rule filter_map_cong)
        (auto simp: row_columns(4) [OF st] row_tests(1) [OF st] row_clock(2) [OF st now] not_expired_def is_expired_def split: option.split)
    have s: "sort_key repair_row_key (map ?row (filter ?sel (mem_values ms))) = map ?row (sort_key repair_key (filter ?sel (mem_values ms)))"
      by (rule sort_rows) (rule repair_order; simp add: st)
    have "storable (ee_codec env) q" if "q \<in> set rs" for q using st rs(1) that by blast
    then show "decode_all (ee_codec env) (sql_limit limit (sort_key repair_row_key
        (filter (\<lambda>q. row_execution_backend q = eb \<and> waiting_row q \<and> unexpired_row (iso_text now) q) (es_tasks es)))) = Inr rs"
      using True decode_rows [of rs] unfolding f s rs_def by (simp add: sql_limit_def take_map)
  qed
  have store: "agrees env ms (write_all (ee_codec env) (map (stamp_checked now) (filter stale rs))) (Inr ())
      (fold put_record (map (stamp_checked now) (filter stale rs)) ms)"
    using rs sts mem_wf_values [OF readyD(1) [OF r]] evolves_stamp
    by (intro agrees_write_all [OF r]) (auto simp: distinct_map_filter)
  show ?thesis
    using True unfolding eph_list_dispatch_repair_candidates_def mem fst_conv snd_conv image [of rs, simplified]
    by (simp add: Let_def stale_def [symmetric])
      (intro agrees_transaction [OF r] agrees_bind [OF read] agrees_bind [OF store [unfolded image [of "filter stale rs", simplified]]] agrees_return)
qed

section \<open>Maintenance and identities\<close>

lemma find_filter_append:
  "find (\<lambda>q. name q = k) (filter (\<lambda>q. name q \<noteq> name row) xs @ [row]) = (if k = name row then Some row else find (\<lambda>q. name q = k) xs)"
  by (induction xs) auto

lemma find_unique:
  "distinct (map name xs) \<Longrightarrow> (\<exists>q \<in> set xs. name q = k \<and> P q) \<longleftrightarrow> (\<exists>q. find (\<lambda>q. name q = k) xs = Some q \<and> P q)"
proof (induction xs)
  case (Cons x xs)
  then have other: "name x \<noteq> name q" if "q \<in> set xs" for q using that by (metis distinct.simps(2) image_eqI list.set_map list.simps(9))
  show ?case
  proof (cases "name x = k")
    case True
    with other have "\<not> (\<exists>q \<in> set xs. name q = k \<and> P q)" by metis
    with True show ?thesis by auto
  qed (use Cons in auto)
qed simp

lemma find_filter_out:
  "distinct (map name xs) \<Longrightarrow> find (\<lambda>q. name q = k) (filter (\<lambda>q. \<not> (name q = n \<and> P q)) xs) =
    (if k = n \<and> (\<exists>q. find (\<lambda>q. name q = n) xs = Some q \<and> P q) then None else find (\<lambda>q. name q = k) xs)"
  by (induction xs) (auto simp: find_None_iff image_iff)

lemma mirrorsD_tables:
  assumes "mirrors jc ms es"
  shows "distinct (map rr_identity_key (es_reservations es))" "distinct (map mr_name (es_maintenance es))"
    "find (\<lambda>q. rr_identity_key q = k) (es_reservations es) =
        map_option (\<lambda>v. \<lparr>rr_identity_key = k, rr_task_id = uuid_str (res_task_id v), rr_task_name = res_task_name v,
          rr_created_at = iso_text (res_created_at v)\<rparr>) (dict_get (mem_reservations ms) k)"
    "find (\<lambda>q. mr_name q = k) (es_maintenance es) =
        map_option (\<lambda>(h, t). \<lparr>mr_name = k, mr_token = h, mr_expires_at = iso_text t\<rparr>) (dict_get (mem_maintenances ms) k)"
  using assms by (simp_all add: mirrors_def)

lemma mirrors_maintenance:
  assumes "mirrors jc ms es" "distinct (map mr_name rows)"
    and "\<And>k. find (\<lambda>q. mr_name q = k) rows = map_option (\<lambda>(h, t). \<lparr>mr_name = k, mr_token = h, mr_expires_at = iso_text t\<rparr>) (dict_get d k)"
  shows "mirrors jc (ms\<lparr>mem_maintenances := d\<rparr>) (es\<lparr>es_maintenance := rows\<rparr>)"
  using assms by (simp add: mirrors_def)

lemma mirrors_reservations:
  assumes "mirrors jc ms es" "distinct (map rr_identity_key rows)"
    and "\<And>k. find (\<lambda>q. rr_identity_key q = k) rows =
        map_option (\<lambda>v. \<lparr>rr_identity_key = k, rr_task_id = uuid_str (res_task_id v), rr_task_name = res_task_name v,
          rr_created_at = iso_text (res_created_at v)\<rparr>) (dict_get d k)"
  shows "mirrors jc (ms\<lparr>mem_reservations := d\<rparr>) (es\<lparr>es_reservations := rows\<rparr>)"
  using assms by (simp add: mirrors_def)

lemma agrees_acquire:
  assumes r: "ready env ms"
  shows "agrees env ms (eph_acquire_maintenance env name token ttl now)
    (Inr (fst (acquire_maintenance name token ttl now ms))) (snd (acquire_maintenance name token ttl now ms))"
  unfolding eph_acquire_maintenance_def
proof (rule agrees_transaction [OF r], unfold agrees_def, intro allI impI)
  fix es assume m: "mirrors (ee_codec env) ms es"
  let ?row = "\<lparr>mr_name = name, mr_token = token, mr_expires_at = iso_text (now + ttl)\<rparr>"
  have put: "mirrors (ee_codec env) (ms\<lparr>mem_maintenances := dict_set name (token, now + ttl) (mem_maintenances ms)\<rparr>) (put_maintenance ?row es)"
    unfolding put_maintenance_def
  proof (rule mirrors_maintenance [OF m])
    show "distinct (map mr_name (filter (\<lambda>q. mr_name q \<noteq> mr_name ?row) (es_maintenance es) @ [?row]))"
      using mirrorsD_tables(2) [OF m] by (auto simp: distinct_map_filter)
  qed (simp only: find_filter_append, simp add: mirrorsD_tables(4) [OF m] dict_simps)
  have parse: "jc_datetime (ee_codec env) (iso_text t) = Some t" if "dict_get (mem_maintenances ms) name = Some (h, t)" for h t
    using readyD(2) [OF r] that unfolding state_storable_def by blast
  show "\<exists>es'. (let granted = (Inr True, put_maintenance ?row es)
       in case find (\<lambda>q. mr_name q = name) (es_maintenance es) of None \<Rightarrow> granted
          | Some q \<Rightarrow> (case jc_datetime (ee_codec env) (mr_expires_at q) of None \<Rightarrow> (Inl ValueError, es)
              | Some until \<Rightarrow> if until > now \<and> mr_token q \<noteq> token then (Inr False, es) else granted)) =
      (Inr (fst (acquire_maintenance name token ttl now ms)), es') \<and>
      mirrors (ee_codec env) (snd (acquire_maintenance name token ttl now ms)) es'"
    using put m parse
    by (cases "dict_get (mem_maintenances ms) name") (auto simp: mirrorsD_tables(4) [OF m] acquire_maintenance_def Let_def)
qed

lemma agrees_release:
  assumes r: "ready env ms"
  shows "agrees env ms (eph_release_maintenance env name token)
    (Inr (fst (release_maintenance name token ms))) (snd (release_maintenance name token ms))"
  unfolding eph_release_maintenance_def
proof (rule agrees_transaction [OF r], unfold agrees_def, intro allI impI)
  fix es assume m: "mirrors (ee_codec env) ms es"
  let ?out = "filter (\<lambda>q. \<not> (mr_name q = name \<and> mr_token q = token)) (es_maintenance es)"
  have held: "(\<exists>q \<in> set (es_maintenance es). mr_name q = name \<and> mr_token q = token) \<longleftrightarrow>
      (\<exists>q. find (\<lambda>q. mr_name q = name) (es_maintenance es) = Some q \<and> mr_token q = token)"
    by (rule find_unique [OF mirrorsD_tables(2) [OF m]])
  have "mirrors (ee_codec env) (ms\<lparr>mem_maintenances := mem_maintenances (snd (release_maintenance name token ms))\<rparr>) (es\<lparr>es_maintenance := ?out\<rparr>)"
  proof (rule mirrors_maintenance [OF m])
    show "distinct (map mr_name ?out)" using mirrorsD_tables(2) [OF m] by (simp add: distinct_map_filter)
    show "find (\<lambda>q. mr_name q = k) ?out = map_option (\<lambda>(h, t). \<lparr>mr_name = k, mr_token = h, mr_expires_at = iso_text t\<rparr>)
        (dict_get (mem_maintenances (snd (release_maintenance name token ms))) k)" for k
      unfolding find_filter_out [OF mirrorsD_tables(2) [OF m]] mirrorsD_tables(4) [OF m]
      by (auto simp: release_maintenance_def dict_simps split: option.split)
  qed
  moreover have "ms\<lparr>mem_maintenances := mem_maintenances (snd (release_maintenance name token ms))\<rparr> = snd (release_maintenance name token ms)"
    by (simp add: release_maintenance_def split: option.split)
  moreover have "(\<exists>q \<in> set (es_maintenance es). mr_name q = name \<and> mr_token q = token) = fst (release_maintenance name token ms)"
    unfolding held mirrorsD_tables(4) [OF m] by (auto simp: release_maintenance_def split: option.split)
  ultimately show "\<exists>es'. (Inr (\<exists>q \<in> set (es_maintenance es). mr_name q = name \<and> mr_token q = token), es\<lparr>es_maintenance := ?out\<rparr>) =
      (Inr (fst (release_maintenance name token ms)), es') \<and> mirrors (ee_codec env) (snd (release_maintenance name token ms)) es'"
    by simp
qed

lemma read_reservation_mirrored:
  assumes r: "ready env ms" and m: "mirrors (ee_codec env) ms es"
  shows "read_reservation (ee_codec env) k es = Inr (has_identity k ms)"
proof (cases "dict_get (mem_reservations ms) k")
  case (Some v)
  have "res_key v = k" "res_task_id v < 16 ^ 32" "jc_datetime (ee_codec env) (iso_text (res_created_at v)) = Some (res_created_at v)"
    using readyD(2) [OF r] Some unfolding state_storable_def by blast+
  with Some show ?thesis
    by (simp add: read_reservation_def mirrorsD_tables(3) [OF m] has_identity_def uuid_parse_str)
qed (simp add: read_reservation_def mirrorsD_tables(3) [OF m] has_identity_def)

lemma agrees_reserve_identity:
  assumes r: "ready env ms"
  shows "agrees env ms (eph_reserve_identity env k i name now)
    (Inr (fst (reserve_identity k i name now ms))) (snd (reserve_identity k i name now ms))"
  unfolding eph_reserve_identity_def
proof (rule agrees_transaction [OF r agrees_bind [OF agrees_read]])
  show "read_reservation (ee_codec env) k es = Inr (has_identity k ms)" if "mirrors (ee_codec env) ms es" for es
    by (rule read_reservation_mirrored [OF r that])
  have "agrees env ms (\<lambda>s. (Inr None, s\<lparr>es_reservations := es_reservations s @
      [\<lparr>rr_identity_key = k, rr_task_id = uuid_str i, rr_task_name = name, rr_created_at = iso_text now\<rparr>]\<rparr>))
      (Inr None) (ms\<lparr>mem_reservations := dict_set k \<lparr>res_key = k, res_task_id = i, res_task_name = name, res_created_at = now\<rparr> (mem_reservations ms)\<rparr>)"
    if free: "dict_get (mem_reservations ms) k = None"
    unfolding agrees_def
  proof (intro allI impI)
    fix es assume m: "mirrors (ee_codec env) ms es"
    let ?row = "\<lparr>rr_identity_key = k, rr_task_id = uuid_str i, rr_task_name = name, rr_created_at = iso_text now\<rparr>"
    have none: "find (\<lambda>q. rr_identity_key q = k) (es_reservations es) = None" by (simp add: mirrorsD_tables(3) [OF m] free)
    then have "filter (\<lambda>q. rr_identity_key q \<noteq> rr_identity_key ?row) (es_reservations es) = es_reservations es"
      by (simp add: find_None_iff filter_id_conv)
    then have find: "find (\<lambda>q. rr_identity_key q = k') (es_reservations es @ [?row]) =
        (if k' = k then Some ?row else find (\<lambda>q. rr_identity_key q = k') (es_reservations es))" for k'
      using find_filter_append [of rr_identity_key k' ?row "es_reservations es"] by simp
    have other: "rr_identity_key q \<noteq> k" if "q \<in> set (es_reservations es)" for q using none that by (auto simp: find_None_iff)
    have "mirrors (ee_codec env) (ms\<lparr>mem_reservations := dict_set k \<lparr>res_key = k, res_task_id = i, res_task_name = name, res_created_at = now\<rparr> (mem_reservations ms)\<rparr>)
        (es\<lparr>es_reservations := es_reservations es @ [?row]\<rparr>)"
      by (rule mirrors_reservations [OF m])
        (use mirrorsD_tables(1) [OF m] other in \<open>auto simp: find mirrorsD_tables(3) [OF m] dict_simps\<close>)
    then show "\<exists>es'. (Inr None, es\<lparr>es_reservations := es_reservations es @ [?row]\<rparr>) = (Inr None, es') \<and>
        mirrors (ee_codec env) (ms\<lparr>mem_reservations := dict_set k \<lparr>res_key = k, res_task_id = i, res_task_name = name, res_created_at = now\<rparr> (mem_reservations ms)\<rparr>) es'"
      by blast
  qed
  then show "agrees env ms (case has_identity k ms of None \<Rightarrow> (\<lambda>s. (Inr None, s\<lparr>es_reservations := es_reservations s @
      [\<lparr>rr_identity_key = k, rr_task_id = uuid_str i, rr_task_name = name, rr_created_at = iso_text now\<rparr>]\<rparr>))
      | Some owner \<Rightarrow> op_return (Some owner)) (Inr (fst (reserve_identity k i name now ms))) (snd (reserve_identity k i name now ms))"
    by (cases "dict_get (mem_reservations ms) k") (simp_all add: has_identity_def reserve_identity_def agrees_return)
qed

lemma agrees_reset_identity:
  assumes r: "ready env ms" and i: "case i of None \<Rightarrow> True | Some u \<Rightarrow> u < 16 ^ 32"
  shows "agrees env ms (eph_reset_identity env k i) (Inr (fst (reset_identity k i ms))) (snd (reset_identity k i ms))"
  unfolding eph_reset_identity_def
proof (rule agrees_transaction [OF r], unfold agrees_def, intro allI impI)
  fix es assume m: "mirrors (ee_codec env) ms es"
  let ?P = "\<lambda>q. fence (map_option uuid_str i) (rr_task_id q)"
  let ?out = "filter (\<lambda>q. \<not> (rr_identity_key q = k \<and> ?P q)) (es_reservations es)"
  have same: "fence (map_option uuid_str i) (uuid_str (res_task_id v)) \<longleftrightarrow> fence i (res_task_id v)"
    if "dict_get (mem_reservations ms) k = Some v" for v
  proof -
    have "res_task_id v < 16 ^ 32" using readyD(2) [OF r] that unfolding state_storable_def by blast
    with i show ?thesis using uuid_str_order(2) by (cases i) auto
  qed
  have held: "(\<exists>q \<in> set (es_reservations es). rr_identity_key q = k \<and> ?P q) \<longleftrightarrow>
      (\<exists>q. find (\<lambda>q. rr_identity_key q = k) (es_reservations es) = Some q \<and> ?P q)"
    by (rule find_unique [OF mirrorsD_tables(1) [OF m]])
  have "mirrors (ee_codec env) (ms\<lparr>mem_reservations := mem_reservations (snd (reset_identity k i ms))\<rparr>) (es\<lparr>es_reservations := ?out\<rparr>)"
  proof (rule mirrors_reservations [OF m])
    show "distinct (map rr_identity_key ?out)" using mirrorsD_tables(1) [OF m] by (simp add: distinct_map_filter)
    show "find (\<lambda>q. rr_identity_key q = k') ?out = map_option (\<lambda>v. \<lparr>rr_identity_key = k', rr_task_id = uuid_str (res_task_id v),
        rr_task_name = res_task_name v, rr_created_at = iso_text (res_created_at v)\<rparr>)
        (dict_get (mem_reservations (snd (reset_identity k i ms))) k')" for k'
      unfolding find_filter_out [OF mirrorsD_tables(1) [OF m]] mirrorsD_tables(3) [OF m]
      using same by (auto simp: reset_identity_def dict_simps split: option.split)
  qed
  moreover have "ms\<lparr>mem_reservations := mem_reservations (snd (reset_identity k i ms))\<rparr> = snd (reset_identity k i ms)"
    by (simp add: reset_identity_def split: option.split)
  moreover have "(\<exists>q \<in> set (es_reservations es). rr_identity_key q = k \<and> ?P q) = fst (reset_identity k i ms)"
    unfolding held mirrorsD_tables(3) [OF m] using same by (auto simp: reset_identity_def split: option.split)
  ultimately show "\<exists>es'. (let hit = (\<lambda>q. rr_identity_key q = k \<and> fence (map_option uuid_str i) (rr_task_id q))
      in (Inr (\<exists>q \<in> set (es_reservations es). hit q), es\<lparr>es_reservations := filter (\<lambda>q. \<not> hit q) (es_reservations es)\<rparr>)) =
      (Inr (fst (reset_identity k i ms)), es') \<and> mirrors (ee_codec env) (snd (reset_identity k i ms)) es'"
    by (simp add: Let_def)
qed

lemma agrees_clear:
  assumes "ready env ms"
  shows "agrees env ms (eph_clear env) (Inr ()) (clear ms)"
  using assms
  by (auto simp: agrees_def eph_clear_def op_bind_def eph_transaction_def ready_def clear_def mirrors_def)

end
