(* ===== verification/Ephemeral_Properties.thy ===== *)
theory Ephemeral_Properties
  imports Ephemeral_System
begin

text \<open>
  What the SQLite backend promises: the simulation of the in-memory backend by sequences of operations, the
  well-formedness of its table, and what an operation that raises leaves behind.
\<close>

section \<open>Operations and their answers\<close>

datatype answer =
    Ack
  | YesNo bool
  | Total nat
  | Stored task_record
  | StoredMany "task_record list"
  | Found "task_record option"
  | ClaimedOne "task_record option \<times> task_record option"
  | ClaimedMany "task_record list \<times> task_record list"
  | Touched heartbeat_touch_result
  | Recovered stale_recovery_result
  | Page dispatch_repair_candidates
  | Owner "task_reservation option"

definition answers :: "('a \<Rightarrow> answer) \<Rightarrow> 'a result \<Rightarrow> answer result" where
  "answers f x = (case x of Inl e \<Rightarrow> Inl e | Inr y \<Rightarrow> Inr (f y))"

definition op_answer :: "('a \<Rightarrow> answer) \<Rightarrow> (eph_state, 'a) op \<Rightarrow> (eph_state, answer) op" where
  "op_answer f m s = (let (x, s') = m s in (answers f x, s'))"

primrec mem_answer :: "mem_op \<Rightarrow> mem_state \<Rightarrow> answer result" where
  "mem_answer (OpEnqueue req eid fresh t1 t2 t3) s = Inr (Stored (fst (enqueue req eid fresh t1 t2 t3 s)))"
| "mem_answer (OpEnqueueMany reqs t1 t2) s = Inr (StoredMany (fst (enqueue_many reqs t1 t2 s)))"
| "mem_answer (OpAssign i w n) s = Inr (Found (fst (assign_worker i w n s)))"
| "mem_answer (OpClaim i n ref t now) s = Inr (ClaimedOne (fst (claim_task_with_expired i n ref t now s)))"
| "mem_answer (OpClaimMany l qs eb lims now) s = Inr (ClaimedMany (fst (claim_many_with_expired l qs eb lims now s)))"
| "mem_answer (OpComplete i v n now) s = Inr (Found (fst (complete_task i v n now s)))"
| "mem_answer (OpFail i err retry n ra q now) s = Inr (Found (fst (fail_task i err retry n ra q now s)))"
| "mem_answer (OpCancel i b n now) s = Inr (YesNo (fst (cancel_task i b n now s)))"
| "mem_answer (OpInterrupt i n w q) s = Inr (Found (fst (interrupt_task i n w q s)))"
| "mem_answer (OpCancelTasks name q kw meta b clock) s = Inr (Total (fst (cancel_tasks name q kw meta b clock s)))"
| "mem_answer (OpTouch ts now) s = Inr (Touched (fst (touch_heartbeats ts now s)))"
| "mem_answer (OpNull ids n) s = Inr Ack"
| "mem_answer (OpStale parse policy after l now clock) s =
     answers Recovered (fst (requeue_stale_running parse policy after l now clock s))"
| "mem_answer (OpExpire l now) s = Inr (StoredMany (fst (expire_overdue l now s)))"
| "mem_answer (OpRepairCandidates eb l now) s = answers Page (fst (list_dispatch_repair_candidates eb l now s))"
| "mem_answer (OpReserveScheduled i eb ref n expected now) s =
     Inr (Found (fst (reserve_scheduled_execution_ref i eb ref n expected now s)))"
| "mem_answer (OpReserveExternal i eb ref p n now t) s = Inr (Found (fst (reserve_external_dispatch i eb ref p n now t s)))"
| "mem_answer (OpClearRef i n ref now) s = Inr (Found (fst (clear_execution_ref i n ref now s)))"
| "mem_answer (OpReplaceRef i n expected ref) s = Inr (Found (fst (replace_execution_ref i n expected ref s)))"
| "mem_answer (OpReleaseExternal i ref eb p now) s = Inr (Found (fst (release_external_dispatch i ref eb p now s)))"
| "mem_answer (OpFinalizeExternal i res eb ref p) s = Inr (Found (fst (finalize_external_dispatch i res eb ref p s)))"
| "mem_answer (OpSetRef i eb ref p) s = Inr (Found (fst (set_execution_ref i eb ref p s)))"
| "mem_answer (OpSetBackend i eb p now) s = Inr (Found (fst (set_execution_backend i eb p now s)))"
| "mem_answer (OpCleanup before l) s = Inr (Total (fst (cleanup_terminal before l s)))"
| "mem_answer (OpAcquire name tok ttl now) s = Inr (YesNo (fst (acquire_maintenance name tok ttl now s)))"
| "mem_answer (OpRelease name tok) s = Inr (YesNo (fst (release_maintenance name tok s)))"
| "mem_answer (OpReserveIdentity k i name now) s = Inr (Owner (fst (reserve_identity k i name now s)))"
| "mem_answer (OpResetIdentity k i) s = Inr (YesNo (fst (reset_identity k i s)))"
| "mem_answer (OpNotifyControl w) s = Inr Ack"
| "mem_answer OpPollWakeup s = Inr Ack"
| "mem_answer OpPollControl s = Inr Ack"
| "mem_answer OpClearAll s = Inr Ack"

text \<open>
  The same vocabulary on the SQLite backend. The operations read the clock where the in-memory ones do; a batch
  claim has 100 frames. Worker-control signals do nothing here.
\<close>

primrec eph_exec :: "eph_env \<Rightarrow> mem_op \<Rightarrow> (eph_state, answer) op" where
  "eph_exec env (OpEnqueue req eid fresh t1 t2 t3) = op_answer Stored (eph_enqueue env req eid fresh t1 t2 t3)"
| "eph_exec env (OpEnqueueMany reqs t1 t2) =
     op_answer StoredMany (eph_enqueue_many env (map (\<lambda>(req, fresh, t). (req, fresh)) reqs) t1 t2)"
| "eph_exec env (OpAssign i w n) = op_answer Found (eph_assign_worker env i w n)"
| "eph_exec env (OpClaim i n ref t now) = op_answer ClaimedOne (eph_claim_task_with_expired env i n ref t now)"
| "eph_exec env (OpClaimMany l qs eb lims now) =
     op_answer ClaimedMany (eph_claim_many_with_expired env (\<lambda>_. now) 100 l qs eb lims)"
| "eph_exec env (OpComplete i v n now) = op_answer Found (eph_complete_task env i v n now)"
| "eph_exec env (OpFail i err retry n ra q now) = op_answer Found (eph_fail_task env i err retry n ra q now)"
| "eph_exec env (OpCancel i b n now) = op_answer YesNo (eph_cancel_task env i b n now)"
| "eph_exec env (OpInterrupt i n w q) = op_answer Found (eph_interrupt_task env i n w q)"
| "eph_exec env (OpCancelTasks name q kw meta b clock) = op_answer Total (eph_cancel_tasks env name q kw meta b (clock 0))"
| "eph_exec env (OpTouch ts now) = op_answer Touched (eph_touch_heartbeats env ts now)"
| "eph_exec env (OpNull ids n) = op_answer (\<lambda>_. Ack) (eph_null_heartbeats env ids n)"
| "eph_exec env (OpStale parse policy after l now clock) =
     op_answer Recovered (eph_requeue_stale_running env parse policy after l now)"
| "eph_exec env (OpExpire l now) = op_answer StoredMany (eph_expire_overdue env l now)"
| "eph_exec env (OpRepairCandidates eb l now) = op_answer Page (eph_list_dispatch_repair_candidates env eb l now)"
| "eph_exec env (OpReserveScheduled i eb ref n expected now) =
     op_answer Found (eph_reserve_scheduled_execution_ref env i eb ref n expected now)"
| "eph_exec env (OpReserveExternal i eb ref p n now t) = op_answer Found (eph_reserve_external_dispatch env i eb ref p n now t)"
| "eph_exec env (OpClearRef i n ref now) = op_answer Found (eph_clear_execution_ref env i n ref now)"
| "eph_exec env (OpReplaceRef i n expected ref) = op_answer Found (eph_replace_execution_ref env i n expected ref)"
| "eph_exec env (OpReleaseExternal i ref eb p now) = op_answer Found (eph_release_external_dispatch env i ref eb p now)"
| "eph_exec env (OpFinalizeExternal i res eb ref p) = op_answer Found (eph_finalize_external_dispatch env i res eb ref p)"
| "eph_exec env (OpSetRef i eb ref p) = op_answer Found (eph_set_execution_ref env i eb ref p)"
| "eph_exec env (OpSetBackend i eb p now) = op_answer Found (eph_set_execution_backend env i eb p now)"
| "eph_exec env (OpCleanup before l) = op_answer Total (eph_cleanup_terminal env before l)"
| "eph_exec env (OpAcquire name tok ttl now) = op_answer YesNo (eph_acquire_maintenance env name tok ttl now)"
| "eph_exec env (OpRelease name tok) = op_answer YesNo (eph_release_maintenance env name tok)"
| "eph_exec env (OpReserveIdentity k i name now) = op_answer Owner (eph_reserve_identity env k i name now)"
| "eph_exec env (OpResetIdentity k i) = op_answer YesNo (eph_reset_identity env k i)"
| "eph_exec env (OpNotifyControl w) = op_return Ack"
| "eph_exec env OpPollWakeup = (\<lambda>s. (Inr Ack, s\<lparr>es_notification := False\<rparr>))"
| "eph_exec env OpPollControl = op_return Ack"
| "eph_exec env OpClearAll = op_answer (\<lambda>_. Ack) (eph_clear env)"

text \<open>
  The operations in which the two backends are to agree, with the ranges of Python's types. Left out are the batch
  claim, the stale sweep and the expiry sweep, where they differ (below), and the signals of one process.
\<close>

definition is_uuid :: "uuid \<Rightarrow> bool" where
  "is_uuid i \<longleftrightarrow> i < 16 ^ 32"

definition comparable :: "mem_op \<Rightarrow> bool" where
  "comparable x =
     (case x of
        OpEnqueue req eid fresh t1 t2 t3 \<Rightarrow> True
      | OpEnqueueMany reqs t1 t2 \<Rightarrow> list_all (\<lambda>(req, fresh, t). t = t1) reqs
      | OpAssign i w n \<Rightarrow> is_uuid i
      | OpClaim i n ref t now \<Rightarrow> is_uuid i
      | OpClaimMany l qs eb lims now \<Rightarrow> False
      | OpComplete i v n now \<Rightarrow> is_uuid i
      | OpFail i err retry n ra q now \<Rightarrow> is_uuid i
      | OpCancel i b n now \<Rightarrow> is_uuid i
      | OpInterrupt i n w q \<Rightarrow> is_uuid i
      | OpCancelTasks name q kw meta b clock \<Rightarrow> clock = (\<lambda>_. clock 0)
      | OpTouch ts now \<Rightarrow> distinct (map ht_task_id ts) \<and> list_all (\<lambda>t. is_uuid (ht_task_id t)) ts
      | OpNull ids n \<Rightarrow> list_all is_uuid ids
      | OpStale parse policy after l now clock \<Rightarrow> False
      | OpExpire l now \<Rightarrow> False
      | OpRepairCandidates eb l now \<Rightarrow> datetime_range now
      | OpReserveScheduled i eb ref n expected now \<Rightarrow> is_uuid i \<and> datetime_range now
      | OpReserveExternal i eb ref p n now t \<Rightarrow> is_uuid i
      | OpClearRef i n ref now \<Rightarrow> is_uuid i
      | OpReplaceRef i n expected ref \<Rightarrow> is_uuid i
      | OpReleaseExternal i ref eb p now \<Rightarrow> is_uuid i
      | OpFinalizeExternal i res eb ref p \<Rightarrow> is_uuid i
      | OpSetRef i eb ref p \<Rightarrow> is_uuid i
      | OpSetBackend i eb p now \<Rightarrow> is_uuid i
      | OpCleanup before l \<Rightarrow> datetime_range before \<and> (case l of None \<Rightarrow> True | Some n \<Rightarrow> 0 \<le> n)
      | OpAcquire name tok ttl now \<Rightarrow> True
      | OpRelease name tok \<Rightarrow> True
      | OpReserveIdentity k i name now \<Rightarrow> is_uuid i
      | OpResetIdentity k i \<Rightarrow> (case i of None \<Rightarrow> True | Some u \<Rightarrow> is_uuid u)
      | OpNotifyControl w \<Rightarrow> False
      | OpPollWakeup \<Rightarrow> False
      | OpPollControl \<Rightarrow> False
      | OpClearAll \<Rightarrow> True)"

lemma agrees_answer: "agrees env ms m x ms' \<Longrightarrow> agrees env ms (op_answer f m) (answers f x) ms'"
  by (fastforce simp: agrees_def op_answer_def)

lemma agrees_answer_Inr: "agrees env ms m (Inr x) ms' \<Longrightarrow> agrees env ms (op_answer f m) (Inr (f x)) ms'"
  using agrees_answer [of env ms m "Inr x" ms' f] by (simp add: answers_def)

lemma exec_agrees:
  assumes r: "ready env ms" and plan: "plan_ok env" and ok: "op_ok x ms" and c: "comparable x"
    and st: "state_storable (ee_codec env) (mem_step x ms)"
  shows "agrees env ms (eph_exec env x) (mem_answer x ms) (mem_step x ms)"
  using ok c st
proof (cases x)
  case (OpEnqueue req eid fresh t1 t2 t3)
  then show ?thesis using ok st by (simp add: agrees_answer_Inr agrees_enqueue [OF r] op_ok_def op_new_ids_def)
next
  case (OpEnqueueMany reqs t1 t2)
  have "agrees env ms (eph_enqueue_many env (map (\<lambda>(req, fresh, t). (req, fresh)) reqs) t1 t2)
      (Inr (fst (enqueue_many reqs t1 t2 ms))) (snd (enqueue_many reqs t1 t2 ms))"
    using ok c st by (intro agrees_enqueue_many [OF r]) (auto simp: OpEnqueueMany op_ok_def op_new_ids_def comparable_def list_all_iff)
  then show ?thesis by (simp add: OpEnqueueMany agrees_answer_Inr)
next
  case (OpComplete i v n now)
  then obtain k where "n = Some k" using ok by (auto simp: op_ok_def op_disciplined_def)
  then show ?thesis using c st by (simp add: OpComplete comparable_def is_uuid_def agrees_answer_Inr agrees_single(2) [OF r])
next
  case (OpFail i err retry n ra q now)
  then obtain k where "n = Some k" using ok by (auto simp: op_ok_def op_disciplined_def)
  then show ?thesis using c st by (simp add: OpFail comparable_def is_uuid_def agrees_answer_Inr agrees_single(3) [OF r])
next
  case (OpCancelTasks name q kw meta b clock)
  then have "clock = (\<lambda>_. clock 0)" using c by (simp add: comparable_def)
  then obtain t where t: "clock = (\<lambda>_. t)" by blast
  show ?thesis using st by (simp add: OpCancelTasks t agrees_answer_Inr agrees_cancel_tasks [OF r plan])
next
  case (OpTouch ts now)
  have "agrees env ms (eph_touch_heartbeats env ts now) (Inr (fst (touch_heartbeats ts now ms))) (snd (touch_heartbeats ts now ms))"
    using ok c st by (intro agrees_touch_heartbeats [OF r])
      (auto simp: OpTouch op_ok_def op_disciplined_def comparable_def is_uuid_def list_all_iff)
  then show ?thesis by (simp add: OpTouch agrees_answer_Inr)
next
  case (OpNull ids n)
  have "agrees env ms (eph_null_heartbeats env ids n) (Inr ()) (null_heartbeats ids n ms)"
    using c st by (intro agrees_null_heartbeats [OF r]) (auto simp: OpNull comparable_def is_uuid_def list_all_iff)
  from agrees_answer_Inr [OF this, of "\<lambda>_. Ack"] show ?thesis by (simp add: OpNull)
next
  case (OpResetIdentity k i)
  have "case i of None \<Rightarrow> True | Some u \<Rightarrow> u < 16 ^ 32"
    using c unfolding OpResetIdentity comparable_def mem_op.case is_uuid_def .
  from agrees_answer_Inr [OF agrees_reset_identity [OF r this], of YesNo] show ?thesis by (simp add: OpResetIdentity)
next
  case OpClearAll
  from agrees_answer_Inr [OF agrees_clear [OF r], of "\<lambda>_. Ack"] show ?thesis by (simp add: OpClearAll)
qed (simp_all add: comparable_def is_uuid_def agrees_answer agrees_answer_Inr agrees_single [OF r]
    agrees_notifying [OF r] agrees_cancel_task [OF r] agrees_claim_task [OF r] agrees_reserve_external [OF r]
    agrees_reserve_scheduled [OF r] agrees_cleanup [OF r] agrees_repair_page [OF r] agrees_acquire [OF r] agrees_release [OF r]
    agrees_reserve_identity [OF r])

section \<open>Sequences of operations\<close>

fun mem_answers :: "mem_op list \<Rightarrow> mem_state \<Rightarrow> answer result list \<times> mem_state" where
  "mem_answers [] s = ([], s)"
| "mem_answers (x # xs) s = (let (rest, s') = mem_answers xs (mem_step x s) in (mem_answer x s # rest, s'))"

fun eph_answers :: "eph_env \<Rightarrow> mem_op list \<Rightarrow> eph_state \<Rightarrow> answer result list \<times> eph_state" where
  "eph_answers env [] s = ([], s)"
| "eph_answers env (x # xs) s =
     (let (a, s1) = eph_exec env x s; (rest, s') = eph_answers env xs s1 in (a # rest, s'))"

text \<open>The discipline of the callers, and that the backend can hold what the operations write.\<close>

fun run_ok :: "json_codec \<Rightarrow> mem_op list \<Rightarrow> mem_state \<Rightarrow> bool" where
  "run_ok jc [] s = True"
| "run_ok jc (x # xs) s = (op_ok x s \<and> comparable x \<and> state_storable jc (mem_step x s) \<and> run_ok jc xs (mem_step x s))"

definition new_database :: "string \<Rightarrow> eph_state" where
  "new_database path = \<lparr>es_path = Some path, es_tasks = [], es_reservations = [], es_maintenance = [], es_notification = False\<rparr>"

lemma new_database_mirrors: "mirrors jc mem_init (new_database path)"
  by (simp add: mirrors_def mem_init_def new_database_def)

lemma runs_agree:
  assumes "ready env ms" "plan_ok env" "mirrors (ee_codec env) ms es" "run_ok (ee_codec env) xs ms"
  shows "fst (eph_answers env xs es) = fst (mem_answers xs ms) \<and>
    mirrors (ee_codec env) (snd (mem_answers xs ms)) (snd (eph_answers env xs es))"
  using assms
proof (induction xs arbitrary: ms es)
  case (Cons x xs)
  have ok: "op_ok x ms" "comparable x" "state_storable (ee_codec env) (mem_step x ms)" "run_ok (ee_codec env) xs (mem_step x ms)"
    using Cons.prems(4) by simp_all
  from exec_agrees [OF Cons.prems(1,2) ok(1-3)] Cons.prems(3)
  obtain es1 where es1: "eph_exec env x es = (mem_answer x ms, es1)" "mirrors (ee_codec env) (mem_step x ms) es1"
    unfolding agrees_def by blast
  have "ready env (mem_step x ms)"
    using mem_step_wf [OF readyD(1) [OF Cons.prems(1)] ok(1)] ok(3) Cons.prems(1) by (simp add: ready_def)
  from Cons.IH [OF this Cons.prems(2) es1(2) ok(4)] show ?case by (simp add: es1(1) Let_def case_prod_beta)
qed simp

text \<open>Property C37: from an empty database, every sequence of single-record and bulk operations without batch claims,
  stale sweeps, expiry sweeps and process signals, that keeps the callers' discipline within the ranges of the
  types, gives the same answers in the SQLite and the in-memory backend, errors included, and leaves tables
  that are the image of the in-memory records, reservations and owners. Where the excluded sweeps
  agree and where they differ is stated separately (\<open>stale_sweep_agrees\<close>, \<open>limited_claim_raises\<close>).\<close>

theorem ephemeral_refines_memory:
  assumes "ee_failure env = None" "plan_ok env" "run_ok (ee_codec env) xs mem_init"
  shows "fst (eph_answers env xs (new_database path)) = fst (mem_answers xs mem_init) \<and>
    mirrors (ee_codec env) (snd (mem_answers xs mem_init)) (snd (eph_answers env xs (new_database path)))"
proof (rule runs_agree [OF _ assms(2) new_database_mirrors assms(3)])
  show "ready env mem_init" using assms(1) by (simp add: ready_def state_storable_def mem_init_def [THEN arg_cong [of _ _ mem_records]]
      mem_init_def [THEN arg_cong [of _ _ mem_reservations]] mem_init_def [THEN arg_cong [of _ _ mem_maintenances]])
qed

text \<open>A serializer that knows the records of a list, and the life of one task.\<close>

definition codec_of :: "task_record list \<Rightarrow> instant list \<Rightarrow> json_codec" where
  "codec_of rs ts = \<lparr>jc_encode = (\<lambda>v. case filter (\<lambda>n. PDict (record_mapping (rs ! n)) = v) [0..<length rs] of
       [] \<Rightarrow> None | n # _ \<Rightarrow> Some (replicate n CHR ''x'')),
     jc_decode = (\<lambda>b. if length b < length rs then Some (PDict (record_mapping (rs ! length b))) else None),
     jc_datetime = (\<lambda>s. find (\<lambda>t. iso_text t = s) ts)\<rparr>"

definition mail_request :: task_request where
  "mail_request = \<lparr>req_task_name = ''app.mail'', req_args = [PInt 3], req_kwargs = Some [(''to'', PStr ''a'')],
     req_queue = ''default'', req_priority = 5, req_max_retries = 2, req_scheduled_at = None, req_expires_at = None,
     req_key = Some ''k'', req_execution_backend = ''local'', req_execution_profile = None, req_metadata = None\<rparr>"

definition mail_records :: "task_record list" where
  "mail_records = (let r = new_record mail_request 7 Pending 10; r' = start_record 10 r in [r, r', complete_record (PInt 1) 10 r'])"

definition mail_env :: eph_env where
  "mail_env = \<lparr>ee_codec = codec_of mail_records [10], ee_plan = (\<lambda>rows. rows), ee_failure = None\<rparr>"

definition mail_run :: "mem_op list" where
  "mail_run = [OpEnqueue mail_request None 7 10 10 10, OpClaim 7 None None 10 10, OpComplete 7 (PInt 1) (Some 0) 10]"

lemma filter_upt_single: "n < l \<Longrightarrow> filter (\<lambda>m. m = n) [0..<l] = [n]"
  by (induction l) (auto simp: less_Suc_eq filter_empty_conv)

lemma codec_of_index:
  assumes "n < length rs" "distinct (map record_mapping rs)"
  shows "jc_encode (codec_of rs ts) (PDict (record_mapping (rs ! n))) = Some (replicate n CHR ''x'')"
proof -
  have "filter (\<lambda>m. record_mapping (rs ! m) = record_mapping (rs ! n)) [0..<length rs] = filter (\<lambda>m. m = n) [0..<length rs]"
    using assms nth_eq_iff_index_eq [OF assms(2)] by (intro filter_cong) auto
  also have "\<dots> = [n]" using assms(1) by (rule filter_upt_single)
  finally show ?thesis by (simp add: codec_of_def)
qed

lemma mail_storable: "r \<in> set mail_records \<Longrightarrow> storable (ee_codec mail_env) r"
proof -
  assume "r \<in> set mail_records"
  then obtain n where n: "n < length mail_records" "r = mail_records ! n" by (auto simp: in_set_conv_nth)
  have range: "datetime_range 10" by (simp add: datetime_range_def DAY_def DAY_OF_EPOCH_def days_before_year_def Let_def)
  have "distinct (map record_mapping mail_records)"
    by (simp add: mail_records_def Let_def start_record_def complete_record_def record_mapping_def new_record_def mail_request_def)
  from codec_of_index [OF n(1) this, of "[10]"] n
  have keeps: "jc_decode (ee_codec mail_env) (replicate n CHR ''x'') = Some (PDict (record_mapping r))"
    "jc_encode (ee_codec mail_env) (PDict (record_mapping r)) = Some (replicate n CHR ''x'')"
    by (simp_all add: mail_env_def) (simp add: codec_of_def)
  have times: "list_all (\<lambda>(name, t). case t of None \<Rightarrow> True | Some u \<Rightarrow> u = 10) (record_datetimes r)" "rid r < 16 ^ 32"
    using \<open>r \<in> set mail_records\<close>
    by (auto simp: mail_records_def Let_def start_record_def complete_record_def new_record_def mail_request_def record_datetimes_def)
  have "jc_datetime (ee_codec mail_env) (iso_text 10) = Some 10" by (simp add: mail_env_def codec_of_def)
  with keeps times range show ?thesis
    by (auto simp: storable_def codec_keeps_def in_range_def list_all_iff split: option.splits)
qed

lemma ephemeral_refines_memory_witness:
  "map (case_sum (\<lambda>e. False) (\<lambda>a. case a of Found (Some r) \<Rightarrow> status r = Completed | Stored r \<Rightarrow> True | ClaimedOne c \<Rightarrow> fst c \<noteq> None | _ \<Rightarrow> False))
    (fst (eph_answers mail_env mail_run (new_database ''/tmp/q''))) = [True, True, True]"
proof -
  define r1 r2 r3 where rs: "r1 = new_record mail_request 7 Pending 10" "r2 = start_record 10 r1" "r3 = complete_record (PInt 1) 10 r2"
  have fields: "rid r1 = 7" "key r1 = Some ''k''" "status r1 = Pending" "scheduled_at r1 = None" "execution_ref r1 = None"
    "expires_at r1 = None" "retry_count r1 = 0" "status r2 = Running" "retry_count r2 = 0" "status r3 = Completed" "rid r2 = 7" "rid r3 = 7"
    by (simp_all add: rs new_record_def mail_request_def start_record_def complete_record_def)
  have status: "initial_status 10 mail_request = Pending" by (simp add: initial_status_def mail_request_def)
  have key: "req_key mail_request = Some ''k''" by (simp add: mail_request_def)
  have init: "mem_keys mem_init = []" "mem_records mem_init = []" by (simp_all add: mem_init_def)
  have s1: "enqueue mail_request None 7 10 10 10 mem_init = (r1, mem_init\<lparr>mem_records := [(7, r1)], mem_keys := [(''k'', 7)], mem_notification := True\<rparr>)"
    by (simp add: enqueue_def existing_for_key_def Let_def init key status rs(1) [symmetric] insert_record_def put_record_def fields
        notify_new_task_def is_waiting_def is_due_def)
  have s2: "claim_task_with_expired 7 None None 10 10 (mem_init\<lparr>mem_records := [(7, r1)], mem_keys := [(''k'', 7)], mem_notification := True\<rparr>) =
      ((Some r2, None), mem_init\<lparr>mem_records := [(7, r2)], mem_keys := [(''k'', 7)], mem_notification := True\<rparr>)"
    by (simp add: claim_task_with_expired_def claimable_def is_waiting_def is_due_def is_expired_def fields rs(2) [symmetric])
  have s3: "complete_task 7 (PInt 1) (Some 0) 10 (mem_init\<lparr>mem_records := [(7, r2)], mem_keys := [(''k'', 7)], mem_notification := True\<rparr>) =
      (Some r3, mem_init\<lparr>mem_records := [(7, r3)], mem_keys := [(''k'', 7)], mem_notification := True\<rparr>)"
    by (simp add: complete_task_def modify_if_def attempt_fence_def fields rs(3) [symmetric])
  have recs: "mail_records = [r1, r2, r3]" by (simp add: mail_records_def Let_def rs)
  have st: "state_storable (ee_codec mail_env) (mem_init\<lparr>mem_records := [(7, r)], mem_keys := k, mem_notification := True\<rparr>)"
    if "r \<in> set mail_records" for r k
    using mail_storable [OF that] by (simp add: state_storable_def) (simp add: mem_init_def)
  have run: "run_ok (ee_codec mail_env) mail_run mem_init"
    by (simp add: mail_run_def s1 s2 s3 st recs op_ok_def op_disciplined_def op_new_ids_def comparable_def is_uuid_def)
      (simp add: mem_init_def new_id_def)
  have env: "ee_failure mail_env = None" "plan_ok mail_env" by (simp_all add: mail_env_def plan_ok_def)
  have "fst (mem_answers mail_run mem_init) = [Inr (Stored r1), Inr (ClaimedOne (Some r2, None)), Inr (Found (Some r3))]"
    by (simp add: mail_run_def s1 s2 s3)
  with ephemeral_refines_memory [OF env run, of "''/tmp/q''"] show ?thesis by (simp add: fields)
qed

end
