(* ===== verification/Ephemeral_Safety.thy ===== *)
theory Ephemeral_Safety
  imports Ephemeral_Properties
begin

text \<open>
  What holds of the SQLite backend whatever its callers do: its tables stay well formed, an operation that raises
  leaves them as they were, and a batch claim with queue limits raises.
\<close>

section \<open>Well-formed tables\<close>

definition table_ok :: "json_codec \<Rightarrow> eph_state \<Rightarrow> bool" where
  "table_ok jc s \<longleftrightarrow>
     distinct (map row_id (es_tasks s)) \<and>
     (\<forall>row \<in> set (es_tasks s). \<exists>r. task_columns jc r = Inr row) \<and>
     (\<forall>a \<in> set (es_tasks s). \<forall>b \<in> set (es_tasks s).
        row_key a \<noteq> None \<and> row_key a = row_key b \<and> live_row a \<and> live_row b \<longrightarrow> row_id a = row_id b) \<and>
     distinct (map rr_identity_key (es_reservations s)) \<and> distinct (map mr_name (es_maintenance s))"

lemma table_okD:
  assumes "table_ok jc s"
  shows "distinct (map row_id (es_tasks s))" "\<And>row. row \<in> set (es_tasks s) \<Longrightarrow> \<exists>r. task_columns jc r = Inr row"
    and "\<And>a b. a \<in> set (es_tasks s) \<Longrightarrow> b \<in> set (es_tasks s) \<Longrightarrow> row_key a \<noteq> None \<Longrightarrow> row_key a = row_key b \<Longrightarrow>
      live_row a \<Longrightarrow> live_row b \<Longrightarrow> row_id a = row_id b"
    and "distinct (map rr_identity_key (es_reservations s))" "distinct (map mr_name (es_maintenance s))"
  using assms unfolding table_ok_def by blast+

lemma table_ok_tasks:
  assumes "table_ok jc s" "distinct (map row_id rows)" "\<And>row. row \<in> set rows \<Longrightarrow> \<exists>r. task_columns jc r = Inr row"
    and "\<And>a b. a \<in> set rows \<Longrightarrow> b \<in> set rows \<Longrightarrow> row_key a \<noteq> None \<Longrightarrow> row_key a = row_key b \<Longrightarrow>
      live_row a \<Longrightarrow> live_row b \<Longrightarrow> row_id a = row_id b"
  shows "table_ok jc (s\<lparr>es_tasks := rows\<rparr>)"
proof -
  have u: "es_tasks (s\<lparr>es_tasks := rows\<rparr>) = rows" "es_reservations (s\<lparr>es_tasks := rows\<rparr>) = es_reservations s"
    "es_maintenance (s\<lparr>es_tasks := rows\<rparr>) = es_maintenance s" by simp_all
  show ?thesis using assms unfolding table_ok_def u by blast
qed

definition keeps_tables :: "json_codec \<Rightarrow> (eph_state, 'a) op \<Rightarrow> bool" where
  "keeps_tables jc m \<longleftrightarrow> (\<forall>s. table_ok jc s \<longrightarrow> table_ok jc (snd (m s)))"

named_theorems keeps_intros \<open>operations that keep the tables well formed\<close>

lemma keeps_tables_basic [keeps_intros]:
  "keeps_tables jc (op_return x)" "keeps_tables jc (op_raise e)" "keeps_tables jc (op_read q)"
  by (simp_all add: keeps_tables_def op_return_def op_raise_def op_read_def)

lemma keeps_tables_bind [keeps_intros]:
  "keeps_tables jc m \<Longrightarrow> (\<And>x. keeps_tables jc (f x)) \<Longrightarrow> keeps_tables jc (op_bind m f)"
proof -
  assume m: "keeps_tables jc m" and f: "\<And>x. keeps_tables jc (f x)"
  have "table_ok jc (snd (op_bind m f s))" if ok: "table_ok jc s" for s
  proof (cases "m s")
    case (Pair x s')
    then have "table_ok jc s'" using m ok unfolding keeps_tables_def by fastforce
    with f show ?thesis by (cases x) (simp_all add: op_bind_def Pair keeps_tables_def)
  qed
  then show ?thesis by (simp add: keeps_tables_def)
qed

lemma keeps_transaction [keeps_intros]: "keeps_tables jc m \<Longrightarrow> keeps_tables jc (eph_transaction env m)"
  unfolding keeps_tables_def eph_transaction_def
  by (auto split: option.split prod.split sum.split)

lemma keeps_run [keeps_intros]: "keeps_tables jc (eph_run env q)"
  by (simp add: keeps_tables_def eph_run_def split: option.split)

lemma keeps_same:
  assumes "\<And>s. es_tasks (snd (m s)) = es_tasks s \<and> es_reservations (snd (m s)) = es_reservations s \<and> es_maintenance (snd (m s)) = es_maintenance s"
  shows "keeps_tables jc m"
proof -
  have "table_ok jc (snd (m s)) \<longleftrightarrow> table_ok jc s" for s
    by (simp only: table_ok_def assms [THEN conjunct1] assms [THEN conjunct2, THEN conjunct1] assms [THEN conjunct2, THEN conjunct2])
  then show ?thesis by (simp add: keeps_tables_def)
qed

lemma keeps_write [keeps_intros]: "keeps_tables jc (eph_write jc r)"
  unfolding keeps_tables_def
proof (intro allI impI)
  fix s assume ok: "table_ok jc s"
  show "table_ok jc (snd (eph_write jc r s))"
  proof (cases "task_columns jc r")
    case (Inr row)
    let ?rows = "replace_row row (es_tasks s)"
    have ids: "map row_id ?rows = map row_id (es_tasks s)" by (simp add: replace_row_def)
    have mem: "q = row \<and> (\<exists>p \<in> set (es_tasks s). row_id p = row_id row) \<or> q \<in> set (es_tasks s) \<and> row_id q \<noteq> row_id row"
      if "q \<in> set ?rows" for q using that by (auto simp: replace_row_def split: if_splits)
    show ?thesis
    proof (cases "(\<exists>q \<in> set (es_tasks s). row_id q = row_id row) \<and> key_taken row (es_tasks s)")
      case False
      have "table_ok jc (s\<lparr>es_tasks := ?rows\<rparr>)"
      proof (rule table_ok_tasks [OF ok])
        show "distinct (map row_id ?rows)" unfolding ids by (rule table_okD(1) [OF ok])
        show "\<exists>r. task_columns jc r = Inr q" if "q \<in> set ?rows" for q using mem [OF that] Inr table_okD(2) [OF ok] by blast
        fix a b assume ab: "a \<in> set ?rows" "b \<in> set ?rows" "row_key a \<noteq> None" "row_key a = row_key b" "live_row a" "live_row b"
        show "row_id a = row_id b"
          using mem [OF ab(1)] mem [OF ab(2)] ab(3-6) False table_okD(3) [OF ok, of a b] unfolding key_taken_def by metis
      qed
      with Inr False show ?thesis by (auto simp: eph_write_def)
    qed (simp add: eph_write_def Inr ok)
  qed (simp add: eph_write_def ok)
qed

lemma keeps_insert [keeps_intros]: "keeps_tables jc (eph_insert jc r)"
  unfolding keeps_tables_def
proof (intro allI impI)
  fix s assume ok: "table_ok jc s"
  show "table_ok jc (snd (eph_insert jc r s))"
  proof (cases "task_columns jc r")
    case (Inr row)
    show ?thesis
    proof (cases "(\<exists>q \<in> set (es_tasks s). row_id q = row_id row) \<or> key_taken row (es_tasks s)")
      case False
      have "table_ok jc (s\<lparr>es_tasks := es_tasks s @ [row]\<rparr>)"
      proof (rule table_ok_tasks [OF ok])
        show "distinct (map row_id (es_tasks s @ [row]))" using table_okD(1) [OF ok] False by auto
        show "\<exists>r. task_columns jc r = Inr q" if "q \<in> set (es_tasks s @ [row])" for q
          using that Inr table_okD(2) [OF ok] by auto
        fix a b assume ab: "a \<in> set (es_tasks s @ [row])" "b \<in> set (es_tasks s @ [row])" "row_key a \<noteq> None" "row_key a = row_key b"
          "live_row a" "live_row b"
        have no: "q \<notin> set (es_tasks s)" if "row_key q = row_key row" "row_key q \<noteq> None" "live_row q" "live_row row" for q
          using False that unfolding key_taken_def by metis
        have "a = row \<or> a \<in> set (es_tasks s)" "b = row \<or> b \<in> set (es_tasks s)" using ab(1,2) by auto
        then show "row_id a = row_id b" using no [of a] no [of b] ab(3-6) table_okD(3) [OF ok, of a b] by metis
      qed
      with Inr False show ?thesis by (simp add: eph_insert_def)
    qed (simp add: eph_insert_def Inr ok)
  qed (simp add: eph_insert_def ok)
qed

lemma keeps_option [keeps_intros]:
  "keeps_tables jc a \<Longrightarrow> (\<And>y. keeps_tables jc (b y)) \<Longrightarrow> keeps_tables jc (case x of None \<Rightarrow> a | Some y \<Rightarrow> b y)"
  by (cases x) simp_all

lemma keeps_if [keeps_intros]: "keeps_tables jc a \<Longrightarrow> keeps_tables jc b \<Longrightarrow> keeps_tables jc (if c then a else b)"
  by simp

lemma keeps_let [keeps_intros]: "(\<And>y. keeps_tables jc (f y)) \<Longrightarrow> keeps_tables jc (let x = y in f x)"
  by simp

lemma keeps_pair [keeps_intros]: "(\<And>a b. keeps_tables jc (f a b)) \<Longrightarrow> keeps_tables jc (case x of (a, b) \<Rightarrow> f a b)"
  by (cases x) simp

lemma keeps_answer [keeps_intros]: "keeps_tables jc m \<Longrightarrow> keeps_tables jc (op_answer f m)"
  by (simp add: keeps_tables_def op_answer_def case_prod_beta)

lemma keeps_notified [keeps_intros]: "keeps_tables jc m \<Longrightarrow> keeps_tables jc (then_notified now m)"
  unfolding then_notified_def
  by (rule keeps_tables_bind) (auto intro: keeps_same simp: eph_notify_new_task_def split: option.split)

lemma keeps_update [keeps_intros]: "keeps_tables (ee_codec env) (eph_update env i guard f)"
  unfolding eph_update_def by (intro keeps_intros)

lemma keeps_write_all [keeps_intros]: "keeps_tables jc (write_all jc rs)"
  by (induction rs) (auto intro!: keeps_intros)

lemma keeps_store_new [keeps_intros]: "keeps_tables jc (store_new jc r)"
  unfolding store_new_def by (intro keeps_intros)

lemma keeps_store_requests [keeps_intros]: "keeps_tables jc (store_requests jc now rs)"
proof (induction rs)
  case (Cons x rs)
  then show ?case by (cases x) (auto intro!: keeps_intros)
qed (simp add: keeps_intros)

lemma keeps_touch_rows [keeps_intros]: "keeps_tables jc (touch_rows jc now ts res)"
  by (induction ts arbitrary: res) (auto simp: Let_def intro!: keeps_intros)

lemma keeps_null_rows [keeps_intros]: "keeps_tables jc (null_rows jc n ids)"
  by (induction ids) (auto intro!: keeps_intros)

lemma keeps_recover_rows [keeps_intros]: "keeps_tables jc (recover_rows jc parse policy now rs res)"
proof (induction rs arbitrary: res)
  case (Cons r rs)
  show ?case by (cases "stale_step parse policy now r") (auto simp: Let_def intro!: keeps_intros Cons.IH)
qed (simp add: keeps_intros)

lemma keeps_expire [keeps_intros]: "keeps_tables (ee_codec env) (eph_expire_overdue env limit now)"
  unfolding eph_expire_overdue_def by (intro keeps_intros)

lemma keeps_claim_many [keeps_intros]:
  "keeps_tables (ee_codec env) (eph_claim_many env clk d limit queues eb limits)"
  "keeps_tables (ee_codec env) (eph_claim_many_with_expired env clk d limit queues eb limits)"
proof (induction d rule: less_induct)
  case (less d)
  {
    case 1
    show ?case using less by (cases d) (auto intro!: keeps_intros)
  next
    case 2
    show ?case
      using less by (cases d; cases limits) (auto simp: claim_batch_def intro!: keeps_intros)
  }
qed

lemma keeps_filters:
  assumes "table_ok jc s"
  shows "table_ok jc (s\<lparr>es_tasks := filter P (es_tasks s)\<rparr>)" "table_ok jc (s\<lparr>es_reservations := filter Q (es_reservations s)\<rparr>)"
    "table_ok jc (s\<lparr>es_maintenance := filter R (es_maintenance s)\<rparr>)"
  using assms by (auto simp: table_ok_def distinct_map_filter)

lemma keepsI: "(\<And>s. table_ok jc s \<Longrightarrow> table_ok jc (snd (m s))) \<Longrightarrow> keeps_tables jc m"
  by (simp add: keeps_tables_def)

lemma keeps_other_tables [keeps_intros]:
  "keeps_tables (ee_codec env) (eph_cleanup_terminal env before limit)"
  "keeps_tables (ee_codec env) (eph_acquire_maintenance env name token ttl now)"
  "keeps_tables (ee_codec env) (eph_release_maintenance env name token)"
  "keeps_tables (ee_codec env) (eph_reset_identity env k i)"
proof -
  have put: "table_ok jc (put_maintenance row s)" if "table_ok jc s" for jc row s
    using that by (auto simp: table_ok_def put_maintenance_def distinct_map_filter)
  show "keeps_tables (ee_codec env) (eph_acquire_maintenance env name token ttl now)"
    unfolding eph_acquire_maintenance_def
    by (intro keeps_transaction keepsI) (simp add: Let_def put split: option.split)
qed (unfold eph_cleanup_terminal_def eph_release_maintenance_def eph_reset_identity_def,
    (intro keeps_transaction keepsI; simp add: Let_def keeps_filters)+)

lemma keeps_reserve [keeps_intros]: "keeps_tables (ee_codec env) (eph_reserve_identity env k i name now)"
  unfolding eph_reserve_identity_def
proof (rule keeps_transaction, rule keepsI)
  fix s assume ok: "table_ok (ee_codec env) s"
  let ?row = "\<lparr>rr_identity_key = k, rr_task_id = uuid_str i, rr_task_name = name, rr_created_at = iso_text now\<rparr>"
  have "table_ok (ee_codec env) (s\<lparr>es_reservations := es_reservations s @ [?row]\<rparr>)"
    if "read_reservation (ee_codec env) k s = Inr None"
  proof -
    have "find (\<lambda>q. rr_identity_key q = k) (es_reservations s) = None"
      using that by (simp add: read_reservation_def split: option.splits)
    with ok show ?thesis by (auto simp: table_ok_def find_None_iff)
  qed
  with ok show "table_ok (ee_codec env) (snd (op_bind (op_read (read_reservation (ee_codec env) k))
      (\<lambda>x. case x of None \<Rightarrow> (\<lambda>s. (Inr None, s\<lparr>es_reservations := es_reservations s @ [?row]\<rparr>))
        | Some owner \<Rightarrow> op_return (Some owner)) s))"
    by (cases "read_reservation (ee_codec env) k s") (auto simp: op_bind_def op_read_def op_return_def split: option.split)
qed

lemma keeps_clear [keeps_intros]: "keeps_tables (ee_codec env) (eph_clear env)"
  unfolding eph_clear_def
proof (rule keeps_tables_bind)
  show "keeps_tables (ee_codec env) (\<lambda>s. (Inr (), s\<lparr>es_notification := False\<rparr>))" by (rule keeps_same) simp
qed (intro keeps_transaction keepsI, simp add: table_ok_def)

lemma keeps_enqueue [keeps_intros]:
  "keeps_tables (ee_codec env) (eph_enqueue env req eid fresh t1 t2 t3)"
  "keeps_tables (ee_codec env) (eph_enqueue_many env reqs t1 t2)"
proof -
  have n: "keeps_tables jc (\<lambda>s. (Inr x, eph_notify_new_task now r s))" "keeps_tables jc (\<lambda>s. (Inr y, eph_notify_new_tasks now rs s))"
    for jc x y now r rs
    by (rule keeps_same; simp add: eph_notify_new_task_def eph_notify_new_tasks_def split: list.split)+
  show "keeps_tables (ee_codec env) (eph_enqueue env req eid fresh t1 t2 t3)"
    unfolding eph_enqueue_def Let_def by (intro keeps_intros n)
  show "keeps_tables (ee_codec env) (eph_enqueue_many env reqs t1 t2)"
    unfolding eph_enqueue_many_def by (intro keeps_intros n)
qed

lemmas single_operations = eph_assign_worker_def eph_claim_task_with_expired_def eph_complete_task_def eph_fail_task_def
  eph_cancel_task_def eph_interrupt_task_def eph_cancel_tasks_def eph_touch_heartbeats_def eph_null_heartbeats_def
  eph_requeue_stale_running_def eph_list_dispatch_repair_candidates_def eph_reserve_scheduled_execution_ref_def
  eph_reserve_external_dispatch_def eph_clear_execution_ref_def eph_replace_execution_ref_def
  eph_release_external_dispatch_def eph_finalize_external_dispatch_def eph_set_execution_ref_def eph_set_execution_backend_def

lemma exec_keeps_tables: "keeps_tables (ee_codec env) (eph_exec env x)"
proof (cases x)
  case OpPollWakeup
  then show ?thesis by (simp, intro keeps_same) simp
qed (simp_all only: eph_exec.simps single_operations, (intro keeps_intros)+)

text \<open>Property C38: the tables of the SQLite backend stay well formed whatever its callers do, disciplined or not, and
  whatever the operations answer: row identifiers are unique, every row is the image of one record, with
  columns and payload that agree, no key has two live rows, and names have one owner.\<close>

theorem ephemeral_tables_well_formed:
  "table_ok (ee_codec env) (snd (eph_answers env xs (new_database path)))"
proof -
  have "table_ok (ee_codec env) (snd (eph_answers env xs s))" if "table_ok (ee_codec env) s" for s
    using that
  proof (induction xs arbitrary: s)
    case (Cons x xs)
    have "table_ok (ee_codec env) (snd (eph_exec env x s))"
      using exec_keeps_tables [of env x] Cons.prems by (simp add: keeps_tables_def)
    from Cons.IH [OF this] show ?case by (simp add: Let_def case_prod_beta)
  qed simp
  moreover have "table_ok (ee_codec env) (new_database path)" by (simp add: table_ok_def new_database_def)
  ultimately show ?thesis by blast
qed

section \<open>Operations that raise\<close>

definition rolls_back :: "(eph_state, 'a) op \<Rightarrow> bool" where
  "rolls_back m \<longleftrightarrow> (\<forall>s e s'. m s = (Inl e, s') \<longrightarrow> s' = s)"

named_theorems rollback_intros \<open>operations that leave the state as it was when they raise\<close>

lemma rolls_back_basic [rollback_intros]:
  "rolls_back (op_return x)" "rolls_back (op_raise e)" "rolls_back (op_read q)" "rolls_back (eph_run env q)"
  by (simp_all add: rolls_back_def op_return_def op_raise_def op_read_def eph_run_def split: option.split)

lemma rolls_back_transaction [rollback_intros]: "rolls_back (eph_transaction env m)"
  by (auto simp: rolls_back_def eph_transaction_def split: option.splits prod.splits sum.splits)

lemma rolls_back_then [rollback_intros]: "rolls_back m \<Longrightarrow> rolls_back (op_bind m (\<lambda>x s. (Inr (f x), g x s)))"
  by (auto simp: rolls_back_def op_bind_def split: prod.splits sum.splits)

lemma rolls_back_return [rollback_intros]: "rolls_back m \<Longrightarrow> rolls_back (op_bind m (\<lambda>x. op_return (f x)))"
  by (auto simp: rolls_back_def op_bind_def op_return_def split: prod.splits sum.splits)

lemma rolls_back_answer [rollback_intros]: "rolls_back m \<Longrightarrow> rolls_back (op_answer f m)"
  unfolding rolls_back_def op_answer_def answers_def by (auto simp: Let_def split: prod.splits sum.splits)

lemma rolls_back_if [rollback_intros]: "rolls_back a \<Longrightarrow> rolls_back b \<Longrightarrow> rolls_back (if c then a else b)"
  by simp

lemmas rolling_operations = eph_enqueue_def eph_enqueue_many_def eph_update_def then_notified_def eph_expire_overdue_def
  eph_cleanup_terminal_def eph_acquire_maintenance_def eph_release_maintenance_def eph_reserve_identity_def
  eph_reset_identity_def eph_clear_def Let_def

text \<open>Property C39: an operation of the SQLite backend other than the batch claim with queue limits that raises, be it
  at its first statement or after some of its writes, leaves tables and wakeups exactly as they were. The
  stale sweep thus never leaves a half-recovered record. The batch claim with queue limits is several
  transactions: it always raises (\<open>limited_claim_raises\<close>) and keeps what the first ones committed.\<close>

theorem ephemeral_failure_rolls_back:
  assumes "eph_exec env x s = (Inl e, s')" and "\<not> (\<exists>l qs eb caps now. x = OpClaimMany l qs eb (Some caps) now)"
  shows "s' = s"
proof -
  have "rolls_back (eph_exec env x)"
  proof (cases x)
    case (OpClaimMany l qs eb lims now)
    with assms(2) have "lims = None" by (cases lims) auto
    have frames: "(100::nat) = Suc 99" by simp
    have "eph_claim_many_with_expired env (\<lambda>_. now) 100 l qs eb None =
        (if l \<le> 0 then op_return ([], []) else eph_transaction env (claim_batch env l qs eb now))"
      unfolding frames by (simp only: eph_claim_many_with_expired.simps option.case)
    moreover note \<open>lims = None\<close>
    ultimately show ?thesis by (simp add: OpClaimMany rollback_intros)
  next
    case OpPollWakeup
    then show ?thesis by (simp add: rolls_back_def)
  qed (simp_all only: eph_exec.simps single_operations rolling_operations, (intro rollback_intros)+)
  with assms(1) show ?thesis unfolding rolls_back_def by blast
qed

text \<open>The first of two inserts is written, the second cannot be encoded: the whole bulk enqueue is undone.\<close>

definition mail_batch :: "(task_request \<times> uuid \<times> instant) list" where
  "mail_batch = [(mail_request, 7, 10), (mail_request\<lparr>req_key := None\<rparr>, 8, 10)]"

lemma second_insert_not_encodable: "task_columns (ee_codec mail_env) (new_record (mail_request\<lparr>req_key := None\<rparr>) 8 Pending 10) = Inl QueueConfigurationError"
proof -
  have "rid r = 7" if "r \<in> set mail_records" for r
    using that by (auto simp: mail_records_def Let_def start_record_def complete_record_def new_record_def)
  then have "dict_get (record_mapping (mail_records ! n)) ''id'' = Some (PStr (uuid_str 7))" if "n < length mail_records" for n
    using that by (simp add: record_mapping_def)
  moreover have "dict_get (record_mapping (new_record q 8 Pending 10)) ''id'' = Some (PStr (uuid_str 8))" for q
    by (simp add: record_mapping_def new_record_def)
  moreover have "uuid_str 7 \<noteq> uuid_str 8" by (simp add: uuid_str_order(2))
  ultimately have "filter (\<lambda>n. record_mapping (mail_records ! n) = record_mapping (new_record q 8 Pending 10)) [0..<length mail_records] = []" for q
    by (auto simp: filter_empty_conv) (metis option.inject pyval.inject)
  then show ?thesis
    by (simp add: task_columns_def record_to_payload_def encode_payload_def mail_env_def codec_of_def)
qed

lemma first_insert_written:
  "\<exists>row. task_columns (ee_codec mail_env) (new_record mail_request 7 Pending 10) = Inr row"
proof -
  have "storable (ee_codec mail_env) (new_record mail_request 7 Pending 10)"
    by (rule mail_storable) (simp add: mail_records_def Let_def)
  then show ?thesis
    by (auto simp: task_columns_def record_to_payload_def encode_payload_def storable_def codec_keeps_def split: option.splits)
qed

lemma ephemeral_failure_rolls_back_witness:
  "snd (store_new (ee_codec mail_env) (new_record mail_request 7 Pending 10) (new_database ''/q'')) \<noteq> new_database ''/q'' \<and>
   snd (eph_exec mail_env (OpEnqueueMany mail_batch 10 10) (new_database ''/q'')) = new_database ''/q''"
proof -
  let ?x = "OpEnqueueMany mail_batch 10 10" and ?db = "new_database ''/q''"
  obtain row where row: "task_columns (ee_codec mail_env) (new_record mail_request 7 Pending 10) = Inr row"
    using first_insert_written by blast
  have empty: "es_tasks ?db = []" "es_path ?db = Some ''/q''" by (simp_all add: new_database_def)
  have first: "store_new (ee_codec mail_env) (new_record mail_request 7 Pending 10) ?db = (Inr (new_record mail_request 7 Pending 10), ?db\<lparr>es_tasks := [row]\<rparr>)"
    by (simp add: store_new_def op_bind_def op_read_def active_for_request_def active_by_key_def decode_option_def op_return_def
        eph_insert_def row empty key_taken_def split: option.splits)
  have status: "initial_status 10 (mail_request\<lparr>req_key := k\<rparr>) = Pending" for k
    by (simp add: initial_status_def mail_request_def)
  have same: "initial_status 10 mail_request = Pending" by (simp add: initial_status_def mail_request_def)
  have "key (new_record (mail_request\<lparr>req_key := None\<rparr>) 8 Pending 10) = None" by (simp add: new_record_def)
  then have second: "store_new (ee_codec mail_env) (new_record (mail_request\<lparr>req_key := None\<rparr>) 8 Pending 10) s = (Inl QueueConfigurationError, s)" for s
    by (simp add: store_new_def op_bind_def op_read_def active_for_request_def eph_insert_def second_insert_not_encodable)
  have "ee_failure mail_env = None" by (simp add: mail_env_def)
  then have "\<exists>e s'. eph_exec mail_env ?x ?db = (Inl e, s')"
    by (simp add: mail_batch_def eph_enqueue_many_def eph_transaction_def op_answer_def answers_def op_bind_def empty same status first
        second)
  then obtain e s' where m: "eph_exec mail_env ?x ?db = (Inl e, s')" by blast
  have "s' = ?db" by (rule ephemeral_failure_rolls_back [OF m]) simp
  with m first show ?thesis by (simp add: new_database_def)
qed

section \<open>Batch claims with queue limits\<close>

text \<open>
  \<open>claim_many_with_expired\<close> and the generic method it calls call each other: with \<open>queue_limits\<close> no number of
  frames is enough, and every batch claim of a worker with limited queues raises.
\<close>

lemma limited_claim_raises:
  "\<exists>e s'. eph_claim_many env clk d limit queues eb (Some caps) s = (Inl e, s')"
  "\<exists>e s'. eph_claim_many_with_expired env clk d limit queues eb (Some caps) s = (Inl e, s')"
proof (induction d arbitrary: s)
  case 0
  { case 1 show ?case by (simp add: op_raise_def) next case 2 show ?case by (simp add: op_raise_def) }
next
  case (Suc d)
  {
    case 1
    show ?case using Suc(2) [of s] by (auto simp: op_bind_def)
  next
    case 2
    obtain x s1 where x: "eph_expire_overdue env None (clk (2 * d)) s = (x, s1)" by (meson surj_pair)
    show ?case using Suc(1) [of s1] by (cases x) (auto simp: op_bind_def x)
  }
qed

end
