(* ===== verification/Ephemeral_Sweeps.thy ===== *)
theory Ephemeral_Sweeps
  imports Ephemeral_Safety
begin

text \<open>
  The sweeps of the SQLite backend: the batch claim, the expiry sweep and the stale sweep against the in-memory
  ones, and where they differ.
\<close>

section \<open>Stale recovery\<close>

text \<open>The summary without the identifiers of the requeued tasks.\<close>

definition without_requeued :: "stale_recovery_result \<Rightarrow> stale_recovery_result" where
  "without_requeued res = res\<lparr>sr_requeued_task_ids := []\<rparr>"

lemma requeued_commute:
  "res\<lparr>sr_requeued_task_ids := x, sr_requeued := y\<rparr> = res\<lparr>sr_requeued := y, sr_requeued_task_ids := x\<rparr>"
  "res\<lparr>sr_requeued_task_ids := x, sr_failed := y\<rparr> = res\<lparr>sr_failed := y, sr_requeued_task_ids := x\<rparr>"
  "res\<lparr>sr_requeued_task_ids := x, sr_failed_task_ids := z\<rparr> = res\<lparr>sr_failed_task_ids := z, sr_requeued_task_ids := x\<rparr>"
  "res\<lparr>sr_requeued_task_ids := x, sr_handler_needed := y\<rparr> = res\<lparr>sr_handler_needed := y, sr_requeued_task_ids := x\<rparr>"
  "res\<lparr>sr_requeued_task_ids := x, sr_handler_needed_task_ids := z\<rparr> = res\<lparr>sr_handler_needed_task_ids := z, sr_requeued_task_ids := x\<rparr>"
  by simp_all

lemma stale_loop_other:
  "i \<notin> rid ` set rs \<Longrightarrow> (\<And>r. r \<in> set rs \<Longrightarrow> status r = Running) \<Longrightarrow>
   lookup (snd (stale_loop parse policy clock rs res s)) i = lookup s i"
proof (induction rs arbitrary: res s)
  case (Cons r rs)
  have "rid r' = rid r" if "stale_step parse policy (clock (rid r)) r = Requeued r' \<or>
      stale_step parse policy (clock (rid r)) r = Exhausted r'" for r'
    using that evolves_stale [of r parse policy "clock (rid r)" r'] Cons.prems(2) [of r] by (auto simp: evolves_def)
  moreover have "rid r' = rid r" if "stale_step parse policy (clock (rid r)) r = Raised e r'" for e r'
    using that by (auto simp: stale_step_def Let_def split: if_splits sum.splits prod.splits)
  ultimately show ?case
    using Cons by (cases "stale_step parse policy (clock (rid r)) r") (auto simp: Let_def put_record_def dict_simps)
qed simp

lemma agrees_recover_rows:
  assumes "ready env ms" and "distinct (map rid rs)"
    and "\<And>r. r \<in> set rs \<Longrightarrow> lookup ms (rid r) = Some r \<and> status r = Running"
    and "stale_loop parse policy (\<lambda>_. now) rs res ms = (Inr out, ms')" and "state_storable (ee_codec env) ms'"
  shows "agrees env ms (recover_rows (ee_codec env) parse policy now rs (without_requeued res)) (Inr (without_requeued out)) ms'"
  using assms
proof (induction rs arbitrary: ms res)
  case Nil
  then show ?case by (simp add: agree)
next
  case (Cons r rs)
  have r: "lookup ms (rid r) = Some r" "status r = Running" using Cons.prems(3) by simp_all
  have other: "rid q \<noteq> rid r" if "q \<in> set rs" for q using rid_neq [OF Cons.prems(2) that] .
  have step: "agrees env ms (op_bind (eph_write (ee_codec env) r') (\<lambda>_. recover_rows (ee_codec env) parse policy now rs (without_requeued res')))
      (Inr (without_requeued out)) ms'"
    if e: "evolves r r'" and loop: "stale_loop parse policy (\<lambda>_. now) rs res' (put_record r' ms) = (Inr out, ms')" for r' res'
  proof -
    have id: "rid r' = rid r" using e by (simp add: evolves_def)
    have "lookup ms' (rid r) = Some r'"
      using stale_loop_other [of "rid r" rs parse policy "\<lambda>_. now" res' "put_record r' ms"] loop Cons.prems(2,3) id
      by (auto simp: put_record_def dict_simps)
    then have st: "storable (ee_codec env) r'" by (rule state_storableD [OF Cons.prems(5) lookup_values])
    have lr: "lookup ms (rid r') = Some r" by (simp add: id r)
    show ?thesis
    proof (rule agrees_bind [OF agrees_write [OF Cons.prems(1) lr e st]], rule Cons.IH [OF ready_put [OF Cons.prems(1) lr e st] _ _ loop Cons.prems(5)])
      show "lookup (put_record r' ms) (rid q) = Some q \<and> status q = Running" if "q \<in> set rs" for q
        using Cons.prems(3) [of q] that other [OF that] by (simp add: put_record_def dict_simps id)
    qed (use Cons.prems(2) in simp)
  qed
  show ?case
  proof (cases "stale_step parse policy now r")
    case (Requeued r')
    then show ?thesis
      using step [OF evolves_stale(1) [OF r(2) Requeued], of "res\<lparr>sr_requeued := sr_requeued res + 1,
          sr_requeued_task_ids := sr_requeued_task_ids res @ [rid r]\<rparr>"] Cons.prems(4)
      by (simp add: without_requeued_def requeued_commute)
  next
    case (Exhausted r')
    let ?res = "res\<lparr>sr_failed := sr_failed res + 1, sr_failed_task_ids := sr_failed_task_ids res @ [rid r]\<rparr>"
    let ?res' = "if requeue_on_stale r then ?res else ?res\<lparr>sr_handler_needed := sr_handler_needed ?res + 1,
        sr_handler_needed_task_ids := sr_handler_needed_task_ids ?res @ [rid r]\<rparr>"
    show ?thesis
      using step [OF evolves_stale(2) [OF r(2) Exhausted], of ?res'] Cons.prems(4)
      by (simp add: Exhausted Let_def without_requeued_def requeued_commute split: if_splits)
  qed (use Cons.prems(4) in simp)
qed

lemma sort_key_planned:
  assumes "mset xs = mset ys" "inj_on k (set xs)"
  shows "sort_key k xs = sort_key k ys"
  using assms by (intro sort_key_inj_key_eq) simp_all

lemma stale_keys_differ:
  assumes "ready env ms" "set xs \<subseteq> set (mem_values ms)"
  shows "inj_on stale_sort_key (set xs)"
proof (rule inj_onI)
  fix a b assume ab: "a \<in> set xs" "b \<in> set xs" "stale_sort_key a = stale_sort_key b"
  then have m: "a \<in> set (mem_values ms)" "b \<in> set (mem_values ms)" using assms(2) by blast+
  have "uuid_str (rid a) = uuid_str (rid b)" using ab(3) by (simp add: stale_sort_key_def)
  with uuid_str_order(2) [OF storable_times(7) storable_times(7)] readyD(4) [OF assms(1)] m have "rid a = rid b" by blast
  then show "a = b" using mem_wf_values [OF readyD(1) [OF assms(1)]] m by (metis option.inject)
qed

lemma stale_sweep_agrees:
  assumes r: "ready env ms" and plan: "plan_ok env"
    and mem: "requeue_stale_running parse policy after l now (\<lambda>_. now) ms = (Inr out, ms')"
    and st: "state_storable (ee_codec env) ms'"
  shows "agrees env ms (eph_requeue_stale_running env parse policy after l now) (Inr (without_requeued out)) ms'"
  unfolding eph_requeue_stale_running_def
proof (rule agrees_transaction [OF r], unfold agrees_def, intro allI impI)
  fix es assume m: "mirrors (ee_codec env) ms es"
  let ?old = "\<lambda>q. case heartbeat_at q of None \<Rightarrow> True | Some t \<Rightarrow> t < now - after"
  obtain xs where xs: "decode_all (ee_codec env) (ee_plan env (filter (\<lambda>q. row_status q = ''running'') (es_tasks es))) = Inr xs"
      "mset xs = mset (filter (\<lambda>q. status q = Running) (mem_values ms))"
    using agrees_select [OF r plan _ m, of "\<lambda>q. row_status q = ''running''" "\<lambda>q. status q = Running"]
    by (auto simp: row_tests(3) [OF readyD(4) [OF r]])
  have "mset (filter ?old xs) = filter_mset ?old (mset (filter (\<lambda>q. status q = Running) (mem_values ms)))"
    by (simp only: mset_filter xs(2))
  then have old: "mset (filter ?old xs) = mset (filter (is_stale (now - after)) (mem_values ms))"
    by (simp add: filter_filter_mset is_stale_def conj_commute)
  define cs where "cs = take_limit l (sort_key stale_sort_key (filter (is_stale (now - after)) (mem_values ms)))"
  have "set (filter ?old xs) \<subseteq> set (mem_values ms)" using mset_eq_setD [OF old] by auto
  from sort_key_planned [OF old stale_keys_differ [OF r this]]
  have sel: "take_limit l (sort_key stale_sort_key (filter ?old xs)) = cs" by (simp add: cs_def)
  have "agrees env ms (recover_rows (ee_codec env) parse policy now cs (without_requeued empty_stale_recovery_result)) (Inr (without_requeued out)) ms'"
  proof (rule agrees_recover_rows [OF r _ _ _ st])
    show "distinct (map rid cs)"
      unfolding cs_def using mem_wf_distinct_rids(2) [OF readyD(1) [OF r]]
      by (intro distinct_map_take_limit) (simp add: distinct_map_sort_key distinct_map_filter)
    show "lookup ms (rid q) = Some q \<and> status q = Running" if "q \<in> set cs" for q
    proof -
      have "q \<in> set (mem_values ms)" "is_stale (now - after) q" using set_take_limit [OF that [unfolded cs_def]] by auto
      then show ?thesis using mem_wf_values [OF readyD(1) [OF r]] by (simp add: is_stale_def)
    qed
    show "stale_loop parse policy (\<lambda>_. now) cs empty_stale_recovery_result ms = (Inr out, ms')"
      using mem by (simp add: requeue_stale_running_def cs_def)
  qed
  moreover have "without_requeued empty_stale_recovery_result = empty_stale_recovery_result"
    by (simp add: without_requeued_def empty_stale_recovery_result_def)
  ultimately obtain es' where "recover_rows (ee_codec env) parse policy now cs empty_stale_recovery_result es = (Inr (without_requeued out), es')"
      "mirrors (ee_codec env) ms' es'"
    using m unfolding agrees_def by auto
  then show "\<exists>es'. op_bind (op_read (\<lambda>s. decode_all (ee_codec env) (ee_plan env (filter (\<lambda>q. row_status q = ''running'') (es_tasks s)))))
      (\<lambda>rs. recover_rows (ee_codec env) parse policy now (take_limit l (sort_key stale_sort_key (filter ?old rs))) empty_stale_recovery_result) es =
      (Inr (without_requeued out), es') \<and> mirrors (ee_codec env) ms' es'"
    by (simp add: op_bind_def op_read_def xs(1) sel)
qed

section \<open>Expiry\<close>

lemma expire_loop_all:
  "expire_loop now None n recs = (map (\<lambda>(k, q). (k, if overdue now q then expire_record now q else q)) recs,
     map (expire_record now) (filter (overdue now) (map snd recs)))"
  by (induction recs arbitrary: n) (auto simp: Let_def)

lemma expiry_sweep_agrees:
  assumes r: "ready env ms" and now: "datetime_range now"
    and st: "state_storable (ee_codec env) (snd (expire_overdue None now ms))"
  shows "\<exists>rs. mset rs = mset (fst (expire_overdue None now ms)) \<and>
    agrees env ms (eph_expire_overdue env None now) (Inr rs) (snd (expire_overdue None now ms))"
proof -
  note stq = readyD(4) [OF r]
  define key where "key q = (map_option iso_text (expires_at q), iso_text (created_at q), uuid_str (rid q))" for q :: task_record
  define xs where "xs = filter (\<lambda>q. execution_ref q = None) (sort_key key (filter (\<lambda>q. is_waiting q \<and> is_expired now q) (mem_values ms)))"
  have xs: "mset xs = mset (filter (overdue now) (mem_values ms))"
    unfolding xs_def overdue_def by (simp add: filter_filter_mset conj_ac)
  have mem: "expire_overdue None now ms = (map (expire_record now) (filter (overdue now) (mem_values ms)),
      ms\<lparr>mem_records := map (\<lambda>(k, q). (k, if overdue now q then expire_record now q else q)) (mem_records ms)\<rparr>)"
    by (simp add: expire_overdue_def expire_loop_all)
  have write_back: "agrees env ms (write_all (ee_codec env) (map (expire_record now) xs)) (Inr ()) (snd (expire_overdue None now ms))"
    unfolding mem snd_conv using st [unfolded mem snd_conv]
    by (intro sweep_state [OF r xs]) (auto simp: overdue_def intro: evolve_intros)
  have "agrees env ms (op_read (\<lambda>s. decode_all (ee_codec env) (sql_limit_option None (sort_key (\<lambda>q. (row_expires_at q, row_created_at q, row_id q))
      (filter (\<lambda>q. waiting_row q \<and> expired_row (iso_text now) q) (es_tasks s))))))
      (Inr (sort_key key (filter (\<lambda>q. is_waiting q \<and> is_expired now q) (mem_values ms)))) ms"
  proof (rule agrees_read)
    fix es assume m: "mirrors (ee_codec env) ms es"
    have f: "filter (\<lambda>q. waiting_row q \<and> expired_row (iso_text now) q) (es_tasks es)
        = map (row_of (ee_codec env)) (filter (\<lambda>q. is_waiting q \<and> is_expired now q) (mem_values ms))"
      unfolding mirrorsD(2) [OF m] by (rule filter_map_cong) (simp only: row_tests(1) [OF stq] row_clock(3) [OF stq now])
    have s: "sort_key (\<lambda>q. (row_expires_at q, row_created_at q, row_id q)) (map (row_of (ee_codec env)) ys) = map (row_of (ee_codec env)) (sort_key key ys)"
      if "set ys \<subseteq> set (mem_values ms)" for ys
      by (rule sort_rows) (use that in \<open>auto simp: key_def row_columns stq subset_iff\<close>)
    have "storable (ee_codec env) q" if "q \<in> set (sort_key key (filter (\<lambda>q. is_waiting q \<and> is_expired now q) (mem_values ms)))" for q
      using stq that by auto
    then have "decode_all (ee_codec env) (map (row_of (ee_codec env)) (sort_key key (filter (\<lambda>q. is_waiting q \<and> is_expired now q) (mem_values ms)))) =
        Inr (sort_key key (filter (\<lambda>q. is_waiting q \<and> is_expired now q) (mem_values ms)))" by (rule decode_rows)
    then show "decode_all (ee_codec env) (sql_limit_option None (sort_key (\<lambda>q. (row_expires_at q, row_created_at q, row_id q))
        (filter (\<lambda>q. waiting_row q \<and> expired_row (iso_text now) q) (es_tasks es)))) =
        Inr (sort_key key (filter (\<lambda>q. is_waiting q \<and> is_expired now q) (mem_values ms)))"
      unfolding f by (simp add: sql_limit_option_def s)
  qed
  then have "agrees env ms (eph_expire_overdue env None now) (Inr (map (expire_record now) xs)) (snd (expire_overdue None now ms))"
    unfolding eph_expire_overdue_def Let_def
    by (intro agrees_transaction [OF r]) (erule agrees_bind, unfold xs_def [symmetric], rule agrees_bind [OF write_back agrees_return])
  moreover have "mset (map (expire_record now) xs) = mset (fst (expire_overdue None now ms))" unfolding mem fst_conv by (simp only: mset_map xs)
  ultimately show ?thesis by blast
qed

section \<open>Batch claims\<close>

text \<open>The two groups of records the scan of the in-memory batch claim finds.\<close>

definition batch_expired :: "instant \<Rightarrow> string list \<Rightarrow> string option \<Rightarrow> task_record \<Rightarrow> bool" where
  "batch_expired now queues eb q \<longleftrightarrow>
     is_waiting q \<and> is_expired now q \<and> unreserved q \<and> in_queues queues (queue q) \<and> fence eb (execution_backend q)"

definition batch_eligible :: "instant \<Rightarrow> string list \<Rightarrow> string option \<Rightarrow> task_record \<Rightarrow> bool" where
  "batch_eligible now queues eb q \<longleftrightarrow>
     is_waiting q \<and> is_due now q \<and> \<not> is_expired now q \<and> unreserved q \<and> in_queues queues (queue q) \<and> fence eb (execution_backend q)"

lemma claim_scan_eq:
  "claim_scan now queues eb recs =
     (map (\<lambda>(k, q). (k, if batch_expired now queues eb q then expire_record now q else q)) recs,
      filter (batch_eligible now queues eb) (map snd recs),
      map (expire_record now) (filter (batch_expired now queues eb) (map snd recs)))"
  by (induction recs)
    (auto simp: Let_def batch_expired_def batch_eligible_def unreserved_def in_queues_def case_prod_beta)

lemma claim_take_eq:
  "claim_take now n [] rs recs =
     (map (start_record now) (take (nat n) rs), fold (\<lambda>q. dict_set (rid q) (start_record now q)) (take (nat n) rs) recs)"
proof (induction rs arbitrary: n recs)
  case (Cons q rs)
  have "nat n = Suc (nat (n - 1))" if "0 < n" using that by simp
  then show ?case by (simp add: Cons.IH queue_blocked_def consume_slot_def)
qed simp

lemma fold_start_put:
  "s\<lparr>mem_records := fold (\<lambda>q. dict_set (rid q) (start_record now q)) rs (mem_records s)\<rparr> = fold put_record (map (start_record now) rs) s"
proof (induction rs arbitrary: s)
  case (Cons q rs)
  have "rid (start_record now q) = rid q" by (simp add: start_record_def)
  with Cons [of "put_record (start_record now q) s"] show ?case by (simp add: put_record_def)
qed simp

lemma batch_claim_eq:
  "claim_many_with_expired limit queues eb None now s =
     (if limit \<le> 0 then (([], []), s)
      else let s1 = s\<lparr>mem_records := map (\<lambda>(k, q). (k, if batch_expired now queues eb q then expire_record now q else q)) (mem_records s)\<rparr>;
               best = take (nat limit) (sort_key claim_key (filter (batch_eligible now queues eb) (mem_values s)))
           in ((map (start_record now) best, map (expire_record now) (filter (batch_expired now queues eb) (mem_values s))),
               fold put_record (map (start_record now) best) s1))"
  by (simp add: claim_many_with_expired_def claim_scan_eq claim_take_eq Let_def fold_start_put [symmetric])

lemma claim_row_order:
  assumes "storable jc a" "storable jc b"
  shows "claim_row_key (row_of jc a) \<le> claim_row_key (row_of jc b) \<longleftrightarrow> claim_key a \<le> claim_key b"
  using storable_times(3,4,7) [OF assms(1)] storable_times(3,4,7) [OF assms(2)] uuid_str_order [of "rid a" "rid b"]
  by (auto simp: claim_row_key_def claim_key_def row_columns assms less_eq_prod_def iso_le iso_text_compare le_less)

lemma pending_rows_mirrored:
  assumes r: "ready env ms" and now: "datetime_range now" and m: "mirrors (ee_codec env) ms es"
  shows "pending_rows (iso_text now) in_queue eb limit es = map (row_of (ee_codec env)) (sql_limit limit (sort_key claim_key
    (filter (\<lambda>q. is_waiting q \<and> is_due now q \<and> \<not> is_expired now q \<and> in_queue (queue q) \<and> fence eb (execution_backend q)) (mem_values ms))))"
proof -
  note st = readyD(4) [OF r]
  have f: "filter (\<lambda>q. waiting_row q \<and> due_row (iso_text now) q \<and> unexpired_row (iso_text now) q \<and> in_queue (row_queue q) \<and>
      fence eb (row_execution_backend q)) (es_tasks es) = map (row_of (ee_codec env))
      (filter (\<lambda>q. is_waiting q \<and> is_due now q \<and> \<not> is_expired now q \<and> in_queue (queue q) \<and> fence eb (execution_backend q)) (mem_values ms))"
    unfolding mirrorsD(2) [OF m]
    by (rule filter_map_cong) (simp only: row_tests(1) [OF st] row_clock(1,2) [OF st now] row_columns(3,4) [OF st])
  have s: "sort_key claim_row_key (map (row_of (ee_codec env)) ys) = map (row_of (ee_codec env)) (sort_key claim_key ys)"
    if "set ys \<subseteq> set (mem_values ms)" for ys
    by (rule sort_rows) (use that st claim_row_order in blast)
  show ?thesis unfolding pending_rows_def f by (subst s) (auto simp: sql_limit_def take_map)
qed

lemma planned_select:
  assumes r: "ready env ms" and plan: "plan_ok env"
    and hit: "\<And>q. q \<in> set (mem_values ms) \<Longrightarrow> hit (row_of (ee_codec env) q) \<longleftrightarrow> sel q"
  shows "\<exists>xs. mset xs = mset (filter sel (mem_values ms)) \<and>
    agrees env ms (op_read (\<lambda>s. decode_all (ee_codec env) (ee_plan env (filter hit (es_tasks s))))) (Inr xs) ms"
proof -
  obtain xs where xs: "ee_plan env (map (row_of (ee_codec env)) (filter sel (mem_values ms))) = map (row_of (ee_codec env)) xs"
      "mset xs = mset (filter sel (mem_values ms))"
    using planned_rows [OF plan] by blast
  have "agrees env ms (op_read (\<lambda>s. decode_all (ee_codec env) (ee_plan env (filter hit (es_tasks s))))) (Inr xs) ms"
  proof (rule agrees_read)
    fix es assume m: "mirrors (ee_codec env) ms es"
    have "filter hit (es_tasks es) = map (row_of (ee_codec env)) (filter sel (mem_values ms))"
      unfolding mirrorsD(2) [OF m] by (rule filter_map_cong) (rule hit)
    moreover have "storable (ee_codec env) q" if "q \<in> set xs" for q
      using readyD(4) [OF r, of q] that mset_eq_setD [OF xs(2)] by simp
    ultimately show "decode_all (ee_codec env) (ee_plan env (filter hit (es_tasks es))) = Inr xs"
      using xs(1) decode_rows [of xs] by simp
  qed
  with xs(2) show ?thesis by blast
qed

lemma fold_put_outside: "i \<notin> rid ` set rs \<Longrightarrow> lookup (fold put_record rs s) i = lookup s i"
  by (induction rs arbitrary: s) (simp_all add: put_record_def dict_simps)

lemma lookup_mapped: "dict_get (map (\<lambda>(k, q). (k, g q)) recs) i = map_option g (dict_get recs i)"
  by (induction recs) auto

lemma batch_claim_agrees:
  assumes r: "ready env ms" and plan: "plan_ok env" and now: "datetime_range now" "clk (2 * d) = now"
    and free: "\<And>q. q \<in> set (mem_values ms) \<Longrightarrow> is_waiting q \<Longrightarrow> unreserved q"
    and st: "state_storable (ee_codec env) (snd (claim_many_with_expired limit queues eb None now ms))"
  shows "\<exists>expired. mset expired = mset (snd (fst (claim_many_with_expired limit queues eb None now ms))) \<and>
    agrees env ms (eph_claim_many_with_expired env clk (Suc d) limit queues eb None)
      (Inr (fst (fst (claim_many_with_expired limit queues eb None now ms)), expired)) (snd (claim_many_with_expired limit queues eb None now ms))"
proof (cases "limit \<le> 0")
  case True
  then show ?thesis by (simp add: batch_claim_eq agree)
next
  case False
  let ?exp = "batch_expired now queues eb" and ?elig = "batch_eligible now queues eb"
  define g where "g q = (if ?exp q then expire_record now q else q)" for q
  define s1 where "s1 = ms\<lparr>mem_records := map (\<lambda>(k, q). (k, g q)) (mem_records ms)\<rparr>"
  define best where "best = take (nat limit) (sort_key claim_key (filter ?elig (mem_values ms)))"
  have mem: "claim_many_with_expired limit queues eb None now ms =
      ((map (start_record now) best, map (expire_record now) (filter ?exp (mem_values ms))), fold put_record (map (start_record now) best) s1)"
    using False by (simp add: batch_claim_eq Let_def best_def s1_def g_def)
  note wf = readyD(1) [OF r]
  have best: "q \<in> set (mem_values ms) \<and> ?elig q" if "q \<in> set best" for q
    using that unfolding best_def by (auto dest!: in_set_takeD)
  have dist: "distinct (map rid best)" unfolding best_def using mem_wf_distinct_rids(2) [OF wf]
    by (intro distinct_map_take) (simp add: distinct_map_sort_key distinct_map_filter)
  have ev: "evolves q (g q)" for q unfolding g_def by (auto simp: batch_expired_def intro: evolve_intros)
  have s1_lookup: "lookup s1 i = map_option g (lookup ms i)" for i by (simp add: s1_def lookup_mapped)
  have best_s1: "lookup s1 (rid q) = Some q" if "q \<in> set best" for q
    using best [OF that] mem_wf_values [OF wf, of q] by (simp add: s1_lookup g_def batch_expired_def batch_eligible_def)
  have wf1: "mem_wf s1"
    by (rule mem_wf_evolves [OF wf]) (auto simp: state_evolves_def s1_def intro: recs_evolve_map ev)
  have st1: "state_storable (ee_codec env) s1"
  proof (rule storable_between [OF readyD(2) [OF r] wf1])
    fix i q assume q: "lookup s1 i = Some q"
    then obtain p where p: "lookup ms i = Some p" "q = g p" by (auto simp: s1_lookup)
    show "lookup ms i = Some q \<or> storable (ee_codec env) q"
    proof (cases "?exp p")
      case True
      have "i \<notin> rid ` set (map (start_record now) best)"
      proof
        assume "i \<in> rid ` set (map (start_record now) best)"
        then obtain b where b: "b \<in> set best" "i = rid b" by (auto simp: start_record_def)
        with best [OF b(1)] mem_wf_values [OF wf, of b] p(1) have "p = b" by simp
        with True best [OF b(1)] show False by (simp add: batch_expired_def batch_eligible_def)
      qed
      from fold_put_outside [OF this, of s1] q have "lookup (snd (claim_many_with_expired limit queues eb None now ms)) i = Some q"
        by (simp add: mem)
      then show ?thesis using state_storableD [OF st lookup_values] by blast
    qed (use p in \<open>simp add: g_def\<close>)
  qed (simp_all add: s1_def)
  have r1: "ready env s1" using r wf1 st1 by (simp add: ready_def)
  obtain xs where xs: "mset xs = mset (filter (\<lambda>q. is_waiting q \<and> is_expired now q) (mem_values ms))"
    and read: "agrees env ms (op_read (\<lambda>s. decode_all (ee_codec env)
       (ee_plan env (filter (\<lambda>q. waiting_row q \<and> expired_row (iso_text now) q) (es_tasks s))))) (Inr xs) ms"
    using planned_select [OF r plan, of "\<lambda>q. waiting_row q \<and> expired_row (iso_text now) q" "\<lambda>q. is_waiting q \<and> is_expired now q"]
    by (auto simp: row_tests(1) [OF readyD(4) [OF r]] row_clock(3) [OF readyD(4) [OF r] now(1)])
  define ys where "ys = filter (\<lambda>q. unreserved q \<and> in_queues queues (queue q) \<and> fence eb (execution_backend q)) xs"
  have "mset ys = filter_mset (\<lambda>q. unreserved q \<and> in_queues queues (queue q) \<and> fence eb (execution_backend q))
      (mset (filter (\<lambda>q. is_waiting q \<and> is_expired now q) (mem_values ms)))"
    unfolding ys_def by (simp only: mset_filter xs)
  then have ys: "mset ys = mset (filter ?exp (mem_values ms))"
    by (simp add: filter_filter_mset batch_expired_def conj_ac)
  have expire: "agrees env ms (write_all (ee_codec env) (map (expire_record now) ys)) (Inr ()) s1"
    using sweep_state [OF r ys, of "expire_record now"] st1
    by (auto simp: s1_def g_def [abs_def] batch_expired_def intro: evolve_intros)
  have elig: "filter (\<lambda>q. is_waiting q \<and> is_due now q \<and> \<not> is_expired now q \<and> in_queues queues (queue q) \<and> fence eb (execution_backend q))
      (mem_values s1) = filter ?elig (mem_values ms)"
  proof -
    have part: "filter (\<lambda>q. is_waiting q \<and> is_due now q \<and> \<not> is_expired now q \<and> in_queues queues (queue q) \<and> fence eb (execution_backend q)) (map g vs)
        = filter ?elig vs" if "set vs \<subseteq> set (mem_values ms)" for vs
      using that
    proof (induction vs)
      case (Cons v vs)
      have "unreserved v" if "is_waiting v" using free [OF _ that] Cons.prems by simp
      moreover have "\<not> is_waiting (expire_record now v)" by (simp add: expire_record_def is_waiting_def)
      ultimately show ?case using Cons by (auto simp: g_def batch_expired_def batch_eligible_def)
    qed simp
    have vals: "mem_values s1 = map g (mem_values ms)" by (simp add: s1_def case_prod_beta)
    show ?thesis unfolding vals by (rule part) (rule subset_refl)
  qed
  have rs: "set best \<subseteq> set (mem_values s1)" using best_s1 lookup_values by blast
  have unres: "filter unreserved best = best"
    using best by (auto simp: batch_eligible_def intro: filter_True)
  have read1: "agrees env s1 (op_read (\<lambda>s. decode_all (ee_codec env) (pending_rows (iso_text now) (in_queues queues) eb limit s))) (Inr best) s1"
  proof (rule agrees_read)
    fix es assume m: "mirrors (ee_codec env) s1 es"
    have "pending_rows (iso_text now) (in_queues queues) eb limit es = map (row_of (ee_codec env)) best"
      using False unfolding pending_rows_mirrored [OF r1 now(1) m] elig by (simp add: best_def sql_limit_def)
    then show "decode_all (ee_codec env) (pending_rows (iso_text now) (in_queues queues) eb limit es) = Inr best"
      using decode_rows [of best] readyD(4) [OF r1] rs by (simp add: subset_iff)
  qed
  have start: "agrees env s1 (write_all (ee_codec env) (map (start_record now) best)) (Inr ()) (fold put_record (map (start_record now) best) s1)"
  proof (rule agrees_write_all [OF r1 best_s1 dist], assumption)
    fix q assume q: "q \<in> set best"
    have "is_waiting q" using best [OF q] by (simp add: batch_eligible_def)
    then have e: "evolves q (start_record now q)" by (rule evolve_intros)
    moreover have "start_record now q \<in> set (mem_values (fold put_record (map (start_record now) best) s1))"
    proof -
      have "fold put_record (map (start_record now) best) s1 =
          s1\<lparr>mem_records := map (\<lambda>(k, q). (k, if q \<in> set best then start_record now q else q)) (mem_records s1)\<rparr>"
        by (rule fold_put_image [OF wf1 rs dist]) (simp add: start_record_def)
      moreover obtain k where "(k, q) \<in> set (mem_records s1)" using rs q by auto
      ultimately show ?thesis using q by force
    qed
    ultimately show "evolves q (start_record now q) \<and> storable (ee_codec env) (start_record now q)"
      using state_storableD [OF st] by (simp add: mem)
  qed
  have "agrees env ms (eph_claim_many_with_expired env clk (Suc d) limit queues eb None)
      (Inr (map (start_record now) best, map (expire_record now) ys)) (fold put_record (map (start_record now) best) s1)"
    using False unfolding eph_claim_many_with_expired.simps option.case claim_batch_def Let_def now(2)
    by (simp only: if_False, intro agrees_transaction [OF r])
      (rule agrees_bind [OF read], unfold ys_def [symmetric], rule agrees_bind [OF expire], rule agrees_bind [OF read1],
        unfold unres, rule agrees_bind [OF start agrees_return])
  moreover have "mset (map (expire_record now) ys) = mset (map (expire_record now) (filter ?exp (mem_values ms)))"
    by (simp only: mset_map ys)
  ultimately show ?thesis unfolding mem fst_conv snd_conv by blast
qed

end
