(* ===== verification/Worker_Runtime.thy ===== *)
theory Worker_Runtime
  imports Lifecycle
begin

text \<open>
  \<open>worker/runtime.py\<close>: one worker process from its start to its exit status. The event loop is a script, the list of
  what the loop shows at its successive moments: which tasks are done and how, which events are set, and whether a
  cancellation of the runner is delivered. An \<open>await\<close> consumes moments until what it waits for is there; a run whose
  script ends first is \<open>Suspended\<close>. The calls the runner makes are recorded in order. What loading tasks, opening,
  initialising, constructing, publishing and closing do is a parameter. A cancellation of the runner is raised at the
  moment it is delivered; a real \<open>gather\<close> also cancels what it waits for and lets it end first.
\<close>

section \<open>Shutdown watchdog\<close>

definition exit_code_for_signal :: "int option \<Rightarrow> int" where
  "exit_code_for_signal signum = 128 + (case signum of None \<Rightarrow> 15 | Some n \<Rightarrow> n)"

text \<open>\<open>sw_exits\<close> holds the codes the exit function was called with; the thread's one wait is a step of its own.\<close>

record shutdown_watchdog =
  sw_timeout :: "rat option"
  sw_finished :: bool
  sw_waiting :: bool
  sw_started :: bool
  sw_signum :: "int option"
  sw_exits :: "int list"

definition new_watchdog :: "rat option \<Rightarrow> shutdown_watchdog" where
  "new_watchdog timeout =
     \<lparr>sw_timeout = timeout, sw_finished = False, sw_waiting = False, sw_started = False, sw_signum = None, sw_exits = []\<rparr>"

definition is_armed :: "shutdown_watchdog \<Rightarrow> bool" where
  "is_armed w \<longleftrightarrow> sw_started w \<and> \<not> sw_finished w"

definition arm_watchdog :: "int \<Rightarrow> shutdown_watchdog \<Rightarrow> shutdown_watchdog" where
  "arm_watchdog signum w =
     (if sw_timeout w = None \<or> sw_started w then w
      else w\<lparr>sw_signum := Some signum, sw_started := True, sw_waiting := True\<rparr>)"

definition disarm_watchdog :: "shutdown_watchdog \<Rightarrow> shutdown_watchdog" where
  "disarm_watchdog w = w\<lparr>sw_finished := True\<rparr>"

definition exit_now :: "int \<Rightarrow> shutdown_watchdog \<Rightarrow> shutdown_watchdog" where
  "exit_now signum w = w\<lparr>sw_finished := True, sw_exits := sw_exits w @ [exit_code_for_signal (Some signum)]\<rparr>"

text \<open>The wait of the thread ends, because the deadline passed or because the watchdog was disarmed.\<close>

definition wait_and_exit :: "shutdown_watchdog \<Rightarrow> shutdown_watchdog" where
  "wait_and_exit w =
     (if sw_timeout w = None \<or> sw_finished w then w\<lparr>sw_waiting := False\<rparr>
      else w\<lparr>sw_waiting := False, sw_exits := sw_exits w @ [exit_code_for_signal (sw_signum w)]\<rparr>)"

section \<open>Results, stages and errors\<close>

datatype worker_run_result = RunClean | RunCrashed | RunEscalated

fun run_result_value :: "worker_run_result \<Rightarrow> int" where
  "run_result_value RunClean = 0"
| "run_result_value RunCrashed = 1"
| "run_result_value RunEscalated = 2"

datatype worker_stage = LoadTasks | OpenService | InitializeSchedules | StartWorker

fun stage_value :: "worker_stage \<Rightarrow> string" where
  "stage_value LoadTasks = ''load_tasks''"
| "stage_value OpenService = ''open_service''"
| "stage_value InitializeSchedules = ''initialize_schedules''"
| "stage_value StartWorker = ''start_worker''"

text \<open>\<open>StageError\<close> is \<open>_WorkerStageError\<close> with its cause, an ordinary exception.\<close>

datatype runner_error = Plain base_exception | StageError worker_stage py_error

abbreviation cancelled_error :: base_exception where
  "cancelled_error \<equiv> ControlFlow ''CancelledError''"

fun is_exception :: "runner_error \<Rightarrow> bool" where
  "is_exception (Plain e) = (\<not> is_control e)"
| "is_exception (StageError stage e) = True"

section \<open>The event loop\<close>

datatype stop_call = GracefulStop | ForceStop | FinalStop

datatype task_end = Returned | Failed base_exception

record moment =
  mo_worker :: "task_end option"
  mo_ready :: "task_end option"
  mo_graceful :: bool
  mo_force :: bool
  mo_stop :: "stop_call \<Rightarrow> (base_exception + bool) option"
  mo_cancel :: bool

text \<open>What the runner calls, besides \<open>await\<close>ing.\<close>

datatype runner_call =
    CallLoadTasks | CallOpen | CallSetDefault | CallInitialize | CallCreate | CallSpawn | CallReady
  | CallStop stop_call | CallCancelStop | CallCancelWorker | CallRestoreDefault | CallClose

record run_state =
  rs_script :: "moment list"
  rs_now :: moment
  rs_calls :: "runner_call list"

datatype 'a outcome = Ended 'a | Threw runner_error | Suspended

type_synonym 'a run = "run_state \<Rightarrow> 'a outcome \<times> run_state"

definition ret :: "'a \<Rightarrow> 'a run" where
  "ret x s = (Ended x, s)"

definition throw :: "runner_error \<Rightarrow> 'a run" where
  "throw e s = (Threw e, s)"

definition bind_run :: "'a run \<Rightarrow> ('a \<Rightarrow> 'b run) \<Rightarrow> 'b run" where
  "bind_run m f s = (case m s of (Ended x, s') \<Rightarrow> f x s' | (Threw e, s') \<Rightarrow> (Threw e, s') | (Suspended, s') \<Rightarrow> (Suspended, s'))"

text \<open>\<open>try: m finally: f\<close>; an exception of \<open>f\<close> replaces the outcome of \<open>m\<close>.\<close>

definition finally_run :: "'a run \<Rightarrow> unit run \<Rightarrow> 'a run" where
  "finally_run m f s =
     (case m s of
        (Suspended, s') \<Rightarrow> (Suspended, s')
      | (x, s') \<Rightarrow> (case f s' of (Ended _, t) \<Rightarrow> (x, t) | (Threw e, t) \<Rightarrow> (Threw e, t) | (Suspended, t) \<Rightarrow> (Suspended, t)))"

text \<open>\<open>with contextlib.suppress(Exception): m\<close>\<close>

definition suppress_run :: "unit run \<Rightarrow> unit run" where
  "suppress_run m s = (case m s of (Threw e, s') \<Rightarrow> if is_exception e then (Ended (), s') else (Threw e, s') | x \<Rightarrow> x)"

definition call_run :: "runner_call \<Rightarrow> unit run" where
  "call_run c s = (Ended (), s\<lparr>rs_calls := rs_calls s @ [c]\<rparr>)"

definition now_run :: "moment run" where
  "now_run s = (Ended (rs_now s), s)"

definition lift_end :: "(base_exception + 'a) \<Rightarrow> 'a run" where
  "lift_end x = (case x of Inl e \<Rightarrow> throw (Plain e) | Inr y \<Rightarrow> ret y)"

text \<open>The moments an \<open>await\<close> consumes; \<open>None\<close> for the outcome when the script ends first.\<close>

fun await_script :: "(moment \<Rightarrow> bool) \<Rightarrow> moment \<Rightarrow> moment list \<Rightarrow> unit outcome \<times> moment \<times> moment list" where
  "await_script p now [] = (Suspended, now, [])"
| "await_script p now (m # ms) =
     (if mo_cancel m then (Threw (Plain cancelled_error), m, ms)
      else if p m then (Ended (), m, ms)
      else await_script p m ms)"

definition await_run :: "(moment \<Rightarrow> bool) \<Rightarrow> unit run" where
  "await_run p s = (case await_script p (rs_now s) (rs_script s) of (x, now, script) \<Rightarrow> (x, s\<lparr>rs_now := now, rs_script := script\<rparr>))"

section \<open>Tasks of the runner\<close>

definition worker_done :: "moment \<Rightarrow> bool" where
  "worker_done m \<longleftrightarrow> mo_worker m \<noteq> None"

text \<open>\<open>_task_exception\<close> of a task that is done, and \<open>_task_crashed\<close>.\<close>

definition task_exception :: "task_end \<Rightarrow> py_error option run" where
  "task_exception t =
     (case t of
        Returned \<Rightarrow> ret None
      | Failed (Ordinary e) \<Rightarrow> ret (Some e)
      | Failed (ControlFlow s) \<Rightarrow> throw (Plain (ControlFlow s)))"

definition task_crashed :: "task_end option \<Rightarrow> bool run" where
  "task_crashed t = (case t of None \<Rightarrow> throw (Plain (Ordinary (ApiError ''InvalidStateError'' None))) | Some x \<Rightarrow> bind_run (task_exception x) (\<lambda>e. ret (e \<noteq> None)))"

definition raise_stage_error :: "worker_stage \<Rightarrow> py_error \<Rightarrow> 'a run" where
  "raise_stage_error stage e = throw (StageError stage e)"

text \<open>Run \<open>m\<close>, and turn an ordinary exception into the failure of a stage.\<close>

definition staged :: "worker_stage \<Rightarrow> base_exception option \<Rightarrow> unit run" where
  "staged stage x =
     (case x of
        None \<Rightarrow> ret ()
      | Some (Ordinary e) \<Rightarrow> raise_stage_error stage e
      | Some (ControlFlow s) \<Rightarrow> throw (Plain (ControlFlow s)))"

definition inspect_startup_tasks :: "bool run" where
  "inspect_startup_tasks =
     bind_run now_run (\<lambda>m.
     bind_run (case mo_ready m of
                 None \<Rightarrow> ret False
               | Some Returned \<Rightarrow> ret True
               | Some (Failed e) \<Rightarrow> bind_run (staged StartWorker (Some e)) (\<lambda>_. ret False)) (\<lambda>readiness_succeeded.
     case mo_worker m of
       None \<Rightarrow> ret readiness_succeeded
     | Some t \<Rightarrow>
         bind_run (task_exception t) (\<lambda>worker_error.
           case worker_error of
             Some e \<Rightarrow> raise_stage_error StartWorker e
           | None \<Rightarrow> if \<not> readiness_succeeded then raise_stage_error StartWorker RuntimeError else ret readiness_succeeded)))"

definition cancel_worker :: "unit run" where
  "cancel_worker = bind_run now_run (\<lambda>m. if worker_done m then ret () else call_run CallCancelWorker)"

definition join_worker :: "unit run" where
  "join_worker = await_run worker_done"

text \<open>\<open>await worker.stop(...)\<close>\<close>

definition await_stop :: "stop_call \<Rightarrow> bool run" where
  "await_stop c =
     bind_run (await_run (\<lambda>m. mo_stop m c \<noteq> None)) (\<lambda>_. bind_run now_run (\<lambda>m.
       case mo_stop m c of Some x \<Rightarrow> lift_end x | None \<Rightarrow> ret False))"

definition stop_worker :: "stop_call \<Rightarrow> bool run" where
  "stop_worker c = bind_run (call_run (CallStop c)) (\<lambda>_. await_stop c)"

definition force_worker :: "worker_run_result run" where
  "force_worker =
     bind_run (finally_run (suppress_run (bind_run (stop_worker ForceStop) (\<lambda>_. ret ())))
       (bind_run cancel_worker (\<lambda>_. join_worker))) (\<lambda>_. ret RunEscalated)"

text \<open>What the worker's end means after a graceful stop that was or was not escalated.\<close>

definition stopped_result :: "bool \<Rightarrow> worker_run_result run" where
  "stopped_result escalated =
     (if escalated then ret RunEscalated
      else bind_run now_run (\<lambda>m. bind_run (task_crashed (mo_worker m)) (\<lambda>crashed. ret (if crashed then RunCrashed else RunClean))))"

definition wait_after_graceful_stop :: "bool \<Rightarrow> worker_run_result run" where
  "wait_after_graceful_stop escalated =
     bind_run (await_run (\<lambda>m. worker_done m \<or> mo_force m)) (\<lambda>_. bind_run now_run (\<lambda>m.
       if mo_force m then force_worker else stopped_result escalated))"

text \<open>\<open>_cancel_tasks(graceful_task)\<close>: the task of \<open>worker.stop()\<close> is cancelled unless done, then awaited.\<close>

definition cancel_stop :: "unit run" where
  "cancel_stop =
     bind_run now_run (\<lambda>m. bind_run (if mo_stop m GracefulStop = None then call_run CallCancelStop else ret ()) (\<lambda>_.
       await_run (\<lambda>m. mo_stop m GracefulStop \<noteq> None)))"

definition after_graceful_stop :: "bool \<Rightarrow> worker_run_result run" where
  "after_graceful_stop startup_pending =
     bind_run now_run (\<lambda>m.
       case mo_stop m GracefulStop of
         Some (Inl (Ordinary e)) \<Rightarrow> ret RunCrashed
       | Some (Inl (ControlFlow s)) \<Rightarrow> throw (Plain (ControlFlow s))
       | None \<Rightarrow> ret RunCrashed
       | Some (Inr escalated) \<Rightarrow>
           if startup_pending
           then bind_run cancel_worker (\<lambda>_. bind_run join_worker (\<lambda>_. ret (if escalated then RunEscalated else RunClean)))
           else if worker_done m then stopped_result escalated
           else wait_after_graceful_stop escalated)"

definition gracefully_stop_worker :: "bool \<Rightarrow> worker_run_result run" where
  "gracefully_stop_worker startup_pending =
     bind_run (call_run (CallStop GracefulStop)) (\<lambda>_.
     finally_run
       (bind_run (await_run (\<lambda>m. mo_stop m GracefulStop \<noteq> None \<or> worker_done m \<or> mo_force m)) (\<lambda>_. bind_run now_run (\<lambda>m.
        if mo_force m then bind_run cancel_stop (\<lambda>_. force_worker)
        else if mo_stop m GracefulStop = None
        then bind_run (await_run (\<lambda>m. mo_stop m GracefulStop \<noteq> None \<or> mo_force m)) (\<lambda>_. bind_run now_run (\<lambda>m.
               if mo_force m then bind_run cancel_stop (\<lambda>_. force_worker) else after_graceful_stop startup_pending))
        else after_graceful_stop startup_pending)))
       cancel_stop)"

definition run_until_stopped :: "worker_run_result run" where
  "run_until_stopped =
     bind_run (await_run (\<lambda>m. worker_done m \<or> mo_graceful m \<or> mo_force m)) (\<lambda>_. bind_run now_run (\<lambda>m.
       if mo_force m then force_worker
       else if mo_graceful m then gracefully_stop_worker False
       else bind_run (task_crashed (mo_worker m)) (\<lambda>_. ret RunCrashed)))"

text \<open>The \<open>finally\<close> of the run: the waits are cancelled, then a worker that still runs is stopped, cancelled and awaited.\<close>

definition end_worker :: "unit run" where
  "end_worker =
     bind_run (await_run (\<lambda>m. True)) (\<lambda>_. bind_run now_run (\<lambda>m.
       finally_run (if worker_done m then ret () else suppress_run (bind_run (stop_worker FinalStop) (\<lambda>_. ret ())))
         (bind_run cancel_worker (\<lambda>_. join_worker))))"

record runner_env =
  rn_load :: "base_exception option"
  rn_open :: "base_exception option"
  rn_initializes :: bool
  rn_initialize :: "base_exception option"
  rn_create :: "base_exception option"
  rn_ready :: "base_exception option option"
  rn_close :: "base_exception option"

definition publish_ready :: "base_exception option option \<Rightarrow> unit run" where
  "publish_ready ready = (case ready of None \<Rightarrow> ret () | Some x \<Rightarrow> bind_run (call_run CallReady) (\<lambda>_. staged StartWorker x))"

text \<open>From the inspection of the startup tasks on.\<close>

definition run_started :: "base_exception option option \<Rightarrow> worker_run_result run" where
  "run_started ready =
     bind_run inspect_startup_tasks (\<lambda>readiness_succeeded. bind_run now_run (\<lambda>m.
       if mo_force m then force_worker
       else if mo_graceful m then gracefully_stop_worker (\<not> readiness_succeeded)
       else if readiness_succeeded then bind_run (publish_ready ready) (\<lambda>_. run_until_stopped)
       else raise_stage_error StartWorker RuntimeError))"

definition start_and_run_worker :: "base_exception option option \<Rightarrow> worker_run_result run" where
  "start_and_run_worker ready =
     bind_run (call_run CallSpawn) (\<lambda>_.
     finally_run
       (bind_run (await_run (\<lambda>m. mo_ready m \<noteq> None \<or> worker_done m \<or> mo_graceful m \<or> mo_force m)) (\<lambda>_.
        bind_run now_run (\<lambda>m.
        bind_run (if mo_force m \<or> mo_graceful m then await_run (\<lambda>m. True) else ret ()) (\<lambda>_.
        run_started ready))))
       end_worker)"

text \<open>\<open>_load_worker_tasks\<close>, \<open>_open_worker_service\<close>, \<open>_initialize_worker_schedules\<close> and \<open>_build_worker\<close>: a recorded call and its stage.\<close>

definition stage_call :: "runner_call \<Rightarrow> worker_stage \<Rightarrow> base_exception option \<Rightarrow> unit run" where
  "stage_call c stage x = bind_run (call_run c) (\<lambda>_. staged stage x)"

definition run_opened :: "runner_env \<Rightarrow> worker_run_result run" where
  "run_opened env =
     bind_run (call_run CallSetDefault) (\<lambda>_.
     bind_run (if rn_initializes env then stage_call CallInitialize InitializeSchedules (rn_initialize env) else ret ()) (\<lambda>_.
     bind_run (stage_call CallCreate StartWorker (rn_create env)) (\<lambda>_.
     start_and_run_worker (rn_ready env))))"

text \<open>What is raised or returned once the service was closed, with the exception of the close if there was one.\<close>

definition closed_outcome :: "base_exception option \<Rightarrow> worker_run_result outcome \<Rightarrow> worker_run_result outcome" where
  "closed_outcome cleanup x =
     (case (x, cleanup) of
        (Ended result, Some e) \<Rightarrow> if is_control e \<or> result = RunClean then Threw (Plain e) else Ended result
      | _ \<Rightarrow> x)"

definition run_worker :: "runner_env \<Rightarrow> worker_run_result run" where
  "run_worker env =
     bind_run (stage_call CallLoadTasks LoadTasks (rn_load env)) (\<lambda>_.
     bind_run (stage_call CallOpen OpenService (rn_open env)) (\<lambda>_ s.
       case run_opened env s of
         (Suspended, t) \<Rightarrow> (Suspended, t)
       | (x, t) \<Rightarrow> (closed_outcome (rn_close env) x, t\<lparr>rs_calls := rs_calls t @ [CallRestoreDefault, CallClose]\<rparr>)))"

end
