(* ===== verification/Worker_Runtime_Properties.thy ===== *)
theory Worker_Runtime_Properties
  imports Worker_Runtime
begin

text \<open>
  What a run of a worker process guarantees, for every script of the event loop: weakest preconditions of the
  runner's combinators, what it leaves behind, when it reports readiness and what its result means.
\<close>

section \<open>Weakest preconditions\<close>

definition wp :: "'a run \<Rightarrow> ('a \<Rightarrow> run_state \<Rightarrow> bool) \<Rightarrow> (runner_error \<Rightarrow> run_state \<Rightarrow> bool) \<Rightarrow> run_state \<Rightarrow> bool" where
  "wp m Q E s \<longleftrightarrow> (case m s of (Ended x, s') \<Rightarrow> Q x s' | (Threw e, s') \<Rightarrow> E e s' | (Suspended, s') \<Rightarrow> True)"

named_theorems wp_simps \<open>weakest preconditions of the runner's combinators\<close>

lemma wp_basic [wp_simps]:
  "wp (ret x) Q E s \<longleftrightarrow> Q x s" "wp (throw e) Q E s \<longleftrightarrow> E e s"
  "wp (raise_stage_error stage e') Q E s \<longleftrightarrow> E (StageError stage e') s"
  by (simp_all add: wp_def ret_def throw_def raise_stage_error_def)

lemma wp_call [wp_simps]: "wp (call_run c) Q E s \<longleftrightarrow> Q () (s\<lparr>rs_calls := rs_calls s @ [c]\<rparr>)"
  by (simp add: wp_def call_run_def)

lemma wp_now [wp_simps]: "wp now_run Q E s \<longleftrightarrow> Q (rs_now s) s"
  by (simp add: wp_def now_run_def)

lemma wp_bind [wp_simps]: "wp (bind_run m f) Q E s \<longleftrightarrow> wp m (\<lambda>x. wp (f x) Q E) E s"
  by (auto simp: wp_def bind_run_def split: prod.splits outcome.splits)

lemma wp_finally [wp_simps]:
  "wp (finally_run m f) Q E s \<longleftrightarrow> wp m (\<lambda>x. wp f (\<lambda>_. Q x) E) (\<lambda>e. wp f (\<lambda>_. E e) E) s"
  by (auto simp: wp_def finally_run_def split: prod.splits outcome.splits)

lemma wp_suppress [wp_simps]:
  "wp (suppress_run m) Q E s \<longleftrightarrow> wp m Q (\<lambda>e t. if is_exception e then Q () t else E e t) s"
  by (auto simp: wp_def suppress_run_def split: prod.splits outcome.splits)

lemma wp_if [wp_simps]: "wp (if b then m else m') Q E s \<longleftrightarrow> (if b then wp m Q E s else wp m' Q E s)"
  by simp

lemma wp_mono:
  assumes "wp m Q E s" "\<And>x t. Q x t \<Longrightarrow> Q' x t" "\<And>e t. E e t \<Longrightarrow> E' e t"
  shows "wp m Q' E' s"
  using assms by (auto simp: wp_def split: prod.splits outcome.splits)

section \<open>Scripts\<close>

text \<open>A task that is done stays done with the same end, and an event that is set stays set.\<close>

definition later :: "moment \<Rightarrow> moment \<Rightarrow> bool" where
  "later m m' \<longleftrightarrow> (mo_worker m \<noteq> None \<longrightarrow> mo_worker m' = mo_worker m) \<and> (mo_ready m \<noteq> None \<longrightarrow> mo_ready m' = mo_ready m) \<and>
     (mo_graceful m \<longrightarrow> mo_graceful m') \<and> (mo_force m \<longrightarrow> mo_force m') \<and>
     (\<forall>c \<in> {GracefulStop, ForceStop, FinalStop}. mo_stop m c \<noteq> None \<longrightarrow> mo_stop m' c = mo_stop m c)"

fun script_ok :: "moment \<Rightarrow> moment list \<Rightarrow> bool" where
  "script_ok m [] = True"
| "script_ok m (m' # ms) = (later m m' \<and> script_ok m' ms)"

definition ordered :: "run_state \<Rightarrow> bool" where
  "ordered s \<longleftrightarrow> script_ok (rs_now s) (rs_script s)"

lemma later_refl [simp]: "later m m"
  by (simp add: later_def)

lemma stop_call_all: "(\<forall>c \<in> {GracefulStop, ForceStop, FinalStop}. P c) \<longleftrightarrow> (\<forall>c. P c)"
proof (intro iffI allI)
  fix c assume "\<forall>c \<in> {GracefulStop, ForceStop, FinalStop}. P c"
  then show "P c" by (cases c) simp_all
qed simp

lemma later_trans: "later a b \<Longrightarrow> later b c \<Longrightarrow> later a c"
  unfolding later_def stop_call_all by (elim conjE, intro conjI impI allI) simp_all

lemma later_facts:
  assumes "later m m'"
  shows "mo_worker m = Some x \<Longrightarrow> mo_worker m' = Some x" "mo_ready m = Some x \<Longrightarrow> mo_ready m' = Some x"
    "mo_graceful m \<Longrightarrow> mo_graceful m'" "mo_force m \<Longrightarrow> mo_force m'" "mo_stop m c = Some y \<Longrightarrow> mo_stop m' c = Some y"
    "worker_done m \<Longrightarrow> worker_done m'"
  using assms unfolding later_def stop_call_all by (auto simp: worker_done_def)

lemma await_script_result:
  assumes "await_script p now ms = (x, now', ms')"
  shows "\<exists>pre. ms = pre @ ms' \<and> (x = Suspended \<or> (\<exists>pre'. pre = pre' @ [now'])) \<and>
    (case x of Ended _ \<Rightarrow> p now' | Threw e \<Rightarrow> e = Plain cancelled_error \<and> mo_cancel now' | Suspended \<Rightarrow> True) \<and>
    (script_ok now ms \<longrightarrow> later now now' \<and> script_ok now' ms')"
  using assms
proof (induction ms arbitrary: now)
  case (Cons m ms)
  show ?case
  proof (cases "mo_cancel m \<or> p m")
    case True
    then show ?thesis using Cons.prems by (auto split: if_splits)
  next
    case False
    with Cons.prems have "await_script p m ms = (x, now', ms')" by simp
    from Cons.IH [OF this] obtain pre where pre: "ms = pre @ ms'" "x = Suspended \<or> (\<exists>pre'. pre = pre' @ [now'])"
      "case x of Ended _ \<Rightarrow> p now' | Threw e \<Rightarrow> e = Plain cancelled_error \<and> mo_cancel now' | Suspended \<Rightarrow> True"
      "script_ok m ms \<longrightarrow> later m now' \<and> script_ok now' ms'" by blast
    then have "m # ms = (m # pre) @ ms'" by simp
    moreover have "x = Suspended \<or> (\<exists>pre'. m # pre = pre' @ [now'])" using pre(2) by (metis append_Cons)
    ultimately show ?thesis using pre(3,4) later_trans [of now m now'] by (intro exI [of _ "m # pre"]) simp
  qed
qed simp

lemma wp_await:
  assumes "\<And>now script pre. rs_script s = pre @ now # script \<Longrightarrow> p now \<Longrightarrow> (ordered s \<Longrightarrow> later (rs_now s) now \<and> script_ok now script) \<Longrightarrow>
      Q () (s\<lparr>rs_now := now, rs_script := script\<rparr>)"
    and "\<And>now script pre. rs_script s = pre @ now # script \<Longrightarrow> mo_cancel now \<Longrightarrow>
      (ordered s \<Longrightarrow> later (rs_now s) now \<and> script_ok now script) \<Longrightarrow> E (Plain cancelled_error) (s\<lparr>rs_now := now, rs_script := script\<rparr>)"
  shows "wp (await_run p) Q E s"
proof -
  obtain x now script where r: "await_script p (rs_now s) (rs_script s) = (x, now, script)" by (metis prod.exhaust)
  from await_script_result [OF r] obtain pre where pre: "rs_script s = pre @ script" "x = Suspended \<or> (\<exists>pre'. pre = pre' @ [now])"
    "case x of Ended _ \<Rightarrow> p now | Threw e \<Rightarrow> e = Plain cancelled_error \<and> mo_cancel now | Suspended \<Rightarrow> True"
    "ordered s \<longrightarrow> later (rs_now s) now \<and> script_ok now script" unfolding ordered_def by blast
  show ?thesis
  proof (cases "x = Suspended")
    case False
    with pre obtain pre' where s: "rs_script s = pre' @ now # script" by auto
    show ?thesis
      using pre(3) assms(1) [OF s] assms(2) [OF s] pre(4)
      by (cases x) (simp_all add: wp_def await_run_def r)
  qed (simp add: wp_def await_run_def r)
qed

section \<open>Progress\<close>

text \<open>A run consumes its script in order and makes calls of a given set; \<open>STOPPING\<close> are those that end a worker.\<close>

definition progress :: "runner_call set \<Rightarrow> run_state \<Rightarrow> run_state \<Rightarrow> bool" where
  "progress A s t \<longleftrightarrow> (\<exists>pre. rs_script s = pre @ rs_script t) \<and> (\<exists>cs. rs_calls t = rs_calls s @ cs \<and> set cs \<subseteq> A) \<and>
     (ordered s \<longrightarrow> ordered t \<and> later (rs_now s) (rs_now t))"

definition advances :: "runner_call set \<Rightarrow> 'a run \<Rightarrow> bool" where
  "advances A m \<longleftrightarrow> (\<forall>s. progress A s (snd (m s)))"

definition STOPPING :: "runner_call set" where
  "STOPPING = {CallStop GracefulStop, CallStop ForceStop, CallStop FinalStop, CallCancelStop, CallCancelWorker}"

named_theorems advance_intros \<open>every run goes forward in its script and its calls\<close>

lemma progress_refl [simp]: "progress A s s"
  by (simp add: progress_def)

lemma progress_trans [trans]: "progress A s t \<Longrightarrow> progress A t u \<Longrightarrow> progress A s u"
  unfolding progress_def by (metis append.assoc later_trans set_append Un_least)

lemma progress_mono: "progress A s t \<Longrightarrow> A \<subseteq> B \<Longrightarrow> progress B s t"
  unfolding progress_def by blast

lemma advances_mono: "advances A m \<Longrightarrow> A \<subseteq> B \<Longrightarrow> advances B m"
  unfolding advances_def by (blast intro: progress_mono)

lemma advances_basic [advance_intros]:
  "advances A (ret x)" "advances A (throw e)" "advances A (raise_stage_error stage e')" "advances A now_run"
  by (simp_all add: advances_def ret_def throw_def raise_stage_error_def now_run_def)

lemma advances_call [advance_intros]: "c \<in> A \<Longrightarrow> advances A (call_run c)"
  by (simp add: advances_def call_run_def progress_def ordered_def)

lemma advances_await [advance_intros]: "advances A (await_run p)"
  unfolding advances_def
proof
  fix s :: run_state obtain x now script where r: "await_script p (rs_now s) (rs_script s) = (x, now, script)" by (metis prod.exhaust)
  from await_script_result [OF r] show "progress A s (snd (await_run p s))"
    by (auto simp: progress_def ordered_def await_run_def r)
qed

lemma advances_bind [advance_intros]:
  assumes "advances A m" "\<And>x. advances A (f x)"
  shows "advances A (bind_run m f)"
  unfolding advances_def
proof
  fix s :: run_state
  obtain x t where "m s = (x, t)" by fastforce
  with assms have "progress A s t" "\<And>y. progress A t (snd (f y t))" unfolding advances_def by (metis snd_conv)+
  with \<open>m s = (x, t)\<close> show "progress A s (snd (bind_run m f s))" by (cases x) (auto simp: bind_run_def intro: progress_trans)
qed

lemma advances_finally [advance_intros]:
  assumes "advances A m" "advances A f"
  shows "advances A (finally_run m f)"
  unfolding advances_def
proof
  fix s :: run_state
  obtain x t y u where r: "m s = (x, t)" "f t = (y, u)" by (metis surj_pair)
  with assms have "progress A s t" "progress A t u" unfolding advances_def by (metis snd_conv)+
  with r show "progress A s (snd (finally_run m f s))"
    by (cases x; cases y) (auto simp: finally_run_def intro: progress_trans)
qed

lemma advances_suppress [advance_intros]: "advances A m \<Longrightarrow> advances A (suppress_run m)"
  unfolding advances_def by (auto simp: suppress_run_def split: prod.splits outcome.splits) (metis snd_conv)+

lemma advances_if [advance_intros]: "advances A m \<Longrightarrow> advances A m' \<Longrightarrow> advances A (if b then m else m')"
  by simp

lemma advances_staged [advance_intros]: "advances A (staged stage x)"
  by (auto simp: staged_def intro: advance_intros split: option.splits base_exception.splits)

lemma advances_task [advance_intros]: "advances A (task_exception t)" "advances A (task_crashed t')"
  by (auto simp: task_crashed_def task_exception_def intro!: advance_intros split: option.splits task_end.splits base_exception.splits)

lemma advances_lift [advance_intros]: "advances A (lift_end x)"
  by (auto simp: lift_end_def intro: advance_intros split: sum.splits)

lemma advances_inspect [advance_intros]: "advances A inspect_startup_tasks"
  unfolding inspect_startup_tasks_def
  by (auto intro!: advance_intros split: option.splits task_end.splits)

lemma advances_stop [advance_intros]: "CallStop c \<in> A \<Longrightarrow> advances A (stop_worker c)"
    "CallCancelWorker \<in> A \<Longrightarrow> advances A cancel_worker" "advances A join_worker"
    "advances A (stopped_result b)" "CallCancelStop \<in> A \<Longrightarrow> advances A cancel_stop"
  unfolding stop_worker_def await_stop_def cancel_worker_def join_worker_def stopped_result_def cancel_stop_def
  by (auto intro!: advance_intros split: option.splits)

lemma advances_force [advance_intros]: "STOPPING \<subseteq> A \<Longrightarrow> advances A force_worker"
    "STOPPING \<subseteq> A \<Longrightarrow> advances A (wait_after_graceful_stop b)"
  unfolding force_worker_def wait_after_graceful_stop_def
  by (auto intro!: advance_intros simp: STOPPING_def split: option.splits)

lemma advances_graceful [advance_intros]: "STOPPING \<subseteq> A \<Longrightarrow> advances A (after_graceful_stop b)"
    "STOPPING \<subseteq> A \<Longrightarrow> advances A (gracefully_stop_worker b)" "STOPPING \<subseteq> A \<Longrightarrow> advances A run_until_stopped"
    "{CallStop FinalStop, CallCancelWorker} \<subseteq> A \<Longrightarrow> advances A end_worker"
  unfolding after_graceful_stop_def gracefully_stop_worker_def run_until_stopped_def end_worker_def
  by (auto intro!: advance_intros simp: STOPPING_def split: option.splits sum.splits base_exception.splits)

lemma advances_start [advance_intros]:
  "CallReady \<in> A \<Longrightarrow> advances A (publish_ready ready)"
  "STOPPING \<subseteq> A \<Longrightarrow> CallReady \<in> A \<Longrightarrow> advances A (run_started ready)"
  "STOPPING \<subseteq> A \<Longrightarrow> CallReady \<in> A \<Longrightarrow> CallSpawn \<in> A \<Longrightarrow> advances A (start_and_run_worker ready)"
  unfolding publish_ready_def run_started_def start_and_run_worker_def
  by (auto intro!: advance_intros simp: STOPPING_def split: option.splits)

lemma advancesD: "advances A m \<Longrightarrow> wp m (\<lambda>_. progress A s) (\<lambda>_. progress A s) s"
  by (auto simp: advances_def wp_def split: prod.splits outcome.splits) (metis snd_conv)+

section \<open>Nothing is left running\<close>

lemma wp_join:
  assumes "\<And>t. progress UNIV s t \<Longrightarrow> worker_done (rs_now t) \<Longrightarrow> rs_calls t = rs_calls s \<Longrightarrow> Q () t"
    and "\<And>t m. progress UNIV s t \<Longrightarrow> m \<in> set (rs_script s) \<Longrightarrow> mo_cancel m \<Longrightarrow> rs_calls t = rs_calls s \<Longrightarrow> E (Plain cancelled_error) t"
  shows "wp join_worker Q E s"
  unfolding join_worker_def
  by (rule wp_await) (auto intro!: assms simp: progress_def ordered_def)

definition worker_ended :: "moment list \<Rightarrow> runner_error option \<Rightarrow> run_state \<Rightarrow> bool" where
  "worker_ended script e t \<longleftrightarrow>
     worker_done (rs_now t) \<or> e = Some (Plain cancelled_error) \<and> (\<exists>m \<in> set script. mo_cancel m)"

lemma finally_ends_worker:
  assumes "advances UNIV m"
  shows "wp (finally_run m (bind_run cancel_worker (\<lambda>_. join_worker)))
    (\<lambda>_. worker_ended (rs_script s) None) (\<lambda>e. worker_ended (rs_script s) (Some e)) s"
proof -
  have "wp cancel_worker (\<lambda>_. wp join_worker (\<lambda>_. worker_ended (rs_script s) x) (\<lambda>e. worker_ended (rs_script s) (Some e)))
      (\<lambda>e. worker_ended (rs_script s) (Some e)) t" if "progress UNIV s t" for x t
    using that by (auto simp: cancel_worker_def wp_simps progress_def worker_ended_def intro!: wp_join)
  then show ?thesis
    unfolding wp_finally wp_bind by (intro wp_mono [OF advancesD [OF assms]]) blast+
qed

lemma end_worker_ends:
  "wp end_worker (\<lambda>_. worker_ended (rs_script s) None) (\<lambda>e. worker_ended (rs_script s) (Some e)) s"
  unfolding end_worker_def wp_bind
proof (rule wp_await)
  fix now script pre assume s: "rs_script s = pre @ now # script"
  let ?t = "s\<lparr>rs_now := now, rs_script := script\<rparr>"
  have "worker_ended (rs_script s) x u" if "worker_ended (rs_script ?t) x u" for x u
    using that s by (auto simp: worker_ended_def)
  then show "wp now_run (\<lambda>m. wp (finally_run (if worker_done m then ret () else suppress_run (bind_run (stop_worker FinalStop) (\<lambda>_. ret ())))
      (bind_run cancel_worker (\<lambda>_. join_worker))) (\<lambda>_. worker_ended (rs_script s) None) (\<lambda>e. worker_ended (rs_script s) (Some e)))
      (\<lambda>e. worker_ended (rs_script s) (Some e)) ?t"
    unfolding wp_now by (intro wp_mono [OF finally_ends_worker]) (auto intro: advance_intros)
qed (auto simp: worker_ended_def)

lemma start_and_run_ends:
  "wp (start_and_run_worker ready) (\<lambda>_. worker_ended (rs_script s) None) (\<lambda>e. worker_ended (rs_script s) (Some e)) s"
proof -
  have ends: "wp end_worker (\<lambda>_. worker_ended (rs_script s) x) (\<lambda>e. worker_ended (rs_script s) (Some e)) t" if "progress UNIV s t" for x t
    using that by (intro wp_mono [OF end_worker_ends]) (auto simp: progress_def worker_ended_def)
  have *: "wp (finally_run m end_worker) (\<lambda>_. worker_ended (rs_script s) None) (\<lambda>e. worker_ended (rs_script s) (Some e)) t"
    if "advances UNIV m" "progress UNIV s t" for m :: "worker_run_result run" and t
    unfolding wp_finally using that progress_trans
    by (intro wp_mono [OF advancesD [OF that(1)]]) (blast intro: ends)+
  show ?thesis
    unfolding start_and_run_worker_def wp_bind wp_call
    by (rule *) (auto intro!: advance_intros split: option.splits simp: progress_def ordered_def)
qed

section \<open>The calls of a whole run\<close>

definition BODY :: "runner_call set" where
  "BODY = STOPPING \<union> {CallInitialize, CallCreate, CallSpawn, CallReady}"

lemma body_calls: "STOPPING \<subseteq> BODY" "CallReady \<in> BODY" "CallSpawn \<in> BODY" "CallInitialize \<in> BODY" "CallCreate \<in> BODY"
  by (auto simp: BODY_def)

lemma not_body: "CallClose \<notin> BODY" "CallRestoreDefault \<notin> BODY" "CallSetDefault \<notin> BODY" "CallOpen \<notin> BODY" "CallLoadTasks \<notin> BODY"
  by (auto simp: BODY_def STOPPING_def)

lemma staged_cases:
  "staged stage None s = (Ended (), s)" "staged stage (Some (Ordinary e)) s = (Threw (StageError stage e), s)"
  "staged stage (Some (ControlFlow c)) s = (Threw (Plain (ControlFlow c)), s)"
  by (simp_all add: staged_def ret_def throw_def raise_stage_error_def)

lemma staged_result: "\<exists>e. x \<noteq> None \<longrightarrow> staged stage x s = (Threw e, s)"
  by (cases x; cases "the x") (auto simp: staged_cases)

lemma stage_call_result:
  "stage_call c stage x s = (if x = None then Ended () else Threw (case the x of Ordinary e \<Rightarrow> StageError stage e | ControlFlow n \<Rightarrow> Plain (ControlFlow n)),
     s\<lparr>rs_calls := rs_calls s @ [c]\<rparr>)"
  by (cases x; cases "the x") (auto simp: stage_call_def bind_run_def call_run_def staged_cases)

text \<open>The body after the service was opened: its calls, and the worker it leaves.\<close>

lemma run_opened_calls:
  assumes "run_opened env s = (x, t)"
  shows "\<exists>cs. rs_calls t = rs_calls s @ CallSetDefault # cs \<and> set cs \<subseteq> BODY \<and>
    (x \<noteq> Suspended \<and> CallSpawn \<in> set cs \<longrightarrow>
       worker_done (rs_now t) \<or> x = Threw (Plain cancelled_error) \<and> (\<exists>m \<in> set (rs_script s). mo_cancel m))"
proof -
  define u where "u = s\<lparr>rs_calls := rs_calls s @ [CallSetDefault]\<rparr>"
  define v where "v = u\<lparr>rs_calls := rs_calls u @ (if rn_initializes env then [CallInitialize] else []) @ [CallCreate]\<rparr>"
  have body: "run_opened env s = (case (if rn_initializes env then rn_initialize env else None) of
      Some e \<Rightarrow> (Threw (case e of Ordinary e' \<Rightarrow> StageError InitializeSchedules e' | ControlFlow n \<Rightarrow> Plain (ControlFlow n)),
                u\<lparr>rs_calls := rs_calls u @ [CallInitialize]\<rparr>)
    | None \<Rightarrow> (case rn_create env of
          Some e \<Rightarrow> (Threw (case e of Ordinary e' \<Rightarrow> StageError StartWorker e' | ControlFlow n \<Rightarrow> Plain (ControlFlow n)), v)
        | None \<Rightarrow> start_and_run_worker (rn_ready env) v))"
    by (simp add: run_opened_def bind_run_def call_run_def stage_call_result ret_def u_def v_def split: option.split)
  show ?thesis
  proof (cases "(if rn_initializes env then rn_initialize env else None) = None \<and> rn_create env = None")
    case True
    with body assms have r: "start_and_run_worker (rn_ready env) v = (x, t)" by (simp split: if_splits)
    have "advances BODY (start_and_run_worker (rn_ready env))" by (intro advance_intros body_calls)
    with r obtain cs where cs: "rs_calls t = rs_calls v @ cs" "set cs \<subseteq> BODY" unfolding advances_def progress_def by (metis snd_conv)
    have script: "rs_script v = rs_script s" by (simp add: u_def v_def)
    have "x \<noteq> Suspended \<longrightarrow> worker_done (rs_now t) \<or> x = Threw (Plain cancelled_error) \<and> (\<exists>m \<in> set (rs_script s). mo_cancel m)"
      using start_and_run_ends [of "rn_ready env" v] by (cases x) (auto simp: wp_def r worker_ended_def script)
    with cs show ?thesis by (auto simp: u_def v_def body_calls)
  next
    case False
    with body assms show ?thesis
      by (auto simp: u_def v_def body_calls BODY_def split: option.splits if_splits)
  qed
qed

text \<open>Property C31: what the run of a worker process leaves behind, however its event loop schedules it. When the run
  ends, a worker's task that was started is done, unless the run ended by a cancellation of the runner
  (\<open>cancelled_cleanup_leaves_worker\<close>). When the tasks load and the service opens, the service is made the default and in
  the end the former default restored and the service closed, each exactly once and in this order; otherwise the
  run raises after the step that failed, and nothing is to be undone.\<close>

theorem worker_run_leaves_nothing:
  assumes "run_worker env s = (x, t)" "x \<noteq> Suspended" "rs_calls s = []"
  shows "(CallSpawn \<in> set (rs_calls t) \<longrightarrow>
      worker_done (rs_now t) \<or> x = Threw (Plain cancelled_error) \<and> (\<exists>m \<in> set (rs_script s). mo_cancel m)) \<and>
    (if rn_load env = None \<and> rn_open env = None
     then \<exists>cs. rs_calls t = [CallLoadTasks, CallOpen, CallSetDefault] @ cs @ [CallRestoreDefault, CallClose] \<and>
       set cs \<inter> {CallLoadTasks, CallOpen, CallSetDefault, CallRestoreDefault, CallClose} = {}
     else (\<exists>e. x = Threw e) \<and> rs_calls t = CallLoadTasks # (if rn_load env = None then [CallOpen] else []))"
proof (cases "rn_load env = None \<and> rn_open env = None")
  case True
  define u where "u = s\<lparr>rs_calls := [CallLoadTasks, CallOpen]\<rparr>"
  obtain y v where o: "run_opened env u = (y, v)" by fastforce
  from True assms o have r: "x = closed_outcome (rn_close env) y" "t = v\<lparr>rs_calls := rs_calls v @ [CallRestoreDefault, CallClose]\<rparr>" "y \<noteq> Suspended"
    by (auto simp: run_worker_def bind_run_def stage_call_result u_def split: outcome.splits)
  have "closed_outcome (rn_close env) (Threw e) = Threw e" for e by (simp add: closed_outcome_def)
  with run_opened_calls [OF o] r True not_body show ?thesis by (auto simp: u_def)
next
  case False
  with assms show ?thesis
    by (cases "rn_load env") (auto simp: run_worker_def bind_run_def stage_call_result split: if_splits)
qed

section \<open>What a result means\<close>

definition result_ok :: "worker_run_result \<Rightarrow> runner_call list \<Rightarrow> moment \<Rightarrow> bool" where
  "result_ok r calls m \<longleftrightarrow>
     (case r of
        RunClean \<Rightarrow>
          CallStop ForceStop \<notin> set calls \<and> mo_graceful m \<and> mo_stop m GracefulStop = Some (Inr False) \<and> worker_done m \<and>
          (mo_worker m = Some Returned \<or> CallReady \<notin> set calls)
      | RunEscalated \<Rightarrow> CallStop ForceStop \<in> set calls \<and> mo_force m \<or> mo_graceful m \<and> mo_stop m GracefulStop = Some (Inr True)
      | RunCrashed \<Rightarrow>
          CallStop ForceStop \<notin> set calls \<and>
          ((\<exists>e. mo_stop m GracefulStop = Some (Inl (Ordinary e))) \<or> (\<exists>e. mo_worker m = Some (Failed (Ordinary e))) \<or>
           mo_worker m = Some Returned \<and> CallStop GracefulStop \<notin> set calls))"

definition good_result :: "worker_run_result \<Rightarrow> run_state \<Rightarrow> bool" where
  "good_result r t \<longleftrightarrow> ordered t \<and> result_ok r (rs_calls t) (rs_now t)"

abbreviation any_error :: "runner_error \<Rightarrow> run_state \<Rightarrow> bool" where
  "any_error \<equiv> (\<lambda>_ _. True)"

lemma good_result_progress:
  assumes "good_result r s" "progress {CallStop FinalStop, CallCancelWorker, CallCancelStop} s t"
  shows "good_result r t"
proof -
  from assms obtain cs where cs: "rs_calls t = rs_calls s @ cs" "set cs \<subseteq> {CallStop FinalStop, CallCancelWorker, CallCancelStop}"
    and t: "ordered t" "later (rs_now s) (rs_now t)" by (auto simp: progress_def good_result_def)
  from cs(2) have "CallStop ForceStop \<notin> set cs" "CallStop GracefulStop \<notin> set cs" "CallReady \<notin> set cs" by auto
  with assms(1) cs(1) t later_facts [OF t(2)] show ?thesis
    by (cases r) (auto simp: good_result_def result_ok_def)
qed

lemma wp_keeps_result:
  "good_result r s \<Longrightarrow> advances {CallStop FinalStop, CallCancelWorker, CallCancelStop} m \<Longrightarrow> wp m (\<lambda>_ t. good_result r t) any_error s"
  by (rule wp_mono [OF advancesD]) (auto intro: good_result_progress)

lemma wp_true [simp]: "wp m (\<lambda>_ _. True) any_error s"
  by (auto simp: wp_def split: prod.split outcome.split)

lemma force_result:
  assumes "ordered s" "mo_force (rs_now s)"
  shows "wp force_worker good_result any_error s"
proof -
  let ?u = "s\<lparr>rs_calls := rs_calls s @ [CallStop ForceStop]\<rparr>"
  have u: "ordered ?u" using assms(1) by (simp add: ordered_def)
  have good: "good_result RunEscalated t" if "progress UNIV ?u t" for t
    using that u assms(2) later_facts(4) [of "rs_now s"] by (auto simp: progress_def good_result_def result_ok_def)
  have *: "advances UNIV (finally_run (suppress_run (bind_run (await_stop ForceStop) (\<lambda>_. ret ()))) (bind_run cancel_worker (\<lambda>_. join_worker)))"
    unfolding await_stop_def by (auto intro!: advance_intros split: option.split)
  have "force_worker s = bind_run (finally_run (suppress_run (bind_run (await_stop ForceStop) (\<lambda>_. ret ())))
      (bind_run cancel_worker (\<lambda>_. join_worker))) (\<lambda>_. ret RunEscalated) ?u"
    by (simp add: force_worker_def stop_worker_def bind_run_def finally_run_def suppress_run_def call_run_def)
  moreover have "wp (bind_run (finally_run (suppress_run (bind_run (await_stop ForceStop) (\<lambda>_. ret ())))
      (bind_run cancel_worker (\<lambda>_. join_worker))) (\<lambda>_. ret RunEscalated)) good_result any_error ?u"
    unfolding wp_bind wp_basic by (rule wp_mono [OF advancesD [OF *]]) (auto intro: good)
  ultimately show ?thesis by (simp add: wp_def)
qed

definition stopping :: "run_state \<Rightarrow> bool" where
  "stopping s \<longleftrightarrow> ordered s \<and> mo_graceful (rs_now s) \<and> CallStop ForceStop \<notin> set (rs_calls s)"

lemma stopping_await:
  assumes "stopping s" "\<And>now script. stopping (s\<lparr>rs_now := now, rs_script := script\<rparr>) \<Longrightarrow> later (rs_now s) now \<Longrightarrow> p now \<Longrightarrow>
     Q () (s\<lparr>rs_now := now, rs_script := script\<rparr>)"
  shows "wp (await_run p) Q any_error s"
  using assms(1) later_facts(3) by (intro wp_await assms(2)) (auto simp: stopping_def ordered_def)

lemma stopped_result_good:
  assumes "stopping s" "mo_stop (rs_now s) GracefulStop = Some (Inr escalated)" "worker_done (rs_now s)"
  shows "wp (stopped_result escalated) good_result any_error s"
  using assms
  by (auto simp: stopped_result_def wp_simps task_crashed_def task_exception_def worker_done_def stopping_def good_result_def
      result_ok_def split: task_end.split base_exception.split)

lemma after_graceful_stop_good:
  assumes "stopping s" "mo_stop (rs_now s) GracefulStop \<noteq> None" "startup_pending \<longrightarrow> CallReady \<notin> set (rs_calls s)"
  shows "wp (after_graceful_stop startup_pending) good_result any_error s"
proof (cases "the (mo_stop (rs_now s) GracefulStop)")
  case (Inl e)
  with assms show ?thesis
    by (cases e) (auto simp: after_graceful_stop_def wp_simps good_result_def result_ok_def stopping_def)
next
  case (Inr escalated)
  have "wp (bind_run cancel_worker (\<lambda>_. bind_run join_worker (\<lambda>_. ret (if escalated then RunEscalated else RunClean)))) good_result any_error s"
    if "startup_pending"
  proof -
    have "wp join_worker (\<lambda>_. wp (ret (if escalated then RunEscalated else RunClean)) good_result any_error) any_error t"
      if "stopping t" "mo_stop (rs_now t) GracefulStop = Some (Inr escalated)" "CallReady \<notin> set (rs_calls t)" for t
      unfolding join_worker_def
      using that by (intro stopping_await) (auto simp: wp_basic good_result_def result_ok_def stopping_def later_facts(5))
    with assms Inr that show ?thesis
      by (auto simp: cancel_worker_def wp_bind wp_now wp_if wp_call wp_basic(1) [of _ "\<lambda>_. _"] stopping_def ordered_def)
  qed
  moreover have "wp (wait_after_graceful_stop escalated) good_result any_error s"
    unfolding wait_after_graceful_stop_def wp_bind wp_now
    using assms Inr
    by (intro stopping_await) (auto simp: wp_simps stopping_def later_facts(5) intro!: force_result stopped_result_good)
  ultimately show ?thesis
    using assms Inr stopped_result_good [OF assms(1)] by (auto simp: after_graceful_stop_def wp_simps)
qed

lemma if_rule: "(b \<Longrightarrow> P) \<Longrightarrow> (\<not> b \<Longrightarrow> Q) \<Longrightarrow> if b then P else Q"
  by simp

lemma gracefully_stop_good:
  assumes "stopping s" "startup_pending \<longrightarrow> CallReady \<notin> set (rs_calls s)"
  shows "wp (gracefully_stop_worker startup_pending) good_result any_error s"
proof -
  have forced: "wp (bind_run cancel_stop (\<lambda>_. force_worker)) good_result any_error t" if "stopping t" "mo_force (rs_now t)" for t
  proof -
    have "wp cancel_stop (\<lambda>_. wp force_worker good_result any_error) any_error t"
      by (rule wp_mono [OF advancesD [of "{CallCancelStop}"]])
        (use that in \<open>auto intro!: advance_intros force_result simp: progress_def stopping_def later_facts(4)\<close>)
    then show ?thesis by (simp add: wp_bind)
  qed
  have second: "wp (await_run (\<lambda>m. mo_stop m GracefulStop \<noteq> None \<or> mo_force m))
      (\<lambda>_ t. if mo_force (rs_now t) then wp (bind_run cancel_stop (\<lambda>_. force_worker)) good_result any_error t
             else wp (after_graceful_stop startup_pending) good_result any_error t) any_error t"
    if "stopping t" "startup_pending \<longrightarrow> CallReady \<notin> set (rs_calls t)" for t
    using that by (intro stopping_await if_rule forced after_graceful_stop_good) simp_all
  have "wp (await_run (\<lambda>m. mo_stop m GracefulStop \<noteq> None \<or> worker_done m \<or> mo_force m))
      (\<lambda>_ t. if mo_force (rs_now t) then wp (bind_run cancel_stop (\<lambda>_. force_worker)) good_result any_error t
        else if mo_stop (rs_now t) GracefulStop = None
        then wp (await_run (\<lambda>m. mo_stop m GracefulStop \<noteq> None \<or> mo_force m))
          (\<lambda>_ t. if mo_force (rs_now t) then wp (bind_run cancel_stop (\<lambda>_. force_worker)) good_result any_error t
             else wp (after_graceful_stop startup_pending) good_result any_error t) any_error t
        else wp (after_graceful_stop startup_pending) good_result any_error t) any_error
      (s\<lparr>rs_calls := rs_calls s @ [CallStop GracefulStop]\<rparr>)"
  proof (rule stopping_await, goal_cases)
    case 1
    then show ?case using assms(1) by (simp add: stopping_def ordered_def)
  next
    case (2 now script)
    from assms(2) have ready: "startup_pending \<longrightarrow> CallReady \<notin> set (rs_calls s @ [CallStop GracefulStop])" by simp
    from 2 ready show ?case
      by (intro if_rule forced second after_graceful_stop_good) simp_all
  qed
  then have "wp (bind_run (await_run (\<lambda>m. mo_stop m GracefulStop \<noteq> None \<or> worker_done m \<or> mo_force m)) (\<lambda>_. bind_run now_run (\<lambda>m.
        if mo_force m then bind_run cancel_stop (\<lambda>_. force_worker)
        else if mo_stop m GracefulStop = None
        then bind_run (await_run (\<lambda>m. mo_stop m GracefulStop \<noteq> None \<or> mo_force m)) (\<lambda>_. bind_run now_run (\<lambda>m.
               if mo_force m then bind_run cancel_stop (\<lambda>_. force_worker) else after_graceful_stop startup_pending))
        else after_graceful_stop startup_pending))) good_result any_error (s\<lparr>rs_calls := rs_calls s @ [CallStop GracefulStop]\<rparr>)"
    unfolding wp_bind wp_now wp_if by simp
  then show ?thesis
    unfolding gracefully_stop_worker_def wp_bind [of "call_run _"] wp_call wp_finally
    by (rule wp_mono) (auto intro: wp_keeps_result advance_intros)
qed

lemma ordered_await:
  assumes "ordered s" "\<And>now script. ordered (s\<lparr>rs_now := now, rs_script := script\<rparr>) \<Longrightarrow> p now \<Longrightarrow> Q () (s\<lparr>rs_now := now, rs_script := script\<rparr>)"
  shows "wp (await_run p) Q any_error s"
  using assms(1) by (intro wp_await assms(2)) (auto simp: ordered_def)

definition unstopped :: "run_state \<Rightarrow> bool" where
  "unstopped s \<longleftrightarrow> CallStop ForceStop \<notin> set (rs_calls s) \<and> CallStop GracefulStop \<notin> set (rs_calls s)"

lemma run_until_stopped_good:
  assumes "ordered s" "unstopped s"
  shows "wp run_until_stopped good_result any_error s"
  unfolding run_until_stopped_def wp_bind wp_now wp_if
proof (rule ordered_await [OF assms(1)])
  fix now script
  let ?t = "s\<lparr>rs_now := now, rs_script := script\<rparr>"
  assume t: "ordered ?t" and reason: "worker_done now \<or> mo_graceful now \<or> mo_force now"
  have "wp (task_crashed (mo_worker now)) (\<lambda>_. wp (ret RunCrashed) good_result any_error) any_error ?t" if "worker_done now"
    using that t assms(2)
    by (auto simp: task_crashed_def task_exception_def wp_simps worker_done_def good_result_def result_ok_def unstopped_def
        split: task_end.split base_exception.split)
  then show "if mo_force (rs_now ?t) then wp force_worker good_result any_error ?t
      else if mo_graceful (rs_now ?t) then wp (gracefully_stop_worker False) good_result any_error ?t
      else wp (task_crashed (mo_worker (rs_now ?t))) (\<lambda>_. wp (ret RunCrashed) good_result any_error) any_error ?t"
    using t reason assms(2)
    by (intro if_rule force_result gracefully_stop_good) (simp_all add: stopping_def unstopped_def)
qed

lemma wp_inspect: "(\<And>b. Q b s) \<Longrightarrow> wp inspect_startup_tasks Q any_error s"
  by (auto simp: inspect_startup_tasks_def staged_def task_exception_def wp_simps
      split: option.split task_end.split base_exception.split)

lemma publish_ready_good:
  "(\<And>cs. set cs \<subseteq> {CallReady} \<Longrightarrow> Q () (s\<lparr>rs_calls := rs_calls s @ cs\<rparr>)) \<Longrightarrow> wp (publish_ready ready) Q any_error s"
proof -
  assume Q: "\<And>cs. set cs \<subseteq> {CallReady} \<Longrightarrow> Q () (s\<lparr>rs_calls := rs_calls s @ cs\<rparr>)"
  show ?thesis using Q [of "[]"] Q [of "[CallReady]"]
    by (auto simp: publish_ready_def staged_def wp_simps split: option.split base_exception.split)
qed

lemma started_good:
  assumes "ordered s" "unstopped s" "CallReady \<notin> set (rs_calls s)"
  shows "wp (run_started ready) good_result any_error s"
  unfolding run_started_def wp_bind wp_now wp_if
proof (rule wp_inspect)
  fix b
  have "wp (publish_ready ready) (\<lambda>_. wp run_until_stopped good_result any_error) any_error s"
    using assms by (intro publish_ready_good run_until_stopped_good) (auto simp: ordered_def unstopped_def)
  then show "if mo_force (rs_now s) then wp force_worker good_result any_error s
      else if mo_graceful (rs_now s) then wp (gracefully_stop_worker (\<not> b)) good_result any_error s
      else if b then wp (publish_ready ready) (\<lambda>_. wp run_until_stopped good_result any_error) any_error s
      else wp (raise_stage_error StartWorker RuntimeError) good_result any_error s"
    using assms by (intro if_rule force_result gracefully_stop_good) (auto simp: stopping_def unstopped_def wp_simps)
qed

lemma start_and_run_good:
  assumes "ordered s" "unstopped s" "CallReady \<notin> set (rs_calls s)"
  shows "wp (start_and_run_worker ready) good_result any_error s"
proof -
  let ?body = "\<lambda>t. wp (run_started ready) good_result any_error t"
  let ?u = "s\<lparr>rs_calls := rs_calls s @ [CallSpawn]\<rparr>"
  have u: "ordered ?u" "unstopped ?u" "CallReady \<notin> set (rs_calls ?u)" using assms by (auto simp: ordered_def unstopped_def)
  have "wp (await_run p) (\<lambda>_ t. if mo_force (rs_now t) \<or> mo_graceful (rs_now t) then wp (await_run (\<lambda>m. True)) (\<lambda>_. ?body) any_error t
      else ?body t) any_error ?u" for p
    using u by (intro ordered_await if_rule started_good) (auto simp: unstopped_def)
  then have "wp (bind_run (await_run p) (\<lambda>_. bind_run now_run (\<lambda>m.
        bind_run (if mo_force m \<or> mo_graceful m then await_run (\<lambda>m. True) else ret ()) (\<lambda>_.
        run_started ready)))) good_result any_error ?u" for p
    unfolding wp_bind wp_now wp_if wp_basic .
  then show ?thesis
    unfolding start_and_run_worker_def wp_bind [of "call_run _"] wp_call wp_finally
    by (rule wp_mono) (auto intro!: wp_keeps_result advance_intros)
qed

text \<open>The exit status of a worker process tells the truth, however its event loop schedules it. It is clean only
  when a graceful stop was asked for, ended without escalation, and the worker's task returned (or had not become
  ready); it is escalated only after a forced stop or an escalated one; it is a crash only when the worker or its
  stop raised, or the worker returned although nobody had asked it to.\<close>

theorem worker_result_truthful:
  assumes "run_worker env s = (Ended result, t)" "script_ok (rs_now s) (rs_script s)" "rs_calls s = []"
  shows "result_ok result (rs_calls t) (rs_now t)"
proof -
  have opened: "rn_load env = None \<and> rn_open env = None"
    using assms(1) by (auto simp: run_worker_def bind_run_def stage_call_result split: if_splits)
  define u where "u = s\<lparr>rs_calls := [CallLoadTasks, CallOpen]\<rparr>"
  obtain y v where o: "run_opened env u = (y, v)" by fastforce
  from opened assms o have r: "Ended result = closed_outcome (rn_close env) y" "t = v\<lparr>rs_calls := rs_calls v @ [CallRestoreDefault, CallClose]\<rparr>"
    by (auto simp: run_worker_def bind_run_def stage_call_result u_def split: outcome.splits)
  from r(1) have y: "y = Ended result" by (auto simp: closed_outcome_def split: outcome.splits option.splits if_splits prod.splits)
  have "wp (run_opened env) good_result any_error u"
    unfolding run_opened_def wp_bind wp_call
    using assms(2,3)
    by (auto simp: stage_call_def staged_def wp_simps u_def ordered_def unstopped_def intro!: start_and_run_good
        split: option.split base_exception.split)
  with o y have "good_result result v" by (simp add: wp_def)
  with r(2) show ?thesis by (cases result) (auto simp: good_result_def result_ok_def)
qed

section \<open>Readiness\<close>

text \<open>Facts of the state a run is in, ended or not.\<close>

lemma bind_now: "bind_run now_run f s = f (rs_now s) s"
  by (simp add: bind_run_def now_run_def)

lemma bind_call: "bind_run (call_run c) f s = f () (s\<lparr>rs_calls := rs_calls s @ [c]\<rparr>)"
  by (simp add: bind_run_def call_run_def)

lemma state_bind: "R (snd (m s)) \<Longrightarrow> (\<And>x t. m s = (Ended x, t) \<Longrightarrow> R (snd (f x t))) \<Longrightarrow> R (snd (bind_run m f s))"
  by (cases "m s"; cases "fst (m s)") (auto simp: bind_run_def)

lemma state_finally: "R (snd (m s)) \<Longrightarrow> (\<And>x t. m s = (x, t) \<Longrightarrow> R (snd (f t))) \<Longrightarrow> R (snd (finally_run m f s))"
  by (cases "m s"; cases "fst (m s)") (auto simp: finally_run_def split: prod.splits outcome.splits)

lemma await_state:
  assumes "await_run p s = (x, t)"
  shows "rs_calls t = rs_calls s" "x = Ended () \<Longrightarrow> rs_now t \<in> set (rs_script s) \<and> p (rs_now t)" "set (rs_script t) \<subseteq> set (rs_script s)"
proof -
  obtain y now script where r: "await_script p (rs_now s) (rs_script s) = (y, now, script)" by (metis prod.exhaust)
  with assms have "x = y" "t = s\<lparr>rs_now := now, rs_script := script\<rparr>" by (auto simp: await_run_def)
  with await_script_result [OF r] show "rs_calls t = rs_calls s" "x = Ended () \<Longrightarrow> rs_now t \<in> set (rs_script s) \<and> p (rs_now t)"
    "set (rs_script t) \<subseteq> set (rs_script s)" by auto
qed

definition ready_moment :: "moment \<Rightarrow> bool" where
  "ready_moment m \<longleftrightarrow> mo_ready m = Some Returned \<and> \<not> mo_graceful m \<and> \<not> mo_force m \<and> (\<forall>e. mo_worker m \<noteq> Some (Failed e))"

lemma inspect_state:
  assumes "inspect_startup_tasks s = (x, t)"
  shows "t = s" "x = Ended True \<Longrightarrow> mo_ready (rs_now s) = Some Returned \<and> (\<forall>e. mo_worker (rs_now s) \<noteq> Some (Failed e))"
  using assms
  by (auto simp: inspect_startup_tasks_def bind_run_def now_run_def staged_def ret_def throw_def raise_stage_error_def task_exception_def
      split: option.splits task_end.splits base_exception.splits prod.splits outcome.splits if_splits)

definition readiness :: "runner_call list \<Rightarrow> moment set \<Rightarrow> run_state \<Rightarrow> bool" where
  "readiness base M t \<longleftrightarrow> (\<exists>cs. rs_calls t = base @ cs \<and>
     (CallReady \<notin> set cs \<or> (\<exists>cs'. cs = CallReady # cs' \<and> CallReady \<notin> set cs') \<and> (\<exists>m \<in> M. ready_moment m)))"

lemma readiness_advances:
  assumes "readiness base M s" "advances STOPPING m"
  shows "readiness base M (snd (m s))"
proof -
  from assms(2) obtain ds where ds: "rs_calls (snd (m s)) = rs_calls s @ ds" "set ds \<subseteq> STOPPING"
    unfolding advances_def progress_def by blast
  then have "CallReady \<notin> set ds" by (auto simp: STOPPING_def)
  with assms(1) ds(1) show ?thesis unfolding readiness_def by (fastforce simp: append_eq_append_conv2)
qed

lemma start_and_run_ready: "readiness (rs_calls s @ [CallSpawn]) (set (rs_script s)) (snd (start_and_run_worker ready s))"
proof -
  let ?u = "s\<lparr>rs_calls := rs_calls s @ [CallSpawn]\<rparr>" and ?R = "readiness (rs_calls s @ [CallSpawn]) (set (rs_script s))"
  have plain: "?R t" if "rs_calls t = rs_calls s @ [CallSpawn]" for t using that by (simp add: readiness_def)
  have published: "?R (snd (publish_ready ready t))"
    if "rs_calls t = rs_calls s @ [CallSpawn]" "ready_moment (rs_now t)" "rs_now t \<in> set (rs_script s)" for t
    using that
    by (auto simp: readiness_def publish_ready_def bind_run_def call_run_def staged_def ret_def throw_def raise_stage_error_def
        split: option.splits base_exception.splits)
  have advs: "advances STOPPING force_worker" "advances STOPPING (gracefully_stop_worker b)" "advances STOPPING run_until_stopped"
    "advances STOPPING end_worker" for b
    by (auto intro!: advance_intros simp: STOPPING_def)
  have started: "?R (snd (run_started ready t))"
    if t: "rs_calls t = rs_calls s @ [CallSpawn]" "rs_now t \<in> set (rs_script s)" for t
    unfolding run_started_def
  proof (rule state_bind)
    obtain x u where i: "inspect_startup_tasks t = (x, u)" by fastforce
    show "?R (snd (inspect_startup_tasks t))" using i inspect_state(1) [OF i] plain t by simp
  next
    fix b u assume i: "inspect_startup_tasks t = (Ended b, u)"
    note u = inspect_state [OF i]
    have ready: "?R (snd (bind_run (publish_ready ready) (\<lambda>_. run_until_stopped) t))" if "b" "\<not> mo_force (rs_now t)" "\<not> mo_graceful (rs_now t)"
    proof (rule state_bind)
      show p: "?R (snd (publish_ready ready t))" using that u t by (intro published) (auto simp: ready_moment_def)
      show "?R (snd (run_until_stopped v))" if "publish_ready ready t = (Ended x, v)" for x v
        using p that advs by (intro readiness_advances) simp_all
    qed
    show "?R (snd (bind_run now_run (\<lambda>m. if mo_force m then force_worker else if mo_graceful m then gracefully_stop_worker (\<not> b)
        else if b then bind_run (publish_ready ready) (\<lambda>_. run_until_stopped) else raise_stage_error StartWorker RuntimeError) u))"
      using ready plain [OF t(1)]
      by (auto simp: bind_now u(1) raise_stage_error_def throw_def
          intro!: readiness_advances [OF plain [OF t(1)]] advs)
  qed
  have body: "?R (snd (bind_run (await_run p) (\<lambda>_. bind_run now_run (\<lambda>m.
      bind_run (if mo_force m \<or> mo_graceful m then await_run (\<lambda>m. True) else ret ()) (\<lambda>_. run_started ready))) ?u))" for p
  proof (rule state_bind)
    obtain x t where a: "await_run p ?u = (x, t)" by fastforce
    show "?R (snd (await_run p ?u))" using await_state(1) [OF a] a by (intro plain) simp
  next
    fix x t assume a: "await_run p ?u = (Ended x, t)"
    note t = await_state [OF a]
    let ?c = "if mo_force (rs_now t) \<or> mo_graceful (rs_now t) then await_run (\<lambda>m. True) else ret ()"
    obtain y v where c: "?c t = (y, v)" by fastforce
    have v: "rs_calls v = rs_calls s @ [CallSpawn]" "y = Ended () \<Longrightarrow> rs_now v \<in> set (rs_script s)"
      using c t await_state [of "\<lambda>m. True" t] by (auto simp: ret_def split: if_splits)
    have "?R (snd (bind_run ?c (\<lambda>_. run_started ready) t))"
      by (rule state_bind) (use c v plain started in auto)
    then show "?R (snd (bind_run now_run (\<lambda>m.
      bind_run (if mo_force m \<or> mo_graceful m then await_run (\<lambda>m. True) else ret ()) (\<lambda>_. run_started ready)) t))"
      unfolding bind_now .
  qed
  have "?R (snd (finally_run m end_worker ?u))" if m: "?R (snd (m ?u))" for m :: "worker_run_result run"
  proof (rule state_finally [of ?R m ?u end_worker, OF m])
    fix x t assume "m ?u = (x, t)"
    with m have "?R t" by simp
    then show "?R (snd (end_worker t))" by (rule readiness_advances) (rule advs)
  qed
  then show ?thesis unfolding start_and_run_worker_def bind_call by this (rule body)
qed

text \<open>A worker process reports readiness at most once, and only when everything before it succeeded: tasks
  loaded, service opened, schedules initialised if configured, worker built and started, while no stop was
  asked for and the worker had not failed; nothing but stopping comes after it.\<close>

theorem ready_after_startup:
  assumes "run_worker env s = (x, t)" "rs_calls s = []" "CallReady \<in> set (rs_calls t)"
  shows "rn_load env = None \<and> rn_open env = None \<and> (rn_initializes env \<longrightarrow> rn_initialize env = None) \<and> rn_create env = None \<and>
    (\<exists>cs. rs_calls t = [CallLoadTasks, CallOpen, CallSetDefault] @ (if rn_initializes env then [CallInitialize] else []) @
       [CallCreate, CallSpawn, CallReady] @ cs \<and> CallReady \<notin> set cs) \<and>
    (\<exists>m \<in> set (rs_script s). ready_moment m)"
proof -
  have ok: "rn_load env = None \<and> rn_open env = None"
    using assms by (cases "rn_load env"; cases "rn_open env") (auto simp: run_worker_def bind_run_def stage_call_result split: if_splits)
  define u where "u = s\<lparr>rs_calls := [CallLoadTasks, CallOpen]\<rparr>"
  obtain y v where o: "run_opened env u = (y, v)" by fastforce
  from ok assms(1,2) o have "rs_calls t = rs_calls v \<or> rs_calls t = rs_calls v @ [CallRestoreDefault, CallClose]"
    by (auto simp: run_worker_def bind_run_def stage_call_result u_def split: outcome.splits)
  then obtain es where t: "rs_calls t = rs_calls v @ es" "CallReady \<notin> set es" by force
  have inits: "(rn_initializes env \<longrightarrow> rn_initialize env = None) \<and> rn_create env = None"
    using o t assms(3) by (auto simp: run_opened_def bind_run_def call_run_def stage_call_result ret_def u_def split: if_splits)
  define w where "w = u\<lparr>rs_calls := rs_calls u @ CallSetDefault # (if rn_initializes env then [CallInitialize] else []) @ [CallCreate]\<rparr>"
  have "run_opened env u = start_and_run_worker (rn_ready env) w"
    using inits by (auto simp: run_opened_def bind_run_def call_run_def stage_call_result ret_def w_def)
  with o have v: "v = snd (start_and_run_worker (rn_ready env) w)" by simp
  have "rs_script w = rs_script s" by (simp add: w_def u_def)
  with start_and_run_ready [of w "rn_ready env"] obtain cs where cs: "rs_calls v = rs_calls w @ CallSpawn # cs"
    "CallReady \<notin> set cs \<or> (\<exists>cs'. cs = CallReady # cs' \<and> CallReady \<notin> set cs') \<and> (\<exists>m \<in> set (rs_script s). ready_moment m)"
    unfolding v readiness_def by auto
  with t assms(3) ok inits show ?thesis by (auto simp: w_def u_def)
qed

section \<open>Concrete runs\<close>

definition quiet_moment :: moment where
  "quiet_moment = \<lparr>mo_worker = None, mo_ready = None, mo_graceful = False, mo_force = False, mo_stop = (\<lambda>_. None), mo_cancel = False\<rparr>"

definition served_script :: "moment list" where
  "served_script =
     (let ready = quiet_moment\<lparr>mo_ready := Some Returned\<rparr>; asked = ready\<lparr>mo_graceful := True\<rparr>;
          stopped = asked\<lparr>mo_worker := Some Returned, mo_stop := (\<lambda>c. case c of GracefulStop \<Rightarrow> Some (Inr False) | _ \<Rightarrow> None)\<rparr>
      in [ready, asked, stopped, stopped, stopped, stopped])"

definition plain_env :: runner_env where
  "plain_env = \<lparr>rn_load = None, rn_open = None, rn_initializes = True, rn_initialize = None, rn_create = None,
     rn_ready = Some None, rn_close = None\<rparr>"

definition new_run :: "moment list \<Rightarrow> run_state" where
  "new_run script = \<lparr>rs_script = script, rs_now = quiet_moment, rs_calls = []\<rparr>"

lemma served_run:
  "fst (run_worker plain_env (new_run served_script)) = Ended RunClean"
  "rs_calls (snd (run_worker plain_env (new_run served_script))) =
     [CallLoadTasks, CallOpen, CallSetDefault, CallInitialize, CallCreate, CallSpawn, CallReady, CallStop GracefulStop, CallRestoreDefault, CallClose]"
  by code_simp+

lemma served_script_ok: "script_ok quiet_moment served_script"
  by (simp add: served_script_def quiet_moment_def later_def Let_def)

lemma worker_run_leaves_nothing_witness:
  "worker_done (rs_now (snd (run_worker plain_env (new_run served_script))))"
proof -
  obtain x t where r: "run_worker plain_env (new_run served_script) = (x, t)" by fastforce
  with served_run have "x \<noteq> Suspended" "x = Ended RunClean" "CallSpawn \<in> set (rs_calls t)" by simp_all
  with worker_run_leaves_nothing [OF r] r show ?thesis by (simp add: new_run_def)
qed

lemma worker_result_truthful_example:
  "result_ok RunClean (rs_calls (snd (run_worker plain_env (new_run served_script)))) (rs_now (snd (run_worker plain_env (new_run served_script))))"
proof -
  obtain t where r: "run_worker plain_env (new_run served_script) = (Ended RunClean, t)" using served_run by (metis prod.collapse)
  from worker_result_truthful [OF r] r served_script_ok show ?thesis by (simp add: new_run_def)
qed

lemma ready_after_startup_example: "\<exists>m \<in> set served_script. ready_moment m"
proof -
  obtain x t where r: "run_worker plain_env (new_run served_script) = (x, t)" by fastforce
  with served_run have "CallReady \<in> set (rs_calls t)" by simp
  from ready_after_startup [OF r _ this] show ?thesis by (simp add: new_run_def)
qed

text \<open>
  A cancellation that arrives while the runner awaits its own waits skips the clean-up that follows: here the
  startup failed, the runner is cancelled, the service is closed and the worker's task still runs.
\<close>

lemma cancelled_cleanup_leaves_worker:
  "let ready = quiet_moment\<lparr>mo_ready := Some (Failed (Ordinary ValueError))\<rparr>;
       r = run_worker plain_env (new_run [ready, ready\<lparr>mo_cancel := True\<rparr>])
   in fst r = Threw (Plain cancelled_error) \<and> \<not> worker_done (rs_now (snd r)) \<and>
     rs_calls (snd r) = [CallLoadTasks, CallOpen, CallSetDefault, CallInitialize, CallCreate, CallSpawn, CallRestoreDefault, CallClose]"
  by code_simp

end
