(* ===== verification/Worker_Supervisor.thy ===== *)
theory Worker_Supervisor
  imports Worker_Runtime
begin

text \<open>
  \<open>worker/supervisor.py\<close>: the parent that owns the worker process of a server, and what the child reports to it.
  The operating system is a parameter: \<open>process_ops\<close> answers the calls on the process, its group and the handles
  over a world of its own, and the calls that matter are recorded. What a call on a handle or an event raises is
  an outcome of the world; \<open>pid\<close>, \<open>join\<close>, \<open>terminate\<close> and \<open>kill\<close> of a started process do not raise.
\<close>

section \<open>Stopping a process by force\<close>

datatype signal_number = SIGTERM | SIGKILL

datatype os_family = Posix | Windows | OtherOs

datatype taskkill_end = TaskkillMissing | TaskkillTimeout | TaskkillExit int

datatype handle = ReceiveEnd | SendEnd | ProcessHandle

datatype os_call =
    GroupSignal int signal_number | ProcessTerminate | ProcessKill | TreeKill int | ProcessJoin rat
  | SetStopEvent | CloseHandle handle | ParentShutdown

record 'w process_ops =
  po_pid :: "int option"
  po_alive :: "'w \<Rightarrow> (base_exception + bool) \<times> 'w"
  po_getpgid :: "int \<Rightarrow> 'w \<Rightarrow> int option \<times> 'w"
  po_killpg :: "int \<Rightarrow> signal_number \<Rightarrow> 'w \<Rightarrow> bool \<times> 'w"
  po_join :: "rat \<Rightarrow> 'w \<Rightarrow> 'w"
  po_terminate :: "'w \<Rightarrow> 'w"
  po_kill :: "'w \<Rightarrow> 'w"
  po_taskkill :: "int \<Rightarrow> 'w \<Rightarrow> taskkill_end \<times> 'w"
  po_set_stop :: "'w \<Rightarrow> base_exception option \<times> 'w"
  po_close :: "handle \<Rightarrow> 'w \<Rightarrow> base_exception option \<times> 'w"

record 'w os =
  os_world :: 'w
  os_calls :: "os_call list"

definition FORCE_STOP_TIMEOUT :: rat where
  "FORCE_STOP_TIMEOUT = 5"

definition os_record :: "os_call \<Rightarrow> 'w \<Rightarrow> 'w os \<Rightarrow> 'w os" where
  "os_record c w s = \<lparr>os_world = w, os_calls = os_calls s @ [c]\<rparr>"

definition join_process :: "'w process_ops \<Rightarrow> rat \<Rightarrow> 'w os \<Rightarrow> 'w os" where
  "join_process ops timeout s = os_record (ProcessJoin timeout) (po_join ops timeout (os_world s)) s"

definition terminate_process :: "'w process_ops \<Rightarrow> 'w os \<Rightarrow> 'w os" where
  "terminate_process ops s = os_record ProcessTerminate (po_terminate ops (os_world s)) s"

definition kill_process :: "'w process_ops \<Rightarrow> 'w os \<Rightarrow> 'w os" where
  "kill_process ops s = os_record ProcessKill (po_kill ops (os_world s)) s"

text \<open>\<open>process.is_alive()\<close>\<close>

definition process_alive :: "'w process_ops \<Rightarrow> 'w os \<Rightarrow> (base_exception + bool) \<times> 'w os" where
  "process_alive ops s = (case po_alive ops (os_world s) of (x, w) \<Rightarrow> (x, s\<lparr>os_world := w\<rparr>))"

text \<open>The error is \<open>_QueueProcessCleanupError\<close>, or what \<open>is_alive\<close> raised.\<close>

abbreviation cleanup_error :: base_exception where
  "cleanup_error \<equiv> Ordinary (ApiError ''_QueueProcessCleanupError'' None)"

definition kill_if_alive :: "'w process_ops \<Rightarrow> 'w os \<Rightarrow> base_exception option \<times> 'w os" where
  "kill_if_alive ops s =
     (case process_alive ops s of
        (Inl e, s') \<Rightarrow> (Some e, s')
      | (Inr alive, s') \<Rightarrow> (Some cleanup_error, if alive then kill_process ops s' else s'))"

definition kill_windows_process_tree :: "'w process_ops \<Rightarrow> 'w os \<Rightarrow> base_exception option \<times> 'w os" where
  "kill_windows_process_tree ops s =
     (case po_pid ops of
        None \<Rightarrow> (Some cleanup_error, s)
      | Some pid \<Rightarrow>
          (case po_taskkill ops pid (os_world s) of
             (r, w) \<Rightarrow>
               let s' = os_record (TreeKill pid) w s
               in if r = TaskkillExit 0 then (None, s') else kill_if_alive ops s'))"

definition verified_kill_process_group :: "'w process_ops \<Rightarrow> signal_number \<Rightarrow> 'w os \<Rightarrow> bool \<times> 'w os" where
  "verified_kill_process_group ops sig s =
     (case po_pid ops of
        None \<Rightarrow> (False, s)
      | Some pid \<Rightarrow>
          (case po_getpgid ops pid (os_world s) of
             (None, w) \<Rightarrow> (False, s\<lparr>os_world := w\<rparr>)
           | (Some pgid, w) \<Rightarrow>
               if pgid \<noteq> pid then (False, s\<lparr>os_world := w\<rparr>)
               else (case po_killpg ops pgid sig w of (sent, w') \<Rightarrow> (sent, os_record (GroupSignal pgid sig) w' s))))"

text \<open>\<open>process.terminate()\<close> and what follows it.\<close>

definition terminate_then_kill :: "'w process_ops \<Rightarrow> 'w os \<Rightarrow> base_exception option \<times> 'w os" where
  "terminate_then_kill ops s =
     (case process_alive ops (join_process ops FORCE_STOP_TIMEOUT (terminate_process ops s)) of
        (Inl e, t) \<Rightarrow> (Some e, t)
      | (Inr alive, t) \<Rightarrow> (None, if alive then join_process ops FORCE_STOP_TIMEOUT (kill_process ops t) else t))"

definition force_stop_process :: "os_family \<Rightarrow> 'w process_ops \<Rightarrow> 'w os \<Rightarrow> base_exception option \<times> 'w os" where
  "force_stop_process family ops s =
     (if family = Windows
      then (case kill_windows_process_tree ops s of (e, t) \<Rightarrow> (e, join_process ops FORCE_STOP_TIMEOUT t))
      else if family = Posix
      then (case verified_kill_process_group ops SIGTERM s of
              (False, t) \<Rightarrow> terminate_then_kill ops t
            | (True, t) \<Rightarrow>
                (case process_alive ops (join_process ops FORCE_STOP_TIMEOUT t) of
                   (Inl e, u) \<Rightarrow> (Some e, u)
                 | (Inr False, u) \<Rightarrow> (None, u)
                 | (Inr True, u) \<Rightarrow>
                     (case verified_kill_process_group ops SIGKILL u of
                        (True, v) \<Rightarrow> (None, join_process ops FORCE_STOP_TIMEOUT v)
                      | (False, v) \<Rightarrow> (None, join_process ops FORCE_STOP_TIMEOUT (kill_process ops v)))))
      else terminate_then_kill ops s)"

section \<open>The supervisor\<close>

text \<open>\<open>su_stop_event\<close>, \<open>su_watchdog\<close>: whether the event and the watching thread exist; \<open>su_held\<close>: the handles not yet closed.\<close>

record 'w supervisor =
  su_started :: bool
  su_expected_stop :: bool
  su_shutdown_requested :: bool
  su_held :: "handle list"
  su_stop_event :: bool
  su_watchdog :: bool
  su_os :: "'w os"

definition new_supervisor :: "'w \<Rightarrow> 'w supervisor" where
  "new_supervisor w =
     \<lparr>su_started = False, su_expected_stop = False, su_shutdown_requested = False, su_held = [], su_stop_event = False,
      su_watchdog = False, su_os = \<lparr>os_world = w, os_calls = []\<rparr>\<rparr>"

definition close_handle :: "'w process_ops \<Rightarrow> handle \<Rightarrow> 'w supervisor \<Rightarrow> base_exception option \<times> 'w supervisor" where
  "close_handle ops h s =
     (if h \<notin> set (su_held s) then (None, s)
      else case po_close ops h (os_world (su_os s)) of
        (e, w) \<Rightarrow>
          let s' = s\<lparr>su_os := os_record (CloseHandle h) w (su_os s)\<rparr>
          in if e \<noteq> None then (e, s') else (None, s'\<lparr>su_held := filter (\<lambda>x. x \<noteq> h) (su_held s')\<rparr>))"

fun close_handle_list :: "'w process_ops \<Rightarrow> handle list \<Rightarrow> 'w supervisor \<Rightarrow> base_exception option \<times> 'w supervisor" where
  "close_handle_list ops [] s = (None, s)"
| "close_handle_list ops (h # hs) s =
     (case close_handle ops h s of
        (e, s') \<Rightarrow> (case close_handle_list ops hs s' of (e', s'') \<Rightarrow> (if e \<noteq> None then e else e', s'')))"

definition close_handles :: "'w process_ops \<Rightarrow> 'w supervisor \<Rightarrow> base_exception option \<times> 'w supervisor" where
  "close_handles ops s =
     (case close_handle_list ops [ReceiveEnd, SendEnd, ProcessHandle] s of
        (e, s') \<Rightarrow> (e, if su_held s' = [] then s'\<lparr>su_stop_event := False\<rparr> else s'))"

text \<open>\<open>stop_event.set()\<close>, when there is an event.\<close>

definition set_stop_event :: "'w process_ops \<Rightarrow> 'w supervisor \<Rightarrow> base_exception option \<times> 'w supervisor" where
  "set_stop_event ops s =
     (if \<not> su_stop_event s then (None, s)
      else case po_set_stop ops (os_world (su_os s)) of (e, w) \<Rightarrow> (e, s\<lparr>su_os := os_record SetStopEvent w (su_os s)\<rparr>))"

definition cleanup_failed_start :: "os_family \<Rightarrow> 'w process_ops \<Rightarrow> 'w supervisor \<Rightarrow> 'w supervisor" where
  "cleanup_failed_start family ops s =
     (let s1 = snd (set_stop_event ops (s\<lparr>su_expected_stop := True\<rparr>));
          s2 = (if ProcessHandle \<in> set (su_held s1)
                then (case process_alive ops (su_os s1) of
                        (x, u) \<Rightarrow>
                          if x = Inr False then s1\<lparr>su_os := u\<rparr>
                          else s1\<lparr>su_os := snd (force_stop_process family ops u)\<rparr>)
                else s1)
      in snd (close_handles ops s2))"

section \<open>Startup messages\<close>

definition RUNNER_STAGES :: "string list" where
  "RUNNER_STAGES = [''load_tasks'', ''open_service'', ''initialize_schedules'', ''start_worker'']"

definition BOOTSTRAP_STAGES :: "string list" where
  "BOOTSTRAP_STAGES = [''bootstrap'', ''load_app'', ''resolve_plugin'', ''validate'']"

definition SAFE_STAGES :: "string list" where
  "SAFE_STAGES = RUNNER_STAGES @ BOOTSTRAP_STAGES"

definition is_word_char :: "char \<Rightarrow> bool" where
  "is_word_char c \<longleftrightarrow> (CHR ''a'' \<le> c \<and> c \<le> CHR ''z'') \<or> (CHR ''A'' \<le> c \<and> c \<le> CHR ''Z'') \<or> c = CHR ''_''"

definition is_digit_char :: "char \<Rightarrow> bool" where
  "is_digit_char c \<longleftrightarrow> CHR ''0'' \<le> c \<and> c \<le> CHR ''9''"

text \<open>\<open>str.isidentifier\<close> of an ASCII text.\<close>

definition is_identifier :: "string \<Rightarrow> bool" where
  "is_identifier s = (case s of [] \<Rightarrow> False | c # cs \<Rightarrow> is_word_char c \<and> list_all (\<lambda>d. is_word_char d \<or> is_digit_char d) cs)"

fun is_safe_exception_type :: "pyval \<Rightarrow> bool" where
  "is_safe_exception_type (PStr s) = is_identifier s"
| "is_safe_exception_type v = False"

text \<open>An object read from the pipe: a tuple or something else.\<close>

datatype pipe_object = WireTuple "pyval list" | WireOther

datatype receive_end = ReceiveEof | ReceiveRaised base_exception | Received pipe_object

text \<open>What the wait for the first message shows.\<close>

record startup_view =
  sv_connection_ready :: bool
  sv_received :: receive_end
  sv_sentinel_ready :: bool
  sv_exited :: bool

datatype start_error = AlreadyStarted | StartFailure string string | StartRaised base_exception

definition message_is_ready :: "int option \<Rightarrow> pyval list \<Rightarrow> bool" where
  "message_is_ready pid m =
     (case m of
        [PStr tag, PInt n] \<Rightarrow> tag = ''ready'' \<and> pid = Some n
      | [PStr tag, PBool b] \<Rightarrow> tag = ''ready'' \<and> pid = Some (if b then 1 else 0)
      | _ \<Rightarrow> False)"

definition message_error :: "pyval list \<Rightarrow> (string \<times> string) option" where
  "message_error m =
     (case m of
        [PStr tag, PStr stage, PStr name] \<Rightarrow>
          if tag = ''error'' \<and> stage \<in> set SAFE_STAGES \<and> is_safe_exception_type (PStr name) then Some (stage, name) else None
      | _ \<Rightarrow> None)"

definition receive_startup :: "int option \<Rightarrow> startup_view \<Rightarrow> start_error option" where
  "receive_startup pid v =
     (if sv_connection_ready v
      then (case sv_received v of
              ReceiveEof \<Rightarrow> Some (StartFailure ''bootstrap'' ''EOFError'')
            | ReceiveRaised e \<Rightarrow> Some (StartRaised e)
            | Received (WireTuple m) \<Rightarrow>
                if message_is_ready pid m then None
                else (case message_error m of
                        Some (stage, name) \<Rightarrow> Some (StartFailure stage name)
                      | None \<Rightarrow> Some (StartFailure ''bootstrap'' ''ProtocolError''))
            | Received WireOther \<Rightarrow> Some (StartFailure ''bootstrap'' ''ProtocolError''))
      else if sv_sentinel_ready v \<or> sv_exited v then Some (StartFailure ''bootstrap'' ''ChildProcessError'')
      else Some (StartFailure ''bootstrap'' ''TimeoutError''))"

section \<open>Start and close\<close>

text \<open>What the steps of a start raise; starting the process and the wait act on the world.\<close>

record 'w start_env =
  se_prepare :: "base_exception option"
  se_process :: "base_exception option"
  se_start :: "'w \<Rightarrow> base_exception option \<times> 'w"
  se_wait :: "'w \<Rightarrow> startup_view \<times> 'w"
  se_thread :: "base_exception option"
  se_watch :: "base_exception option"

definition failed_start :: "os_family \<Rightarrow> 'w process_ops \<Rightarrow> start_error \<Rightarrow> 'w supervisor \<Rightarrow> start_error option \<times> 'w supervisor" where
  "failed_start family ops e s = (Some e, cleanup_failed_start family ops s)"

definition on_world :: "('w \<Rightarrow> 'a \<times> 'w) \<Rightarrow> 'w supervisor \<Rightarrow> 'a \<times> 'w supervisor" where
  "on_world f s = (case f (os_world (su_os s)) of (x, w) \<Rightarrow> (x, s\<lparr>su_os := (su_os s)\<lparr>os_world := w\<rparr>\<rparr>))"

definition supervisor_start ::
    "os_family \<Rightarrow> 'w process_ops \<Rightarrow> 'w start_env \<Rightarrow> 'w supervisor \<Rightarrow> start_error option \<times> 'w supervisor" where
  "supervisor_start family ops env s =
     (if su_started s then (Some AlreadyStarted, s)
      else
        let s1 = s\<lparr>su_started := True\<rparr>
        in case se_prepare env of
             Some e \<Rightarrow> (Some (StartRaised e), s1)
           | None \<Rightarrow>
               let s2 = s1\<lparr>su_held := [ReceiveEnd, SendEnd]\<rparr>
               in case se_process env of
                    Some e \<Rightarrow> (Some (StartRaised e), snd (close_handles ops s2))
                  | None \<Rightarrow>
                      let s3 = s2\<lparr>su_held := [ReceiveEnd, SendEnd, ProcessHandle], su_stop_event := True\<rparr>
                      in case on_world (se_start env) s3 of
                           (Some e, s4) \<Rightarrow> failed_start family ops (StartRaised e) s4
                         | (None, s4) \<Rightarrow>
                             (case close_handle ops SendEnd s4 of
                                (Some e, s5) \<Rightarrow> failed_start family ops (StartRaised e) s5
                              | (None, s5) \<Rightarrow>
                                  (case on_world (se_wait env) s5 of
                                     (v, s6) \<Rightarrow>
                                       (case receive_startup (po_pid ops) v of
                                          Some e \<Rightarrow> failed_start family ops e s6
                                        | None \<Rightarrow>
                                            (case se_thread env of
                                               Some e \<Rightarrow> failed_start family ops (StartRaised e) s6
                                             | None \<Rightarrow>
                                                 let s7 = s6\<lparr>su_watchdog := True\<rparr>
                                                 in (case se_watch env of
                                                       Some e \<Rightarrow> failed_start family ops (StartRaised e) s7
                                                     | None \<Rightarrow> (None, s7)))))))"

text \<open>\<open>close\<close> up to the join of the process, and from there.\<close>

definition close_begin :: "'w process_ops \<Rightarrow> 'w supervisor \<Rightarrow> base_exception option \<times> 'w supervisor" where
  "close_begin ops s = set_stop_event ops (s\<lparr>su_expected_stop := True\<rparr>)"

definition close_process :: "os_family \<Rightarrow> 'w process_ops \<Rightarrow> rat \<Rightarrow> 'w supervisor \<Rightarrow> base_exception option \<times> 'w supervisor" where
  "close_process family ops patience s =
     (if ProcessHandle \<in> set (su_held s)
      then (case process_alive ops (join_process ops patience (su_os s)) of
              (Inl e, u) \<Rightarrow> (Some e, s\<lparr>su_os := u\<rparr>)
            | (Inr False, u) \<Rightarrow> (None, s\<lparr>su_os := u\<rparr>)
            | (Inr True, u) \<Rightarrow> (case force_stop_process family ops u of (e, u') \<Rightarrow> (e, s\<lparr>su_os := u'\<rparr>)))
      else (None, s))"

definition close_finish ::
    "os_family \<Rightarrow> 'w process_ops \<Rightarrow> rat \<Rightarrow> base_exception option \<Rightarrow> 'w supervisor \<Rightarrow> base_exception option \<times> 'w supervisor" where
  "close_finish family ops patience e1 s1 =
     (case close_process family ops patience s1 of
        (e2, s2) \<Rightarrow>
          (case close_handles ops s2 of
             (e3, s3) \<Rightarrow> (if e1 \<noteq> None then e1 else if e2 \<noteq> None then e2 else e3, s3)))"

definition supervisor_close ::
    "os_family \<Rightarrow> 'w process_ops \<Rightarrow> rat \<Rightarrow> 'w supervisor \<Rightarrow> base_exception option \<times> 'w supervisor" where
  "supervisor_close family ops patience s =
     (if su_held s = [] then (None, s)
      else case close_begin ops s of (e1, s1) \<Rightarrow> close_finish family ops patience e1 s1)"

section \<open>The watching thread\<close>

definition CONSOLE_CONTROL_EXITS :: "int list" where
  "CONSOLE_CONTROL_EXITS = [3221225786, 3221225786 - 4294967296]"

text \<open>\<open>_watch_child\<close> after its join: the test and what it claims, then the report, then the handles.\<close>

definition watch_check :: "'w supervisor \<Rightarrow> bool \<times> 'w supervisor" where
  "watch_check s =
     (if su_expected_stop s \<or> su_shutdown_requested s then (False, s) else (True, s\<lparr>su_shutdown_requested := True\<rparr>))"

text \<open>Reading \<open>exitcode\<close> of a process whose handle was closed raises, and the thread goes on to its \<open>finally\<close>.\<close>

definition watch_report :: "int option \<Rightarrow> 'w supervisor \<Rightarrow> 'w supervisor" where
  "watch_report exit_code s =
     (if ProcessHandle \<notin> set (su_held s) then s
      else if (case exit_code of None \<Rightarrow> - 1 | Some n \<Rightarrow> n) \<in> set CONSOLE_CONTROL_EXITS then s
      else s\<lparr>su_os := os_record ParentShutdown (os_world (su_os s)) (su_os s)\<rparr>)"

text \<open>
  The thread, the caller of \<open>close\<close> and the process interleave. \<open>wa_lock\<close> is the lock, which \<open>close\<close> holds from its
  first to its last step and with which the thread closes the handles; \<open>wa_exit\<close> is the exit code of the process,
  with whether no close had begun when it ended.
\<close>

datatype watch_phase = WatchJoining | WatchChecking | WatchReporting | WatchClosing | WatchDone

record 'w watched =
  wa_supervisor :: "'w supervisor"
  wa_phase :: watch_phase
  wa_lock :: bool
  wa_error :: "base_exception option"
  wa_exit :: "(int \<times> bool) option"

inductive watch_step :: "os_family \<Rightarrow> 'w process_ops \<Rightarrow> rat \<Rightarrow> 'w watched \<Rightarrow> 'w watched \<Rightarrow> bool"
  for family ops patience where
  process_exits: "wa_exit c = None \<Longrightarrow>
    watch_step family ops patience c (c\<lparr>wa_exit := Some (code, \<not> su_expected_stop (wa_supervisor c))\<rparr>)"
| thread_joins: "wa_phase c = WatchJoining \<Longrightarrow> wa_exit c \<noteq> None \<or> ProcessHandle \<notin> set (su_held (wa_supervisor c)) \<Longrightarrow>
    watch_step family ops patience c (c\<lparr>wa_phase := WatchChecking\<rparr>)"
| thread_checks: "wa_phase c = WatchChecking \<Longrightarrow> watch_check (wa_supervisor c) = (b, s) \<Longrightarrow>
    watch_step family ops patience c (c\<lparr>wa_supervisor := s, wa_phase := if b then WatchReporting else WatchClosing\<rparr>)"
| thread_reports: "wa_phase c = WatchReporting \<Longrightarrow>
    watch_step family ops patience c
      (c\<lparr>wa_supervisor := watch_report (map_option fst (wa_exit c)) (wa_supervisor c), wa_phase := WatchClosing\<rparr>)"
| thread_closes: "wa_phase c = WatchClosing \<Longrightarrow> \<not> wa_lock c \<Longrightarrow>
    watch_step family ops patience c (c\<lparr>wa_supervisor := snd (close_handles ops (wa_supervisor c)), wa_phase := WatchDone\<rparr>)"
| close_begins: "\<not> wa_lock c \<Longrightarrow> su_held (wa_supervisor c) \<noteq> [] \<Longrightarrow> close_begin ops (wa_supervisor c) = (e, s) \<Longrightarrow>
    watch_step family ops patience c (c\<lparr>wa_supervisor := s, wa_lock := True, wa_error := e\<rparr>)"
| close_ends: "wa_lock c \<Longrightarrow> close_finish family ops patience (wa_error c) (wa_supervisor c) = (e, s) \<Longrightarrow>
    watch_step family ops patience c (c\<lparr>wa_supervisor := s, wa_lock := False, wa_error := None\<rparr>)"

abbreviation watch_steps :: "os_family \<Rightarrow> 'w process_ops \<Rightarrow> rat \<Rightarrow> 'w watched \<Rightarrow> 'w watched \<Rightarrow> bool" where
  "watch_steps family ops patience \<equiv> (watch_step family ops patience)\<^sup>*\<^sup>*"

text \<open>A supervisor just started.\<close>

definition watch_starts :: "'w supervisor \<Rightarrow> 'w watched" where
  "watch_starts s = \<lparr>wa_supervisor = s, wa_phase = WatchJoining, wa_lock = False, wa_error = None, wa_exit = None\<rparr>"

end
