(* ===== verification/Worker_Supervisor_Properties.thy ===== *)
theory Worker_Supervisor_Properties
  imports Worker_Supervisor
begin

text \<open>
  What the supervisor guarantees: whom a forced stop signals and that it ends the process, that a start is all or
  nothing and a close complete, and when the watching thread asks the server to stop.
\<close>

section \<open>Forced stops\<close>

lemma os_calls_simps [simp]:
  "os_calls (os_record c w s) = os_calls s @ [c]" "os_world (os_record c w s) = w"
  "os_calls (join_process ops r s) = os_calls s @ [ProcessJoin r]" "os_calls (kill_process ops s) = os_calls s @ [ProcessKill]"
  "os_calls (terminate_process ops s) = os_calls s @ [ProcessTerminate]"
  "os_calls (snd (process_alive ops s)) = os_calls s"
  by (simp_all add: os_record_def join_process_def kill_process_def terminate_process_def process_alive_def split: prod.split)

lemma process_alive_calls: "process_alive ops s = (x, t) \<Longrightarrow> os_calls t = os_calls s"
  by (metis os_calls_simps(6) snd_conv)

definition own_group :: "'w process_ops \<Rightarrow> int \<Rightarrow> bool" where
  "own_group ops g \<longleftrightarrow> po_pid ops = Some g \<and> (\<exists>w. fst (po_getpgid ops g w) = Some g)"

lemma group_kill_calls:
  "verified_kill_process_group ops sig s = (b, t) \<Longrightarrow>
     (\<exists>cs. os_calls t = os_calls s @ cs \<and> (cs = [] \<and> \<not> b \<or> (\<exists>g. cs = [GroupSignal g sig] \<and> own_group ops g)))"
  unfolding own_group_def
  by (auto simp: verified_kill_process_group_def split: option.splits prod.splits if_splits) (metis fst_conv)+

text \<open>The calls of a forced stop, as the code escalates them.\<close>

definition LAST_RESORT :: "os_call list list" where
  "LAST_RESORT =
     [[ProcessTerminate, ProcessJoin FORCE_STOP_TIMEOUT],
      [ProcessTerminate, ProcessJoin FORCE_STOP_TIMEOUT, ProcessKill, ProcessJoin FORCE_STOP_TIMEOUT]]"

definition group_stop :: "int \<Rightarrow> os_call list list" where
  "group_stop g =
     (let term = [GroupSignal g SIGTERM, ProcessJoin FORCE_STOP_TIMEOUT]
      in [term, term @ [GroupSignal g SIGKILL, ProcessJoin FORCE_STOP_TIMEOUT],
          term @ [GroupSignal g SIGKILL, ProcessKill, ProcessJoin FORCE_STOP_TIMEOUT],
          term @ [ProcessKill, ProcessJoin FORCE_STOP_TIMEOUT]] @
         map (\<lambda>cs. GroupSignal g SIGTERM # cs) LAST_RESORT)"

lemma terminate_then_kill_calls:
  "terminate_then_kill ops s = (e, t) \<Longrightarrow> \<exists>cs \<in> set LAST_RESORT. os_calls t = os_calls s @ cs"
  unfolding terminate_then_kill_def
  by (auto simp: LAST_RESORT_def dest!: process_alive_calls split: prod.splits sum.splits if_splits)

lemma force_stop_calls:
  assumes "force_stop_process family ops s = (e, v)" "family \<noteq> Windows"
  shows "\<exists>cs. os_calls v = os_calls s @ cs \<and> (cs \<in> set LAST_RESORT \<or> (\<exists>g. own_group ops g \<and> family = Posix \<and> cs \<in> set (group_stop g)))"
proof (cases "family = Posix")
  case False
  with assms terminate_then_kill_calls [of ops s e v] show ?thesis by (auto simp: force_stop_process_def)
next
  case True
  obtain b t where k: "verified_kill_process_group ops SIGTERM s = (b, t)" by fastforce
  show ?thesis
  proof (cases b)
    case False
    with assms True k have "terminate_then_kill ops t = (e, v)" by (simp add: force_stop_process_def)
    from terminate_then_kill_calls [OF this] group_kill_calls [OF k] True show ?thesis
      by (fastforce simp: group_stop_def Let_def)
  next
    case True
    with group_kill_calls [OF k] obtain g where g: "own_group ops g" "os_calls t = os_calls s @ [GroupSignal g SIGTERM]" by auto
    obtain x u where a: "process_alive ops (join_process ops FORCE_STOP_TIMEOUT t) = (x, u)" by fastforce
    with g(2) have u: "os_calls u = os_calls s @ [GroupSignal g SIGTERM, ProcessJoin FORCE_STOP_TIMEOUT]"
      by (auto dest: process_alive_calls)
    obtain b' w where k': "verified_kill_process_group ops SIGKILL u = (b', w)" by fastforce
    from group_kill_calls [OF k'] g(1) have "os_calls w = os_calls u @ [GroupSignal g SIGKILL] \<or> \<not> b' \<and> os_calls w = os_calls u"
      by (auto simp: own_group_def)
    with assms True \<open>family = Posix\<close> k a u k' g(1) show ?thesis
      by (auto simp: force_stop_process_def group_stop_def Let_def split: sum.splits bool.splits)
  qed
qed

text \<open>
  What the documentation of the calls promises: asking whether a process lives changes nothing and does not raise for
  a process that was started, and a process that was sent \<open>SIGKILL\<close>, itself or as the leader of its group, is dead
  once it was joined.
\<close>

definition killable :: "'w process_ops \<Rightarrow> bool" where
  "killable ops \<longleftrightarrow>
     (\<forall>w. \<exists>b w'. po_alive ops w = (Inr b, w') \<and> fst (po_alive ops w') = Inr b) \<and>
     (\<forall>w g w' r. po_killpg ops g SIGKILL w = (True, w') \<and> po_pid ops = Some g \<longrightarrow> fst (po_alive ops (po_join ops r w')) = Inr False) \<and>
     (\<forall>w r. fst (po_alive ops (po_join ops r (po_kill ops w))) = Inr False)"

lemma alive_answer:
  assumes "killable ops" "process_alive ops s = (x, t)"
  shows "\<exists>b. x = Inr b \<and> fst (po_alive ops (os_world t)) = Inr b"
proof -
  from assms(1) obtain b w where "po_alive ops (os_world s) = (Inr b, w)" "fst (po_alive ops w) = Inr b"
    unfolding killable_def by blast
  moreover from this assms(2) have "x = Inr b" "t = s\<lparr>os_world := w\<rparr>" by (simp_all add: process_alive_def)
  ultimately show ?thesis by simp
qed

lemma killed_dead: "killable ops \<Longrightarrow> fst (po_alive ops (os_world (join_process ops r (kill_process ops s)))) = Inr False"
  by (simp add: killable_def join_process_def kill_process_def)

lemma group_killed_dead:
  "killable ops \<Longrightarrow> verified_kill_process_group ops SIGKILL s = (True, t) \<Longrightarrow>
     fst (po_alive ops (os_world (join_process ops r t))) = Inr False"
  by (auto simp: killable_def verified_kill_process_group_def join_process_def split: option.splits prod.splits if_splits)

lemma terminate_then_kill_dead:
  assumes "killable ops" "terminate_then_kill ops s = (e, t)"
  shows "e = None \<and> fst (po_alive ops (os_world t)) = Inr False"
  using assms(2) killed_dead [OF assms(1)] unfolding terminate_then_kill_def
  by (auto dest!: alive_answer [OF assms(1)] split: prod.splits sum.splits if_splits)

lemma force_stop_ends_dead:
  assumes "killable ops" "family \<noteq> Windows" "force_stop_process family ops s = (e, t)"
  shows "e = None \<and> fst (po_alive ops (os_world t)) = Inr False"
  using assms terminate_then_kill_dead [OF assms(1)] killed_dead [OF assms(1)] group_killed_dead [OF assms(1)]
  by (auto simp: force_stop_process_def dest!: alive_answer [OF assms(1)] split: if_splits prod.splits bool.splits sum.splits)

text \<open>A forced stop of the worker process ends it, and touches nothing else: the process is dead afterwards, a
  termination was asked for and joined before any kill, and a group is signalled only on POSIX and only when the
  operating system said that the worker leads it.\<close>

theorem force_stop_ends_process:
  assumes "killable ops" "family \<noteq> Windows" "force_stop_process family ops s = (e, t)"
  shows "e = None \<and> fst (po_alive ops (os_world t)) = Inr False \<and>
    (\<exists>cs. os_calls t = os_calls s @ cs \<and> (cs \<in> set LAST_RESORT \<or> (\<exists>g. own_group ops g \<and> family = Posix \<and> cs \<in> set (group_stop g))))"
  using force_stop_ends_dead [OF assms] force_stop_calls [OF assms(3,2)] by blast

section \<open>Handles\<close>

definition closable :: "'w process_ops \<Rightarrow> bool" where
  "closable ops \<longleftrightarrow> (\<forall>h w. fst (po_close ops h w) = None)"

lemma close_handle_held: "set (su_held (snd (close_handle ops h s))) \<subseteq> set (su_held s)"
  by (auto simp: close_handle_def Let_def split: prod.split)

lemma close_list_held: "set (su_held (snd (close_handle_list ops hs s))) \<subseteq> set (su_held s)"
proof (induction hs arbitrary: s)
  case (Cons h hs)
  then show ?case using close_handle_held [of ops h s] by (fastforce split: prod.splits)
qed simp

lemma close_handle_closable:
  assumes "closable ops"
  shows "fst (close_handle ops h s) = None \<and> set (su_held (snd (close_handle ops h s))) = set (su_held s) - {h}"
proof -
  have "fst (po_close ops h w) = None" for w using assms by (simp add: closable_def)
  then show ?thesis by (auto simp: close_handle_def Let_def split: prod.splits) (metis fst_conv option.distinct(1))+
qed

lemma close_list_closable:
  assumes "closable ops"
  shows "fst (close_handle_list ops hs s) = None \<and> set (su_held (snd (close_handle_list ops hs s))) = set (su_held s) - set hs"
proof (induction hs arbitrary: s)
  case (Cons h hs)
  obtain e t where h: "close_handle ops h s = (e, t)" by fastforce
  with close_handle_closable [OF assms, of h s] have "e = None" "set (su_held t) = set (su_held s) - {h}" by auto
  with Cons.IH [of t] h show ?case by (auto split: prod.splits)
qed simp

lemma close_handles_closable:
  assumes "closable ops"
  shows "fst (close_handles ops s) = None \<and> su_held (snd (close_handles ops s)) = [] \<and> \<not> su_stop_event (snd (close_handles ops s))"
proof -
  obtain e t where c: "close_handle_list ops [ReceiveEnd, SendEnd, ProcessHandle] s = (e, t)" by fastforce
  from close_list_closable [OF assms, of "[ReceiveEnd, SendEnd, ProcessHandle]" s] c
  have e: "e = None" and t: "set (su_held t) = set (su_held s) - {ReceiveEnd, SendEnd, ProcessHandle}" by simp_all
  have "x \<notin> set (su_held t)" for x unfolding t by (cases x) simp_all
  then have "su_held t = []" by (metis list.set_intros(1) neq_Nil_conv)
  with c e show ?thesis by (simp add: close_handles_def)
qed

section \<open>Start and close\<close>

text \<open>The fields that calls on the world leave alone.\<close>

definition same_flags :: "'w supervisor \<Rightarrow> 'w supervisor \<Rightarrow> bool" where
  "same_flags s t \<longleftrightarrow> su_started t = su_started s \<and> su_expected_stop t = su_expected_stop s \<and>
     su_shutdown_requested t = su_shutdown_requested s \<and> su_watchdog t = su_watchdog s"

lemma close_handle_flags: "close_handle ops h s = (e, t) \<Longrightarrow> same_flags s t \<and> su_stop_event t = su_stop_event s"
  by (auto simp: close_handle_def same_flags_def Let_def split: if_splits prod.splits)

lemma close_list_flags: "close_handle_list ops hs s = (e, t) \<Longrightarrow> same_flags s t"
proof (induction hs arbitrary: s e t)
  case (Cons h hs)
  obtain x u y v where c: "close_handle ops h s = (x, u)" "close_handle_list ops hs u = (y, v)" by (metis surj_pair)
  with Cons.prems Cons.IH [OF c(2)] close_handle_flags [OF c(1)] show ?case by (auto simp: same_flags_def)
qed (simp add: same_flags_def)

lemma close_handles_flags: "same_flags s (snd (close_handles ops s))"
proof -
  obtain x u where c: "close_handle_list ops [ReceiveEnd, SendEnd, ProcessHandle] s = (x, u)" by fastforce
  from close_list_flags [OF c] c show ?thesis by (auto simp: close_handles_def same_flags_def)
qed

lemma set_stop_event_flags:
  "same_flags s (snd (set_stop_event ops s)) \<and> su_held (snd (set_stop_event ops s)) = su_held s \<and>
   su_stop_event (snd (set_stop_event ops s)) = su_stop_event s"
  by (auto simp: set_stop_event_def same_flags_def split: prod.split)

lemma cleanup_failed_start_flags:
  "su_started (cleanup_failed_start family ops s) = su_started s \<and> su_expected_stop (cleanup_failed_start family ops s)"
proof -
  define s1 where "s1 = snd (set_stop_event ops (s\<lparr>su_expected_stop := True\<rparr>))"
  define s2 where "s2 = (if ProcessHandle \<in> set (su_held s1)
                then (case process_alive ops (su_os s1) of
                        (x, u) \<Rightarrow> if x = Inr False then s1\<lparr>su_os := u\<rparr> else s1\<lparr>su_os := snd (force_stop_process family ops u)\<rparr>)
                else s1)"
  have "same_flags (s\<lparr>su_expected_stop := True\<rparr>) s1" using set_stop_event_flags [of "s\<lparr>su_expected_stop := True\<rparr>" ops] by (simp add: s1_def)
  moreover have "same_flags s1 s2" by (auto simp: s2_def same_flags_def split: prod.split)
  moreover have "cleanup_failed_start family ops s = snd (close_handles ops s2)"
    unfolding cleanup_failed_start_def Let_def s1_def [symmetric] s2_def [symmetric] ..
  ultimately show ?thesis using close_handles_flags [of s2 ops] by (simp add: same_flags_def)
qed

lemma cleanup_closes: "closable ops \<Longrightarrow> su_held (cleanup_failed_start family ops s) = [] \<and> \<not> su_stop_event (cleanup_failed_start family ops s)"
  by (simp add: cleanup_failed_start_def Let_def close_handles_closable)

text \<open>Starting the worker process is all or nothing, and happens once. When it raises, no handle and no event is
  left; when it returns, the child reported its own process id as ready, the parent holds the receiving end and
  the process, and the watching thread runs. A second start raises and changes nothing.\<close>

theorem start_all_or_nothing:
  assumes "closable ops" "supervisor_start family ops env (new_supervisor w) = (e, s)"
  shows "(case e of
        None \<Rightarrow> su_held s = [ReceiveEnd, ProcessHandle] \<and> su_stop_event s \<and> su_watchdog s \<and> \<not> su_expected_stop s \<and>
          (\<exists>w v. v = fst (se_wait env w) \<and> receive_startup (po_pid ops) v = None)
      | Some x \<Rightarrow> su_held s = [] \<and> \<not> su_stop_event s) \<and>
    supervisor_start family ops env' s = (Some AlreadyStarted, s)"
proof -
  have send: "su_held t = [ReceiveEnd, ProcessHandle] \<and> su_stop_event t \<and> su_started t \<and> \<not> su_expected_stop t"
    if "close_handle ops SendEnd u = (None, t)" "su_held u = [ReceiveEnd, SendEnd, ProcessHandle]" "su_stop_event u" "su_started u"
      "\<not> su_expected_stop u" for t u
    using that close_handle_flags [OF that(1)] by (auto simp: close_handle_def Let_def same_flags_def split: prod.splits if_splits)
  have keep: "su_started (cleanup_failed_start family ops u) = su_started u" "su_started (snd (close_handles ops u)) = su_started u" for u
    using cleanup_failed_start_flags close_handles_flags [of u ops] by (auto simp: same_flags_def)
  have started: "su_started s"
    using assms(2)
    by (auto simp: supervisor_start_def new_supervisor_def Let_def failed_start_def on_world_def same_flags_def keep
        dest!: close_handle_flags split: option.splits prod.splits)
  have "case e of
        None \<Rightarrow> su_held s = [ReceiveEnd, ProcessHandle] \<and> su_stop_event s \<and> su_watchdog s \<and> \<not> su_expected_stop s \<and>
          (\<exists>w v. v = fst (se_wait env w) \<and> receive_startup (po_pid ops) v = None)
      | Some x \<Rightarrow> su_held s = [] \<and> \<not> su_stop_event s"
  proof (cases e)
    case None
    with assms(2) obtain u t w' v where st: "close_handle ops SendEnd u = (None, t)" "su_held u = [ReceiveEnd, SendEnd, ProcessHandle]"
        "su_stop_event u" "su_started u" "\<not> su_expected_stop u" "se_wait env (os_world (su_os t)) = (v, w')"
        "receive_startup (po_pid ops) v = None" "s = t\<lparr>su_os := (su_os t)\<lparr>os_world := w'\<rparr>, su_watchdog := True\<rparr>"
      by (auto simp: supervisor_start_def new_supervisor_def Let_def failed_start_def on_world_def split: option.splits prod.splits)
    from send [OF st(1-5)] st(6-8) None show ?thesis by (auto intro!: exI [of _ "os_world (su_os t)"])
  next
    case (Some x)
    with assms show ?thesis
      using cleanup_closes [OF assms(1)] close_handles_closable [OF assms(1)]
      by (auto simp: supervisor_start_def new_supervisor_def Let_def failed_start_def on_world_def split: option.splits prod.splits)
  qed
  with started show ?thesis by (simp add: supervisor_start_def)
qed

lemma close_process_dead:
  assumes "killable ops" "family \<noteq> Windows" "ProcessHandle \<in> set (su_held s)" "close_process family ops patience s = (e, t)"
  shows "e = None \<and> fst (po_alive ops (os_world (su_os t))) = Inr False \<and> su_held t = su_held s"
proof -
  obtain x u where a: "process_alive ops (join_process ops patience (su_os s)) = (x, u)" by fastforce
  obtain e' v where f: "force_stop_process family ops u = (e', v)" by fastforce
  from alive_answer [OF assms(1) a] obtain b where b: "x = Inr b" "fst (po_alive ops (os_world u)) = Inr b" by blast
  with assms a f force_stop_ends_dead [OF assms(1,2) f] show ?thesis
    by (cases b) (auto simp: close_process_def)
qed

text \<open>Closing the supervisor is complete and idempotent: the child is asked to stop and, if it does not, stopped by
  force, so it is dead before the handles are closed; no handle and no event is left, and closing again does
  nothing.\<close>

theorem close_complete:
  assumes "closable ops" "killable ops" "family \<noteq> Windows" "ProcessHandle \<in> set (su_held s)" "su_stop_event s"
    "supervisor_close family ops patience s = (e, t)"
  shows "(\<exists>u. fst (close_process family ops patience (snd (close_begin ops s))) = None \<and>
      u = snd (close_process family ops patience (snd (close_begin ops s))) \<and> fst (po_alive ops (os_world (su_os u))) = Inr False) \<and>
    su_held t = [] \<and> \<not> su_stop_event t \<and> su_expected_stop t \<and> supervisor_close family ops patience t = (None, t)"
proof -
  obtain e1 s1 where b: "close_begin ops s = (e1, s1)" by fastforce
  obtain e2 s2 where c: "close_process family ops patience s1 = (e2, s2)" by fastforce
  have s1: "su_held s1 = su_held s" "su_expected_stop s1"
    using b set_stop_event_flags [of "s\<lparr>su_expected_stop := True\<rparr>" ops] by (auto simp: close_begin_def same_flags_def)
  with assms(4) have "ProcessHandle \<in> set (su_held s1)" by simp
  note dead = close_process_dead [OF assms(2,3) this c]
  have exp: "su_expected_stop s2" using c s1(2) by (auto simp: close_process_def split: if_splits prod.splits sum.splits bool.splits)
  have "su_held s \<noteq> []" using assms(4) by auto
  with assms(6) b c have t: "t = snd (close_handles ops s2)" by (auto simp: supervisor_close_def close_finish_def split: prod.splits)
  with close_handles_closable [OF assms(1), of s2] close_handles_flags [of s2 ops] exp
  have "su_held t = [] \<and> \<not> su_stop_event t \<and> su_expected_stop t" by (simp add: same_flags_def)
  moreover from this have "supervisor_close family ops patience t = (None, t)" by (simp add: supervisor_close_def)
  ultimately show ?thesis using b c dead by simp
qed

end
