(* ===== verification/Spec2Isabelle.thy ===== *)
theory Spec2Isabelle
  imports Maintenance History_Buffer Live_Buffer Lifecycle Service_Schedules Worker_Loop Cloud_Run_Properties Ephemeral_Properties Ephemeral_Safety Ephemeral_Sweeps Worker_Runtime_Properties Worker_Supervisor_Properties
begin

text \<open>
  A model of \<open>litestar-queues\<close>, a task queue for Litestar applications, in plain HOL: the code under
  \<open>src/src/litestar_queues\<close>, named below relative to that directory.

  The parts of the program and how they interact. A task is declared with \<open>task.py\<close> and submitted through
  \<open>QueueService\<close> (\<open>service.py\<close>). The service writes a record into a queue backend, which owns all durable
  state: records, deduplication keys, permanent identities, leases and schedules. A worker
  (\<open>worker/worker.py\<close>) claims records and runs them, or an external platform delivers them to the push
  consumer (\<open>consumer.py\<close>). Whoever runs a record settles its attempt through the service, and the backend
  refuses the settlement of an attempt that is no longer the current one: the fence is the retry count, which
  grows with every return to the queue. Sweeps, in the worker or in \<open>maintenance.py\<close>, expire overdue records,
  recover attempts whose heartbeat stopped, redeliver, and delete old terminal records. Events about all of
  this go through a live buffer (\<open>events/buffer.py\<close>) to sinks and through a write-behind buffer
  (\<open>events/_history_buffer.py\<close>) into an event log.

  Theories, in the order of their dependencies.
  \<^item> Queue_Prelude: Python values, exceptions as \<open>py_error + 'a\<close>, dictionaries as association lists in insertion
    order, time in microseconds; the lemmas on them that all proofs use.
  \<^item> Queue_Models (\<open>models.py\<close>, \<open>execution/base.py\<close>): the record of a task with the fields of
    \<open>QueuedTaskRecord\<close>, statuses, requests, results of sweeps.
  \<^item> Backend_Helpers (\<open>backends/base.py\<close>, functions): attempts and interruptions, retry schedules, priorities.
  \<^item> Memory_Backend (\<open>backends/memory/backend.py\<close>): one definition per method over the state \<open>mem_state\<close>.
    Memory_Invariant, Memory_System, Memory_Properties, Memory_Sweeps and Memory_Witnesses prove about it the
    well-formedness invariant, what any operation may change of a record (\<open>evolves\<close>), reachability, and the
    behaviour of each method. All later theories use this backend as the store.
  \<^item> Base_Backend (\<open>backends/base.py\<close>, class): the generic methods a backend inherits, over a locale of what they
    need of a store, interpreted on the in-memory backend.
  \<^item> Event_Models, Event_Log (\<open>events/models.py\<close>, \<open>chunking.py\<close>, \<open>query.py\<close>, \<open>backends/memory/event_log.py\<close>):
    events, their history records, queries, pages, retention.
  \<^item> Maintenance (\<open>maintenance.py\<close>): fleet leases, phases, budget.
  \<^item> Schedules (\<open>task.py\<close>): backoff, intervals, cron expressions in any time zone.
  \<^item> History_Buffer, Live_Buffer: the two buffers as transition systems; the interleaving of tasks is the
    order of the steps.
  \<^item> Heartbeat (\<open>worker/heartbeat.py\<close>): registrations, misses, progress details, with the calls of other coroutines
    between a touch and its result.
  \<^item> Task_Objects (\<open>task.py\<close>): options, copies, registry. Service_Core: the ground of \<open>QueueService\<close>: a state
    monad with errors over the store and the list of published events, and the contract of execution backends.
  \<^item> Settlement and Settlement_Properties, Submission, Service_Schedules, Service_Sweeps: the operations of
    \<open>QueueService\<close> and what they guarantee.
  \<^item> Consumer, Worker_Loop, Lifecycle: delivery, the worker, opening and closing.
  \<^item> Brokers and Broker_Properties: the SQS, Pub/Sub, Kafka and RabbitMQ backends (\<open>execution/sqs\<close>, \<open>execution/pubsub\<close>,
    \<open>execution/kafka\<close>, \<open>execution/rabbitmq\<close>): attempt references, dispatch with its reservation, repair, deliveries.
  \<^item> Cloud_Tasks and Cloud_Tasks_Properties: delivery names, scheduling, repair and the delivery route of
    \<open>execution/cloudtasks\<close>.
  \<^item> Cloud_Run and Cloud_Run_Properties: reservations, dispatch, repair and reconciliation of \<open>execution/cloudrun\<close>.
  \<^item> The SQLite backend (\<open>backends/ephemeral\<close>). Iso_Time, Ephemeral_Codec: the stored texts of times and the payloads
    of records. Ephemeral_Backend: one definition per method over the rows of the tables \<open>eph_state\<close>. Ephemeral_Table,
    Ephemeral_Refinement, Ephemeral_Bulk, Ephemeral_Agreement, Ephemeral_System: the rows that mirror a state of the
    in-memory backend, and that each operation keeps the mirror and gives the same answer. Ephemeral_Properties,
    Ephemeral_Safety, Ephemeral_Sweeps: the properties, and the sweeps and batch claims, whose order of rows
    SQLite leaves open.
  \<^item> Worker_Runtime, Worker_Supervisor and their Properties: the run of one worker process (\<open>worker/runtime.py\<close>) on a
    scripted event loop, and the parent that starts, watches and stops it (\<open>worker/supervisor.py\<close>) over a parameter
    that answers the calls to the operating system.

  Conventions. An operation takes the clock readings it makes as arguments, numbered when there are several;
  fresh identifiers, random draws and the text of exceptions are arguments too. Functions of other packages
  (JSON, SHA-256, the time zone database, task bodies, dependency providers, execution backends, sinks) are
  parameters; what a theorem needs of them is a hypothesis in its statement. Floats are rationals and strings
  are ASCII, so rounding and Unicode are not covered. No definition carries fuel: loops are structural
  recursion, recursion over the remaining work, or steps of a relation. The one exception is the batch claim of
  the SQLite backend, which counts call frames: with queue limits its recursion never ends, and 100 frames are
  enough without them.
  Stores are those with \<open>mem_wf\<close>, which \<open>reachable_states_well_formed\<close> proves of every reachable state when
  callers keep the documented discipline (\<open>op_disciplined\<close>, \<open>op_ok\<close>).

  The groups of properties. Leases and settlement: a claim is exclusive, a lost lease settles nothing under
  its fence, a current one settles exactly its outcome, fenced outcomes are final, retries and interruptions are
  bounded. Claiming:
  order, limits, agreement of the generic and the native batch claim. Sweeps: which records recovery,
  expiry, cleanup and reconciliation touch, and their bounds. Identity: one active record per key, one task
  per permanent identity. Schedules: the next run, and that a recurring task keeps exactly one occurrence.
  Buffers: order, no loss, no duplicate, flushes that end. Processes: capacity and polling of the worker,
  the exit codes of the consumer under interleaved heartbeats, the balance of opening and closing, the end of a
  worker process.
  Execution backends: the four brokers share one dispatch and one repair, proved once in the locale
  \<open>broker_sender\<close> and interpreted for each; a client is a record of service actions that may raise.
  SQLite backend: payloads round trip, a failing operation rolls back, the tables keep their form under every
  operation, and a run of operations with distinct fresh ids, without batch claims and sweeps, answers as the
  in-memory backend does.

  Not modelled. The sqlspec, advanced-alchemy, Redis and Valkey backends keep the same contract as programs of
  other languages (SQL text, Lua scripts) run by servers the repository does not contain. The statements of the
  SQLite backend are modelled by what they denote; the order of the rows of a query without \<open>ORDER BY\<close> is a
  parameter (\<open>ee_plan\<close>), and so are its failures. Its server process and its event tables are left out. The
  clients of cloud services and brokers are parameters; their receive loops, web streams, metrics, logs, tracing,
  the plugin, the command line and the child's side of the worker process are input and output. The worker's
  wait over notifications, control messages and completions is only modelled by its outcome, and asyncio's
  scheduler by the nondeterminism of the step relations and by lists of turns, calls or moments that the
  statements leave open.
\<close>

end
